(* ===== verification/Katana_Prelude.thy ===== *)
theory Katana_Prelude
  imports Main "HOL-Library.Word"
begin

text \<open>
  What every part of the development shares: the machine types of \<^verbatim>\<open>src/src/types.h\<close> and
  \<^verbatim>\<open>src/src/util/util.h\<close>, the ways a run of the C code can fail, the sequencing of
  operations that can fail, reads and little-endian copies of raw memory, and the lemmas about
  them.  The target is the 64-bit one (\<^verbatim>\<open>KATANA_X86_64_ARCH\<close> in \<^verbatim>\<open>src/src/arch.h\<close>), which is
  little-endian.
\<close>

unbundle bit_operations_syntax

named_theorems fault_simps \<open>how operations that can fail compose\<close>
named_theorems le_simps \<open>little-endian copies\<close>

section \<open>Machine types\<close>

type_synonym byte = "8 word"
type_synonym uint = "32 word"
type_synonym addr_t = "64 word"
type_synonym word_t = "64 word"

text \<open>\<^verbatim>\<open>usint\<close> is a 16-bit count; it is kept as a number with the truncation written out.\<close>

definition to_usint :: "nat \<Rightarrow> nat" where
  "to_usint n = n mod 65536"

lemma to_usint_small [simp]: "n < 65536 \<Longrightarrow> to_usint n = n"
  by (simp add: to_usint_def)

lemma to_usint_le [simp]: "to_usint n \<le> n"
  by (simp add: to_usint_def)

section \<open>Failure\<close>

text \<open>
  A run either returns a value or stops: a failed \<^verbatim>\<open>assert\<close>, a call of \<^verbatim>\<open>death\<close>
  (\<^verbatim>\<open>src/src/util/util.c\<close>), or behaviour the C standard leaves undefined: a read or write
  outside an object, a null pointer followed, freed memory used, a shift by at least the width
  of the promoted operand, an integer division by zero.  \<open>Diverges\<close> stands for a pointer walk
  that goes round a cycle.
\<close>

datatype fault = AssertFail | Death | OutOfBounds | NullDeref | UseAfterFree
  | UndefinedShift | DivideByZero | Diverges

type_synonym 'a result = "fault + 'a"

definition bindE :: "'a result \<Rightarrow> ('a \<Rightarrow> 'b result) \<Rightarrow> 'b result" where
  "bindE m f = (case m of Inl e \<Rightarrow> Inl e | Inr x \<Rightarrow> f x)"

definition guardE :: "bool \<Rightarrow> fault \<Rightarrow> unit result" where
  "guardE b e = (if b then Inr () else Inl e)"

lemma bindE_simps [simp, fault_simps]:
  "bindE (Inl e) f = Inl e"
  "bindE (Inr x) f = f x"
  by (simp_all add: bindE_def)

lemma guardE_simps [simp, fault_simps]:
  "guardE True e = Inr ()"
  "guardE False e = Inl e"
  by (simp_all add: guardE_def)

lemma bindE_assoc [fault_simps]: "bindE (bindE m f) g = bindE m (\<lambda>x. bindE (f x) g)"
  by (cases m) simp_all

lemma bindE_eq_Inr [fault_simps]: "bindE m f = Inr y \<longleftrightarrow> (\<exists>x. m = Inr x \<and> f x = Inr y)"
  by (cases m) simp_all

lemma bindE_eq_Inl [fault_simps]:
  "bindE m f = Inl e \<longleftrightarrow> m = Inl e \<or> (\<exists>x. m = Inr x \<and> f x = Inl e)"
  by (cases m) auto

lemma guardE_eq_Inr [simp, fault_simps]: "guardE b e = Inr u \<longleftrightarrow> b"
  by (simp add: guardE_def)

lemma guardE_eq_Inl [simp, fault_simps]: "guardE b e = Inl e' \<longleftrightarrow> \<not> b \<and> e' = e"
  by (auto simp: guardE_def)

lemma bindE_guardE [fault_simps]: "bindE (guardE b e) f = (if b then f () else Inl e)"
  by (simp add: guardE_def)

lemma bindE_cong [fundef_cong]:
  "m = m' \<Longrightarrow> (\<And>x. m' = Inr x \<Longrightarrow> f x = f' x) \<Longrightarrow> bindE m f = bindE m' f'"
  by (cases m') simp_all

section \<open>Raw memory\<close>

text \<open>A C array or the rest of a section is the list of its bytes; indexing checks the extent.\<close>

definition elem_at :: "'a list \<Rightarrow> nat \<Rightarrow> 'a result" where
  "elem_at xs i = (if i < length xs then Inr (xs ! i) else Inl OutOfBounds)"

definition store_at :: "'a list \<Rightarrow> nat \<Rightarrow> 'a \<Rightarrow> 'a list result" where
  "store_at xs i v = (if i < length xs then Inr (xs[i := v]) else Inl OutOfBounds)"

definition copy_out :: "byte list \<Rightarrow> nat \<Rightarrow> byte list result" where
  "copy_out xs n = (if n \<le> length xs then Inr (take n xs) else Inl OutOfBounds)"

lemma elem_at_in [simp, fault_simps]: "i < length xs \<Longrightarrow> elem_at xs i = Inr (xs ! i)"
  by (simp add: elem_at_def)

lemma store_at_in [simp, fault_simps]: "i < length xs \<Longrightarrow> store_at xs i v = Inr (xs[i := v])"
  by (simp add: store_at_def)

lemma copy_out_in [simp, fault_simps]: "n \<le> length xs \<Longrightarrow> copy_out xs n = Inr (take n xs)"
  by (simp add: copy_out_def)

lemma elem_at_eq_Inr: "elem_at xs i = Inr v \<longleftrightarrow> i < length xs \<and> v = xs ! i"
  by (auto simp: elem_at_def)

lemma elem_at_Cons_0 [simp]: "elem_at (x # xs) 0 = Inr x"
  by (simp add: elem_at_def)

section \<open>Little-endian copies\<close>

text \<open>
  \<open>le_int\<close> is the number a byte sequence denotes, \<open>le_word\<close> what a \<^verbatim>\<open>memcpy\<close> of it into a
  zeroed integer object leaves there, and \<open>word_bytes n w\<close> the first \<open>n\<close> bytes of the object
  representation of \<open>w\<close>.
\<close>

definition le_int :: "byte list \<Rightarrow> int" where
  "le_int bs = horner_sum uint 256 bs"

definition le_word :: "byte list \<Rightarrow> 'a::len word" where
  "le_word bs = word_of_int (le_int bs)"

definition word_bytes :: "nat \<Rightarrow> 'a::len word \<Rightarrow> byte list" where
  "word_bytes n w = map (\<lambda>i. ucast (drop_bit (8 * i) w)) [0..<n]"

lemma le_int_Nil [simp, le_simps]: "le_int [] = 0"
  by (simp add: le_int_def)

lemma le_int_Cons [le_simps]: "le_int (b # bs) = uint b + 256 * le_int bs"
  by (simp add: le_int_def)

lemma bit_le_int [le_simps]:
  "bit (le_int bs) j \<longleftrightarrow> j div 8 < length bs \<and> bit (bs ! (j div 8)) (j mod 8)"
  using bit_horner_sum_uint_exp_iff [of bs j] by (simp add: le_int_def)

lemma le_int_nonneg [simp]: "0 \<le> le_int bs"
  by (induction bs) (simp_all add: le_int_Cons)

lemma le_int_less: "le_int bs < 2 ^ (8 * length bs)"
proof (induction bs)
  case Nil
  then show ?case by simp
next
  case (Cons b bs)
  have "uint b < 256" using uint_lt2p [of b] by simp
  with Cons show ?case by (simp add: le_int_Cons power_add)
qed

lemma le_int_append [le_simps]: "le_int (xs @ ys) = le_int xs + 2 ^ (8 * length xs) * le_int ys"
  by (induction xs) (simp_all add: le_int_Cons power_add algebra_simps)

lemma length_word_bytes [simp]: "length (word_bytes n w) = n"
  by (simp add: word_bytes_def)

lemma nth_word_bytes [simp]: "i < n \<Longrightarrow> word_bytes n w ! i = ucast (drop_bit (8 * i) w)"
  by (simp add: word_bytes_def)

lemma le_int_word_bytes [le_simps]:
  "le_int (word_bytes n w) = take_bit (8 * n) (uint w)"
proof (rule bit_eqI)
  fix j
  have "j div 8 < n \<longleftrightarrow> j < 8 * n"
    by (simp add: div_less_iff_less_mult mult.commute)
  then show "bit (le_int (word_bytes n w)) j = bit (take_bit (8 * n) (uint w)) j"
    by (auto simp: bit_le_int bit_simps dest: bit_imp_le_length)
qed

lemma le_word_word_bytes [simp, le_simps]:
  "LENGTH('a) \<le> 8 * n \<Longrightarrow> le_word (word_bytes n w) = (w :: 'a::len word)"
  by (rule bit_word_eqI) (auto simp: le_word_def le_int_word_bytes bit_simps)

lemma le_int_inject:
  "length xs = length ys \<Longrightarrow> le_int xs = le_int ys \<Longrightarrow> xs = ys"
proof (induction xs ys rule: list_induct2)
  case Nil
  then show ?case by simp
next
  case (Cons x xs y ys)
  have "uint x mod 256 = uint x" "uint y mod 256 = uint y"
    using uint_lt2p [of x] uint_lt2p [of y] by (simp_all add: mod_pos_pos_trivial)
  moreover have "(uint x + 256 * le_int xs) mod 256 = (uint y + 256 * le_int ys) mod 256"
    using Cons.prems by (simp only: le_int_Cons)
  ultimately have "uint x = uint y" by simp
  with Cons.prems have "uint x = uint y \<and> le_int xs = le_int ys" by (simp add: le_int_Cons)
  with Cons.IH show ?case by (simp add: word_uint_eq_iff)
qed

end
