(* ===== verification/Util.thy ===== *)
theory Util
  imports Katana_Prelude
begin

text \<open>
  The helpers of \<^verbatim>\<open>src/src/util/util.c\<close> that compute something: suffix test, the two sign
  extensions and the hexadecimal dump.  \<^verbatim>\<open>zmalloc\<close>, \<^verbatim>\<open>death\<close> and the macros are part of the
  failure model of the prelude.
\<close>

section \<open>Sign extension\<close>

text \<open>
  \<^verbatim>\<open>sextend\<close> builds its mask as \<^verbatim>\<open>1<<(8*fromWhichByte-1)\<close> in type \<^verbatim>\<open>int\<close>: the shift count
  must be below 32, so five, six and seven filled bytes (and none at all) are undefined.  The
  mask is then converted to \<^verbatim>\<open>size_t\<close>, which sign-extends it.
\<close>

definition sextend :: "word_t \<Rightarrow> nat \<Rightarrow> word_t result" where
  "sextend val fromWhichByte =
     (if fromWhichByte = 8 then Inr val
      else bindE (guardE (fromWhichByte < 8) AssertFail) (\<lambda>_.
        if fromWhichByte = 0 \<or> 32 \<le> 8 * fromWhichByte - 1 then Inl UndefinedShift
        else
          let m = (scast (push_bit (8 * fromWhichByte - 1) 1 :: 32 word) :: word_t)
          in if val AND m \<noteq> 0 then Inr (val OR NOT (mask (8 * fromWhichByte))) else Inr val))"

definition signExtend32To64 :: "uint \<Rightarrow> 64 word" where
  "signExtend32To64 val =
     (let result = ucast val :: 64 word
      in if val AND push_bit 31 1 \<noteq> 0 then result OR NOT (mask 32) else result)"

lemma and_push_bit_1: "(w :: 'a::len word) AND push_bit n 1 = 0 \<longleftrightarrow> \<not> bit w n"
  by (simp add: bit_iff_and_push_bit_not_eq_0)

lemma signExtend32To64_scast: "signExtend32To64 val = scast val"
proof (rule bit_word_eqI)
  fix j :: nat
  assume j: "j < LENGTH(64)"
  have "bit val j \<longrightarrow> j < 32" using bit_imp_le_length [of val j] by auto
  moreover have "val AND 2147483648 = 0 \<longleftrightarrow> \<not> bit val 31"
    using and_push_bit_1 [of val 31] by simp
  ultimately show "bit (signExtend32To64 val) j = bit (scast val :: 64 word) j"
    using j by (cases "j = 31") (auto simp: signExtend32To64_def bit_simps Let_def min_def)
qed

text \<open>
  On a value whose unfilled bytes are zero, one to four filled bytes are extended with their
  sign, and eight are left alone.
\<close>

lemma and_scast_push_bit:
  assumes "\<And>j. n < j \<Longrightarrow> \<not> bit (w :: word_t) j" "n < 32"
  shows "w AND scast (push_bit n 1 :: 32 word) = 0 \<longleftrightarrow> \<not> bit w n"
proof -
  have le: "bit w j \<longrightarrow> j \<le> n" for j
    using assms(1) [of j] by (auto simp: not_le [symmetric])
  have "bit (w AND scast (push_bit n 1 :: 32 word)) j \<longleftrightarrow> bit w j \<and> j = n" for j
    using le [of j] assms(2) bit_imp_le_length [of w j]
    by (auto simp: bit_simps min_def not_le)
  then have "w AND scast (push_bit n 1 :: 32 word) = 0 \<longleftrightarrow> (\<forall>j. \<not> (bit w j \<and> j = n))"
    using bit_imp_le_length [of w n] by (subst bit_eq_iff) auto
  then show ?thesis by auto
qed

lemma sextend_signed:
  assumes "0 < k" "k \<le> 4" "\<And>j. 8 * k \<le> j \<Longrightarrow> \<not> bit (w :: word_t) j"
  shows "sextend w k = Inr (signed_take_bit (8 * k - 1) w)"
proof -
  let ?n = "8 * k - 1"
  have n: "?n < 32" "8 * k \<noteq> 0" using assms by auto
  have z: "w AND scast (push_bit ?n 1 :: 32 word) = 0 \<longleftrightarrow> \<not> bit w ?n"
    using assms n by (intro and_scast_push_bit) auto
  have low: "bit w j \<longrightarrow> j < 8 * k" for j using assms(3) [of j] by (auto simp: not_le [symmetric])
  have "(if bit w ?n then w OR NOT (mask (8 * k)) else w) = signed_take_bit ?n w"
  proof (rule bit_word_eqI)
    fix j
    assume "j < LENGTH(64)"
    then show "bit (if bit w ?n then w OR NOT (mask (8 * k)) else w) j
        = bit (signed_take_bit ?n w) j"
      using low [of j] n by (cases "j = ?n") (auto simp: bit_simps min_def not_less)
  qed
  with z n assms show ?thesis
    by (auto simp: sextend_def Let_def)
qed

lemma sextend_8 [simp]: "sextend w 8 = Inr w"
  by (simp add: sextend_def)

lemma sextend_undefined: "5 \<le> k \<Longrightarrow> k \<le> 7 \<Longrightarrow> sextend w k = Inl UndefinedShift"
  unfolding sextend_def by auto

section \<open>Strings\<close>

text \<open>A C string is its characters without the terminator.\<close>

definition strEndsWith :: "string \<Rightarrow> string \<Rightarrow> bool" where
  "strEndsWith str suffix =
     (let suffixLen = length suffix; strLen = length str
      in if suffixLen > strLen then False else drop (strLen - suffixLen) str = suffix)"

lemma strEndsWith_iff: "strEndsWith str suffix \<longleftrightarrow> (\<exists>p. str = p @ suffix)"
proof
  assume "strEndsWith str suffix"
  then have "str = take (length str - length suffix) str @ suffix"
    by (simp add: strEndsWith_def Let_def split: if_splits) (metis append_take_drop_id)
  then show "\<exists>p. str = p @ suffix" ..
qed (auto simp: strEndsWith_def)

text \<open>The byte of a character.\<close>

lemma unat_of_char: "unat (of_char c :: byte) = of_char c"
proof -
  have "unat (of_nat (of_char c) :: byte) = of_char c" by (simp add: unat_of_nat take_bit_eq_mod)
  then show ?thesis by (simp add: of_nat_of_char)
qed

lemma char_of_char_word: "char_of (unat (of_char c :: byte)) = c"
  by (simp add: unat_of_char)

lemma of_char_eq_0: "(of_char c :: byte) = 0 \<longleftrightarrow> c = CHR 0x00"
proof
  assume "(of_char c :: byte) = 0"
  then have "char_of (unat (of_char c :: byte)) = char_of (unat (0 :: byte))" by (rule arg_cong)
  then show "c = CHR 0x00" unfolding char_of_char_word by (simp add: char_of_def)
qed simp

text \<open>\<^verbatim>\<open>sprintf\<close> with \<^verbatim>\<open>%02x\<close> writes two lower-case hexadecimal digits.\<close>

definition hex_digit :: "nat \<Rightarrow> char" where
  "hex_digit d = ''0123456789abcdef'' ! d"

definition getHexDataString :: "byte list \<Rightarrow> string" where
  "getHexDataString data =
     concat (map (\<lambda>b. [hex_digit (unat b div 16), hex_digit (unat b mod 16)]) data)"

lemma length_getHexDataString: "length (getHexDataString data) = 2 * length data"
  by (induction data) (simp_all add: getHexDataString_def)

section \<open>Formatted numbers\<close>

text \<open>What \<^verbatim>\<open>%u\<close>, \<^verbatim>\<open>%i\<close> and \<^verbatim>\<open>%x\<close> (and their \<^verbatim>\<open>z\<close> and \<^verbatim>\<open>l\<close> forms) write.\<close>

fun base_digits :: "nat \<Rightarrow> nat \<Rightarrow> string" where
  "base_digits b n =
     (if n < b \<or> b \<le> 1 then [hex_digit n] else base_digits b (n div b) @ [hex_digit (n mod b)])"

declare base_digits.simps [simp del]

definition fmt_u :: "'a::len word \<Rightarrow> string" where
  "fmt_u w = base_digits 10 (unat w)"

definition fmt_i :: "'a::len word \<Rightarrow> string" where
  "fmt_i w = (if sint w < 0 then ''-'' @ base_digits 10 (nat (- sint w)) else base_digits 10 (nat (sint w)))"

definition fmt_x :: "'a::len word \<Rightarrow> string" where
  "fmt_x w = base_digits 16 (unat w)"

end
