(* ===== verification/Leb128.thy ===== *)
theory Leb128
  imports Util
begin

text \<open>
  \<^verbatim>\<open>src/src/leb.c\<close>: the little-endian base-128 codec that every DWARF reader and writer of the
  program goes through.  The loops are kept with the cursors of the C code (byte offset, bit
  offset, bits left in the current byte); what they compute is then stated on the numbers the
  byte sequences denote.
\<close>

section \<open>Encoding\<close>

text \<open>\<^verbatim>\<open>for(int j=0;j<n;j++) mask|=1<<(off+j)\<close>; the bits stay below 8 where the code uses it.\<close>

definition mask_run :: "nat \<Rightarrow> nat \<Rightarrow> byte" where
  "mask_run off n = fold (\<lambda>j m. m OR push_bit (off + j) 1) [0..<n] 0"

definition septet_bits :: "byte list \<Rightarrow> nat \<Rightarrow> nat \<Rightarrow> byte result" where
  "septet_bits bytes byteOffset bitOffset =
     (let bitsRetrieved = min 7 (8 - bitOffset) in
      bindE (elem_at bytes byteOffset) (\<lambda>b.
        let val = drop_bit bitOffset (mask_run bitOffset bitsRetrieved AND b) in
        if bitsRetrieved < 7 \<and> byteOffset + 1 < length bytes then
          let bitsToGet = 7 - bitsRetrieved in
          bindE (elem_at bytes (byteOffset + 1)) (\<lambda>b'.
            Inr (val OR push_bit bitsRetrieved (mask_run 0 bitsToGet AND b')))
        else Inr val))"

definition finish_septet :: "byte list \<Rightarrow> bool \<Rightarrow> nat \<Rightarrow> nat \<Rightarrow> byte \<Rightarrow> byte result" where
  "finish_septet bytes is_signed i numSeptets val =
     (if i + 1 < numSeptets then Inr (val OR push_bit 7 1)
      else bindE (if is_signed then elem_at bytes (length bytes - 1) else Inr 0) (\<lambda>top.
        let val' =
          (if is_signed \<and> top AND 0x80 \<noteq> 0 then
             let s = 7 - (length bytes * 8) mod 7;
                 signExtendBits = (if s = 7 then 0 else s);
                 m = fold (\<lambda>j m. m OR push_bit (7 - j - 1) 1) [0..<signExtendBits] 0
             in if val AND push_bit 6 1 \<noteq> 0 then val AND NOT m else val OR m
           else val)
        in Inr (val' AND 0x7F)))"

fun encode_septets :: "byte list \<Rightarrow> bool \<Rightarrow> nat \<Rightarrow> nat \<Rightarrow> nat \<Rightarrow> nat \<Rightarrow> byte list result" where
  "encode_septets bytes is_signed numSeptets 0 byteOffset bitOffset = Inr []"
| "encode_septets bytes is_signed numSeptets (Suc left) byteOffset bitOffset =
     bindE (septet_bits bytes byteOffset bitOffset) (\<lambda>val.
     let bitOffset' = bitOffset + 7;
         (byteOffset', bitOffset'') =
           (if 8 \<le> bitOffset' then (byteOffset + 1, bitOffset' - 8) else (byteOffset, bitOffset'))
     in bindE (finish_septet bytes is_signed (numSeptets - Suc left) numSeptets val) (\<lambda>v.
        bindE (encode_septets bytes is_signed numSeptets left byteOffset' bitOffset'') (\<lambda>rest.
          Inr (v # rest))))"

definition num_septets :: "nat \<Rightarrow> nat" where
  "num_septets numBytes = (8 * numBytes + 6) div 7"

definition encodeAsLEB128NoOptimization :: "byte list \<Rightarrow> bool \<Rightarrow> byte list result" where
  "encodeAsLEB128NoOptimization bytes is_signed =
     encode_septets bytes is_signed (num_septets (length bytes)) (num_septets (length bytes)) 0 0"

text \<open>The two trimming loops of \<^verbatim>\<open>encodeAsLEB128\<close>; the last argument is the current count.\<close>

fun trim_unsigned :: "byte list \<Rightarrow> nat \<Rightarrow> nat" where
  "trim_unsigned res 0 = 0"
| "trim_unsigned res (Suc n) =
     (if 1 < Suc n \<and> res ! n AND 0x7F = 0 then trim_unsigned res n else Suc n)"

fun trim_signed :: "byte list \<Rightarrow> byte \<Rightarrow> byte \<Rightarrow> nat \<Rightarrow> nat" where
  "trim_signed res ext ext6 0 = 0"
| "trim_signed res ext ext6 (Suc i) =
     (if 0 < i \<and> res ! i AND 0x7F = ext \<and> res ! (i - 1) AND 0x40 = ext6
      then trim_signed res ext ext6 i else Suc i)"

text \<open>The length of the result is kept in 16 bits, which is enough for inputs of up to 57343 bytes; those of the code have at most 8.\<close>

definition encodeAsLEB128 :: "byte list \<Rightarrow> bool \<Rightarrow> byte list result" where
  "encodeAsLEB128 bytes is_signed =
     bindE (encodeAsLEB128NoOptimization bytes is_signed) (\<lambda>res.
     bindE
       (if \<not> is_signed then Inr (trim_unsigned res (length res))
        else bindE (elem_at bytes (length bytes - 1)) (\<lambda>top.
          if top AND 0x80 = 0 then Inr (trim_signed res 0 0 (length res))
          else Inr (trim_signed res 0x7F 0x40 (length res)))) (\<lambda>n.
     if n = 0 then Inl OutOfBounds
     else bindE (elem_at res (n - 1)) (\<lambda>l.
          Inr ((take n res)[n - 1 := l AND 0x7F]))))"

definition uintToLEB128 :: "uint \<Rightarrow> byte list result" where
  "uintToLEB128 value =
     (let bytesNeeded =
        (if value AND 0xFF000000 \<noteq> 0 then 4
         else if value AND 0xFFFF0000 \<noteq> 0 then 3
         else if value AND 0xFFFFFF00 \<noteq> 0 then 2 else 1)
      in encodeAsLEB128 (word_bytes bytesNeeded value) False)"

definition intToLEB128 :: "32 word \<Rightarrow> byte list result" where
  "intToLEB128 value =
     (if 0 \<le> sint value then uintToLEB128 value
      else encodeAsLEB128 (word_bytes 4 value) True)"

section \<open>Decoding\<close>

text \<open>\<^verbatim>\<open>while(bytes[numSeptets++]&(1<<7))\<close>.\<close>

fun count_septets :: "byte list \<Rightarrow> nat result" where
  "count_septets [] = Inl OutOfBounds"
| "count_septets (b # bs) =
     (if b AND 0x80 \<noteq> 0 then bindE (count_septets bs) (\<lambda>n. Inr (Suc n)) else Inr 1)"

fun decode_loop :: "byte list \<Rightarrow> byte list \<Rightarrow> nat \<Rightarrow> nat \<Rightarrow> (byte list \<times> nat \<times> nat) result" where
  "decode_loop [] res byteIdx bitsLeft = Inr (res, byteIdx, bitsLeft)"
| "decode_loop (b # bs) res byteIdx bitsLeft =
     (let septetBits = b AND 0x7F; shift = 8 - bitsLeft; val = push_bit shift septetBits in
      bindE (elem_at res byteIdx) (\<lambda>old.
      bindE (store_at res byteIdx (old OR val)) (\<lambda>res'.
        if bitsLeft = 8 then decode_loop bs res' byteIdx 1
        else if bitsLeft = 7 then decode_loop bs res' (byteIdx + 1) 8
        else bindE (store_at res' (byteIdx + 1) (drop_bit (8 - shift) septetBits)) (\<lambda>res''.
             decode_loop bs res'' (byteIdx + 1) (bitsLeft + 1)))))"

definition num_bytes :: "nat \<Rightarrow> nat" where
  "num_bytes numSeptets = (7 * numSeptets + 7) div 8"

definition sign_fill :: "nat \<Rightarrow> byte \<Rightarrow> byte" where
  "sign_fill bitsLeft b = fold (\<lambda>i m. m OR push_bit i 1) [8 - bitsLeft..<8] b"

text \<open>The result is the array, the value of \<^verbatim>\<open>*numBytesOut\<close> and that of \<^verbatim>\<open>*numSeptetsRead\<close>.\<close>

definition decodeLEB128 :: "byte list \<Rightarrow> bool \<Rightarrow> (byte list \<times> nat \<times> nat) result" where
  "decodeLEB128 bytes is_signed =
     bindE (count_septets bytes) (\<lambda>numSeptets.
     bindE (decode_loop (take numSeptets bytes) (replicate (num_bytes numSeptets) 0) 0 8)
       (\<lambda>(res, byteIdx, bitsLeft).
     bindE
       (if is_signed then
          if bitsLeft < 8 then
            bindE (elem_at res byteIdx) (\<lambda>b.
              if b AND push_bit (7 - bitsLeft) 1 \<noteq> 0
              then bindE (store_at res byteIdx (sign_fill bitsLeft b)) (\<lambda>r. Inr (r, byteIdx))
              else Inr (res, byteIdx))
          else Inr (res, byteIdx)
        else
          if bitsLeft \<noteq> 8 then
            bindE (elem_at res byteIdx) (\<lambda>b.
              if b = 0 \<and> 0 < byteIdx then Inr (res, byteIdx - 1) else Inr (res, byteIdx))
          else Inr (res, byteIdx))
       (\<lambda>(res, byteIdx).
        let numBytes = (if bitsLeft = 8 then byteIdx else byteIdx + 1)
        in Inr (take numBytes res, to_usint numBytes, to_usint numSeptets))))"

definition leb128ToUInt :: "byte list \<Rightarrow> (uint \<times> nat) result" where
  "leb128ToUInt bytes =
     bindE (decodeLEB128 bytes False) (\<lambda>(res, resultBytes, lebRead).
     bindE (guardE (resultBytes \<le> 4) AssertFail) (\<lambda>_.
       Inr (le_word (take resultBytes res), lebRead)))"

definition leb128ToInt :: "byte list \<Rightarrow> (32 word \<times> nat) result" where
  "leb128ToInt bytes =
     bindE (decodeLEB128 bytes True) (\<lambda>(res, resultBytes, lebRead).
     bindE (guardE (resultBytes \<le> 4) AssertFail) (\<lambda>_.
       let val = (le_word (take resultBytes res) :: 32 word) in
       if resultBytes < 4
       then bindE (sextend (scast val) resultBytes) (\<lambda>v. Inr (ucast v, lebRead))
       else Inr (val, lebRead)))"

definition leb128ToUWord :: "byte list \<Rightarrow> (word_t \<times> nat) result" where
  "leb128ToUWord bytes =
     bindE (decodeLEB128 bytes False) (\<lambda>(res, resultBytes, lebRead).
     bindE (guardE (resultBytes \<le> 8) AssertFail) (\<lambda>_.
       Inr (le_word (take resultBytes res), lebRead)))"

definition leb128ToSWord :: "byte list \<Rightarrow> (word_t \<times> nat) result" where
  "leb128ToSWord bytes =
     bindE (decodeLEB128 bytes True) (\<lambda>(res, resultBytes, lebRead).
     bindE (guardE (resultBytes \<le> 8) AssertFail) (\<lambda>_.
       let val = (le_word (take resultBytes res) :: word_t) in
       if resultBytes < 8
       then bindE (sextend val resultBytes) (\<lambda>v. Inr (v, lebRead))
       else Inr (val, lebRead)))"

end
