(* ===== verification/Leb128_Encode.thy ===== *)
theory Leb128_Encode
  imports Leb128
begin

text \<open>
  What the encoder of \<^verbatim>\<open>src/src/leb.c\<close> computes, on the numbers the byte sequences denote:
  \<open>leb_int\<close> reads septets, \<open>le_int\<close> reads bytes, \<open>sleb_int\<close> and \<open>sle_int\<close> are their signed readings.
  The encoder never fails on a non-empty value, writes a well-formed encoding of the same number
  and trims it to the shortest form.
\<close>

lemma bit_fold_or_exp:
  "bit (fold (\<lambda>j m. m OR 2 ^ f j) xs m0 :: 'a::len word) i \<longleftrightarrow>
     bit m0 i \<or> i < LENGTH('a) \<and> (\<exists>j\<in>set xs. f j = i)"
  by (induction xs arbitrary: m0) (auto simp: bit_simps)

lemma bit_mask_run: "bit (mask_run off n) i \<longleftrightarrow> i < 8 \<and> off \<le> i \<and> i < off + n"
proof -
  have "(\<exists>j\<in>{0..<n}. off + j = i) \<longleftrightarrow> off \<le> i \<and> i < off + n"
    by (auto intro!: bexI [of _ "i - off"])
  then show ?thesis by (simp add: mask_run_def bit_fold_or_exp)
qed

lemma bit_sign_fill:
  "bit (sign_fill bitsLeft b) i \<longleftrightarrow> bit b i \<or> 8 - bitsLeft \<le> i \<and> i < 8"
  by (auto simp: sign_fill_def bit_fold_or_exp [where f = "\<lambda>x. x"])

lemma bit_septet_constants [simp]:
  "bit (127 :: int) n \<longleftrightarrow> n < 7" "bit (64 :: int) n \<longleftrightarrow> n = 6" "bit (128 :: int) n \<longleftrightarrow> n = 7"
  using bit_mask_iff [where 'a = int, of 7 n] bit_exp_iff [where 'a = int, of 6 n]
    bit_exp_iff [where 'a = int, of 7 n]
  by (auto simp: mask_eq_exp_minus_1)

lemma and_80_eq_0: "(b :: byte) AND 0x80 = 0 \<longleftrightarrow> \<not> bit b 7"
  using and_push_bit_1 [of b 7] by simp

lemma and_40_eq_0: "(b :: byte) AND 0x40 = 0 \<longleftrightarrow> \<not> bit b 6"
  using and_push_bit_1 [of b 6] by simp

lemma and_40_eq_40: "(b :: byte) AND 0x40 = 0x40 \<longleftrightarrow> bit b 6"
proof -
  have "b AND 0x40 = (if bit b 6 then 0x40 else 0)"
    by (rule bit_word_eqI) (auto simp: bit_simps)
  then show ?thesis by (simp split: if_splits)
qed

lemma div_mod_8:
  assumes "t < 16"
  shows "(8 * q + t) div 8 = (if t < 8 then q else Suc q)"
    and "(8 * q + t) mod 8 = (if t < 8 then t else t - 8)"
proof -
  have "(8 * q + t) div 8 = (if t < 8 then q else Suc q) \<and>
    (8 * q + t) mod 8 = (if t < 8 then t else t - 8)"
  proof (cases "t < 8")
    case False
    then obtain u where "t = 8 + u" using le_Suc_ex not_less by blast
    with assms show ?thesis by simp
  qed simp
  then show "(8 * q + t) div 8 = (if t < 8 then q else Suc q)"
    and "(8 * q + t) mod 8 = (if t < 8 then t else t - 8)" by blast+
qed

definition leb_int :: "byte list \<Rightarrow> int" where
  "leb_int bs = horner_sum uint 128 (map (\<lambda>b. ucast b :: 7 word) bs)"

lemma bit_leb_int:
  "bit (leb_int bs) j \<longleftrightarrow> j div 7 < length bs \<and> bit (bs ! (j div 7)) (j mod 7)"
  using bit_horner_sum_uint_exp_iff [of "map (\<lambda>b. ucast b :: 7 word) bs" j]
  by (auto simp: leb_int_def bit_simps)

lemma septet_bits_spec:
  assumes "byteOffset < length bytes" "bitOffset < 8"
  obtains v where "septet_bits bytes byteOffset bitOffset = Inr v"
    and "\<And>k. bit v k \<longleftrightarrow> k < 7 \<and> bit (le_int bytes) (8 * byteOffset + bitOffset + k)"
proof -
  have d: "(8 * byteOffset + bitOffset + k) div 8 = (if bitOffset + k < 8 then byteOffset else byteOffset + 1)"
     "(8 * byteOffset + bitOffset + k) mod 8 = (if bitOffset + k < 8 then bitOffset + k else bitOffset + k - 8)"
     if "k < 7" for k
    using that assms div_mod_8 [of "bitOffset + k" byteOffset] by (simp_all add: add.assoc)
  have ac: "bit b (k + bitOffset) = bit b (bitOffset + k)" for k and b :: byte
    by (simp add: add.commute)
  have first: "bit (drop_bit bitOffset (mask_run bitOffset n AND bytes ! byteOffset)) k \<longleftrightarrow>
      k < n \<and> bit (bytes ! byteOffset) (bitOffset + k)" for n k
    using bit_imp_le_length [of "bytes ! byteOffset" "bitOffset + k"]
    by (auto simp: bit_drop_bit_eq bit_and_iff bit_mask_run)
  have second: "bit (push_bit r (mask_run 0 n AND b)) k \<longleftrightarrow>
      r \<le> k \<and> k < 8 \<and> k - r < n \<and> bit b (k - r)" for r n k and b :: byte
    by (auto simp: bit_push_bit_iff bit_and_iff bit_mask_run)
  have v: "bit (le_int bytes) (8 * byteOffset + bitOffset + k) \<longleftrightarrow>
      (if bitOffset + k < 8 then bit (bytes ! byteOffset) (bitOffset + k)
       else byteOffset + 1 < length bytes \<and> bit (bytes ! (byteOffset + 1)) (bitOffset + k - 8))"
    if "k < 7" for k
    unfolding bit_le_int d [OF that] using assms(1) by simp
  define r where "r = 8 - bitOffset"
  define A where "A = drop_bit bitOffset (mask_run bitOffset (min 7 r) AND bytes ! byteOffset)"
  define B where "B b = push_bit (min 7 r) (mask_run 0 (7 - min 7 r) AND b)" for b :: byte
  have eq: "septet_bits bytes byteOffset bitOffset =
      (if min 7 r < 7 \<and> byteOffset + 1 < length bytes then Inr (A OR B (bytes ! (byteOffset + 1))) else Inr A)"
    using assms(1) unfolding septet_bits_def Let_def r_def [symmetric] elem_at_in [OF assms(1)]
      bindE_simps A_def [symmetric] B_def [symmetric] by simp
  note first = first [of "min 7 r", folded A_def]
  note second = second [of "min 7 r" "7 - min 7 r", folded B_def]
  show ?thesis
  proof (cases "bitOffset \<le> 1")
    case True
    then have m: "min 7 r = 7" by (auto simp: r_def)
    from True have "bitOffset + k < 8" if "k < 7" for k using that by simp
    with m show ?thesis by (intro that [of A]) (simp_all add: eq first v cong: conj_cong)
  next
    case False
    then have r: "min 7 r = r" "r < 7" "bitOffset + k < 8 \<longleftrightarrow> k < r" for k
      using assms(2) by (auto simp: r_def)
    have sub: "k - r = bitOffset + k - 8" for k using assms(2) by (simp add: r_def)
    show ?thesis
    proof (cases "byteOffset + 1 < length bytes")
      case True
      have "bit (A OR B (bytes ! (byteOffset + 1))) k \<longleftrightarrow>
          k < 7 \<and> bit (le_int bytes) (8 * byteOffset + bitOffset + k)" for k
      proof (cases "k < 7")
        case k: True
        show ?thesis
          unfolding bit_or_iff first second r(1) v [OF k] sub [symmetric] r(3) using True k r(2)
          by (cases "k < r") auto
      next
        case k: False
        show ?thesis unfolding bit_or_iff first second r(1) using k r(2) by auto
      qed
      moreover have "septet_bits bytes byteOffset bitOffset = Inr (A OR B (bytes ! (byteOffset + 1)))"
        unfolding eq r(1) using True r(2) by simp
      ultimately show ?thesis by (rule that [rotated])
    next
      case False
      have "bit A k \<longleftrightarrow> k < 7 \<and> bit (le_int bytes) (8 * byteOffset + bitOffset + k)" for k
      proof (cases "k < 7")
        case k: True
        show ?thesis unfolding first r(1) v [OF k] r(3) using False k by simp
      next
        case k: False
        show ?thesis unfolding first r(1) using k r(2) by auto
      qed
      moreover have "septet_bits bytes byteOffset bitOffset = Inr A"
        unfolding eq using False by simp
      ultimately show ?thesis by (rule that [rotated])
    qed
  qed
qed

definition sign_bit :: "byte list \<Rightarrow> bool" where
  "sign_bit bytes \<longleftrightarrow> bytes \<noteq> [] \<and> bit (last bytes) 7"

lemma sign_bit_le_int: "bytes \<noteq> [] \<Longrightarrow> sign_bit bytes \<longleftrightarrow> bit (le_int bytes) (8 * length bytes - 1)"
proof -
  assume "bytes \<noteq> []"
  then have "8 * length bytes - 1 = 8 * (length bytes - 1) + 7" by (cases bytes) simp_all
  with \<open>bytes \<noteq> []\<close> show ?thesis
    by (simp add: sign_bit_def bit_le_int last_conv_nth del: One_nat_def)
qed

lemma not_bit_le_int: "8 * length bytes \<le> j \<Longrightarrow> \<not> bit (le_int bytes) j"
  by (auto simp: bit_le_int div_less_iff_less_mult mult.commute)

lemma bit_le_int_less: "bit (le_int bytes) j \<Longrightarrow> j < 8 * length bytes"
  using not_bit_le_int [of bytes j] by (auto simp: not_le [symmetric])

lemma num_septets_bounds:
  "8 * L \<le> 7 * num_septets L" "7 * num_septets L < 8 * L + 7"
  by (simp_all add: num_septets_def)

lemma fill_count:
  "(if 7 - (L * 8) mod 7 = 7 then 0 else 7 - (L * 8) mod 7) = 7 * num_septets L - 8 * L"
proof -
  have g: "(if 7 - t = 7 then 0 else 7 - t) = 7 * ((m + 6) div 7) - m"
    if "m = 7 * q + t" "t < 7" for m q t :: nat
  proof (cases "t = 0")
    case True
    then have "(m + 6) div 7 = q" using that by (intro div_nat_eqI) simp_all
    then show ?thesis using that True by simp
  next
    case False
    then have "(m + 6) div 7 = Suc q" using that by (intro div_nat_eqI) simp_all
    then show ?thesis using that False by simp
  qed
  have "(if 7 - m mod 7 = 7 then 0 else 7 - m mod 7) = 7 * ((m + 6) div 7) - m" for m :: nat
    using g [of m "m div 7" "m mod 7"] by simp
  from this [of "L * 8"] show ?thesis unfolding num_septets_def mult.commute [of 8 L] .
qed

lemma finish_septet_spec:
  assumes "bytes \<noteq> []" "i < num_septets (length bytes)"
    and v: "\<And>k. bit v k \<longleftrightarrow> k < 7 \<and> bit (le_int bytes) (7 * i + k)"
  obtains w where "finish_septet bytes is_signed i (num_septets (length bytes)) v = Inr w"
    and "bit w 7 \<longleftrightarrow> i + 1 < num_septets (length bytes)"
    and "\<And>k. k < 7 \<Longrightarrow> bit w k \<longleftrightarrow> bit (le_int bytes) (7 * i + k) \<or>
           is_signed \<and> sign_bit bytes \<and> 8 * length bytes \<le> 7 * i + k"
proof (cases "i + 1 < num_septets (length bytes)")
  case True
  then have "7 * i + k < 8 * length bytes" if "k < 7" for k
    using that num_septets_bounds [of "length bytes"] by linarith
  then show ?thesis using True
    by (intro that [of "v OR push_bit 7 1"]) (auto simp: finish_septet_def bit_simps v not_le [symmetric])
next
  case False
  with assms have i: "7 * num_septets (length bytes) = 7 * i + 7" by simp
  let ?s = "7 * num_septets (length bytes) - 8 * length bytes"
  let ?m = "fold (\<lambda>j m. m OR push_bit (7 - j - 1) 1) [0..<?s] (0 :: byte)"
  have s: "?s < 7" using num_septets_bounds [of "length bytes"] by linarith
  have m: "bit ?m k \<longleftrightarrow> k < 7 \<and> 8 * length bytes \<le> 7 * i + k" for k
  proof -
    have "(\<exists>j\<in>{0..<?s}. 7 - j - 1 = k) \<longleftrightarrow> k < 7 \<and> 8 * length bytes \<le> 7 * i + k"
      using s num_septets_bounds [of "length bytes"] i
      by (auto intro!: bexI [of _ "6 - k"])
    then show ?thesis by (auto simp: bit_fold_or_exp)
  qed
  have top: "elem_at bytes (length bytes - 1) = Inr (last bytes)"
    using assms by (simp add: last_conv_nth)
  have v6: "?s = 0" if "bit v 6"
    using that v [of 6] i bit_le_int_less [of bytes "7 * i + 6"] by auto
  have m0: "?m = 0" if "bit v 6"
    using v6 [OF that] by (simp only: upt_0 list.set fold_simps(1))
  let ?w = "(if is_signed \<and> sign_bit bytes then v OR ?m else v) AND 0x7F"
  have eq: "finish_septet bytes is_signed i (num_septets (length bytes)) v =
      Inr ((if is_signed \<and> last bytes AND 0x80 \<noteq> 0
            then if v AND push_bit 6 1 \<noteq> 0 then v AND NOT ?m else v OR ?m else v) AND 0x7F)"
    using False by (cases is_signed)
      (simp_all only: finish_septet_def if_False if_True top bindE_simps Let_def fill_count simp_thms)
  have "finish_septet bytes is_signed i (num_septets (length bytes)) v = Inr ?w"
    unfolding eq and_push_bit_1 using assms(1) m0
    by (cases "bit v 6") (simp_all only: sign_bit_def and_80_eq_0 simp_thms if_True if_False
        bit.compl_zero and.right_neutral or.right_neutral split: if_split)
  then show ?thesis
    using False m by (intro that [of ?w]) (auto simp: bit_simps v)
qed

lemma encode_septets_spec:
  assumes "bytes \<noteq> []"
  shows "left \<le> num_septets (length bytes) \<Longrightarrow> i = num_septets (length bytes) - left \<Longrightarrow>
    \<exists>ws. encode_septets bytes is_signed (num_septets (length bytes)) left
           (7 * i div 8) (7 * i mod 8) = Inr ws \<and> length ws = left \<and>
      (\<forall>t<left. (bit (ws ! t) 7 \<longleftrightarrow> i + t + 1 < num_septets (length bytes)) \<and>
        (\<forall>k<7. bit (ws ! t) k \<longleftrightarrow> bit (le_int bytes) (7 * (i + t) + k) \<or>
           is_signed \<and> sign_bit bytes \<and> 8 * length bytes \<le> 7 * (i + t) + k))"
proof (induction left arbitrary: i)
  case 0
  then show ?case by simp
next
  case (Suc left)
  let ?n = "num_septets (length bytes)"
  have i: "i < ?n" "Suc i = ?n - left" using Suc.prems by auto
  have "7 * i < 8 * length bytes" using i num_septets_bounds [of "length bytes"] by linarith
  then have off: "7 * i div 8 < length bytes" by (simp add: div_less_iff_less_mult mult.commute)
  have dm: "8 * (7 * i div 8) + 7 * i mod 8 = 7 * i" by simp
  obtain v where v: "septet_bits bytes (7 * i div 8) (7 * i mod 8) = Inr v"
    "\<And>k. bit v k \<longleftrightarrow> k < 7 \<and> bit (le_int bytes) (7 * i + k)"
    using septet_bits_spec [OF off, of "7 * i mod 8"] unfolding dm by auto
  obtain w where w: "finish_septet bytes is_signed i ?n v = Inr w"
    "bit w 7 \<longleftrightarrow> i + 1 < ?n"
    "\<And>k. k < 7 \<Longrightarrow> bit w k \<longleftrightarrow> bit (le_int bytes) (7 * i + k) \<or>
       is_signed \<and> sign_bit bytes \<and> 8 * length bytes \<le> 7 * i + k"
    using finish_septet_spec [OF assms i(1) v(2)] by blast
  have r: "7 * i mod 8 + 7 < 16" by (simp add: less_Suc_eq_le [symmetric])
  have e: "7 * Suc i = 8 * (7 * i div 8) + (7 * i mod 8 + 7)" using dm by simp
  have nxt: "(7 * Suc i) div 8 = (if 7 * i mod 8 + 7 < 8 then 7 * i div 8 else Suc (7 * i div 8))"
    "(7 * Suc i) mod 8 = (if 7 * i mod 8 + 7 < 8 then 7 * i mod 8 + 7 else 7 * i mod 8 + 7 - 8)"
    unfolding e div_mod_8 [OF r] by (rule refl)+
  obtain ws where ws: "encode_septets bytes is_signed ?n left (7 * Suc i div 8) (7 * Suc i mod 8) = Inr ws"
    "length ws = left"
    "\<forall>t<left. (bit (ws ! t) 7 \<longleftrightarrow> Suc i + t + 1 < ?n) \<and>
        (\<forall>k<7. bit (ws ! t) k \<longleftrightarrow> bit (le_int bytes) (7 * (Suc i + t) + k) \<or>
           is_signed \<and> sign_bit bytes \<and> 8 * length bytes \<le> 7 * (Suc i + t) + k)"
    using Suc.IH [OF _ i(2)] Suc.prems(1) by auto
  have "encode_septets bytes is_signed ?n (Suc left) (7 * i div 8) (7 * i mod 8) = Inr (w # ws)"
    using v(1) w(1) ws(1) Suc.prems(2) unfolding nxt
    by (cases "7 * i mod 8 + 7 < 8") (simp_all add: Let_def)
  moreover have "(bit ((w # ws) ! t) 7 \<longleftrightarrow> i + t + 1 < ?n) \<and>
        (\<forall>k<7. bit ((w # ws) ! t) k \<longleftrightarrow> bit (le_int bytes) (7 * (i + t) + k) \<or>
           is_signed \<and> sign_bit bytes \<and> 8 * length bytes \<le> 7 * (i + t) + k)"
    if "t < Suc left" for t
    using that w(2,3) ws(3) by (cases t) auto
  ultimately show ?case using ws(2) by (intro exI [of _ "w # ws"]) auto
qed

text \<open>A well-formed encoding: the continuation bit is set on every septet but the last.\<close>

definition leb_wf :: "byte list \<Rightarrow> bool" where
  "leb_wf s \<longleftrightarrow> s \<noteq> [] \<and> (\<forall>i<length s. bit (s ! i) 7 \<longleftrightarrow> i + 1 < length s)"

lemma noopt_spec:
  assumes "bytes \<noteq> []"
  obtains ws where "encodeAsLEB128NoOptimization bytes is_signed = Inr ws"
    "length ws = num_septets (length bytes)" "leb_wf ws"
    "\<And>j. bit (leb_int ws) j \<longleftrightarrow> j < 7 * num_septets (length bytes) \<and>
       (bit (le_int bytes) j \<or> is_signed \<and> sign_bit bytes \<and> 8 * length bytes \<le> j)"
proof -
  let ?n = "num_septets (length bytes)"
  obtain ws where ws: "encodeAsLEB128NoOptimization bytes is_signed = Inr ws" "length ws = ?n"
     "\<And>t. t < ?n \<Longrightarrow> bit (ws ! t) 7 \<longleftrightarrow> t + 1 < ?n"
     "\<And>t k. t < ?n \<Longrightarrow> k < 7 \<Longrightarrow> bit (ws ! t) k \<longleftrightarrow> bit (le_int bytes) (7 * t + k) \<or>
           is_signed \<and> sign_bit bytes \<and> 8 * length bytes \<le> 7 * t + k"
    using encode_septets_spec [OF assms, of ?n 0 is_signed]
    unfolding encodeAsLEB128NoOptimization_def by auto
  have "bit (leb_int ws) j \<longleftrightarrow> j < 7 * ?n \<and>
       (bit (le_int bytes) j \<or> is_signed \<and> sign_bit bytes \<and> 8 * length bytes \<le> j)" for j
  proof -
    have "j div 7 < ?n \<longleftrightarrow> j < 7 * ?n" by (simp add: div_less_iff_less_mult mult.commute)
    moreover have "7 * (j div 7) + j mod 7 = j" by simp
    ultimately show ?thesis
      using ws(2) ws(4) [of "j div 7" "j mod 7"] by (auto simp: bit_leb_int)
  qed
  moreover have "leb_wf ws"
    using ws(2,3) assms num_septets_bounds [of "length bytes"] by (cases ws) (auto simp: leb_wf_def)
  ultimately show ?thesis using ws by (intro that) auto
qed

definition sleb_int :: "byte list \<Rightarrow> int" where
  "sleb_int s = signed_take_bit (7 * length s - 1) (leb_int s)"

definition sle_int :: "byte list \<Rightarrow> int" where
  "sle_int bs = signed_take_bit (8 * length bs - 1) (le_int bs)"

lemma bit_leb_int_less: "bit (leb_int s) j \<Longrightarrow> j < 7 * length s"
  by (auto simp: bit_leb_int div_less_iff_less_mult mult.commute)

lemma bit_leb_int_take:
  "n \<le> length r \<Longrightarrow> bit (leb_int (take n r)) j \<longleftrightarrow> j < 7 * n \<and> bit (leb_int r) j"
  by (auto simp: bit_leb_int div_less_iff_less_mult mult.commute)

lemma bit_septet: "i < length r \<Longrightarrow> k < 7 \<Longrightarrow> bit (r ! i) k \<longleftrightarrow> bit (leb_int r) (7 * i + k)"
  by (simp add: bit_leb_int)

lemma div_mod_7:
  fixes i j :: nat
  assumes "7 * i \<le> j" "j < 7 * i + 7"
  shows "j div 7 = i" "j mod 7 = j - 7 * i"
proof -
  show q: "j div 7 = i" using assms by (intro div_nat_eqI) simp_all
  show "j mod 7 = j - 7 * i" using minus_mult_div_eq_mod [of j 7] q by simp
qed

lemma signed_take_bit_shrink:
  assumes "n \<le> m" "\<And>j. n \<le> j \<Longrightarrow> j \<le> m \<Longrightarrow> bit (x :: int) j = bit x n"
  shows "signed_take_bit m x = signed_take_bit n x"
proof (rule bit_eqI)
  fix j
  show "bit (signed_take_bit m x) j = bit (signed_take_bit n x) j"
    using assms(1) assms(2) [of "min m j"]
    by (cases "n \<le> j") (simp_all add: bit_signed_take_bit_iff min_absorb1 min_absorb2)
qed

lemma sleb_int_take:
  assumes "0 < n" "n \<le> length r"
  shows "sleb_int (take n r) = signed_take_bit (7 * n - 1) (leb_int r)"
  unfolding sleb_int_def
  by (rule bit_eqI) (use assms in \<open>auto simp: bit_signed_take_bit_iff bit_leb_int_take min_def\<close>)

lemma septet_eq_const:
  "(b :: byte) AND 0x7F = (if neg then 0x7F else 0) \<longleftrightarrow> (\<forall>k<7. bit b k = neg)"
proof -
  have "b AND 0x7F = (if neg then 0x7F else 0) \<longleftrightarrow>
      (\<forall>k<8. bit (b AND 0x7F) k = bit (if neg then 0x7F else 0 :: byte) k)"
    by (simp add: bit_eq_iff)
  moreover have "(\<forall>k<8. P k) \<longleftrightarrow> (\<forall>k<7. P k) \<and> P 7" for P :: "nat \<Rightarrow> bool"
    using All_less_Suc [of 7 P] by auto
  then have "(\<forall>k<8. bit (b AND 0x7F) k = bit (if neg then 0x7F else 0 :: byte) k) \<longleftrightarrow>
      (\<forall>k<7. bit b k = neg)"
    by (cases neg) (simp_all add: bit_and_iff)
  ultimately show ?thesis by simp
qed

lemma trim_unsigned_spec:
  assumes "0 < n" "n \<le> length r"
  shows "0 < trim_unsigned r n \<and> trim_unsigned r n \<le> n \<and>
    leb_int (take (trim_unsigned r n) r) = leb_int (take n r) \<and>
    (trim_unsigned r n = 1 \<or> r ! (trim_unsigned r n - 1) AND 0x7F \<noteq> 0)"
  using assms
proof (induction n)
  case 0
  then show ?case by simp
next
  case (Suc n)
  show ?case
  proof (cases "0 < n \<and> r ! n AND 0x7F = 0")
    case True
    then have z: "\<not> bit (r ! n) k" if "k < 7" for k
      using that septet_eq_const [of "r ! n" False] by simp
    have "leb_int (take n r) = leb_int (take (Suc n) r)"
    proof (rule bit_eqI)
      fix j
      have "j < 7 * n" if "j < 7 * Suc n" "bit (leb_int r) j"
      proof (rule ccontr)
        assume "\<not> j < 7 * n"
        with that have "j div 7 = n" "j mod 7 < 7" by (simp_all add: div_mod_7)
        with that(2) z show False by (auto simp: bit_leb_int)
      qed
      then show "bit (leb_int (take n r)) j = bit (leb_int (take (Suc n) r)) j"
        using Suc.prems by (auto simp: bit_leb_int_take)
    qed
    with Suc True show ?thesis by auto
  next
    case False
    then show ?thesis using Suc.prems by auto
  qed
qed

lemma trim_signed_spec:
  assumes "0 < n" "n \<le> length r"
    and "ext = (if neg then 0x7F else 0)" "ext6 = (if neg then 0x40 else 0)"
  shows "0 < trim_signed r ext ext6 n \<and> trim_signed r ext ext6 n \<le> n \<and>
    sleb_int (take (trim_signed r ext ext6 n) r) = sleb_int (take n r) \<and>
    (trim_signed r ext ext6 n = 1 \<or>
     \<not> ((\<forall>k<7. bit (r ! (trim_signed r ext ext6 n - 1)) k = neg) \<and>
        bit (r ! (trim_signed r ext ext6 n - 2)) 6 = neg))"
  using assms(1,2)
proof (induction n)
  case 0
  then show ?case by simp
next
  case (Suc i)
  have c: "r ! i AND 0x7F = ext \<and> r ! (i - 1) AND 0x40 = ext6 \<longleftrightarrow>
      (\<forall>k<7. bit (r ! i) k = neg) \<and> bit (r ! (i - 1)) 6 = neg"
    using assms(3,4) septet_eq_const [of "r ! i" neg] and_40_eq_0 [of "r ! (i - 1)"]
      and_40_eq_40 [of "r ! (i - 1)"] by (cases neg) simp_all
  show ?case
  proof (cases "0 < i \<and> (\<forall>k<7. bit (r ! i) k = neg) \<and> bit (r ! (i - 1)) 6 = neg")
    case True
    have "7 * (i - 1) + 6 = 7 * i - 1" using True by (cases i) simp_all
    then have top: "bit (leb_int r) (7 * i - 1) = neg"
      using True Suc.prems bit_septet [of "i - 1" r 6] by simp
    have last: "bit (leb_int r) j = neg" if "7 * i \<le> j" "j < 7 * Suc i" for j
    proof -
      from that have "j div 7 = i" "j mod 7 < 7" by (simp_all add: div_mod_7)
      then show ?thesis using True Suc.prems by (simp add: bit_leb_int)
    qed
    have all: "bit (leb_int r) j = neg" if "7 * i - 1 \<le> j" "j < 7 * Suc i" for j
      using that top last [of j] by (cases "j = 7 * i - 1") auto
    have "signed_take_bit (7 * Suc i - 1) (leb_int r) = signed_take_bit (7 * i - 1) (leb_int r)"
      using all top by (intro signed_take_bit_shrink) auto
    then have "sleb_int (take i r) = sleb_int (take (Suc i) r)"
      using Suc.prems True by (simp add: sleb_int_take del: mult_Suc_right)
    with Suc True c show ?thesis by auto
  next
    case False
    then have "trim_signed r ext ext6 (Suc i) = Suc i" using c by auto
    with False Suc.prems show ?thesis by (auto simp: numeral_2_eq_2)
  qed
qed

section \<open>The encoder\<close>

text \<open>Clearing the continuation bit of the last kept septet.\<close>

lemma leb_int_close:
  assumes "0 < n" "n \<le> length r"
  shows "leb_int ((take n r)[n - 1 := r ! (n - 1) AND 0x7F]) = leb_int (take n r)"
proof (rule bit_eqI)
  fix j :: nat
  have "j mod 7 < 7" by simp
  then show "bit (leb_int ((take n r)[n - 1 := r ! (n - 1) AND 0x7F])) j = bit (leb_int (take n r)) j"
    using assms by (cases "j div 7 = n - 1") (auto simp: bit_leb_int bit_and_iff nth_list_update)
qed

lemma leb_wf_close:
  assumes "leb_wf r" "0 < n" "n \<le> length r"
  shows "leb_wf ((take n r)[n - 1 := r ! (n - 1) AND 0x7F])"
  using assms by (auto simp: leb_wf_def nth_list_update bit_and_iff)

lemma last_close:
  assumes "0 < n" "n \<le> length r"
  shows "last ((take n r)[n - 1 := x]) = x" "length ((take n r)[n - 1 := x]) = n"
proof -
  have "take n r \<noteq> []" using assms by (cases n; cases r) simp_all
  then show "last ((take n r)[n - 1 := x]) = x" "length ((take n r)[n - 1 := x]) = n"
    using assms by (simp_all add: last_list_update)
qed

lemma sleb_int_cong: "length s = length s' \<Longrightarrow> leb_int s = leb_int s' \<Longrightarrow> sleb_int s = sleb_int s'"
  by (simp add: sleb_int_def)

lemma encode_unsigned_spec:
  assumes "bytes \<noteq> []"
  obtains w where "encodeAsLEB128 bytes False = Inr w" "leb_wf w" "leb_int w = le_int bytes"
    "length w \<le> num_septets (length bytes)" "length w = 1 \<or> last w \<noteq> 0"
proof -
  obtain r where r: "encodeAsLEB128NoOptimization bytes False = Inr r"
    "length r = num_septets (length bytes)" "leb_wf r"
    "\<And>j. bit (leb_int r) j \<longleftrightarrow> j < 7 * num_septets (length bytes) \<and> bit (le_int bytes) j"
    using noopt_spec [OF assms, of False] by auto
  have v: "leb_int r = le_int bytes"
    using num_septets_bounds [of "length bytes"] bit_le_int_less [of bytes]
    by (intro bit_eqI) (auto simp: r(4) intro: less_le_trans)
  have pos: "0 < length r" using r(3) by (simp add: leb_wf_def)
  define n where "n = trim_unsigned r (length r)"
  define w where "w = (take n r)[n - 1 := r ! (n - 1) AND 0x7F]"
  have t: "0 < n" "n \<le> length r" "leb_int (take n r) = leb_int r"
      "n = 1 \<or> r ! (n - 1) AND 0x7F \<noteq> 0"
    using trim_unsigned_spec [OF pos order_refl] by (simp_all add: n_def)
  have l: "last w = r ! (n - 1) AND 0x7F" "length w = n"
    unfolding w_def by (rule last_close [OF t(1,2)])+
  have "encodeAsLEB128 bytes False = Inr w"
    using r(1) t(1,2) by (simp add: encodeAsLEB128_def w_def n_def)
  moreover have "leb_wf w" unfolding w_def by (rule leb_wf_close [OF r(3) t(1,2)])
  moreover have "leb_int w = le_int bytes"
    unfolding w_def leb_int_close [OF t(1,2)] t(3) by (rule v)
  moreover have "length w \<le> num_septets (length bytes)" using l t(2) r(2) by simp
  moreover have "length w = 1 \<or> last w \<noteq> 0" using l t(4) by simp
  ultimately show ?thesis by (rule that)
qed

lemma encode_signed_spec:
  assumes "bytes \<noteq> []"
  obtains w where "encodeAsLEB128 bytes True = Inr w" "leb_wf w" "sleb_int w = sle_int bytes"
    "length w \<le> num_septets (length bytes)"
    "length w = 1 \<or>
     (\<exists>k<7. bit (last w) k \<noteq> sign_bit bytes) \<or> bit (w ! (length w - 2)) 6 \<noteq> sign_bit bytes"
proof -
  let ?N = "num_septets (length bytes)"
  obtain r where r: "encodeAsLEB128NoOptimization bytes True = Inr r" "length r = ?N" "leb_wf r"
    "\<And>j. bit (leb_int r) j \<longleftrightarrow> j < 7 * ?N \<and>
       (bit (le_int bytes) j \<or> sign_bit bytes \<and> 8 * length bytes \<le> j)"
    using noopt_spec [OF assms, of True] by auto
  have L: "0 < length bytes" using assms by simp
  have sb: "sign_bit bytes \<longleftrightarrow> bit (le_int bytes) (8 * length bytes - 1)"
    by (rule sign_bit_le_int [OF assms])
  have v: "sleb_int r = sle_int bytes"
  proof (rule bit_eqI)
    fix j
    have bd: "8 * length bytes - 1 \<le> 7 * ?N - 1" "8 * length bytes \<le> 7 * ?N" "0 < ?N"
      using num_septets_bounds(1) [of "length bytes"] L by linarith+
    have "bit (leb_int r) (min (7 * ?N - 1) j) = bit (le_int bytes) (min (8 * length bytes - 1) j)"
    proof (cases "8 * length bytes \<le> min (7 * ?N - 1) j")
      case True
      then have m: "min (8 * length bytes - 1) j = 8 * length bytes - 1" "min (7 * ?N - 1) j < 7 * ?N"
        using bd(3) by auto
      then show ?thesis unfolding m(1) using True r(4) [of "min (7 * ?N - 1) j"] sb not_bit_le_int [OF True] by simp
    next
      case False
      then have "min (8 * length bytes - 1) j = min (7 * ?N - 1) j" "min (7 * ?N - 1) j < 7 * ?N"
        using bd by auto
      then show ?thesis using False r(4) [of "min (7 * ?N - 1) j"] by auto
    qed
    then show "bit (sleb_int r) j = bit (sle_int bytes) j"
      by (simp add: sleb_int_def sle_int_def bit_signed_take_bit_iff r(2))
  qed
  have pos: "0 < length r" using r(3) by (simp add: leb_wf_def)
  define e where "e = (if sign_bit bytes then 0x7F else 0 :: byte)"
  define e6 where "e6 = (if sign_bit bytes then 0x40 else 0 :: byte)"
  define n where "n = trim_signed r e e6 (length r)"
  define w where "w = (take n r)[n - 1 := r ! (n - 1) AND 0x7F]"
  have t: "0 < n" "n \<le> length r" "sleb_int (take n r) = sleb_int r"
      "n = 1 \<or> \<not> ((\<forall>k<7. bit (r ! (n - 1)) k = sign_bit bytes) \<and>
         bit (r ! (n - 2)) 6 = sign_bit bytes)"
    using trim_signed_spec [OF pos order_refl e_def e6_def] by (simp_all add: n_def)
  have l: "last w = r ! (n - 1) AND 0x7F" "length w = n"
    unfolding w_def by (rule last_close [OF t(1,2)])+
  have "encodeAsLEB128 bytes True = Inr w"
    using r(1) t(1,2) assms by (cases "sign_bit bytes")
      (simp_all add: encodeAsLEB128_def w_def n_def e_def e6_def and_80_eq_0 sign_bit_def
        last_conv_nth)
  moreover have "leb_wf w" unfolding w_def by (rule leb_wf_close [OF r(3) t(1,2)])
  moreover have "sleb_int w = sle_int bytes"
    using sleb_int_cong [of w "take n r"] leb_int_close [OF t(1,2)] t v by (simp add: w_def)
  moreover have "length w \<le> ?N" using l t(2) r(2) by simp
  moreover have "length w = 1 \<or>
     (\<exists>k<7. bit (last w) k \<noteq> sign_bit bytes) \<or> bit (w ! (length w - 2)) 6 \<noteq> sign_bit bytes"
  proof (cases "n = 1")
    case False
    then have "w ! (n - 2) = r ! (n - 2)" using t by (simp add: w_def)
    then show ?thesis using False t(4) l by (auto simp: bit_and_iff)
  qed (use l in simp)
  ultimately show ?thesis by (rule that)
qed

end
