(* ===== verification/Leb128_Decode.thy ===== *)
theory Leb128_Decode
  imports Leb128_Encode
begin

text \<open>
  What the decoder of \<^verbatim>\<open>src/src/leb.c\<close> computes on a well-formed encoding followed by anything,
  and how the typed readers and writers compose: the round trips of unsigned and signed values
  and the exact range of encodings the signed readers accept.
\<close>

section \<open>Decoding\<close>

lemma count_septets_wf:
  "s \<noteq> [] \<Longrightarrow> (\<And>i. i < length s \<Longrightarrow> bit (s ! i) 7 \<longleftrightarrow> i + 1 < length s) \<Longrightarrow>
    count_septets (s @ rest) = Inr (length s)"
proof (induction s)
  case (Cons b s)
  show ?case
  proof (cases "s = []")
    case True
    then show ?thesis using Cons.prems(2) [of 0] by (simp add: and_80_eq_0)
  next
    case False
    have "count_septets (s @ rest) = Inr (length s)"
    proof (rule Cons.IH [OF False])
      fix i assume "i < length s"
      then show "bit (s ! i) 7 \<longleftrightarrow> i + 1 < length s" using Cons.prems(2) [of "Suc i"] by simp
    qed
    then show ?thesis using Cons.prems(2) [of 0] False by (simp add: and_80_eq_0)
  qed
qed simp

lemma bit_le_int_update:
  "q < length res \<Longrightarrow> bit (le_int (res[q := x])) j \<longleftrightarrow>
     (if j div 8 = q then bit x (j mod 8) else bit (le_int res) j)"
  by (auto simp: bit_le_int nth_list_update)

lemma decode_step_first:
  assumes "q < length res" "s < 8" "7 * i = 8 * q + s"
  shows "bit (le_int (res[q := res ! q OR push_bit s (b AND 0x7F)])) j \<longleftrightarrow>
    bit (le_int res) j \<or> (j div 8 = q \<and> 7 * i \<le> j \<and> j < 7 * i + 7 \<and> bit b (j - 7 * i))"
proof (cases "j div 8 = q")
  case True
  then have j: "j = 8 * q + j mod 8" by (metis mult_div_mod_eq)
  have m: "j mod 8 < 8" by simp
  have "j - 7 * i = j mod 8 - s" "7 * i \<le> j \<longleftrightarrow> s \<le> j mod 8" "j < 7 * i + 7 \<longleftrightarrow> j mod 8 < s + 7"
    using j assms(3) by linarith+
  moreover have "j mod 8 - s < 7 \<longleftrightarrow> j mod 8 < s + 7" by linarith
  ultimately show ?thesis
    using True assms m by (auto simp: bit_le_int_update bit_simps bit_le_int)
next
  case False
  then show ?thesis using assms by (simp add: bit_le_int_update)
qed

lemma decode_step_second:
  assumes "Suc q < length res" "2 \<le> s" "s < 8" "7 * i = 8 * q + s"
    and low: "\<And>j. 8 * Suc q \<le> j \<Longrightarrow> \<not> bit (le_int res) j"
  shows "bit (le_int (res[Suc q := drop_bit (8 - s) (b AND 0x7F)])) j \<longleftrightarrow>
    bit (le_int res) j \<or> (j div 8 = Suc q \<and> 7 * i \<le> j \<and> j < 7 * i + 7 \<and> bit b (j - 7 * i))"
proof (cases "j div 8 = Suc q")
  case True
  then have j: "j = 8 * q + 8 + j mod 8"
    using mult_div_mod_eq [of 8 j] by simp
  have "j - 7 * i = 8 - s + j mod 8" "7 * i \<le> j" "j < 7 * i + 7 \<longleftrightarrow> 8 - s + j mod 8 < 7"
    using j assms(2-4) by linarith+
  then show ?thesis
    using True assms low [of j] j by (auto simp: bit_le_int_update bit_simps)
next
  case False
  then show ?thesis using assms by (simp add: bit_le_int_update)
qed


lemma double_septet: "((b :: byte) AND 127) * 2 = b * 2 AND 254"
proof -
  have "(b AND 127) * 2 = b * 2 AND 127 * 2"
    using push_bit_and [of 1 b 127] by (simp only: push_bit_eq_mult power_one_right)
  then show ?thesis by simp
qed

lemma div_8_between:
  fixes m q s j :: nat
  assumes "m = 8 * q + s" "s \<le> 1" "m \<le> j" "j < m + 7"
  shows "j div 8 = q"
  using assms by (intro div_nat_eqI) simp_all

lemma div_8_two:
  fixes m q s j :: nat
  assumes "m = 8 * q + s" "s < 8" "m \<le> j" "j < m + 7"
  shows "j div 8 = q \<or> j div 8 = Suc q"
proof (cases "j < 8 * Suc q")
  case True
  then have "j div 8 = q" using assms by (intro div_nat_eqI) simp_all
  then show ?thesis ..
next
  case False
  then have "j div 8 = Suc q" using assms by (intro div_nat_eqI) simp_all
  then show ?thesis ..
qed

lemma decode_loop_spec:
  assumes "S \<noteq> []"
  shows "i \<le> length S \<Longrightarrow> bs = drop i S \<Longrightarrow> length res = num_bytes (length S) \<Longrightarrow>
    (\<And>j. bit (le_int res) j \<longleftrightarrow> j < 7 * i \<and> bit (leb_int S) j) \<Longrightarrow>
    \<exists>res'. decode_loop bs res (7 * i div 8) (8 - 7 * i mod 8) =
        Inr (res', 7 * length S div 8, 8 - 7 * length S mod 8) \<and>
      length res' = num_bytes (length S) \<and> le_int res' = leb_int S"
proof (induction bs arbitrary: i res)
  case Nil
  then have i: "i = length S" by simp
  have "le_int res = leb_int S"
    using Nil.prems(4) bit_leb_int_less [of S] i by (intro bit_eqI) auto
  with Nil.prems i show ?case by simp
next
  case (Cons b bs)
  let ?q = "7 * i div 8" and ?s = "7 * i mod 8"
  have i: "i < length S" using Cons.prems(1,2) by (cases "i = length S") auto
  have "b # bs = S ! i # drop (Suc i) S" using Cons.prems(2) i by (simp add: Cons_nth_drop_Suc)
  then have b: "S ! i = b" "bs = drop (Suc i) S" by simp_all
  have qs: "7 * i = 8 * ?q + ?s" "?s < 8" by simp_all
  have q: "?q < length res" using i Cons.prems(3) by (simp add: num_bytes_def)
  have r: "?s + 7 < 16" using qs(2) by simp
  have e: "7 * Suc i = 8 * ?q + (?s + 7)" by simp
  have nxt: "7 * Suc i div 8 = (if ?s + 7 < 8 then ?q else Suc ?q)"
    "7 * Suc i mod 8 = (if ?s + 7 < 8 then ?s + 7 else ?s + 7 - 8)"
    unfolding e div_mod_8 [OF r] by (rule refl)+
  have leb: "bit (leb_int S) j \<longleftrightarrow> bit b (j - 7 * i)" if "7 * i \<le> j" "j < 7 * i + 7" for j
    using that i b(1) by (simp add: bit_leb_int div_mod_7)
  define res1 where "res1 = res[?q := res ! ?q OR push_bit ?s (b AND 0x7F)]"
  have bits1: "bit (le_int res1) j \<longleftrightarrow> bit (le_int res) j \<or>
      (j div 8 = ?q \<and> 7 * i \<le> j \<and> j < 7 * i + 7 \<and> bit b (j - 7 * i))" for j
    unfolding res1_def by (rule decode_step_first [OF q qs(2,1)])
  have len1: "length res1 = length res" by (simp add: res1_def)
  have go: ?case if d: "decode_loop (b # bs) res ?q (8 - ?s) =
        decode_loop bs res' (7 * Suc i div 8) (8 - 7 * Suc i mod 8)"
      and l: "length res' = length res"
      and bits: "\<And>j. bit (le_int res') j \<longleftrightarrow> bit (le_int res) j \<or>
        (7 * i \<le> j \<and> j < 7 * i + 7 \<and> bit b (j - 7 * i))" for res'
  proof -
    have "bit (le_int res') j \<longleftrightarrow> j < 7 * Suc i \<and> bit (leb_int S) j" for j
      using bits [of j] Cons.prems(4) [of j] leb [of j] by auto
    then show ?thesis
      unfolding d using i b(2) l Cons.prems(3) by (intro Cons.IH) simp_all
  qed
  show ?case
  proof (cases "?s \<le> 1")
    case True
    have dv: "j div 8 = ?q" if "7 * i \<le> j" "j < 7 * i + 7" for j
      by (rule div_8_between [OF qs(1)]) (use that True in simp_all)
    have d: "decode_loop (b # bs) res ?q (8 - ?s) =
          decode_loop bs res1 (7 * Suc i div 8) (8 - 7 * Suc i mod 8)"
    proof (cases "?s = 0")
      case True
      then show ?thesis unfolding nxt using q by (simp add: Let_def res1_def)
    next
      case False
      with \<open>?s \<le> 1\<close> have "?s = 1" by simp
      then show ?thesis
        unfolding nxt using q by (simp add: Let_def res1_def double_septet)
    qed
    show ?thesis
    proof (rule go [OF d len1])
      fix j
      show "bit (le_int res1) j \<longleftrightarrow> bit (le_int res) j \<or>
          (7 * i \<le> j \<and> j < 7 * i + 7 \<and> bit b (j - 7 * i))"
        using bits1 [of j] dv [of j] by blast
    qed
  next
    case False
    define res2 where "res2 = res1[Suc ?q := drop_bit (8 - ?s) (b AND 0x7F)]"
    have aux: "2 \<le> s \<Longrightarrow> 8 * Suc q < 8 * q + (s + 7)" for s q :: nat by simp
    have "8 * Suc ?q < 8 * ?q + (?s + 7)" by (rule aux) (use False in simp)
    also have "\<dots> = 7 * Suc i" by (rule e [symmetric])
    also have "\<dots> \<le> 7 * length S" using i by simp
    finally have q1: "Suc ?q < length res1"
      unfolding len1 Cons.prems(3) num_bytes_def by simp
    have low: "\<not> bit (le_int res1) j" if "8 * Suc ?q \<le> j" for j
      using that qs Cons.prems(4) [of j] bits1 [of j] by auto
    have bits2: "bit (le_int res2) j \<longleftrightarrow> bit (le_int res1) j \<or>
        (j div 8 = Suc ?q \<and> 7 * i \<le> j \<and> j < 7 * i + 7 \<and> bit b (j - 7 * i))" for j
      unfolding res2_def
      using decode_step_second [OF q1 _ qs(2,1) low, of b j] False by simp
    have two: "j div 8 = ?q \<or> j div 8 = Suc ?q" if "7 * i \<le> j" "j < 7 * i + 7" for j
      by (rule div_8_two [OF qs that])
    have d: "decode_loop (b # bs) res ?q (8 - ?s) =
          decode_loop bs res2 (7 * Suc i div 8) (8 - 7 * Suc i mod 8)"
    proof -
      have "8 - ?s \<noteq> 8" "8 - ?s \<noteq> 7" "8 - (8 - ?s) = ?s" "8 - (?s + 7 - 8) = 8 - ?s + 1"
        using False qs(2) by linarith+
      then show ?thesis
        unfolding nxt using False q q1
        by (simp add: Let_def res1_def res2_def)
    qed
    show ?thesis
    proof (rule go [OF d])
      fix j
      show "bit (le_int res2) j \<longleftrightarrow> bit (le_int res) j \<or>
          (7 * i \<le> j \<and> j < 7 * i + 7 \<and> bit b (j - 7 * i))"
        using bits1 [of j] bits2 [of j] two [of j] by blast
    qed (simp add: res2_def len1)
  qed
qed

lemma le_int_replicate_0 [simp]: "le_int (replicate n 0) = 0"
  by (induction n) (simp_all add: le_int_Cons)

lemma decode_fill:
  assumes "leb_wf s"
  obtains res where
    "decode_loop (take (length s) (s @ rest)) (replicate (num_bytes (length s)) 0) 0 8 =
       Inr (res, 7 * length s div 8, 8 - 7 * length s mod 8)"
    "length res = num_bytes (length s)" "le_int res = leb_int s"
proof -
  have "s \<noteq> []" using assms by (simp add: leb_wf_def)
  from decode_loop_spec [OF this, of 0 s "replicate (num_bytes (length s)) 0"]
  show ?thesis using that by auto
qed

lemma ceil_div_8:
  fixes m q s :: nat
  assumes "m = 8 * q + s" "s < 8"
  shows "(m + 7) div 8 = (if s = 0 then q else Suc q)"
proof (cases "s = 0")
  case True
  with assms show ?thesis by (intro div_nat_eqI) simp_all
next
  case False
  with assms have "(m + 7) div 8 = Suc q" by (intro div_nat_eqI) simp_all
  with False show ?thesis by simp
qed

lemma num_bytes_eq:
  "num_bytes n = (if 7 * n mod 8 = 0 then 7 * n div 8 else Suc (7 * n div 8))"
  unfolding num_bytes_def by (rule ceil_div_8) simp_all

lemma le_int_take: "le_int (take n bs) = take_bit (8 * n) (le_int bs)"
  by (rule bit_eqI) (auto simp: bit_le_int bit_simps div_less_iff_less_mult mult.commute)

lemma le_int_butlast_0:
  assumes "length bs = Suc n" "bs ! n = 0"
  shows "le_int (take n bs) = le_int bs"
proof -
  have "bs = take n bs @ [0]"
    using assms take_Suc_conv_app_nth [of n bs] by simp
  then show ?thesis using le_int_append [of "take n bs" "[0]"] by (simp add: le_int_Cons)
qed

lemma le_int_top_byte:
  assumes "length bs = Suc n"
  shows "bs ! n = 0 \<longleftrightarrow> le_int bs < 2 ^ (8 * n)"
proof
  assume "bs ! n = 0"
  then show "le_int bs < 2 ^ (8 * n)"
    using le_int_butlast_0 [OF assms] le_int_less [of "take n bs"] assms by simp
next
  assume l: "le_int bs < 2 ^ (8 * n)"
  have "bs = take n bs @ [bs ! n]" using assms take_Suc_conv_app_nth [of n bs] by simp
  then have e: "le_int bs = le_int (take n bs) + 2 ^ (8 * n) * uint (bs ! n)"
    using le_int_append [of "take n bs" "[bs ! n]"] assms by (simp add: le_int_Cons)
  show "bs ! n = 0"
  proof (rule ccontr)
    assume "bs ! n \<noteq> 0"
    then have "0 < uint (bs ! n)" by (simp add: word_neq_0_conv word_less_def)
    then have "2 ^ (8 * n) * 1 \<le> (2 :: int) ^ (8 * n) * uint (bs ! n)"
      by (intro mult_left_mono) auto
    with e l le_int_nonneg [of "take n bs"] show False by linarith
  qed
qed

lemma num_bytes_septets:
  assumes "n \<le> num_septets L"
  shows "7 * n div 8 \<le> L"
proof -
  have "7 * n < 8 * L + 7" using assms num_septets_bounds(2) [of L] by linarith
  then have "7 * n div 8 < Suc L" by (intro div_less_iff_less_mult [THEN iffD2]) simp_all
  then show ?thesis by simp
qed

lemma decode_unsigned_spec:
  assumes "leb_wf s"
  obtains bs where
    "decodeLEB128 (s @ rest) False = Inr (bs, to_usint (length bs), to_usint (length s))"
    "bs \<noteq> []" "le_int bs = leb_int s" "length bs \<le> num_bytes (length s)"
    "\<And>L. 0 < L \<Longrightarrow> length s \<le> num_septets L \<Longrightarrow> leb_int s < 2 ^ (8 * L) \<Longrightarrow> length bs \<le> L"
proof -
  let ?n = "length s" and ?q = "7 * length s div 8" and ?r = "7 * length s mod 8"
  have n: "0 < ?n" and c: "count_septets (s @ rest) = Inr ?n"
    using assms count_septets_wf [of s rest] by (auto simp: leb_wf_def)
  obtain res where res: "decode_loop (take ?n (s @ rest)) (replicate (num_bytes ?n) 0) 0 8 =
       Inr (res, ?q, 8 - ?r)" "length res = num_bytes ?n" "le_int res = leb_int s"
    by (rule decode_fill [OF assms])
    have qL: "?q \<le> L" if "?n \<le> num_septets L" for L using num_bytes_septets [OF that] .
  show ?thesis
  proof (cases "?r = 0")
    case True
    then have l: "length res = ?q" using res(2) by (simp add: num_bytes_eq)
    have "0 < ?q" using True n mult_div_mod_eq [of 8 "7 * ?n"] by (intro neq0_conv [THEN iffD1] notI) simp
    then have "res \<noteq> []" using l by auto
    moreover have "decodeLEB128 (s @ rest) False = Inr (res, to_usint (length res), to_usint ?n)"
      unfolding decodeLEB128_def c bindE_simps res(1) using True l by (simp add: Let_def)
    ultimately show ?thesis using res(2,3) l qL by (intro that [of res]) simp_all
  next
    case False
    then have l: "length res = Suc ?q" using res(2) by (simp add: num_bytes_eq)
    define m where "m = (if res ! ?q = 0 \<and> 0 < ?q then ?q else Suc ?q)"
    have "8 - ?r \<noteq> 8" using False by simp
    then have "decodeLEB128 (s @ rest) False = Inr (take m res, to_usint m, to_usint ?n)"
      unfolding decodeLEB128_def c bindE_simps res(1) using l
      by (simp add: Let_def m_def)
    moreover have "le_int (take m res) = leb_int s"
      using le_int_butlast_0 [OF l] res(3) l by (simp add: m_def)
    moreover have "length (take m res) = m" using l by (simp add: m_def)
    moreover have "m \<le> L" if "0 < L" "?n \<le> num_septets L" "leb_int s < 2 ^ (8 * L)" for L
    proof (cases "?q = L")
      case True
      then show ?thesis using that le_int_top_byte [OF l] res(3) by (simp add: m_def)
    next
      case False
      then show ?thesis using qL [OF that(2)] by (simp add: m_def)
    qed
    moreover have "m \<noteq> 0" "m \<le> num_bytes ?n" using res(2) l by (auto simp: m_def)
    ultimately show ?thesis using l by (intro that [of "take m res"]) auto
  qed
qed

lemma le_int_fill_sign:
  assumes "length res = Suc q" "7 * n = 8 * q + r" "0 < r" "r < 8" "le_int res = x" "0 < n"
    "\<And>j. bit x j \<Longrightarrow> j < 7 * n" "bit x (7 * n - 1)"
  shows "bit (le_int (res[q := sign_fill (8 - r) (res ! q)])) j \<longleftrightarrow>
    bit x j \<or> 7 * n \<le> j \<and> j < 8 * Suc q"
proof (cases "j div 8 = q")
  case True
  then have j: "j = 8 * q + j mod 8" using mult_div_mod_eq [of 8 j] by simp
  have "j mod 8 < 8" by simp
  moreover have "M \<le> i \<and> i < 8 * Suc q \<longleftrightarrow> r \<le> t"
    if "t < 8" "i = 8 * q + t" "M = 8 * q + r" for i t M :: nat using that by auto
  ultimately have "7 * n \<le> j \<and> j < 8 * Suc q \<longleftrightarrow> r \<le> j mod 8" using j assms(2) by blast
  moreover have "8 - (8 - r) = r" using assms(4) by simp
  ultimately show ?thesis
    using assms(1,5) True \<open>j mod 8 < 8\<close> by (auto simp: bit_le_int_update bit_sign_fill bit_le_int)
next
  case False
  have "\<not> (7 * n \<le> j \<and> j < 8 * Suc q)"
  proof
    assume "7 * n \<le> j \<and> j < 8 * Suc q"
    then have "j div 8 = q" using assms(2) by (intro div_nat_eqI) simp_all
    with False show False by simp
  qed
  then show ?thesis using False assms(1,5) by (simp add: bit_le_int_update) blast
qed

lemma signed_take_bit_filled:
  assumes "0 < M" "M \<le> K"
    and y: "\<And>i. bit y i \<longleftrightarrow> bit x i \<or> bit x (M - 1) \<and> M \<le> i \<and> i < K"
    and x: "\<And>i. bit x i \<Longrightarrow> i < M"
  shows "signed_take_bit (K - 1) y = signed_take_bit (M - 1) (x :: int)"
proof (rule bit_eqI)
  fix j
  have "min (M - 1) j = (if j < M then j else M - 1)" "min (K - 1) j = (if j < K then j else K - 1)"
    using assms(1,2) by auto
  then show "bit (signed_take_bit (K - 1) y) j = bit (signed_take_bit (M - 1) x) j"
    using assms(1,2) x [of j] x [of "K - 1"] by (cases "M = K") (auto simp: bit_signed_take_bit_iff y)
qed

lemma decode_signed_spec:
  assumes "leb_wf s"
  obtains bs where
    "decodeLEB128 (s @ rest) True = Inr (bs, to_usint (length bs), to_usint (length s))"
    "length bs = num_bytes (length s)" "sle_int bs = sleb_int s"
proof -
  let ?n = "length s" and ?q = "7 * length s div 8" and ?r = "7 * length s mod 8"
  have n: "0 < ?n" and c: "count_septets (s @ rest) = Inr ?n"
    using assms count_septets_wf [of s rest] by (auto simp: leb_wf_def)
  obtain res where res: "decode_loop (take ?n (s @ rest)) (replicate (num_bytes ?n) 0) 0 8 =
       Inr (res, ?q, 8 - ?r)" "length res = num_bytes ?n" "le_int res = leb_int s"
    by (rule decode_fill [OF assms])
  show ?thesis
  proof (cases "?r = 0")
    case True
    then have l: "length res = ?q" using res(2) by (simp add: num_bytes_eq)
    have e: "8 * ?q = 7 * ?n" using True mult_div_mod_eq [of 8 "7 * ?n"] by simp
    have "decodeLEB128 (s @ rest) True = Inr (res, to_usint (length res), to_usint ?n)"
      unfolding decodeLEB128_def c bindE_simps res(1) using True l by (simp add: Let_def)
    moreover have "sle_int res = sleb_int s"
      unfolding sle_int_def sleb_int_def l e res(3) ..
    ultimately show ?thesis using res(2) by (intro that)
  next
    case False
    then have l: "length res = Suc ?q" using res(2) by (simp add: num_bytes_eq)
    have e: "7 * ?n = 8 * ?q + ?r" "?r < 8" by simp_all
    let ?sg = "bit (leb_int s) (7 * ?n - 1)"
    have d1: "(7 * ?n - 1) div 8 = ?q" "(7 * ?n - 1) mod 8 = ?r - 1"
    proof -
      have g: "(m - 1) div 8 = q \<and> (m - 1) mod 8 = t - 1" if "m = 8 * q + t" "0 < t" "t < 8"
        for m q t :: nat
      proof -
        have "m - 1 = 8 * q + (t - 1)" "t - 1 < 8" using that by simp_all
        then show ?thesis by simp
      qed
      show "(7 * ?n - 1) div 8 = ?q" "(7 * ?n - 1) mod 8 = ?r - 1"
        using g [OF e(1) _ e(2)] False by simp_all
    qed
    have sg: "res ! ?q AND push_bit (7 - (8 - ?r)) 1 \<noteq> 0 \<longleftrightarrow> ?sg"
    proof -
      have "7 - (8 - ?r) = ?r - 1" using False e(2) by linarith
      then show ?thesis
        unfolding res(3) [symmetric] bit_le_int d1 and_push_bit_1 using l by simp
    qed
    define res' where "res' = (if ?sg then res[?q := sign_fill (8 - ?r) (res ! ?q)] else res)"
    have l': "length res' = Suc ?q" using l by (simp add: res'_def)
    have "8 - ?r < 8" "8 - ?r \<noteq> 8" using False by simp_all
    then have "decodeLEB128 (s @ rest) True = Inr (res', to_usint (length res'), to_usint ?n)"
      unfolding decodeLEB128_def c bindE_simps res(1) using l sg
      by (cases ?sg) (simp_all add: Let_def res'_def)
    moreover have "length res' = num_bytes ?n" using l l' res(2) by simp
    moreover have "sle_int res' = sleb_int s"
    proof -
      have bits: "bit (le_int res') i \<longleftrightarrow> bit (leb_int s) i \<or> ?sg \<and> 7 * ?n \<le> i \<and> i < 8 * Suc ?q" for i
        using le_int_fill_sign [OF l e(1) _ e(2) res(3) n bit_leb_int_less, of i] False res(3)
        by (simp add: res'_def)
      have "M \<le> 8 * Suc q" if "M = 8 * q + r" "r < 8" for M q r :: nat using that by simp
      from this [OF e] have le: "7 * ?n \<le> 8 * Suc ?q" "0 < 7 * ?n" using n by simp_all
      show ?thesis
        unfolding sle_int_def sleb_int_def l'
        by (rule signed_take_bit_filled [OF le(2,1) bits bit_leb_int_less])
    qed
    ultimately show ?thesis by (intro that)
  qed
qed

section \<open>Typed readers\<close>

lemma num_septets_mono: "m \<le> n \<Longrightarrow> num_septets m \<le> num_septets n"
  by (simp add: num_septets_def div_le_mono)

lemma num_bytes_pos: "0 < n \<Longrightarrow> 0 < num_bytes n"
  by (simp add: num_bytes_def div_greater_zero_iff)

lemma num_bytes_small: "0 < n \<Longrightarrow> n \<le> 7 \<Longrightarrow> num_bytes n = n"
  unfolding num_bytes_def by (intro div_nat_eqI) simp_all

lemma leb128ToUWord_spec:
  assumes "leb_wf s" "length s \<le> 10" "leb_int s < 2 ^ 64"
  shows "leb128ToUWord (s @ rest) = Inr (word_of_int (leb_int s), length s)"
proof -
  obtain bs where bs: "decodeLEB128 (s @ rest) False = Inr (bs, to_usint (length bs), to_usint (length s))"
    "le_int bs = leb_int s"
    "\<And>L. 0 < L \<Longrightarrow> length s \<le> num_septets L \<Longrightarrow> leb_int s < 2 ^ (8 * L) \<Longrightarrow> length bs \<le> L"
    by (rule decode_unsigned_spec [OF assms(1)]) blast
  from bs(3) [of 8] assms have "length bs \<le> 8" by (simp add: num_septets_def)
  with bs assms(2) show ?thesis by (simp add: leb128ToUWord_def le_word_def)
qed

lemma leb128ToUInt_spec:
  assumes "leb_wf s" "length s \<le> 5" "leb_int s < 2 ^ 32"
  shows "leb128ToUInt (s @ rest) = Inr (word_of_int (leb_int s), length s)"
proof -
  obtain bs where bs: "decodeLEB128 (s @ rest) False = Inr (bs, to_usint (length bs), to_usint (length s))"
    "le_int bs = leb_int s"
    "\<And>L. 0 < L \<Longrightarrow> length s \<le> num_septets L \<Longrightarrow> leb_int s < 2 ^ (8 * L) \<Longrightarrow> length bs \<le> L"
    by (rule decode_unsigned_spec [OF assms(1)]) blast
  from bs(3) [of 4] assms have "length bs \<le> 4" by (simp add: num_septets_def)
  with bs assms(2) show ?thesis by (simp add: leb128ToUInt_def le_word_def)
qed

lemma word_of_sle_int_small:
  assumes "0 < length bs" "length bs \<le> 4"
  shows "sextend (le_word bs) (length bs) = Inr (word_of_int (sle_int bs))"
proof -
  have "\<not> bit (le_word bs :: 64 word) j" if "8 * length bs \<le> j" for j
    using not_bit_le_int [OF that] by (simp add: le_word_def bit_simps)
  from sextend_signed [OF assms this]
  have "sextend (le_word bs) (length bs) = Inr (signed_take_bit (8 * length bs - 1) (le_word bs :: 64 word))" .
  also have "signed_take_bit (8 * length bs - 1) (le_word bs :: 64 word) = word_of_int (sle_int bs)"
    using assms by (intro bit_word_eqI) (auto simp: le_word_def sle_int_def bit_simps min_def)
  finally show ?thesis .
qed

text \<open>
  The signed reader is exact for encodings of at most four septets and of exactly nine; it
  shifts an \<^verbatim>\<open>int\<close> too far for five to eight septets and rejects longer ones.
\<close>

lemma leb128ToSWord_spec:
  assumes "leb_wf s" "length s < 65536"
  shows "leb128ToSWord (s @ rest) =
    (if length s \<le> 4 \<or> length s = 9 then Inr (word_of_int (sleb_int s), length s)
     else if length s \<le> 8 then Inl UndefinedShift else Inl AssertFail)"
proof -
  obtain bs where bs: "decodeLEB128 (s @ rest) True = Inr (bs, to_usint (length bs), to_usint (length s))"
    "length bs = num_bytes (length s)" "sle_int bs = sleb_int s"
    by (rule decode_signed_spec [OF assms(1)])
  have pos: "0 < length s" using assms(1) by (simp add: leb_wf_def)
  have "length bs \<le> length s" using pos unfolding bs(2) num_bytes_def by linarith
  then have u: "to_usint (length bs) = length bs" "to_usint (length s) = length s"
    using assms(2) by simp_all
  consider "length s \<le> 4" | "5 \<le> length s" "length s \<le> 8" | "length s = 9" | "10 \<le> length s"
    by linarith
  then show ?thesis
  proof cases
    case 1
    then have "0 < length bs" "length bs \<le> 4" using pos bs(2) by (simp_all add: num_bytes_small)
    from word_of_sle_int_small [OF this] this 1 u bs show ?thesis
      by (simp add: leb128ToSWord_def)
  next
    case 2
    then have "5 \<le> length bs" "length bs \<le> 7" using bs(2) by (auto simp: num_bytes_def)
    from sextend_undefined [OF this] this 2 u bs show ?thesis
      by (simp add: leb128ToSWord_def Let_def)
  next
    case 3
    then have l: "length bs = 8" using bs(2) by (simp add: num_bytes_def)
    have "(le_word bs :: 64 word) = word_of_int (sle_int bs)"
      unfolding le_word_def sle_int_def l
      by (rule bit_word_eqI) (auto simp: bit_simps min_def dest: le_antisym)
    with 3 l u bs show ?thesis by (simp add: leb128ToSWord_def)
  next
    case 4
    then have "\<not> length bs \<le> 8" using bs(2) by (simp add: num_bytes_def)
    with 4 u bs show ?thesis by (simp add: leb128ToSWord_def)
  qed
qed

lemma ucast_word_of_int_32: "(ucast (word_of_int k :: 64 word) :: 32 word) = word_of_int k"
  by (rule bit_word_eqI) (auto simp: bit_simps)

lemma leb128ToInt_spec:
  assumes "leb_wf s" "length s < 65536"
  shows "leb128ToInt (s @ rest) =
    (if length s \<le> 4 then Inr (word_of_int (sleb_int s), length s) else Inl AssertFail)"
proof -
  obtain bs where bs: "decodeLEB128 (s @ rest) True = Inr (bs, to_usint (length bs), to_usint (length s))"
    "length bs = num_bytes (length s)" "sle_int bs = sleb_int s"
    by (rule decode_signed_spec [OF assms(1)])
  have pos: "0 < length s" using assms(1) by (simp add: leb_wf_def)
  have "length bs \<le> length s" using pos unfolding bs(2) num_bytes_def by linarith
  then have u: "to_usint (length bs) = length bs" "to_usint (length s) = length s"
    using assms(2) by simp_all
  show ?thesis
  proof (cases "length s \<le> 4")
    case True
    then have l: "0 < length bs" "length bs \<le> 4" "length bs = length s"
      using pos bs(2) by (simp_all add: num_bytes_small)
    show ?thesis
    proof (cases "length bs = 4")
      case True
      have "(le_word bs :: 32 word) = word_of_int (sle_int bs)"
        unfolding le_word_def sle_int_def True
        by (rule bit_word_eqI) (auto simp: bit_simps min_def dest: le_antisym)
      then show ?thesis using True u bs l by (simp add: leb128ToInt_def)
    next
      case False
      then have l3: "length bs < 4" "8 * length bs \<le> 24" using l by simp_all
      have "\<not> bit (le_word bs :: 32 word) 31"
        using not_bit_le_int [of bs 31] l3(2) by (simp add: le_word_def bit_simps)
      moreover have "31 \<le> j \<Longrightarrow> \<not> bit (le_int bs) j" for j
        using not_bit_le_int [of bs j] l3(2) by simp
      ultimately have "(scast (le_word bs :: 32 word) :: 64 word) = le_word bs"
        by (intro bit_word_eqI) (auto simp: le_word_def bit_simps min_def)
      with word_of_sle_int_small [OF l(1,2)]
      have "sextend (scast (le_word bs :: 32 word)) (length bs) = Inr (word_of_int (sle_int bs))"
        by simp
      then show ?thesis using l3 u bs l by (simp add: leb128ToInt_def ucast_word_of_int_32)
    qed
  next
    case False
    then have "\<not> length bs \<le> 4" using bs(2) by (auto simp: num_bytes_def)
    with False u bs show ?thesis by (simp add: leb128ToInt_def)
  qed
qed


text \<open>Canonical encodings are the shortest ones.\<close>

lemma leb_int_shortest:
  assumes "leb_wf w" "length w = 1 \<or> last w \<noteq> 0" "leb_wf s" "leb_int s = leb_int w"
  shows "length w \<le> length s"
proof (rule ccontr)
  assume l: "\<not> length w \<le> length s"
  have w: "w \<noteq> []" "s \<noteq> []" using assms by (auto simp: leb_wf_def)
  with l have "length w \<noteq> 1" by (cases s) auto
  with assms(2) have nz: "last w \<noteq> 0" by simp
  let ?n = "length w - 1"
  have n: "?n < length w" "last w = w ! ?n" using w by (simp_all add: last_conv_nth)
  have "\<not> bit (last w) 7" using assms(1) n w by (auto simp: leb_wf_def)
  have "\<not> bit (last w) k" if "k < 7" for k
  proof
    assume "bit (last w) k"
    then have "bit (leb_int w) (7 * ?n + k)" using bit_septet [OF n(1) that] n(2) by simp
    then have "7 * ?n + k < 7 * length s" using assms(4) bit_leb_int_less [of s "7 * ?n + k"] by simp
    with l show False by simp
  qed
  moreover have "\<not> bit (last w) k" if "7 \<le> k" for k
    using \<open>\<not> bit (last w) 7\<close> that bit_imp_le_length [of "last w" k] by (cases "k = 7") auto
  ultimately have "\<not> bit (last w) k" for k by (cases "k < 7") auto
  then have "last w = 0" by (intro bit_word_eqI) simp
  with nz show False ..
qed

lemma leb_int_word_bytes: "le_int (word_bytes n (w :: 'a::len word)) = uint (take_bit (8 * n) w)"
  by (simp add: le_int_word_bytes unsigned_take_bit_eq)

lemma uintToLEB128_bytes:
  "\<exists>n. 0 < n \<and> n \<le> 4 \<and> uintToLEB128 v = encodeAsLEB128 (word_bytes n v) False \<and>
    take_bit (8 * n) v = v"
proof -
  have hi: "take_bit m v = v" if "v AND NOT (mask m) = 0" for m
  proof (rule bit_word_eqI)
    fix j assume "j < LENGTH(32)"
    moreover have "bit (v AND NOT (mask m)) j = bit (0 :: uint) j" using that by simp
    ultimately show "bit (take_bit m v) j = bit v j" by (auto simp: bit_simps)
  qed
  have m: "0xFF000000 = NOT (mask 24 :: uint)" "0xFFFF0000 = NOT (mask 16 :: uint)"
    "0xFFFFFF00 = NOT (mask 8 :: uint)"
    by (simp_all add: mask_eq_exp_minus_1)
  define n :: nat where "n = (if v AND NOT (mask 24) \<noteq> 0 then 4 else if v AND NOT (mask 16) \<noteq> 0 then 3
    else if v AND NOT (mask 8) \<noteq> 0 then 2 else 1)"
  have "uintToLEB128 v = encodeAsLEB128 (word_bytes n v) False"
    unfolding uintToLEB128_def Let_def m n_def ..
  moreover have "0 < n" "n \<le> 4" by (simp_all add: n_def)
  moreover have "take_bit (8 * n) v = v"
    using hi [of 24] hi [of 16] hi [of 8] by (simp add: n_def take_bit_word_eq_self)
  ultimately show ?thesis by blast
qed


lemma sle_int_word_bytes: "sle_int (word_bytes n (w :: 'a::len word)) = signed_take_bit (8 * n - 1) (take_bit (8 * n) (uint w))"
  by (simp add: sle_int_def le_int_word_bytes)

lemma sle_int_word_bytes_full:
  assumes "LENGTH('a) = 8 * n"
  shows "sle_int (word_bytes n (w :: 'a::len word)) = sint w"
  unfolding sle_int_def le_int_word_bytes
  by (rule bit_eqI) (use assms in \<open>auto simp: bit_simps min_def dest: bit_imp_le_length\<close>)

text \<open>How many septets the signed encoder keeps: enough for the value and its sign.\<close>

lemma signed_take_bit_bounds:
  "- (2 ^ n) \<le> signed_take_bit n (x :: int)" "signed_take_bit n x < 2 ^ n"
  by (simp_all add: signed_take_bit_int_greater_eq_minus_exp signed_take_bit_int_less_exp)

lemma sleb_int_shortest:
  assumes w: "leb_wf w"
      "length w = 1 \<or> (\<exists>k<7. bit (last w) k \<noteq> (sleb_int w < 0)) \<or>
       bit (w ! (length w - 2)) 6 \<noteq> (sleb_int w < 0)"
    and v: "- (2 ^ (7 * n - 1)) \<le> sleb_int w" "sleb_int w < 2 ^ (7 * n - 1)" "0 < n"
  shows "length w \<le> n"
proof (rule ccontr)
  assume "\<not> length w \<le> n"
  then have l: "n < length w" by simp
  let ?L = "length w"
  have pos: "1 < ?L" "?L \<noteq> 1" using l v(3) by simp_all
  define x where "x = sleb_int w"
  have hi: "bit x j = (x < 0)" if "7 * n - 1 \<le> j" for j
  proof -
    have s: "signed_take_bit (7 * n - 1) x = x"
      using v(1,2) unfolding x_def by (intro signed_take_bit_int_eq_self)
    then have "bit x j = bit (signed_take_bit (7 * n - 1) x) j" by simp
    also have "\<dots> = bit x (7 * n - 1)" using that by (simp add: bit_signed_take_bit_iff min_absorb1)
    also have "\<dots> = (signed_take_bit (7 * n - 1) x < 0)" by (simp only: signed_take_bit_negative_iff)
    finally show ?thesis unfolding s .
  qed
  have bits: "bit (leb_int w) j = bit x j" if "j < 7 * ?L" for j
    using that by (simp add: x_def sleb_int_def bit_signed_take_bit_iff min_absorb2)
  have "bit (last w) k = (x < 0)" if "k < 7" for k
  proof -
    have "bit (last w) k = bit (w ! (?L - 1)) k" using pos by (subst last_conv_nth) auto
    also have "\<dots> = bit (leb_int w) (7 * (?L - 1) + k)" using pos that by (intro bit_septet) auto
    also have "\<dots> = bit x (7 * (?L - 1) + k)" using pos that by (intro bits) simp
    finally show ?thesis using hi l by simp
  qed
  moreover have "bit (w ! (?L - 2)) 6 = (x < 0)"
  proof -
    have "bit (w ! (?L - 2)) 6 = bit (leb_int w) (7 * (?L - 2) + 6)" using pos by (intro bit_septet) auto
    also have "\<dots> = bit x (7 * (?L - 2) + 6)" using pos by (intro bits) simp
    finally show ?thesis using hi l pos by simp
  qed
  ultimately show False using w(2) pos unfolding x_def by blast
qed

section \<open>Round trips\<close>

lemma encode_word_spec:
  assumes "0 < n" "8 * n \<le> LENGTH('a)"
  obtains enc where "encodeAsLEB128 (word_bytes n (w :: 'a::len word)) False = Inr enc" "leb_wf enc"
    "leb_int enc = uint (take_bit (8 * n) w)" "length enc \<le> num_septets n"
    "length enc = 1 \<or> last enc \<noteq> 0"
proof -
  have ne: "word_bytes n w \<noteq> []" using assms(1) by (simp add: word_bytes_def)
  show ?thesis
    by (rule encode_unsigned_spec [OF ne]) (rule that, simp_all add: leb_int_word_bytes)
qed

lemma uint_encode_spec:
  obtains enc where "uintToLEB128 v = Inr enc" "leb_wf enc" "leb_int enc = uint v"
    "length enc \<le> 5" "length enc = 1 \<or> last enc \<noteq> 0"
proof -
  obtain n where n: "0 < n" "n \<le> 4" "uintToLEB128 v = encodeAsLEB128 (word_bytes n v) False"
    "take_bit (8 * n) v = v"
    using uintToLEB128_bytes by blast
  have "num_septets n \<le> 5" using num_septets_mono [OF n(2)] by (simp add: num_septets_def)
  moreover obtain enc where "encodeAsLEB128 (word_bytes n v) False = Inr enc" "leb_wf enc"
    "leb_int enc = uint (take_bit (8 * n) v)" "length enc \<le> num_septets n"
    "length enc = 1 \<or> last enc \<noteq> 0"
    by (rule encode_word_spec [OF n(1), of v]) (use n(2) in simp_all)
  ultimately show ?thesis using n(3,4) by (intro that [of enc]) simp_all
qed

lemma sword_encode_spec:
  assumes "LENGTH('a) = 8 * n"
  obtains enc where "encodeAsLEB128 (word_bytes n (v :: 'a::len word)) True = Inr enc" "leb_wf enc"
    "sleb_int enc = sint v" "length enc \<le> num_septets n"
    "length enc = 1 \<or> (\<exists>k<7. bit (last enc) k \<noteq> (sint v < 0)) \<or>
       bit (enc ! (length enc - 2)) 6 \<noteq> (sint v < 0)"
proof -
  have "n \<noteq> 0" using assms by (cases n) auto
  then have ne: "word_bytes n v \<noteq> []" by (simp add: word_bytes_def)
  have sv: "sle_int (word_bytes n v) = sint v" by (rule sle_int_word_bytes_full [OF assms])
  have neg: "sign_bit (word_bytes n v) \<longleftrightarrow> sint v < 0"
    unfolding sign_bit_le_int [OF ne] sv [symmetric]
    by (simp only: sle_int_def signed_take_bit_negative_iff)
  show ?thesis
    by (rule encode_signed_spec [OF ne]) (rule that, use neg sv in simp_all)
qed

lemma uint_eq_sint: "0 \<le> sint (v :: 32 word) \<Longrightarrow> uint v = sint v"
proof -
  assume "0 \<le> sint v"
  then have "\<not> bit (uint v) 31"
    unfolding sint_uint by (simp add: signed_take_bit_negative_iff not_less [symmetric])
  moreover have "31 \<le> j \<Longrightarrow> j \<noteq> 31 \<Longrightarrow> \<not> bit (uint v) j" for j
    using bit_imp_le_length [of v j] by (auto simp: bit_uint_iff)
  ultimately have "31 \<le> j \<Longrightarrow> \<not> bit (uint v) j" for j by (cases "j = 31") auto
  then show ?thesis
    unfolding sint_uint by (intro bit_eqI) (auto simp: bit_signed_take_bit_iff min_def)
qed

section \<open>Machine words through the codec\<close>

lemma decodeLEB128_wf_append:
  assumes "leb_wf s"
  shows "decodeLEB128 (s @ rest) sg = decodeLEB128 s sg"
  using count_septets_wf [of s rest] count_septets_wf [of s "[]"] assms
  by (simp add: decodeLEB128_def leb_wf_def)

text \<open>
  The forms the instruction readers use: an unsigned word comes back whole; a signed word that is
  not negative and fits nine septets comes back whole, without the need of \<^verbatim>\<open>sextend\<close>.
\<close>

lemma uleb64_codec:
  obtains enc bs where "encodeAsLEB128 (word_bytes 8 (w :: word_t)) False = Inr enc"
    "enc \<noteq> []" "length enc \<le> 10" "length bs \<le> 8" "le_word bs = w"
    "\<And>rest. decodeLEB128 (enc @ rest) False = Inr (bs, length bs, length enc)"
proof -
  obtain enc where e: "encodeAsLEB128 (word_bytes 8 w) False = Inr enc" "leb_wf enc"
    "leb_int enc = uint w" "length enc \<le> num_septets 8"
    by (rule encode_word_spec [of 8 w]) (simp_all add: take_bit_word_eq_self)
  have l: "length enc \<le> 10" "enc \<noteq> []" using e by (auto simp: num_septets_def leb_wf_def)
  obtain bs where bs: "decodeLEB128 (enc @ []) False = Inr (bs, to_usint (length bs), to_usint (length enc))"
    "le_int bs = leb_int enc"
    "\<And>L. 0 < L \<Longrightarrow> length enc \<le> num_septets L \<Longrightarrow> leb_int enc < 2 ^ (8 * L) \<Longrightarrow> length bs \<le> L"
    by (rule decode_unsigned_spec [OF e(2)]) blast
  have b8: "length bs \<le> 8" using bs(3) [of 8] e uint_lt2p [of w] by simp
  have "decodeLEB128 (enc @ rest) False = Inr (bs, length bs, length enc)" for rest
    using bs(1) b8 l decodeLEB128_wf_append [OF e(2)] by simp
  then show ?thesis using that e b8 l bs(2) by (simp add: le_word_def)
qed

lemma sleb64_codec:
  assumes "0 \<le> sint (w :: word_t)" "sint w < 2 ^ 62"
  obtains enc bs where "encodeAsLEB128 (word_bytes 8 w) True = Inr enc"
    "enc \<noteq> []" "length enc \<le> 9" "length bs \<le> 8" "le_word bs = w"
    "\<And>rest. decodeLEB128 (enc @ rest) True = Inr (bs, length bs, length enc)"
proof -
  obtain enc where e: "encodeAsLEB128 (word_bytes 8 w) True = Inr enc" "leb_wf enc"
    "sleb_int enc = sint w" "length enc = 1 \<or>
      (\<exists>k<7. bit (last enc) k \<noteq> (sint w < 0)) \<or> bit (enc ! (length enc - 2)) 6 \<noteq> (sint w < 0)"
    by (rule sword_encode_spec [of 8 w]) simp_all
  have l: "length enc \<le> 9" by (rule sleb_int_shortest) (use e assms in simp_all)
  have ne: "enc \<noteq> []" using e(2) by (simp add: leb_wf_def)
  obtain bs where bs: "decodeLEB128 (enc @ []) True = Inr (bs, to_usint (length bs), to_usint (length enc))"
    "length bs = num_bytes (length enc)" "sle_int bs = sleb_int enc"
    by (rule decode_signed_spec [OF e(2)])
  have b8: "length bs \<le> 8"
    unfolding bs(2) num_bytes_def using l div_le_mono [of "7 * length enc + 7" 70 8] by simp
  have "decodeLEB128 (enc @ rest) True = Inr (bs, length bs, length enc)" for rest
    using bs(1) b8 l decodeLEB128_wf_append [OF e(2)] by simp
  moreover have "le_word bs = w"
  proof -
    have s: "signed_take_bit (8 * length bs - 1) (le_int bs) = sint w" using bs(3) e(3) by (simp add: sle_int_def)
    then have "\<not> bit (le_int bs) (8 * length bs - 1)"
      using assms(1) signed_take_bit_negative_iff [of "8 * length bs - 1" "le_int bs"] by simp
    moreover have "\<not> bit (le_int bs) j" if "8 * length bs \<le> j" for j using not_bit_le_int [OF that] .
    ultimately have "\<not> bit (le_int bs) j" if "8 * length bs - 1 \<le> j" for j
      using that by (cases "j = 8 * length bs - 1") auto
    then have "le_int bs = sint w"
      unfolding s [symmetric] by (intro bit_eqI) (auto simp: bit_signed_take_bit_iff min_def)
    then show ?thesis by (simp add: le_word_def)
  qed
  ultimately show ?thesis using that e ne l b8 by blast
qed

text \<open>A negative word comes back as its low bytes only, without the sign.\<close>

lemma sleb64_codec_negative:
  assumes "- (2 ^ 55) \<le> sint (w :: word_t)" "sint w < 0"
  obtains enc bs where "encodeAsLEB128 (word_bytes 8 w) True = Inr enc"
    "enc \<noteq> []" "length enc \<le> 8" "length bs \<le> 7" "le_word bs = take_bit (8 * length bs) w"
    "\<And>rest. decodeLEB128 (enc @ rest) True = Inr (bs, length bs, length enc)"
proof -
  obtain enc where e: "encodeAsLEB128 (word_bytes 8 w) True = Inr enc" "leb_wf enc"
    "sleb_int enc = sint w" "length enc = 1 \<or>
      (\<exists>k<7. bit (last enc) k \<noteq> (sint w < 0)) \<or> bit (enc ! (length enc - 2)) 6 \<noteq> (sint w < 0)"
    by (rule sword_encode_spec [of 8 w]) simp_all
  have l: "length enc \<le> 8" by (rule sleb_int_shortest) (use e assms in simp_all)
  have ne: "0 < length enc" using e(2) by (simp add: leb_wf_def)
  obtain bs where bs: "decodeLEB128 (enc @ []) True = Inr (bs, to_usint (length bs), to_usint (length enc))"
    "length bs = num_bytes (length enc)" "sle_int bs = sleb_int enc"
    by (rule decode_signed_spec [OF e(2)])
  have b7: "length bs \<le> 7"
    unfolding bs(2) num_bytes_def using l div_le_mono [of "7 * length enc + 7" 63 8] by simp
  have b0: "0 < length bs" unfolding bs(2) by (rule num_bytes_pos [OF ne])
  have "decodeLEB128 (enc @ rest) True = Inr (bs, length bs, length enc)" for rest
    using bs(1) b7 l decodeLEB128_wf_append [OF e(2)] by simp
  moreover have "le_word bs = take_bit (8 * length bs) w"
  proof -
    have "le_int bs = take_bit (8 * length bs) (sint w)"
      unfolding e(3) [symmetric] bs(3) [symmetric] sle_int_def
      using b0 le_int_less [of bs] by (simp add: take_bit_signed_take_bit take_bit_int_eq_self)
    moreover have "take_bit n w = word_of_int (take_bit n (sint w))" for n
      by (rule bit_word_eqI) (auto simp: bit_simps min_def dest: le_antisym)
    ultimately show ?thesis by (simp add: le_word_def)
  qed
  ultimately show ?thesis using that e ne l b7 by blast
qed

lemma uleb64_to_uint:
  assumes "uint (w :: word_t) < 2 ^ 32"
  obtains enc where "encodeAsLEB128 (word_bytes 8 w) False = Inr enc" "enc \<noteq> []" "length enc \<le> 5"
    "\<And>rest. leb128ToUInt (enc @ rest) = Inr (ucast w, length enc)"
proof -
  obtain enc where e: "encodeAsLEB128 (word_bytes 8 w) False = Inr enc" "leb_wf enc"
    "leb_int enc = uint w" "length enc = 1 \<or> last enc \<noteq> 0"
    by (rule encode_word_spec [of 8 w]) (simp_all add: take_bit_word_eq_self)
  obtain enc' where e': "leb_wf enc'" "leb_int enc' = uint (ucast w :: uint)" "length enc' \<le> 5"
    by (rule uint_encode_spec)
  have u: "uint (ucast w :: uint) = uint w"
    using assms by (simp add: uint_up_ucast unsigned_ucast_eq take_bit_int_eq_self)
  have l: "length enc \<le> 5" using leb_int_shortest [OF e(2,4) e'(1)] e(3) e'(2,3) u by simp
  have "(word_of_int (uint w) :: uint) = ucast w" by (rule bit_word_eqI) (simp add: bit_simps)
  then show ?thesis
    using that e l leb128ToUInt_spec [OF e(2) l] assms by (simp add: leb_wf_def)
qed

lemma sleb64_to_int:
  assumes "- (2 ^ 27) \<le> sint (w :: word_t)" "sint w < 2 ^ 27"
  obtains enc where "encodeAsLEB128 (word_bytes 8 w) True = Inr enc" "enc \<noteq> []" "length enc \<le> 4"
    "\<And>rest. leb128ToInt (enc @ rest) = Inr (ucast w, length enc)"
proof -
  obtain enc where e: "encodeAsLEB128 (word_bytes 8 w) True = Inr enc" "leb_wf enc"
    "sleb_int enc = sint w" "length enc = 1 \<or>
      (\<exists>k<7. bit (last enc) k \<noteq> (sint w < 0)) \<or> bit (enc ! (length enc - 2)) 6 \<noteq> (sint w < 0)"
    by (rule sword_encode_spec [of 8 w]) simp_all
  have l: "length enc \<le> 4" by (rule sleb_int_shortest) (use e assms in simp_all)
  have "(word_of_int (sint w) :: uint) = ucast w"
    by (rule bit_word_eqI) (auto simp: bit_simps min_def)
  then show ?thesis
    using that e l leb128ToInt_spec [OF e(2)] by (simp add: leb_wf_def)
qed

lemma scast_ucast_small:
  assumes "- (2 ^ 27) \<le> sint (w :: word_t)" "sint w < 2 ^ 27"
  shows "scast (ucast w :: uint) = w"
proof -
  have "sint (ucast w :: uint) = signed_take_bit 31 (sint w)"
    by (rule bit_eqI) (auto simp: bit_simps min_def)
  also have "\<dots> = sint w" using assms by (intro signed_take_bit_int_eq_self) simp_all
  finally show ?thesis by (simp add: scast_eq)
qed

text \<open>
  C1: every unsigned value of one to eight bytes survives the codec: the encoder returns the
  shortest well-formed encoding of it, of at most \<open>num_septets n\<close> bytes, and \<^verbatim>\<open>leb128ToUWord\<close> reads
  it back, with the number of bytes consumed, whatever follows it in the section.
\<close>

theorem leb128_unsigned_roundtrip:
  assumes "0 < n" "n \<le> 8"
  shows "\<exists>enc. encodeAsLEB128 (word_bytes n (w :: word_t)) False = Inr enc \<and>
    length enc \<le> num_septets n \<and>
    leb128ToUWord (enc @ rest) = Inr (take_bit (8 * n) w, length enc) \<and>
    (\<forall>s. leb_wf s \<and> leb_int s = uint (take_bit (8 * n) w) \<longrightarrow> length enc \<le> length s)"
proof -
  obtain enc where e: "encodeAsLEB128 (word_bytes n w) False = Inr enc" "leb_wf enc"
    "leb_int enc = uint (take_bit (8 * n) w)" "length enc \<le> num_septets n"
    "length enc = 1 \<or> last enc \<noteq> 0"
    by (rule encode_word_spec [of n w]) (use assms in simp_all)
  have "num_septets n \<le> 10" using num_septets_mono [OF assms(2)] by (simp add: num_septets_def)
  then have "leb128ToUWord (enc @ rest) = Inr (take_bit (8 * n) w, length enc)"
    using e leb128ToUWord_spec [OF e(2), of rest] uint_lt2p [of "take_bit (8 * n) w"] by simp
  with e leb_int_shortest [OF e(2,5)] show ?thesis by auto
qed

theorem leb128_unsigned_roundtrip_witness:
  "\<exists>enc. encodeAsLEB128 (word_bytes 8 (624485 :: word_t)) False = Inr enc \<and>
    length enc \<le> num_septets 8 \<and> leb128ToUWord (enc @ [1, 2]) = Inr (624485, length enc)"
  using leb128_unsigned_roundtrip [of 8 624485 "[1, 2]"] by auto

text \<open>
  C18: \<^verbatim>\<open>uintToLEB128\<close> and \<^verbatim>\<open>leb128ToUInt\<close> are inverse on every 32-bit value: the writer never
  fails, needs at most five bytes, and the reader recovers the value and its extent.
\<close>

theorem uintToLEB128_roundtrip:
  "\<exists>enc. uintToLEB128 v = Inr enc \<and> length enc \<le> 5 \<and>
     leb128ToUInt (enc @ rest) = Inr (v, length enc)"
proof -
  obtain enc where e: "uintToLEB128 v = Inr enc" "leb_wf enc" "leb_int enc = uint v"
    "length enc \<le> 5"
    by (rule uint_encode_spec [of v])
  with leb128ToUInt_spec [OF e(2), of rest] uint_lt2p [of v] show ?thesis by simp
qed

text \<open>
  \<^verbatim>\<open>intToLEB128\<close> and \<^verbatim>\<open>leb128ToInt\<close> are inverse on the negative values that fit four septets.
\<close>

theorem intToLEB128_negative_roundtrip:
  assumes "- (2 ^ 27) \<le> sint v" "sint v < 0"
  shows "\<exists>enc. intToLEB128 v = Inr enc \<and> leb128ToInt (enc @ rest) = Inr (v, length enc)"
proof -
  obtain enc where e: "encodeAsLEB128 (word_bytes 4 v) True = Inr enc" "leb_wf enc"
    "sleb_int enc = sint v" "length enc = 1 \<or>
      (\<exists>k<7. bit (last enc) k \<noteq> (sint v < 0)) \<or> bit (enc ! (length enc - 2)) 6 \<noteq> (sint v < 0)"
    by (rule sword_encode_spec [of 4 v]) simp_all
  have "length enc \<le> 4" by (rule sleb_int_shortest) (use e assms in simp_all)
  with e assms leb128ToInt_spec [OF e(2), of rest] show ?thesis by (simp add: intToLEB128_def)
qed

theorem intToLEB128_negative_roundtrip_witness:
  "\<exists>enc. intToLEB128 (- 8) = Inr enc \<and> leb128ToInt (enc @ [0x90]) = Inr (- 8, length enc)"
  by (rule intToLEB128_negative_roundtrip) simp_all

text \<open>
  A non-negative value is written unsigned but read back with the sign of its top septet:
  up to four septets the reader returns the value sign-extended from the septets written, so it
  returns the value itself only when their top bit is clear (64 comes back as -64).
\<close>

theorem intToLEB128_nonneg_reading:
  assumes "0 \<le> sint v" "intToLEB128 v = Inr enc"
  shows "leb128ToInt (enc @ rest) =
      (if length enc \<le> 4 then Inr (word_of_int (signed_take_bit (7 * length enc - 1) (sint v)), length enc)
       else Inl AssertFail)"
proof -
  obtain enc' where e: "uintToLEB128 v = Inr enc'" "leb_wf enc'" "leb_int enc' = uint v"
    "length enc' \<le> 5"
    by (rule uint_encode_spec [of v])
  have "enc' = enc" using e(1) assms by (simp add: intToLEB128_def)
  moreover have "uint v = sint v" using assms(1) by (rule uint_eq_sint)
  ultimately show ?thesis
    using e leb128ToInt_spec [of enc rest] by (simp add: sleb_int_def)
qed

theorem intToLEB128_nonneg_reading_witness:
  "intToLEB128 64 = Inr [0x40] \<and> leb128ToInt ([0x40] @ []) = Inr (- 64, 1)"
proof -
  have e: "intToLEB128 64 = Inr [0x40]" by code_simp
  show ?thesis
    using e intToLEB128_nonneg_reading [OF _ e, of "[]"] by (simp add: signed_take_bit_def mask_eq_exp_minus_1)
qed

text \<open>
  The signed reader of machine words, on what the signed encoder writes for any 64-bit value:
  it is exact for encodings of one to four and of nine bytes; for five to eight bytes \<^verbatim>\<open>sextend\<close>
  shifts an \<^verbatim>\<open>int\<close> by 39 bits or more, and ten bytes fail the assertion.
\<close>

theorem leb128ToSWord_on_encodings:
  "\<exists>enc. encodeAsLEB128 (word_bytes 8 (w :: word_t)) True = Inr enc \<and>
     leb128ToSWord (enc @ rest) =
       (if length enc \<le> 4 \<or> length enc = 9 then Inr (w, length enc)
        else if length enc \<le> 8 then Inl UndefinedShift else Inl AssertFail)"
proof -
  obtain enc where e: "encodeAsLEB128 (word_bytes 8 w) True = Inr enc" "leb_wf enc"
    "sleb_int enc = sint w" "length enc \<le> num_septets 8"
    by (rule sword_encode_spec [of 8 w]) simp_all
  have "length enc < 65536" using e(4) by (simp add: num_septets_def)
  from leb128ToSWord_spec [OF e(2) this, of rest] e show ?thesis by simp
qed

end
