(* ===== verification/Growing_Buffer.thy ===== *)
theory Growing_Buffer
  imports Leb128_Decode
begin

text \<open>
  The growing byte buffers of \<^verbatim>\<open>src/src/util/growingBuffer.c\<close> and of \<^verbatim>\<open>addBytes\<close> in
  \<^verbatim>\<open>src/src/dwarf_instr.c\<close>, the contract they share as the locale \<open>byte_sink\<close>, and the stack of
  \<^verbatim>\<open>src/src/util/stack.c\<close>.

  A buffer holds its whole allocation.  \<^verbatim>\<open>realloc\<close> keeps the old contents and leaves the new tail
  indeterminate; the model puts zeros there, and no theorem depends on them, because everything
  is stated on the first \<^verbatim>\<open>len\<close> bytes.  Sizes are natural numbers: the buffers are assumed to
  stay below the \<^verbatim>\<open>int\<close> range of their length fields.
\<close>

definition resize :: "byte list \<Rightarrow> nat \<Rightarrow> byte list" where
  "resize mem n = take n mem @ replicate (n - length mem) 0"

text \<open>\<^verbatim>\<open>memcpy\<close> into an allocation at an offset.\<close>

definition write_bytes :: "byte list \<Rightarrow> nat \<Rightarrow> byte list \<Rightarrow> byte list result" where
  "write_bytes mem off bs =
     (if off + length bs \<le> length mem
      then Inr (take off mem @ bs @ drop (off + length bs) mem) else Inl OutOfBounds)"

lemma length_resize [simp]: "length (resize mem n) = n"
  by (simp add: resize_def)

lemma take_resize [simp]: "k \<le> n \<Longrightarrow> k \<le> length mem \<Longrightarrow> take k (resize mem n) = take k mem"
  by (simp add: resize_def)

lemma write_bytes_in:
  "off + length bs \<le> length mem \<Longrightarrow>
   \<exists>mem'. write_bytes mem off bs = Inr mem' \<and> length mem' = length mem \<and>
     take (off + length bs) mem' = take off mem @ bs"
  by (simp add: write_bytes_def)

section \<open>The interface\<close>

locale byte_sink =
  fixes add :: "'s \<Rightarrow> byte list \<Rightarrow> 's result"
    and contents :: "'s \<Rightarrow> byte list"
    and wf :: "'s \<Rightarrow> bool"
  assumes add_ok: "wf s \<Longrightarrow> \<exists>s'. add s bs = Inr s' \<and> wf s' \<and> contents s' = contents s @ bs"
begin

fun add_all :: "'s \<Rightarrow> byte list list \<Rightarrow> 's result" where
  "add_all s [] = Inr s"
| "add_all s (bs # bss) = bindE (add s bs) (\<lambda>s'. add_all s' bss)"

lemma add_all_ok:
  "wf s \<Longrightarrow> \<exists>s'. add_all s bss = Inr s' \<and> wf s' \<and> contents s' = contents s @ concat bss"
proof (induction bss arbitrary: s)
  case Nil
  then show ?case by simp
next
  case (Cons bs bss)
  obtain s1 where s1: "add s bs = Inr s1" "wf s1" "contents s1 = contents s @ bs"
    using add_ok [OF Cons.prems] by blast
  from Cons.IH [OF s1(2)] s1 show ?case by auto
qed

lemma add_cases:
  assumes "wf s"
  obtains s' where "add s bs = Inr s'" "wf s'" "contents s' = contents s @ bs"
  using add_ok [OF assms] by blast

lemma add_succeeds: "wf s \<Longrightarrow> add s bs \<noteq> Inl e"
  using add_ok [of s bs] by auto

end

section \<open>GrowingBuffer\<close>

record GrowingBuffer =
  gb_data :: "byte list"
  gb_len :: nat
  gb_allocated :: nat

definition addToGrowingBuffer :: "GrowingBuffer \<Rightarrow> byte list \<Rightarrow> nat \<Rightarrow> GrowingBuffer result" where
  "addToGrowingBuffer buf src dataLen =
     (if dataLen = 0 then Inr buf
      else
        let buf' = (if gb_len buf + dataLen > gb_allocated buf
                    then buf\<lparr>gb_allocated := (gb_len buf + dataLen) * 2,
                             gb_data := resize (gb_data buf) ((gb_len buf + dataLen) * 2)\<rparr>
                    else buf)
        in bindE (copy_out src dataLen) (\<lambda>bs.
           bindE (write_bytes (gb_data buf') (gb_len buf') bs) (\<lambda>mem.
             Inr (buf'\<lparr>gb_data := mem, gb_len := gb_len buf' + dataLen\<rparr>))))"

definition addUlebToGrowingBuffer :: "GrowingBuffer \<Rightarrow> word_t \<Rightarrow> GrowingBuffer result" where
  "addUlebToGrowingBuffer buf w =
     bindE (encodeAsLEB128 (word_bytes 8 w) False) (\<lambda>leb. addToGrowingBuffer buf leb (length leb))"

definition addSlebToGrowingBuffer :: "GrowingBuffer \<Rightarrow> word_t \<Rightarrow> GrowingBuffer result" where
  "addSlebToGrowingBuffer buf w =
     bindE (encodeAsLEB128 (word_bytes 8 w) True) (\<lambda>leb. addToGrowingBuffer buf leb (length leb))"

definition empty_buffer :: GrowingBuffer where
  "empty_buffer = \<lparr>gb_data = [], gb_len = 0, gb_allocated = 0\<rparr>"

definition gb_wf :: "GrowingBuffer \<Rightarrow> bool" where
  "gb_wf buf \<longleftrightarrow> length (gb_data buf) = gb_allocated buf \<and> gb_len buf \<le> gb_allocated buf"

definition gb_contents :: "GrowingBuffer \<Rightarrow> byte list" where
  "gb_contents buf = take (gb_len buf) (gb_data buf)"

lemma gb_wf_empty [simp]: "gb_wf empty_buffer"
  by (simp add: gb_wf_def empty_buffer_def)

lemma gb_contents_empty [simp]: "gb_contents empty_buffer = []"
  by (simp add: gb_contents_def empty_buffer_def)

lemma length_gb_contents: "gb_wf buf \<Longrightarrow> length (gb_contents buf) = gb_len buf"
  by (simp add: gb_contents_def gb_wf_def)

lemma addToGrowingBuffer_ok:
  assumes "gb_wf buf" "n \<le> length src"
  shows "\<exists>buf'. addToGrowingBuffer buf src n = Inr buf' \<and> gb_wf buf' \<and>
    gb_contents buf' = gb_contents buf @ take n src \<and> gb_len buf' = gb_len buf + n"
proof (cases "n = 0")
  case True
  then show ?thesis using assms by (simp add: addToGrowingBuffer_def)
next
  case False
  define b where "b = (if gb_len buf + n > gb_allocated buf
    then buf\<lparr>gb_allocated := (gb_len buf + n) * 2, gb_data := resize (gb_data buf) ((gb_len buf + n) * 2)\<rparr> else buf)"
  have b: "gb_len b = gb_len buf" "length (gb_data b) = gb_allocated b" "gb_len b + n \<le> gb_allocated b"
    "take (gb_len buf) (gb_data b) = take (gb_len buf) (gb_data buf)"
    using assms(1) by (auto simp: b_def gb_wf_def)
  obtain mem where "write_bytes (gb_data b) (gb_len b) (take n src) = Inr mem" "length mem = gb_allocated b"
     "take (gb_len b + n) mem = take (gb_len b) (gb_data b) @ take n src"
    using write_bytes_in [of "gb_len b" "take n src" "gb_data b"] b assms(2) by auto
  then show ?thesis
    using assms(2) False b unfolding addToGrowingBuffer_def b_def [symmetric]
    by (auto simp: Let_def gb_wf_def gb_contents_def)
qed

interpretation gb: byte_sink "\<lambda>s bs. addToGrowingBuffer s bs (length bs)" gb_contents gb_wf
  by unfold_locales (use addToGrowingBuffer_ok in fastforce)

section \<open>DwarfInstructions\<close>

record DwarfInstructions =
  di_instrs :: "byte list"
  di_numBytes :: nat
  di_allocated :: nat

definition addBytes :: "DwarfInstructions \<Rightarrow> byte list \<Rightarrow> nat \<Rightarrow> DwarfInstructions result" where
  "addBytes ins bytes n =
     (let ins' =
        (if di_allocated ins - di_numBytes ins < n
         then let a = max (di_allocated ins * 2) (di_allocated ins + n * 2)
              in ins\<lparr>di_allocated := a, di_instrs := resize (di_instrs ins) a\<rparr>
         else ins)
      in bindE (copy_out bytes n) (\<lambda>bs.
         bindE (write_bytes (di_instrs ins') (di_numBytes ins') bs) (\<lambda>mem.
           Inr (ins'\<lparr>di_instrs := mem, di_numBytes := di_numBytes ins' + n\<rparr>))))"

definition no_instructions :: DwarfInstructions where
  "no_instructions = \<lparr>di_instrs = [], di_numBytes = 0, di_allocated = 0\<rparr>"

definition di_wf :: "DwarfInstructions \<Rightarrow> bool" where
  "di_wf ins \<longleftrightarrow> length (di_instrs ins) = di_allocated ins \<and> di_numBytes ins \<le> di_allocated ins"

definition di_contents :: "DwarfInstructions \<Rightarrow> byte list" where
  "di_contents ins = take (di_numBytes ins) (di_instrs ins)"

lemma di_wf_empty [simp]: "di_wf no_instructions"
  by (simp add: di_wf_def no_instructions_def)

lemma di_contents_empty [simp]: "di_contents no_instructions = []"
  by (simp add: di_contents_def no_instructions_def)

lemma addBytes_ok:
  assumes "di_wf ins" "n \<le> length bytes"
  shows "\<exists>ins'. addBytes ins bytes n = Inr ins' \<and> di_wf ins' \<and>
    di_contents ins' = di_contents ins @ take n bytes \<and> di_numBytes ins' = di_numBytes ins + n"
proof -
  let ?a = "max (di_allocated ins * 2) (di_allocated ins + n * 2)"
  define b where "b = (if di_allocated ins - di_numBytes ins < n
    then ins\<lparr>di_allocated := ?a, di_instrs := resize (di_instrs ins) ?a\<rparr> else ins)"
  have b: "di_numBytes b = di_numBytes ins" "length (di_instrs b) = di_allocated b"
    "di_numBytes b + n \<le> di_allocated b" "take (di_numBytes ins) (di_instrs b) = take (di_numBytes ins) (di_instrs ins)"
    using assms(1) by (auto simp: b_def di_wf_def)
  obtain mem where "write_bytes (di_instrs b) (di_numBytes b) (take n bytes) = Inr mem"
     "length mem = di_allocated b"
     "take (di_numBytes b + n) mem = take (di_numBytes b) (di_instrs b) @ take n bytes"
    using write_bytes_in [of "di_numBytes b" "take n bytes" "di_instrs b"] b assms(2) by auto
  then show ?thesis
    using assms(2) b unfolding addBytes_def Let_def b_def [symmetric]
    by (auto simp: di_wf_def di_contents_def)
qed

interpretation di: byte_sink "\<lambda>s bs. addBytes s bs (length bs)" di_contents di_wf
  by unfold_locales (use addBytes_ok in fastforce)

section \<open>Stack\<close>

text \<open>The chain of \<^verbatim>\<open>SNode\<close> cells is owned by the stack alone; it is the list of its items.\<close>

record 'a Stack =
  st_top :: "'a list"

definition stackCreate :: "'a Stack" where
  "stackCreate = \<lparr>st_top = []\<rparr>"

definition stackPush :: "'a Stack \<Rightarrow> 'a \<Rightarrow> 'a Stack" where
  "stackPush st item = st\<lparr>st_top := item # st_top st\<rparr>"

definition stackPop :: "'a Stack \<Rightarrow> 'a option \<times> 'a Stack" where
  "stackPop st = (case st_top st of [] \<Rightarrow> (None, st) | x # xs \<Rightarrow> (Some x, st\<lparr>st_top := xs\<rparr>))"

lemma stackPop_stackPush [simp]: "stackPop (stackPush st x) = (Some x, st)"
  by (simp add: stackPop_def stackPush_def)

lemma stackPop_stackCreate [simp]: "stackPop stackCreate = (None, stackCreate)"
  by (simp add: stackPop_def stackCreate_def)

end
