(* ===== verification/Instr_Stream.thy ===== *)
theory Instr_Stream
  imports Growing_Buffer
begin

text \<open>
  The reading loop that \<^verbatim>\<open>parseDwarfExpression\<close> and \<^verbatim>\<open>parseFDEInstructions\<close>
  (\<^verbatim>\<open>src/src/fderead.c\<close>) share, \<^verbatim>\<open>for(;len>0;len--,data++,num++)\<close> around a switch over the opcode,
  and the contract of an instruction codec, the locale \<open>prefix_codec\<close>: what the writer emits for
  one instruction the reader's switch takes off the front, whatever follows.
\<close>

section \<open>The loop\<close>

text \<open>
  \<open>step\<close> is the body of the loop: from the bytes at the cursor it gives the instruction read, if
  the slot is used up, and the number of bytes consumed after the opcode.  \<open>cont\<close> is the test
  \<^verbatim>\<open>len>0\<close> (unsigned or signed); \<open>len\<close> is a 32-bit count and wraps.  The result array has room for
  \<open>cap\<close> instructions, the first \<open>n\<close> of them used.  Every round takes a byte off, so the recursion
  ends; running off the end of memory is \<open>OutOfBounds\<close>.
\<close>

type_synonym 'i step = "byte list \<Rightarrow> ('i option \<times> nat) result"

function parse_loop :: "'i step \<Rightarrow> (uint \<Rightarrow> bool) \<Rightarrow> nat \<Rightarrow> nat \<Rightarrow> uint \<Rightarrow> byte list \<Rightarrow> 'i list result" where
  "parse_loop step cont cap n len bytes =
     (if \<not> cont len then Inr []
      else if bytes = [] \<or> cap \<le> n then Inl OutOfBounds
      else bindE (step bytes) (\<lambda>(it, k).
           bindE (parse_loop step cont cap (if it = None then n else Suc n)
                    (len - of_nat k - 1) (drop (Suc k) bytes)) (\<lambda>rest.
             Inr (case it of None \<Rightarrow> rest | Some i \<Rightarrow> i # rest))))"
  by pat_completeness auto
termination by (relation "measure (\<lambda>(_, _, _, _, _, bytes). length bytes)") auto

declare parse_loop.simps [simp del]

definition more_unsigned :: "uint \<Rightarrow> bool" where
  "more_unsigned len \<longleftrightarrow> 0 < len"

definition more_signed :: "uint \<Rightarrow> bool" where
  "more_signed len \<longleftrightarrow> 0 < sint len"

section \<open>The contract of a codec\<close>

locale prefix_codec =
  fixes enc :: "'i \<Rightarrow> byte list result"
    and ok :: "'i \<Rightarrow> bool"
    and out :: "'i \<Rightarrow> 'i option"
    and step :: "'i step"
  assumes enc_step: "ok i \<Longrightarrow> \<exists>bs. enc i = Inr bs \<and> bs \<noteq> [] \<and>
      (\<forall>rest. step (bs @ rest) = Inr (out i, length bs - 1))"
begin

fun enc_all :: "'i list \<Rightarrow> byte list result" where
  "enc_all [] = Inr []"
| "enc_all (i # is) = bindE (enc i) (\<lambda>bs. bindE (enc_all is) (\<lambda>rest. Inr (bs @ rest)))"

lemma enc_all_ok: "list_all ok is \<Longrightarrow> \<exists>bs. enc_all is = Inr bs \<and> length is \<le> length bs"
proof (induction "is")
  case (Cons i "is")
  then obtain bs1 bs2 where "enc i = Inr bs1" "bs1 \<noteq> []" "enc_all is = Inr bs2" "length is \<le> length bs2"
    using enc_step [of i] by auto
  then show ?case by (cases bs1) auto
qed simp

text \<open>Reading back a whole sequence, as long as it is shorter than the count can hold.\<close>

lemma parse_loop_enc_all:
  assumes cont: "\<And>m. m < 2 ^ 31 \<Longrightarrow> cont (of_nat m) = (0 < m)"
  shows "list_all ok is \<Longrightarrow> enc_all is = Inr bs \<Longrightarrow> length bs < 2 ^ 31 \<Longrightarrow> n + length is \<le> cap \<Longrightarrow>
    parse_loop step cont cap n (of_nat (length bs)) (bs @ rest) = Inr (List.map_filter out is)"
proof (induction "is" arbitrary: bs n)
  case Nil
  then show ?case using cont [of 0] by (simp add: parse_loop.simps map_filter_simps)
next
  case (Cons i "is")
  obtain b1 where b1: "enc i = Inr b1" "b1 \<noteq> []"
    "\<And>rest. step (b1 @ rest) = Inr (out i, length b1 - 1)"
    using enc_step [of i] Cons.prems(1) by auto
  obtain b2 where b2: "enc_all is = Inr b2" "bs = b1 @ b2"
    using Cons.prems(2) b1(1) by (auto simp: bindE_eq_Inr)
  have k: "Suc (length b1 - 1) = length b1" using b1(2) by (cases b1) auto
  have l: "(of_nat (length bs) :: uint) - of_nat (length b1 - 1) - 1 = of_nat (length b2)"
    using b1(2) unfolding b2(2) by (cases b1) simp_all
  let ?n = "if out i = None then n else Suc n"
  have IH: "parse_loop step cont cap ?n (of_nat (length b2)) (b2 @ rest) = Inr (List.map_filter out is)"
    using Cons.prems b2 by (intro Cons.IH) auto
  have m: "cont (of_nat (length bs))" using cont [of "length bs"] Cons.prems(3) b1(2) b2(2) by simp
  have "\<not> (bs @ rest = [] \<or> cap \<le> n)" using b1(2) b2(2) Cons.prems(4) by auto
  with m have "parse_loop step cont cap n (of_nat (length bs)) (bs @ rest) =
      bindE (step (bs @ rest)) (\<lambda>(it, k).
           bindE (parse_loop step cont cap (if it = None then n else Suc n)
                    (of_nat (length bs) - of_nat k - 1) (drop (Suc k) (bs @ rest))) (\<lambda>rest.
             Inr (case it of None \<Rightarrow> rest | Some i \<Rightarrow> i # rest)))"
    by (subst parse_loop.simps) (simp only: if_False if_True not_True_eq_False simp_thms)
  then show ?case
    unfolding b2(2) append_assoc b1(3) using IH k l b2(2)
    by (cases "out i") (simp_all add: map_filter_simps)
qed

end

lemma more_unsigned_of_nat: "m < 2 ^ 31 \<Longrightarrow> more_unsigned (of_nat m) = (0 < m)"
proof -
  assume "m < 2 ^ 31"
  then have "unat (of_nat m :: uint) = m" by (simp add: unsigned_of_nat take_bit_nat_eq_self)
  then show ?thesis by (auto simp: more_unsigned_def word_less_nat_alt)
qed

lemma more_signed_of_nat: "m < 2 ^ 31 \<Longrightarrow> more_signed (of_nat m) = (0 < m)"
proof -
  assume "m < 2 ^ 31"
  then have "sint (of_nat m :: uint) = int m"
    by (simp add: sint_uint unsigned_of_nat take_bit_nat_eq_self signed_take_bit_int_eq_self)
  then show ?thesis by (simp add: more_signed_def)
qed

end
