(* ===== verification/Dwarf_Expr.thy ===== *)
theory Dwarf_Expr
  imports Instr_Stream
begin

text \<open>
  DWARF expressions: the writer \<^verbatim>\<open>encodeDwarfExprInstr\<close> and its callers
  (\<^verbatim>\<open>src/src/dwarf_instr.c\<close>), the reader \<^verbatim>\<open>parseDwarfExpression\<close> (\<^verbatim>\<open>src/src/fderead.c\<close>) and the
  printer.  The opcode numbers are those of the DWARF standard's \<^verbatim>\<open>dwarf.h\<close>.
\<close>

section \<open>Opcodes\<close>

abbreviation (input) DW_OP_addr :: nat where "DW_OP_addr \<equiv> 0x3"
abbreviation (input) DW_OP_deref :: nat where "DW_OP_deref \<equiv> 0x6"
abbreviation (input) DW_OP_const1u :: nat where "DW_OP_const1u \<equiv> 0x8"
abbreviation (input) DW_OP_const1s :: nat where "DW_OP_const1s \<equiv> 0x9"
abbreviation (input) DW_OP_const2u :: nat where "DW_OP_const2u \<equiv> 0xa"
abbreviation (input) DW_OP_const2s :: nat where "DW_OP_const2s \<equiv> 0xb"
abbreviation (input) DW_OP_const4u :: nat where "DW_OP_const4u \<equiv> 0xc"
abbreviation (input) DW_OP_const4s :: nat where "DW_OP_const4s \<equiv> 0xd"
abbreviation (input) DW_OP_const8u :: nat where "DW_OP_const8u \<equiv> 0xe"
abbreviation (input) DW_OP_const8s :: nat where "DW_OP_const8s \<equiv> 0xf"
abbreviation (input) DW_OP_constu :: nat where "DW_OP_constu \<equiv> 0x10"
abbreviation (input) DW_OP_consts :: nat where "DW_OP_consts \<equiv> 0x11"
abbreviation (input) DW_OP_dup :: nat where "DW_OP_dup \<equiv> 0x12"
abbreviation (input) DW_OP_drop :: nat where "DW_OP_drop \<equiv> 0x13"
abbreviation (input) DW_OP_over :: nat where "DW_OP_over \<equiv> 0x14"
abbreviation (input) DW_OP_pick :: nat where "DW_OP_pick \<equiv> 0x15"
abbreviation (input) DW_OP_swap :: nat where "DW_OP_swap \<equiv> 0x16"
abbreviation (input) DW_OP_rot :: nat where "DW_OP_rot \<equiv> 0x17"
abbreviation (input) DW_OP_xderef :: nat where "DW_OP_xderef \<equiv> 0x18"
abbreviation (input) DW_OP_abs :: nat where "DW_OP_abs \<equiv> 0x19"
abbreviation (input) DW_OP_and :: nat where "DW_OP_and \<equiv> 0x1a"
abbreviation (input) DW_OP_div :: nat where "DW_OP_div \<equiv> 0x1b"
abbreviation (input) DW_OP_minus :: nat where "DW_OP_minus \<equiv> 0x1c"
abbreviation (input) DW_OP_mod :: nat where "DW_OP_mod \<equiv> 0x1d"
abbreviation (input) DW_OP_mul :: nat where "DW_OP_mul \<equiv> 0x1e"
abbreviation (input) DW_OP_neg :: nat where "DW_OP_neg \<equiv> 0x1f"
abbreviation (input) DW_OP_not :: nat where "DW_OP_not \<equiv> 0x20"
abbreviation (input) DW_OP_or :: nat where "DW_OP_or \<equiv> 0x21"
abbreviation (input) DW_OP_plus :: nat where "DW_OP_plus \<equiv> 0x22"
abbreviation (input) DW_OP_plus_uconst :: nat where "DW_OP_plus_uconst \<equiv> 0x23"
abbreviation (input) DW_OP_shl :: nat where "DW_OP_shl \<equiv> 0x24"
abbreviation (input) DW_OP_shr :: nat where "DW_OP_shr \<equiv> 0x25"
abbreviation (input) DW_OP_shra :: nat where "DW_OP_shra \<equiv> 0x26"
abbreviation (input) DW_OP_xor :: nat where "DW_OP_xor \<equiv> 0x27"
abbreviation (input) DW_OP_bra :: nat where "DW_OP_bra \<equiv> 0x28"
abbreviation (input) DW_OP_eq :: nat where "DW_OP_eq \<equiv> 0x29"
abbreviation (input) DW_OP_ge :: nat where "DW_OP_ge \<equiv> 0x2a"
abbreviation (input) DW_OP_gt :: nat where "DW_OP_gt \<equiv> 0x2b"
abbreviation (input) DW_OP_le :: nat where "DW_OP_le \<equiv> 0x2c"
abbreviation (input) DW_OP_lt :: nat where "DW_OP_lt \<equiv> 0x2d"
abbreviation (input) DW_OP_ne :: nat where "DW_OP_ne \<equiv> 0x2e"
abbreviation (input) DW_OP_skip :: nat where "DW_OP_skip \<equiv> 0x2f"
abbreviation (input) DW_OP_lit0 :: nat where "DW_OP_lit0 \<equiv> 0x30"
abbreviation (input) DW_OP_lit31 :: nat where "DW_OP_lit31 \<equiv> 0x4f"
abbreviation (input) DW_OP_reg0 :: nat where "DW_OP_reg0 \<equiv> 0x50"
abbreviation (input) DW_OP_reg31 :: nat where "DW_OP_reg31 \<equiv> 0x6f"
abbreviation (input) DW_OP_breg0 :: nat where "DW_OP_breg0 \<equiv> 0x70"
abbreviation (input) DW_OP_breg31 :: nat where "DW_OP_breg31 \<equiv> 0x8f"
abbreviation (input) DW_OP_regx :: nat where "DW_OP_regx \<equiv> 0x90"
abbreviation (input) DW_OP_fbreg :: nat where "DW_OP_fbreg \<equiv> 0x91"
abbreviation (input) DW_OP_bregx :: nat where "DW_OP_bregx \<equiv> 0x92"
abbreviation (input) DW_OP_piece :: nat where "DW_OP_piece \<equiv> 0x93"
abbreviation (input) DW_OP_deref_size :: nat where "DW_OP_deref_size \<equiv> 0x94"
abbreviation (input) DW_OP_xderef_size :: nat where "DW_OP_xderef_size \<equiv> 0x95"
abbreviation (input) DW_OP_nop :: nat where "DW_OP_nop \<equiv> 0x96"
abbreviation (input) DW_OP_push_object_address :: nat where "DW_OP_push_object_address \<equiv> 0x97"
abbreviation (input) DW_OP_call2 :: nat where "DW_OP_call2 \<equiv> 0x98"
abbreviation (input) DW_OP_call4 :: nat where "DW_OP_call4 \<equiv> 0x99"
abbreviation (input) DW_OP_call_ref :: nat where "DW_OP_call_ref \<equiv> 0x9a"
abbreviation (input) DW_OP_form_tls_address :: nat where "DW_OP_form_tls_address \<equiv> 0x9b"
abbreviation (input) DW_OP_call_frame_cfa :: nat where "DW_OP_call_frame_cfa \<equiv> 0x9c"
abbreviation (input) DW_OP_bit_piece :: nat where "DW_OP_bit_piece \<equiv> 0x9d"
abbreviation (input) DW_OP_implicit_value :: nat where "DW_OP_implicit_value \<equiv> 0x9e"
abbreviation (input) DW_OP_stack_value :: nat where "DW_OP_stack_value \<equiv> 0x9f"
abbreviation (input) DW_OP_hi_user :: nat where "DW_OP_hi_user \<equiv> 0xff"

text \<open>The case labels of both switches: the opcodes without operands, and the \<^verbatim>\<open>DW_OP_breg<n>\<close>.\<close>

definition is_plain_op :: "nat \<Rightarrow> bool" where
  "is_plain_op t \<longleftrightarrow> DW_OP_lit0 \<le> t \<and> t \<le> DW_OP_lit31 \<or> DW_OP_reg0 \<le> t \<and> t \<le> DW_OP_reg31 \<or>
     t \<in> set [DW_OP_dup, DW_OP_drop, DW_OP_over, DW_OP_swap, DW_OP_rot, DW_OP_deref, DW_OP_xderef,
       DW_OP_push_object_address, DW_OP_form_tls_address, DW_OP_call_frame_cfa, DW_OP_abs,
       DW_OP_and, DW_OP_div, DW_OP_minus, DW_OP_mod, DW_OP_mul, DW_OP_neg, DW_OP_not, DW_OP_or,
       DW_OP_plus, DW_OP_shl, DW_OP_shr, DW_OP_shra, DW_OP_xor, DW_OP_le, DW_OP_ge, DW_OP_eq,
       DW_OP_lt, DW_OP_gt, DW_OP_ne, DW_OP_nop]"

definition is_breg_op :: "nat \<Rightarrow> bool" where
  "is_breg_op t \<longleftrightarrow> DW_OP_breg0 \<le> t \<and> t \<le> DW_OP_breg31"

section \<open>Data\<close>

record DwarfExprInstr =
  ei_type :: nat
  ei_arg1 :: word_t
  ei_arg2 :: word_t

record DwarfExpr =
  instructions :: "DwarfExprInstr list"
  byteLength :: nat

section \<open>Writing\<close>

text \<open>Adding the first bytes of an operand's object representation.\<close>

definition add_operand :: "GrowingBuffer \<Rightarrow> word_t \<Rightarrow> nat \<Rightarrow> GrowingBuffer result" where
  "add_operand buf w n = addToGrowingBuffer buf (word_bytes 8 w) n"

definition add_leb_operand :: "GrowingBuffer \<Rightarrow> word_t \<Rightarrow> bool \<Rightarrow> GrowingBuffer result" where
  "add_leb_operand buf w is_signed =
     bindE (encodeAsLEB128 (word_bytes 8 w) is_signed) (\<lambda>leb. addToGrowingBuffer buf leb (length leb))"

definition encodeDwarfExprInstr :: "DwarfExprInstr \<Rightarrow> GrowingBuffer \<Rightarrow> GrowingBuffer result" where
  "encodeDwarfExprInstr instr buf =
     bindE (addToGrowingBuffer buf [of_nat (ei_type instr)] 1) (\<lambda>buf.
       let t = ei_type instr in
       if is_plain_op t then Inr buf
       else if t \<in> set [DW_OP_const1u, DW_OP_const1s, DW_OP_pick, DW_OP_deref_size, DW_OP_xderef_size]
         then add_operand buf (ei_arg1 instr) 1
       else if t \<in> set [DW_OP_const2u, DW_OP_const2s, DW_OP_skip, DW_OP_bra]
         then add_operand buf (ei_arg1 instr) 2
       else if t \<in> set [DW_OP_const4u, DW_OP_const4s] then add_operand buf (ei_arg1 instr) 4
       else if t \<in> set [DW_OP_const8u, DW_OP_const8s] then add_operand buf (ei_arg1 instr) 8
       else if t = DW_OP_addr then add_operand buf (ei_arg1 instr) 8
       else if t \<in> set [DW_OP_constu, DW_OP_plus_uconst] then add_leb_operand buf (ei_arg1 instr) False
       else if t \<in> set [DW_OP_consts, DW_OP_fbreg] \<or> is_breg_op t
         then add_leb_operand buf (ei_arg1 instr) True
       else if t = DW_OP_bregx
         then bindE (add_leb_operand buf (ei_arg1 instr) False) (\<lambda>buf.
                add_leb_operand buf (ei_arg2 instr) True)
       else Inl Death)"

fun encode_expr_instrs :: "DwarfExprInstr list \<Rightarrow> GrowingBuffer \<Rightarrow> GrowingBuffer result" where
  "encode_expr_instrs [] buf = Inr buf"
| "encode_expr_instrs (i # is) buf = bindE (encodeDwarfExprInstr i buf) (encode_expr_instrs is)"

text \<open>The result is the block and the value of \<^verbatim>\<open>*numBytesOut\<close>, a 16-bit count.\<close>

definition encodeDwarfExprAsFormBlock :: "DwarfExpr \<Rightarrow> (byte list \<times> nat) result" where
  "encodeDwarfExprAsFormBlock expr =
     bindE (encode_expr_instrs (instructions expr) empty_buffer) (\<lambda>blockData.
     bindE (uintToLEB128 (of_nat (gb_len blockData))) (\<lambda>lengthData.
     bindE (copy_out (gb_data blockData) (gb_len blockData)) (\<lambda>block.
       Inr (lengthData @ block, to_usint (length lengthData + gb_len blockData)))))"

definition addToDwarfExpression :: "DwarfExpr \<Rightarrow> DwarfExprInstr \<Rightarrow> (nat \<times> DwarfExpr) result" where
  "addToDwarfExpression expr instr =
     bindE (encodeDwarfExprInstr instr empty_buffer) (\<lambda>buf.
       Inr (length (instructions expr),
            expr\<lparr>instructions := instructions expr @ [instr],
                 byteLength := byteLength expr + gb_len buf\<rparr>))"

section \<open>Reading\<close>

text \<open>
  One round of the reader's switch: \<open>fixed_operand\<close> copies an operand of \<open>n\<close> bytes into the zeroed
  field, \<open>signed_operand\<close> sign-extends it, and \<open>leb_operand\<close> copies what \<^verbatim>\<open>decodeLEB128\<close> returns.
\<close>

definition expr_instr :: "nat \<Rightarrow> word_t \<Rightarrow> DwarfExprInstr" where
  "expr_instr t a = \<lparr>ei_type = t, ei_arg1 = a, ei_arg2 = 0\<rparr>"

definition fixed_operand :: "nat \<Rightarrow> nat \<Rightarrow> byte list \<Rightarrow> (DwarfExprInstr option \<times> nat) result" where
  "fixed_operand t n bytes =
     bindE (copy_out bytes n) (\<lambda>bs. Inr (Some (expr_instr t (le_word bs)), n))"

definition signed_operand :: "nat \<Rightarrow> nat \<Rightarrow> byte list \<Rightarrow> (DwarfExprInstr option \<times> nat) result" where
  "signed_operand t n bytes =
     bindE (copy_out bytes n) (\<lambda>bs.
     bindE (sextend (le_word bs) n) (\<lambda>v. Inr (Some (expr_instr t v), n)))"

definition leb_operand :: "nat \<Rightarrow> bool \<Rightarrow> byte list \<Rightarrow> (DwarfExprInstr option \<times> nat) result" where
  "leb_operand t is_signed bytes =
     bindE (decodeLEB128 bytes is_signed) (\<lambda>(number, numBytes, numSeptetsRead).
     bindE (guardE (numBytes \<le> 8) AssertFail) (\<lambda>_.
     bindE (copy_out number numBytes) (\<lambda>bs.
       Inr (Some (expr_instr t (le_word bs)), numSeptetsRead))))"

definition parse_expr_instr :: "DwarfExprInstr step" where
  "parse_expr_instr bytes =
     bindE (elem_at bytes 0) (\<lambda>b.
       let t = unat b; operands = tl bytes in
       if is_plain_op t then Inr (Some (expr_instr t 0), 0)
       else if t \<in> set [DW_OP_const1u, DW_OP_pick, DW_OP_deref_size, DW_OP_xderef_size]
         then fixed_operand t 1 operands
       else if t = DW_OP_const1s then signed_operand t 1 operands
       else if t = DW_OP_const2u then fixed_operand t 2 operands
       else if t \<in> set [DW_OP_const2s, DW_OP_skip, DW_OP_bra] then signed_operand t 2 operands
       else if t = DW_OP_const4u then fixed_operand t 4 operands
       else if t = DW_OP_const4s then signed_operand t 4 operands
       else if t = DW_OP_const8u then fixed_operand t 8 operands
       else if t = DW_OP_const8s then signed_operand t 8 operands
       else if t = DW_OP_addr then fixed_operand t 8 operands
       else if t \<in> set [DW_OP_constu, DW_OP_plus_uconst] then leb_operand t False operands
       else if t \<in> set [DW_OP_consts, DW_OP_fbreg] \<or> is_breg_op t then leb_operand t True operands
       else Inl Death)"

text \<open>
  The length is unsigned, so a last operand that runs over it makes it wrap.  \<^verbatim>\<open>byteLength\<close> is not
  set by the reader (nothing reads it there); the model puts 0.
\<close>

definition parseDwarfExpression :: "byte list \<Rightarrow> uint \<Rightarrow> DwarfExpr result" where
  "parseDwarfExpression bytes len =
     bindE (parse_loop parse_expr_instr more_unsigned (unat len) 0 len bytes) (\<lambda>is.
       Inr \<lparr>instructions = is, byteLength = 0\<rparr>)"

section \<open>Printing\<close>

text \<open>
  \<^verbatim>\<open>initDwarfExpressionNames\<close> fills a table indexed by opcode; the entries of the numbered opcodes
  \<^verbatim>\<open>lit\<close>, \<^verbatim>\<open>reg\<close> and \<^verbatim>\<open>breg\<close> are the prefix followed by the number.  An entry not filled is NULL.
\<close>

definition op_names_1 :: "(nat \<times> string) list" where
  "op_names_1 =
    [(DW_OP_addr, ''DW_OP_addr''), (DW_OP_deref, ''DW_OP_deref''),
     (DW_OP_const1u, ''DW_OP_const1u''), (DW_OP_const1s, ''DW_OP_const1s''),
     (DW_OP_const2u, ''DW_OP_const2u''), (DW_OP_const2s, ''DW_OP_const2s''),
     (DW_OP_const4u, ''DW_OP_const4u''), (DW_OP_const4s, ''DW_OP_const4s''),
     (DW_OP_const8u, ''DW_OP_const8u''), (DW_OP_const8s, ''DW_OP_const8s''),
     (DW_OP_constu, ''DW_OP_constu''), (DW_OP_consts, ''DW_OP_consts''),
     (DW_OP_dup, ''DW_OP_dup''), (DW_OP_drop, ''DW_OP_drop''), (DW_OP_over, ''DW_OP_over''),
     (DW_OP_pick, ''DW_OP_pick''), (DW_OP_swap, ''DW_OP_swap''), (DW_OP_rot, ''DW_OP_rot''),
     (DW_OP_xderef, ''DW_OP_xderef''), (DW_OP_abs, ''DW_OP_abs''), (DW_OP_and, ''DW_OP_and''),
     (DW_OP_div, ''DW_OP_div''), (DW_OP_minus, ''DW_OP_minus''), (DW_OP_mod, ''DW_OP_mod''),
     (DW_OP_mul, ''DW_OP_mul''), (DW_OP_neg, ''DW_OP_neg''), (DW_OP_not, ''DW_OP_not''),
     (DW_OP_or, ''DW_OP_or''), (DW_OP_plus, ''DW_OP_plus''),
     (DW_OP_plus_uconst, ''DW_OP_plus_uconst''), (DW_OP_shl, ''DW_OP_shl''),
     (DW_OP_shr, ''DW_OP_shr''), (DW_OP_shra, ''DW_OP_shra''), (DW_OP_xor, ''DW_OP_xor''),
     (DW_OP_bra, ''DW_OP_bra''), (DW_OP_eq, ''DW_OP_eq''), (DW_OP_ge, ''DW_OP_ge''),
     (DW_OP_gt, ''DW_OP_gt''), (DW_OP_le, ''DW_OP_le''), (DW_OP_lt, ''DW_OP_lt''),
     (DW_OP_ne, ''DW_OP_ne''), (DW_OP_skip, ''DW_OP_skip'')]"

definition op_names_2 :: "(nat \<times> string) list" where
  "op_names_2 =
    [(DW_OP_regx, ''DW_OP_regx''), (DW_OP_fbreg, ''DW_OP_fbreg''),
     (DW_OP_bregx, ''DW_OP_bregx''), (DW_OP_piece, ''DW_OP_piece''),
     (DW_OP_deref_size, ''DW_OP_deref_size''), (DW_OP_xderef_size, ''DW_OP_xderef_size''),
     (DW_OP_nop, ''DW_OP_nop''), (DW_OP_push_object_address, ''DW_OP_push_object_address''),
     (DW_OP_call2, ''DW_OP_call2''), (DW_OP_call4, ''DW_OP_call4''),
     (DW_OP_call_ref, ''DW_OP_call_ref''), (DW_OP_form_tls_address, ''DW_OP_form_tls_address''),
     (DW_OP_call_frame_cfa, ''DW_OP_call_frame_cfa''), (DW_OP_bit_piece, ''DW_OP_bit_piece''),
     (DW_OP_implicit_value, ''DW_OP_implicit_value''),
     (DW_OP_stack_value, ''DW_OP_stack_value'')]"

definition numbered :: "string \<Rightarrow> nat \<Rightarrow> (nat \<times> string) list" where
  "numbered prefix first = map (\<lambda>i. (first + i, prefix @ base_digits 10 i)) [0..<32]"

definition initDwarfExpressionNames :: "(nat \<times> string) list" where
  "initDwarfExpressionNames =
     op_names_1 @ numbered ''DW_OP_lit'' DW_OP_lit0 @ numbered ''DW_OP_reg'' DW_OP_reg0 @
     numbered ''DW_OP_breg'' DW_OP_breg0 @ op_names_2"

text \<open>\<^verbatim>\<open>fprintf\<close> with a NULL string is taken as a null pointer followed.\<close>

definition printExprInstruction :: "string \<Rightarrow> DwarfExprInstr \<Rightarrow> string result" where
  "printExprInstruction prefix instr =
     bindE (guardE (ei_type instr < DW_OP_hi_user) AssertFail) (\<lambda>_.
     bindE (case map_of initDwarfExpressionNames (ei_type instr) of
              None \<Rightarrow> Inl NullDeref | Some s \<Rightarrow> Inr s) (\<lambda>name.
       let t = ei_type instr;
           operands =
             (if t \<in> set [DW_OP_const1u, DW_OP_pick, DW_OP_deref_size, DW_OP_xderef_size, DW_OP_const2u,
                  DW_OP_skip, DW_OP_bra, DW_OP_const4u, DW_OP_const8u, DW_OP_addr, DW_OP_constu,
                  DW_OP_plus_uconst] then '' 0x'' @ fmt_x (ei_arg1 instr)
              else if t \<in> set [DW_OP_const1s, DW_OP_const2s, DW_OP_const4s, DW_OP_const8s, DW_OP_consts,
                  DW_OP_fbreg] \<or> is_breg_op t then '' '' @ fmt_i (ei_arg1 instr)
              else if t = DW_OP_bregx
                then '' 0x'' @ fmt_x (ei_arg1 instr) @ '' 0x'' @ fmt_i (ei_arg2 instr)
              else [])
       in Inr (prefix @ name @ operands @ [CHR 0x0A])))"

fun print_expr_instrs :: "string \<Rightarrow> DwarfExprInstr list \<Rightarrow> string result" where
  "print_expr_instrs prefix [] = Inr []"
| "print_expr_instrs prefix (i # is) =
     bindE (printExprInstruction prefix i) (\<lambda>s.
     bindE (print_expr_instrs prefix is) (\<lambda>rest. Inr (s @ rest)))"

definition DWIPF_NO_REG_NAMES :: nat where "DWIPF_NO_REG_NAMES = 0"
definition DWIPF_DWARFSCRIPT :: nat where "DWIPF_DWARFSCRIPT = 1"

text \<open>The print flags are bits of a number; the two above are their positions.\<close>

definition printExpr :: "string \<Rightarrow> DwarfExpr \<Rightarrow> nat \<Rightarrow> string result" where
  "printExpr prefix expr printFlags =
     bindE (print_expr_instrs prefix (instructions expr)) (\<lambda>s.
       Inr (if bit printFlags DWIPF_DWARFSCRIPT
            then ''begin EXPRESSION'' @ [CHR 0x0A] @ s @ ''end EXPRESSION'' @ [CHR 0x0A] else s))"

section \<open>What one instruction looks like\<close>

text \<open>The two switches sort the opcodes into the same kinds of operands.\<close>

datatype operand_kind = Plain | Fixed nat | Signed nat | Leb bool

definition op_kind :: "nat \<Rightarrow> operand_kind option" where
  "op_kind t =
     (if is_plain_op t then Some Plain
      else if t \<in> set [DW_OP_const1u, DW_OP_pick, DW_OP_deref_size, DW_OP_xderef_size] then Some (Fixed 1)
      else if t = DW_OP_const1s then Some (Signed 1)
      else if t = DW_OP_const2u then Some (Fixed 2)
      else if t \<in> set [DW_OP_const2s, DW_OP_skip, DW_OP_bra] then Some (Signed 2)
      else if t = DW_OP_const4u then Some (Fixed 4)
      else if t = DW_OP_const4s then Some (Signed 4)
      else if t \<in> set [DW_OP_const8u, DW_OP_addr] then Some (Fixed 8)
      else if t = DW_OP_const8s then Some (Signed 8)
      else if t \<in> set [DW_OP_constu, DW_OP_plus_uconst] then Some (Leb False)
      else if t \<in> set [DW_OP_consts, DW_OP_fbreg] \<or> is_breg_op t then Some (Leb True)
      else None)"

lemma parse_expr_instr_kind:
  "parse_expr_instr (b # ops) =
     (case op_kind (unat b) of None \<Rightarrow> Inl Death
      | Some Plain \<Rightarrow> Inr (Some (expr_instr (unat b) 0), 0)
      | Some (Fixed n) \<Rightarrow> fixed_operand (unat b) n ops
      | Some (Signed n) \<Rightarrow> signed_operand (unat b) n ops
      | Some (Leb sg) \<Rightarrow> leb_operand (unat b) sg ops)"
proof -
  define t where "t = unat b"
  show ?thesis
    unfolding parse_expr_instr_def elem_at_Cons_0 bindE_simps list.sel Let_def op_kind_def t_def [symmetric]
    by (cases "t = 3"; cases "t = 14"; cases "t = 15") (simp_all split: if_split)
qed

definition add_kind :: "operand_kind \<Rightarrow> word_t \<Rightarrow> GrowingBuffer \<Rightarrow> GrowingBuffer result" where
  "add_kind k w buf =
     (case k of Plain \<Rightarrow> Inr buf | Fixed n \<Rightarrow> add_operand buf w n | Signed n \<Rightarrow> add_operand buf w n
      | Leb sg \<Rightarrow> add_leb_operand buf w sg)"

lemma op_kind_less: "op_kind t = Some k \<Longrightarrow> t < 256"
proof (rule ccontr)
  assume "op_kind t = Some k" "\<not> t < 256"
  then have "256 \<le> t" by simp
  then have "op_kind t = None" by (simp add: op_kind_def is_plain_op_def is_breg_op_def)
  with \<open>op_kind t = Some k\<close> show False by simp
qed

lemma encode_kind:
  assumes "op_kind (ei_type i) = Some k"
  shows "encodeDwarfExprInstr i buf =
    bindE (addToGrowingBuffer buf [of_nat (ei_type i)] 1) (add_kind k (ei_arg1 i))"
proof -
  define t where "t = ei_type i"
  define f where "f = (\<lambda>buf. if is_plain_op t then Inr buf
       else if t \<in> set [DW_OP_const1u, DW_OP_const1s, DW_OP_pick, DW_OP_deref_size, DW_OP_xderef_size]
         then add_operand buf (ei_arg1 i) 1
       else if t \<in> set [DW_OP_const2u, DW_OP_const2s, DW_OP_skip, DW_OP_bra]
         then add_operand buf (ei_arg1 i) 2
       else if t \<in> set [DW_OP_const4u, DW_OP_const4s] then add_operand buf (ei_arg1 i) 4
       else if t \<in> set [DW_OP_const8u, DW_OP_const8s] then add_operand buf (ei_arg1 i) 8
       else if t = DW_OP_addr then add_operand buf (ei_arg1 i) 8
       else if t \<in> set [DW_OP_constu, DW_OP_plus_uconst] then add_leb_operand buf (ei_arg1 i) False
       else if t \<in> set [DW_OP_consts, DW_OP_fbreg] \<or> is_breg_op t
         then add_leb_operand buf (ei_arg1 i) True
       else if t = DW_OP_bregx
         then bindE (add_leb_operand buf (ei_arg1 i) False) (\<lambda>buf.
                add_leb_operand buf (ei_arg2 i) True)
       else Inl Death)"
  have "f buf = (case op_kind t of Some k \<Rightarrow> add_kind k (ei_arg1 i) buf
      | None \<Rightarrow> f buf)" for buf
    unfolding op_kind_def f_def add_kind_def
    by (cases "t = 9"; cases "t = 0xa"; cases "t = 0xc"; cases "t = 3"; cases "t = 0xf")
      (simp_all split: if_split)
  then have "f buf = add_kind k (ei_arg1 i) buf" for buf
    using assms unfolding t_def [symmetric] by simp
  then have "f = add_kind k (ei_arg1 i)" by (rule ext)
  then show ?thesis
    unfolding encodeDwarfExprInstr_def Let_def t_def [symmetric] f_def by simp
qed

section \<open>Reading back what was written\<close>

lemma le_word_word_bytes_take: "le_word (word_bytes n w) = (take_bit (8 * n) w :: word_t)"
  by (rule bit_word_eqI) (auto simp: le_word_def le_int_word_bytes bit_simps)

lemma take_word_bytes: "n \<le> m \<Longrightarrow> take n (word_bytes m w) = word_bytes n w"
  by (simp add: word_bytes_def take_map)

lemma sextend_word_bytes:
  assumes "n \<in> {1, 2, 4, 8}"
  shows "sextend (le_word (word_bytes n w)) n = Inr (signed_take_bit (8 * n - 1) (w :: word_t))"
proof (cases "n = 8")
  case True
  have "signed_take_bit 63 w = w"
    by (rule bit_word_eqI) (auto simp: bit_simps min_def dest: le_antisym)
  then show ?thesis using True by (simp add: le_word_word_bytes_take take_bit_word_eq_self)
next
  case False
  with assms have n: "0 < n" "n \<le> 4" by auto
  have low: "\<not> bit (take_bit (8 * n) w) j" if "8 * n \<le> j" for j using that by (simp add: bit_simps)
  have "\<not> 8 * n \<le> 8 * n - 1" using n by linarith
  moreover have "sextend (take_bit (8 * n) w) n = Inr (signed_take_bit (8 * n - 1) (take_bit (8 * n) w))"
    by (rule sextend_signed [OF n]) (rule low)
  ultimately show ?thesis
    by (simp only: le_word_word_bytes_take signed_take_bit_take_bit if_False)
qed

text \<open>
  The instructions the reader recovers: the operand fits its field (signed ones in two's
  complement), and an operand written as signed LEB128 is not negative and fits nine septets.
\<close>

definition operand_ok :: "operand_kind \<Rightarrow> word_t \<Rightarrow> bool" where
  "operand_ok k w =
     (case k of Plain \<Rightarrow> w = 0
      | Fixed n \<Rightarrow> take_bit (8 * n) w = w
      | Signed n \<Rightarrow> signed_take_bit (8 * n - 1) w = w
      | Leb False \<Rightarrow> True
      | Leb True \<Rightarrow> 0 \<le> sint w \<and> sint w < 2 ^ 62)"

definition expr_ok :: "DwarfExprInstr \<Rightarrow> bool" where
  "expr_ok i \<longleftrightarrow> ei_arg2 i = 0 \<and>
     (case op_kind (ei_type i) of None \<Rightarrow> False | Some k \<Rightarrow> operand_ok k (ei_arg1 i))"

definition expr_bytes :: "DwarfExprInstr \<Rightarrow> byte list result" where
  "expr_bytes i = bindE (encodeDwarfExprInstr i empty_buffer) (\<lambda>b. Inr (gb_contents b))"

lemma add_operand_ok:
  assumes "gb_wf buf" "n \<le> 8"
  shows "\<exists>buf'. add_operand buf w n = Inr buf' \<and> gb_wf buf' \<and>
    gb_contents buf' = gb_contents buf @ word_bytes n w"
  using addToGrowingBuffer_ok [OF assms(1), of n "word_bytes 8 w"] assms(2)
  by (auto simp: add_operand_def take_word_bytes)

lemma add_leb_operand_ok:
  assumes "gb_wf buf" "encodeAsLEB128 (word_bytes 8 w) sg = Inr enc"
  shows "\<exists>buf'. add_leb_operand buf w sg = Inr buf' \<and> gb_wf buf' \<and>
    gb_contents buf' = gb_contents buf @ enc"
  using addToGrowingBuffer_ok [OF assms(1), of "length enc" enc] assms(2)
  by (auto simp: add_leb_operand_def)

lemma op_kind_sizes:
  "op_kind t = Some (Fixed n) \<Longrightarrow> n \<in> {1, 2, 4, 8}"
  "op_kind t = Some (Signed n) \<Longrightarrow> n \<in> {1, 2, 4, 8}"
  by (simp_all add: op_kind_def split: if_splits)

text \<open>
  The operand bytes of an instruction do not depend on the buffer, and the reader's switch takes
  exactly them.
\<close>

lemma operand_codec:
  assumes "op_kind t = Some k" "operand_ok k w" "t = unat b"
  obtains bs where
    "\<And>buf. gb_wf buf \<Longrightarrow> \<exists>buf'. add_kind k w buf = Inr buf' \<and> gb_wf buf' \<and>
       gb_contents buf' = gb_contents buf @ bs"
    "\<And>rest. parse_expr_instr (b # bs @ rest) = Inr (Some (expr_instr t w), length bs)"
    "length bs \<le> 10"
proof (cases k)
  case Plain
  then show ?thesis
    using assms by (intro that [of "[]"]) (simp_all add: add_kind_def parse_expr_instr_kind operand_ok_def)
next
  case (Fixed n)
  have n: "n \<le> 8" using op_kind_sizes(1) [of t n] assms(1) Fixed by auto
  show ?thesis
    by (rule that [of "word_bytes n w"])
      (use Fixed assms n add_operand_ok [OF _ n] in
        \<open>auto simp: add_kind_def parse_expr_instr_kind operand_ok_def fixed_operand_def
          le_word_word_bytes_take\<close>)
next
  case (Signed n)
  have n: "n \<in> {1, 2, 4, 8}" using op_kind_sizes(2) [of t n] assms(1) Signed by auto
  then have n8: "n \<le> 8" by auto
  show ?thesis
    by (rule that [of "word_bytes n w"])
      (use Signed assms n8 add_operand_ok [OF _ n8] sextend_word_bytes [OF n, of w] in
        \<open>auto simp: add_kind_def parse_expr_instr_kind operand_ok_def signed_operand_def\<close>)
next
  case (Leb sg)
  show ?thesis
  proof (cases sg)
    case True
    then have "0 \<le> sint w" "sint w < 2 ^ 62" using assms(2) Leb by (simp_all add: operand_ok_def)
    from sleb64_codec [OF this] obtain enc bs where e:
      "encodeAsLEB128 (word_bytes 8 w) True = Inr enc" "length enc \<le> 9" "length bs \<le> 8" "le_word bs = w"
      "\<And>rest. decodeLEB128 (enc @ rest) True = Inr (bs, length bs, length enc)" by metis
    show ?thesis
      by (rule that [of enc])
        (use Leb True assms e add_leb_operand_ok [OF _ e(1)] in
          \<open>auto simp: add_kind_def parse_expr_instr_kind leb_operand_def\<close>)
  next
    case False
    from uleb64_codec [of w] obtain enc bs where e:
      "encodeAsLEB128 (word_bytes 8 w) False = Inr enc" "length enc \<le> 10" "length bs \<le> 8" "le_word bs = w"
      "\<And>rest. decodeLEB128 (enc @ rest) False = Inr (bs, length bs, length enc)" by metis
    show ?thesis
      by (rule that [of enc])
        (use Leb False assms e add_leb_operand_ok [OF _ e(1)] in
          \<open>auto simp: add_kind_def parse_expr_instr_kind leb_operand_def\<close>)
  qed
qed

lemma expr_instr_codec:
  assumes "expr_ok i"
  obtains bs where "bs \<noteq> []" "length bs \<le> 11"
    "\<And>buf. gb_wf buf \<Longrightarrow> \<exists>buf'. encodeDwarfExprInstr i buf = Inr buf' \<and> gb_wf buf' \<and>
       gb_contents buf' = gb_contents buf @ bs"
    "\<And>rest. parse_expr_instr (bs @ rest) = Inr (Some i, length bs - 1)"
proof -
  obtain k where k: "op_kind (ei_type i) = Some k" "operand_ok k (ei_arg1 i)" "ei_arg2 i = 0"
    using assms by (auto simp: expr_ok_def split: option.splits)
  have t: "ei_type i = unat (of_nat (ei_type i) :: byte)"
    using op_kind_less [OF k(1)] by (simp add: unsigned_of_nat take_bit_nat_eq_self)
  obtain ops where ops:
    "\<And>buf. gb_wf buf \<Longrightarrow> \<exists>buf'. add_kind k (ei_arg1 i) buf = Inr buf' \<and> gb_wf buf' \<and>
       gb_contents buf' = gb_contents buf @ ops"
    "\<And>rest. parse_expr_instr (of_nat (ei_type i) # ops @ rest) =
       Inr (Some (expr_instr (ei_type i) (ei_arg1 i)), length ops)" "length ops \<le> 10"
    using operand_codec [OF k(1,2) t] by metis
  have i: "expr_instr (ei_type i) (ei_arg1 i) = i" using k(3) by (simp add: expr_instr_def)
  show ?thesis
  proof (rule that [of "of_nat (ei_type i) # ops"])
    fix buf assume "gb_wf buf"
    then obtain b1 where b1: "addToGrowingBuffer buf [of_nat (ei_type i)] 1 = Inr b1" "gb_wf b1"
      "gb_contents b1 = gb_contents buf @ [of_nat (ei_type i)]"
      using addToGrowingBuffer_ok [of buf 1 "[of_nat (ei_type i)]"] by auto
    with ops(1) [OF b1(2)] show "\<exists>buf'. encodeDwarfExprInstr i buf = Inr buf' \<and> gb_wf buf' \<and>
       gb_contents buf' = gb_contents buf @ of_nat (ei_type i) # ops"
      unfolding encode_kind [OF k(1)] by auto
  qed (use ops i in simp_all)
qed

lemma expr_bytes_codec:
  assumes "expr_ok i"
  shows "\<exists>bs. expr_bytes i = Inr bs \<and> bs \<noteq> [] \<and>
    (\<forall>rest. parse_expr_instr (bs @ rest) = Inr (Some i, length bs - 1))"
  by (rule expr_instr_codec [OF assms]) (use gb_wf_empty in \<open>fastforce simp: expr_bytes_def\<close>)

interpretation expr: prefix_codec expr_bytes expr_ok Some parse_expr_instr
  by unfold_locales (rule expr_bytes_codec)

lemma encode_expr_instrs_ok:
  "list_all expr_ok is \<Longrightarrow> gb_wf buf \<Longrightarrow>
    \<exists>bs buf'. expr.enc_all is = Inr bs \<and> encode_expr_instrs is buf = Inr buf' \<and> gb_wf buf' \<and>
      gb_contents buf' = gb_contents buf @ bs \<and> length bs \<le> 11 * length is"
proof (induction "is" arbitrary: buf)
  case Nil
  then show ?case by simp
next
  case (Cons i "is")
  then have ok: "expr_ok i" by simp
  obtain b1 where b1: "length b1 \<le> 11"
    "\<And>buf. gb_wf buf \<Longrightarrow> \<exists>buf'. encodeDwarfExprInstr i buf = Inr buf' \<and> gb_wf buf' \<and>
       gb_contents buf' = gb_contents buf @ b1"
    by (rule expr_instr_codec [OF ok]) blast
  from b1(2) [OF gb_wf_empty] have e: "expr_bytes i = Inr b1" by (auto simp: expr_bytes_def)
  from b1(2) [OF Cons.prems(2)] obtain buf1 where buf1: "encodeDwarfExprInstr i buf = Inr buf1"
    "gb_wf buf1" "gb_contents buf1 = gb_contents buf @ b1" by blast
  from Cons.IH [OF _ buf1(2)] Cons.prems(1) e b1(1) buf1 show ?case by auto
qed

section \<open>Properties\<close>

lemma le_word_nth: "n \<le> 7 \<Longrightarrow> sint (w :: word_t) < 0 \<Longrightarrow> take_bit (8 * n) w \<noteq> w"
proof
  assume "n \<le> 7" "sint w < 0" "take_bit (8 * n) w = w"
  then have "bit w 63"
    by (simp add: sint_uint signed_take_bit_negative_iff bit_uint_iff)
  moreover have "\<not> bit (take_bit (8 * n) w) 63" using \<open>n \<le> 7\<close> by (simp add: bit_simps)
  ultimately show False using \<open>take_bit (8 * n) w = w\<close> by simp
qed

lemma expr_block_codec:
  assumes "list_all expr_ok (instructions e)" "length (instructions e) \<le> 5000"
  shows "\<exists>leb body. encodeDwarfExprAsFormBlock e = Inr (leb @ body, length (leb @ body)) \<and>
    length (leb @ body) \<le> 55005 \<and> length body < 2 ^ 31 \<and>
    (\<forall>rest. leb128ToUInt (leb @ body @ rest) = Inr (of_nat (length body), length leb) \<and>
       parseDwarfExpression (body @ rest) (of_nat (length body)) =
         Inr \<lparr>instructions = instructions e, byteLength = 0\<rparr>)"
proof -
  obtain body buf where b: "expr.enc_all (instructions e) = Inr body"
    "encode_expr_instrs (instructions e) empty_buffer = Inr buf" "gb_wf buf" "gb_contents buf = body"
    "length body \<le> 11 * length (instructions e)"
    using encode_expr_instrs_ok [OF assms(1) gb_wf_empty] by auto
  have len: "gb_len buf = length body" using length_gb_contents [OF b(3)] b(4) by simp
  obtain leb where leb: "uintToLEB128 (of_nat (length body)) = Inr leb" "leb_wf leb"
    "leb_int leb = uint (of_nat (length body) :: uint)" "length leb \<le> 5"
    by (rule uint_encode_spec)
  have "gb_len buf \<le> length (gb_data buf)" using b(3) by (simp add: gb_wf_def)
  then have "copy_out (gb_data buf) (gb_len buf) = Inr body" using b(4) by (simp add: gb_contents_def)
  moreover have "length leb + length body < 65536" using leb(4) b(5) assms(2) by simp
  ultimately have enc: "encodeDwarfExprAsFormBlock e = Inr (leb @ body, length (leb @ body))"
    using b(2) leb(1) by (simp add: encodeDwarfExprAsFormBlock_def len)
  have small: "length body < 2 ^ 31" using b(5) assms(2) by simp
  have "length (instructions e) \<le> length body"
    using expr.enc_all_ok [OF assms(1)] b(1) by auto
  moreover have "unat (of_nat (length body) :: uint) = length body"
    using small by (simp add: unsigned_of_nat take_bit_nat_eq_self)
  ultimately have "parseDwarfExpression (body @ rest) (of_nat (length body)) =
         Inr \<lparr>instructions = instructions e, byteLength = 0\<rparr>" for rest
    using expr.parse_loop_enc_all [OF more_unsigned_of_nat assms(1) b(1) small, of 0]
    by (simp add: parseDwarfExpression_def map_filter_simps map_filter_def)
  moreover have "leb128ToUInt (leb @ body @ rest) = Inr (of_nat (length body), length leb)" for rest
    using leb128ToUInt_spec [OF leb(2,4), of "body @ rest"] leb(3)
      uint_lt2p [of "of_nat (length body) :: uint"] by simp
  moreover have "length (leb @ body) \<le> 55005" using leb(4) b(5) assms(2) by simp
  ultimately show ?thesis using enc small by blast
qed

text \<open>
  C9: an expression of at most 5000 instructions within \<open>expr_ok\<close>, written as a \<^verbatim>\<open>DW_FORM_block\<close>, is read back: the block is the
  LEB128 length of the body followed by the body, \<^verbatim>\<open>leb128ToUInt\<close> recovers the length, and \<^verbatim>\<open>parseDwarfExpression\<close>
  on the body, whatever follows it, returns the same instructions.  \<open>expr_ok\<close> admits every operation that reader and writer know but
  \<^verbatim>\<open>DW_OP_bregx\<close>, with an operand that fits its field of one to eight bytes, any operand for the unsigned LEB128 ones, and one
  from 0 to below \<open>2 ^ 62\<close> for the signed LEB128 ones (\<^verbatim>\<open>consts\<close>, \<^verbatim>\<open>fbreg\<close>, \<^verbatim>\<open>breg\<close>): a negative one of these is not read
  back (\<open>dwarf_expr_negative_operand\<close>).
\<close>

theorem dwarf_expr_block_roundtrip:
  assumes "list_all expr_ok (instructions e)" "length (instructions e) \<le> 5000"
  shows "\<exists>leb body. encodeDwarfExprAsFormBlock e = Inr (leb @ body, length (leb @ body)) \<and>
    (\<forall>rest. leb128ToUInt (leb @ body @ rest) = Inr (of_nat (length body), length leb) \<and>
       parseDwarfExpression (body @ rest) (of_nat (length body)) =
         Inr \<lparr>instructions = instructions e, byteLength = 0\<rparr>)"
  using expr_block_codec [OF assms] by blast

theorem dwarf_expr_block_roundtrip_witness:
  "\<exists>leb body. encodeDwarfExprAsFormBlock
      \<lparr>instructions = [expr_instr DW_OP_addr 0x400000, expr_instr DW_OP_consts 70, expr_instr DW_OP_plus 0],
       byteLength = 0\<rparr> = Inr (leb @ body, length (leb @ body))"
  using dwarf_expr_block_roundtrip [of "\<lparr>instructions = [expr_instr DW_OP_addr 0x400000,
      expr_instr DW_OP_consts 70, expr_instr DW_OP_plus 0], byteLength = 0\<rparr>"]
  by (auto simp: expr_ok_def expr_instr_def op_kind_def is_plain_op_def is_breg_op_def operand_ok_def
      take_bit_word_eq_self)

text \<open>
  A negative operand written as signed LEB128 (\<^verbatim>\<open>DW_OP_consts\<close>, \<^verbatim>\<open>DW_OP_fbreg\<close>,
  \<^verbatim>\<open>DW_OP_breg<n>\<close>) is not read back: the reader copies the decoded bytes into the zeroed 64-bit
  field without extending the sign, so it yields the low bytes of the operand, a different value.
\<close>

theorem dwarf_expr_negative_operand:
  assumes "op_kind (ei_type i) = Some (Leb True)" "ei_arg2 i = 0"
    and "- (2 ^ 55) \<le> sint (ei_arg1 i)" "sint (ei_arg1 i) < 0"
  shows "\<exists>bs n. expr_bytes i = Inr bs \<and> n \<le> 7 \<and> take_bit (8 * n) (ei_arg1 i) \<noteq> ei_arg1 i \<and>
    parse_expr_instr (bs @ rest) =
      Inr (Some (i\<lparr>ei_arg1 := take_bit (8 * n) (ei_arg1 i)\<rparr>), length bs - 1)"
proof -
  from sleb64_codec_negative [OF assms(3,4)] obtain enc bs where e:
    "encodeAsLEB128 (word_bytes 8 (ei_arg1 i)) True = Inr enc" "length bs \<le> 7"
    "le_word bs = take_bit (8 * length bs) (ei_arg1 i)"
    "\<And>rest. decodeLEB128 (enc @ rest) True = Inr (bs, length bs, length enc)" by metis
  have t: "unat (of_nat (ei_type i) :: byte) = ei_type i"
    using op_kind_less [OF assms(1)] by (simp add: unsigned_of_nat take_bit_nat_eq_self)
  obtain b1 where b1: "addToGrowingBuffer empty_buffer [of_nat (ei_type i)] 1 = Inr b1" "gb_wf b1"
      "gb_contents b1 = [of_nat (ei_type i)]"
    using addToGrowingBuffer_ok [OF gb_wf_empty, of 1 "[of_nat (ei_type i)]"] by auto
  have "expr_bytes i = Inr (of_nat (ei_type i) # enc)"
    using add_leb_operand_ok [OF b1(2) e(1)] b1 encode_kind [OF assms(1)]
    by (auto simp: expr_bytes_def add_kind_def)
  moreover have "parse_expr_instr ((of_nat (ei_type i) # enc) @ rest) =
      Inr (Some (i\<lparr>ei_arg1 := take_bit (8 * length bs) (ei_arg1 i)\<rparr>), length enc)"
    using e assms(1,2) by (simp add: parse_expr_instr_kind t leb_operand_def expr_instr_def)
  ultimately show ?thesis using e(2) le_word_nth [OF e(2) assms(4)] by auto
qed

theorem dwarf_expr_negative_operand_witness:
  "\<exists>bs n. expr_bytes (expr_instr 0x76 (- 8)) = Inr bs \<and> n \<le> 7 \<and>
    take_bit (8 * n) (- 8 :: word_t) \<noteq> - 8 \<and> parse_expr_instr (bs @ []) =
      Inr (Some ((expr_instr 0x76 (- 8))\<lparr>ei_arg1 := take_bit (8 * n) (- 8)\<rparr>), length bs - 1)"
  using dwarf_expr_negative_operand [of "expr_instr 0x76 (- 8)" "[]"]
  by (simp add: expr_instr_def op_kind_def is_plain_op_def is_breg_op_def)

definition byteLength_ok :: "DwarfExpr \<Rightarrow> bool" where
  "byteLength_ok e \<longleftrightarrow>
     (\<exists>bs. expr.enc_all (instructions e) = Inr bs \<and> byteLength e = length bs)"

lemma enc_all_append:
  "expr.enc_all (xs @ ys) = bindE (expr.enc_all xs) (\<lambda>a. bindE (expr.enc_all ys) (\<lambda>b. Inr (a @ b)))"
  by (induction xs) (simp_all add: bindE_assoc, simp add: bindE_def split: sum.splits)



end
