(* ===== verification/Registers.thy ===== *)
theory Registers
  imports Dwarf_Expr
begin

text \<open>
  \<^verbatim>\<open>src/src/register.c\<close> and \<^verbatim>\<open>src/src/register.h\<close>: the registers of the DWARF interpreter, which
  are machine registers or, in patch objects, references into the old and the new version of the
  target; their LEB128 form, their printed form and their evaluation.
\<close>

section \<open>Data\<close>

text \<open>
  The two readings of the C union (\<^verbatim>\<open>u.offset\<close>, \<^verbatim>\<open>u.index\<close>) are the one 32-bit field \<open>reg_u\<close>.
\<close>

datatype E_REG_TYPE = ERT_NONE | ERT_BASIC | ERT_PO_START | ERT_CURR_TARG_NEW | ERT_CURR_TARG_OLD
  | ERT_EXPR | ERT_OLD_SYM_VAL | ERT_NEW_SYM_VAL | ERT_CFA | ERT_PO_END

record PoReg =
  reg_type :: E_REG_TYPE
  reg_size :: "32 word"
  reg_u :: "32 word"

datatype E_REG_RULE_TYPE = ERRT_UNDEF | ERRT_OFFSET | ERRT_REGISTER | ERRT_CFA | ERRT_EXPR
  | ERRT_RECURSE_FIXUP | ERRT_RECURSE_FIXUP_POINTER | ERRT_UNDEFINED

record PoRegRule =
  regLH :: PoReg
  rule_type :: E_REG_RULE_TYPE
  regRH :: PoReg
  rule_offset :: "32 word"
  rule_index :: word_t

definition ERT_PO_START_num :: nat where "ERT_PO_START_num = 0xF0"
definition ERT_PO_END_num :: nat where "ERT_PO_END_num = 0xF7"

definition zero_reg :: PoReg where
  "zero_reg = \<lparr>reg_type = ERT_NONE, reg_size = 0, reg_u = 0\<rparr>"

definition basic_reg :: "32 word \<Rightarrow> PoReg" where
  "basic_reg n = \<lparr>reg_type = ERT_BASIC, reg_size = 0, reg_u = n\<rparr>"

definition isPoRegType :: "byte \<Rightarrow> bool" where
  "isPoRegType b \<longleftrightarrow> ERT_PO_START_num < unat b \<and> unat b < ERT_PO_END_num"

text \<open>The enumerators after \<^verbatim>\<open>ERT_PO_START=0xF0\<close>, in order.\<close>

definition po_reg_type :: "byte \<Rightarrow> E_REG_TYPE" where
  "po_reg_type b =
     (if b = 0xF1 then ERT_CURR_TARG_NEW else if b = 0xF2 then ERT_CURR_TARG_OLD
      else if b = 0xF3 then ERT_EXPR else if b = 0xF4 then ERT_OLD_SYM_VAL
      else if b = 0xF5 then ERT_NEW_SYM_VAL else ERT_CFA)"

section \<open>LEB128 form\<close>

text \<open>
  The \<^verbatim>\<open>memcpy\<close> into \<^verbatim>\<open>u.index\<close> has four bytes of room; the assertion before it allows seven.
\<close>

definition readRegFromLEB128 :: "byte list \<Rightarrow> (PoReg \<times> nat) result" where
  "readRegFromLEB128 leb =
     bindE (decodeLEB128 leb False) (\<lambda>(bytes, numBytes, numSeptets).
     bindE (guardE (0 < numBytes) AssertFail) (\<lambda>_.
     bindE (elem_at bytes 0) (\<lambda>b0.
       if unat b0 < ERT_PO_START_num then
         bindE (guardE (numBytes < 8) AssertFail) (\<lambda>_.
         bindE (guardE (numBytes \<le> 4) OutOfBounds) (\<lambda>_.
         bindE (copy_out bytes numBytes) (\<lambda>bs.
           Inr (basic_reg (le_word bs), numSeptets))))
       else
         bindE (guardE (isPoRegType b0) AssertFail) (\<lambda>_.
           case po_reg_type b0 of
             ERT_CURR_TARG_NEW \<Rightarrow>
               bindE (guardE (5 \<le> numBytes \<and> numBytes \<le> 9) AssertFail) (\<lambda>_.
               bindE (copy_out (drop 1 bytes) 4) (\<lambda>sz.
               bindE (copy_out (drop 5 bytes) (min (numBytes - 5) 4)) (\<lambda>off.
                 Inr (\<lparr>reg_type = ERT_CURR_TARG_NEW, reg_size = le_word sz, reg_u = le_word off\<rparr>,
                      numSeptets))))
           | ERT_CURR_TARG_OLD \<Rightarrow>
               bindE (guardE (5 \<le> numBytes \<and> numBytes \<le> 9) AssertFail) (\<lambda>_.
               bindE (copy_out (drop 1 bytes) 4) (\<lambda>sz.
               bindE (copy_out (drop 5 bytes) (min (numBytes - 5) 4)) (\<lambda>off.
                 Inr (\<lparr>reg_type = ERT_CURR_TARG_OLD, reg_size = le_word sz, reg_u = le_word off\<rparr>,
                      numSeptets))))
           | ERT_EXPR \<Rightarrow>
               bindE (guardE (numBytes = 5) AssertFail) (\<lambda>_.
               bindE (copy_out (drop 1 bytes) 4) (\<lambda>off.
                 Inr (\<lparr>reg_type = ERT_EXPR, reg_size = 0, reg_u = le_word off\<rparr>, numSeptets)))
           | ERT_NEW_SYM_VAL \<Rightarrow>
               bindE (guardE (numBytes = 5) AssertFail) (\<lambda>_.
               bindE (copy_out (drop 1 bytes) 4) (\<lambda>off.
                 Inr (\<lparr>reg_type = ERT_NEW_SYM_VAL, reg_size = 0, reg_u = le_word off\<rparr>, numSeptets)))
           | ERT_OLD_SYM_VAL \<Rightarrow>
               bindE (guardE (numBytes = 5) AssertFail) (\<lambda>_.
               bindE (copy_out (drop 1 bytes) 4) (\<lambda>off.
                 Inr (\<lparr>reg_type = ERT_OLD_SYM_VAL, reg_size = 0, reg_u = le_word off\<rparr>, numSeptets)))
           | _ \<Rightarrow> Inl Death))))"

definition encodeRegAsLEB128 :: "PoReg \<Rightarrow> bool \<Rightarrow> byte list result" where
  "encodeRegAsLEB128 reg is_signed =
     (case reg_type reg of ERT_BASIC \<Rightarrow> uintToLEB128 (reg_u reg) | _ \<Rightarrow> Inl Death)"

section \<open>Printed form\<close>

definition getX86RegNameFromDwarfRegNum :: "int \<Rightarrow> string result" where
  "getX86RegNameFromDwarfRegNum num =
     (case map_of (zip [0..8] [''eax'', ''ecx'', ''edx'', ''ebx'', ''esp'', ''ebp'', ''esi'', ''edi'',
         ''eip'']) num of Some s \<Rightarrow> Inr s | None \<Rightarrow> Inl Death)"

definition getX86_64RegNameFromDwarfRegNum :: "int \<Rightarrow> string option" where
  "getX86_64RegNameFromDwarfRegNum num =
     map_of (zip [0..7] [''rax'', ''rdx'', ''rcx'', ''rbx'', ''rsi'', ''rdi'', ''rbp'', ''rsp'']) num"

definition getArchRegNameFromDwarfRegNum :: "int \<Rightarrow> string option" where
  "getArchRegNameFromDwarfRegNum num = getX86_64RegNameFromDwarfRegNum num"

text \<open>All the strings are shorter than the buffer of 128, so \<^verbatim>\<open>snprintf\<close> never cuts one.\<close>

definition strForReg :: "PoReg \<Rightarrow> nat \<Rightarrow> string result" where
  "strForReg reg printFlags =
     bindE (guardE (reg_type reg \<noteq> ERT_NONE) AssertFail) (\<lambda>_.
       case reg_type reg of
         ERT_CURR_TARG_OLD \<Rightarrow>
           Inr (''{CURR_TARG_OLD,0x'' @ fmt_x (reg_size reg) @ '' bytes,0x'' @ fmt_x (reg_u reg) @ '' off}'')
       | ERT_CURR_TARG_NEW \<Rightarrow>
           Inr (''{CURR_TARG_NEW,0x'' @ fmt_x (reg_size reg) @ '' bytes,0x'' @ fmt_x (reg_u reg) @ '' off}'')
       | ERT_EXPR \<Rightarrow> Inr (''{EXPR,0x'' @ fmt_x (reg_u reg) @ '' off'')
       | ERT_NEW_SYM_VAL \<Rightarrow> Inr (''{NEW_SYM_VAL,idx '' @ fmt_i (reg_u reg) @ ''}'')
       | ERT_OLD_SYM_VAL \<Rightarrow> Inr (''{OLD_SYM_VAL,idx '' @ fmt_i (reg_u reg) @ ''}'')
       | ERT_CFA \<Rightarrow> Inr ''{CFA}''
       | ERT_BASIC \<Rightarrow>
           if bit printFlags DWIPF_NO_REG_NAMES then Inr (''r'' @ fmt_i (reg_u reg))
           else (case getArchRegNameFromDwarfRegNum (sint (reg_u reg)) of
                   Some regName \<Rightarrow> Inr (''r'' @ fmt_i (reg_u reg) @ ''/'' @ regName)
                 | None \<Rightarrow> Inr (''r'' @ fmt_i (reg_u reg)))
       | _ \<Rightarrow> Inl Death)"

definition printReg :: "PoReg \<Rightarrow> nat \<Rightarrow> string result" where
  "printReg reg printFlags = strForReg reg printFlags"

definition newline :: string where "newline = [CHR 0x0A]"

definition printRule :: "PoRegRule \<Rightarrow> string result" where
  "printRule rule =
     bindE (strForReg (regLH rule) 0) (\<lambda>regStr.
       case rule_type rule of
         ERRT_UNDEF \<Rightarrow> Inr (regStr @ '' = Undefined'' @ newline)
       | ERRT_OFFSET \<Rightarrow> Inr (regStr @ '' = '' @ fmt_i (rule_offset rule) @ ''(cfa)'' @ newline)
       | ERRT_REGISTER \<Rightarrow>
           bindE (strForReg (regRH rule) 0) (\<lambda>rh. Inr (regStr @ '' = '' @ rh @ newline))
       | ERRT_CFA \<Rightarrow>
           bindE (if reg_type (regRH rule) \<noteq> ERT_NONE then strForReg (regRH rule) 0
                  else Inr ''<NONE>'') (\<lambda>str.
             Inr (''cfa = '' @ fmt_i (rule_offset rule) @ ''('' @ str @ '')'' @ newline))
       | ERRT_RECURSE_FIXUP \<Rightarrow>
           bindE (strForReg (regRH rule) 0) (\<lambda>rh.
             Inr (regStr @ '' = recurse fixup with FDE#'' @ fmt_u (rule_index rule) @ '' based at '' @
                  rh @ newline))
       | ERRT_RECURSE_FIXUP_POINTER \<Rightarrow>
           bindE (strForReg (regRH rule) 0) (\<lambda>rh.
             Inr (regStr @ '' = recurse fixup pointer with FDE#'' @ fmt_u (rule_index rule) @
                  '' based at '' @ rh @ newline))
       | _ \<Rightarrow> Inl Death)"

text \<open>\<^verbatim>\<open>printRules\<close>, on the array that \<^verbatim>\<open>dictValues\<close> returns.\<close>

fun printRules :: "PoRegRule list \<Rightarrow> string \<Rightarrow> string result" where
  "printRules [] tabstr = Inr []"
| "printRules (r # rs) tabstr =
     bindE (if rule_type r \<noteq> ERRT_UNDEF then bindE (printRule r) (\<lambda>s. Inr (tabstr @ s)) else Inr [])
       (\<lambda>s. bindE (printRules rs tabstr) (\<lambda>rest. Inr (s @ rest)))"

section \<open>Evaluation\<close>

text \<open>The handle of the old binary, \<^verbatim>\<open>oldBinaryElf\<close>, is part of the parameter \<open>getSymAddress\<close>.\<close>

record SpecialRegsState =
  currAddrOld :: addr_t
  currAddrNew :: addr_t
  cfaValue :: addr_t

record E_REG_RESOLVE_FLAGS =
  ERRF_ASSIGN :: bool
  ERRF_DEREFERENCE :: bool

text \<open>
  \<^verbatim>\<open>getSymAddress\<close> (an ELF symbol lookup through libelf in the old binary) and
  \<^verbatim>\<open>memcpyFromTarget\<close> (a \<^verbatim>\<open>ptrace\<close> read) are parameters.
\<close>

definition resolveRegisterValue ::
  "(uint \<Rightarrow> addr_t result) \<Rightarrow> (addr_t \<Rightarrow> nat \<Rightarrow> byte list result) \<Rightarrow> PoReg \<Rightarrow> SpecialRegsState \<Rightarrow>
   E_REG_RESOLVE_FLAGS \<Rightarrow> byte list result" where
  "resolveRegisterValue getSymAddress memcpyFromTarget reg state flags =
     (let finish = (\<lambda>addr :: addr_t.
            if addr \<noteq> 0 then
              if \<not> ERRF_DEREFERENCE flags then Inr (word_bytes 8 addr)
              else memcpyFromTarget addr (unat (reg_size reg))
            else Inl Death)
      in case reg_type reg of
           ERT_CURR_TARG_NEW \<Rightarrow> finish (currAddrNew state + scast (reg_u reg))
         | ERT_CURR_TARG_OLD \<Rightarrow>
             if ERRF_ASSIGN flags then Inl Death
             else finish (currAddrOld state + scast (reg_u reg))
         | ERT_OLD_SYM_VAL \<Rightarrow>
             if ERRF_ASSIGN flags then Inl Death
             else bindE (getSymAddress (reg_u reg)) (\<lambda>addr. Inr (word_bytes 8 addr))
         | _ \<Rightarrow> Inl Death)"

section \<open>Registers through the codec\<close>

text \<open>The machine registers the reader accepts: the low byte of the number tells them apart.\<close>

definition reg_ok :: "PoReg \<Rightarrow> bool" where
  "reg_ok r \<longleftrightarrow> reg_type r = ERT_BASIC \<and> reg_size r = 0 \<and> unat (reg_u r) mod 256 < ERT_PO_START_num"

lemma unat_nth_le_int: "bs \<noteq> [] \<Longrightarrow> unat (bs ! 0) = nat (le_int bs mod 256)"
proof -
  assume "bs \<noteq> []"
  then obtain b bs' where "bs = b # bs'" by (cases bs) auto
  moreover have "uint b < 256" using uint_lt2p [of b] by simp
  then have "(uint b + 256 * le_int bs') mod 256 = uint b" by (simp add: mod_pos_pos_trivial)
  ultimately show ?thesis by (simp only: le_int_Cons nth_Cons_0 nat_uint_eq)
qed

lemma uint32_codec:
  obtains enc bs where "uintToLEB128 (v :: uint) = Inr enc" "enc \<noteq> []" "length enc \<le> 5"
    "bs \<noteq> []" "length bs \<le> 4" "le_word bs = v" "unat (bs ! 0) = unat v mod 256"
    "\<And>rest. decodeLEB128 (enc @ rest) False = Inr (bs, length bs, length enc)"
proof -
  obtain enc where e: "uintToLEB128 v = Inr enc" "leb_wf enc" "leb_int enc = uint v" "length enc \<le> 5"
    by (rule uint_encode_spec)
  obtain bs where bs: "decodeLEB128 (enc @ []) False = Inr (bs, to_usint (length bs), to_usint (length enc))"
    "bs \<noteq> []" "le_int bs = leb_int enc"
    "\<And>L. 0 < L \<Longrightarrow> length enc \<le> num_septets L \<Longrightarrow> leb_int enc < 2 ^ (8 * L) \<Longrightarrow> length bs \<le> L"
    by (rule decode_unsigned_spec [OF e(2)]) blast
  have b4: "length bs \<le> 4" using bs(4) [of 4] e uint_lt2p [of v] by (simp add: num_septets_def)
  have "decodeLEB128 (enc @ rest) False = Inr (bs, length bs, length enc)" for rest
    using bs(1) b4 e(4) decodeLEB128_wf_append [OF e(2)] by simp
  moreover have "unat (bs ! 0) = unat v mod 256"
  proof -
    have "nat (uint v mod 256) = nat (uint v) mod 256" by (simp add: nat_mod_distrib)
    then show ?thesis unfolding unat_nth_le_int [OF bs(2)] bs(3) e(3) nat_uint_eq .
  qed
  moreover have "enc \<noteq> []" using e(2) by (simp add: leb_wf_def)
  ultimately show ?thesis using that e b4 bs(2,3) by (simp add: le_word_def)
qed

lemma reg_codec:
  assumes "reg_ok r"
  obtains enc where "encodeRegAsLEB128 r sg = Inr enc" "enc \<noteq> []" "length enc \<le> 5"
    "\<And>rest. readRegFromLEB128 (enc @ rest) = Inr (r, length enc)"
proof -
  obtain enc bs where c: "uintToLEB128 (reg_u r) = Inr enc" "enc \<noteq> []" "length enc \<le> 5"
    "bs \<noteq> []" "length bs \<le> 4" "le_word bs = reg_u r" "unat (bs ! 0) = unat (reg_u r) mod 256"
    "\<And>rest. decodeLEB128 (enc @ rest) False = Inr (bs, length bs, length enc)"
    by (rule uint32_codec [of "reg_u r"]) blast
  have "basic_reg (reg_u r) = r" using assms by (simp add: reg_ok_def basic_reg_def)
  then have "readRegFromLEB128 (enc @ rest) = Inr (r, length enc)" for rest
    using c assms by (simp add: readRegFromLEB128_def reg_ok_def)
  moreover have "encodeRegAsLEB128 r sg = Inr enc" using assms c(1) by (simp add: encodeRegAsLEB128_def reg_ok_def)
  ultimately show ?thesis using that c(2,3) by blast
qed

text \<open>
  C20: a machine register whose number has a low byte below 0xF0 survives its LEB128 form; a number
  whose low byte is 0xF0, or 0xF7 and above, is written by the same function but fails the reader's
  assertion, because the reader takes the low byte for the type of a patch register.
\<close>

theorem register_leb128_roundtrip:
  assumes "reg_type r = ERT_BASIC" "reg_size r = 0"
  shows "\<exists>enc. encodeRegAsLEB128 r sg = Inr enc \<and>
    (unat (reg_u r) mod 256 < 0xF0 \<longrightarrow> readRegFromLEB128 (enc @ rest) = Inr (r, length enc)) \<and>
    (unat (reg_u r) mod 256 = 0xF0 \<or> 0xF7 \<le> unat (reg_u r) mod 256 \<longrightarrow>
       readRegFromLEB128 (enc @ rest) = Inl AssertFail)"
proof -
  obtain enc bs where c: "uintToLEB128 (reg_u r) = Inr enc"
    "bs \<noteq> []" "length bs \<le> 4" "le_word bs = reg_u r" "unat (bs ! 0) = unat (reg_u r) mod 256"
    "\<And>rest. decodeLEB128 (enc @ rest) False = Inr (bs, length bs, length enc)"
    by (rule uint32_codec [of "reg_u r"]) blast
  have "basic_reg (reg_u r) = r" using assms by (simp add: basic_reg_def)
  then show ?thesis
    using assms c
    by (auto simp: encodeRegAsLEB128_def readRegFromLEB128_def ERT_PO_START_num_def ERT_PO_END_num_def
        isPoRegType_def)
qed

theorem register_leb128_roundtrip_witness:
  "\<exists>enc. encodeRegAsLEB128 (basic_reg 7) False = Inr enc \<and>
    readRegFromLEB128 (enc @ [0x90]) = Inr (basic_reg 7, length enc)"
  using register_leb128_roundtrip [of "basic_reg 7" False "[0x90]"] by (auto simp: basic_reg_def)

end
