(* ===== verification/Dwarf_Instr.thy ===== *)
theory Dwarf_Instr
  imports Registers
begin

text \<open>
  Call frame instructions: the writer of \<^verbatim>\<open>src/src/dwarf_instr.c\<close> (from \<^verbatim>\<open>RegInstruction\<close> through
  \<^verbatim>\<open>DwarfInstruction\<close> to bytes), its printer, and the reader \<^verbatim>\<open>parseFDEInstructions\<close> of
  \<^verbatim>\<open>src/src/fderead.c\<close>.  \<^verbatim>\<open>DW_CFA_KATANA_fixups\<close> and \<^verbatim>\<open>DW_CFA_KATANA_fixups_pointer\<close> are the
  program's own opcodes, \<^verbatim>\<open>DW_CFA_lo_user+0x5\<close> and \<^verbatim>\<open>+0x6\<close>.
\<close>

section \<open>Opcodes\<close>

abbreviation (input) DW_CFA_advance_loc :: nat where "DW_CFA_advance_loc \<equiv> 0x40"
abbreviation (input) DW_CFA_offset :: nat where "DW_CFA_offset \<equiv> 0x80"
abbreviation (input) DW_CFA_restore :: nat where "DW_CFA_restore \<equiv> 0xc0"
abbreviation (input) DW_CFA_nop :: nat where "DW_CFA_nop \<equiv> 0"
abbreviation (input) DW_CFA_set_loc :: nat where "DW_CFA_set_loc \<equiv> 1"
abbreviation (input) DW_CFA_advance_loc1 :: nat where "DW_CFA_advance_loc1 \<equiv> 0x2"
abbreviation (input) DW_CFA_advance_loc2 :: nat where "DW_CFA_advance_loc2 \<equiv> 0x3"
abbreviation (input) DW_CFA_advance_loc4 :: nat where "DW_CFA_advance_loc4 \<equiv> 0x4"
abbreviation (input) DW_CFA_offset_extended :: nat where "DW_CFA_offset_extended \<equiv> 0x5"
abbreviation (input) DW_CFA_restore_extended :: nat where "DW_CFA_restore_extended \<equiv> 0x6"
abbreviation (input) DW_CFA_undefined :: nat where "DW_CFA_undefined \<equiv> 0x7"
abbreviation (input) DW_CFA_same_value :: nat where "DW_CFA_same_value \<equiv> 0x8"
abbreviation (input) DW_CFA_register :: nat where "DW_CFA_register \<equiv> 0x9"
abbreviation (input) DW_CFA_remember_state :: nat where "DW_CFA_remember_state \<equiv> 0xa"
abbreviation (input) DW_CFA_restore_state :: nat where "DW_CFA_restore_state \<equiv> 0xb"
abbreviation (input) DW_CFA_def_cfa :: nat where "DW_CFA_def_cfa \<equiv> 0xc"
abbreviation (input) DW_CFA_def_cfa_register :: nat where "DW_CFA_def_cfa_register \<equiv> 0xd"
abbreviation (input) DW_CFA_def_cfa_offset :: nat where "DW_CFA_def_cfa_offset \<equiv> 0xe"
abbreviation (input) DW_CFA_def_cfa_expression :: nat where "DW_CFA_def_cfa_expression \<equiv> 0xf"
abbreviation (input) DW_CFA_expression :: nat where "DW_CFA_expression \<equiv> 0x10"
abbreviation (input) DW_CFA_offset_extended_sf :: nat where "DW_CFA_offset_extended_sf \<equiv> 0x11"
abbreviation (input) DW_CFA_def_cfa_sf :: nat where "DW_CFA_def_cfa_sf \<equiv> 0x12"
abbreviation (input) DW_CFA_def_cfa_offset_sf :: nat where "DW_CFA_def_cfa_offset_sf \<equiv> 0x13"
abbreviation (input) DW_CFA_val_offset :: nat where "DW_CFA_val_offset \<equiv> 0x14"
abbreviation (input) DW_CFA_val_offset_sf :: nat where "DW_CFA_val_offset_sf \<equiv> 0x15"
abbreviation (input) DW_CFA_val_expression :: nat where "DW_CFA_val_expression \<equiv> 0x16"
abbreviation (input) DW_CFA_KATANA_fixups :: nat where "DW_CFA_KATANA_fixups \<equiv> 0x21"
abbreviation (input) DW_CFA_KATANA_fixups_pointer :: nat where "DW_CFA_KATANA_fixups_pointer \<equiv> 0x22"
abbreviation (input) DW_CFA_GNU_args_size :: nat where "DW_CFA_GNU_args_size \<equiv> 0x2e"

section \<open>Data\<close>

text \<open>A NULL operand is the empty byte list; the byte counts are 16-bit.\<close>

record DwarfInstruction =
  opcode :: nat
  arg1Bytes :: "byte list"
  arg1NumBytes :: nat
  arg2Bytes :: "byte list"
  arg2NumBytes :: nat
  dw_arg1 :: word_t
  dw_arg2 :: word_t
  arg3Bytes :: "byte list"
  arg3NumBytes :: nat
  dw_arg3 :: word_t

record RegInstruction =
  ri_type :: nat
  ri_arg1 :: word_t
  ri_expr :: DwarfExpr
  ri_arg1Reg :: PoReg
  ri_arg2 :: word_t
  ri_arg2Reg :: PoReg
  ri_arg3 :: word_t

definition zero_raw :: "nat \<Rightarrow> DwarfInstruction" where
  "zero_raw op = \<lparr>opcode = op, arg1Bytes = [], arg1NumBytes = 0, arg2Bytes = [], arg2NumBytes = 0,
     dw_arg1 = 0, dw_arg2 = 0, arg3Bytes = [], arg3NumBytes = 0, dw_arg3 = 0\<rparr>"

definition zero_inst :: "nat \<Rightarrow> RegInstruction" where
  "zero_inst t = \<lparr>ri_type = t, ri_arg1 = 0, ri_expr = \<lparr>instructions = [], byteLength = 0\<rparr>,
     ri_arg1Reg = zero_reg, ri_arg2 = 0, ri_arg2Reg = zero_reg, ri_arg3 = 0\<rparr>"

section \<open>Writing\<close>

definition one_operand :: "DwarfInstruction \<Rightarrow> byte list result" where
  "one_operand instr =
     bindE (copy_out (arg1Bytes instr) (arg1NumBytes instr)) (\<lambda>b1.
       Inr (of_nat (opcode instr) # b1))"

definition two_operands :: "DwarfInstruction \<Rightarrow> byte list result" where
  "two_operands instr =
     bindE (copy_out (arg1Bytes instr) (arg1NumBytes instr)) (\<lambda>b1.
     bindE (copy_out (arg2Bytes instr) (arg2NumBytes instr)) (\<lambda>b2.
       Inr (of_nat (opcode instr) # b1 @ b2)))"

definition three_operands :: "DwarfInstruction \<Rightarrow> byte list result" where
  "three_operands instr =
     bindE (two_operands instr) (\<lambda>bytes.
     bindE (copy_out (arg3Bytes instr) (arg3NumBytes instr)) (\<lambda>b3. Inr (bytes @ b3)))"

text \<open>\<^verbatim>\<open>bytes\<close> as each case of the switch of \<^verbatim>\<open>addInstruction\<close> fills it.\<close>

definition instruction_bytes :: "DwarfInstruction \<Rightarrow> byte list result" where
  "instruction_bytes instr =
     (let t = opcode instr in
      if t \<in> set [DW_CFA_nop, DW_CFA_same_value] then Inr [of_nat t]
      else if t = DW_CFA_offset then
        bindE (guardE (dw_arg1 instr < 128) AssertFail) (\<lambda>_.
        bindE (copy_out (arg2Bytes instr) (arg2NumBytes instr)) (\<lambda>b2.
          Inr ((of_nat DW_CFA_offset OR ucast (dw_arg1 instr)) # b2)))
      else if t \<in> set [DW_CFA_restore_extended, DW_CFA_def_cfa_register, DW_CFA_def_cfa_offset,
          DW_CFA_def_cfa_offset_sf, DW_CFA_def_cfa_expression, DW_CFA_GNU_args_size, DW_CFA_undefined]
        then one_operand instr
      else if t \<in> set [DW_CFA_offset_extended, DW_CFA_offset_extended_sf, DW_CFA_val_offset,
          DW_CFA_val_offset_sf, DW_CFA_register, DW_CFA_expression, DW_CFA_val_expression,
          DW_CFA_def_cfa, DW_CFA_def_cfa_sf]
        then two_operands instr
      else if t \<in> set [DW_CFA_KATANA_fixups, DW_CFA_KATANA_fixups_pointer] then three_operands instr
      else if t = DW_CFA_set_loc then
        bindE (guardE (arg1NumBytes instr = 8) AssertFail) (\<lambda>_. one_operand instr)
      else if t = DW_CFA_advance_loc then
        if dw_arg1 instr > 0xc0 then Inl Death else Inr [of_nat t OR ucast (dw_arg1 instr)]
      else if t = DW_CFA_advance_loc1 then
        if dw_arg1 instr > 0xFF then Inl Death else Inr (of_nat t # word_bytes 1 (dw_arg1 instr))
      else if t = DW_CFA_advance_loc2 then
        if dw_arg1 instr > 0xFFFF then Inl Death else Inr (of_nat t # word_bytes 2 (dw_arg1 instr))
      else if t = DW_CFA_advance_loc4 then
        if dw_arg1 instr > 0xFFFFFFFF then Inl Death else Inr (of_nat t # word_bytes 4 (dw_arg1 instr))
      else if t = DW_CFA_restore then Inr [of_nat DW_CFA_restore OR ucast (dw_arg1 instr)]
      else if t \<in> set [DW_CFA_remember_state, DW_CFA_restore_state] then Inr [of_nat t]
      else Inl Death)"

definition addInstruction :: "DwarfInstructions \<Rightarrow> DwarfInstruction \<Rightarrow> DwarfInstructions result" where
  "addInstruction ins instr =
     bindE (instruction_bytes instr) (\<lambda>bytes. addBytes ins bytes (length bytes))"

text \<open>Setting an operand to the bytes an encoder returned.\<close>

definition set_bytes1 :: "byte list result \<Rightarrow> DwarfInstruction \<Rightarrow> DwarfInstruction result" where
  "set_bytes1 enc raw =
     bindE enc (\<lambda>bs. Inr (raw\<lparr>arg1Bytes := bs, arg1NumBytes := to_usint (length bs)\<rparr>))"

definition set_bytes2 :: "byte list result \<Rightarrow> DwarfInstruction \<Rightarrow> DwarfInstruction result" where
  "set_bytes2 enc raw =
     bindE enc (\<lambda>bs. Inr (raw\<lparr>arg2Bytes := bs, arg2NumBytes := to_usint (length bs)\<rparr>))"

definition set_block1 :: "DwarfExpr \<Rightarrow> DwarfInstruction \<Rightarrow> DwarfInstruction result" where
  "set_block1 e raw =
     bindE (encodeDwarfExprAsFormBlock e) (\<lambda>(bs, n). Inr (raw\<lparr>arg1Bytes := bs, arg1NumBytes := n\<rparr>))"

definition set_block2 :: "DwarfExpr \<Rightarrow> DwarfInstruction \<Rightarrow> DwarfInstruction result" where
  "set_block2 e raw =
     bindE (encodeDwarfExprAsFormBlock e) (\<lambda>(bs, n). Inr (raw\<lparr>arg2Bytes := bs, arg2NumBytes := n\<rparr>))"

definition regInstructionToRawDwarfInstruction :: "RegInstruction \<Rightarrow> DwarfInstruction result" where
  "regInstructionToRawDwarfInstruction inst =
     (let t = ri_type inst; raw = zero_raw t;
          reg1 = set_bytes1 (encodeRegAsLEB128 (ri_arg1Reg inst) False) in
      if t = DW_CFA_set_loc then Inr (raw\<lparr>dw_arg1 := ri_arg1 inst\<rparr>)
      else if t \<in> set [DW_CFA_advance_loc, DW_CFA_advance_loc1, DW_CFA_advance_loc2, DW_CFA_advance_loc4]
        then Inr (raw\<lparr>dw_arg1 := ri_arg1 inst\<rparr>)
      else if t = DW_CFA_offset then
        bindE (reg1 raw) (\<lambda>raw.
        bindE (guardE (reg_type (ri_arg1Reg inst) = ERT_BASIC) Death) (\<lambda>_.
        bindE (guardE (arg1NumBytes raw = 1) AssertFail) (\<lambda>_.
          set_bytes2 (intToLEB128 (ucast (ri_arg2 inst)))
            (raw\<lparr>dw_arg1 := scast (reg_u (ri_arg1Reg inst)), dw_arg2 := ri_arg2 inst\<rparr>))))
      else if t = DW_CFA_register then
        bindE (reg1 raw) (set_bytes2 (encodeRegAsLEB128 (ri_arg2Reg inst) False))
      else if t \<in> set [DW_CFA_offset_extended, DW_CFA_def_cfa] then
        bindE (reg1 raw) (set_bytes2 (encodeAsLEB128 (word_bytes 8 (ri_arg2 inst)) False))
      else if t = DW_CFA_offset_extended_sf then
        bindE (reg1 raw) (set_bytes2 (encodeAsLEB128 (word_bytes 8 (ri_arg2 inst)) True))
      else if t \<in> set [DW_CFA_def_cfa_register, DW_CFA_restore_extended, DW_CFA_undefined, DW_CFA_same_value]
        then reg1 raw
      else if t \<in> set [DW_CFA_def_cfa_offset, DW_CFA_GNU_args_size] then
        set_bytes1 (encodeAsLEB128 (word_bytes 8 (ri_arg1 inst)) False) raw
      else if t = DW_CFA_def_cfa_offset_sf then
        set_bytes1 (encodeAsLEB128 (word_bytes 8 (ri_arg1 inst)) True) raw
      else if t = DW_CFA_restore then Inr (raw\<lparr>dw_arg1 := ri_arg1 inst\<rparr>)
      else if t \<in> set [DW_CFA_remember_state, DW_CFA_restore_state, DW_CFA_nop] then Inr raw
      else if t = DW_CFA_def_cfa_expression then set_block1 (ri_expr inst) raw
      else if t \<in> set [DW_CFA_expression, DW_CFA_val_expression] then
        bindE (reg1 raw) (set_block2 (ri_expr inst))
      else Inl Death)"

fun serialize_from :: "DwarfInstructions \<Rightarrow> RegInstruction list \<Rightarrow> DwarfInstructions result" where
  "serialize_from ins [] = Inr ins"
| "serialize_from ins (r # rs) =
     bindE (regInstructionToRawDwarfInstruction r) (\<lambda>raw.
     bindE (addInstruction ins raw) (\<lambda>ins'. serialize_from ins' rs))"

definition serializeDwarfRegInstructions :: "RegInstruction list \<Rightarrow> DwarfInstructions result" where
  "serializeDwarfRegInstructions regInstrs = serialize_from no_instructions regInstrs"

section \<open>Reading\<close>

text \<open>
  One round of \<^verbatim>\<open>parseFDEInstructions\<close>.  \<open>bytes\<close> starts at the opcode; \<open>read_reg k\<close> reads a register at
  \<open>k\<close> bytes after it and passes it on with the position behind it.
\<close>

definition read_reg :: "byte list \<Rightarrow> nat \<Rightarrow> (PoReg \<Rightarrow> nat \<Rightarrow> 'a result) \<Rightarrow> 'a result" where
  "read_reg bytes k f =
     bindE (readRegFromLEB128 (drop (Suc k) bytes)) (\<lambda>(r, uleblen). f r (k + uleblen))"

definition read_po_reg :: "byte list \<Rightarrow> nat \<Rightarrow> (PoReg \<Rightarrow> nat \<Rightarrow> 'a result) \<Rightarrow> 'a result" where
  "read_po_reg bytes k f =
     bindE (elem_at bytes (Suc k)) (\<lambda>b.
       if isPoRegType b then read_reg bytes k f else Inl Death)"

definition read_uint :: "byte list \<Rightarrow> nat \<Rightarrow> (uint \<Rightarrow> nat \<Rightarrow> 'a result) \<Rightarrow> 'a result" where
  "read_uint bytes k f =
     bindE (leb128ToUInt (drop (Suc k) bytes)) (\<lambda>(v, uleblen). f v (k + uleblen))"

definition read_expr :: "byte list \<Rightarrow> nat \<Rightarrow> (DwarfExpr \<Rightarrow> nat \<Rightarrow> 'a result) \<Rightarrow> 'a result" where
  "read_expr bytes k f =
     read_uint bytes k (\<lambda>exprBytesLen k.
       bindE (parseDwarfExpression (drop (Suc k) bytes) exprBytesLen) (\<lambda>e.
         f e (k + unat exprBytesLen)))"

definition parse_low :: "byte list \<Rightarrow> nat \<Rightarrow> (RegInstruction option \<times> nat) result" where
  "parse_low bytes low =
     (let i = zero_inst low; operands = tl bytes in
      if low = DW_CFA_set_loc then
        bindE (copy_out operands 4) (\<lambda>bs. Inr (Some (i\<lparr>ri_arg1 := le_word bs\<rparr>), 4))
      else if low = DW_CFA_advance_loc1 then
        bindE (elem_at operands 0) (\<lambda>delta. Inr (Some (i\<lparr>ri_arg1 := ucast delta\<rparr>), 1))
      else if low = DW_CFA_advance_loc2 then
        bindE (elem_at operands 0) (\<lambda>delta. Inr (Some (i\<lparr>ri_arg1 := ucast delta\<rparr>), 2))
      else if low = DW_CFA_advance_loc4 then
        bindE (copy_out operands 4) (\<lambda>bs. Inr (Some (i\<lparr>ri_arg1 := ucast (le_word bs :: uint)\<rparr>), 4))
      else if low = DW_CFA_offset_extended then
        read_reg bytes 0 (\<lambda>r k.
          bindE (leb128ToUWord (drop (Suc k) bytes)) (\<lambda>(v, _).
            Inr (Some (i\<lparr>ri_arg1Reg := r, ri_arg2 := v\<rparr>), k)))
      else if low = DW_CFA_offset_extended_sf then
        read_reg bytes 0 (\<lambda>r k.
          bindE (leb128ToSWord (drop (Suc k) bytes)) (\<lambda>(v, _).
            Inr (Some (i\<lparr>ri_arg1Reg := r, ri_arg2 := v\<rparr>), k)))
      else if low \<in> set [DW_CFA_undefined, DW_CFA_same_value] then
        read_reg bytes 0 (\<lambda>r k. Inr (Some (i\<lparr>ri_arg1Reg := r\<rparr>), k))
      else if low = DW_CFA_register then
        read_reg bytes 0 (\<lambda>r1 k. read_reg bytes k (\<lambda>r2 k.
          Inr (Some (i\<lparr>ri_arg1Reg := r1, ri_arg2Reg := r2\<rparr>), k)))
      else if low \<in> set [DW_CFA_KATANA_fixups, DW_CFA_KATANA_fixups_pointer] then
        read_po_reg bytes 0 (\<lambda>r1 k. read_po_reg bytes k (\<lambda>r2 k. read_uint bytes k (\<lambda>v k.
          Inr (Some (i\<lparr>ri_arg1Reg := r1, ri_arg2Reg := r2, ri_arg3 := ucast v\<rparr>), k))))
      else if low = DW_CFA_def_cfa then
        read_reg bytes 0 (\<lambda>r k. read_uint bytes k (\<lambda>v k.
          Inr (Some (i\<lparr>ri_arg1Reg := r, ri_arg2 := ucast v\<rparr>), k)))
      else if low = DW_CFA_def_cfa_register then
        read_reg bytes 0 (\<lambda>r k. Inr (Some (i\<lparr>ri_arg1Reg := r\<rparr>), k))
      else if low \<in> set [DW_CFA_def_cfa_offset, DW_CFA_GNU_args_size] then
        read_uint bytes 0 (\<lambda>v k. Inr (Some (i\<lparr>ri_arg1 := ucast v\<rparr>), k))
      else if low = DW_CFA_def_cfa_offset_sf then
        bindE (leb128ToInt operands) (\<lambda>(v, uleblen).
          Inr (Some (i\<lparr>ri_arg1 := scast v\<rparr>), uleblen))
      else if low \<in> set [DW_CFA_remember_state, DW_CFA_restore_state] then Inr (Some i, 0)
      else if low \<in> set [DW_CFA_expression, DW_CFA_val_expression] then
        read_reg bytes 0 (\<lambda>r k. read_expr bytes k (\<lambda>e k.
          Inr (Some (i\<lparr>ri_arg1Reg := r, ri_expr := e\<rparr>), k)))
      else if low = DW_CFA_def_cfa_expression then
        read_expr bytes 0 (\<lambda>e k. Inr (Some (i\<lparr>ri_expr := e\<rparr>), k))
      else if low = DW_CFA_nop then Inr (None, 0)
      else Inl Death)"

definition parse_fde_instr :: "RegInstruction step" where
  "parse_fde_instr bytes =
     bindE (elem_at bytes 0) (\<lambda>b.
       let high = unat (b AND 0xc0); low = unat (b AND 0x3f); low_reg = basic_reg (of_nat low) in
       if high = DW_CFA_advance_loc \<or> high = DW_CFA_restore then
         Inr (Some ((zero_inst high)\<lparr>ri_arg1 := of_nat low, ri_arg1Reg := low_reg\<rparr>), 0)
       else if high = DW_CFA_offset then
         bindE (leb128ToUWord (tl bytes)) (\<lambda>(v, uleblen).
           Inr (Some ((zero_inst high)\<lparr>ri_arg1 := of_nat low, ri_arg1Reg := low_reg, ri_arg2 := v\<rparr>),
                uleblen))
       else parse_low bytes low)"

definition parseFDEInstructions :: "byte list \<Rightarrow> uint \<Rightarrow> RegInstruction list result" where
  "parseFDEInstructions bytes len =
     parse_loop parse_fde_instr more_signed (unat len) 0 len bytes"

section \<open>Printing\<close>

definition print_reg_or :: "PoReg \<Rightarrow> string \<Rightarrow> nat \<Rightarrow> string result" where
  "print_reg_or r num printFlags =
     (if reg_type r = ERT_NONE then Inr (''r'' @ num)
      else printReg r printFlags)"

definition printInstruction :: "RegInstruction \<Rightarrow> nat \<Rightarrow> string result" where
  "printInstruction inst printFlags =
     (let t = ri_type inst; a1 = fmt_i (ri_arg1 inst);
          arg1Reg = print_reg_or (ri_arg1Reg inst) a1 printFlags;
          arg2Reg = print_reg_or (ri_arg2Reg inst) (fmt_u (ri_arg2 inst)) printFlags;
          fixups = bindE arg1Reg (\<lambda>s1. bindE arg2Reg (\<lambda>s2.
            Inr (''DW_CFA_KATANA_fixups_pointer '' @ s1 @ '' '' @ s2 @ '' fde#'' @ fmt_u (ri_arg3 inst) @
                 '' '' @ newline))) in
      if t = DW_CFA_set_loc then Inr (''DW_CFA_set_loc '' @ a1 @ newline)
      else if t = DW_CFA_advance_loc then Inr (''DW_CFA_advance_loc '' @ a1 @ newline)
      else if t = DW_CFA_advance_loc1 then Inr (''DW_CFA_advance_loc1 '' @ a1 @ newline)
      else if t = DW_CFA_advance_loc2 then Inr (''DW_CFA_advance_loc2 '' @ a1 @ newline)
      else if t = DW_CFA_advance_loc4 then Inr (''DW_CFA_advance_loc4 '' @ a1 @ newline)
      else if t = DW_CFA_undefined then Inr (''DW_CFA_undefined r'' @ a1 @ newline)
      else if t = DW_CFA_offset then
        Inr (''DW_CFA_offset r'' @ a1 @ '' '' @ fmt_u (ri_arg2 inst) @ newline)
      else if t = DW_CFA_offset_extended then
        bindE (printReg (ri_arg1Reg inst) printFlags) (\<lambda>s.
          Inr (''DW_CFA_offset_extended '' @ s @ '' '' @ fmt_u (ri_arg2 inst) @ newline))
      else if t = DW_CFA_offset_extended_sf then
        bindE (printReg (ri_arg1Reg inst) printFlags) (\<lambda>s.
          Inr (''DW_CFA_offset_extended_sf '' @ s @ '' '' @ fmt_i (ri_arg2 inst) @ newline))
      else if t = DW_CFA_restore then
        bindE arg1Reg (\<lambda>s. Inr (''DW_CFA_restore '' @ s @ '' '' @ newline))
      else if t = DW_CFA_register then
        bindE arg1Reg (\<lambda>s1. bindE arg2Reg (\<lambda>s2.
          Inr (''DW_CFA_register '' @ s1 @ '' '' @ s2 @ '' '' @ newline)))
      else if t = DW_CFA_KATANA_fixups then
        bindE fixups (\<lambda>s. Inr (''DW_CFA_KATANA_fixups '' @ s))
      else if t = DW_CFA_KATANA_fixups_pointer then fixups
      else if t = DW_CFA_def_cfa then
        bindE arg1Reg (\<lambda>s. Inr (''DW_CFA_def_cfa '' @ s @ '' '' @ fmt_i (ri_arg2 inst) @ '' '' @ newline))
      else if t = DW_CFA_def_cfa_register then
        bindE arg1Reg (\<lambda>s. Inr (''DW_CFA_def_cfa_register '' @ s @ newline))
      else if t = DW_CFA_def_cfa_offset then
        Inr (''DW_CFA_def_cfa_offset '' @ fmt_u (ri_arg1 inst) @ newline)
      else if t = DW_CFA_def_cfa_offset_sf then Inr (''DW_CFA_def_cfa_offset '' @ a1 @ newline)
      else if t = DW_CFA_remember_state then Inr (''DW_CFA_remember_state'' @ newline)
      else if t = DW_CFA_restore_state then Inr (''DW_CFA_restore_state'' @ newline)
      else if t = DW_CFA_nop then Inr (''DW_CFA_nop'' @ newline)
      else if t = DW_CFA_expression then
        bindE (printReg (ri_arg1Reg inst) printFlags) (\<lambda>s.
        bindE (printExpr [CHR 0x09, CHR 0x09] (ri_expr inst) printFlags) (\<lambda>e.
          Inr (''DW_CFA_expression '' @ s @ newline @ e)))
      else if t = DW_CFA_def_cfa_expression then
        bindE (printExpr [CHR 0x09, CHR 0x09] (ri_expr inst) printFlags) (\<lambda>e.
          Inr (''DW_CFA_def_cfa_expression '' @ e))
      else if t = DW_CFA_val_expression then
        bindE (printReg (ri_arg1Reg inst) printFlags) (\<lambda>s.
        bindE (printExpr [CHR 0x09, CHR 0x09] (ri_expr inst) printFlags) (\<lambda>e.
          Inr (''DW_CFA_val_expression '' @ s @ newline @ e)))
      else if t = DW_CFA_GNU_args_size then Inr (''DW_CFA_GNU_args_size '' @ a1 @ newline)
      else Inl Death)"

section \<open>Reading back what was written\<close>

text \<open>The bytes of one instruction, and the instructions the reader recovers from them.\<close>

definition cfa_bytes :: "RegInstruction \<Rightarrow> byte list result" where
  "cfa_bytes i = bindE (regInstructionToRawDwarfInstruction i) instruction_bytes"

definition expr_block_ok :: "DwarfExpr \<Rightarrow> bool" where
  "expr_block_ok e \<longleftrightarrow> list_all expr_ok (instructions e) \<and> length (instructions e) \<le> 5000 \<and> byteLength e = 0"

definition with_reg :: "nat \<Rightarrow> PoReg \<Rightarrow> RegInstruction" where
  "with_reg t r = (zero_inst t)\<lparr>ri_arg1Reg := r\<rparr>"

definition low_inst :: "nat \<Rightarrow> word_t \<Rightarrow> RegInstruction" where
  "low_inst t w = (zero_inst t)\<lparr>ri_arg1 := w, ri_arg1Reg := basic_reg (ucast w)\<rparr>"

inductive cfa_ok :: "RegInstruction \<Rightarrow> bool" where
  low: "w < 64 \<Longrightarrow> t = DW_CFA_advance_loc \<or> t = DW_CFA_restore \<Longrightarrow> cfa_ok (low_inst t w)"
| offset: "w < 64 \<Longrightarrow> uint v < 2 ^ 31 \<Longrightarrow> cfa_ok ((low_inst DW_CFA_offset w)\<lparr>ri_arg2 := v\<rparr>)"
| small_operand: "w < 256 \<Longrightarrow> t = DW_CFA_advance_loc1 \<or> t = DW_CFA_advance_loc2 \<Longrightarrow>
    cfa_ok ((zero_inst t)\<lparr>ri_arg1 := w\<rparr>)"
| advance_loc4: "uint w < 2 ^ 32 \<Longrightarrow> cfa_ok ((zero_inst DW_CFA_advance_loc4)\<lparr>ri_arg1 := w\<rparr>)"
| reg_operand: "reg_ok r \<Longrightarrow> t = DW_CFA_undefined \<or> t = DW_CFA_def_cfa_register \<Longrightarrow>
    cfa_ok (with_reg t r)"
| register: "reg_ok r \<Longrightarrow> reg_ok r' \<Longrightarrow> cfa_ok ((with_reg DW_CFA_register r)\<lparr>ri_arg2Reg := r'\<rparr>)"
| def_cfa: "reg_ok r \<Longrightarrow> uint w < 2 ^ 32 \<Longrightarrow> cfa_ok ((with_reg DW_CFA_def_cfa r)\<lparr>ri_arg2 := w\<rparr>)"
| uint_operand: "uint w < 2 ^ 32 \<Longrightarrow> t = DW_CFA_def_cfa_offset \<or> t = DW_CFA_GNU_args_size \<Longrightarrow>
    cfa_ok ((zero_inst t)\<lparr>ri_arg1 := w\<rparr>)"
| int_operand: "- (2 ^ 27) \<le> sint w \<Longrightarrow> sint w < 2 ^ 27 \<Longrightarrow>
    cfa_ok ((zero_inst DW_CFA_def_cfa_offset_sf)\<lparr>ri_arg1 := w\<rparr>)"
| plain: "t \<in> set [DW_CFA_remember_state, DW_CFA_restore_state, DW_CFA_nop] \<Longrightarrow> cfa_ok (zero_inst t)"
| cfa_expression: "expr_block_ok e \<Longrightarrow> cfa_ok ((zero_inst DW_CFA_def_cfa_expression)\<lparr>ri_expr := e\<rparr>)"
| reg_expression: "reg_ok r \<Longrightarrow> expr_block_ok e \<Longrightarrow> t = DW_CFA_expression \<or> t = DW_CFA_val_expression \<Longrightarrow>
    cfa_ok ((with_reg t r)\<lparr>ri_expr := e\<rparr>)"

definition cfa_out :: "RegInstruction \<Rightarrow> RegInstruction option" where
  "cfa_out i = (if ri_type i = DW_CFA_nop then None else Some i)"

definition cfa_codec :: "RegInstruction \<Rightarrow> bool" where
  "cfa_codec i \<longleftrightarrow> (\<exists>bs. cfa_bytes i = Inr bs \<and> bs \<noteq> [] \<and> length bs \<le> 55100 \<and>
     (\<forall>rest. parse_fde_instr (bs @ rest) = Inr (cfa_out i, length bs - 1)))"

lemmas raw_defs = regInstructionToRawDwarfInstruction_def zero_raw_def zero_inst_def with_reg_def
  low_inst_def Let_def set_bytes1_def set_bytes2_def set_block1_def set_block2_def

lemmas out_defs = instruction_bytes_def one_operand_def two_operands_def

lemmas in_defs = parse_fde_instr_def parse_low_def read_reg_def read_uint_def read_expr_def

lemma packed_operand:
  assumes "x < (64 :: byte)"
  shows "(c OR x) AND 0xc0 = c AND 0xc0" "(c OR x) AND 0x3f = (c AND 0x3f) OR x"
proof -
  have "unat x < 2 ^ 6" using assms by (simp add: word_less_nat_alt)
  then have "take_bit 6 x = x" by (simp add: word_unat_eq_iff unsigned_take_bit_eq take_bit_nat_eq_self)
  then have x: "x AND 0x3f = x" by (simp add: take_bit_eq_mask mask_eq_exp_minus_1)
  then have "x AND 0xc0 = (x AND 0x3f) AND 0xc0" by simp
  also have "\<dots> = 0" by (simp add: and.assoc)
  finally show "(c OR x) AND 0xc0 = c AND 0xc0" "(c OR x) AND 0x3f = (c AND 0x3f) OR x"
    using x by (simp_all add: bit.conj_disj_distrib2)
qed

lemma ucast_less_64: "w < (64 :: word_t) \<Longrightarrow> (ucast w :: byte) < 64 \<and> unat (ucast w :: byte) = unat w"
  by (simp add: word_less_nat_alt unsigned_ucast_eq take_bit_nat_eq_self)

lemma low_inst_codec:
  assumes "w < 64" "t = DW_CFA_advance_loc \<or> t = DW_CFA_restore"
  shows "cfa_codec (low_inst t w)"
proof -
  have u: "(ucast w :: byte) < 64" "unat (ucast w :: byte) = unat w" using ucast_less_64 [OF assms(1)] by auto
  have r: "of_nat (unat w) = w" "basic_reg (of_nat (unat w)) = basic_reg (ucast w)"
    by simp_all
  have "\<not> 0xc0 < w" using assms(1) by (simp add: word_less_nat_alt)
  with assms(2) u r show ?thesis
    by (auto simp: cfa_codec_def cfa_bytes_def cfa_out_def raw_defs out_defs in_defs
        packed_operand [OF u(1)])
qed

lemma uintToLEB128_short:
  assumes "uint v < 128"
  shows "\<exists>enc. uintToLEB128 v = Inr enc \<and> length enc = 1"
proof -
  obtain enc where e: "uintToLEB128 v = Inr enc" "leb_wf enc" "leb_int enc = uint v"
    "length enc = 1 \<or> last enc \<noteq> 0"
    by (rule uint_encode_spec)
  have "leb_int [ucast v] = uint v"
    using assms by (simp add: leb_int_def unsigned_ucast_eq unsigned_take_bit_eq take_bit_int_eq_self)
  moreover have "leb_wf [ucast v]"
  proof -
    have "take_bit 7 v = v" using assms by (simp add: word_uint_eq_iff unsigned_take_bit_eq take_bit_int_eq_self)
    then have "\<not> bit v 7" by (metis bit_take_bit_iff less_irrefl)
    then show ?thesis by (simp add: leb_wf_def bit_simps)
  qed
  ultimately have "length enc \<le> 1" using leb_int_shortest [OF e(2,4)] e(3) by fastforce
  moreover have "enc \<noteq> []" using e(2) by (simp add: leb_wf_def)
  ultimately show ?thesis using e(1) by (cases enc) auto
qed

lemma sint_nonneg: "uint (x :: 'a::len word) < 2 ^ (LENGTH('a) - 1) \<Longrightarrow> sint x = uint x"
  unfolding sint_uint using uint_ge_0 [of x]
  by (intro signed_take_bit_int_eq_self) (auto intro: order_trans [of _ 0])

lemma offset_codec:
  assumes "w < 64" "uint v < 2 ^ 31"
  shows "cfa_codec ((low_inst DW_CFA_offset w)\<lparr>ri_arg2 := v\<rparr>)"
proof -
  have u: "(ucast w :: byte) < 64" "unat (ucast w :: byte) = unat w" using ucast_less_64 [OF assms(1)] by auto
  have w64: "unat w < 64" "w < 128" using assms(1) by (simp_all add: word_less_nat_alt)
  have uw0: "uint w < 64" using assms(1) by (simp add: word_less_def)
  then have uw: "uint (ucast w :: uint) = uint w"
    by (simp add: unsigned_ucast_eq take_bit_int_eq_self)
  then have "sint (ucast w :: uint) = uint w" using sint_nonneg [of "ucast w :: uint"] uw0 by simp
  then have sw: "scast (ucast w :: uint) = w" by (simp add: scast_eq)
  obtain enc where e: "uintToLEB128 (ucast w) = Inr enc" "length enc = 1"
    using uintToLEB128_short [of "ucast w"] uw uw0 by auto
  have v: "uint (ucast v :: uint) = uint v"
    using assms(2) by (simp add: unsigned_ucast_eq take_bit_int_eq_self)
  obtain enc' where e': "uintToLEB128 (ucast v) = Inr enc'" "leb_wf enc'" "leb_int enc' = uint v" "length enc' \<le> 5"
    by (rule uint_encode_spec [of "ucast v"]) (simp add: v)
  have "intToLEB128 (ucast v) = Inr enc'"
    using e'(1) sint_nonneg [of "ucast v :: uint"] assms(2) v by (simp add: intToLEB128_def)
  moreover have "leb128ToUWord (enc' @ rest) = Inr (v, length enc')" for rest
    using leb128ToUWord_spec [OF e'(2)] e'(3,4) assms(2) by simp
  ultimately show ?thesis using u w64 sw e e'(4)
    by (simp add: cfa_codec_def cfa_bytes_def cfa_out_def raw_defs out_defs in_defs
        packed_operand [OF u(1)] basic_reg_def encodeRegAsLEB128_def)
qed

lemma small_operand_codec:
  assumes "w < 256" "t = DW_CFA_advance_loc1 \<or> t = DW_CFA_advance_loc2"
  shows "cfa_codec ((zero_inst t)\<lparr>ri_arg1 := w\<rparr>)"
proof -
  have w: "unat w < 256" using assms(1) by (simp add: word_less_nat_alt)
  then have "\<not> 0xFF < w" "\<not> 0xFFFF < w" by (simp_all add: word_less_nat_alt)
  moreover have "ucast (ucast w :: byte) = w"
    using w by (simp add: word_unat_eq_iff unsigned_ucast_eq unsigned_take_bit_eq take_bit_nat_eq_self)
  moreover have "word_bytes 1 w = [ucast w]" "word_bytes 2 w = [ucast w, ucast (drop_bit 8 w)]"
    by (simp_all add: word_bytes_def upt_conv_Cons)
  ultimately show ?thesis
    using assms(2) by (elim disjE) (simp_all add: cfa_codec_def cfa_bytes_def cfa_out_def raw_defs
        out_defs in_defs del: One_nat_def)
qed

lemma advance_loc4_codec:
  assumes "uint w < 2 ^ 32"
  shows "cfa_codec ((zero_inst DW_CFA_advance_loc4)\<lparr>ri_arg1 := w\<rparr>)"
proof -
  have "\<not> 0xFFFFFFFF < w" using assms by (simp add: word_less_def)
  moreover have "(ucast (le_word (word_bytes 4 w) :: uint) :: word_t) = w"
  proof -
    have "bit w j \<Longrightarrow> j < 32" for j
    proof (rule ccontr)
      assume "bit w j" "\<not> j < 32"
      moreover have "take_bit 32 w = w" using assms by (simp add: word_uint_eq_iff unsigned_take_bit_eq take_bit_int_eq_self)
      ultimately show False by (metis bit_take_bit_iff)
    qed
    then show ?thesis by (intro bit_word_eqI) (auto simp: le_word_def le_int_word_bytes bit_simps)
  qed
  ultimately show ?thesis
    by (simp add: cfa_codec_def cfa_bytes_def cfa_out_def raw_defs out_defs in_defs)
qed

lemma reg_operand_codec:
  assumes "reg_ok r" "t = DW_CFA_undefined \<or> t = DW_CFA_def_cfa_register"
  shows "cfa_codec (with_reg t r)"
proof -
  obtain enc where e: "encodeRegAsLEB128 r False = Inr enc" "length enc \<le> 5"
    "\<And>rest. readRegFromLEB128 (enc @ rest) = Inr (r, length enc)"
    using reg_codec [OF assms(1), of False] by metis
  then show ?thesis
    using assms(2) by (auto simp: cfa_codec_def cfa_bytes_def cfa_out_def raw_defs out_defs in_defs)
qed

lemma register_codec:
  assumes "reg_ok r" "reg_ok r'"
  shows "cfa_codec ((with_reg DW_CFA_register r)\<lparr>ri_arg2Reg := r'\<rparr>)"
proof -
  obtain enc where e: "encodeRegAsLEB128 r False = Inr enc" "length enc \<le> 5"
    "\<And>rest. readRegFromLEB128 (enc @ rest) = Inr (r, length enc)"
    using reg_codec [OF assms(1), of False] by metis
  obtain enc' where e': "encodeRegAsLEB128 r' False = Inr enc'" "length enc' \<le> 5"
    "\<And>rest. readRegFromLEB128 (enc' @ rest) = Inr (r', length enc')"
    using reg_codec [OF assms(2), of False] by metis
  show ?thesis
    using e e' by (auto simp: cfa_codec_def cfa_bytes_def cfa_out_def raw_defs out_defs in_defs)
qed

lemma ucast_ucast_small: "uint (w :: word_t) < 2 ^ 32 \<Longrightarrow> (ucast (ucast w :: uint) :: word_t) = w"
  by (simp add: word_uint_eq_iff unsigned_ucast_eq unsigned_take_bit_eq take_bit_int_eq_self)

lemma def_cfa_codec:
  assumes "reg_ok r" "uint w < 2 ^ 32"
  shows "cfa_codec ((with_reg DW_CFA_def_cfa r)\<lparr>ri_arg2 := w\<rparr>)"
proof -
  obtain enc where e: "encodeRegAsLEB128 r False = Inr enc" "length enc \<le> 5"
    "\<And>rest. readRegFromLEB128 (enc @ rest) = Inr (r, length enc)"
    using reg_codec [OF assms(1), of False] by metis
  obtain enc' where e': "encodeAsLEB128 (word_bytes 8 w) False = Inr enc'" "length enc' \<le> 5"
    "\<And>rest. leb128ToUInt (enc' @ rest) = Inr (ucast w, length enc')"
    using uleb64_to_uint [OF assms(2)] by metis
  show ?thesis
    using e e' ucast_ucast_small [OF assms(2)]
    by (auto simp: cfa_codec_def cfa_bytes_def cfa_out_def raw_defs out_defs in_defs)
qed

lemma uint_operand_codec:
  assumes "uint w < 2 ^ 32" "t = DW_CFA_def_cfa_offset \<or> t = DW_CFA_GNU_args_size"
  shows "cfa_codec ((zero_inst t)\<lparr>ri_arg1 := w\<rparr>)"
proof -
  obtain enc' where e': "encodeAsLEB128 (word_bytes 8 w) False = Inr enc'" "length enc' \<le> 5"
    "\<And>rest. leb128ToUInt (enc' @ rest) = Inr (ucast w, length enc')"
    using uleb64_to_uint [OF assms(1)] by metis
  show ?thesis
    using assms(2) e' ucast_ucast_small [OF assms(1)]
    by (elim disjE) (simp_all add: cfa_codec_def cfa_bytes_def cfa_out_def raw_defs out_defs in_defs)
qed

lemma int_operand_codec:
  assumes "- (2 ^ 27) \<le> sint w" "sint w < 2 ^ 27"
  shows "cfa_codec ((zero_inst DW_CFA_def_cfa_offset_sf)\<lparr>ri_arg1 := w\<rparr>)"
proof -
  obtain enc' where e': "encodeAsLEB128 (word_bytes 8 w) True = Inr enc'" "length enc' \<le> 4"
    "\<And>rest. leb128ToInt (enc' @ rest) = Inr (ucast w, length enc')"
    using sleb64_to_int [OF assms] by metis
  show ?thesis
    using e' scast_ucast_small [OF assms]
    by (auto simp: cfa_codec_def cfa_bytes_def cfa_out_def raw_defs out_defs in_defs)
qed

lemma plain_codec:
  assumes "t \<in> set [DW_CFA_remember_state, DW_CFA_restore_state, DW_CFA_nop]"
  shows "cfa_codec (zero_inst t)"
  using assms by (auto simp: cfa_codec_def cfa_bytes_def cfa_out_def raw_defs out_defs in_defs)

lemma expr_block_reads:
  assumes "expr_block_ok e"
  obtains blk leb body where "encodeDwarfExprAsFormBlock e = Inr (blk, length blk)" "blk = leb @ body"
    "length blk \<le> 55005"
    "\<And>rest. leb128ToUInt (leb @ body @ rest) = Inr (of_nat (length body), length leb)"
    "\<And>rest. parseDwarfExpression (body @ rest) (of_nat (length body)) = Inr e"
    "unat (of_nat (length body) :: uint) = length body"
proof -
  obtain leb body where b: "encodeDwarfExprAsFormBlock e = Inr (leb @ body, length (leb @ body))"
    "length (leb @ body) \<le> 55005" "length body < 2 ^ 31"
    "\<And>rest. leb128ToUInt (leb @ body @ rest) = Inr (of_nat (length body), length leb)"
    "\<And>rest. parseDwarfExpression (body @ rest) (of_nat (length body)) =
         Inr \<lparr>instructions = instructions e, byteLength = 0\<rparr>"
    using expr_block_codec [of e] assms unfolding expr_block_ok_def by blast
  have e: "\<lparr>instructions = instructions e, byteLength = 0\<rparr> = e"
    using assms by (cases e) (simp add: expr_block_ok_def)
  show ?thesis
    by (rule that [OF b(1) refl b(2,4) b(5) [unfolded e]])
      (use b(3) in \<open>simp add: unsigned_of_nat take_bit_nat_eq_self\<close>)
qed

lemma cfa_expression_codec:
  assumes "expr_block_ok e"
  shows "cfa_codec ((zero_inst DW_CFA_def_cfa_expression)\<lparr>ri_expr := e\<rparr>)"
proof -
  obtain blk leb body where b: "encodeDwarfExprAsFormBlock e = Inr (blk, length blk)" "blk = leb @ body"
    "length blk \<le> 55005"
    "\<And>rest. leb128ToUInt (leb @ body @ rest) = Inr (of_nat (length body), length leb)"
    "\<And>rest. parseDwarfExpression (body @ rest) (of_nat (length body)) = Inr e"
    "unat (of_nat (length body) :: uint) = length body"
    by (rule expr_block_reads [OF assms]) blast
  then show ?thesis
    by (simp add: cfa_codec_def cfa_bytes_def cfa_out_def raw_defs out_defs in_defs)
qed

lemma reg_expression_codec:
  assumes "reg_ok r" "expr_block_ok e" "t = DW_CFA_expression \<or> t = DW_CFA_val_expression"
  shows "cfa_codec ((with_reg t r)\<lparr>ri_expr := e\<rparr>)"
proof -
  obtain enc where r: "encodeRegAsLEB128 r False = Inr enc" "length enc \<le> 5"
    "\<And>rest. readRegFromLEB128 (enc @ rest) = Inr (r, length enc)"
    using reg_codec [OF assms(1), of False] by metis
  obtain blk leb body where b: "encodeDwarfExprAsFormBlock e = Inr (blk, length blk)" "blk = leb @ body"
    "length blk \<le> 55005"
    "\<And>rest. leb128ToUInt (leb @ body @ rest) = Inr (of_nat (length body), length leb)"
    "\<And>rest. parseDwarfExpression (body @ rest) (of_nat (length body)) = Inr e"
    "unat (of_nat (length body) :: uint) = length body"
    by (rule expr_block_reads [OF assms(2)]) blast
  from assms(3) r b show ?thesis
    by (elim disjE) (simp_all add: cfa_codec_def cfa_bytes_def cfa_out_def raw_defs out_defs in_defs)
qed

lemma cfa_ok_codec: "cfa_ok i \<Longrightarrow> cfa_codec i"
  by (induction rule: cfa_ok.induct)
    (rule low_inst_codec offset_codec small_operand_codec advance_loc4_codec reg_operand_codec
      register_codec def_cfa_codec uint_operand_codec int_operand_codec plain_codec
      cfa_expression_codec reg_expression_codec; assumption)+

lemma cfa_bytes_codec:
  "cfa_ok i \<Longrightarrow> \<exists>bs. cfa_bytes i = Inr bs \<and> bs \<noteq> [] \<and>
    (\<forall>rest. parse_fde_instr (bs @ rest) = Inr (cfa_out i, length bs - 1))"
  using cfa_ok_codec [of i] by (auto simp: cfa_codec_def)

interpretation cfa: prefix_codec cfa_bytes cfa_ok cfa_out parse_fde_instr
  by unfold_locales (rule cfa_bytes_codec)

lemma serialize_from_ok:
  "list_all cfa_ok is \<Longrightarrow> di_wf ins \<Longrightarrow>
    \<exists>bs ins'. cfa.enc_all is = Inr bs \<and> serialize_from ins is = Inr ins' \<and> di_wf ins' \<and>
      di_contents ins' = di_contents ins @ bs \<and> length bs \<le> 55100 * length is"
proof (induction "is" arbitrary: ins)
  case Nil
  then show ?case by simp
next
  case (Cons i "is")
  then have "cfa_codec i" using cfa_ok_codec by simp
  then obtain bs where bs: "cfa_bytes i = Inr bs" "length bs \<le> 55100" by (auto simp: cfa_codec_def)
  then obtain raw where raw: "regInstructionToRawDwarfInstruction i = Inr raw" "instruction_bytes raw = Inr bs"
    by (auto simp: cfa_bytes_def bindE_eq_Inr)
  obtain ins1 where ins1: "addBytes ins bs (length bs) = Inr ins1" "di_wf ins1"
    "di_contents ins1 = di_contents ins @ bs"
    by (rule di.add_cases [OF Cons.prems(2)])
  from Cons.IH [OF _ ins1(2)] Cons.prems(1) raw ins1 bs show ?case
    by (auto simp: addInstruction_def)
qed

section \<open>Properties\<close>

text \<open>
  C2: a call frame program of at most 30000 instructions within \<open>cfa_ok\<close> survives the writer and the reader: the
  writer accepts it, and \<^verbatim>\<open>parseFDEInstructions\<close> on the bytes written, whatever follows them
  in the section, returns the same instructions in the same order, without the \<^verbatim>\<open>DW_CFA_nop\<close>s.  \<open>cfa_ok\<close> admits
  \<^verbatim>\<open>DW_CFA_advance_loc\<close>, \<^verbatim>\<open>restore\<close> and \<^verbatim>\<open>offset\<close> with an operand below 64 in the opcode (and an offset below \<open>2 ^ 31\<close>);
  \<^verbatim>\<open>advance_loc1\<close> and \<^verbatim>\<open>advance_loc2\<close> with an operand below 256 and \<^verbatim>\<open>advance_loc4\<close> below \<open>2 ^ 32\<close>;
  \<^verbatim>\<open>undefined\<close>, \<^verbatim>\<open>register\<close>, \<^verbatim>\<open>def_cfa\<close> and \<^verbatim>\<open>def_cfa_register\<close> of machine registers whose low byte is below 0xF0;
  \<^verbatim>\<open>def_cfa\<close>, \<^verbatim>\<open>def_cfa_offset\<close> and \<^verbatim>\<open>GNU_args_size\<close> with a number below \<open>2 ^ 32\<close>; \<^verbatim>\<open>def_cfa_offset_sf\<close>
  from \<open>- (2 ^ 27)\<close> to below \<open>2 ^ 27\<close>; \<^verbatim>\<open>remember_state\<close>, \<^verbatim>\<open>restore_state\<close>, \<^verbatim>\<open>nop\<close>; and the three instructions with an expression
  within \<open>expr_block_ok\<close>.  It leaves out \<^verbatim>\<open>set_loc\<close>, \<^verbatim>\<open>same_value\<close>, \<^verbatim>\<open>offset_extended\<close> and \<^verbatim>\<open>restore_extended\<close>, and registers from 64 on in
  \<^verbatim>\<open>offset\<close>: some of these are lost or changed, as the lemmas below show.
\<close>

theorem cfa_program_roundtrip:
  assumes "list_all cfa_ok is" "length is \<le> 30000"
  shows "\<exists>ins. serializeDwarfRegInstructions is = Inr ins \<and> di_wf ins \<and>
    (\<forall>rest. parseFDEInstructions (di_contents ins @ rest) (of_nat (di_numBytes ins)) =
       Inr (filter (\<lambda>i. ri_type i \<noteq> DW_CFA_nop) is))"
proof -
  obtain bs ins where b: "cfa.enc_all is = Inr bs" "serialize_from no_instructions is = Inr ins"
    "di_wf ins" "di_contents ins = bs" "length bs \<le> 55100 * length is"
    using serialize_from_ok [OF assms(1) di_wf_empty] by auto
  have n: "di_numBytes ins = length bs" using b(3,4) by (auto simp: di_contents_def di_wf_def)
  have small: "length bs < 2 ^ 31" using b(5) assms(2) by simp
  have "length is \<le> length bs" using cfa.enc_all_ok [OF assms(1)] b(1) by auto
  moreover have "unat (of_nat (length bs) :: uint) = length bs"
    using small by (simp add: unsigned_of_nat take_bit_nat_eq_self)
  moreover have "List.map_filter cfa_out is = filter (\<lambda>i. ri_type i \<noteq> DW_CFA_nop) is"
    by (induction "is") (simp_all add: map_filter_simps cfa_out_def)
  ultimately have "parseFDEInstructions (bs @ rest) (of_nat (length bs)) =
       Inr (filter (\<lambda>i. ri_type i \<noteq> DW_CFA_nop) is)" for rest
    using cfa.parse_loop_enc_all [OF more_signed_of_nat assms(1) b(1) small, of 0]
    by (simp add: parseFDEInstructions_def)
  then show ?thesis using b n by (simp add: serializeDwarfRegInstructions_def)
qed

theorem cfa_program_roundtrip_witness:
  "\<exists>ins. serializeDwarfRegInstructions
      [(with_reg DW_CFA_def_cfa (basic_reg 7))\<lparr>ri_arg2 := 8\<rparr>, zero_inst DW_CFA_nop,
       low_inst DW_CFA_advance_loc 4] = Inr ins \<and>
    parseFDEInstructions (di_contents ins @ [0xFF]) (of_nat (di_numBytes ins)) =
      Inr [(with_reg DW_CFA_def_cfa (basic_reg 7))\<lparr>ri_arg2 := 8\<rparr>, low_inst DW_CFA_advance_loc 4]"
proof -
  have "cfa_ok ((with_reg DW_CFA_def_cfa (basic_reg 7))\<lparr>ri_arg2 := 8\<rparr>)"
    by (rule cfa_ok.def_cfa) (simp_all add: reg_ok_def basic_reg_def ERT_PO_START_num_def)
  moreover have "cfa_ok (zero_inst DW_CFA_nop)" by (rule cfa_ok.plain) simp
  moreover have "cfa_ok (low_inst DW_CFA_advance_loc 4)" by (rule cfa_ok.low) simp_all
  ultimately have "list_all cfa_ok [(with_reg DW_CFA_def_cfa (basic_reg 7))\<lparr>ri_arg2 := 8\<rparr>,
      zero_inst DW_CFA_nop, low_inst DW_CFA_advance_loc 4]" by simp
  from cfa_program_roundtrip [OF this] show ?thesis
    by (auto simp: with_reg_def zero_inst_def low_inst_def)
qed

text \<open>
  \<^verbatim>\<open>DW_CFA_set_loc\<close> cannot be written: its operand is never encoded, so the assertion on its
  size in \<^verbatim>\<open>addInstruction\<close> fails whatever the address.
\<close>

theorem set_loc_never_written:
  "ri_type i = DW_CFA_set_loc \<Longrightarrow> serializeDwarfRegInstructions (i # is) = Inl AssertFail"
  by (simp add: serializeDwarfRegInstructions_def raw_defs addInstruction_def instruction_bytes_def)

theorem set_loc_never_written_witness:
  "serializeDwarfRegInstructions [(zero_inst DW_CFA_set_loc)\<lparr>ri_arg1 := 0x400000\<rparr>] = Inl AssertFail"
  by (rule set_loc_never_written) (simp add: zero_inst_def)

text \<open>
  What is written for \<^verbatim>\<open>DW_CFA_same_value\<close> lacks its register, so the reader takes the register
  from the bytes of the next instruction: the number of bytes it consumes and the register it
  reports depend only on what follows.
\<close>

theorem same_value_operand_lost:
  assumes "reg_ok r" "reg_ok r'"
  shows "\<exists>enc'. encodeRegAsLEB128 r' False = Inr enc' \<and>
    cfa_bytes (with_reg DW_CFA_same_value r) = Inr [0x08] \<and>
    parse_fde_instr ([0x08] @ enc' @ rest) = Inr (Some (with_reg DW_CFA_same_value r'), length enc')"
proof -
  obtain enc where r: "encodeRegAsLEB128 r False = Inr enc" "length enc \<le> 5"
    using reg_codec [OF assms(1), of False] by metis
  obtain enc' where r': "encodeRegAsLEB128 r' False = Inr enc'"
    "\<And>rest. readRegFromLEB128 (enc' @ rest) = Inr (r', length enc')"
    using reg_codec [OF assms(2), of False] by metis
  show ?thesis
    using r r' by (simp add: cfa_bytes_def raw_defs out_defs in_defs)
qed

theorem same_value_operand_lost_witness:
  "cfa_bytes (with_reg DW_CFA_same_value (basic_reg 3)) = Inr [0x08]"
  using same_value_operand_lost [of "basic_reg 3" "basic_reg 3" "[]"]
  by (auto simp: reg_ok_def basic_reg_def ERT_PO_START_num_def)

lemma or_64:
  assumes "m < (64 :: word_t)"
  shows "(ucast (64 + m) :: byte) = 0x40 OR ucast m"
proof -
  have "unat m < 2 ^ 6" using assms by (simp add: word_less_nat_alt)
  then have "take_bit 6 m = m" by (simp add: word_unat_eq_iff unsigned_take_bit_eq take_bit_nat_eq_self)
  then have "m = m AND 0x3f" by (simp add: take_bit_eq_mask mask_eq_exp_minus_1)
  then have "64 AND m = 64 AND (m AND 0x3f)" by simp
  also have "\<dots> = m AND (0x3f AND 64)" by (simp only: ac_simps)
  finally have "64 AND m = 0" by simp
  then have "64 + m = 64 OR m" by (rule disjunctive_add_eq_or)
  moreover have "ucast (64 OR m) = (0x40 OR ucast m :: byte)"
    by (rule bit_word_eqI) (auto simp: bit_simps)
  ultimately show ?thesis by simp
qed

text \<open>
  The range check of \<^verbatim>\<open>DW_CFA_offset\<close> lets registers 64 to 127 through, although the opcode
  has room for six bits: register \<open>64 + m\<close> is written as \<^verbatim>\<open>DW_CFA_restore\<close> of register \<open>m\<close>, and
  that is what the reader returns.
\<close>

theorem offset_register_collides:
  assumes "m < 64" "uint v < 2 ^ 31"
  shows "\<exists>b enc. cfa_bytes ((low_inst DW_CFA_offset (64 + m))\<lparr>ri_arg2 := v\<rparr>) = Inr (b # enc) \<and>
    parse_fde_instr ((b # enc) @ rest) = Inr (Some (low_inst DW_CFA_restore m), 0)"
proof -
  have u: "(ucast m :: byte) < 64" "unat (ucast m :: byte) = unat m" using ucast_less_64 [OF assms(1)] by auto
  have um: "uint m < 64" using assms(1) by (simp add: word_less_def)
  then have un: "uint (64 + m) = 64 + uint m" by (simp add: uint_word_ariths mod_pos_pos_trivial)
  then have w: "64 + m < 128" using um by (simp add: word_less_def)
  have uw: "uint (ucast (64 + m) :: uint) = 64 + uint m"
    using um un by (simp add: unsigned_ucast_eq take_bit_int_eq_self)
  then have "sint (ucast (64 + m) :: uint) = uint (64 + m)"
    using sint_nonneg [of "ucast (64 + m) :: uint"] um un by simp
  then have sw: "scast (ucast (64 + m) :: uint) = 64 + m" by (simp only: scast_eq word_of_int_uint)
  obtain enc where e: "uintToLEB128 (ucast (64 + m)) = Inr enc" "length enc = 1"
    using uintToLEB128_short [of "ucast (64 + m)"] uw um by auto
  have v: "uint (ucast v :: uint) = uint v"
    using assms(2) by (simp add: unsigned_ucast_eq take_bit_int_eq_self)
  obtain enc' where e': "uintToLEB128 (ucast v) = Inr enc'" "length enc' \<le> 5"
    by (rule uint_encode_spec [of "ucast v"])
  have i: "intToLEB128 (ucast v) = Inr enc'"
    using e'(1) sint_nonneg [of "ucast v :: uint"] assms(2) v by (simp add: intToLEB128_def)
  have b: "0x80 OR (ucast (64 + m) :: byte) = 0xc0 OR ucast m"
    unfolding or_64 [OF assms(1)] by (simp flip: or.assoc)
  have "cfa_bytes ((low_inst DW_CFA_offset (64 + m))\<lparr>ri_arg2 := v\<rparr>) = Inr ((0xc0 OR ucast m) # enc')"
    using e e'(2) i w sw b
    by (simp add: cfa_bytes_def raw_defs out_defs basic_reg_def encodeRegAsLEB128_def)
  moreover have "parse_fde_instr (((0xc0 OR ucast m) # enc') @ rest) =
      Inr (Some (low_inst DW_CFA_restore m), 0)"
    using u by (simp add: in_defs packed_operand [OF u(1)] Let_def low_inst_def)
  ultimately show ?thesis by blast
qed

theorem offset_register_collides_witness:
  "\<exists>b enc. cfa_bytes ((low_inst DW_CFA_offset (64 + 3))\<lparr>ri_arg2 := 2\<rparr>) = Inr (b # enc) \<and>
    parse_fde_instr ((b # enc) @ []) = Inr (Some (low_inst DW_CFA_restore 3), 0)"
  by (rule offset_register_collides) simp_all

text \<open>
  The reader does not step over the second operand of \<^verbatim>\<open>DW_CFA_offset_extended\<close>: the next
  instruction is read from the operand's own bytes.
\<close>

theorem offset_extended_operand_reread:
  assumes "reg_ok r"
  shows "\<exists>reg leb. cfa_bytes ((with_reg DW_CFA_offset_extended r)\<lparr>ri_arg2 := v\<rparr>) = Inr (5 # reg @ leb) \<and>
    leb \<noteq> [] \<and> parse_fde_instr ((5 # reg @ leb) @ rest) =
      Inr (Some ((with_reg DW_CFA_offset_extended r)\<lparr>ri_arg2 := v\<rparr>), length reg)"
proof -
  obtain enc where r: "encodeRegAsLEB128 r False = Inr enc" "length enc \<le> 5"
    "\<And>rest. readRegFromLEB128 (enc @ rest) = Inr (r, length enc)"
    using reg_codec [OF assms(1), of False] by metis
  obtain enc' bs where l: "encodeAsLEB128 (word_bytes 8 v) False = Inr enc'" "enc' \<noteq> []" "length enc' \<le> 10"
    "length bs \<le> 8" "le_word bs = v"
    "\<And>rest. decodeLEB128 (enc' @ rest) False = Inr (bs, length bs, length enc')"
    by (rule uleb64_codec [of v]) blast
  show ?thesis
    by (rule exI [of _ enc], rule exI [of _ enc'])
      (use r l in \<open>simp add: cfa_bytes_def raw_defs out_defs in_defs leb128ToUWord_def\<close>)
qed

theorem offset_extended_operand_reread_witness:
  "\<exists>reg leb. cfa_bytes ((with_reg DW_CFA_offset_extended (basic_reg 65))\<lparr>ri_arg2 := 3\<rparr>) = Inr (5 # reg @ leb) \<and>
    leb \<noteq> []"
  using offset_extended_operand_reread [of "basic_reg 65" 3 "[]"]
  by (auto simp: reg_ok_def basic_reg_def ERT_PO_START_num_def)

end
