(* ===== verification/Eh_Pe.thy ===== *)
theory Eh_Pe
  imports Dwarf_Instr
begin

text \<open>
  \<^verbatim>\<open>src/src/eh_pe.c\<close>: the pointer encodings of \<^verbatim>\<open>.eh_frame\<close> and \<^verbatim>\<open>.gcc_except_table\<close>.  The
  configuration field \<^verbatim>\<open>config.recent_elf_bitwidth\<close> (0 until an ELF object has been read) is the
  argument \<open>bitwidth\<close>.
\<close>

abbreviation (input) DW_EH_PE_absptr :: nat where "DW_EH_PE_absptr \<equiv> 0"
abbreviation (input) DW_EH_PE_uleb128 :: nat where "DW_EH_PE_uleb128 \<equiv> 1"
abbreviation (input) DW_EH_PE_udata2 :: nat where "DW_EH_PE_udata2 \<equiv> 2"
abbreviation (input) DW_EH_PE_udata4 :: nat where "DW_EH_PE_udata4 \<equiv> 3"
abbreviation (input) DW_EH_PE_udata8 :: nat where "DW_EH_PE_udata8 \<equiv> 4"
abbreviation (input) DW_EH_PE_sleb128 :: nat where "DW_EH_PE_sleb128 \<equiv> 9"
abbreviation (input) DW_EH_PE_sdata2 :: nat where "DW_EH_PE_sdata2 \<equiv> 10"
abbreviation (input) DW_EH_PE_sdata4 :: nat where "DW_EH_PE_sdata4 \<equiv> 11"
abbreviation (input) DW_EH_PE_sdata8 :: nat where "DW_EH_PE_sdata8 \<equiv> 12"
abbreviation (input) DW_EH_PE_pcrel :: nat where "DW_EH_PE_pcrel \<equiv> 0x10"
abbreviation (input) DW_EH_PE_textrel :: nat where "DW_EH_PE_textrel \<equiv> 0x20"
abbreviation (input) DW_EH_PE_datarel :: nat where "DW_EH_PE_datarel \<equiv> 0x30"
abbreviation (input) DW_EH_PE_funcrel :: nat where "DW_EH_PE_funcrel \<equiv> 0x40"
abbreviation (input) DW_EH_PE_aligned :: nat where "DW_EH_PE_aligned \<equiv> 0x50"
abbreviation (input) DW_EH_PE_omit :: byte where "DW_EH_PE_omit \<equiv> 0xff"

definition eh_format :: "byte \<Rightarrow> nat" where
  "eh_format encoding = unat (encoding AND 0xF)"

text \<open>The application without \<^verbatim>\<open>DW_EH_PE_indirect\<close> (0x80).\<close>

definition eh_application :: "byte \<Rightarrow> nat" where
  "eh_application encoding = unat ((encoding AND 0xF0) AND NOT 0x80)"

section \<open>Printing\<close>

definition dwpeFormatTable :: "(nat \<times> string) list" where
  "dwpeFormatTable =
    [(DW_EH_PE_absptr, ''DW_EH_PE_absptr''), (DW_EH_PE_udata2, ''DW_EH_PE_udata2''),
     (DW_EH_PE_sdata2, ''DW_EH_PE_sdata2''), (DW_EH_PE_udata4, ''DW_EH_PE_udata4''),
     (DW_EH_PE_sdata4, ''DW_EH_PE_sdata4''), (DW_EH_PE_udata8, ''DW_EH_PE_udata8''),
     (DW_EH_PE_sdata8, ''DW_EH_PE_sdata8''), (DW_EH_PE_uleb128, ''DW_EH_PE_uleb128''),
     (DW_EH_PE_sleb128, ''DW_EH_PE_sleb128'')]"

text \<open>Indexed by the high nibble; 9 is \<^verbatim>\<open>DW_EH_PE_indirect>>4 | DW_EH_PE_pcrel>>4\<close>.\<close>

definition dwpeApplicationTable :: "(nat \<times> string) list" where
  "dwpeApplicationTable =
    [(1, ''DW_EH_PE_pcrel''), (2, ''DW_EH_PE_textrel''), (3, ''DW_EH_PE_datarel''),
     (4, ''DW_EH_PE_funcrel''), (5, ''DW_EH_PE_aligned''),
     (9, ''DW_EH_PE_indirect, DW_EH_PE_pcrel'')]"

definition printEHPointerEncoding :: "byte \<Rightarrow> string result" where
  "printEHPointerEncoding encoding =
     (if encoding = DW_EH_PE_omit then Inr ''DW_EH_PE_omit''
      else case map_of dwpeFormatTable (eh_format encoding) of
        None \<Rightarrow> Inl Death
      | Some format \<Rightarrow>
          if encoding AND 0xF0 \<noteq> 0 then
            case map_of dwpeApplicationTable (unat (drop_bit 4 (encoding AND 0xF0))) of
              None \<Rightarrow> Inl Death
            | Some application \<Rightarrow> Inr (format @ '', '' @ application)
          else Inr format)"

section \<open>Sizes, writing and reading\<close>

definition absptr_size :: "nat \<Rightarrow> nat" where
  "absptr_size bitwidth = (if bitwidth \<noteq> 0 then bitwidth div 8 else 8)"

definition getPointerSizeFromEHPointerEncoding :: "nat \<Rightarrow> byte \<Rightarrow> nat result" where
  "getPointerSizeFromEHPointerEncoding bitwidth encoding =
     (let format = eh_format encoding in
      if encoding = DW_EH_PE_omit then Inr 0
      else if format = DW_EH_PE_absptr then Inr (absptr_size bitwidth)
      else if format \<in> set [DW_EH_PE_udata2, DW_EH_PE_sdata2] then Inr 2
      else if format \<in> set [DW_EH_PE_udata4, DW_EH_PE_sdata4] then Inr 4
      else if format \<in> set [DW_EH_PE_udata8, DW_EH_PE_sdata8] then Inr 8
      else Inl Death)"

text \<open>The value to write and the number of its bytes that count.\<close>

definition encodeEHPointerFromEncoding :: "nat \<Rightarrow> addr_t \<Rightarrow> byte \<Rightarrow> addr_t \<Rightarrow> (addr_t \<times> nat) result" where
  "encodeEHPointerFromEncoding bitwidth pointer encoding pointerLocation =
     bindE (getPointerSizeFromEHPointerEncoding bitwidth encoding) (\<lambda>numBytesOut.
       if eh_application encoding = 0 then Inr (pointer, numBytesOut)
       else if eh_application encoding = DW_EH_PE_pcrel then Inr (pointer - pointerLocation, numBytesOut)
       else Inl Death)"

text \<open>\<^verbatim>\<open>resultSigned\<close> is computed by the source and never used; it has no place here.\<close>

definition eh_fixed :: "byte list \<Rightarrow> nat \<Rightarrow> nat \<Rightarrow> nat \<Rightarrow> (addr_t \<times> nat) result" where
  "eh_fixed data len n reported =
     bindE (guardE (n \<le> len) AssertFail) (\<lambda>_.
     bindE (copy_out data n) (\<lambda>bs. Inr (le_word bs, reported)))"

definition eh_leb :: "byte list \<Rightarrow> (addr_t \<times> nat) result" where
  "eh_leb data =
     bindE (decodeLEB128 data False) (\<lambda>(decodedLEB, numBytes, byteSize).
     bindE (guardE (numBytes \<le> 8) AssertFail) (\<lambda>_.
     bindE (copy_out decodedLEB numBytes) (\<lambda>bs. Inr (le_word bs, byteSize))))"

definition decodeEHPointer :: "nat \<Rightarrow> byte list \<Rightarrow> nat \<Rightarrow> addr_t \<Rightarrow> byte \<Rightarrow> (addr_t \<times> nat) result" where
  "decodeEHPointer bitwidth data len dataStartAddress encoding =
     (let format = eh_format encoding in
      bindE
        (if format = DW_EH_PE_absptr then
           let byteSize = min len (absptr_size bitwidth)
           in bindE (copy_out data byteSize) (\<lambda>bs. Inr (le_word bs, byteSize))
         else if format \<in> set [DW_EH_PE_sdata2, DW_EH_PE_udata2] then eh_fixed data len 2 2
         else if format \<in> set [DW_EH_PE_sdata4, DW_EH_PE_udata4] then eh_fixed data len 4 4
         else if format \<in> set [DW_EH_PE_udata8, DW_EH_PE_sdata8] then eh_fixed data len 8 4
         else if format \<in> set [DW_EH_PE_uleb128, DW_EH_PE_sleb128] then eh_leb data
         else Inl Death) (\<lambda>(result, byteSize).
      if eh_application encoding = 0 then Inr (result, byteSize)
      else if eh_application encoding = DW_EH_PE_pcrel then Inr (result + dataStartAddress, byteSize)
      else Inl Death))"

section \<open>Properties\<close>

text \<open>The fixed-size formats and the two applications that are implemented.\<close>

definition eh_supported :: "byte \<Rightarrow> bool" where
  "eh_supported encoding \<longleftrightarrow>
     eh_format encoding \<in> set [DW_EH_PE_absptr, DW_EH_PE_udata2, DW_EH_PE_sdata2, DW_EH_PE_udata4,
       DW_EH_PE_sdata4, DW_EH_PE_udata8, DW_EH_PE_sdata8] \<and>
     eh_application encoding \<in> set [0, DW_EH_PE_pcrel]"

definition eh_base :: "byte \<Rightarrow> addr_t \<Rightarrow> addr_t" where
  "eh_base encoding loc = (if eh_application encoding = DW_EH_PE_pcrel then loc else 0)"

definition eh_reported :: "byte \<Rightarrow> nat \<Rightarrow> nat" where
  "eh_reported encoding n =
     (if eh_format encoding \<in> set [DW_EH_PE_udata8, DW_EH_PE_sdata8] then 4 else n)"

lemma eh_supported_not_omit: "eh_supported encoding \<Longrightarrow> encoding \<noteq> DW_EH_PE_omit"
  by (auto simp: eh_supported_def eh_format_def)

lemma eh_codec:
  assumes "eh_supported encoding" "bitwidth \<in> {0, 32, 64}"
  obtains n where "getPointerSizeFromEHPointerEncoding bitwidth encoding = Inr n" "0 < n" "n \<le> 8"
    "\<And>p loc. encodeEHPointerFromEncoding bitwidth p encoding loc = Inr (p - eh_base encoding loc, n)"
    "\<And>v loc rest len. n \<le> len \<Longrightarrow> decodeEHPointer bitwidth (word_bytes n v @ rest) len loc encoding =
       Inr (take_bit (8 * n) v + eh_base encoding loc, eh_reported encoding n)"
proof -
  obtain n where n: "getPointerSizeFromEHPointerEncoding bitwidth encoding = Inr n"
    using assms eh_supported_not_omit [OF assms(1)]
    by (auto simp: eh_supported_def getPointerSizeFromEHPointerEncoding_def Let_def)
  have b: "0 < n" "n \<le> 8"
    using n assms(2) eh_supported_not_omit [OF assms(1)] by (auto simp: getPointerSizeFromEHPointerEncoding_def Let_def absptr_size_def
        split: if_splits)
  have app: "eh_application encoding = 0 \<or> eh_application encoding = DW_EH_PE_pcrel"
    using assms(1) by (simp add: eh_supported_def)
  have e: "encodeEHPointerFromEncoding bitwidth p encoding loc = Inr (p - eh_base encoding loc, n)" for p loc
    using n app by (auto simp: encodeEHPointerFromEncoding_def eh_base_def)
  have d: "decodeEHPointer bitwidth (word_bytes n v @ rest) len loc encoding =
       Inr (take_bit (8 * n) v + eh_base encoding loc, eh_reported encoding n)"
    if "n \<le> len" for v loc rest len
    using n app that eh_supported_not_omit [OF assms(1)]
    by (auto simp: decodeEHPointer_def getPointerSizeFromEHPointerEncoding_def Let_def eh_fixed_def
        eh_base_def eh_reported_def le_word_word_bytes_take split: if_splits)
  show ?thesis by (rule that [OF n b e d])
qed

text \<open>
  C21: what \<^verbatim>\<open>decodeEHPointer\<close> returns on what \<^verbatim>\<open>encodeEHPointerFromEncoding\<close> wrote: the pointer
  itself exactly when the stored value (the pointer, or its distance from the location) fits the
  size of the format as an unsigned number, for every implemented fixed-size encoding.
\<close>

theorem eh_pointer_roundtrip:
  assumes "eh_supported encoding" "bitwidth \<in> {0, 32, 64}" "8 \<le> len"
  shows "\<exists>v n q. encodeEHPointerFromEncoding bitwidth p encoding loc = Inr (v, n) \<and>
    decodeEHPointer bitwidth (word_bytes n v @ rest) len loc encoding = Inr (q, eh_reported encoding n) \<and>
    (q = p \<longleftrightarrow> take_bit (8 * n) v = v)"
proof -
  obtain n where n: "n \<le> 8"
    "\<And>p loc. encodeEHPointerFromEncoding bitwidth p encoding loc = Inr (p - eh_base encoding loc, n)"
    "\<And>v loc rest len. n \<le> len \<Longrightarrow> decodeEHPointer bitwidth (word_bytes n v @ rest) len loc encoding =
       Inr (take_bit (8 * n) v + eh_base encoding loc, eh_reported encoding n)"
    by (rule eh_codec [OF assms(1,2)]) blast
  have "take_bit (8 * n) v + b = p \<longleftrightarrow> take_bit (8 * n) v = v" if "v = p - b" for v b :: word_t
    using that by (auto simp: algebra_simps)
  with n assms(3) show ?thesis by auto
qed

theorem eh_pointer_roundtrip_witness:
  "\<exists>v n q. encodeEHPointerFromEncoding 64 0x401000 0x1B 0x400800 = Inr (v, n) \<and>
    decodeEHPointer 64 (word_bytes n v @ []) 8 0x400800 0x1B = Inr (q, eh_reported 0x1B n) \<and>
    (q = 0x401000 \<longleftrightarrow> take_bit (8 * n) v = v)"
  by (rule eh_pointer_roundtrip) (simp_all add: eh_supported_def eh_format_def eh_application_def)

text \<open>
  A pc-relative \<^verbatim>\<open>DW_EH_PE_sdata4\<close> pointer backwards from its location, the usual form in
  \<^verbatim>\<open>.eh_frame\<close>, is decoded without extending its sign: the result is off by \<open>2 ^ 32\<close>.
\<close>

theorem eh_pointer_backwards:
  assumes "p = loc - d" "d \<noteq> 0" "uint d \<le> 2 ^ 32" "bitwidth \<in> {0, 32, 64}"
  shows "\<exists>v. encodeEHPointerFromEncoding bitwidth p 0x1B loc = Inr (v, 4) \<and>
    decodeEHPointer bitwidth (word_bytes 4 v @ rest) 4 loc 0x1B = Inr (p + 2 ^ 32, 4)"
proof -
  have u: "uint d \<noteq> 0" using assms(2) by (simp add: word_uint_eq_iff)
  have "take_bit 32 (- d) = (2 ^ 32 - d :: word_t)"
  proof (rule word_uint_eqI)
    have pos: "0 < uint d" using u by (simp add: le_neq_trans)
    have "(- uint d) mod 2 ^ 64 = 2 ^ 64 - uint d"
      using pos assms(3) by (simp add: zmod_zminus1_eq_if mod_pos_pos_trivial)
    moreover have "(2 ^ 64 - uint d) mod 2 ^ 32 = (2 ^ 32 - uint d) mod 2 ^ 32"
    proof -
      have "2 ^ 64 - uint d = (2 ^ 32 - uint d) + 2 ^ 32 * (2 ^ 32 - 1)" by simp
      then show ?thesis by (simp only: mod_mult_self2)
    qed
    moreover have "(2 ^ 32 - uint d) mod 2 ^ 32 = 2 ^ 32 - uint d"
      using pos assms(3) by (intro mod_pos_pos_trivial) simp_all
    moreover have "uint (2 ^ 32 - d) = 2 ^ 32 - uint d"
      using pos assms(3) by (simp add: uint_word_ariths mod_pos_pos_trivial)
    ultimately show "uint (take_bit 32 (- d)) = uint (2 ^ 32 - d)"
      by (subst unsigned_take_bit_eq) (simp add: uint_word_ariths take_bit_eq_mod [where 'a = int])
  qed
  then have "take_bit 32 (- d) + loc = (2 ^ 32 - d) + loc" by (rule arg_cong)
  then have "take_bit 32 (- d) + loc = p + 2 ^ 32"
    unfolding assms(1) by (simp add: algebra_simps)
  moreover have "p - loc = - d" unfolding assms(1) by simp
  moreover have "eh_format 0x1B = DW_EH_PE_sdata4" "eh_application 0x1B = DW_EH_PE_pcrel"
    "(0x1B :: byte) \<noteq> DW_EH_PE_omit"
    by code_simp+
  ultimately show ?thesis
    by (simp add: encodeEHPointerFromEncoding_def getPointerSizeFromEHPointerEncoding_def
        decodeEHPointer_def Let_def eh_fixed_def le_word_word_bytes_take)
qed

theorem eh_pointer_backwards_witness:
  "\<exists>v. encodeEHPointerFromEncoding 64 0x400000 0x1B 0x401000 = Inr (v, 4) \<and>
    decodeEHPointer 64 (word_bytes 4 v @ []) 4 0x401000 0x1B = Inr (0x400000 + 2 ^ 32, 4)"
  by (rule eh_pointer_backwards [of _ _ "0x1000"]) simp_all

end
