(* ===== verification/Call_Frame.thy ===== *)
theory Call_Frame
  imports Eh_Pe
begin

text \<open>
  \<^verbatim>\<open>src/src/callFrameInfo.h\<close> and the reading and writing of single entries in
  \<^verbatim>\<open>src/src/callFrameInfo.c\<close>: the augmentation of a CIE and of an FDE, and the raw bytes of a
  CIE and of an FDE.  The section as a whole is in theory \<open>Frame_Section\<close>.
\<close>

section \<open>Data\<close>

text \<open>
  \<^verbatim>\<open>fde->cie\<close> is the entry it points to.  \<^verbatim>\<open>initialRules\<close> is the business of the interpreter
  (theory \<open>Dwarf_VM\<close>).  Sizes and indices that the source keeps in an \<^verbatim>\<open>int\<close> are natural numbers.
\<close>

record CIE =
  cie_initialInstructions :: "RegInstruction list"
  cie_dataAlign :: "64 word"
  cie_codeAlign :: "64 word"
  cie_returnAddrRuleNum :: "16 word"
  cie_idx :: nat
  cie_version :: byte
  cie_addressSize :: nat
  cie_segmentSize :: nat
  cie_augmentationFlags :: byte
  cie_fdePointerEncoding :: byte
  cie_fdeLSDAPointerEncoding :: byte
  cie_personalityPointerEncoding :: byte
  cie_personalityFunction :: addr_t

record FDE =
  fde_cie :: "CIE option"
  fde_instructions :: "RegInstruction list"
  fde_memSize :: "32 word"
  fde_lowpc :: "32 word"
  fde_highpc :: "32 word"
  fde_offset :: "32 word"
  fde_idx :: nat
  fde_hasLSDAPointer :: bool
  fde_lsdaIdx :: nat

record CallSiteRecord =
  cs_position :: addr_t
  cs_length :: word_t
  cs_landingPadPosition :: addr_t
  cs_firstAction :: word_t
  cs_hasAction :: bool

record ActionRecord =
  typeFilterIndex :: "32 word"
  nextAction :: word_t
  hasNextAction :: bool

record LSDA =
  lpStart :: addr_t
  callSiteTable :: "CallSiteRecord list"
  actionTable :: "ActionRecord list"
  ttEncoding :: byte
  typeTable :: "word_t list"

record CallFrameInfo =
  cfi_fdes :: "FDE list"
  cfi_cies :: "CIE list"
  isEHFrame :: bool
  ehAddress :: addr_t
  ehHdrAddress :: addr_t
  exceptTableAddress :: addr_t
  hdrTableEncoding :: byte
  exceptTable :: "LSDA list option"

definition CAF_DATA_PRESENT :: byte where "CAF_DATA_PRESENT = 1"
definition CAF_FDE_ENC :: byte where "CAF_FDE_ENC = 2"
definition CAF_FDE_LSDA :: byte where "CAF_FDE_LSDA = 4"
definition CAF_PERSONALITY :: byte where "CAF_PERSONALITY = 8"

definition has_flag :: "CIE \<Rightarrow> byte \<Rightarrow> bool" where
  "has_flag cie flag \<longleftrightarrow> cie_augmentationFlags cie AND flag \<noteq> 0"

definition set_flag :: "byte \<Rightarrow> CIE \<Rightarrow> CIE" where
  "set_flag flag cie = cie\<lparr>cie_augmentationFlags := cie_augmentationFlags cie OR flag\<rparr>"

section \<open>Reading augmentations\<close>

fun parse_augmentation ::
  "nat \<Rightarrow> byte list \<Rightarrow> nat \<Rightarrow> addr_t \<Rightarrow> string \<Rightarrow> nat \<Rightarrow> CIE \<Rightarrow> CIE result" where
  "parse_augmentation bitwidth data len augDataAddress [] offset cie = Inr cie"
| "parse_augmentation bitwidth data len augDataAddress (c # cs) offset cie =
     bindE (guardE (offset < len) AssertFail) (\<lambda>_.
       if c = CHR ''z'' then
         parse_augmentation bitwidth data len augDataAddress cs offset (set_flag CAF_DATA_PRESENT cie)
       else if c = CHR ''R'' then
         bindE (elem_at data offset) (\<lambda>enc.
           parse_augmentation bitwidth data len augDataAddress cs (offset + 1)
             ((set_flag CAF_FDE_ENC cie)\<lparr>cie_fdePointerEncoding := enc\<rparr>))
       else if c = CHR ''P'' then
         bindE (elem_at data offset) (\<lambda>enc.
         bindE (decodeEHPointer bitwidth (drop (offset + 1) data) (len - (offset + 1))
                  (augDataAddress + of_nat (offset + 1)) enc) (\<lambda>(p, numBytesRead).
           parse_augmentation bitwidth data len augDataAddress cs (offset + 1 + numBytesRead)
             ((set_flag CAF_PERSONALITY cie)\<lparr>cie_personalityPointerEncoding := enc,
                cie_personalityFunction := p\<rparr>)))
       else if c = CHR ''L'' then
         bindE (elem_at data offset) (\<lambda>enc.
           parse_augmentation bitwidth data len augDataAddress cs (offset + 1)
             ((set_flag CAF_FDE_LSDA cie)\<lparr>cie_fdeLSDAPointerEncoding := enc\<rparr>))
       else parse_augmentation bitwidth data len augDataAddress cs offset cie)"

definition parseAugmentationStringAndData ::
  "nat \<Rightarrow> CIE \<Rightarrow> string \<Rightarrow> byte list \<Rightarrow> nat \<Rightarrow> addr_t \<Rightarrow> CIE result" where
  "parseAugmentationStringAndData bitwidth cie augmentationString data len augDataAddress =
     parse_augmentation bitwidth data len augDataAddress augmentationString 0 cie"

text \<open>The position of the first element equal to \<open>x\<close>.\<close>

fun index_of :: "'a \<Rightarrow> 'a list \<Rightarrow> nat option" where
  "index_of x [] = None"
| "index_of x (y # ys) = (if x = y then Some 0 else map_option Suc (index_of x ys))"

definition parseFDEAugmentationData ::
  "nat \<Rightarrow> FDE \<Rightarrow> addr_t \<Rightarrow> byte list \<Rightarrow> nat \<Rightarrow> addr_t list \<Rightarrow> (FDE \<times> addr_t list) result" where
  "parseFDEAugmentationData bitwidth fde augDataAddress data len lsdaPointers =
     (case fde_cie fde of
        None \<Rightarrow> Inl NullDeref
      | Some cie \<Rightarrow>
          if has_flag cie CAF_FDE_LSDA then
            bindE (getPointerSizeFromEHPointerEncoding bitwidth (cie_fdeLSDAPointerEncoding cie)) (\<lambda>n.
            bindE (guardE (n \<le> len) Death) (\<lambda>_.
            bindE (decodeEHPointer bitwidth data len augDataAddress (cie_fdeLSDAPointerEncoding cie))
              (\<lambda>(lsdaPointer, _).
                let fde' = fde\<lparr>fde_hasLSDAPointer := True\<rparr> in
                case index_of lsdaPointer lsdaPointers of
                  Some i \<Rightarrow> Inr (fde'\<lparr>fde_lsdaIdx := i\<rparr>, lsdaPointers)
                | None \<Rightarrow> Inr (fde'\<lparr>fde_lsdaIdx := length lsdaPointers\<rparr>, lsdaPointers @ [lsdaPointer]))))
          else Inr (fde, lsdaPointers))"

section \<open>Writing\<close>

text \<open>A run of \<^verbatim>\<open>addToGrowingBuffer\<close> calls on pieces of memory of given lengths.\<close>

fun add_chunks :: "GrowingBuffer \<Rightarrow> (byte list \<times> nat) list \<Rightarrow> GrowingBuffer result" where
  "add_chunks buf [] = Inr buf"
| "add_chunks buf ((src, n) # cs) = bindE (addToGrowingBuffer buf src n) (\<lambda>buf'. add_chunks buf' cs)"

definition cstring :: "string \<Rightarrow> byte list" where
  "cstring s = map of_char s @ [0]"

definition aug_string :: "CIE \<Rightarrow> string" where
  "aug_string cie =
     (if has_flag cie CAF_DATA_PRESENT
      then ''z'' @ (if has_flag cie CAF_PERSONALITY then ''P'' else []) @
           (if has_flag cie CAF_FDE_LSDA then ''L'' else []) @
           (if has_flag cie CAF_FDE_ENC then ''R'' else [])
      else [])"

text \<open>
  The personality entry, at the start of the augmentation data.  \<open>stack\<close> is the array
  \<^verbatim>\<open>cieAugmentationData[32]\<close>, not initialised by the source; the result is the array and the offset
  behind the entry.  \<open>before\<close> is the number of bytes of the section in front of it.
\<close>

definition personality_data ::
  "nat \<Rightarrow> byte list \<Rightarrow> CIE \<Rightarrow> addr_t \<Rightarrow> (byte list \<times> nat) result" where
  "personality_data bitwidth stack cie before =
     (if \<not> has_flag cie CAF_PERSONALITY then Inr (stack, 0)
      else if cie_personalityFunction cie AND 0xFFFFFFFF00000000 = 0 then
        bindE (store_at stack 0 (cie_personalityPointerEncoding cie)) (\<lambda>stack.
        bindE (encodeEHPointerFromEncoding bitwidth (cie_personalityFunction cie)
                 (cie_personalityPointerEncoding cie) (before + 1)) (\<lambda>(p, numBytesOut).
        bindE (copy_out (word_bytes 8 p) numBytesOut) (\<lambda>bs.
        bindE (write_bytes stack 1 bs) (\<lambda>stack. Inr (stack, 1 + numBytesOut)))))
      else
        bindE (store_at stack 0 (of_nat DW_EH_PE_udata8)) (\<lambda>stack.
        bindE (write_bytes stack 1 (word_bytes 4 (cie_personalityFunction cie))) (\<lambda>stack.
          Inr (stack, 9))))"

definition cie_aug_data ::
  "nat \<Rightarrow> byte list \<Rightarrow> CIE \<Rightarrow> addr_t \<Rightarrow> (byte list \<times> nat) result" where
  "cie_aug_data bitwidth stack cie before =
     bindE (personality_data bitwidth stack cie before) (\<lambda>(stack, offset).
     bindE (if has_flag cie CAF_FDE_LSDA
            then bindE (store_at stack offset (cie_fdeLSDAPointerEncoding cie)) (\<lambda>s. Inr (s, offset + 1))
            else Inr (stack, offset)) (\<lambda>(stack, offset).
       if has_flag cie CAF_FDE_ENC
       then bindE (store_at stack offset (cie_fdePointerEncoding cie)) (\<lambda>s. Inr (s, offset + 1))
       else Inr (stack, offset)))"

definition EH_CIE_ID :: uint where "EH_CIE_ID = 0"
definition DEBUG_CIE_ID :: uint where "DEBUG_CIE_ID = 0xffffffff"

text \<open>\<^verbatim>\<open>header.length % addressSize\<close> and the \<^verbatim>\<open>DW_CFA_nop\<close>s that fill it up.\<close>

definition padding_needed :: "uint \<Rightarrow> nat \<Rightarrow> nat result" where
  "padding_needed len addressSize =
     (if addressSize = 0 then Inl DivideByZero
      else Inr (if unat len mod addressSize \<noteq> 0 then addressSize - unat len mod addressSize else 0))"

definition buildCIERawData ::
  "nat \<Rightarrow> byte list \<Rightarrow> CIE \<Rightarrow> GrowingBuffer \<Rightarrow> CallFrameInfo \<Rightarrow> GrowingBuffer result" where
  "buildCIERawData bitwidth stack cie buf cfi =
     bindE (guardE (cie_addressSize cie < 256) AssertFail) (\<lambda>_.
     bindE (guardE (cie_segmentSize cie < 256) AssertFail) (\<lambda>_.
     bindE (uintToLEB128 (ucast (cie_codeAlign cie))) (\<lambda>codeAlign.
     bindE (intToLEB128 (ucast (cie_dataAlign cie))) (\<lambda>dataAlign.
     bindE (uintToLEB128 (ucast (cie_returnAddrRuleNum cie))) (\<lambda>returnAddrReg.
     let augmentationString = cstring (aug_string cie);
         front = 9 + length augmentationString + length codeAlign + length dataAlign + length returnAddrReg
     in
     bindE
       (if has_flag cie CAF_DATA_PRESENT then
          bindE (cie_aug_data bitwidth stack cie (ehAddress cfi + of_nat (gb_len buf) + of_nat front))
            (\<lambda>(aug, augLen).
            bindE (uintToLEB128 (of_nat augLen)) (\<lambda>augLenLEB. Inr (aug, augLen, augLenLEB)))
        else Inr (stack, 0, [])) (\<lambda>(aug, augLen, augLenLEB).
     bindE (serializeDwarfRegInstructions (cie_initialInstructions cie)) (\<lambda>raw.
     let len = of_nat (front - 4 + augLen + length augLenLEB + di_numBytes raw +
                 (if 4 \<le> cie_version cie then 2 else 0)) :: uint
     in
     bindE (padding_needed len (cie_addressSize cie)) (\<lambda>paddingNeeded.
       add_chunks buf
         ([(word_bytes 4 (len + of_nat paddingNeeded) @
              word_bytes 4 (if isEHFrame cfi then EH_CIE_ID else DEBUG_CIE_ID) @ [cie_version cie], 9),
           (augmentationString, length augmentationString)] @
          (if 4 \<le> cie_version cie
           then [([of_nat (cie_addressSize cie), of_nat (cie_segmentSize cie)], 2)] else []) @
          [(codeAlign, length codeAlign), (dataAlign, length dataAlign),
           (returnAddrReg, length returnAddrReg), (augLenLEB, length augLenLEB), (aug, augLen),
           (di_instrs raw, di_numBytes raw),
           (replicate paddingNeeded (of_nat DW_CFA_nop), paddingNeeded)])))))))))"

text \<open>
  The LSDA pointer of an FDE; \<open>lsdaPointers\<close> is the array the writer of the exception tables has
  filled, \<open>None\<close> when there was none and the pointer is indeterminate.
\<close>

definition fde_aug_data ::
  "nat \<Rightarrow> CIE \<Rightarrow> FDE \<Rightarrow> addr_t list option \<Rightarrow> addr_t \<Rightarrow> byte list result" where
  "fde_aug_data bitwidth cie fde lsdaPointers augmentationDataAddress =
     (if has_flag cie CAF_DATA_PRESENT \<and> has_flag cie CAF_FDE_LSDA \<and> fde_hasLSDAPointer fde then
        case lsdaPointers of
          None \<Rightarrow> Inl NullDeref
        | Some ptrs \<Rightarrow>
            bindE (elem_at ptrs (fde_lsdaIdx fde)) (\<lambda>p.
            bindE (encodeEHPointerFromEncoding bitwidth p (cie_fdeLSDAPointerEncoding cie)
                     augmentationDataAddress) (\<lambda>(v, n). copy_out (word_bytes 8 v) n))
      else Inr [])"

definition fde_location :: "nat \<Rightarrow> CallFrameInfo \<Rightarrow> CIE \<Rightarrow> FDE \<Rightarrow> nat \<Rightarrow> (addr_t \<times> nat) result" where
  "fde_location bitwidth cfi cie fde bufLen =
     (if isEHFrame cfi
      then encodeEHPointerFromEncoding bitwidth (scast (fde_lowpc fde)) (cie_fdePointerEncoding cie)
             (ehAddress cfi + of_nat bufLen + 8)
      else Inr (scast (fde_lowpc fde), cie_addressSize cie))"

definition buildFDERawData ::
  "nat \<Rightarrow> CallFrameInfo \<Rightarrow> FDE \<Rightarrow> uint list \<Rightarrow> addr_t list option \<Rightarrow> GrowingBuffer \<Rightarrow> GrowingBuffer result" where
  "buildFDERawData bitwidth cfi fde cieOffsets lsdaPointers buf =
     (case fde_cie fde of
        None \<Rightarrow> Inl AssertFail
      | Some cie \<Rightarrow>
     bindE (serializeDwarfRegInstructions (fde_instructions fde)) (\<lambda>raw.
     bindE (elem_at cieOffsets (cie_idx cie)) (\<lambda>cieOffset.
     let CIE_offset = (if isEHFrame cfi then of_nat (gb_len buf) - cieOffset + 4 else cieOffset) in
     bindE (fde_location bitwidth cfi cie fde (gb_len buf)) (\<lambda>(initialLocation, initialLocationByteLen).
     let addressRange = scast (fde_highpc fde - fde_lowpc fde) :: addr_t;
         addressRangeByteLen = (if isEHFrame cfi then 4 else cie_addressSize cie)
     in
     bindE (guardE (addressRangeByteLen \<le> 8) AssertFail) (\<lambda>_.
     bindE (fde_aug_data bitwidth cie fde lsdaPointers
              (ehAddress cfi + of_nat (gb_len buf) + 8 + of_nat initialLocationByteLen +
               of_nat addressRangeByteLen + 1)) (\<lambda>aug.
     bindE (if has_flag cie CAF_DATA_PRESENT then uintToLEB128 (of_nat (length aug)) else Inr []) (\<lambda>augLenLEB.
     let len = of_nat (4 + initialLocationByteLen + addressRangeByteLen + length augLenLEB +
                 length aug + di_numBytes raw) :: uint
     in
     bindE (padding_needed len (cie_addressSize cie)) (\<lambda>paddingNeeded.
       add_chunks buf
         [(word_bytes 4 (len + of_nat paddingNeeded) @ word_bytes 4 CIE_offset, 8),
          (word_bytes 8 initialLocation, initialLocationByteLen),
          (word_bytes 8 addressRange, addressRangeByteLen), (augLenLEB, length augLenLEB),
          (aug, length aug), (di_instrs raw, di_numBytes raw),
          (replicate paddingNeeded (of_nat DW_CFA_nop), paddingNeeded)]))))))))"

section \<open>What the writers append\<close>

lemma add_chunks_ok:
  "gb_wf buf \<Longrightarrow> list_all (\<lambda>(src, n). n \<le> length src) cs \<Longrightarrow>
    \<exists>buf'. add_chunks buf cs = Inr buf' \<and> gb_wf buf' \<and>
      gb_contents buf' = gb_contents buf @ concat (map (\<lambda>(src, n). take n src) cs)"
proof (induction cs arbitrary: buf)
  case Nil
  then show ?case by simp
next
  case (Cons c cs)
  obtain src n where c: "c = (src, n)" by (cases c)
  then obtain buf1 where b: "addToGrowingBuffer buf src n = Inr buf1" "gb_wf buf1"
    "gb_contents buf1 = gb_contents buf @ take n src"
    using addToGrowingBuffer_ok [OF Cons.prems(1), of n src] Cons.prems(2) by auto
  from Cons.IH [OF b(2)] Cons.prems(2) b c show ?case by auto
qed

lemma serialize_ok:
  assumes "list_all cfa_ok is" "length is \<le> 30000"
  obtains ins where "serializeDwarfRegInstructions is = Inr ins" "di_wf ins" "di_numBytes ins < 1700000000"
proof -
  obtain bs ins where b: "serialize_from no_instructions is = Inr ins" "di_wf ins" "di_contents ins = bs"
    "length bs \<le> 55100 * length is"
    using serialize_from_ok [OF assms(1) di_wf_empty] by auto
  have "di_numBytes ins = length bs" using b(2,3) by (auto simp: di_contents_def di_wf_def)
  with b assms(2) show ?thesis by (intro that [of ins]) (simp_all add: serializeDwarfRegInstructions_def)
qed

lemma intToLEB128_succeeds:
  obtains enc where "intToLEB128 v = Inr enc" "length enc \<le> 5"
proof (cases "0 \<le> sint v")
  case True
  then show ?thesis using that uint_encode_spec [of v] by (metis intToLEB128_def)
next
  case False
  obtain enc where "encodeAsLEB128 (word_bytes 4 v) True = Inr enc" "length enc \<le> num_septets 4"
    by (rule sword_encode_spec [of 4 v]) simp_all
  then show ?thesis using False that by (simp add: intToLEB128_def num_septets_def)
qed

text \<open>
  An entry of the section: its first four bytes hold the number of bytes behind them, and that
  number is a multiple of the address size.
\<close>

definition frame_entry_ok :: "nat \<Rightarrow> byte list \<Rightarrow> bool" where
  "frame_entry_ok addressSize bs \<longleftrightarrow> 4 \<le> length bs \<and> addressSize dvd length bs - 4 \<and>
     (le_word (take 4 bs) :: uint) = of_nat (length bs - 4)"

lemma padding_needed_ok:
  assumes "0 < a" "N < 2 ^ 32"
  obtains p where "padding_needed (of_nat N) a = Inr p" "a dvd N + p" "p < a"
proof -
  have u: "unat (of_nat N :: uint) = N" using assms(2) by (simp add: unsigned_of_nat take_bit_nat_eq_self)
  show ?thesis
  proof (cases "N mod a = 0")
    case True
    then show ?thesis using assms(1) u by (intro that [of 0]) (auto simp: padding_needed_def)
  next
    case False
    have l: "N mod a < a" using assms(1) by simp
    have "N + (a - N mod a) = a * (N div a) + a"
      using l mult_div_mod_eq [of a N] by linarith
    then have "a dvd N + (a - N mod a)" by simp
    then show ?thesis using False l assms(1) u by (intro that [of "a - N mod a"]) (auto simp: padding_needed_def)
  qed
qed

lemma frame_entry_okI:
  assumes "bs = word_bytes 4 (of_nat N + of_nat p :: uint) @ rest" "length rest = N + p" "a dvd N + p"
  shows "frame_entry_ok a bs"
  using assms by (simp add: frame_entry_ok_def)

definition fde_writable :: "nat \<Rightarrow> CallFrameInfo \<Rightarrow> CIE \<Rightarrow> FDE \<Rightarrow> uint list \<Rightarrow> addr_t list option \<Rightarrow> bool" where
  "fde_writable bitwidth cfi cie fde cieOffsets lsdaPointers \<longleftrightarrow>
     bitwidth \<in> {0, 32, 64} \<and> cie_addressSize cie \<in> {4, 8} \<and> cie_idx cie < length cieOffsets \<and>
     list_all cfa_ok (fde_instructions fde) \<and> length (fde_instructions fde) \<le> 30000 \<and>
     (isEHFrame cfi \<longrightarrow> eh_supported (cie_fdePointerEncoding cie)) \<and>
     (has_flag cie CAF_DATA_PRESENT \<and> has_flag cie CAF_FDE_LSDA \<and> fde_hasLSDAPointer fde \<longrightarrow>
        eh_supported (cie_fdeLSDAPointerEncoding cie) \<and>
        (\<exists>ptrs. lsdaPointers = Some ptrs \<and> fde_lsdaIdx fde < length ptrs))"

lemma fde_location_ok:
  assumes "fde_writable bitwidth cfi cie fde cieOffsets lsdaPointers"
  obtains v n where "fde_location bitwidth cfi cie fde k = Inr (v, n)" "n \<le> 8"
proof (cases "isEHFrame cfi")
  case True
  then obtain n where "n \<le> 8"
    "\<And>p loc. encodeEHPointerFromEncoding bitwidth p (cie_fdePointerEncoding cie) loc =
       Inr (p - eh_base (cie_fdePointerEncoding cie) loc, n)"
    using eh_codec [of "cie_fdePointerEncoding cie" bitwidth] assms unfolding fde_writable_def by metis
  then show ?thesis using True that by (simp add: fde_location_def)
next
  case False
  then show ?thesis using that assms by (auto simp: fde_location_def fde_writable_def)
qed

lemma fde_aug_data_ok:
  assumes "fde_writable bitwidth cfi cie fde cieOffsets lsdaPointers"
  obtains aug where "fde_aug_data bitwidth cie fde lsdaPointers loc = Inr aug" "length aug \<le> 8"
proof (cases "has_flag cie CAF_DATA_PRESENT \<and> has_flag cie CAF_FDE_LSDA \<and> fde_hasLSDAPointer fde")
  case True
  then obtain ptrs where p: "lsdaPointers = Some ptrs" "fde_lsdaIdx fde < length ptrs"
    "eh_supported (cie_fdeLSDAPointerEncoding cie)" "bitwidth \<in> {0, 32, 64}"
    using assms by (auto simp: fde_writable_def)
  then obtain n where "n \<le> 8"
    "\<And>p loc. encodeEHPointerFromEncoding bitwidth p (cie_fdeLSDAPointerEncoding cie) loc =
       Inr (p - eh_base (cie_fdeLSDAPointerEncoding cie) loc, n)"
    using eh_codec [of "cie_fdeLSDAPointerEncoding cie" bitwidth] by metis
  then show ?thesis using True that p by (simp add: fde_aug_data_def)
next
  case False
  then show ?thesis using that [of "[]"] by (auto simp: fde_aug_data_def)
qed

lemma fde_entry:
  assumes "gb_wf buf" "fde_cie fde = Some cie"
    and "fde_writable bitwidth cfi cie fde cieOffsets lsdaPointers"
  shows "\<exists>buf' bs. buildFDERawData bitwidth cfi fde cieOffsets lsdaPointers buf = Inr buf' \<and> gb_wf buf' \<and>
    gb_contents buf' = gb_contents buf @ bs \<and> frame_entry_ok (cie_addressSize cie) bs \<and>
    le_word (take 4 (drop 4 bs)) =
      (if isEHFrame cfi then of_nat (gb_len buf) + 4 - cieOffsets ! cie_idx cie
       else cieOffsets ! cie_idx cie)"
proof -
  let ?a = "cie_addressSize cie"
  have a: "0 < ?a" "?a \<le> 8" "cie_idx cie < length cieOffsets" using assms(3) by (auto simp: fde_writable_def)
  obtain raw where raw: "serializeDwarfRegInstructions (fde_instructions fde) = Inr raw" "di_wf raw"
    "di_numBytes raw < 1700000000"
    using serialize_ok [of "fde_instructions fde"] assms(3) unfolding fde_writable_def by metis
  obtain v n where loc: "fde_location bitwidth cfi cie fde (gb_len buf) = Inr (v, n)" "n \<le> 8"
    by (rule fde_location_ok [OF assms(3)])
  define r where "r = (if isEHFrame cfi then 4 else ?a)"
  have r: "r \<le> 8" using a by (simp add: r_def)
  obtain aug where aug: "fde_aug_data bitwidth cie fde lsdaPointers
      (ehAddress cfi + of_nat (gb_len buf) + 8 + of_nat n + of_nat r + 1) = Inr aug" "length aug \<le> 8"
    by (rule fde_aug_data_ok [OF assms(3)])
  obtain leb where leb: "(if has_flag cie CAF_DATA_PRESENT then uintToLEB128 (of_nat (length aug))
      else Inr []) = Inr leb" "length leb \<le> 5"
    by (cases "has_flag cie CAF_DATA_PRESENT") (simp_all, metis uint_encode_spec)
  define N where "N = 4 + n + r + length leb + length aug + di_numBytes raw"
  have N: "N < 2 ^ 32" using loc(2) r leb(2) aug(2) raw(3) by (simp add: N_def)
  obtain p where p: "padding_needed (of_nat N) ?a = Inr p" "?a dvd N + p"
    by (rule padding_needed_ok [OF a(1) N])
  define off where "off = (if isEHFrame cfi then of_nat (gb_len buf) - cieOffsets ! cie_idx cie + 4
    else cieOffsets ! cie_idx cie)"
  define cs where "cs = [(word_bytes 4 (of_nat N + of_nat p :: uint) @ word_bytes 4 off, 8),
    (word_bytes 8 v, n), (word_bytes 8 (scast (fde_highpc fde - fde_lowpc fde) :: addr_t), r),
    (leb, length leb), (aug, length aug), (di_instrs raw, di_numBytes raw),
    (replicate p (of_nat DW_CFA_nop :: byte), p)]"
  have ins: "di_numBytes raw \<le> length (di_instrs raw)" using raw(2) by (simp add: di_wf_def)
  then have cs: "list_all (\<lambda>(src, n). n \<le> length src) cs" using loc(2) r by (simp add: cs_def)
  obtain buf' where buf': "add_chunks buf cs = Inr buf'" "gb_wf buf'"
    "gb_contents buf' = gb_contents buf @ concat (map (\<lambda>(src, n). take n src) cs)"
    using add_chunks_ok [OF assms(1) cs] by blast
  let ?bs = "concat (map (\<lambda>(src, n). take n src) cs)"
  have "buildFDERawData bitwidth cfi fde cieOffsets lsdaPointers buf = Inr buf'"
    using assms(2) raw(1) a(3) loc(1) r leb(1) p(1) aug(1) buf'(1)
    unfolding buildFDERawData_def Let_def N_def cs_def off_def r_def
    by (simp del: of_nat_add of_nat_Suc)
  moreover have "frame_entry_ok ?a ?bs"
  proof (rule frame_entry_okI [OF _ _ p(2)])
    show "?bs = word_bytes 4 (of_nat N + of_nat p :: uint) @ word_bytes 4 off @
        concat (map (\<lambda>(src, n). take n src) (tl cs))"
      by (simp add: cs_def)
    show "length (word_bytes 4 off @ concat (map (\<lambda>(src, n). take n src) (tl cs))) = N + p"
      using loc(2) r ins by (simp add: cs_def N_def)
  qed
  moreover have "le_word (take 4 (drop 4 ?bs)) = off" by (simp add: cs_def)
  ultimately show ?thesis using buf' by (auto simp: off_def algebra_simps)
qed

text \<open>
  C11: \<^verbatim>\<open>buildFDERawData\<close> appends one well-formed entry and changes nothing before it: the length
  field is the number of bytes that follow it, padded to the address size, and the second field is
  the CIE's offset in \<^verbatim>\<open>.debug_frame\<close> and, in \<^verbatim>\<open>.eh_frame\<close>, the distance from the field itself
  back to the CIE.
\<close>

theorem buildFDERawData_entry:
  assumes "gb_wf buf" "fde_cie fde = Some cie"
    and "fde_writable bitwidth cfi cie fde cieOffsets lsdaPointers"
  shows "\<exists>buf' bs. buildFDERawData bitwidth cfi fde cieOffsets lsdaPointers buf = Inr buf' \<and> gb_wf buf' \<and>
    gb_contents buf' = gb_contents buf @ bs \<and> frame_entry_ok (cie_addressSize cie) bs \<and>
    le_word (take 4 (drop 4 bs)) =
      (if isEHFrame cfi then of_nat (gb_len buf) + 4 - cieOffsets ! cie_idx cie
       else cieOffsets ! cie_idx cie)"
  using assms by (rule fde_entry)

definition sample_cie :: CIE where
  "sample_cie = \<lparr>cie_initialInstructions = [(with_reg DW_CFA_def_cfa (basic_reg 7))\<lparr>ri_arg2 := 8\<rparr>],
     cie_dataAlign = - 8, cie_codeAlign = 1, cie_returnAddrRuleNum = 16, cie_idx = 0, cie_version = 1,
     cie_addressSize = 8, cie_segmentSize = 0, cie_augmentationFlags = 11,
     cie_fdePointerEncoding = 0x1B, cie_fdeLSDAPointerEncoding = 0, cie_personalityPointerEncoding = 3,
     cie_personalityFunction = 0x400500\<rparr>"

definition sample_fde :: FDE where
  "sample_fde = \<lparr>fde_cie = Some sample_cie, fde_instructions = [low_inst DW_CFA_advance_loc 4],
     fde_memSize = 0, fde_lowpc = 0x400000, fde_highpc = 0x400010, fde_offset = 0, fde_idx = 0,
     fde_hasLSDAPointer = False, fde_lsdaIdx = 0\<rparr>"

definition sample_cfi :: CallFrameInfo where
  "sample_cfi = \<lparr>cfi_fdes = [sample_fde], cfi_cies = [sample_cie], isEHFrame = True,
     ehAddress = 0x401000, ehHdrAddress = 0x400F00, exceptTableAddress = 0, hdrTableEncoding = 0x3B,
     exceptTable = None\<rparr>"

lemma sample_cfa_ok:
  "cfa_ok ((with_reg DW_CFA_def_cfa (basic_reg 7))\<lparr>ri_arg2 := 8\<rparr>)" "cfa_ok (low_inst DW_CFA_advance_loc 4)"
proof -
  show "cfa_ok ((with_reg DW_CFA_def_cfa (basic_reg 7))\<lparr>ri_arg2 := 8\<rparr>)"
    by (rule cfa_ok.def_cfa) (simp_all add: reg_ok_def basic_reg_def ERT_PO_START_num_def)
  show "cfa_ok (low_inst DW_CFA_advance_loc 4)" by (rule cfa_ok.low) simp_all
qed

lemma sample_encodings: "eh_supported 0x1B" "eh_supported 3"
  by (simp_all add: eh_supported_def eh_format_def eh_application_def)

lemma sample_fde_writable: "fde_writable 64 sample_cfi sample_cie sample_fde [0] None"
  using sample_cfa_ok(2) sample_encodings(1)
  by (simp add: fde_writable_def sample_cfi_def sample_cie_def sample_fde_def)

theorem buildFDERawData_entry_witness:
  "\<exists>buf' bs. buildFDERawData 64 sample_cfi sample_fde [0] None empty_buffer = Inr buf' \<and> gb_wf buf' \<and>
    gb_contents buf' = gb_contents empty_buffer @ bs \<and> frame_entry_ok (cie_addressSize sample_cie) bs \<and>
    le_word (take 4 (drop 4 bs)) =
      (if isEHFrame sample_cfi then of_nat (gb_len empty_buffer) + 4 - [0] ! cie_idx sample_cie
       else [0] ! cie_idx sample_cie :: uint)"
  by (rule buildFDERawData_entry [OF _ _ sample_fde_writable]) (simp_all add: sample_fde_def)

definition cie_writable :: "nat \<Rightarrow> CIE \<Rightarrow> bool" where
  "cie_writable bitwidth cie \<longleftrightarrow>
     bitwidth \<in> {0, 32, 64} \<and> cie_addressSize cie \<in> {4, 8} \<and> cie_segmentSize cie < 256 \<and>
     list_all cfa_ok (cie_initialInstructions cie) \<and> length (cie_initialInstructions cie) \<le> 30000 \<and>
     (has_flag cie CAF_PERSONALITY \<longrightarrow> eh_supported (cie_personalityPointerEncoding cie))"

lemma write_bytes_ok:
  "off + length bs \<le> length mem \<Longrightarrow> \<exists>mem'. write_bytes mem off bs = Inr mem' \<and> length mem' = length mem"
  using write_bytes_in [of off bs mem] by auto

lemma personality_data_ok:
  assumes "cie_writable bitwidth cie" "length stack = 32"
  obtains stack' off where "personality_data bitwidth stack cie before = Inr (stack', off)"
    "length stack' = 32" "off \<le> 9"
proof (cases "has_flag cie CAF_PERSONALITY \<and> cie_personalityFunction cie AND 0xFFFFFFFF00000000 = 0")
  case True
  then obtain n where n: "n \<le> 8"
    "\<And>p loc. encodeEHPointerFromEncoding bitwidth p (cie_personalityPointerEncoding cie) loc =
       Inr (p - eh_base (cie_personalityPointerEncoding cie) loc, n)"
    using eh_codec [of "cie_personalityPointerEncoding cie" bitwidth] assms(1)
    unfolding cie_writable_def by metis
  obtain m where "write_bytes (stack[0 := cie_personalityPointerEncoding cie]) 1 (word_bytes n
      (cie_personalityFunction cie - eh_base (cie_personalityPointerEncoding cie) (before + 1))) = Inr m"
      "length m = 32"
    using write_bytes_ok [of 1 "word_bytes n (cie_personalityFunction cie -
        eh_base (cie_personalityPointerEncoding cie) (before + 1))"
        "stack[0 := cie_personalityPointerEncoding cie]"] n(1) assms(2) by auto
  then show ?thesis
    using True n assms(2) by (intro that [of m "1 + n"])
      (simp_all add: personality_data_def take_word_bytes del: One_nat_def)
next
  case False
  obtain m where "write_bytes (stack[0 := of_nat DW_EH_PE_udata8]) 1
      (word_bytes 4 (cie_personalityFunction cie)) = Inr m" "length m = 32"
    using write_bytes_ok [of 1 "word_bytes 4 (cie_personalityFunction cie)"
        "stack[0 := of_nat DW_EH_PE_udata8]"] assms(2) by auto
  with False assms(2) show ?thesis
    by (cases "has_flag cie CAF_PERSONALITY")
      (auto intro: that simp: personality_data_def simp del: One_nat_def)
qed

lemma cie_aug_data_ok:
  assumes "cie_writable bitwidth cie" "length stack = 32"
  obtains aug n where "cie_aug_data bitwidth stack cie before = Inr (aug, n)" "n \<le> length aug" "n \<le> 11"
proof -
  obtain s off where s: "personality_data bitwidth stack cie before = Inr (s, off)" "length s = 32" "off \<le> 9"
    by (rule personality_data_ok [OF assms])
  define s1 where "s1 = (if has_flag cie CAF_FDE_LSDA then s[off := cie_fdeLSDAPointerEncoding cie] else s)"
  define off1 where "off1 = (if has_flag cie CAF_FDE_LSDA then off + 1 else off)"
  define s2 where "s2 = (if has_flag cie CAF_FDE_ENC then s1[off1 := cie_fdePointerEncoding cie] else s1)"
  define off2 where "off2 = (if has_flag cie CAF_FDE_ENC then off1 + 1 else off1)"
  have l: "length s2 = 32" "off1 \<le> 10" "off2 \<le> 11" using s by (simp_all add: s1_def s2_def off1_def off2_def)
  have "cie_aug_data bitwidth stack cie before = Inr (s2, off2)"
    using s l by (simp add: cie_aug_data_def s1_def s2_def off1_def off2_def)
  with l show ?thesis by (intro that [of s2 off2]) simp_all
qed

lemma cie_entry:
  assumes "gb_wf buf" "cie_writable bitwidth cie" "length stack = 32"
  shows "\<exists>buf' bs. buildCIERawData bitwidth stack cie buf cfi = Inr buf' \<and> gb_wf buf' \<and>
    gb_contents buf' = gb_contents buf @ bs \<and> frame_entry_ok (cie_addressSize cie) bs \<and>
    le_word (take 4 (drop 4 bs)) = (if isEHFrame cfi then EH_CIE_ID else DEBUG_CIE_ID) \<and>
    bs ! 8 = cie_version cie"
proof -
  let ?a = "cie_addressSize cie" and ?v4 = "4 \<le> cie_version cie"
  have a: "0 < ?a" "?a < 256" "cie_segmentSize cie < 256" using assms(2) by (auto simp: cie_writable_def)
  obtain code where code: "uintToLEB128 (ucast (cie_codeAlign cie)) = Inr code" "length code \<le> 5"
    by (rule uint_encode_spec)
  obtain dat where dat: "intToLEB128 (ucast (cie_dataAlign cie)) = Inr dat" "length dat \<le> 5"
    by (rule intToLEB128_succeeds)
  obtain ret where ret: "uintToLEB128 (ucast (cie_returnAddrRuleNum cie)) = Inr ret" "length ret \<le> 5"
    by (rule uint_encode_spec)
  define str where "str = cstring (aug_string cie)"
  have str: "length str \<le> 5" by (simp add: str_def cstring_def aug_string_def)
  define front where "front = 9 + length str + length code + length dat + length ret"
  obtain aug n leb where aug: "(if has_flag cie CAF_DATA_PRESENT then
          bindE (cie_aug_data bitwidth stack cie (ehAddress cfi + of_nat (gb_len buf) + of_nat front))
            (\<lambda>(aug, augLen).
            bindE (uintToLEB128 (of_nat augLen)) (\<lambda>augLenLEB. Inr (aug, augLen, augLenLEB)))
        else Inr (stack, 0, [])) = Inr (aug, n, leb)" "n \<le> length aug" "n \<le> 11" "length leb \<le> 5"
  proof (cases "has_flag cie CAF_DATA_PRESENT")
    case True
    obtain aug n where c: "cie_aug_data bitwidth stack cie (ehAddress cfi + of_nat (gb_len buf) + of_nat front) =
        Inr (aug, n)" "n \<le> length aug" "n \<le> 11"
      by (rule cie_aug_data_ok [OF assms(2,3)])
    obtain leb where "uintToLEB128 (of_nat n) = Inr leb" "length leb \<le> 5" by (rule uint_encode_spec)
    with c True show ?thesis by (intro that [of aug n leb]) simp_all
  next
    case False
    then show ?thesis by (intro that [of stack 0 "[]"]) simp_all
  qed
  obtain raw where raw: "serializeDwarfRegInstructions (cie_initialInstructions cie) = Inr raw" "di_wf raw"
    "di_numBytes raw < 1700000000"
    using serialize_ok [of "cie_initialInstructions cie"] assms(2) unfolding cie_writable_def by metis
  define N where "N = front - 4 + n + length leb + di_numBytes raw + (if ?v4 then 2 else 0)"
  have N: "N < 2 ^ 32" using str code(2) dat(2) ret(2) aug(3,4) raw(3) by (simp add: N_def front_def)
  obtain p where p: "padding_needed (of_nat N) ?a = Inr p" "?a dvd N + p"
    by (rule padding_needed_ok [OF a(1) N])
  define id where "id = (if isEHFrame cfi then EH_CIE_ID else DEBUG_CIE_ID)"
  define cs where "cs = [(word_bytes 4 (of_nat N + of_nat p :: uint) @ word_bytes 4 id @ [cie_version cie], 9),
           (str, length str)] @
          (if ?v4 then [([of_nat ?a, of_nat (cie_segmentSize cie)], 2)] else []) @
          [(code, length code), (dat, length dat), (ret, length ret), (leb, length leb), (aug, n),
           (di_instrs raw, di_numBytes raw), (replicate p (of_nat DW_CFA_nop :: byte), p)]"
  have ins: "di_numBytes raw \<le> length (di_instrs raw)" using raw(2) by (simp add: di_wf_def)
  then have cs: "list_all (\<lambda>(src, n). n \<le> length src) cs" using aug(2) by (simp add: cs_def)
  obtain buf' where buf': "add_chunks buf cs = Inr buf'" "gb_wf buf'"
    "gb_contents buf' = gb_contents buf @ concat (map (\<lambda>(src, n). take n src) cs)"
    using add_chunks_ok [OF assms(1) cs] by blast
  let ?bs = "concat (map (\<lambda>(src, n). take n src) cs)"
  have "buildCIERawData bitwidth stack cie buf cfi = Inr buf'"
    using a code(1) dat(1) ret(1) aug(1) raw(1) p(1) buf'(1)
    unfolding buildCIERawData_def Let_def N_def cs_def id_def front_def str_def
    by (simp del: of_nat_add of_nat_Suc)
  moreover have "frame_entry_ok ?a ?bs"
  proof (rule frame_entry_okI [OF _ _ p(2)])
    show "?bs = word_bytes 4 (of_nat N + of_nat p :: uint) @
        (word_bytes 4 id @ [cie_version cie] @ concat (map (\<lambda>(src, n). take n src) (tl cs)))"
      by (simp add: cs_def)
    show "length (word_bytes 4 id @ [cie_version cie] @
        concat (map (\<lambda>(src, n). take n src) (tl cs))) = N + p"
      using aug(2) ins by (simp add: cs_def N_def front_def)
  qed
  moreover have "le_word (take 4 (drop 4 ?bs)) = id" by (simp add: cs_def)
  moreover have "?bs ! 8 = cie_version cie" by (simp add: cs_def nth_append)
  ultimately show ?thesis using buf' by (auto simp: id_def)
qed

text \<open>
  C12: \<^verbatim>\<open>buildCIERawData\<close> appends one well-formed entry, aligned to the address size, with the CIE
  id of the section's kind and the version in place, whatever the uninitialised bytes of its
  augmentation buffer are.
\<close>

theorem buildCIERawData_entry:
  assumes "gb_wf buf" "cie_writable bitwidth cie" "length stack = 32"
  shows "\<exists>buf' bs. buildCIERawData bitwidth stack cie buf cfi = Inr buf' \<and> gb_wf buf' \<and>
    gb_contents buf' = gb_contents buf @ bs \<and> frame_entry_ok (cie_addressSize cie) bs \<and>
    le_word (take 4 (drop 4 bs)) = (if isEHFrame cfi then EH_CIE_ID else DEBUG_CIE_ID) \<and>
    bs ! 8 = cie_version cie"
  using assms by (rule cie_entry)

lemma sample_cie_writable: "cie_writable 64 sample_cie"
  using sample_cfa_ok(1) sample_encodings(2) by (simp add: cie_writable_def sample_cie_def)

theorem buildCIERawData_entry_witness:
  "\<exists>buf' bs. buildCIERawData 64 (replicate 32 0xCC) sample_cie empty_buffer sample_cfi = Inr buf' \<and> gb_wf buf' \<and>
    gb_contents buf' = gb_contents empty_buffer @ bs \<and> frame_entry_ok (cie_addressSize sample_cie) bs \<and>
    le_word (take 4 (drop 4 bs)) = (if isEHFrame sample_cfi then EH_CIE_ID else DEBUG_CIE_ID) \<and>
    bs ! 8 = cie_version sample_cie"
  by (rule buildCIERawData_entry [OF gb_wf_empty sample_cie_writable]) simp

end
