(* ===== verification/Except_Table.thy ===== *)
theory Except_Table
  imports Call_Frame
begin

text \<open>
  \<^verbatim>\<open>src/src/exceptTable.c\<close>: the writer and the reader of \<^verbatim>\<open>.gcc_except_table\<close>.  The reader works on
  the bytes \<open>data\<close> of the section; a cursor \<^verbatim>\<open>bytes\<close> that the source keeps beside the \<^verbatim>\<open>offset\<close> is
  the rest of \<open>data\<close> from that offset.
\<close>

section \<open>Writing\<close>

text \<open>What is missing to a multiple of four.\<close>

definition misalignment :: "nat \<Rightarrow> nat" where
  "misalignment n = (if n mod 4 \<noteq> 0 then 4 - n mod 4 else 0)"

definition align_buffer :: "GrowingBuffer \<Rightarrow> nat \<Rightarrow> GrowingBuffer result" where
  "align_buffer buf n =
     (if n \<noteq> 0 then addToGrowingBuffer buf (word_bytes 8 (0 :: word_t)) n else Inr buf)"

text \<open>
  The loop \<^verbatim>\<open>while(true)\<close> along one chain of actions; the state is \<^verbatim>\<open>actionIdxToOffset\<close> and
  \<^verbatim>\<open>actionBuf\<close>.
\<close>

fun write_chain ::
  "nat \<Rightarrow> ActionRecord list \<Rightarrow> nat \<Rightarrow> addr_t list \<times> GrowingBuffer \<Rightarrow> (addr_t list \<times> GrowingBuffer) result" where
  "write_chain 0 actions idx st = Inl Diverges"
| "write_chain (Suc fuel) actions idx (offs, buf) =
     bindE (store_at offs idx (of_nat (gb_len buf))) (\<lambda>offs.
     bindE (elem_at actions idx) (\<lambda>action.
     bindE (addUlebToGrowingBuffer buf (scast (typeFilterIndex action + 1))) (\<lambda>buf.
       if hasNextAction action then
         bindE (elem_at offs (unat (nextAction action))) (\<lambda>next.
           if next \<noteq> 0 \<or> nextAction action = 0 then
             bindE (addSlebToGrowingBuffer buf (next - of_nat (gb_len buf))) (\<lambda>buf. Inr (offs, buf))
           else
             bindE (addToGrowingBuffer buf [1] 1) (\<lambda>buf.
               write_chain fuel actions (unat (nextAction action)) (offs, buf)))
       else bindE (addToGrowingBuffer buf [0] 1) (\<lambda>buf. Inr (offs, buf)))))"

fun write_actions ::
  "ActionRecord list \<Rightarrow> nat list \<Rightarrow> addr_t list \<times> GrowingBuffer \<Rightarrow> (addr_t list \<times> GrowingBuffer) result" where
  "write_actions actions [] st = Inr st"
| "write_actions actions (j # js) (offs, buf) =
     bindE (elem_at offs j) (\<lambda>off.
       if off \<noteq> 0 then write_actions actions js (offs, buf)
       else bindE (write_chain (length actions) actions j (offs, buf)) (write_actions actions js))"

definition write_call_site ::
  "addr_t list \<Rightarrow> nat \<Rightarrow> CallSiteRecord \<Rightarrow> GrowingBuffer \<Rightarrow> GrowingBuffer result" where
  "write_call_site actionIdxToOffset numActionEntries callSite buf =
     bindE (addUlebToGrowingBuffer buf (cs_position callSite)) (\<lambda>buf.
     bindE (addUlebToGrowingBuffer buf (cs_length callSite)) (\<lambda>buf.
     bindE (addUlebToGrowingBuffer buf (cs_landingPadPosition callSite)) (\<lambda>buf.
       if cs_hasAction callSite then
         bindE (guardE (unat (cs_firstAction callSite) < numActionEntries) Death) (\<lambda>_.
         bindE (elem_at actionIdxToOffset (unat (cs_firstAction callSite))) (\<lambda>off.
           addUlebToGrowingBuffer buf (1 + off)))
       else addToGrowingBuffer buf [0] 1)))"

fun write_call_sites ::
  "addr_t list \<Rightarrow> nat \<Rightarrow> CallSiteRecord list \<Rightarrow> GrowingBuffer \<Rightarrow> GrowingBuffer result" where
  "write_call_sites offs n [] buf = Inr buf"
| "write_call_sites offs n (c # cs) buf = bindE (write_call_site offs n c buf) (write_call_sites offs n cs)"

text \<open>Is there a septet below the top of which adding three stays within the same length?\<close>

definition wiggle_room :: "byte list \<Rightarrow> bool" where
  "wiggle_room leb \<longleftrightarrow>
     list_ex (\<lambda>idx. (leb ! idx AND 0x7F \<noteq> 0x7F \<and> 0 < idx) \<or> leb ! idx AND 0x70 \<noteq> 0x70) [0..<length leb]"

text \<open>
  The offset of the end of the type table: \<open>before\<close> bytes of the LSDA are written, \<open>between\<close> bytes
  follow up to the end of the action table.  The result is the LEB, the number of its bytes to write
  and the padding in front of the type table.
\<close>

definition tt_base_field :: "nat \<Rightarrow> nat \<Rightarrow> nat \<Rightarrow> (byte list \<times> nat \<times> nat) result" where
  "tt_base_field before between ttSize =
     bindE (encodeAsLEB128 (word_bytes 8 (of_nat (between + ttSize) :: addr_t)) False) (\<lambda>guessLEB.
     let numBytes = (if wiggle_room guessLEB then length guessLEB else length guessLEB + 1);
         mis = misalignment (before + numBytes + between);
         ttTop = before + numBytes + between + mis;
         ttBaseOffset = ttTop + ttSize - before - numBytes
     in
     bindE (encodeAsLEB128 (word_bytes 8 (of_nat ttBaseOffset :: addr_t)) False) (\<lambda>leb.
       if length leb < numBytes then
         bindE (guardE (numBytes - length leb = 1) AssertFail) (\<lambda>_.
         bindE (elem_at leb (numBytes - 2)) (\<lambda>b.
           Inr (leb[numBytes - 2 := b OR 0x80] @ [0], numBytes, mis)))
       else Inr (leb, numBytes, mis)))"

fun write_types ::
  "nat \<Rightarrow> addr_t \<Rightarrow> LSDA \<Rightarrow> nat \<Rightarrow> nat \<Rightarrow> GrowingBuffer \<Rightarrow> GrowingBuffer result" where
  "write_types bitwidth exceptTableAddr lsda ttEntrySize 0 buf = Inr buf"
| "write_types bitwidth exceptTableAddr lsda ttEntrySize (Suc j) buf =
     bindE (elem_at (typeTable lsda) j) (\<lambda>t.
     bindE (encodeEHPointerFromEncoding bitwidth t (ttEncoding lsda)
              (exceptTableAddr + of_nat (gb_len buf) + of_nat (j * ttEntrySize))) (\<lambda>(typeinfo, numBytesOut).
     bindE (guardE (numBytesOut = ttEntrySize) AssertFail) (\<lambda>_.
     bindE (addToGrowingBuffer buf (word_bytes 8 typeinfo) ttEntrySize) (\<lambda>buf.
       write_types bitwidth exceptTableAddr lsda ttEntrySize j buf))))"

definition write_header :: "LSDA \<Rightarrow> GrowingBuffer \<Rightarrow> GrowingBuffer result" where
  "write_header lsda buf =
     bindE
       (if lpStart lsda \<noteq> 0 then
          bindE (addToGrowingBuffer buf [of_nat DW_EH_PE_uleb128] 1) (\<lambda>buf.
            addUlebToGrowingBuffer buf (lpStart lsda))
        else addToGrowingBuffer buf [DW_EH_PE_omit] 1) (\<lambda>buf.
     addToGrowingBuffer buf [ttEncoding lsda] 1)"

definition write_lsda :: "nat \<Rightarrow> addr_t \<Rightarrow> LSDA \<Rightarrow> GrowingBuffer \<Rightarrow> GrowingBuffer result" where
  "write_lsda bitwidth exceptTableAddr lsda buf =
     (let lsdaStartOffset = gb_len buf in
      bindE (write_header lsda buf) (\<lambda>buf.
      let numActionEntries = length (actionTable lsda) in
      bindE (write_actions (actionTable lsda) [0..<numActionEntries]
               (replicate numActionEntries 0, empty_buffer)) (\<lambda>(actionIdxToOffset, actionBuf).
      bindE (write_call_sites actionIdxToOffset numActionEntries (callSiteTable lsda) empty_buffer)
        (\<lambda>callSiteBuf.
      bindE (getPointerSizeFromEHPointerEncoding bitwidth (ttEncoding lsda)) (\<lambda>ttEntrySize.
      let ttSize = ttEntrySize * length (typeTable lsda) in
      bindE (encodeAsLEB128 (word_bytes 4 (of_nat (gb_len callSiteBuf) :: uint)) False)
        (\<lambda>callSiteLengthLEB.
      bindE (tt_base_field (gb_len buf - lsdaStartOffset)
               (1 + length callSiteLengthLEB + gb_len callSiteBuf + gb_len actionBuf) ttSize)
        (\<lambda>(ttBaseOffsetLEB, ttBaseOffsetNumBytes, mis).
      bindE (if ttEncoding lsda \<noteq> DW_EH_PE_omit
             then addToGrowingBuffer buf ttBaseOffsetLEB ttBaseOffsetNumBytes else Inr buf) (\<lambda>buf.
      bindE (addToGrowingBuffer buf [of_nat DW_EH_PE_uleb128] 1) (\<lambda>buf.
      bindE (addToGrowingBuffer buf callSiteLengthLEB (length callSiteLengthLEB)) (\<lambda>buf.
      bindE (addToGrowingBuffer buf (gb_data callSiteBuf) (gb_len callSiteBuf)) (\<lambda>buf.
      bindE (addToGrowingBuffer buf (gb_data actionBuf) (gb_len actionBuf)) (\<lambda>buf.
        if ttEncoding lsda \<noteq> DW_EH_PE_omit then
          bindE (align_buffer buf mis) (\<lambda>buf.
            write_types bitwidth exceptTableAddr lsda ttEntrySize (length (typeTable lsda)) buf)
        else Inr buf))))))))))))"

text \<open>The loop over the LSDAs; it collects the addresses they are written at.\<close>

fun write_lsdas ::
  "nat \<Rightarrow> addr_t \<Rightarrow> LSDA list \<Rightarrow> GrowingBuffer \<Rightarrow> (GrowingBuffer \<times> addr_t list) result" where
  "write_lsdas bitwidth exceptTableAddr [] buf = Inr (buf, [])"
| "write_lsdas bitwidth exceptTableAddr (l # ls) buf =
     bindE (align_buffer buf (misalignment (gb_len buf))) (\<lambda>buf.
     bindE (guardE (gb_len buf mod 4 = 0) AssertFail) (\<lambda>_.
     let lsdaPointer = exceptTableAddr + of_nat (gb_len buf) in
     bindE (write_lsda bitwidth exceptTableAddr l buf) (\<lambda>buf.
     bindE (write_lsdas bitwidth exceptTableAddr ls buf) (\<lambda>(buf, lsdaPointers).
       Inr (buf, lsdaPointer # lsdaPointers)))))"

definition buildExceptTableRawData ::
  "nat \<Rightarrow> CallFrameInfo \<Rightarrow> GrowingBuffer \<Rightarrow> (GrowingBuffer \<times> addr_t list) result" where
  "buildExceptTableRawData bitwidth cfi buf =
     (case exceptTable cfi of
        None \<Rightarrow> Inl AssertFail
      | Some lsdas \<Rightarrow> write_lsdas bitwidth (exceptTableAddress cfi) lsdas buf)"

section \<open>Reading\<close>

definition read_ptr :: "nat \<Rightarrow> byte list \<Rightarrow> addr_t \<Rightarrow> byte \<Rightarrow> nat \<Rightarrow> (addr_t \<times> nat) result" where
  "read_ptr bitwidth data sectionAddress fmt pos =
     decodeEHPointer bitwidth (drop pos data) (length data - pos) (sectionAddress + of_nat pos) fmt"

text \<open>\<^verbatim>\<open>firstAction\<close> is, until the action table is read, an offset into it.\<close>

definition read_call_site ::
  "nat \<Rightarrow> byte list \<Rightarrow> addr_t \<Rightarrow> byte \<Rightarrow> nat \<Rightarrow> (CallSiteRecord \<times> nat) result" where
  "read_call_site bitwidth data sectionAddress fmt pos =
     bindE (read_ptr bitwidth data sectionAddress fmt pos) (\<lambda>(position, n1).
     bindE (read_ptr bitwidth data sectionAddress fmt (pos + n1)) (\<lambda>(len, n2).
     bindE (read_ptr bitwidth data sectionAddress fmt (pos + n1 + n2)) (\<lambda>(landingPad, n3).
     bindE (read_ptr bitwidth data sectionAddress fmt (pos + n1 + n2 + n3)) (\<lambda>(action, n4).
       Inr (\<lparr>cs_position = position, cs_length = len, cs_landingPadPosition = landingPad,
              cs_firstAction = action - 1, cs_hasAction = (action \<noteq> 0)\<rparr>, n1 + n2 + n3 + n4)))))"

fun read_call_sites ::
  "nat \<Rightarrow> nat \<Rightarrow> byte list \<Rightarrow> addr_t \<Rightarrow> byte \<Rightarrow> nat \<Rightarrow> word_t \<Rightarrow> nat \<Rightarrow> (CallSiteRecord list \<times> nat) result" where
  "read_call_sites fuel bitwidth data sectionAddress fmt offset callSiteTableSize i =
     (if \<not> i < unat callSiteTableSize then Inr ([], i)
      else case fuel of
        0 \<Rightarrow> Inl Diverges
      | Suc fuel' \<Rightarrow>
          bindE (guardE (offset + i \<le> length data) Death) (\<lambda>_.
          bindE (read_call_site bitwidth data sectionAddress fmt (offset + i)) (\<lambda>(callSite, n).
          bindE (guardE (i + n \<le> unat callSiteTableSize) Death) (\<lambda>_.
          bindE (read_call_sites fuel' bitwidth data sectionAddress fmt offset callSiteTableSize (i + n))
            (\<lambda>(callSites, i'). Inr (callSite # callSites, i'))))))"

declare read_call_sites.simps [simp del]

text \<open>A round that takes no byte off would be repeated for ever, so the fuel is what can be taken.\<close>

definition readCallSiteTable ::
  "nat \<Rightarrow> byte list \<Rightarrow> addr_t \<Rightarrow> byte \<Rightarrow> nat \<Rightarrow> word_t \<Rightarrow> (CallSiteRecord list \<times> nat) result" where
  "readCallSiteTable bitwidth data sectionAddress fmt offset callSiteTableSize =
     bindE (read_call_sites (unat callSiteTableSize) bitwidth data sectionAddress fmt offset
              callSiteTableSize 0) (\<lambda>(callSites, i).
     bindE (guardE (offset + i \<le> length data) Death) (\<lambda>_. Inr (callSites, i)))"

definition TYPE_IDX_MATCH_ALL :: "32 word" where "TYPE_IDX_MATCH_ALL = - 1"

text \<open>
  What reading the action table works on: \<^verbatim>\<open>actionOffsets\<close>, \<^verbatim>\<open>lsda->actionTable\<close> and
  \<^verbatim>\<open>highestActionOffset\<close>.
\<close>

type_synonym action_state = "addr_t list \<times> ActionRecord list \<times> addr_t"

text \<open>
  The action at \<open>actionOffset\<close>, not read before.  The result is its index, whether the chain goes
  on, the offset of the next action and the state.
\<close>

definition read_action ::
  "byte list \<Rightarrow> nat \<Rightarrow> addr_t \<Rightarrow> action_state \<Rightarrow> (nat \<times> bool \<times> addr_t \<times> action_state) result" where
  "read_action data offset actionOffset st =
     (case st of (actionOffsets, actions, highestActionOffset) \<Rightarrow>
     let bytes = drop (unat (of_nat offset + actionOffset)) data in
     bindE (leb128ToUWord bytes) (\<lambda>(typeIdx, numBytesOut).
     bindE (leb128ToSWord (drop numBytesOut bytes)) (\<lambda>(ptr, numBytesOut2).
     let nextRecordPtr = (if ptr \<noteq> 0 then ptr + of_nat numBytesOut else ptr);
         action = \<lparr>typeFilterIndex = (if typeIdx = 0 then TYPE_IDX_MATCH_ALL else ucast (typeIdx - 1)),
                   nextAction = 0, hasNextAction = (nextRecordPtr \<noteq> 0)\<rparr>
     in Inr (length actions, nextRecordPtr \<noteq> 0, actionOffset + nextRecordPtr,
             (actionOffsets @ [actionOffset], actions @ [action],
              max highestActionOffset (actionOffset + of_nat numBytesOut + of_nat numBytesOut2))))))"

definition set_next_action :: "nat option \<Rightarrow> nat \<Rightarrow> ActionRecord list \<Rightarrow> ActionRecord list result" where
  "set_next_action previousActionIdx actionIdx actions =
     (case previousActionIdx of
        None \<Rightarrow> Inr actions
      | Some p \<Rightarrow> bindE (elem_at actions p) (\<lambda>a. store_at actions p (a\<lparr>nextAction := of_nat actionIdx\<rparr>)))"

text \<open>
  The loop \<^verbatim>\<open>while(continueChain)\<close>; the index it returns is that of its first round, which goes into
  \<^verbatim>\<open>firstAction\<close>.
\<close>

fun read_chain ::
  "nat \<Rightarrow> byte list \<Rightarrow> nat \<Rightarrow> addr_t \<Rightarrow> nat option \<Rightarrow> action_state \<Rightarrow> (nat \<times> action_state) result" where
  "read_chain 0 data offset actionOffset previousActionIdx st = Inl Diverges"
| "read_chain (Suc fuel) data offset actionOffset previousActionIdx st =
     bindE (case index_of actionOffset (fst st) of
              Some k \<Rightarrow> Inr (k, False, actionOffset, st)
            | None \<Rightarrow> read_action data offset actionOffset st)
       (\<lambda>(actionIdx, continueChain, actionOffset', actionOffsets, actions, highest).
     bindE (set_next_action previousActionIdx actionIdx actions) (\<lambda>actions.
       if continueChain then
         bindE (read_chain fuel data offset actionOffset' (Some actionIdx) (actionOffsets, actions, highest))
           (\<lambda>(_, st). Inr (actionIdx, st))
       else Inr (actionIdx, actionOffsets, actions, highest)))"

text \<open>
  Every round but the last adds the offset of a record that starts inside the section, and no offset
  twice: the size of the section bounds the rounds.
\<close>

fun read_actions ::
  "byte list \<Rightarrow> nat \<Rightarrow> CallSiteRecord list \<Rightarrow> action_state \<Rightarrow> (CallSiteRecord list \<times> action_state) result" where
  "read_actions data offset [] st = Inr ([], st)"
| "read_actions data offset (c # cs) st =
     bindE
       (if cs_hasAction c then
          bindE (read_chain (Suc (length data)) data offset (cs_firstAction c) None st)
            (\<lambda>(actionIdx, st). Inr (c\<lparr>cs_firstAction := of_nat actionIdx\<rparr>, st))
        else Inr (c, st)) (\<lambda>(c', st).
     bindE (read_actions data offset cs st) (\<lambda>(cs', st). Inr (c' # cs', st)))"

definition readActionTable ::
  "byte list \<Rightarrow> nat \<Rightarrow> CallSiteRecord list \<Rightarrow> (CallSiteRecord list \<times> ActionRecord list \<times> addr_t) result" where
  "readActionTable data offset callSites =
     bindE (read_actions data offset callSites ([], [], 0)) (\<lambda>(callSites, _, actions, highest).
       Inr (callSites, actions, highest))"

text \<open>The type table, from its end; a round needs \<open>ttEntrySize\<close> bytes of the section.\<close>

fun read_types ::
  "nat \<Rightarrow> nat \<Rightarrow> byte list \<Rightarrow> addr_t \<Rightarrow> byte \<Rightarrow> nat \<Rightarrow> addr_t \<Rightarrow> word_t \<Rightarrow> word_t list result" where
  "read_types fuel bitwidth data sectionAddress encoding ttEntrySize offset ttOffset =
     (if sint ttOffset < 0 then Inr []
      else case fuel of
        0 \<Rightarrow> Inl Diverges
      | Suc fuel' \<Rightarrow>
          bindE (decodeEHPointer bitwidth (drop (unat (offset + ttOffset)) data) ttEntrySize
                   (sectionAddress + offset + ttOffset) encoding) (\<lambda>(t, _).
          bindE (read_types fuel' bitwidth data sectionAddress encoding ttEntrySize offset
                   (ttOffset - of_nat ttEntrySize)) (\<lambda>ts.
            Inr (t # ts))))"

declare read_types.simps [simp del]

definition readTypeTable ::
  "nat \<Rightarrow> byte list \<Rightarrow> addr_t \<Rightarrow> byte \<Rightarrow> addr_t \<Rightarrow> addr_t \<Rightarrow> (word_t list \<times> word_t) result" where
  "readTypeTable bitwidth data sectionAddress encoding offset ttBase =
     (if encoding \<noteq> DW_EH_PE_omit then
        bindE (getPointerSizeFromEHPointerEncoding bitwidth encoding) (\<lambda>ttEntrySize.
        bindE (read_types (Suc (length data)) bitwidth data sectionAddress encoding ttEntrySize offset
                 (ttBase - of_nat ttEntrySize - offset)) (\<lambda>types.
          Inr (types, ttBase - offset)))
      else Inr ([], 0))"

definition read_lpStart ::
  "nat \<Rightarrow> byte list \<Rightarrow> addr_t \<Rightarrow> nat \<Rightarrow> (addr_t \<times> nat) result" where
  "read_lpStart bitwidth data sectionAddress offset =
     bindE (elem_at data offset) (\<lambda>lpStartFormat.
       if lpStartFormat \<noteq> DW_EH_PE_omit then
         bindE (read_ptr bitwidth data sectionAddress lpStartFormat (offset + 1)) (\<lambda>(p, n). Inr (p, 1 + n))
       else Inr (0, 1))"

definition read_ttBase :: "byte list \<Rightarrow> byte \<Rightarrow> nat \<Rightarrow> (addr_t \<times> nat) result" where
  "read_ttBase data encoding offset =
     (if encoding \<noteq> DW_EH_PE_omit then
        bindE (decodeLEB128 (drop offset data) False) (\<lambda>(ttBaseBytes, numBytesOut, numSeptets).
        bindE (guardE (numBytesOut \<le> 8) AssertFail) (\<lambda>_.
        bindE (copy_out ttBaseBytes numBytesOut) (\<lambda>bs.
          Inr (le_word bs + of_nat (offset + numSeptets), numSeptets))))
      else Inr (0, 0))"

definition read_lsda :: "nat \<Rightarrow> byte list \<Rightarrow> addr_t \<Rightarrow> addr_t \<Rightarrow> LSDA result" where
  "read_lsda bitwidth data sectionAddress lsdaPointer =
     (let start = unat (lsdaPointer - sectionAddress) in
      bindE (guardE (start \<le> length data) Death) (\<lambda>_.
      bindE (read_lpStart bitwidth data sectionAddress start) (\<lambda>(lp, n1).
      bindE (elem_at data (start + n1)) (\<lambda>encoding.
      bindE (read_ttBase data encoding (start + n1 + 1)) (\<lambda>(ttBase, n2).
      bindE (elem_at data (start + n1 + 1 + n2)) (\<lambda>callSiteFormat.
      bindE (read_ptr bitwidth data sectionAddress callSiteFormat (start + n1 + n2 + 2))
        (\<lambda>(callSiteTableSize, n3).
      let offset = start + n1 + n2 + 2 + n3 in
      bindE (guardE (offset \<le> length data) Death) (\<lambda>_.
      bindE (readCallSiteTable bitwidth data sectionAddress callSiteFormat offset callSiteTableSize)
        (\<lambda>(callSites, bytesRead).
      bindE (readActionTable data (offset + bytesRead) callSites)
        (\<lambda>(callSites, actions, actionBytes).
      let offset2 = of_nat (offset + bytesRead) + actionBytes in
      bindE (guardE (unat offset2 \<le> length data) Death) (\<lambda>_.
      bindE (readTypeTable bitwidth data sectionAddress encoding offset2 ttBase) (\<lambda>(types, typeBytes).
      bindE (guardE (unat (offset2 + typeBytes) \<le> length data) Death) (\<lambda>_.
        Inr \<lparr>lpStart = lp, callSiteTable = callSites, actionTable = actions, ttEncoding = encoding,
             typeTable = types\<rparr>)))))))))))))"

fun read_lsdas :: "nat \<Rightarrow> byte list \<Rightarrow> addr_t \<Rightarrow> addr_t list \<Rightarrow> LSDA list result" where
  "read_lsdas bitwidth data sectionAddress [] = Inr []"
| "read_lsdas bitwidth data sectionAddress (p # ps) =
     bindE (read_lsda bitwidth data sectionAddress p) (\<lambda>l.
     bindE (read_lsdas bitwidth data sectionAddress ps) (\<lambda>ls. Inr (l # ls)))"

definition parseExceptFrame :: "nat \<Rightarrow> byte list \<Rightarrow> addr_t \<Rightarrow> addr_t list \<Rightarrow> LSDA list result" where
  "parseExceptFrame bitwidth data sectionAddress lsdaPointers =
     (if data = [] then Inr [] else read_lsdas bitwidth data sectionAddress lsdaPointers)"

end
