(* ===== verification/Except_Actions.thy ===== *)
theory Except_Actions
  imports Except_Table
begin

text \<open>
  The action table of an LSDA: the layout \<^verbatim>\<open>buildExceptTableRawData\<close> gives it, and what
  \<^verbatim>\<open>readActionTable\<close> makes of that layout.
\<close>

section \<open>LEB128 words in a buffer\<close>

definition uleb :: "word_t \<Rightarrow> byte list" where
  "uleb w = projr (encodeAsLEB128 (word_bytes 8 w) False)"

definition sleb :: "word_t \<Rightarrow> byte list" where
  "sleb w = projr (encodeAsLEB128 (word_bytes 8 w) True)"

lemma uleb_encode: "encodeAsLEB128 (word_bytes 8 w) False = Inr (uleb w)"
  by (rule encode_word_spec [of 8 w]) (simp_all add: uleb_def)

lemma uleb_spec: "leb_wf (uleb w)" "leb_int (uleb w) = uint w" "length (uleb w) \<le> 10"
    "length (uleb w) = 1 \<or> last (uleb w) \<noteq> 0"
proof -
  obtain enc where "encodeAsLEB128 (word_bytes 8 w) False = Inr enc" "leb_wf enc"
    "leb_int enc = uint (take_bit (8 * 8) w)" "length enc \<le> num_septets 8"
    "length enc = 1 \<or> last enc \<noteq> 0"
    by (rule encode_word_spec [of 8 w]) simp_all
  then show "leb_wf (uleb w)" "leb_int (uleb w) = uint w" "length (uleb w) \<le> 10"
    "length (uleb w) = 1 \<or> last (uleb w) \<noteq> 0"
    by (simp_all add: uleb_def num_septets_def take_bit_word_eq_self)
qed

lemma uleb_pos [simp]: "uleb w \<noteq> []" "0 < length (uleb w)"
  using uleb_spec(1) [of w] by (simp_all add: leb_wf_def)

lemma leb128ToUWord_uleb [simp]: "leb128ToUWord (uleb w @ rest) = Inr (w, length (uleb w))"
  using leb128ToUWord_spec [OF uleb_spec(1,3), of w rest] uint_lt2p [of w]
  by (simp add: uleb_spec(2))

lemma sleb_encode: "encodeAsLEB128 (word_bytes 8 w) True = Inr (sleb w)"
  by (rule sword_encode_spec [of 8 w]) (simp_all add: sleb_def)

lemma sleb_length: "0 < length (sleb w)" "length (sleb w) \<le> 10"
proof -
  obtain enc where "encodeAsLEB128 (word_bytes 8 w) True = Inr enc" "leb_wf enc" "length enc \<le> num_septets 8"
    by (rule sword_encode_spec [of 8 w]) simp_all
  then show "0 < length (sleb w)" "length (sleb w) \<le> 10"
    by (simp_all add: sleb_def num_septets_def leb_wf_def)
qed

lemma leb128ToSWord_sleb:
  assumes "- (2 ^ 27) \<le> sint w" "sint w < 2 ^ 27"
  shows "leb128ToSWord (sleb w @ rest) = Inr (w, length (sleb w))"
proof -
  obtain enc where e: "encodeAsLEB128 (word_bytes 8 w) True = Inr enc" "leb_wf enc"
    "sleb_int enc = sint w" "length enc = 1 \<or>
      (\<exists>k<7. bit (last enc) k \<noteq> (sint w < 0)) \<or> bit (enc ! (length enc - 2)) 6 \<noteq> (sint w < 0)"
    by (rule sword_encode_spec [of 8 w]) simp_all
  have l: "length enc \<le> 4" by (rule sleb_int_shortest) (use e assms in simp_all)
  then show ?thesis using leb128ToSWord_spec [OF e(2), of rest] e(1,3) by (simp add: sleb_def)
qed

lemma sleb_0_1: "sleb 0 = [0]" "sleb 1 = [1]"
  unfolding sleb_def by code_simp+

lemma addUleb_ok:
  assumes "gb_wf buf"
  obtains buf' where "addUlebToGrowingBuffer buf w = Inr buf'" "gb_wf buf'"
    "gb_contents buf' = gb_contents buf @ uleb w" "gb_len buf' = gb_len buf + length (uleb w)"
  using addToGrowingBuffer_ok [OF assms, of "length (uleb w)" "uleb w"]
  by (auto simp: addUlebToGrowingBuffer_def uleb_encode)

lemma addSleb_ok:
  assumes "gb_wf buf"
  obtains buf' where "addSlebToGrowingBuffer buf w = Inr buf'" "gb_wf buf'"
    "gb_contents buf' = gb_contents buf @ sleb w" "gb_len buf' = gb_len buf + length (sleb w)"
  using addToGrowingBuffer_ok [OF assms, of "length (sleb w)" "sleb w"]
  by (auto simp: addSlebToGrowingBuffer_def sleb_encode)

lemma addByte_ok:
  assumes "gb_wf buf"
  obtains buf' where "addToGrowingBuffer buf [b] 1 = Inr buf'" "gb_wf buf'"
    "gb_contents buf' = gb_contents buf @ [b]" "gb_len buf' = gb_len buf + 1"
  using addToGrowingBuffer_ok [OF assms, of 1 "[b]"] by auto

section \<open>The layout\<close>

definition acts_ok :: "ActionRecord list \<Rightarrow> bool" where
  "acts_ok actions \<longleftrightarrow> length actions \<le> 1000000 \<and>
     list_all (\<lambda>a. hasNextAction a \<longrightarrow> unat (nextAction a) < length actions) actions"

abbreviation type_leb :: "ActionRecord \<Rightarrow> byte list" where
  "type_leb a \<equiv> uleb (scast (typeFilterIndex a + 1))"

abbreviation next_idx :: "ActionRecord \<Rightarrow> nat" where
  "next_idx a \<equiv> unat (nextAction a)"

text \<open>The offset written after the type, relative to its own place.\<close>

definition rel_next :: "ActionRecord \<Rightarrow> addr_t list \<Rightarrow> nat \<Rightarrow> addr_t" where
  "rel_next a offs i =
     (if hasNextAction a then offs ! next_idx a - (offs ! i + of_nat (length (type_leb a))) else 0)"

definition action_at :: "ActionRecord list \<Rightarrow> addr_t list \<Rightarrow> byte list \<Rightarrow> nat \<Rightarrow> bool" where
  "action_at actions offs bytes i \<longleftrightarrow>
     unat (offs ! i) < length bytes \<and>
     (\<exists>rest. drop (unat (offs ! i)) bytes =
       type_leb (actions ! i) @ sleb (rel_next (actions ! i) offs i) @ rest)"

text \<open>
  The actions \<open>W\<close> are written; an action written last may go on to the one in \<open>P\<close>, which will be
  written next.
\<close>

definition acts_inv ::
  "ActionRecord list \<Rightarrow> nat set \<Rightarrow> nat set \<Rightarrow> addr_t list \<Rightarrow> byte list \<Rightarrow> bool" where
  "acts_inv actions W P offs bytes \<longleftrightarrow>
     length offs = length actions \<and> W \<subseteq> {..<length actions} \<and>
     (\<forall>i\<in>W. action_at actions offs bytes i) \<and>
     (\<forall>i\<in>W. hasNextAction (actions ! i) \<longrightarrow> next_idx (actions ! i) \<in> W \<union> P) \<and>
     (\<forall>i<length actions. i \<notin> W \<union> P \<longrightarrow> offs ! i = 0) \<and>
     (\<forall>i\<in>W. offs ! i = 0 \<longrightarrow> i = 0) \<and> inj_on ((!) offs) W \<and>
     (\<forall>i\<in>W. \<forall>j\<in>W. unat (offs ! i) < unat (offs ! j) \<longrightarrow>
        unat (offs ! i) + length (type_leb (actions ! i)) < unat (offs ! j)) \<and>
     length bytes \<le> 20 * card W \<and> (W \<noteq> {} \<longrightarrow> 0 \<in> W)"

lemma action_at_append: "action_at actions offs bytes i \<Longrightarrow> action_at actions offs (bytes @ ext) i"
  by (auto simp: action_at_def)

lemma action_at_cong:
  "offs ! i = offs' ! i \<Longrightarrow>
   (hasNextAction (actions ! i) \<Longrightarrow> offs ! next_idx (actions ! i) = offs' ! next_idx (actions ! i)) \<Longrightarrow>
   action_at actions offs bytes i = action_at actions offs' bytes i"
  by (simp add: action_at_def rel_next_def)

lemma acts_inv_bound:
  assumes "acts_ok actions" "acts_inv actions W P offs bytes"
  shows "length bytes \<le> 20000000" "finite W" "card W \<le> length actions" "W \<noteq> {} \<Longrightarrow> bytes \<noteq> []"
proof -
  have W: "W \<subseteq> {..<length actions}" using assms(2) by (simp add: acts_inv_def)
  then show f: "finite W" by (rule finite_subset) simp
  show c: "card W \<le> length actions" using card_mono [OF _ W] by simp
  show "length bytes \<le> 20000000" using assms c by (simp add: acts_ok_def acts_inv_def)
  show "W \<noteq> {} \<Longrightarrow> bytes \<noteq> []" using assms(2) by (auto simp: acts_inv_def action_at_def)
qed

lemma unat_of_nat_small: "n < 2 ^ 32 \<Longrightarrow> unat (of_nat n :: word_t) = n"
  by (simp add: unsigned_of_nat take_bit_nat_eq_self)

text \<open>One more action, whose bytes are what was just appended.\<close>

lemma acts_inv_insert:
  assumes ok: "acts_ok actions" and inv: "acts_inv actions W {idx} offs bytes"
    and idx: "idx < length actions" "idx \<notin> W" "W = {} \<Longrightarrow> idx = 0"
    and off: "offs ! idx = of_nat (length bytes)"
    and same: "length offs' = length offs" "\<And>i. i \<in> insert idx W \<Longrightarrow> offs' ! i = offs ! i"
      "\<And>i. i < length actions \<Longrightarrow> i \<notin> insert idx W \<union> P \<Longrightarrow> offs' ! i = 0"
    and nxt: "hasNextAction (actions ! idx) \<Longrightarrow> next_idx (actions ! idx) \<in> insert idx W \<union> P"
    and new: "ext = type_leb (actions ! idx) @ sleb (rel_next (actions ! idx) offs' idx)"
  shows "acts_inv actions (insert idx W) P offs' (bytes @ ext)"
proof -
  note b = acts_inv_bound [OF ok inv]
  have u: "unat (offs ! idx) = length bytes" using off b(1) by (simp add: unat_of_nat_small)
  have at: "action_at actions offs' (bytes @ ext) i" if "i \<in> W" for i
  proof -
    have "action_at actions offs bytes i" "hasNextAction (actions ! i) \<Longrightarrow> next_idx (actions ! i) \<in> insert idx W"
      using inv that by (auto simp: acts_inv_def)
    then show ?thesis
      using same(2) that action_at_cong [of offs i offs' actions bytes] action_at_append by simp
  qed
  have low: "unat (offs ! i) < length bytes" if "i \<in> W" for i
    using inv that by (auto simp: acts_inv_def action_at_def)
  have "action_at actions offs' (bytes @ ext) idx"
    using u new same(2) [of idx] by (simp add: action_at_def)
  moreover have "inj_on ((!) offs') (insert idx W)"
  proof -
    have "inj_on ((!) offs) (insert idx W)"
      using inv low u unfolding acts_inv_def by (metis inj_on_insert nat_neq_iff Diff_empty Diff_insert0 idx(2) image_iff)
    then show ?thesis using same(2) by (auto simp: inj_on_def)
  qed
  moreover have "unat (offs' ! i) + length (type_leb (actions ! i)) < unat (offs' ! j)"
    if ij: "i \<in> insert idx W" "j \<in> insert idx W" "unat (offs' ! i) < unat (offs' ! j)" for i j
  proof -
    have iW: "i \<in> W" using ij u low same(2) low [of j] by (metis insertE less_asym less_irrefl)
    then have "action_at actions offs bytes i" using inv by (simp add: acts_inv_def)
    then obtain rest where r: "drop (unat (offs ! i)) bytes =
        type_leb (actions ! i) @ sleb (rel_next (actions ! i) offs i) @ rest"
      by (auto simp: action_at_def)
    have "unat (offs ! i) + length (type_leb (actions ! i)) < length bytes"
      using arg_cong [OF r, of length] sleb_length(1) [of "rel_next (actions ! i) offs i"]
      by (simp del: length_greater_0_conv)
    then show ?thesis
      using inv ij iW u same(2) by (cases "j = idx") (auto simp: acts_inv_def)
  qed
  moreover have "offs' ! idx = 0 \<longrightarrow> idx = 0"
    using u same(2) [of idx] b(4) idx(3) by (cases "W = {}") auto
  moreover have "length ext \<le> 20" using new uleb_spec(3) sleb_length(2) by (simp add: add_mono [of _ 10 _ 10, simplified])
  moreover have "card (insert idx W) = Suc (card W)" using b(2) idx(2) by simp
  ultimately show ?thesis
    using inv at same idx nxt by (auto simp: acts_inv_def)
qed

lemma write_chain_ok:
  assumes ok: "acts_ok actions"
  shows "gb_wf buf \<Longrightarrow> acts_inv actions W {idx} (offs[idx := of_nat (gb_len buf)]) (gb_contents buf) \<Longrightarrow>
    idx < length actions \<Longrightarrow> idx \<notin> W \<Longrightarrow> (W = {} \<Longrightarrow> idx = 0) \<Longrightarrow> length actions - card W \<le> fuel \<Longrightarrow>
    \<exists>offs' buf' W'. write_chain fuel actions idx (offs, buf) = Inr (offs', buf') \<and> gb_wf buf' \<and>
      insert idx W \<subseteq> W' \<and> acts_inv actions W' {} offs' (gb_contents buf')"
proof (induction fuel arbitrary: idx offs buf W)
  case 0
  have "insert idx W \<subseteq> {..<length actions}" using 0 by (auto simp: acts_inv_def)
  from card_mono [OF _ this] have "card W < length actions"
    using 0 acts_inv_bound(2) [OF ok 0(2)] by simp
  with 0 show ?case by simp
next
  case (Suc fuel)
  let ?a = "actions ! idx" and ?n = "length actions"
  define offs1 where "offs1 = offs[idx := of_nat (gb_len buf)]"
  note inv = Suc.prems(2) [folded offs1_def] and b = acts_inv_bound [OF ok Suc.prems(2)]
  have l: "length offs = ?n" "length offs1 = ?n" using inv by (auto simp: acts_inv_def offs1_def)
  have len: "length (gb_contents buf) = gb_len buf" using Suc.prems(1) by (rule length_gb_contents)
  have off: "offs1 ! idx = of_nat (length (gb_contents buf))" using l Suc.prems(3) len by (simp add: offs1_def)
  have st: "store_at offs idx (of_nat (gb_len buf)) = Inr offs1" using l Suc.prems(3) by (simp add: offs1_def)
  obtain buf1 where b1: "addUlebToGrowingBuffer buf (scast (typeFilterIndex ?a + 1)) = Inr buf1" "gb_wf buf1"
    "gb_contents buf1 = gb_contents buf @ type_leb ?a" "gb_len buf1 = gb_len buf + length (type_leb ?a)"
    by (rule addUleb_ok [OF Suc.prems(1)])
  note step = st Suc.prems(3) b1(1)
  have nxt: "hasNextAction ?a \<Longrightarrow> next_idx ?a < ?n"
    using ok Suc.prems(3) by (simp add: acts_ok_def list_all_length)
  have zero: "offs1 ! i = 0" if "i < ?n" "i \<notin> insert idx W" for i
    using inv that by (auto simp: acts_inv_def)
  note ins = acts_inv_insert [OF ok inv Suc.prems(3,4,5) off]
  consider (last) "\<not> hasNextAction ?a"
    | (old) "hasNextAction ?a" "offs1 ! next_idx ?a \<noteq> 0 \<or> nextAction ?a = 0"
    | (new) "hasNextAction ?a" "offs1 ! next_idx ?a = 0" "nextAction ?a \<noteq> 0"
    by blast
  then show ?case
  proof cases
    case last
    obtain buf2 where b2: "addToGrowingBuffer buf1 [0] 1 = Inr buf2" "gb_wf buf2"
      "gb_contents buf2 = gb_contents buf1 @ [0]" by (rule addByte_ok [OF b1(2)])
    have "acts_inv actions (insert idx W) {} offs1 (gb_contents buf @ type_leb ?a @ sleb 0)"
      by (rule ins) (use last zero in \<open>simp_all add: rel_next_def\<close>)
    with last step b1(3) b2 show ?thesis by (auto simp: sleb_0_1)
  next
    case old
    let ?v = "offs1 ! next_idx ?a - of_nat (gb_len buf1)"
    obtain buf2 where b2: "addSlebToGrowingBuffer buf1 ?v = Inr buf2" "gb_wf buf2"
      "gb_contents buf2 = gb_contents buf1 @ sleb ?v" by (rule addSleb_ok [OF b1(2)])
    have "0 \<in> insert idx W" using inv Suc.prems(5) by (auto simp: acts_inv_def)
    then have "next_idx ?a \<in> insert idx W" using old zero [OF nxt] by fastforce
    moreover have "?v = rel_next ?a offs1 idx" using old(1) off b1(4) len by (simp add: rel_next_def)
    ultimately have "acts_inv actions (insert idx W) {} offs1 (gb_contents buf @ type_leb ?a @ sleb ?v)"
      by (intro ins) (use zero in simp_all)
    with old step b1(3) b2 nxt l show ?thesis by auto
  next
    case new
    let ?x = "next_idx ?a"
    obtain buf2 where b2: "addToGrowingBuffer buf1 [1] 1 = Inr buf2" "gb_wf buf2"
      "gb_contents buf2 = gb_contents buf1 @ [1]" "gb_len buf2 = gb_len buf1 + 1"
      by (rule addByte_ok [OF b1(2)])
    have x0: "?x \<noteq> 0" using new(3) by (simp add: unsigned_eq_0_iff)
    have xW: "?x \<notin> W" using inv new(2) x0 by (auto simp: acts_inv_def)
    have xi: "?x \<noteq> idx"
    proof
      assume "?x = idx"
      with new(2) off b(1) have "gb_contents buf = []" using unat_of_nat_small [of "length (gb_contents buf)"] by simp
      with b(4) Suc.prems(5) x0 \<open>?x = idx\<close> show False by auto
    qed
    define offs2 where "offs2 = offs1[?x := of_nat (gb_len buf2)]"
    have r: "rel_next ?a offs2 idx = 1"
      using new(1) nxt l xi off b1(4) b2(4) len by (simp add: rel_next_def offs2_def)
    have "acts_inv actions (insert idx W) {?x} offs2 (gb_contents buf @ type_leb ?a @ sleb 1)"
    proof (rule ins)
      show "offs2 ! i = offs1 ! i" if "i \<in> insert idx W" for i
        using that xW xi by (cases "i = ?x") (auto simp: offs2_def)
      show "offs2 ! i = 0" if "i < ?n" "i \<notin> insert idx W \<union> {?x}" for i
        using that zero by (simp add: offs2_def)
    qed (simp_all add: r, simp add: offs2_def)
    then have inv2: "acts_inv actions (insert idx W) {?x} offs2 (gb_contents buf2)"
      using b1(3) b2(3) by (simp add: sleb_0_1)
    have "\<exists>offs' buf' W'. write_chain fuel actions ?x (offs1, buf2) = Inr (offs', buf') \<and> gb_wf buf' \<and>
      insert ?x (insert idx W) \<subseteq> W' \<and> acts_inv actions W' {} offs' (gb_contents buf')"
      by (rule Suc.IH [OF b2(2)]) (use inv2 nxt new xW xi b Suc.prems in \<open>simp_all add: offs2_def\<close>)
    with new step b1(3) b2 nxt l show ?thesis by auto
  qed
qed

lemma write_actions_ok:
  assumes ok: "acts_ok actions"
  shows "gb_wf buf \<Longrightarrow> acts_inv actions W {} offs (gb_contents buf) \<Longrightarrow> set js \<subseteq> {..<length actions} \<Longrightarrow>
    distinct js \<Longrightarrow> W = {} \<or> 0 \<notin> set js \<Longrightarrow> (W = {} \<Longrightarrow> js \<noteq> [] \<Longrightarrow> hd js = 0) \<Longrightarrow>
    \<exists>offs' buf' W'. write_actions actions js (offs, buf) = Inr (offs', buf') \<and> gb_wf buf' \<and>
      W \<union> set js \<subseteq> W' \<and> acts_inv actions W' {} offs' (gb_contents buf')"
proof (induction js arbitrary: offs buf W)
  case Nil
  then show ?case by auto
next
  case (Cons j js)
  let ?n = "length actions"
  have l: "length offs = ?n" "j < ?n" using Cons.prems by (auto simp: acts_inv_def)
  show ?case
  proof (cases "offs ! j = 0")
    case False
    then have "j \<in> W" using Cons.prems(2) l by (auto simp: acts_inv_def)
    moreover obtain offs' buf' W' where "write_actions actions js (offs, buf) = Inr (offs', buf')"
      "gb_wf buf'" "W \<union> set js \<subseteq> W'" "acts_inv actions W' {} offs' (gb_contents buf')"
    proof -
      have "W \<noteq> {}" "W = {} \<or> 0 \<notin> set js" "set js \<subseteq> {..<?n}" "distinct js"
        using \<open>j \<in> W\<close> Cons.prems by auto
      with Cons.IH [OF Cons.prems(1,2)] that show ?thesis by blast
    qed
    ultimately show ?thesis using False l by auto
  next
    case True
    have jW: "j \<notin> W" using Cons.prems(2,5) True by (auto simp: acts_inv_def)
    have "acts_inv actions W {j} (offs[j := of_nat (gb_len buf)]) (gb_contents buf)"
    proof -
      have "action_at actions (offs[j := of_nat (gb_len buf)]) (gb_contents buf) i" if "i \<in> W" for i
      proof -
        have "action_at actions offs (gb_contents buf) i" "i \<noteq> j"
          "hasNextAction (actions ! i) \<Longrightarrow> next_idx (actions ! i) \<noteq> j"
          using Cons.prems(2) that jW by (auto simp: acts_inv_def)
        then show ?thesis
          using action_at_cong [of offs i "offs[j := of_nat (gb_len buf)]" actions "gb_contents buf"]
          by (cases "hasNextAction (actions ! i)") simp_all
      qed
      then show ?thesis
        using Cons.prems(2) jW l by (auto simp: acts_inv_def nth_list_update inj_on_def)
    qed
    then obtain offs1 buf1 W1 where c: "write_chain ?n actions j (offs, buf) = Inr (offs1, buf1)" "gb_wf buf1"
      "insert j W \<subseteq> W1" "acts_inv actions W1 {} offs1 (gb_contents buf1)"
      using write_chain_ok [OF ok Cons.prems(1) _ l(2) jW, of offs ?n] Cons.prems(6) by auto
    moreover obtain offs' buf' W' where "write_actions actions js (offs1, buf1) = Inr (offs', buf')"
      "gb_wf buf'" "W1 \<union> set js \<subseteq> W'" "acts_inv actions W' {} offs' (gb_contents buf')"
    proof -
      have "0 \<notin> set js" using Cons.prems(4,5,6) by (cases "W = {}") auto
      moreover have "W1 \<noteq> {}" using c(3) by auto
      ultimately show ?thesis using Cons.IH [OF c(2,4)] Cons.prems(3,4) that by auto
    qed
    ultimately show ?thesis using True l by auto
  qed
qed

lemma write_all_actions_ok:
  assumes "acts_ok actions"
  obtains offs buf where
    "write_actions actions [0..<length actions] (replicate (length actions) 0, empty_buffer) = Inr (offs, buf)"
    "gb_wf buf" "acts_inv actions {..<length actions} {} offs (gb_contents buf)"
proof -
  have "acts_inv actions {} {} (replicate (length actions) 0) (gb_contents empty_buffer)"
    by (simp add: acts_inv_def)
  moreover have "set [0..<length actions] = {..<length actions}" by auto
  moreover have "[0..<length actions] \<noteq> [] \<Longrightarrow> hd [0..<length actions] = 0" by simp
  ultimately obtain offs buf W where w: "write_actions actions [0..<length actions]
      (replicate (length actions) 0, empty_buffer) = Inr (offs, buf)" "gb_wf buf"
    "{..<length actions} \<subseteq> W" "acts_inv actions W {} offs (gb_contents buf)"
    using write_actions_ok [OF assms gb_wf_empty, of "{}" "replicate (length actions) 0" "[0..<length actions]"]
    by (metis Un_empty_left distinct_upt subset_refl)
  then have "W = {..<length actions}" by (auto simp: acts_inv_def)
  with w show ?thesis using that by blast
qed

end
