(* ===== verification/Except_Chains.thy ===== *)
theory Except_Chains
  imports Except_Actions
begin

text \<open>
  What \<^verbatim>\<open>readActionTable\<close> makes of an action table laid out by the writer: the records it finds,
  in the order it meets them, and the chain of every call site.
\<close>

section \<open>Positions\<close>

lemma index_of_None_iff: "index_of x xs = None \<longleftrightarrow> x \<notin> set xs"
  by (induction xs) auto

lemma index_of_SomeD: "index_of x xs = Some k \<Longrightarrow> k < length xs \<and> xs ! k = x"
  by (induction xs arbitrary: k) (auto split: if_splits)

lemma index_of_append: "x \<in> set xs \<Longrightarrow> index_of x (xs @ ys) = index_of x xs"
  by (induction xs) auto

lemma index_of_last: "x \<notin> set xs \<Longrightarrow> index_of x (xs @ [x]) = Some (length xs)"
  by (induction xs) auto

lemma index_of_map: "inj_on f (insert x (set xs)) \<Longrightarrow> index_of (f x) (map f xs) = index_of x xs"
  by (induction xs) (auto simp: inj_on_def)

definition pos :: "nat list \<Rightarrow> nat \<Rightarrow> nat" where
  "pos ks i = the (index_of i ks)"

lemma pos_less: "i \<in> set ks \<Longrightarrow> pos ks i < length ks \<and> ks ! pos ks i = i"
  using index_of_None_iff [of i ks] index_of_SomeD [of i ks] by (auto simp: pos_def)

lemma pos_append: "i \<in> set ks \<Longrightarrow> pos (ks @ ls) i = pos ks i"
  by (simp add: pos_def index_of_append)

lemma pos_last: "i \<notin> set ks \<Longrightarrow> pos (ks @ [i]) i = length ks"
  by (simp add: pos_def index_of_last)

section \<open>Chains\<close>

text \<open>The type filters a call site tries, one action after the other, up to \<open>k\<close> of them.\<close>

fun action_chain :: "nat \<Rightarrow> ActionRecord list \<Rightarrow> nat \<Rightarrow> 32 word list" where
  "action_chain 0 actions i = []"
| "action_chain (Suc k) actions i =
     (if i < length actions then
        typeFilterIndex (actions ! i) #
          (if hasNextAction (actions ! i) then action_chain k actions (next_idx (actions ! i)) else [])
      else [])"

text \<open>The record of an action when the actions \<open>ks\<close> are numbered by their place in \<open>ks\<close>.\<close>

definition renamed :: "nat list \<Rightarrow> ActionRecord \<Rightarrow> ActionRecord" where
  "renamed ks a = \<lparr>typeFilterIndex = typeFilterIndex a,
     nextAction = (if hasNextAction a then of_nat (pos ks (next_idx a)) else 0),
     hasNextAction = hasNextAction a\<rparr>"

definition read_inv ::
  "ActionRecord list \<Rightarrow> addr_t list \<Rightarrow> nat list \<Rightarrow> nat option \<Rightarrow> byte list \<Rightarrow> action_state \<Rightarrow> bool" where
  "read_inv actions offs ks p bytes st \<longleftrightarrow>
     (case st of (roffs, racts, highest) \<Rightarrow>
        distinct ks \<and> set ks \<subseteq> {..<length actions} \<and> roffs = map ((!) offs) ks \<and>
        length racts = length ks \<and> unat highest \<le> length bytes \<and>
        (\<forall>m<length ks.
           if p = Some m then racts ! m = (renamed ks (actions ! (ks ! m)))\<lparr>nextAction := 0\<rparr>
           else racts ! m = renamed ks (actions ! (ks ! m)) \<and>
                (hasNextAction (actions ! (ks ! m)) \<longrightarrow> next_idx (actions ! (ks ! m)) \<in> set ks)))"

definition no_self_loop :: "ActionRecord list \<Rightarrow> bool" where
  "no_self_loop actions \<longleftrightarrow>
     (\<forall>i<length actions. hasNextAction (actions ! i) \<longrightarrow> next_idx (actions ! i) \<noteq> i)"

lemma action_chain_renamed:
  assumes "acts_ok actions" "read_inv actions offs ks None bytes (roffs, racts, highest)"
  shows "i \<in> set ks \<Longrightarrow> action_chain k racts (pos ks i) = action_chain k actions i"
proof (induction k arbitrary: i)
  case 0
  then show ?case by simp
next
  case (Suc k)
  note p = pos_less [OF Suc.prems]
  have inv: "distinct ks" "set ks \<subseteq> {..<length actions}" "length racts = length ks"
    "racts ! pos ks i = renamed ks (actions ! i)"
    "hasNextAction (actions ! i) \<Longrightarrow> next_idx (actions ! i) \<in> set ks"
    using assms(2) p by (auto simp: read_inv_def)
  have i: "i < length actions" using inv(2) Suc.prems by auto
  have "length ks \<le> length actions"
    using card_mono [OF _ inv(2)] distinct_card [OF inv(1)] by simp
  then have "unat (of_nat (pos ks j) :: word_t) = pos ks j" if "j \<in> set ks" for j
    using pos_less [OF that] assms(1) by (intro unat_of_nat_small) (simp add: acts_ok_def)
  then show ?case
    using Suc.IH inv i p by (simp add: renamed_def)
qed

section \<open>Reading one action\<close>

lemma diff_bounds:
  assumes "m \<le> 20000000" "n \<le> 20000020"
  shows "- (2 ^ 27) \<le> sint (of_nat m - of_nat n :: word_t)" "sint (of_nat m - of_nat n :: word_t) < 2 ^ 27"
proof -
  have "(of_nat m - of_nat n :: word_t) = word_of_int (int m - int n)" by simp
  moreover have "signed_take_bit 63 (int m - int n) = int m - int n"
    using assms by (intro signed_take_bit_int_eq_self) simp_all
  moreover have "sint (word_of_int (int m - int n) :: word_t) = signed_take_bit 63 (int m - int n)"
    by (subst sint_sbintrunc') simp
  ultimately have "sint (of_nat m - of_nat n :: word_t) = int m - int n" by metis
  then show "- (2 ^ 27) \<le> sint (of_nat m - of_nat n :: word_t)" "sint (of_nat m - of_nat n :: word_t) < 2 ^ 27"
    using assms by simp_all
qed

lemma type_filter_back:
  "(if (scast (t + 1) :: word_t) = 0 then TYPE_IDX_MATCH_ALL else ucast ((scast (t + 1) :: word_t) - 1)) = (t :: 32 word)"
proof -
  have u: "(ucast (scast s - 1 :: word_t) :: 32 word) = s - 1" for s :: "32 word"
  proof -
    have "(ucast (scast s - 1 :: word_t) :: 32 word) = ucast (word_of_int (sint s - 1) :: word_t)"
      by (simp only: scast_eq of_int_diff of_int_1)
    also have "\<dots> = word_of_int (sint s - 1)" by (rule ucast_word_of_int_32)
    also have "\<dots> = s - 1" by (simp only: of_int_diff of_int_sint of_int_1 scast_id)
    finally show ?thesis .
  qed
  have u0: "(ucast (scast s :: word_t) :: 32 word) = s" for s :: "32 word"
    unfolding scast_eq ucast_word_of_int_32 by simp
  show ?thesis
  proof (cases "(scast (t + 1) :: word_t) = 0")
    case True
    then have "t + 1 = 0" using u0 [of "t + 1"] by simp
    then have "t = - 1" by (simp only: eq_neg_iff_add_eq_0)
    with True show ?thesis by (simp add: TYPE_IDX_MATCH_ALL_def)
  next
    case False
    then show ?thesis by (simp add: u)
  qed
qed

lemma read_action_ok:
  assumes ok: "acts_ok actions" "no_self_loop actions"
    and inv: "acts_inv actions {..<length actions} {} offs bytes"
    and data: "drop base data = bytes @ rest" "base + length bytes < 2 ^ 32" "i < length actions"
  obtains highest' where
    "read_action data base (offs ! i) (roffs, racts, highest) =
       Inr (length racts, hasNextAction (actions ! i),
         (if hasNextAction (actions ! i) then offs ! next_idx (actions ! i) else offs ! i),
         roffs @ [offs ! i],
         racts @ [\<lparr>typeFilterIndex = typeFilterIndex (actions ! i), nextAction = 0,
                    hasNextAction = hasNextAction (actions ! i)\<rparr>], max highest highest')"
    "unat highest' \<le> length bytes"
proof -
  let ?a = "actions ! i" and ?o = "unat (offs ! i)"
  note b = acts_inv_bound [OF ok(1) inv]
  obtain r where r: "?o < length bytes" "drop ?o bytes = type_leb ?a @ sleb (rel_next ?a offs i) @ r"
  proof -
    have "action_at actions offs bytes i" using inv data(3) by (simp add: acts_inv_def)
    then show ?thesis using that by (auto simp: action_at_def)
  qed
  have "unat (of_nat base + offs ! i) = base + ?o"
    using r(1) data(2) by (simp add: unat_word_ariths unsigned_of_nat take_bit_nat_eq_self)
  then have d: "drop (unat (of_nat base + offs ! i)) data = type_leb ?a @ sleb (rel_next ?a offs i) @ r @ rest"
    using data(1) r by (simp add: add.commute [of base] flip: drop_drop)
  have len: "?o + length (type_leb ?a) + length (sleb (rel_next ?a offs i)) \<le> length bytes"
    using arg_cong [OF r(2), of length] r(1) by simp
  let ?x = "next_idx ?a"
  have nx: "?x < length actions" "?x \<noteq> i" if "hasNextAction ?a"
    using ok data(3) that by (auto simp: acts_ok_def no_self_loop_def list_all_length)
  have rel: "rel_next ?a offs i = of_nat (unat (offs ! ?x)) - of_nat (?o + length (type_leb ?a))"
    "unat (offs ! ?x) < length bytes"
    if "hasNextAction ?a"
    using inv nx(1) [OF that] that by (simp_all add: rel_next_def acts_inv_def action_at_def)
  have sl: "leb128ToSWord (sleb (rel_next ?a offs i) @ r @ rest) =
      Inr (rel_next ?a offs i, length (sleb (rel_next ?a offs i)))"
  proof (rule leb128ToSWord_sleb)
    have "- (2 ^ 27) \<le> sint (rel_next ?a offs i) \<and> sint (rel_next ?a offs i) < 2 ^ 27"
    proof (cases "hasNextAction ?a")
      case True
      show ?thesis unfolding rel(1) [OF True]
        using diff_bounds [of "unat (offs ! ?x)" "?o + length (type_leb ?a)"] b(1) rel(2) [OF True] r(1)
          uleb_spec(3) [of "scast (typeFilterIndex ?a + 1)"] by simp
    next
      case False
      then show ?thesis by (simp add: rel_next_def)
    qed
    then show "- (2 ^ 27) \<le> sint (rel_next ?a offs i)" "sint (rel_next ?a offs i) < 2 ^ 27" by simp_all
  qed
  have nz: "rel_next ?a offs i \<noteq> 0" "rel_next ?a offs i + of_nat (length (type_leb ?a)) = offs ! ?x - offs ! i"
    "offs ! ?x - offs ! i \<noteq> 0"
    if h: "hasNextAction ?a"
  proof -
    show eq: "rel_next ?a offs i + of_nat (length (type_leb ?a)) = offs ! ?x - offs ! i"
      using h by (simp add: rel_next_def)
    have ne: "offs ! ?x \<noteq> offs ! i"
      using inv nx [OF h] data(3) by (auto simp: acts_inv_def dest!: inj_onD)
    then show "offs ! ?x - offs ! i \<noteq> 0" by simp
    show "rel_next ?a offs i \<noteq> 0"
    proof
      assume "rel_next ?a offs i = 0"
      then have "offs ! ?x = offs ! i + of_nat (length (type_leb ?a))" using eq by (simp add: algebra_simps)
      moreover have "unat (offs ! i + of_nat (length (type_leb ?a))) = ?o + length (type_leb ?a)"
        using len b(1) by (simp add: unat_word_ariths unsigned_of_nat take_bit_nat_eq_self)
      ultimately have e: "unat (offs ! ?x) = ?o + length (type_leb ?a)" by simp
      then have "?o < unat (offs ! ?x)" by simp
      then have "?o + length (type_leb ?a) < unat (offs ! ?x)"
        using inv nx(1) [OF h] data(3) by (simp add: acts_inv_def)
      with e show False by simp
    qed
  qed
  let ?h = "offs ! i + of_nat (length (type_leb ?a)) + of_nat (length (sleb (rel_next ?a offs i)))"
  have "unat ?h = ?o + length (type_leb ?a) + length (sleb (rel_next ?a offs i))"
    using len b(1) by (simp add: unat_word_ariths unsigned_of_nat take_bit_nat_eq_self)
  then have h: "unat ?h \<le> length bytes" using len by simp
  show ?thesis
  proof (rule that [OF _ h])
    show "read_action data base (offs ! i) (roffs, racts, highest) =
       Inr (length racts, hasNextAction ?a, (if hasNextAction ?a then offs ! ?x else offs ! i),
         roffs @ [offs ! i],
         racts @ [\<lparr>typeFilterIndex = typeFilterIndex ?a, nextAction = 0,
                    hasNextAction = hasNextAction ?a\<rparr>], max highest ?h)"
      using sl nz type_filter_back [of "typeFilterIndex ?a"]
      by (cases "hasNextAction ?a") (simp_all add: read_action_def d Let_def rel_next_def)
  qed
qed

section \<open>Following the chains\<close>

lemma renamed_append:
  "(hasNextAction a \<Longrightarrow> next_idx a \<in> set ks) \<Longrightarrow> renamed (ks @ ls) a = renamed ks a"
  by (cases "hasNextAction a") (simp_all add: renamed_def pos_append)

text \<open>Entering the action \<open>i\<close>, now in \<open>ks\<close>, as the next of the pending record.\<close>

lemma read_inv_set_next:
  assumes inv: "read_inv actions offs ks p bytes (roffs, racts, highest)" and i: "i \<in> set ks"
    and p: "\<And>m. p = Some m \<Longrightarrow> m < length ks \<and> hasNextAction (actions ! (ks ! m)) \<and> next_idx (actions ! (ks ! m)) = i"
  obtains racts' where "set_next_action p (pos ks i) racts = Inr racts'"
    "read_inv actions offs ks None bytes (roffs, racts', highest)"
proof (cases p)
  case None
  then show ?thesis using inv that [of racts] by (simp add: set_next_action_def)
next
  case (Some m)
  let ?r = "racts[m := (racts ! m)\<lparr>nextAction := of_nat (pos ks i)\<rparr>]"
  have l: "m < length racts" using inv p [OF Some] by (simp add: read_inv_def)
  have "read_inv actions offs ks None bytes (roffs, ?r, highest)"
    using inv p [OF Some] i Some
    by (auto simp: read_inv_def nth_list_update renamed_def split: if_splits)
  with l Some show ?thesis by (intro that [of ?r]) (simp_all add: set_next_action_def)
qed

lemma read_inv_add:
  assumes inv: "read_inv actions offs ks None bytes (roffs, racts, highest)"
    and i: "i < length actions" "i \<notin> set ks" "unat highest' \<le> length bytes"
  shows "read_inv actions offs (ks @ [i]) (if hasNextAction (actions ! i) then Some (length ks) else None) bytes
    (roffs @ [offs ! i],
     racts @ [\<lparr>typeFilterIndex = typeFilterIndex (actions ! i), nextAction = 0,
                hasNextAction = hasNextAction (actions ! i)\<rparr>], max highest highest')"
  using inv i unfolding read_inv_def
  by (auto simp: nth_append renamed_append less_Suc_eq max_def, auto simp: renamed_def)

text \<open>The pending record is entered before or after the new record is added, with the same result.\<close>

lemma read_inv_pending:
  assumes inv: "read_inv actions offs ks p bytes (roffs, racts, highest)" and i: "i < length actions" "i \<notin> set ks"
    and p: "\<And>m. p = Some m \<Longrightarrow> m < length ks \<and> hasNextAction (actions ! (ks ! m)) \<and> next_idx (actions ! (ks ! m)) = i"
    and h: "unat highest' \<le> length bytes"
  obtains racts' where
    "set_next_action p (length ks) (racts @ [\<lparr>typeFilterIndex = typeFilterIndex (actions ! i), nextAction = 0,
                hasNextAction = hasNextAction (actions ! i)\<rparr>]) = Inr racts'"
    "read_inv actions offs (ks @ [i]) (if hasNextAction (actions ! i) then Some (length ks) else None) bytes
      (roffs @ [offs ! i], racts', max highest highest')"
proof -
  let ?new = "\<lparr>typeFilterIndex = typeFilterIndex (actions ! i), nextAction = 0,
                hasNextAction = hasNextAction (actions ! i)\<rparr>"
  show ?thesis
  proof (cases p)
    case None
    then show ?thesis
      using read_inv_add [of actions offs ks bytes roffs racts highest, OF _ i h] inv that
      by (simp add: set_next_action_def)
  next
    case (Some m)
    have "ks ! m \<in> set ks" using p [OF Some] by (intro nth_mem) simp
    moreover have "set ks \<subseteq> {..<length actions}" using inv by (simp add: read_inv_def)
    ultimately have mem: "ks ! m \<in> set ks" "ks ! m < length actions" by auto
    have m: "m < length ks" "length racts = length ks" "ks ! m < length actions" "ks ! m \<noteq> i"
      "hasNextAction (actions ! (ks ! m))" "next_idx (actions ! (ks ! m)) = i"
      using inv p [OF Some] i mem by (auto simp: read_inv_def)
    let ?r = "(racts @ [?new])[m := ((racts @ [?new]) ! m)\<lparr>nextAction := of_nat (length ks)\<rparr>]"
    have s: "set_next_action p (length ks) (racts @ [?new]) = Inr ?r"
      using m Some by (simp add: set_next_action_def)
    have "?r ! k = renamed (ks @ [i]) (actions ! ((ks @ [i]) ! k)) \<and>
        (hasNextAction (actions ! ((ks @ [i]) ! k)) \<longrightarrow> next_idx (actions ! ((ks @ [i]) ! k)) \<in> set (ks @ [i]))"
      if k: "k < length ks" for k
    proof (cases "k = m")
      case True
      then show ?thesis using inv m Some i
        by (auto simp: read_inv_def nth_append renamed_def pos_last)
    next
      case False
      then show ?thesis using inv m Some k
        by (auto simp: read_inv_def nth_append renamed_append)
    qed
    then have "read_inv actions offs (ks @ [i]) (if hasNextAction (actions ! i) then Some (length ks) else None) bytes
      (roffs @ [offs ! i], ?r, max highest highest')"
      using inv m i h by (auto simp: read_inv_def less_Suc_eq nth_append renamed_def max_def)
    with s show ?thesis by (rule that)
  qed
qed

lemma read_chain_ok:
  assumes ok: "acts_ok actions" "no_self_loop actions"
    and inv: "acts_inv actions {..<length actions} {} offs bytes"
    and data: "drop base data = bytes @ rest" "base + length bytes < 2 ^ 32"
  shows "i < length actions \<Longrightarrow> read_inv actions offs ks p bytes st \<Longrightarrow>
    (\<And>m. p = Some m \<Longrightarrow> m < length ks \<and> hasNextAction (actions ! (ks ! m)) \<and> next_idx (actions ! (ks ! m)) = i) \<Longrightarrow>
    length actions - length ks < fuel \<Longrightarrow>
    \<exists>ls st'. read_chain fuel data base (offs ! i) p st = Inr (pos (ks @ ls) i, st') \<and>
      read_inv actions offs (ks @ ls) None bytes st' \<and> i \<in> set (ks @ ls)"
proof (induction fuel arbitrary: i ks p st)
  case 0
  then show ?case by simp
next
  case (Suc fuel)
  obtain roffs racts highest where st: "st = (roffs, racts, highest)" by (cases st)
  note ri = Suc.prems(2) [unfolded st]
  have ks: "set ks \<subseteq> {..<length actions}" "distinct ks" "roffs = map ((!) offs) ks" "length racts = length ks"
    using ri by (simp_all add: read_inv_def)
  have "inj_on ((!) offs) {..<length actions}" using inv by (simp add: acts_inv_def)
  then have "inj_on ((!) offs) (insert i (set ks))"
    by (rule inj_on_subset) (use Suc.prems(1) ks(1) in simp)
  then have idx: "index_of (offs ! i) roffs = index_of i ks" unfolding ks(3) by (rule index_of_map)
  show ?case
  proof (cases "i \<in> set ks")
    case True
    then have "index_of i ks = Some (pos ks i)" using index_of_None_iff [of i ks] by (auto simp: pos_def)
    moreover obtain racts' where "set_next_action p (pos ks i) racts = Inr racts'"
      "read_inv actions offs ks None bytes (roffs, racts', highest)"
      by (rule read_inv_set_next [OF ri True Suc.prems(3)])
    ultimately show ?thesis using idx st True by (intro exI [of _ "[]"]) simp
  next
    case False
    let ?a = "actions ! i"
    have none: "index_of (offs ! i) roffs = None" using idx False by (simp add: index_of_None_iff)
    obtain h where h: "read_action data base (offs ! i) (roffs, racts, highest) =
       Inr (length racts, hasNextAction ?a, (if hasNextAction ?a then offs ! next_idx ?a else offs ! i),
         roffs @ [offs ! i],
         racts @ [\<lparr>typeFilterIndex = typeFilterIndex ?a, nextAction = 0, hasNextAction = hasNextAction ?a\<rparr>],
         max highest h)" "unat h \<le> length bytes"
      by (rule read_action_ok [OF ok inv data Suc.prems(1)])
    obtain racts' where r: "set_next_action p (length ks) (racts @ [\<lparr>typeFilterIndex = typeFilterIndex ?a,
          nextAction = 0, hasNextAction = hasNextAction ?a\<rparr>]) = Inr racts'"
      "read_inv actions offs (ks @ [i]) (if hasNextAction ?a then Some (length ks) else None) bytes
        (roffs @ [offs ! i], racts', max highest h)"
      by (rule read_inv_pending [OF ri Suc.prems(1) False Suc.prems(3) h(2)])
    have last: "pos (ks @ i # ls) i = length ks" for ls
      using pos_append [of i "ks @ [i]" ls] pos_last [OF False] by simp
    show ?thesis
    proof (cases "hasNextAction ?a")
      case no: False
      then show ?thesis using st none h r ks(4) last by (intro exI [of _ "[i]"]) simp
    next
      case yes: True
      have "next_idx ?a < length actions"
        using ok(1) Suc.prems(1) yes by (simp add: acts_ok_def list_all_length)
      moreover have "length ks < length actions"
      proof -
        have "insert i (set ks) \<subseteq> {..<length actions}" using ks(1) Suc.prems(1) by simp
        from card_mono [OF _ this] show ?thesis using False distinct_card [OF ks(2)] by simp
      qed
      ultimately obtain ls st' where "read_chain fuel data base (offs ! next_idx ?a) (Some (length ks))
          (roffs @ [offs ! i], racts', max highest h) = Inr (pos ((ks @ [i]) @ ls) (next_idx ?a), st')"
        "read_inv actions offs ((ks @ [i]) @ ls) None bytes st'"
      proof -
        have "length actions - length (ks @ [i]) < fuel" using \<open>length ks < length actions\<close> Suc.prems(4) by simp
        from Suc.IH [OF \<open>next_idx ?a < length actions\<close> r(2) [unfolded if_P [OF yes]] _ this] yes
        show ?thesis using that by auto
      qed
      then show ?thesis using st none h r ks(4) last yes by (intro exI [of _ "i # ls"]) simp
    qed
  qed
qed

end
