(* ===== verification/Except_Fields.thy ===== *)
theory Except_Fields
  imports Except_Chains
begin

text \<open>
  The field with the offset of the type table: the writer has to know its length before its value,
  and gets it right.
\<close>

section \<open>Lengths of LEB128 numbers\<close>

lemma leb_int_less: "leb_int s < 2 ^ (7 * length s)"
proof -
  have "take_bit (7 * length s) (leb_int s) = leb_int s"
    by (rule bit_eqI) (auto simp: bit_take_bit_iff dest: bit_leb_int_less)
  then show ?thesis by (metis take_bit_int_less_exp)
qed

lemma bit_int_le: "0 \<le> (x :: int) \<Longrightarrow> bit x n \<Longrightarrow> 2 ^ n \<le> x"
  by (metis bit_take_bit_iff less_irrefl not_le take_bit_int_eq_self)

lemma leb_int_ge:
  assumes "leb_wf s" "last s \<noteq> 0" "0 \<le> leb_int s"
  shows "2 ^ (7 * (length s - 1)) \<le> leb_int s"
proof -
  let ?n = "length s - 1"
  have n: "?n < length s" "last s = s ! ?n" "\<not> bit (s ! ?n) 7"
    using assms(1) by (auto simp: leb_wf_def last_conv_nth)
  obtain k where k: "bit (s ! ?n) k" using assms(2) n(2) by (auto simp: bit_eq_iff)
  then have "k < 8" using bit_imp_le_length by force
  with k n(3) have "k < 7" by (cases "k = 7") auto
  then have "bit (leb_int s) (7 * ?n + k)" using bit_septet [OF n(1)] k by simp
  from bit_int_le [OF assms(3) this] have "2 ^ (7 * ?n + k) \<le> leb_int s" .
  moreover have "(2 :: int) ^ (7 * ?n) \<le> 2 ^ (7 * ?n + k)" by (rule power_increasing) simp_all
  ultimately show ?thesis by (rule order_trans [rotated])
qed

lemma uleb_length_le: "uint w < 2 ^ (7 * n) \<Longrightarrow> 0 < n \<Longrightarrow> length (uleb w) \<le> n"
proof (rule ccontr)
  assume a: "uint w < 2 ^ (7 * n)" "0 < n" "\<not> length (uleb w) \<le> n"
  then have l: "last (uleb w) \<noteq> 0" using uleb_spec(4) [of w] by auto
  have "2 ^ (7 * (length (uleb w) - 1)) \<le> uint w"
    using leb_int_ge [OF uleb_spec(1) l] by (simp add: uleb_spec(2))
  moreover have "(2 :: int) ^ (7 * n) \<le> 2 ^ (7 * (length (uleb w) - 1))"
    using a by (intro power_increasing) auto
  ultimately have "2 ^ (7 * n) \<le> uint w" by (rule order_trans [rotated])
  with a(1) show False by (simp only: not_less [symmetric] simp_thms)
qed

lemma uleb_length_less: "uint w < 2 ^ (7 * length (uleb w))"
  using leb_int_less [of "uleb w"] by (simp add: uleb_spec(2))

lemma uleb_length_mono: "uint v \<le> uint w \<Longrightarrow> length (uleb v) \<le> length (uleb w)"
  using uleb_length_less [of w] by (intro uleb_length_le) auto

section \<open>Room\<close>

lemma and_0x70: "bit (b :: byte) 4 \<Longrightarrow> bit b 5 \<Longrightarrow> bit b 6 \<Longrightarrow> b AND 0x70 = 0x70"
proof (rule bit_word_eqI)
  fix n
  assume b: "bit b 4" "bit b 5" "bit b 6" and "n < LENGTH(8)"
  then have "n \<in> {0, 1, 2, 3, 4, 5, 6, 7}" by auto
  with b show "bit (b AND 0x70) n = bit (0x70 :: byte) n" by (auto simp: bit_and_iff)
qed

lemma unset_bit_room:
  assumes "0 \<le> (g :: int)" "g < 2 ^ N" "\<not> bit g j" "j < N"
  shows "g + 2 ^ j < 2 ^ N"
proof -
  have "g + 2 ^ j = set_bit j g" using assms(3) by (simp add: set_bit_eq)
  moreover have "take_bit N (set_bit j g) = set_bit j g"
    using assms by (simp add: take_bit_set_bit_eq take_bit_int_eq_self)
  ultimately show ?thesis by (metis take_bit_int_less_exp)
qed

lemma wiggle_room_spec:
  assumes "wiggle_room s" "0 \<le> leb_int s"
  shows "leb_int s + 16 \<le> 2 ^ (7 * length s)"
proof -
  obtain idx where i: "idx < length s"
    "(s ! idx AND 0x7F \<noteq> 0x7F \<and> 0 < idx) \<or> s ! idx AND 0x70 \<noteq> 0x70"
    using assms(1) by (auto simp: wiggle_room_def list_ex_iff)
  have "\<exists>k<7. \<not> bit (s ! idx) k \<and> 4 \<le> 7 * idx + k"
  proof (cases "s ! idx AND 0x70 \<noteq> 0x70")
    case True
    then have "\<not> bit (s ! idx) 4 \<or> \<not> bit (s ! idx) 5 \<or> \<not> bit (s ! idx) 6" using and_0x70 by blast
    then show ?thesis
      by (elim disjE) (rule exI [of _ 4], simp, rule exI [of _ 5], simp, rule exI [of _ 6], simp)
  next
    case False
    with i have "0 < idx" "s ! idx AND 0x7F \<noteq> (if True then 0x7F else 0)" by simp_all
    then show ?thesis unfolding septet_eq_const by auto
  qed
  then obtain k where k: "k < 7" "\<not> bit (s ! idx) k" "4 \<le> 7 * idx + k" by blast
  let ?j = "7 * idx + k"
  have "\<not> bit (leb_int s) ?j" using bit_septet [OF i(1) k(1)] k(2) by simp
  moreover have "?j < 7 * length s" using i(1) k(1) by simp
  ultimately have "leb_int s + 2 ^ ?j < 2 ^ (7 * length s)"
    using unset_bit_room [OF assms(2) leb_int_less] by blast
  moreover have "(2 :: int) ^ 4 \<le> 2 ^ ?j" using k(3) by (intro power_increasing) simp_all
  ultimately show ?thesis by simp
qed

section \<open>The field\<close>

lemma leb_wf_pad:
  assumes "leb_wf s"
  shows "leb_wf (s[length s - 1 := last s OR 0x80] @ [0])"
    "leb_int (s[length s - 1 := last s OR 0x80] @ [0]) = leb_int s"
proof -
  have ne: "s \<noteq> []" "last s = s ! (length s - 1)" using assms by (auto simp: leb_wf_def last_conv_nth)
  have b: "bit (last s OR 0x80) k \<longleftrightarrow> bit (last s) k \<or> k = 7" for k
    using bit_push_bit_iff [of 7 "1 :: byte" k] by (auto simp: bit_or_iff bit_1_iff dest: bit_imp_le_length)
  show "leb_wf (s[length s - 1 := last s OR 0x80] @ [0])"
    using assms ne b by (auto simp: leb_wf_def nth_append nth_list_update less_Suc_eq)
  show "leb_int (s[length s - 1 := last s OR 0x80] @ [0]) = leb_int s"
  proof (rule bit_eqI)
    fix j :: nat
    have "j mod 7 < 7" by simp
    then show "bit (leb_int (s[length s - 1 := last s OR 0x80] @ [0])) j = bit (leb_int s) j"
      using ne b by (auto simp: bit_leb_int nth_append nth_list_update less_Suc_eq)
  qed
qed

lemma misalignment_spec: "misalignment n < 4" "4 dvd n + misalignment n"
proof -
  show "misalignment n < 4" by (simp add: misalignment_def)
  have "(n + (4 - n mod 4)) mod 4 = 0" if "n mod 4 \<noteq> 0"
  proof -
    have "n = 4 * (n div 4) + n mod 4" by simp
    moreover have "n mod 4 < 4" by simp
    ultimately have "n + (4 - n mod 4) = 4 * (n div 4) + 4" by linarith
    then show ?thesis by simp
  qed
  then show "4 dvd n + misalignment n" by (auto simp: misalignment_def dvd_eq_mod_eq_0)
qed

lemma tt_base_field_ok:
  assumes small: "between + ttSize < 2 ^ 32"
  obtains field mis bs where "tt_base_field before between ttSize = Inr (field, length field, mis)"
    "mis < 4" "4 dvd before + length field + between + mis" "length field \<le> 10" "length bs \<le> 8"
    "le_word bs = (of_nat (between + mis + ttSize) :: addr_t)"
    "\<And>rest. decodeLEB128 (field @ rest) False = Inr (bs, length bs, length field)"
proof -
  define g where "g = between + ttSize"
  let ?g = "uleb (of_nat g)"
  define nb where "nb = (if wiggle_room ?g then length ?g else length ?g + 1)"
  define mis where "mis = misalignment (before + nb + between)"
  note mis = misalignment_spec [of "before + nb + between", folded mis_def]
  let ?v = "of_nat (g + mis) :: addr_t" and ?l = "uleb (of_nat (g + mis))"
  have u: "uint (of_nat g :: addr_t) = int g" "uint ?v = int (g + mis)"
    using small mis(1) by (simp_all add: g_def unsigned_of_nat take_bit_nat_eq_self flip: of_nat_add)
  have "length ?g \<le> length ?l" by (rule uleb_length_mono) (unfold u, simp)
  moreover have "length ?l \<le> nb"
  proof (rule uleb_length_le)
    have g: "int g < 2 ^ (7 * length ?g)" using uleb_length_less [of "of_nat g"] by (simp only: u)
    show "uint ?v < 2 ^ (7 * nb)"
    proof (cases "wiggle_room ?g")
      case True
      have "int g + 16 \<le> 2 ^ (7 * length ?g)"
        using wiggle_room_spec [OF True] by (simp only: uleb_spec(2) u)
      then show ?thesis using mis(1) True unfolding u by (simp add: nb_def)
    next
      case False
      have "(2 :: int) ^ (7 * nb) = 128 * 2 ^ (7 * length ?g)" using False by (simp add: nb_def power_add)
      moreover have "(1 :: int) \<le> 2 ^ (7 * length ?g)" by simp
      then have "int g + int mis < 128 * 2 ^ (7 * length ?g)" using g mis(1) by linarith
      ultimately show ?thesis unfolding u by (simp only: of_nat_add [where 'a = int])
    qed
    show "0 < nb" using uleb_pos(2) [of "of_nat g"] by (simp add: nb_def del: uleb_pos)
  qed
  ultimately have len: "length ?l = nb \<or> length ?l + 1 = nb" by (auto simp: nb_def split: if_splits)
  define field where "field = (if length ?l < nb then ?l[length ?l - 1 := last ?l OR 0x80] @ [0] else ?l)"
  have field: "leb_wf field" "leb_int field = int (g + mis)" "length field = nb"
    using leb_wf_pad [OF uleb_spec(1)] uleb_spec(1,2) [of "of_nat (g + mis)"] len u(2)
    by (auto simp: field_def)
  have "length ?l \<le> 5"
  proof (rule uleb_length_le)
    have "int (g + mis) < 2 ^ 35" using small mis(1) by (simp add: g_def)
    then show "uint ?v < 2 ^ (7 * 5)" unfolding u by simp
  qed simp
  then have nb: "nb \<le> 10" using len by auto
  obtain bs where bs: "decodeLEB128 (field @ []) False = Inr (bs, to_usint (length bs), to_usint (length field))"
    "le_int bs = leb_int field"
    "\<And>L. 0 < L \<Longrightarrow> length field \<le> num_septets L \<Longrightarrow> leb_int field < 2 ^ (8 * L) \<Longrightarrow> length bs \<le> L"
    by (rule decode_unsigned_spec [OF field(1)]) blast
  have b8: "length bs \<le> 8"
    using nb small mis(1) field by (intro bs(3)) (simp_all add: num_septets_def g_def)
  have "tt_base_field before between ttSize = Inr (field, nb, mis)"
  proof -
    have v: "before + nb + between + mis + ttSize - before - nb = g + mis" by (simp add: g_def)
    have eq: "tt_base_field before between ttSize =
      (if length ?l < nb then
         bindE (guardE (nb - length ?l = 1) AssertFail) (\<lambda>_.
         bindE (elem_at ?l (nb - 2)) (\<lambda>b. Inr (?l[nb - 2 := b OR 0x80] @ [0], nb, mis)))
       else Inr (?l, nb, mis))"
      unfolding tt_base_field_def Let_def uleb_encode bindE_simps
        g_def [symmetric] nb_def [symmetric] mis_def [symmetric] v ..
    show ?thesis
    proof (cases "length ?l < nb")
      case True
      then have "nb - length ?l = 1" "nb - 2 = length ?l - 1" using len by auto
      with True show ?thesis unfolding eq field_def by (simp add: last_conv_nth)
    next
      case False
      then show ?thesis unfolding eq field_def by simp
    qed
  qed
  moreover have "decodeLEB128 (field @ rest) False = Inr (bs, length bs, length field)" for rest
    using bs(1) b8 nb field decodeLEB128_wf_append [OF field(1), of rest] by simp
  moreover have "le_word bs = (of_nat (between + mis + ttSize) :: addr_t)"
    using bs(2) field(2) by (simp add: le_word_def g_def algebra_simps)
  ultimately show ?thesis using that [of field mis bs] mis field(3) nb b8 by auto
qed

end
