(* ===== verification/Except_Pieces.thy ===== *)
theory Except_Pieces
  imports Except_Fields
begin

text \<open>
  The other pieces of an LSDA: call sites, header and type table, each as the bytes the writer
  appends and as what the reader makes of them at a position of the section.
\<close>

section \<open>Positions in the section\<close>

text \<open>\<open>bytes_at data p xs\<close>: the section has the bytes \<open>xs\<close> at position \<open>p\<close>.\<close>

definition bytes_at :: "byte list \<Rightarrow> nat \<Rightarrow> byte list \<Rightarrow> bool" where
  "bytes_at data p xs \<longleftrightarrow> (\<exists>rest. drop p data = xs @ rest) \<and> p \<le> length data"

lemma bytes_at_append:
  "bytes_at data p (xs @ ys) \<longleftrightarrow> bytes_at data p xs \<and> bytes_at data (p + length xs) ys"
proof
  assume "bytes_at data p (xs @ ys)"
  then obtain rest where r: "drop p data = xs @ ys @ rest" "p \<le> length data" by (auto simp: bytes_at_def)
  have "drop (p + length xs) data = drop (length xs) (drop p data)" by (simp add: add.commute)
  also have "\<dots> = ys @ rest" unfolding r(1) by simp
  finally have d: "drop (p + length xs) data = ys @ rest" .
  have "p + length xs \<le> length data" using arg_cong [OF r(1), of length] r(2) by simp
  with r d show "bytes_at data p xs \<and> bytes_at data (p + length xs) ys" by (auto simp: bytes_at_def)
next
  assume a: "bytes_at data p xs \<and> bytes_at data (p + length xs) ys"
  then obtain r1 r2 where r: "drop p data = xs @ r1" "drop (p + length xs) data = ys @ r2" by (auto simp: bytes_at_def)
  have "drop (p + length xs) data = drop (length xs) (drop p data)" by (simp add: add.commute)
  also have "\<dots> = r1" unfolding r(1) by simp
  finally have "r1 = ys @ r2" using r(2) by simp
  with r(1) a show "bytes_at data p (xs @ ys)" by (auto simp: bytes_at_def)
qed

lemma bytes_at_le: "bytes_at data p xs \<Longrightarrow> p + length xs \<le> length data"
  by (auto simp: bytes_at_def dest: arg_cong [of _ _ length])

lemma bytes_at_elem: "bytes_at data p [x] \<Longrightarrow> elem_at data p = Inr x"
  by (auto simp: bytes_at_def elem_at_def nth_via_drop dest: arg_cong [of _ _ length])

lemma bytes_at_take: "bytes_at data p xs \<Longrightarrow> take (length xs) (drop p data) = xs"
  by (auto simp: bytes_at_def)

lemma word_bytes_le_word: "length bs \<le> 8 \<Longrightarrow> word_bytes (length bs) (le_word bs :: word_t) = bs"
proof (rule le_int_inject)
  assume l: "length bs \<le> 8"
  have "le_int bs < 2 ^ (8 * length bs)" by (rule le_int_less)
  moreover have "(2 :: int) ^ (8 * length bs) \<le> 2 ^ 64" using l by (intro power_increasing) simp_all
  ultimately have "take_bit 64 (le_int bs) = le_int bs" "take_bit (8 * length bs) (le_int bs) = le_int bs"
    by (simp_all add: take_bit_int_eq_self)
  then show "le_int (word_bytes (length bs) (le_word bs :: word_t)) = le_int bs"
    by (simp add: le_int_word_bytes le_word_def unsigned_of_int)
qed simp

section \<open>Pointers\<close>

lemma read_ptr_leb:
  assumes "bytes_at data p s" "leb_wf s" "length s \<le> 10" "leb_int s < 2 ^ 64"
  shows "read_ptr bitwidth data sectionAddress (of_nat DW_EH_PE_uleb128) p = Inr (word_of_int (leb_int s), length s)"
proof -
  obtain rest where d: "drop p data = s @ rest" using assms(1) by (auto simp: bytes_at_def)
  obtain bs where bs: "decodeLEB128 (s @ rest) False = Inr (bs, to_usint (length bs), to_usint (length s))"
    "le_int bs = leb_int s"
    "\<And>L. 0 < L \<Longrightarrow> length s \<le> num_septets L \<Longrightarrow> leb_int s < 2 ^ (8 * L) \<Longrightarrow> length bs \<le> L"
    by (rule decode_unsigned_spec [OF assms(2)]) blast
  have "length bs \<le> 8" using assms by (intro bs(3)) (simp_all add: num_septets_def)
  moreover have "eh_format (of_nat DW_EH_PE_uleb128) = DW_EH_PE_uleb128" "eh_application (of_nat DW_EH_PE_uleb128) = 0"
    by (simp_all add: eh_format_def eh_application_def)
  ultimately show ?thesis
    using bs(1,2) assms(3) by (simp add: read_ptr_def decodeEHPointer_def eh_leb_def d Let_def le_word_def)
qed

lemma read_ptr_uleb:
  "bytes_at data p (uleb w) \<Longrightarrow>
   read_ptr bitwidth data sectionAddress (of_nat DW_EH_PE_uleb128) p = Inr (w, length (uleb w))"
  using read_ptr_leb [OF _ uleb_spec(1,3)] uint_lt2p [of w] by (simp add: uleb_spec(2))

lemma decode_fixed:
  assumes "eh_supported encoding" "bitwidth \<in> {0, 32, 64}"
    and n: "getPointerSizeFromEHPointerEncoding bitwidth encoding = Inr n" "n \<le> length xs" "n \<le> len"
  shows "decodeEHPointer bitwidth xs len loc encoding =
    Inr (le_word (take n xs) + eh_base encoding loc, eh_reported encoding n)"
proof -
  have n8: "n \<le> 8" and dec: "\<And>v rest. decodeEHPointer bitwidth (word_bytes n v @ rest) len loc encoding =
       Inr (take_bit (8 * n) v + eh_base encoding loc, eh_reported encoding n)"
    by (rule eh_codec [OF assms(1,2)], use n in simp)+
  let ?v = "le_word (take n xs) :: word_t"
  have l: "length (take n xs) = n" using n(2) by simp
  have w: "word_bytes n ?v = take n xs" using word_bytes_le_word [of "take n xs"] l n8 by simp
  have "decodeEHPointer bitwidth (take n xs @ drop n xs) len loc encoding =
      Inr (take_bit (8 * n) ?v + eh_base encoding loc, eh_reported encoding n)"
    using dec [of ?v "drop n xs"] w by simp
  moreover have "take_bit (8 * n) ?v = ?v"
    using le_word_word_bytes_take [of n ?v] w by simp
  ultimately show ?thesis by simp
qed

section \<open>Call sites\<close>

definition site_action :: "addr_t list \<Rightarrow> CallSiteRecord \<Rightarrow> word_t" where
  "site_action offs c = (if cs_hasAction c then 1 + offs ! unat (cs_firstAction c) else 0)"

definition site_bytes :: "addr_t list \<Rightarrow> CallSiteRecord \<Rightarrow> byte list" where
  "site_bytes offs c = uleb (cs_position c) @ uleb (cs_length c) @ uleb (cs_landingPadPosition c) @
     uleb (site_action offs c)"

text \<open>What is read before the action table: the action as an offset.\<close>

definition site_offset :: "addr_t list \<Rightarrow> CallSiteRecord \<Rightarrow> CallSiteRecord" where
  "site_offset offs c = c\<lparr>cs_firstAction := (if cs_hasAction c then offs ! unat (cs_firstAction c) else - 1)\<rparr>"

lemma uleb_0: "uleb 0 = [0]"
  unfolding uleb_def by code_simp

lemma write_call_site_ok:
  assumes "gb_wf buf" "cs_hasAction c \<Longrightarrow> unat (cs_firstAction c) < n" "length offs = n"
  obtains buf' where "write_call_site offs n c buf = Inr buf'" "gb_wf buf'"
    "gb_contents buf' = gb_contents buf @ site_bytes offs c"
proof -
  obtain b1 where b1: "addUlebToGrowingBuffer buf (cs_position c) = Inr b1" "gb_wf b1"
    "gb_contents b1 = gb_contents buf @ uleb (cs_position c)" by (rule addUleb_ok [OF assms(1)])
  obtain b2 where b2: "addUlebToGrowingBuffer b1 (cs_length c) = Inr b2" "gb_wf b2"
    "gb_contents b2 = gb_contents b1 @ uleb (cs_length c)" by (rule addUleb_ok [OF b1(2)])
  obtain b3 where b3: "addUlebToGrowingBuffer b2 (cs_landingPadPosition c) = Inr b3" "gb_wf b3"
    "gb_contents b3 = gb_contents b2 @ uleb (cs_landingPadPosition c)" by (rule addUleb_ok [OF b2(2)])
  obtain b4 where b4: "addUlebToGrowingBuffer b3 (site_action offs c) = Inr b4" "gb_wf b4"
    "gb_contents b4 = gb_contents b3 @ uleb (site_action offs c)" by (rule addUleb_ok [OF b3(2)])
  obtain b5 where b5: "addToGrowingBuffer b3 [0] 1 = Inr b5" "gb_wf b5"
    "gb_contents b5 = gb_contents b3 @ [0]" by (rule addByte_ok [OF b3(2)])
  show ?thesis
  proof (cases "cs_hasAction c")
    case True
    then show ?thesis
      using that [of b4] assms(2,3) b1 b2 b3 b4 by (simp add: write_call_site_def site_bytes_def site_action_def)
  next
    case False
    then show ?thesis
      using that [of b5] b1 b2 b3 b5 by (simp add: write_call_site_def site_bytes_def site_action_def uleb_0)
  qed
qed

lemma write_call_sites_ok:
  "gb_wf buf \<Longrightarrow> list_all (\<lambda>c. cs_hasAction c \<longrightarrow> unat (cs_firstAction c) < n) cs \<Longrightarrow> length offs = n \<Longrightarrow>
   \<exists>buf'. write_call_sites offs n cs buf = Inr buf' \<and> gb_wf buf' \<and>
     gb_contents buf' = gb_contents buf @ concat (map (site_bytes offs) cs)"
proof (induction cs arbitrary: buf)
  case (Cons c cs)
  obtain b1 where "write_call_site offs n c buf = Inr b1" "gb_wf b1"
    "gb_contents b1 = gb_contents buf @ site_bytes offs c"
    by (rule write_call_site_ok [OF Cons.prems(1), of c n offs]) (use Cons.prems in simp_all)
  with Cons.IH [of b1] Cons.prems show ?case by auto
qed simp

lemma site_bytes_length: "0 < length (site_bytes offs c)" "length (site_bytes offs c) \<le> 40"
proof -
  have "length (uleb w) \<le> 10" for w by (rule uleb_spec(3))
  from add_mono [OF add_mono [OF this this] add_mono [OF this this]]
  show "length (site_bytes offs c) \<le> 40" by (simp add: site_bytes_def add.assoc)
qed (simp add: site_bytes_def)

lemma sites_length: "length cs \<le> length (concat (map (site_bytes offs) cs))"
  "length (concat (map (site_bytes offs) cs)) \<le> 40 * length cs"
proof (induction cs)
  case (Cons c cs)
  {
    case 1
    show ?case using Cons(1) site_bytes_length(1) [of offs c] by (simp del: length_greater_0_conv)
  next
    case 2
    show ?case using Cons(2) site_bytes_length(2) [of offs c] by simp
  }
qed simp_all

lemma read_call_site_ok:
  assumes at: "bytes_at data p (site_bytes offs c)"
    and small: "cs_hasAction c \<Longrightarrow> offs ! unat (cs_firstAction c) \<noteq> - 1"
  shows "read_call_site bitwidth data sectionAddress (of_nat DW_EH_PE_uleb128) p =
    Inr (site_offset offs c, length (site_bytes offs c))"
proof -
  have b: "bytes_at data p (uleb (cs_position c))"
    "bytes_at data (p + length (uleb (cs_position c))) (uleb (cs_length c))"
    "bytes_at data (p + length (uleb (cs_position c)) + length (uleb (cs_length c))) (uleb (cs_landingPadPosition c))"
    "bytes_at data (p + length (uleb (cs_position c)) + length (uleb (cs_length c)) + length (uleb (cs_landingPadPosition c)))
      (uleb (site_action offs c))"
    using at unfolding site_bytes_def bytes_at_append by (simp_all add: add.assoc)
  have "site_action offs c \<noteq> 0 \<longleftrightarrow> cs_hasAction c"
    using small by (auto simp: site_action_def add_eq_0_iff eq_commute [of "- 1"] minus_equation_iff [of 1])
  then show ?thesis
    unfolding read_call_site_def read_ptr_uleb [OF b(1)] read_ptr_uleb [OF b(2)] read_ptr_uleb [OF b(3)]
      read_ptr_uleb [OF b(4)] bindE_simps prod.case
    by (auto simp: site_offset_def site_bytes_def site_action_def add.assoc)
qed

lemma read_call_sites_ok:
  "bytes_at data (offset + i) (concat (map (site_bytes offs) cs)) \<Longrightarrow>
   (\<And>c. c \<in> set cs \<Longrightarrow> cs_hasAction c \<Longrightarrow> offs ! unat (cs_firstAction c) \<noteq> - 1) \<Longrightarrow>
   i + length (concat (map (site_bytes offs) cs)) = unat tsize \<Longrightarrow> length cs \<le> fuel \<Longrightarrow>
   read_call_sites fuel bitwidth data sectionAddress (of_nat DW_EH_PE_uleb128) offset tsize i =
     Inr (map (site_offset offs) cs, unat tsize)"
proof (induction cs arbitrary: i fuel)
  case Nil
  then show ?case by (simp add: read_call_sites.simps)
next
  case (Cons c cs)
  obtain fuel' where f: "fuel = Suc fuel'" using Cons.prems(4) by (cases fuel) auto
  have b: "bytes_at data (offset + i) (site_bytes offs c)"
    "bytes_at data (offset + (i + length (site_bytes offs c))) (concat (map (site_bytes offs) cs))"
    using Cons.prems(1) by (simp_all add: bytes_at_append add.assoc)
  have len: "i < unat tsize" "offset + i \<le> length data" "i + length (site_bytes offs c) \<le> unat tsize"
    using Cons.prems(3) site_bytes_length(1) [of offs c] b(1)
    by (simp_all add: bytes_at_def del: length_greater_0_conv)
  have r: "read_call_site bitwidth data sectionAddress (of_nat DW_EH_PE_uleb128) (offset + i) =
      Inr (site_offset offs c, length (site_bytes offs c))"
    by (rule read_call_site_ok [OF b(1)]) (use Cons.prems(2) in simp)
  have "read_call_sites fuel' bitwidth data sectionAddress (of_nat DW_EH_PE_uleb128) offset tsize
      (i + length (site_bytes offs c)) = Inr (map (site_offset offs) cs, unat tsize)"
    by (rule Cons.IH [OF b(2)]) (use Cons.prems f in simp_all)
  with len r f show ?case by (subst read_call_sites.simps) (simp del: of_nat_1)
qed

section \<open>Type table\<close>

definition type_bytes :: "byte \<Rightarrow> addr_t \<Rightarrow> nat \<Rightarrow> word_t list \<Rightarrow> nat \<Rightarrow> byte list" where
  "type_bytes encoding base n types j =
     concat (map (\<lambda>k. word_bytes n (types ! k - eh_base encoding base)) (rev [0..<j]))"

lemma length_type_bytes [simp]: "length (type_bytes encoding base n types j) = j * n"
  by (induction j) (simp_all add: type_bytes_def)

text \<open>
  All pc-relative entries are written relative to the same place, that of the entry with index 0,
  because \<^verbatim>\<open>buf->len\<close> already moves while \<^verbatim>\<open>j*ttEntrySize\<close> is subtracted from it once more.
\<close>

lemma write_types_ok:
  assumes sup: "eh_supported (ttEncoding lsda)" "bitwidth \<in> {0, 32, 64}"
    and n: "getPointerSizeFromEHPointerEncoding bitwidth (ttEncoding lsda) = Inr n"
  shows "gb_wf buf \<Longrightarrow> j \<le> length (typeTable lsda) \<Longrightarrow> base = exc + of_nat (gb_len buf + j * n - n) \<Longrightarrow>
    \<exists>buf'. write_types bitwidth exc lsda n j buf = Inr buf' \<and> gb_wf buf' \<and>
      gb_contents buf' = gb_contents buf @ type_bytes (ttEncoding lsda) base n (typeTable lsda) j"
proof (induction j arbitrary: buf)
  case 0
  then show ?case by (simp add: type_bytes_def)
next
  case (Suc j)
  have n8: "n \<le> 8" and enc: "\<And>p loc. encodeEHPointerFromEncoding bitwidth p (ttEncoding lsda) loc =
      Inr (p - eh_base (ttEncoding lsda) loc, n)"
    by (rule eh_codec [OF sup], use n in simp)+
  have b: "exc + of_nat (gb_len buf) + of_nat (j * n) = base" using Suc.prems(3) by (simp add: algebra_simps)
  let ?v = "typeTable lsda ! j - eh_base (ttEncoding lsda) base"
  obtain b1 where b1: "addToGrowingBuffer buf (word_bytes 8 ?v) n = Inr b1" "gb_wf b1"
    "gb_contents b1 = gb_contents buf @ take n (word_bytes 8 ?v)" "gb_len b1 = gb_len buf + n"
    using addToGrowingBuffer_ok [OF Suc.prems(1), of n "word_bytes 8 ?v"] n8 by auto
  have "base = exc + of_nat (gb_len b1 + j * n - n)" using Suc.prems(3) b1(4) by (simp add: algebra_simps)
  with Suc.IH [OF b1(2)] Suc.prems(2) obtain b2 where b2: "write_types bitwidth exc lsda n j b1 = Inr b2" "gb_wf b2"
    "gb_contents b2 = gb_contents b1 @ type_bytes (ttEncoding lsda) base n (typeTable lsda) j" by auto
  have "take n (word_bytes 8 ?v) = word_bytes n ?v" using n8 by (rule take_word_bytes)
  with b1 b2 b enc Suc.prems(2) show ?case by (auto simp: type_bytes_def)
qed

lemma type_bytes_entry:
  "bytes_at data p (type_bytes encoding base n types j) \<Longrightarrow> k < j \<Longrightarrow>
   bytes_at data (p + j * n - Suc k * n) (word_bytes n (types ! k - eh_base encoding base))"
proof (induction j arbitrary: p)
  case (Suc j)
  have split: "type_bytes encoding base n types (Suc j) =
      word_bytes n (types ! j - eh_base encoding base) @ type_bytes encoding base n types j"
    by (simp add: type_bytes_def)
  note b = Suc.prems(1) [unfolded split bytes_at_append length_word_bytes]
  show ?case
  proof (cases "k = j")
    case True
    with b show ?thesis by simp
  next
    case False
    then have "k < j" using Suc.prems(2) by simp
    from Suc.IH [OF conjunct2 [OF b] this] show ?thesis by (simp add: add.commute add.left_commute)
  qed
qed simp

definition type_at :: "byte \<Rightarrow> byte list \<Rightarrow> addr_t \<Rightarrow> nat \<Rightarrow> nat \<Rightarrow> word_t" where
  "type_at encoding data sectionAddress n p =
     le_word (take n (drop p data)) + eh_base encoding (sectionAddress + of_nat p)"

lemma read_types_ok:
  assumes sup: "eh_supported encoding" "bitwidth \<in> {0, 32, 64}"
    and n: "getPointerSizeFromEHPointerEncoding bitwidth encoding = Inr n" "0 < n"
  shows "offset + T \<le> length data \<Longrightarrow> length data < 2 ^ 32 \<Longrightarrow> T div n < fuel \<Longrightarrow>
    read_types fuel bitwidth data sectionAddress encoding n (of_nat offset) (of_nat T - of_nat n) =
      Inr (map (\<lambda>k. type_at encoding data sectionAddress n (offset + T - Suc k * n)) [0..<T div n])"
proof (induction fuel arbitrary: T)
  case 0
  then show ?case by simp
next
  case (Suc fuel)
  have n8: "n \<le> 8" by (rule eh_codec [OF sup]) (use n in simp)
  have s: "sint (of_nat T - of_nat n :: word_t) = int T - int n"
  proof -
    have "(of_nat T - of_nat n :: word_t) = word_of_int (int T - int n)" by simp
    then have "sint (of_nat T - of_nat n :: word_t) = signed_take_bit 63 (int T - int n)"
      by (simp only: sint_sbintrunc') simp
    also have "\<dots> = int T - int n"
      using Suc.prems(1,2) n8 by (intro signed_take_bit_int_eq_self) simp_all
    finally show ?thesis .
  qed
  show ?case
  proof (cases "T < n")
    case True
    then show ?thesis using s by (subst read_types.simps) simp
  next
    case False
    define p where "p = offset + T - n"
    have p: "(of_nat offset + (of_nat T - of_nat n) :: word_t) = of_nat p"
      "p + n \<le> length data"
      using False Suc.prems(1,2) by (simp_all add: p_def of_nat_diff)
    have u: "unat (of_nat p :: word_t) = p" using p(2) Suc.prems(2) by (intro unat_of_nat_small) simp
    have d: "decodeEHPointer bitwidth (drop p data) n (sectionAddress + of_nat p) encoding =
        Inr (type_at encoding data sectionAddress n p, eh_reported encoding n)"
      using decode_fixed [OF sup n(1), of "drop p data" n "sectionAddress + of_nat p"] p(2)
      by (simp add: type_at_def)
    have dv: "T div n = Suc ((T - n) div n)" using False n(2) by (simp add: le_div_geq)
    have "read_types fuel bitwidth data sectionAddress encoding n (of_nat offset) (of_nat (T - n) - of_nat n) =
      Inr (map (\<lambda>k. type_at encoding data sectionAddress n (offset + (T - n) - Suc k * n)) [0..<(T - n) div n])"
      by (rule Suc.IH) (use Suc.prems False dv in simp_all)
    moreover have "(of_nat (T - n) :: word_t) = of_nat T - of_nat n" using False by (simp add: of_nat_diff)
    moreover have "offset + (T - n) - Suc k * n = offset + T - Suc (Suc k) * n" for k using False by simp
    moreover have "map f [0..<Suc m] = f 0 # map (\<lambda>k. f (Suc k)) [0..<m]" for f :: "nat \<Rightarrow> word_t" and m
      by (simp add: upt_conv_Cons map_Suc_upt [symmetric] del: upt_Suc)
    moreover have "decodeEHPointer bitwidth (drop p data) n
        (sectionAddress + of_nat offset + (of_nat T - of_nat n)) encoding =
        Inr (type_at encoding data sectionAddress n p, eh_reported encoding n)"
      using d by (simp only: add.assoc p(1))
    ultimately show ?thesis
      using s False d p u unfolding dv by (subst read_types.simps) (simp add: p_def [symmetric] del: upt_Suc)
  qed
qed

end
