(* ===== verification/Except_Roundtrip.thy ===== *)
theory Except_Roundtrip
  imports Except_Pieces
begin

text \<open>Whole LSDAs and whole exception tables: what the reader makes of what the writer wrote.\<close>

section \<open>The action table seen from the call sites\<close>

definition site_final :: "nat list \<Rightarrow> CallSiteRecord \<Rightarrow> CallSiteRecord" where
  "site_final ks c = c\<lparr>cs_firstAction := (if cs_hasAction c then of_nat (pos ks (unat (cs_firstAction c))) else - 1)\<rparr>"

lemma actions_le_bytes:
  assumes "acts_inv actions {..<length actions} {} offs bytes"
  shows "length actions \<le> length bytes"
proof -
  have "inj_on (\<lambda>i. unat (offs ! i)) {..<length actions}"
    using assms by (auto simp: acts_inv_def inj_on_def word_unat_eq_iff)
  moreover have "(\<lambda>i. unat (offs ! i)) ` {..<length actions} \<subseteq> {..<length bytes}"
    using assms by (auto simp: acts_inv_def action_at_def)
  ultimately show ?thesis using card_inj_on_le [of "\<lambda>i. unat (offs ! i)" "{..<length actions}" "{..<length bytes}"] by simp
qed

lemma read_actions_ok:
  assumes ok: "acts_ok actions" "no_self_loop actions"
    and inv: "acts_inv actions {..<length actions} {} offs bytes"
    and data: "drop base data = bytes @ rest" "base + length bytes < 2 ^ 32" "length bytes \<le> length data"
  shows "(\<And>c. c \<in> set cs \<Longrightarrow> cs_hasAction c \<Longrightarrow> unat (cs_firstAction c) < length actions) \<Longrightarrow>
    read_inv actions offs ks None bytes st \<Longrightarrow>
    \<exists>ls st'. read_actions data base (map (site_offset offs) cs) st = Inr (map (site_final (ks @ ls)) cs, st') \<and>
      read_inv actions offs (ks @ ls) None bytes st' \<and>
      (\<forall>c\<in>set cs. cs_hasAction c \<longrightarrow> unat (cs_firstAction c) \<in> set (ks @ ls))"
proof (induction cs arbitrary: ks st)
  case Nil
  then show ?case by (intro exI [of _ "[]"]) simp
next
  case (Cons c cs)
  show ?case
  proof (cases "cs_hasAction c")
    case False
    obtain ls st' where "read_actions data base (map (site_offset offs) cs) st = Inr (map (site_final (ks @ ls)) cs, st')"
      "read_inv actions offs (ks @ ls) None bytes st'"
      "\<forall>c\<in>set cs. cs_hasAction c \<longrightarrow> unat (cs_firstAction c) \<in> set (ks @ ls)"
      using Cons.IH [OF _ Cons.prems(2)] Cons.prems(1) by auto
    moreover have "site_offset offs c = site_final (ks @ ls) c" "\<not> cs_hasAction (site_final (ks @ ls) c)"
      using False by (simp_all add: site_offset_def site_final_def)
    ultimately show ?thesis using False by (intro exI [of _ ls]) simp
  next
    case True
    let ?i = "unat (cs_firstAction c)"
    have i: "?i < length actions" using Cons.prems(1) True by simp
    have "length actions - length ks < Suc (length data)"
      using actions_le_bytes [OF inv] data(3) by simp
    from read_chain_ok [OF ok inv data(1,2) i Cons.prems(2) _ this]
    obtain l1 st1 where c: "read_chain (Suc (length data)) data base (offs ! ?i) None st = Inr (pos (ks @ l1) ?i, st1)"
      "read_inv actions offs (ks @ l1) None bytes st1" "?i \<in> set (ks @ l1)" by auto
    obtain l2 st2 where r: "read_actions data base (map (site_offset offs) cs) st1 =
        Inr (map (site_final ((ks @ l1) @ l2)) cs, st2)"
      "read_inv actions offs ((ks @ l1) @ l2) None bytes st2"
      "\<forall>c\<in>set cs. cs_hasAction c \<longrightarrow> unat (cs_firstAction c) \<in> set ((ks @ l1) @ l2)"
      using Cons.IH [OF _ c(2)] Cons.prems(1) by auto
    have "pos ((ks @ l1) @ l2) ?i = pos (ks @ l1) ?i" by (rule pos_append [OF c(3)])
    moreover have "cs_hasAction (site_offset offs c)" "cs_firstAction (site_offset offs c) = offs ! ?i"
      using True by (simp_all add: site_offset_def)
    moreover have "(site_offset offs c)\<lparr>cs_firstAction := of_nat (pos (ks @ l1 @ l2) ?i)\<rparr> = site_final (ks @ l1 @ l2) c"
      using True by (simp add: site_offset_def site_final_def)
    ultimately show ?thesis
      using c r by (intro exI [of _ "l1 @ l2"]) (auto simp del: read_chain.simps)
  qed
qed

section \<open>One LSDA\<close>

definition lsda_writable :: "nat \<Rightarrow> LSDA \<Rightarrow> bool" where
  "lsda_writable bitwidth l \<longleftrightarrow>
     bitwidth \<in> {0, 32, 64} \<and> acts_ok (actionTable l) \<and> no_self_loop (actionTable l) \<and>
     length (callSiteTable l) \<le> 1000000 \<and> length (typeTable l) \<le> 1000000 \<and>
     list_all (\<lambda>c. cs_hasAction c \<longrightarrow> unat (cs_firstAction c) < length (actionTable l)) (callSiteTable l) \<and>
     (ttEncoding l = DW_EH_PE_omit \<or> eh_supported (ttEncoding l))"

definition header_bytes :: "LSDA \<Rightarrow> byte list" where
  "header_bytes l = (if lpStart l \<noteq> 0 then [of_nat DW_EH_PE_uleb128] @ uleb (lpStart l) else [DW_EH_PE_omit]) @ [ttEncoding l]"

lemma write_header_ok:
  assumes "gb_wf buf"
  obtains buf' where "write_header l buf = Inr buf'" "gb_wf buf'" "gb_contents buf' = gb_contents buf @ header_bytes l"
proof -
  obtain b1 where b1: "addToGrowingBuffer buf [of_nat DW_EH_PE_uleb128] 1 = Inr b1" "gb_wf b1"
    "gb_contents b1 = gb_contents buf @ [of_nat DW_EH_PE_uleb128]" by (rule addByte_ok [OF assms])
  obtain b2 where b2: "addUlebToGrowingBuffer b1 (lpStart l) = Inr b2" "gb_wf b2"
    "gb_contents b2 = gb_contents b1 @ uleb (lpStart l)" by (rule addUleb_ok [OF b1(2)])
  obtain b3 where b3: "addToGrowingBuffer buf [DW_EH_PE_omit] 1 = Inr b3" "gb_wf b3"
    "gb_contents b3 = gb_contents buf @ [DW_EH_PE_omit]" by (rule addByte_ok [OF assms])
  define b where "b = (if lpStart l \<noteq> 0 then b2 else b3)"
  have b: "gb_wf b" "gb_contents b @ [ttEncoding l] = gb_contents buf @ header_bytes l"
    using b1 b2 b3 by (simp_all add: b_def header_bytes_def)
  obtain b4 where b4: "addToGrowingBuffer b [ttEncoding l] 1 = Inr b4" "gb_wf b4"
    "gb_contents b4 = gb_contents b @ [ttEncoding l]" by (rule addByte_ok [OF b(1)])
  have "write_header l buf = Inr b4"
    using b1(1) b2(1) b3(1) b4(1) by (simp add: write_header_def b_def split: if_splits)
  with b4 b(2) show ?thesis using that by simp
qed

lemma addBuffer_ok:
  assumes "gb_wf buf" "gb_wf src"
  obtains buf' where "addToGrowingBuffer buf (gb_data src) (gb_len src) = Inr buf'" "gb_wf buf'"
    "gb_contents buf' = gb_contents buf @ gb_contents src"
  using addToGrowingBuffer_ok [OF assms(1), of "gb_len src" "gb_data src"] assms(2)
  by (auto simp: gb_wf_def gb_contents_def)

lemma align_buffer_ok:
  assumes "gb_wf buf" "n \<le> 8"
  obtains buf' where "align_buffer buf n = Inr buf'" "gb_wf buf'"
    "gb_contents buf' = gb_contents buf @ replicate n 0" "gb_len buf' = gb_len buf + n"
proof (cases "n = 0")
  case True
  with assms that [of buf] show ?thesis by (simp add: align_buffer_def)
next
  case False
  have z: "take n (word_bytes 8 (0 :: word_t)) = replicate n 0"
    using assms(2) by (simp add: word_bytes_def map_replicate_const flip: replicate_length_same)
  obtain b where "addToGrowingBuffer buf (word_bytes 8 (0 :: word_t)) n = Inr b" "gb_wf b"
    "gb_contents b = gb_contents buf @ take n (word_bytes 8 (0 :: word_t))" "gb_len b = gb_len buf + n"
    using addToGrowingBuffer_ok [OF assms(1), of n "word_bytes 8 (0 :: word_t)"] assms(2) by auto
  with False z that [of b] show ?thesis by (simp add: align_buffer_def)
qed

text \<open>
  The bytes of an LSDA: \<open>fld\<close> holds the offset of the end of the type table, \<open>csl\<close> the length of the
  call site table, \<open>ab\<close> the action table, laid out at \<open>offs\<close>, and \<open>mis\<close> zeros pad the type table.
\<close>

definition lsda_bytes ::
  "LSDA \<Rightarrow> byte list \<Rightarrow> byte list \<Rightarrow> addr_t list \<Rightarrow> byte list \<Rightarrow> nat \<Rightarrow> byte list \<Rightarrow> byte list" where
  "lsda_bytes l fld csl offs ab mis tt =
     header_bytes l @ (if ttEncoding l \<noteq> DW_EH_PE_omit then fld else []) @ [of_nat DW_EH_PE_uleb128] @ csl @
     concat (map (site_bytes offs) (callSiteTable l)) @ ab @
     (if ttEncoding l \<noteq> DW_EH_PE_omit then replicate mis 0 @ tt else [])"

lemma entry_size:
  assumes "lsda_writable bitwidth l"
  obtains n where "getPointerSizeFromEHPointerEncoding bitwidth (ttEncoding l) = Inr n" "n \<le> 8"
    "ttEncoding l \<noteq> DW_EH_PE_omit \<Longrightarrow> 0 < n"
proof (cases "ttEncoding l = DW_EH_PE_omit")
  case True
  then show ?thesis using that [of 0] by (simp add: getPointerSizeFromEHPointerEncoding_def Let_def)
next
  case False
  then have "eh_supported (ttEncoding l)" "bitwidth \<in> {0, 32, 64}" using assms by (auto simp: lsda_writable_def)
  from eh_codec [OF this] that show ?thesis by metis
qed

lemma write_lsda_ok:
  assumes w: "lsda_writable bitwidth l" and wf: "gb_wf buf"
    and n: "getPointerSizeFromEHPointerEncoding bitwidth (ttEncoding l) = Inr n"
  obtains buf' fld csl offs ab mis bs base where
    "write_lsda bitwidth exc l buf = Inr buf'" "gb_wf buf'"
    "gb_contents buf' = gb_contents buf @
      lsda_bytes l fld csl offs ab mis (type_bytes (ttEncoding l) base n (typeTable l) (length (typeTable l)))"
    "acts_inv (actionTable l) {..<length (actionTable l)} {} offs ab"
    "leb_wf csl" "length csl \<le> 10"
    "leb_int csl = int (length (concat (map (site_bytes offs) (callSiteTable l))))"
    "length fld \<le> 10" "mis < 4" "length bs \<le> 8"
    "4 dvd length (header_bytes l) + length fld + (1 + length csl +
       length (concat (map (site_bytes offs) (callSiteTable l))) + length ab) + mis"
    "le_word bs = (of_nat (1 + length csl + length (concat (map (site_bytes offs) (callSiteTable l))) + length ab +
       mis + n * length (typeTable l)) :: addr_t)"
    "\<And>rest. decodeLEB128 (fld @ rest) False = Inr (bs, length bs, length fld)"
    "ttEncoding l \<noteq> DW_EH_PE_omit \<Longrightarrow> base = exc + of_nat (gb_len buf + length (header_bytes l) + length fld +
       (1 + length csl + length (concat (map (site_bytes offs) (callSiteTable l))) + length ab) + mis +
       length (typeTable l) * n - n)"
proof -
  let ?A = "actionTable l" and ?C = "callSiteTable l" and ?J = "length (typeTable l)"
  have ok: "acts_ok ?A" "list_all (\<lambda>c. cs_hasAction c \<longrightarrow> unat (cs_firstAction c) < length ?A) ?C"
    "length ?C \<le> 1000000" "?J \<le> 1000000" "bitwidth \<in> {0, 32, 64}"
    using w by (auto simp: lsda_writable_def)
  have n8: "n \<le> 8" by (rule entry_size [OF w]) (use n in simp)
  obtain b1 where b1: "write_header l buf = Inr b1" "gb_wf b1" "gb_contents b1 = gb_contents buf @ header_bytes l"
    by (rule write_header_ok [OF wf])
  obtain offs abuf where a: "write_actions ?A [0..<length ?A] (replicate (length ?A) 0, empty_buffer) = Inr (offs, abuf)"
    "gb_wf abuf" "acts_inv ?A {..<length ?A} {} offs (gb_contents abuf)"
    by (rule write_all_actions_ok [OF ok(1)])
  have lo: "length offs = length ?A" using a(3) by (simp add: acts_inv_def)
  obtain cbuf where c: "write_call_sites offs (length ?A) ?C empty_buffer = Inr cbuf" "gb_wf cbuf"
    "gb_contents cbuf = concat (map (site_bytes offs) ?C)"
    using write_call_sites_ok [OF gb_wf_empty ok(2) lo] by auto
  let ?CS = "concat (map (site_bytes offs) ?C)"
  have len: "gb_len abuf = length (gb_contents abuf)" "gb_len cbuf = length ?CS" "gb_len b1 = gb_len buf + length (header_bytes l)"
    using length_gb_contents a(2) c(2,3) b1(2,3) wf by (metis, metis, metis length_append)
  have small: "length (gb_contents abuf) \<le> 20000000" "length ?CS \<le> 40000000"
    using acts_inv_bound(1) [OF ok(1) a(3)] sites_length(2) [of offs ?C] ok(3) by simp_all
  obtain csl where csl: "encodeAsLEB128 (word_bytes 4 (of_nat (length ?CS) :: uint)) False = Inr csl" "leb_wf csl"
    "leb_int csl = uint (take_bit (8 * 4) (of_nat (length ?CS) :: uint))" "length csl \<le> num_septets 4"
    by (rule encode_word_spec [of 4 "of_nat (length ?CS) :: uint"]) simp_all
  have csl': "leb_int csl = int (length ?CS)" "length csl \<le> 5"
    using csl(3,4) small(2) by (simp_all add: num_septets_def take_bit_word_eq_self unsigned_of_nat take_bit_nat_eq_self)
  let ?btw = "1 + length csl + length ?CS + length (gb_contents abuf)"
  have "n * ?J \<le> 8 * 1000000" using n8 ok(4) by (intro mult_le_mono) simp_all
  then have fit: "?btw + n * ?J < 2 ^ 32" using small csl'(2) by simp
  obtain fld mis bs where f: "tt_base_field (length (header_bytes l)) ?btw (n * ?J) = Inr (fld, length fld, mis)"
    "mis < 4" "4 dvd length (header_bytes l) + length fld + ?btw + mis" "length fld \<le> 10" "length bs \<le> 8"
    "le_word bs = (of_nat (?btw + mis + n * ?J) :: addr_t)"
    "\<And>rest. decodeLEB128 (fld @ rest) False = Inr (bs, length bs, length fld)"
    by (rule tt_base_field_ok [OF fit]) blast
  let ?omit = "ttEncoding l = DW_EH_PE_omit"
  obtain b2' where b2': "addToGrowingBuffer b1 fld (length fld) = Inr b2'" "gb_wf b2'"
    "gb_contents b2' = gb_contents b1 @ fld"
    using addToGrowingBuffer_ok [OF b1(2), of "length fld" fld] by auto
  define b2 where "b2 = (if ?omit then b1 else b2')"
  have b2: "gb_wf b2" "gb_contents b2 = gb_contents b1 @ (if ?omit then [] else fld)"
    "(if ttEncoding l \<noteq> DW_EH_PE_omit then addToGrowingBuffer b1 fld (length fld) else Inr b1) = Inr b2"
    using b1 b2' by (simp_all add: b2_def)
  obtain b3 where b3: "addToGrowingBuffer b2 [of_nat DW_EH_PE_uleb128] 1 = Inr b3" "gb_wf b3"
    "gb_contents b3 = gb_contents b2 @ [of_nat DW_EH_PE_uleb128]" by (rule addByte_ok [OF b2(1)])
  obtain b4 where b4: "addToGrowingBuffer b3 csl (length csl) = Inr b4" "gb_wf b4" "gb_contents b4 = gb_contents b3 @ csl"
    using addToGrowingBuffer_ok [OF b3(2), of "length csl" csl] by auto
  obtain b5 where b5: "addToGrowingBuffer b4 (gb_data cbuf) (gb_len cbuf) = Inr b5" "gb_wf b5"
    "gb_contents b5 = gb_contents b4 @ gb_contents cbuf" by (rule addBuffer_ok [OF b4(2) c(2)])
  obtain b6 where b6: "addToGrowingBuffer b5 (gb_data abuf) (gb_len abuf) = Inr b6" "gb_wf b6"
    "gb_contents b6 = gb_contents b5 @ gb_contents abuf" by (rule addBuffer_ok [OF b5(2) a(2)])
  obtain b7 where b7: "align_buffer b6 mis = Inr b7" "gb_wf b7" "gb_contents b7 = gb_contents b6 @ replicate mis 0"
    by (rule align_buffer_ok [OF b6(2), of mis]) (use f(2) in simp_all)
  let ?base = "exc + of_nat (gb_len b7 + ?J * n - n)"
  let ?T = "type_bytes (ttEncoding l) ?base n (typeTable l) ?J"
  have front: "write_lsda bitwidth exc l buf =
      (if ttEncoding l \<noteq> DW_EH_PE_omit then write_types bitwidth exc l n ?J b7 else Inr b6)"
    using b1(1) a(1) c(1) n csl(1) f(1) b2(3) b3(1) b4(1) b5(1) b6(1) b7(1)
    by (simp add: write_lsda_def Let_def len del: of_nat_add of_nat_Suc of_nat_1)
  obtain b8 where b8: "\<not> ?omit \<Longrightarrow> write_types bitwidth exc l n ?J b7 = Inr b8 \<and> gb_wf b8 \<and>
      gb_contents b8 = gb_contents b7 @ ?T"
  proof (cases ?omit)
    case False
    then have "eh_supported (ttEncoding l)" using w by (simp add: lsda_writable_def)
    from write_types_ok [OF this ok(5) n b7(2) order_refl refl] that show ?thesis by blast
  qed (use that in blast)
  define b where "b = (if ?omit then b6 else b8)"
  have l7: "\<not> ?omit \<Longrightarrow> gb_len b7 = gb_len buf + length (header_bytes l) + length fld + ?btw + mis"
    using length_gb_contents [OF b7(2)] length_gb_contents [OF wf] b1(3) b2(2) b3(3) b4(3) b5(3) b6(3) b7(3) c(3) by simp
  show ?thesis
  proof (rule that [of b fld csl offs "gb_contents abuf" mis ?base bs])
    show "write_lsda bitwidth exc l buf = Inr b" "gb_wf b" using front b8 b6(2) by (auto simp: b_def)
    show "gb_contents b = gb_contents buf @ lsda_bytes l fld csl offs (gb_contents abuf) mis ?T"
      using b8 b1(3) b2(2) b3(3) b4(3) b5(3) b6(3) b7(3) c(3) by (auto simp: b_def lsda_bytes_def)
  qed (use a(3) csl csl' f l7 in \<open>auto simp del: of_nat_add of_nat_Suc of_nat_1\<close>)
qed

section \<open>Reading it back\<close>

text \<open>
  Two call sites that mean the same: the same code range and landing pad, and the same chain of type
  filters, however the actions are numbered.
\<close>

definition same_site :: "ActionRecord list \<Rightarrow> ActionRecord list \<Rightarrow> CallSiteRecord \<Rightarrow> CallSiteRecord \<Rightarrow> bool" where
  "same_site actions actions' c c' \<longleftrightarrow>
     cs_position c' = cs_position c \<and> cs_length c' = cs_length c \<and>
     cs_landingPadPosition c' = cs_landingPadPosition c \<and> cs_hasAction c' = cs_hasAction c \<and>
     (cs_hasAction c \<longrightarrow> (\<forall>k. action_chain k actions' (unat (cs_firstAction c')) =
                             action_chain k actions (unat (cs_firstAction c))))"

text \<open>The type table as it comes back: entry \<open>k\<close> of a pc-relative one is off by \<open>k\<close> entries.\<close>

definition reread_types :: "LSDA \<Rightarrow> word_t list" where
  "reread_types l = map (\<lambda>k. typeTable l ! k -
     (if eh_application (ttEncoding l) = DW_EH_PE_pcrel then of_nat (8 * k) else 0)) [0..<length (typeTable l)]"

definition same_lsda :: "LSDA \<Rightarrow> LSDA \<Rightarrow> bool" where
  "same_lsda l l' \<longleftrightarrow>
     lpStart l' = lpStart l \<and> ttEncoding l' = ttEncoding l \<and>
     list_all2 (same_site (actionTable l) (actionTable l')) (callSiteTable l) (callSiteTable l') \<and>
     (if ttEncoding l = DW_EH_PE_omit then typeTable l' = []
      else take (length (typeTable l)) (typeTable l') = reread_types l)"

definition types_fit :: "nat \<Rightarrow> LSDA \<Rightarrow> bool" where
  "types_fit bitwidth l \<longleftrightarrow> ttEncoding l = DW_EH_PE_omit \<or>
     (case getPointerSizeFromEHPointerEncoding bitwidth (ttEncoding l) of
        Inl _ \<Rightarrow> False
      | Inr n \<Rightarrow> n = 8 \<or> eh_application (ttEncoding l) = 0 \<and> list_all (\<lambda>t. take_bit (8 * n) t = t) (typeTable l))"

lemma header_split:
  assumes "bytes_at data p (header_bytes l)"
  shows "read_lpStart bitwidth data sectionAddress p = Inr (lpStart l, length (header_bytes l) - 1)"
    "elem_at data (p + (length (header_bytes l) - 1)) = Inr (ttEncoding l)"
proof -
  have h: "header_bytes l = (if lpStart l \<noteq> 0 then [of_nat DW_EH_PE_uleb128] @ uleb (lpStart l) else [DW_EH_PE_omit]) @ [ttEncoding l]"
    by (simp add: header_bytes_def)
  then have len: "length (header_bytes l) - 1 =
      length (if lpStart l \<noteq> 0 then [of_nat DW_EH_PE_uleb128] @ uleb (lpStart l) else [DW_EH_PE_omit])" by simp
  note b = assms [unfolded h bytes_at_append]
  show "elem_at data (p + (length (header_bytes l) - 1)) = Inr (ttEncoding l)"
    unfolding len using b by (intro bytes_at_elem) simp
  show "read_lpStart bitwidth data sectionAddress p = Inr (lpStart l, length (header_bytes l) - 1)"
  proof (cases "lpStart l = 0")
    case True
    then have "elem_at data p = Inr DW_EH_PE_omit" using b by (intro bytes_at_elem) simp
    with True len show ?thesis by (simp add: read_lpStart_def)
  next
    case False
    have one: "length [of_nat DW_EH_PE_uleb128 :: byte] = 1" by simp
    have b': "bytes_at data p [of_nat DW_EH_PE_uleb128]" "bytes_at data (p + 1) (uleb (lpStart l))"
      using assms unfolding h if_P [OF False] bytes_at_append one by blast+
    have ne: "(of_nat DW_EH_PE_uleb128 :: byte) \<noteq> DW_EH_PE_omit" by simp
    show ?thesis
      unfolding read_lpStart_def bytes_at_elem [OF b'(1)] read_ptr_uleb [OF b'(2)] bindE_simps if_P [OF ne] len
        if_P [OF False] prod.case length_append one ..
  qed
qed

lemma read_types_back:
  assumes sup: "eh_supported (ttEncoding l)" "bitwidth \<in> {0, 32, 64}" "types_fit bitwidth l"
    and n: "getPointerSizeFromEHPointerEncoding bitwidth (ttEncoding l) = Inr n"
    and at: "bytes_at data p (type_bytes (ttEncoding l) base n (typeTable l) (length (typeTable l)))"
    and base: "typeTable l \<noteq> [] \<Longrightarrow> base = sectionAddress + of_nat (p + length (typeTable l) * n - n)"
    and k: "k < length (typeTable l)"
  shows "type_at (ttEncoding l) data sectionAddress n (p + length (typeTable l) * n - Suc k * n) = reread_types l ! k"
proof -
  let ?J = "length (typeTable l)" and ?e = "ttEncoding l"
  let ?q = "p + ?J * n - Suc k * n"
  have n8: "n \<le> 8" by (rule eh_codec [OF sup(1,2)]) (use n in simp)
  have w: "take n (drop ?q data) = word_bytes n (typeTable l ! k - eh_base ?e base)"
    using bytes_at_take [OF type_bytes_entry [OF at k]] by simp
  have t: "type_at ?e data sectionAddress n ?q =
      take_bit (8 * n) (typeTable l ! k - eh_base ?e base) + eh_base ?e (sectionAddress + of_nat ?q)"
    unfolding type_at_def w using n8 by (simp add: le_word_word_bytes_take)
  consider (eight) "n = 8" | (abs) "eh_application ?e = 0" "take_bit (8 * n) (typeTable l ! k) = typeTable l ! k"
    using sup(3) n k eh_supported_not_omit [OF sup(1)] by (auto simp: types_fit_def list_all_length)
  then show ?thesis
  proof cases
    case eight
    have "base = sectionAddress + of_nat ?q + of_nat (8 * k)"
    proof -
      have "Suc k * 8 \<le> ?J * 8" using k by (intro mult_le_mono) simp_all
      then have "p + ?J * n - n = ?q + 8 * k" using eight by simp
      moreover have "typeTable l \<noteq> []" using k by auto
      note base [OF this]
      ultimately show ?thesis by (simp only: of_nat_add add.assoc)
    qed
    then show ?thesis using t eight k by (simp add: reread_types_def eh_base_def take_bit_word_eq_self)
  next
    case abs
    then show ?thesis using t k by (simp add: reread_types_def eh_base_def)
  qed
qed

lemma read_lsda_ok:
  assumes w: "lsda_writable bitwidth l" "types_fit bitwidth l"
    and n: "getPointerSizeFromEHPointerEncoding bitwidth (ttEncoding l) = Inr n"
    and at: "bytes_at data p (lsda_bytes l fld csl offs ab mis (type_bytes (ttEncoding l) base n (typeTable l) (length (typeTable l))))"
    and small: "length data < 2 ^ 31" and ptr: "ptr = sectionAddress + of_nat p"
    and inv: "acts_inv (actionTable l) {..<length (actionTable l)} {} offs ab"
    and csl: "leb_wf csl" "length csl \<le> 10"
      "leb_int csl = int (length (concat (map (site_bytes offs) (callSiteTable l))))"
    and fld: "length bs \<le> 8" "le_word bs = (of_nat (1 + length csl + length (concat (map (site_bytes offs) (callSiteTable l))) +
       length ab + mis + n * length (typeTable l)) :: addr_t)"
      "\<And>rest. decodeLEB128 (fld @ rest) False = Inr (bs, length bs, length fld)"
    and base: "ttEncoding l \<noteq> DW_EH_PE_omit \<Longrightarrow> base = sectionAddress + of_nat (p + length (header_bytes l) + length fld +
       (1 + length csl + length (concat (map (site_bytes offs) (callSiteTable l))) + length ab) + mis +
       length (typeTable l) * n - n)"
  shows "\<exists>l'. read_lsda bitwidth data sectionAddress ptr = Inr l' \<and> same_lsda l l'"
proof -
  let ?e = "ttEncoding l" and ?H = "length (header_bytes l)" and ?C = "callSiteTable l" and ?J = "length (typeTable l)"
  let ?CS = "concat (map (site_bytes offs) ?C)" and ?A = "actionTable l"
  define nf where "nf = (if ?e \<noteq> DW_EH_PE_omit then length fld else 0)"
  define p1 where "p1 = p + ?H + nf"
  define p3 where "p3 = p1 + 1 + length csl"
  define p4 where "p4 = p3 + length ?CS"
  define p6 where "p6 = p4 + length ab + mis"
  note b = at [unfolded lsda_bytes_def bytes_at_append]
  have b1: "bytes_at data p (header_bytes l)" "?e \<noteq> DW_EH_PE_omit \<Longrightarrow> bytes_at data (p + ?H) fld"
    "bytes_at data p1 [of_nat DW_EH_PE_uleb128]" "bytes_at data (p1 + 1) csl" "bytes_at data p3 ?CS" "bytes_at data p4 ab"
    and b2: "?e \<noteq> DW_EH_PE_omit \<Longrightarrow> bytes_at data p6 (type_bytes ?e base n (typeTable l) ?J)"
    using b unfolding p1_def p3_def p4_def p6_def nf_def
    by (auto simp: bytes_at_append add.assoc split: if_splits)
  have bw: "bitwidth \<in> {0, 32, 64}" "acts_ok ?A" "no_self_loop ?A"
    "list_all (\<lambda>c. cs_hasAction c \<longrightarrow> unat (cs_firstAction c) < length ?A) ?C"
    using w(1) by (auto simp: lsda_writable_def)
  have first: "\<And>c. c \<in> set ?C \<Longrightarrow> cs_hasAction c \<Longrightarrow> unat (cs_firstAction c) < length ?A"
    using bw(4) by (auto simp: list_all_iff)
  have le: "p \<le> length data" "p3 \<le> length data" "p4 + length ab \<le> length data" "p3 + length ?CS \<le> length data"
    using bytes_at_le [OF b1(1)] bytes_at_le [OF b1(5)] bytes_at_le [OF b1(6)] by simp_all
  have start: "unat (ptr - sectionAddress) = p" using ptr le(1) small by (simp add: unat_of_nat_small)
  have H1: "p + (?H - 1) + 1 = p + ?H" "1 \<le> ?H" by (simp_all add: header_bytes_def)
  have tt: "read_ttBase data ?e (p + ?H) = Inr (if ?e \<noteq> DW_EH_PE_omit then of_nat (p6 + ?J * n) else 0, nf)"
  proof (cases "?e = DW_EH_PE_omit")
    case False
    obtain rest where d: "drop (p + ?H) data = fld @ rest" using b1(2) False by (auto simp: bytes_at_def)
    have v: "le_word bs + of_nat (p + ?H + length fld) = (of_nat (p6 + ?J * n) :: addr_t)"
      unfolding fld(2) p6_def p4_def p3_def p1_def nf_def using False by (simp add: algebra_simps)
    show ?thesis
      unfolding read_ttBase_def if_P [OF False] d fld(3) bindE_simps prod.case
      using fld(1) v False by (simp add: nf_def del: of_nat_add)
  qed (simp add: read_ttBase_def nf_def)
  have cs_len: "(word_of_int (leb_int csl) :: word_t) = of_nat (length ?CS)" unfolding csl(3) by simp
  have uc: "unat (of_nat (length ?CS) :: word_t) = length ?CS" using le(4) small by (intro unat_of_nat_small) simp
  have big: "leb_int csl < 2 ^ 64" using le(4) small unfolding csl(3) by simp
  have csp: "read_ptr bitwidth data sectionAddress (of_nat DW_EH_PE_uleb128) (p1 + 1) = Inr (of_nat (length ?CS), length csl)"
    using read_ptr_leb [OF b1(4) csl(1,2) big] unfolding cs_len .
  have noneg: "offs ! unat (cs_firstAction c) \<noteq> - 1" if "c \<in> set ?C" "cs_hasAction c" for c
  proof -
    have "unat (offs ! unat (cs_firstAction c)) < length ab"
      using inv first [OF that] by (simp add: acts_inv_def action_at_def)
    then have "unat (offs ! unat (cs_firstAction c)) < 2 ^ 32" using le(3) small by simp
    then show ?thesis by (auto simp: unsigned_minus_1_eq_mask mask_eq_exp_minus_1)
  qed
  have sites: "readCallSiteTable bitwidth data sectionAddress (of_nat DW_EH_PE_uleb128) p3 (of_nat (length ?CS)) =
      Inr (map (site_offset offs) ?C, length ?CS)"
    using read_call_sites_ok [of data p3 0 offs ?C "of_nat (length ?CS)" "length ?CS" bitwidth sectionAddress]
      b1(5) noneg uc sites_length(1) [where cs = ?C and offs = offs] le(4)
    by (simp add: readCallSiteTable_def uc)
  obtain rest where d4: "drop p4 data = ab @ rest" using b1(6) by (auto simp: bytes_at_def)
  have i0: "read_inv ?A offs [] None ab ([], [], 0)" by (simp add: read_inv_def)
  have p4s: "p4 + length ab < 2 ^ 32" "length ab \<le> length data" using le(3) small by simp_all
  obtain ks st' where r: "read_actions data p4 (map (site_offset offs) ?C) ([], [], 0) = Inr (map (site_final ks) ?C, st')"
    "read_inv ?A offs ks None ab st'" "\<forall>c\<in>set ?C. cs_hasAction c \<longrightarrow> unat (cs_firstAction c) \<in> set ks"
    using read_actions_ok [OF bw(2,3) inv d4 p4s, of ?C "[]", OF first i0] by auto
  obtain roffs racts highest where st: "st' = (roffs, racts, highest)" by (cases st')
  note ri = r(2) [unfolded st]
  have h: "unat highest \<le> length ab" using ri by (simp add: read_inv_def)
  define o2 where "o2 = p4 + unat highest"
  have o2: "of_nat p4 + highest = (of_nat o2 :: addr_t)" "unat (of_nat o2 :: addr_t) = o2" "o2 \<le> length data"
    using h le(3) small unat_of_nat_small [of "p4 + unat highest"] by (simp_all add: o2_def del: of_nat_add) (simp add: of_nat_add)
  have acts: "readActionTable data p4 (map (site_offset offs) ?C) = Inr (map (site_final ks) ?C, racts, highest)"
    unfolding readActionTable_def r(1) st by simp
  obtain types typeBytes where ty: "readTypeTable bitwidth data sectionAddress ?e (of_nat o2)
      (if ?e \<noteq> DW_EH_PE_omit then of_nat (p6 + ?J * n) else 0) = Inr (types, typeBytes)"
    "unat (of_nat o2 + typeBytes) \<le> length data"
    "if ?e = DW_EH_PE_omit then types = [] else take ?J types = reread_types l"
  proof (cases "?e = DW_EH_PE_omit")
    case True
    then show ?thesis using that [of "[]" 0] o2 by (simp add: readTypeTable_def)
  next
    case False
    then have sup: "eh_supported ?e" using w(1) by (simp add: lsda_writable_def)
    have n0: "0 < n" by (rule eh_codec [OF sup bw(1)]) (use n in simp)
    have le6: "p6 + ?J * n \<le> length data" using bytes_at_le [OF b2 [OF False]] by simp
    define T where "T = p6 + ?J * n - o2"
    have T: "o2 + T = p6 + ?J * n" "?J * n \<le> T" using h by (simp_all add: T_def o2_def p6_def)
    have tT: "(of_nat (p6 + ?J * n) :: addr_t) - of_nat n - of_nat o2 = of_nat T - of_nat n"
      unfolding T(1) [symmetric] by simp
    let ?types = "map (\<lambda>k. type_at ?e data sectionAddress n (o2 + T - Suc k * n)) [0..<T div n]"
    have "T div n < Suc (length data)" using div_le_dividend [of T n] T(1) le6 by linarith
    then have rt: "read_types (Suc (length data)) bitwidth data sectionAddress ?e n (of_nat o2) (of_nat T - of_nat n) =
        Inr ?types"
      using T(1) le6 small by (intro read_types_ok [OF sup bw(1) n n0]) simp_all
    have ne: "?e \<noteq> DW_EH_PE_omit" using False .
    have "readTypeTable bitwidth data sectionAddress ?e (of_nat o2) (of_nat (p6 + ?J * n)) =
        Inr (?types, of_nat (p6 + ?J * n) - of_nat o2)"
      unfolding readTypeTable_def if_P [OF ne] n bindE_simps tT rt ..
    moreover have "unat (of_nat o2 + (of_nat (p6 + ?J * n) - of_nat o2) :: addr_t) \<le> length data"
      using le6 small unat_of_nat_small [of "p6 + ?J * n"] by (simp del: of_nat_add of_nat_mult)
    moreover have "take ?J ?types = reread_types l"
    proof (rule nth_equalityI)
      have J: "?J \<le> T div n" using T(2) n0 by (simp add: less_eq_div_iff_mult_less_eq)
      then show "length (take ?J ?types) = length (reread_types l)" by (simp add: reread_types_def)
      fix k assume "k < length (take ?J ?types)"
      then have k: "k < ?J" by simp
      have "base = sectionAddress + of_nat (p6 + ?J * n - n)"
        unfolding base [OF False] p6_def p4_def p3_def p1_def nf_def using False by (simp add: algebra_simps)
      from read_types_back [OF sup bw(1) w(2) n b2 [OF False] this k]
      show "take ?J ?types ! k = reread_types l ! k" using k J T(1) by simp
    qed
    ultimately show ?thesis using that False by (simp del: of_nat_add of_nat_mult)
  qed
  let ?l = "\<lparr>lpStart = lpStart l, callSiteTable = map (site_final ks) ?C, actionTable = racts, ttEncoding = ?e,
             typeTable = types\<rparr>"
  have pos: "p + ?H + nf = p1" "p + (?H - 1) + nf + 2 = p1 + 1" "p1 + 1 + length csl = p3" "p3 + length ?CS = p4"
    using H1 by (simp_all add: p1_def p3_def p4_def)
  have "read_lsda bitwidth data sectionAddress ptr = Inr ?l"
    unfolding read_lsda_def Let_def start header_split [OF b1(1)] bindE_simps prod.case H1(1) tt
      pos bytes_at_elem [OF b1(3)] csp sites acts o2(1) ty(1)
    using le(1,2) o2 ty(2) by (simp del: of_nat_add of_nat_1)
  moreover have "same_lsda l ?l"
  proof -
    have "same_site ?A racts c (site_final ks c)" if c: "c \<in> set ?C" for c
    proof -
      have "unat (of_nat (pos ks (unat (cs_firstAction c))) :: word_t) = pos ks (unat (cs_firstAction c))"
        if "cs_hasAction c"
      proof -
        have "distinct ks" "set ks \<subseteq> {..<length ?A}" using ri by (simp_all add: read_inv_def)
        then have "length ks \<le> length ?A" using card_mono [of "{..<length ?A}" "set ks"] distinct_card [of ks] by simp
        moreover have "pos ks (unat (cs_firstAction c)) < length ks" using r(3) c that pos_less by blast
        ultimately show ?thesis using bw(2) by (intro unat_of_nat_small) (simp add: acts_ok_def)
      qed
      then show ?thesis
        using action_chain_renamed [OF bw(2) ri] r(3) c by (simp add: same_site_def site_final_def)
    qed
    then show ?thesis using ty(3) by (simp add: same_lsda_def list_all2_map2 list_all2_same)
  qed
  ultimately show ?thesis by blast
qed

end
