(* ===== verification/Except_Properties.thy ===== *)
theory Except_Properties
  imports Except_Roundtrip
begin

text \<open>The exception table as a whole, and the ends of the reader's loops on any input.\<close>

section \<open>Round trip\<close>

lemma write_lsdas_ok:
  "gb_wf buf \<Longrightarrow> list_all (\<lambda>l. lsda_writable bitwidth l \<and> types_fit bitwidth l) ls \<Longrightarrow>
   \<exists>buf' ptrs ext. write_lsdas bitwidth exc ls buf = Inr (buf', ptrs) \<and> gb_wf buf' \<and>
     gb_contents buf' = gb_contents buf @ ext \<and> (ls \<noteq> [] \<longrightarrow> ext \<noteq> []) \<and> length ptrs = length ls \<and>
     list_all (\<lambda>p. 4 dvd unat (p - exc) \<or> 2 ^ 31 \<le> gb_len buf') ptrs \<and>
     (\<forall>data. bytes_at data (gb_len buf) ext \<longrightarrow> length data < 2 ^ 31 \<longrightarrow>
        (\<exists>ls'. read_lsdas bitwidth data exc ptrs = Inr ls' \<and> list_all2 same_lsda ls ls'))"
proof (induction ls arbitrary: buf)
  case Nil
  then show ?case by auto
next
  case (Cons l ls)
  have w: "lsda_writable bitwidth l" "types_fit bitwidth l" using Cons.prems(2) by simp_all
  note mis = misalignment_spec [of "gb_len buf"]
  obtain b1 where b1: "align_buffer buf (misalignment (gb_len buf)) = Inr b1" "gb_wf b1"
    "gb_contents b1 = gb_contents buf @ replicate (misalignment (gb_len buf)) 0"
    "gb_len b1 = gb_len buf + misalignment (gb_len buf)"
    by (rule align_buffer_ok [OF Cons.prems(1), of "misalignment (gb_len buf)"]) (use mis(1) in simp_all)
  have a: "4 dvd gb_len b1" using b1(4) mis(2) by simp
  obtain n where n: "getPointerSizeFromEHPointerEncoding bitwidth (ttEncoding l) = Inr n"
    by (rule entry_size [OF w(1)])
  let ?J = "length (typeTable l)"
  obtain b2 fld csl offs ab mis bs base where b2: "write_lsda bitwidth exc l b1 = Inr b2" "gb_wf b2"
    "gb_contents b2 = gb_contents b1 @ lsda_bytes l fld csl offs ab mis (type_bytes (ttEncoding l) base n (typeTable l) ?J)"
    and f: "acts_inv (actionTable l) {..<length (actionTable l)} {} offs ab" "leb_wf csl" "length csl \<le> 10"
    "leb_int csl = int (length (concat (map (site_bytes offs) (callSiteTable l))))" "length bs \<le> 8"
    "le_word bs = (of_nat (1 + length csl + length (concat (map (site_bytes offs) (callSiteTable l))) + length ab +
       mis + n * ?J) :: addr_t)"
    "\<And>rest. decodeLEB128 (fld @ rest) False = Inr (bs, length bs, length fld)"
    "ttEncoding l \<noteq> DW_EH_PE_omit \<Longrightarrow> base = exc + of_nat (gb_len b1 + length (header_bytes l) + length fld +
       (1 + length csl + length (concat (map (site_bytes offs) (callSiteTable l))) + length ab) + mis + ?J * n - n)"
    by (rule write_lsda_ok [OF w(1) b1(2) n, of exc]) blast
  let ?L = "lsda_bytes l fld csl offs ab mis (type_bytes (ttEncoding l) base n (typeTable l) ?J)"
  obtain b3 ptrs ext where b3: "write_lsdas bitwidth exc ls b2 = Inr (b3, ptrs)" "gb_wf b3"
    "gb_contents b3 = gb_contents b2 @ ext" "length ptrs = length ls"
    "list_all (\<lambda>p. 4 dvd unat (p - exc) \<or> 2 ^ 31 \<le> gb_len b3) ptrs"
    and r3: "\<And>data. bytes_at data (gb_len b2) ext \<Longrightarrow> length data < 2 ^ 31 \<Longrightarrow>
        \<exists>ls'. read_lsdas bitwidth data exc ptrs = Inr ls' \<and> list_all2 same_lsda ls ls'"
    using Cons.IH [OF b2(2)] Cons.prems(2) by auto
  let ?p = "exc + of_nat (gb_len b1)" and ?z = "replicate (misalignment (gb_len buf)) (0 :: byte)"
  have len: "gb_len b2 = gb_len b1 + length ?L" "gb_len b3 = gb_len b2 + length ext"
    using b2(3) b3(3) length_gb_contents [OF b1(2)] length_gb_contents [OF b2(2)] length_gb_contents [OF b3(2)]
    by (metis length_append, metis length_append)
  have "write_lsdas bitwidth exc (l # ls) buf = Inr (b3, ?p # ptrs)"
    using b1(1) a b2(1) b3(1) by (simp add: mod_eq_0_iff_dvd Let_def)
  moreover have "gb_contents b3 = gb_contents buf @ (?z @ ?L @ ext)" using b1(3) b2(3) b3(3) by simp
  moreover have "?z @ ?L @ ext \<noteq> []" by (simp add: lsda_bytes_def)
  moreover have "4 dvd unat (?p - exc) \<or> 2 ^ 31 \<le> gb_len b3"
    using a len unat_of_nat_small [of "gb_len b1"] by fastforce
  moreover have "\<exists>ls'. read_lsdas bitwidth data exc (?p # ptrs) = Inr ls' \<and> list_all2 same_lsda (l # ls) ls'"
    if d: "bytes_at data (gb_len buf) (?z @ ?L @ ext)" "length data < 2 ^ 31" for data
  proof -
    have at: "bytes_at data (gb_len b1) ?L" "bytes_at data (gb_len b2) ext"
      using d(1) unfolding bytes_at_append len(1) b1(4) by (simp_all add: add.assoc)
    obtain l' where "read_lsda bitwidth data exc ?p = Inr l'" "same_lsda l l'"
      using read_lsda_ok [OF w n at(1) d(2) refl f] by blast
    with r3 [OF at(2) d(2)] show ?thesis by auto
  qed
  moreover have "length (?p # ptrs) = length (l # ls)" using b3(4) by simp
  moreover have "list_all (\<lambda>p. 4 dvd unat (p - exc) \<or> 2 ^ 31 \<le> gb_len b3) (?p # ptrs)"
    using b3(5) calculation(4) by (simp only: list.pred_inject simp_thms)
  ultimately show ?case using b3(2) by blast
qed

text \<open>
  C3: an exception table written by \<^verbatim>\<open>buildExceptTableRawData\<close> is read back by \<^verbatim>\<open>parseExceptFrame\<close>,
  LSDA for LSDA: the same landing pad base, the same call sites, each with the same chain of type
  filters (the actions may be renumbered), and the entries of the type table at the head of the type table that is read, which
  may have more of them, except that entry \<open>k\<close> of a
  pc-relative type table comes back \<open>8 * k\<close> too low; without a type table, none is read.  This is for tables of less than 2
  gigabytes whose call sites and actions refer to actions that exist, no action being followed by itself, with
  at most a million call sites, actions and types each, and whose type table, in a supported encoding, has entries of 8 bytes, or shorter ones that are not
  pc-relative and hold the addresses.
\<close>

theorem exception_table_roundtrip:
  assumes "exceptTable cfi = Some lsdas"
    and "list_all (\<lambda>l. lsda_writable bitwidth l \<and> types_fit bitwidth l) lsdas"
  shows "\<exists>buf ptrs. buildExceptTableRawData bitwidth cfi empty_buffer = Inr (buf, ptrs) \<and>
    length ptrs = length lsdas \<and>
    (gb_len buf < 2 ^ 31 \<longrightarrow>
      (\<exists>lsdas'. parseExceptFrame bitwidth (gb_contents buf) (exceptTableAddress cfi) ptrs = Inr lsdas' \<and>
        list_all2 same_lsda lsdas lsdas'))"
proof -
  obtain buf ptrs ext where w: "write_lsdas bitwidth (exceptTableAddress cfi) lsdas empty_buffer = Inr (buf, ptrs)"
    "gb_wf buf" "gb_contents buf = gb_contents empty_buffer @ ext" "lsdas \<noteq> [] \<longrightarrow> ext \<noteq> []" "length ptrs = length lsdas"
    and r: "\<And>data. bytes_at data (gb_len empty_buffer) ext \<Longrightarrow> length data < 2 ^ 31 \<Longrightarrow>
        (\<exists>ls'. read_lsdas bitwidth data (exceptTableAddress cfi) ptrs = Inr ls' \<and> list_all2 same_lsda lsdas ls')"
    using write_lsdas_ok [OF gb_wf_empty assms(2), of "exceptTableAddress cfi"] by blast
  have c: "gb_contents buf = ext" "length ext = gb_len buf" using w(2,3) length_gb_contents by auto
  have "\<exists>lsdas'. parseExceptFrame bitwidth (gb_contents buf) (exceptTableAddress cfi) ptrs = Inr lsdas' \<and>
        list_all2 same_lsda lsdas lsdas'" if "gb_len buf < 2 ^ 31"
  proof (cases "ext = []")
    case True
    with w(4) c show ?thesis by (simp add: parseExceptFrame_def)
  next
    case False
    have "bytes_at ext (gb_len empty_buffer) ext" by (simp add: bytes_at_def empty_buffer_def)
    from r [OF this] that c False show ?thesis by (simp add: parseExceptFrame_def)
  qed
  with w(1,5) assms(1) show ?thesis by (simp add: buildExceptTableRawData_def)
qed

definition sample_lsda :: LSDA where
  "sample_lsda = \<lparr>lpStart = 0,
     callSiteTable = [\<lparr>cs_position = 0x10, cs_length = 5, cs_landingPadPosition = 0x40, cs_firstAction = 1, cs_hasAction = True\<rparr>,
                      \<lparr>cs_position = 0x20, cs_length = 9, cs_landingPadPosition = 0, cs_firstAction = 0, cs_hasAction = False\<rparr>],
     actionTable = [\<lparr>typeFilterIndex = 0, nextAction = 0, hasNextAction = False\<rparr>,
                    \<lparr>typeFilterIndex = 1, nextAction = 0, hasNextAction = True\<rparr>],
     ttEncoding = 3, typeTable = [0x601000, 0x602000]\<rparr>"

lemma sample_lsda_ok: "lsda_writable 64 sample_lsda" "types_fit 64 sample_lsda"
proof -
  have e: "eh_supported 3" "getPointerSizeFromEHPointerEncoding 64 3 = Inr 4" "eh_application 3 = 0"
    by (simp_all add: eh_supported_def eh_format_def eh_application_def getPointerSizeFromEHPointerEncoding_def)
  then show "lsda_writable 64 sample_lsda"
    by (auto simp: lsda_writable_def sample_lsda_def acts_ok_def no_self_loop_def less_Suc_eq nth_Cons')
  show "types_fit 64 sample_lsda" using e by (simp add: types_fit_def sample_lsda_def)
qed

definition sample_table :: CallFrameInfo where
  "sample_table = sample_cfi\<lparr>exceptTable := Some [sample_lsda, sample_lsda], exceptTableAddress := 0x400000\<rparr>"

theorem exception_table_roundtrip_witness:
  "\<exists>buf ptrs. buildExceptTableRawData 64 sample_table empty_buffer = Inr (buf, ptrs) \<and>
    length ptrs = length [sample_lsda, sample_lsda] \<and>
    (gb_len buf < 2 ^ 31 \<longrightarrow>
      (\<exists>lsdas'. parseExceptFrame 64 (gb_contents buf) (exceptTableAddress sample_table) ptrs = Inr lsdas' \<and>
        list_all2 same_lsda [sample_lsda, sample_lsda] lsdas'))"
  by (rule exception_table_roundtrip) (simp_all add: sample_table_def sample_lsda_ok)

text \<open>
  The field for the offset of the type table: its length is chosen before its value is known,
  and the value then fits; the type table is aligned to four bytes from the start of the LSDA and
  the field, read as ULEB128, is the distance from behind it to the end of the type table.
\<close>

theorem type_table_base_field:
  assumes "between + ttSize < 2 ^ 32"
  shows "\<exists>field mis bs. tt_base_field before between ttSize = Inr (field, length field, mis) \<and> mis < 4 \<and>
    4 dvd before + length field + between + mis \<and>
    decodeLEB128 (field @ rest) False = Inr (bs, length bs, length field) \<and>
    le_word bs = (of_nat (between + mis + ttSize) :: addr_t)"
  by (rule tt_base_field_ok [OF assms, of before]) blast

theorem type_table_base_field_witness:
  "\<exists>field mis bs. tt_base_field 2 112 15 = Inr (field, length field, mis) \<and> mis < 4 \<and>
    4 dvd 2 + length field + 112 + mis \<and>
    decodeLEB128 (field @ []) False = Inr (bs, length bs, length field) \<and>
    le_word bs = (of_nat (112 + mis + 15) :: addr_t)"
  by (rule type_table_base_field) simp

section \<open>Do the reader's loops end?\<close>

text \<open>A pointer of the format \<^verbatim>\<open>DW_EH_PE_absptr\<close> takes what is left of the section, if that is less than its size.\<close>

lemma read_ptr_absptr:
  assumes "p \<le> length data"
  shows "\<exists>v n. read_ptr bitwidth data sectionAddress (of_nat DW_EH_PE_absptr) p = Inr (v, n) \<and> p + n \<le> length data"
  using assms unfolding read_ptr_def
  by (simp add: decodeEHPointer_def eh_format_def eh_application_def Let_def copy_out_def)

lemma read_call_site_absptr:
  assumes "p \<le> length data"
  shows "\<exists>c n. read_call_site bitwidth data sectionAddress (of_nat DW_EH_PE_absptr) p = Inr (c, n) \<and> p + n \<le> length data"
proof -
  let ?r = "read_ptr bitwidth data sectionAddress (of_nat DW_EH_PE_absptr)"
  obtain v1 n1 where 1: "?r p = Inr (v1, n1)" "p + n1 \<le> length data" using read_ptr_absptr [OF assms] by blast
  obtain v2 n2 where 2: "?r (p + n1) = Inr (v2, n2)" "p + n1 + n2 \<le> length data" using read_ptr_absptr [OF 1(2)] by blast
  obtain v3 n3 where 3: "?r (p + n1 + n2) = Inr (v3, n3)" "p + n1 + n2 + n3 \<le> length data" using read_ptr_absptr [OF 2(2)] by blast
  obtain v4 n4 where 4: "?r (p + n1 + n2 + n3) = Inr (v4, n4)" "p + n1 + n2 + n3 + n4 \<le> length data"
    using read_ptr_absptr [OF 3(2)] by blast
  show ?thesis unfolding read_call_site_def 1(1) 2(1) 3(1) 4(1) bindE_simps prod.case using 4(2) by auto
qed

text \<open>
  C22: a call site table whose entries have the format \<^verbatim>\<open>DW_EH_PE_absptr\<close> and that starts in the section but is
  announced longer than what is left of the section is read for ever: at the end of the section a pointer takes no bytes.
\<close>

theorem call_site_table_truncated_diverges:
  assumes "offset \<le> length data" "length data - offset < unat callSiteTableSize"
  shows "readCallSiteTable bitwidth data sectionAddress (of_nat DW_EH_PE_absptr) offset callSiteTableSize = Inl Diverges"
proof -
  have "offset + i \<le> length data \<Longrightarrow>
      read_call_sites fuel bitwidth data sectionAddress (of_nat DW_EH_PE_absptr) offset callSiteTableSize i = Inl Diverges" for fuel i
  proof (induction fuel arbitrary: i)
    case 0
    then show ?case using assms by (subst read_call_sites.simps) auto
  next
    case (Suc fuel)
    obtain c n where s: "read_call_site bitwidth data sectionAddress (of_nat DW_EH_PE_absptr) (offset + i) = Inr (c, n)"
        "offset + i + n \<le> length data" using read_call_site_absptr [OF Suc.prems] by blast
    have "i < unat callSiteTableSize" "i + n \<le> unat callSiteTableSize" using s(2) assms by linarith+
    moreover have "read_call_sites fuel bitwidth data sectionAddress (of_nat DW_EH_PE_absptr) offset callSiteTableSize (i + n) = Inl Diverges"
      by (rule Suc.IH) (use s(2) in simp)
    ultimately show ?case using s(1) Suc.prems by (subst read_call_sites.simps) simp
  qed
  then show ?thesis using assms(1) by (simp add: readCallSiteTable_def)
qed

theorem call_site_table_truncated_diverges_witness:
  "readCallSiteTable 64 [1, 2, 3, 4, 5] 0x400000 (of_nat DW_EH_PE_absptr) 2 32 = Inl Diverges"
  by (rule call_site_table_truncated_diverges) simp_all

named_theorems ends \<open>operations that come to an end\<close>

lemma bindE_ends [ends]:
  "m \<noteq> Inl Diverges \<Longrightarrow> (\<And>x. m = Inr x \<Longrightarrow> f x \<noteq> Inl Diverges) \<Longrightarrow> bindE m f \<noteq> Inl Diverges"
  by (cases m) auto

lemma basic_ends [ends]:
  "Inr x \<noteq> Inl Diverges" "elem_at xs i \<noteq> Inl Diverges" "store_at xs i v \<noteq> Inl Diverges" "copy_out bs n \<noteq> Inl Diverges"
  "guardE c AssertFail \<noteq> Inl Diverges"
  by (simp_all add: elem_at_def store_at_def copy_out_def guardE_def)

lemma leb_ends [ends]:
  "count_septets bs \<noteq> Inl Diverges" "decode_loop bs res q left \<noteq> Inl Diverges" "sextend w n \<noteq> Inl Diverges"
proof -
  show "count_septets bs \<noteq> Inl Diverges" by (induction bs) (auto simp: bindE_eq_Inl)
  show "decode_loop bs res q left \<noteq> Inl Diverges"
    by (induction bs arbitrary: res q left)
      (auto simp: bindE_eq_Inl Let_def basic_ends [simplified] split: if_splits)
  show "sextend w n \<noteq> Inl Diverges" by (auto simp: sextend_def Let_def bindE_eq_Inl)
qed

lemma decodeLEB128_ends [ends]: "decodeLEB128 bs sg \<noteq> Inl Diverges"
  unfolding decodeLEB128_def by (auto simp: bindE_eq_Inl ends [simplified] Let_def split: if_splits)

lemma leb_readers_end [ends]: "leb128ToUWord bs \<noteq> Inl Diverges" "leb128ToSWord bs \<noteq> Inl Diverges"
  unfolding leb128ToUWord_def leb128ToSWord_def
  by (auto simp: bindE_eq_Inl ends [simplified] Let_def split: if_splits)

lemma read_action_ends: "read_action data base off st \<noteq> Inl Diverges"
  by (auto simp: read_action_def bindE_eq_Inl ends [simplified] Let_def split: prod.splits)

lemma leb128ToUWord_nonempty: "leb128ToUWord bs = Inr r \<Longrightarrow> bs \<noteq> []"
  by (auto simp: leb128ToUWord_def decodeLEB128_def)

text \<open>The offsets read so far: all different, all inside the section.\<close>

definition offs_inside :: "byte list \<Rightarrow> nat \<Rightarrow> addr_t list \<Rightarrow> bool" where
  "offs_inside data base offs \<longleftrightarrow> distinct offs \<and> (\<forall>off\<in>set offs. unat (of_nat base + off) < length data)"

lemma offs_inside_length: "offs_inside data base offs \<Longrightarrow> length offs \<le> length data"
proof -
  assume o: "offs_inside data base offs"
  have "inj_on (\<lambda>off. unat (of_nat base + off)) (set offs)" by (auto simp: inj_on_def word_unat_eq_iff [symmetric])
  moreover have "(\<lambda>off. unat (of_nat base + off)) ` set offs \<subseteq> {..<length data}"
    using o by (auto simp: offs_inside_def)
  ultimately have "card (set offs) \<le> card {..<length data}" by (rule card_inj_on_le) simp
  with o show ?thesis by (simp add: offs_inside_def distinct_card)
qed

lemma read_action_inside:
  assumes "read_action data base off (offs, acts, h) = Inr (idx, cont, off', offs', acts', h')"
    "offs_inside data base offs" "off \<notin> set offs"
  shows "offs_inside data base offs'" "length offs' = Suc (length offs)"
proof -
  have "offs' = offs @ [off]" "drop (unat (of_nat base + off)) data \<noteq> []"
    using assms(1) by (auto simp: read_action_def Let_def bindE_eq_Inr dest: leb128ToUWord_nonempty)
  with assms(2,3) show "offs_inside data base offs'" "length offs' = Suc (length offs)"
    by (auto simp: offs_inside_def)
qed

lemma set_next_action_ends: "set_next_action p i acts \<noteq> Inl Diverges"
  by (auto simp: set_next_action_def bindE_eq_Inl ends [simplified] split: option.splits)

lemma read_chain_ends:
  "offs_inside data base (fst st) \<Longrightarrow> length data < fuel + length (fst st) \<Longrightarrow>
   read_chain fuel data base off p st \<noteq> Inl Diverges \<and>
   (\<forall>idx st'. read_chain fuel data base off p st = Inr (idx, st') \<longrightarrow> offs_inside data base (fst st'))"
proof (induction fuel arbitrary: off p st)
  case 0
  then show ?case using offs_inside_length by fastforce
next
  case (Suc fuel)
  obtain offs acts h where st: "st = (offs, acts, h)" by (cases st)
  show ?case
  proof (cases "index_of off offs")
    case (Some k)
    then show ?thesis
      using Suc.prems(1) st set_next_action_ends [of p k acts] by (auto simp: bindE_eq_Inl bindE_eq_Inr)
  next
    case None
    then have new: "off \<notin> set offs" by (simp add: index_of_None_iff)
    show ?thesis
    proof (cases "read_action data base off (offs, acts, h)")
      case (Inl e)
      then show ?thesis using None st read_action_ends [of data base off "(offs, acts, h)"] by auto
    next
      case (Inr r)
      obtain idx cont off' offs' acts' h' where r: "r = (idx, cont, off', offs', acts', h')" by (cases r)
      note ins = read_action_inside [OF Inr [unfolded r] _ new]
      have o': "offs_inside data base offs'" "length offs' = Suc (length offs)"
        using ins Suc.prems(1) st by simp_all
      have IH: "read_chain fuel data base off' q (offs', acts'', h') \<noteq> Inl Diverges \<and>
          (\<forall>idx st'. read_chain fuel data base off' q (offs', acts'', h') = Inr (idx, st') \<longrightarrow> offs_inside data base (fst st'))"
        for q acts''
        by (rule Suc.IH) (use o' Suc.prems(2) st in simp_all)
      show ?thesis
      proof (intro conjI allI impI)
        show "read_chain (Suc fuel) data base off p st \<noteq> Inl Diverges"
          using None Inr r st IH set_next_action_ends [of p idx acts']
          by (auto simp: bindE_eq_Inl split: if_splits)
        fix i st'
        assume "read_chain (Suc fuel) data base off p st = Inr (i, st')"
        then show "offs_inside data base (fst st')"
          using None Inr r st o'(1) IH by (cases st') (fastforce simp: bindE_eq_Inr split: if_splits)
      qed
    qed
  qed
qed

lemma read_actions_end:
  "offs_inside data base (fst st) \<Longrightarrow> read_actions data base cs st \<noteq> Inl Diverges"
proof (induction cs arbitrary: st)
  case (Cons c cs)
  have c: "read_chain (Suc (length data)) data base off None st \<noteq> Inl Diverges"
    "\<And>idx st'. read_chain (Suc (length data)) data base off None st = Inr (idx, st') \<Longrightarrow> offs_inside data base (fst st')" for off
    using read_chain_ends [OF Cons.prems, of "Suc (length data)" off None] by (auto simp del: read_chain.simps)
  show ?case
    using Cons.IH Cons.prems c by (auto simp: bindE_eq_Inl bindE_eq_Inr simp del: read_chain.simps split: if_splits)
qed simp

text \<open>
  C23: whatever bytes it is given, \<^verbatim>\<open>readActionTable\<close> comes to an end: it follows cyclic chains only as
  far as their first repetition.
\<close>

theorem action_table_reader_terminates: "readActionTable data offset callSites \<noteq> Inl Diverges"
  using read_actions_end [of data offset "([], [], 0)" callSites]
  by (auto simp: readActionTable_def bindE_eq_Inl offs_inside_def)

end
