(* ===== verification/Heap_Model.thy ===== *)
theory Heap_Model
  imports Katana_Prelude
begin

text \<open>
  Linked structures: a heap is the list of the cells allocated so far, \<open>None\<close> once freed; a pointer
  is \<open>None\<close> (\<^verbatim>\<open>NULL\<close>) or the number of a cell.  \<^verbatim>\<open>malloc\<close> never returns a cell that was freed.
\<close>

type_synonym ptr = "nat option"
type_synonym 'n heap = "'n option list"

definition load :: "'n heap \<Rightarrow> ptr \<Rightarrow> 'n result" where
  "load h p = (case p of
       None \<Rightarrow> Inl NullDeref
     | Some a \<Rightarrow> bindE (elem_at h a) (\<lambda>c. case c of None \<Rightarrow> Inl UseAfterFree | Some n \<Rightarrow> Inr n))"

definition update :: "'n heap \<Rightarrow> ptr \<Rightarrow> ('n \<Rightarrow> 'n) \<Rightarrow> 'n heap result" where
  "update h p f = bindE (load h p) (\<lambda>n. Inr (h[the p := Some (f n)]))"

definition alloc :: "'n heap \<Rightarrow> 'n \<Rightarrow> 'n heap \<times> nat" where
  "alloc h n = (h @ [Some n], length h)"

definition free_cell :: "'n heap \<Rightarrow> ptr \<Rightarrow> 'n heap result" where
  "free_cell h p = (case p of None \<Rightarrow> Inr h | Some a \<Rightarrow> bindE (load h p) (\<lambda>_. Inr (h[a := None])))"

abbreviation cell :: "'n heap \<Rightarrow> nat \<Rightarrow> 'n \<Rightarrow> bool" where
  "cell h a n \<equiv> a < length h \<and> h ! a = Some n"

lemma load_cell [simp]: "cell h a n \<Longrightarrow> load h (Some a) = Inr n"
  by (simp add: load_def)

lemma load_None [simp]: "load h None = Inl NullDeref"
  by (simp add: load_def)

lemma load_eq_Inr: "load h p = Inr n \<longleftrightarrow> (\<exists>a. p = Some a \<and> cell h a n)"
  by (auto simp: load_def elem_at_def split: option.splits if_splits)

lemma update_cell [simp]: "cell h a n \<Longrightarrow> update h (Some a) f = Inr (h[a := Some (f n)])"
  by (simp add: update_def)

text \<open>
  \<open>seg nxt h p as q\<close>: following \<open>nxt\<close> from \<open>p\<close> runs through the cells \<open>as\<close> and arrives at \<open>q\<close>.
\<close>

fun seg :: "('n \<Rightarrow> ptr) \<Rightarrow> 'n heap \<Rightarrow> ptr \<Rightarrow> nat list \<Rightarrow> ptr \<Rightarrow> bool" where
  "seg nxt h p [] q \<longleftrightarrow> p = q"
| "seg nxt h p (a # as) q \<longleftrightarrow> p = Some a \<and> (\<exists>n. cell h a n \<and> seg nxt h (nxt n) as q)"

lemma seg_append: "seg nxt h p (xs @ ys) q \<longleftrightarrow> (\<exists>r. seg nxt h p xs r \<and> seg nxt h r ys q)"
  by (induction xs arbitrary: p) auto

lemma seg_frame:
  "(\<And>a. a \<in> set as \<Longrightarrow> a < length h \<Longrightarrow> a < length h' \<and> h' ! a = h ! a) \<Longrightarrow>
   seg nxt h p as q \<Longrightarrow> seg nxt h' p as q"
  by (induction as arbitrary: p) auto

lemma seg_alloc: "seg nxt h p as q \<Longrightarrow> seg nxt (h @ xs) p as q"
  by (erule seg_frame [rotated]) (auto simp: nth_append)

lemma seg_update_other: "a \<notin> set as \<Longrightarrow> seg nxt h p as q \<Longrightarrow> seg nxt (h[a := c]) p as q"
proof (erule seg_frame [rotated])
  fix b assume "a \<notin> set as" "b \<in> set as" "b < length h"
  moreover from this have "a \<noteq> b" by auto
  ultimately show "b < length (h[a := c]) \<and> h[a := c] ! b = h ! b" by simp
qed

lemma seg_in_heap: "seg nxt h p as q \<Longrightarrow> a \<in> set as \<Longrightarrow> \<exists>n. cell h a n"
  by (induction as arbitrary: p) auto

lemma seg_update_keep:
  "seg nxt h p as q \<Longrightarrow> cell h a n \<Longrightarrow> nxt (f n) = nxt n \<Longrightarrow> seg nxt (h[a := Some (f n)]) p as q"
  by (induction as arbitrary: p) (auto simp: nth_list_update)

lemma seg_unique:
  "seg nxt h p as None \<Longrightarrow> seg nxt h p bs None \<Longrightarrow> as = bs"
proof (induction as arbitrary: p bs)
  case Nil
  then show ?case by (cases bs) auto
next
  case (Cons a as)
  then show ?case by (cases bs) auto
qed

text \<open>A chain that ends has no cell twice.\<close>

lemma seg_distinct: "seg nxt h p as None \<Longrightarrow> distinct as"
proof (induction as arbitrary: p)
  case (Cons a as)
  then obtain n where n: "p = Some a" "cell h a n" "seg nxt h (nxt n) as None" by auto
  have "a \<notin> set as"
  proof
    assume "a \<in> set as"
    then obtain xs ys where "as = xs @ a # ys" by (auto dest: split_list)
    moreover from n(3) have "seg nxt h (Some a) (a # ys) None"
      unfolding calculation seg_append by auto
    moreover have "seg nxt h (Some a) (a # as) None" using n by simp
    ultimately have "a # ys = a # xs @ a # ys" using seg_unique by blast
    then show False by simp
  qed
  with Cons n show ?case by auto
qed simp

text \<open>Redirecting the last cell of a segment.\<close>

lemma seg_redirect:
  assumes "seg nxt h p (xs @ [a]) q" "a \<notin> set xs" "cell h a n" "nxt (f n) = q'"
  shows "seg nxt (h[a := Some (f n)]) p (xs @ [a]) q'"
proof -
  obtain r where r: "seg nxt h p xs r" "r = Some a" using assms(1) unfolding seg_append by auto
  have "seg nxt (h[a := Some (f n)]) p xs r" by (rule seg_update_other [OF assms(2) r(1)])
  with r(2) assms(3,4) show ?thesis unfolding seg_append by auto
qed

end
