(* ===== verification/Hash_Table.thy ===== *)
theory Hash_Table
  imports Heap_Model
begin

text \<open>
  The hash table that \<^verbatim>\<open>src/src/util/dictionary.c\<close> and \<^verbatim>\<open>src/src/util/map.c\<close> share line by line: all
  nodes form one doubly linked list in which the nodes of a bucket are next to each other, and the
  array \<^verbatim>\<open>hash\<close> points to the first node of every bucket.  The key hash and the comparison are
  arguments (\<open>hashf\<close>, \<open>eq\<close>).  Callbacks that free keys and data have no effect on the table.
\<close>

section \<open>State\<close>

record ('k, 'v) NODE =
  n_next :: ptr
  n_prev :: ptr
  n_data :: 'v
  n_key :: 'k
  n_hash :: nat

record ('k, 'v) Table =
  t_heap :: "('k, 'v) NODE heap"
  t_hash :: "ptr list"
  t_numBuckets :: nat
  t_start :: ptr
  t_end :: ptr
  t_size :: nat

section \<open>Operations\<close>

definition bucket_of :: "('k \<Rightarrow> 64 word) \<Rightarrow> ('k, 'v, 'z) Table_scheme \<Rightarrow> 'k \<Rightarrow> nat result" where
  "bucket_of hashf t k =
     (if t_numBuckets t = 0 then Inl DivideByZero else Inr (unat (hashf k) mod t_numBuckets t))"

text \<open>\<^verbatim>\<open>do { ... } while((node=node->next) && hash==node->hash)\<close>: the first node whose key matches.\<close>

fun find_in_bucket :: "nat \<Rightarrow> ('k \<Rightarrow> bool) \<Rightarrow> nat \<Rightarrow> ('k, 'v) NODE heap \<Rightarrow> ptr \<Rightarrow> ptr result" where
  "find_in_bucket 0 match hash h p = Inl Diverges"
| "find_in_bucket (Suc fuel) match hash h p =
     bindE (load h p) (\<lambda>n.
       if match (n_key n) then Inr p
       else if n_next n = None then Inr None
       else bindE (load h (n_next n)) (\<lambda>n'.
         if hash = n_hash n' then find_in_bucket fuel match hash h (n_next n) else Inr None))"

text \<open>A walk that meets more nodes than there are cells goes round a cycle.\<close>

definition table_find ::
  "('k \<Rightarrow> 64 word) \<Rightarrow> ('k \<Rightarrow> 'k \<Rightarrow> bool) \<Rightarrow> ('k, 'v, 'z) Table_scheme \<Rightarrow> 'k \<Rightarrow> ptr result" where
  "table_find hashf eq t k =
     bindE (bucket_of hashf t k) (\<lambda>b.
     bindE (elem_at (t_hash t) b) (\<lambda>node.
       if node = None then Inr None
       else find_in_bucket (Suc (length (t_heap t))) (eq k) b (t_heap t) node))"

definition table_exists ::
  "('k \<Rightarrow> 64 word) \<Rightarrow> ('k \<Rightarrow> 'k \<Rightarrow> bool) \<Rightarrow> ('k, 'v, 'z) Table_scheme \<Rightarrow> 'k \<Rightarrow> bool result" where
  "table_exists hashf eq t k = bindE (table_find hashf eq t k) (\<lambda>p. Inr (p \<noteq> None))"

definition table_get ::
  "('k \<Rightarrow> 64 word) \<Rightarrow> ('k \<Rightarrow> 'k \<Rightarrow> bool) \<Rightarrow> ('k, 'v, 'z) Table_scheme \<Rightarrow> 'k \<Rightarrow> 'v option result" where
  "table_get hashf eq t k =
     bindE (table_find hashf eq t k) (\<lambda>p.
       if p = None then Inr None else bindE (load (t_heap t) p) (\<lambda>n. Inr (Some (n_data n))))"

text \<open>To the last node of the bucket, asserting that no node passed on the way has the key.\<close>

fun last_in_bucket :: "nat \<Rightarrow> ('k \<Rightarrow> bool) \<Rightarrow> nat \<Rightarrow> ('k, 'v) NODE heap \<Rightarrow> ptr \<Rightarrow> ptr result" where
  "last_in_bucket 0 match hash h parent = Inl Diverges"
| "last_in_bucket (Suc fuel) match hash h parent =
     bindE (load h parent) (\<lambda>n.
       if n_next n = None then Inr parent
       else bindE (load h (n_next n)) (\<lambda>n'.
         if n_hash n' = hash then
           bindE (guardE (\<not> match (n_key n')) AssertFail) (\<lambda>_.
             last_in_bucket fuel match hash h (n_next n))
         else Inr parent))"

definition insert_first ::
  "nat \<Rightarrow> nat \<Rightarrow> ('k, 'v, 'z) Table_scheme \<Rightarrow> ('k, 'v, 'z) Table_scheme result" where
  "insert_first b node t =
     bindE (store_at (t_hash t) b (Some node)) (\<lambda>hash.
     bindE (update (t_heap t) (Some node) (\<lambda>n. n\<lparr>n_next := None, n_prev := t_end t\<rparr>)) (\<lambda>h.
       if t_start t = None then
         Inr (t\<lparr>t_heap := h, t_hash := hash, t_start := Some node, t_end := Some node\<rparr>)
       else
         bindE (update h (t_end t) (\<lambda>n. n\<lparr>n_next := Some node\<rparr>)) (\<lambda>h.
           Inr (t\<lparr>t_heap := h, t_hash := hash, t_end := Some node\<rparr>))))"

definition insert_after ::
  "('k \<Rightarrow> bool) \<Rightarrow> nat \<Rightarrow> ptr \<Rightarrow> nat \<Rightarrow> ('k, 'v, 'z) Table_scheme \<Rightarrow> ('k, 'v, 'z) Table_scheme result" where
  "insert_after match b first node t =
     bindE (last_in_bucket (Suc (length (t_heap t))) match b (t_heap t) first) (\<lambda>parent.
     bindE (load (t_heap t) parent) (\<lambda>pn.
     bindE (update (t_heap t) (Some node) (\<lambda>n. n\<lparr>n_next := n_next pn\<rparr>)) (\<lambda>h.
     bindE (if n_next pn \<noteq> None then update h (n_next pn) (\<lambda>n. n\<lparr>n_prev := Some node\<rparr>) else Inr h) (\<lambda>h.
     bindE (update h (Some node) (\<lambda>n. n\<lparr>n_prev := parent\<rparr>)) (\<lambda>h.
     bindE (update h parent (\<lambda>n. n\<lparr>n_next := Some node\<rparr>)) (\<lambda>h.
       Inr (t\<lparr>t_heap := h, t_end := (if parent = t_end t then Some node else t_end t)\<rparr>)))))))"

definition table_insert ::
  "('k \<Rightarrow> 64 word) \<Rightarrow> ('k \<Rightarrow> 'k \<Rightarrow> bool) \<Rightarrow> ('k, 'v, 'z) Table_scheme \<Rightarrow> 'k \<Rightarrow> 'v \<Rightarrow>
   ('k, 'v, 'z) Table_scheme result" where
  "table_insert hashf eq t k v =
     bindE (table_exists hashf eq t k) (\<lambda>ex.
     bindE (guardE (\<not> ex) AssertFail) (\<lambda>_.
     bindE (bucket_of hashf t k) (\<lambda>b.
     case alloc (t_heap t) \<lparr>n_next = None, n_prev = None, n_data = v, n_key = k, n_hash = b\<rparr> of (h, node) \<Rightarrow>
     bindE (elem_at (t_hash t) b) (\<lambda>first.
     bindE (if first = None then insert_first b node (t\<lparr>t_heap := h\<rparr>)
            else insert_after (\<lambda>k'. eq k' k) b first node (t\<lparr>t_heap := h\<rparr>)) (\<lambda>t.
       Inr (t\<lparr>t_size := t_size t + 1\<rparr>))))))"

text \<open>\<^verbatim>\<open>mapSet\<close> also replaces the key of a node it finds.\<close>

definition table_set ::
  "('k \<Rightarrow> 64 word) \<Rightarrow> ('k \<Rightarrow> 'k \<Rightarrow> bool) \<Rightarrow> bool \<Rightarrow> ('k, 'v, 'z) Table_scheme \<Rightarrow> 'k \<Rightarrow> 'v \<Rightarrow>
   ('k, 'v, 'z) Table_scheme result" where
  "table_set hashf eq rekey t k v =
     bindE (table_find hashf eq t k) (\<lambda>p.
       if p \<noteq> None then
         bindE (update (t_heap t) p (\<lambda>n. n\<lparr>n_data := v, n_key := (if rekey then k else n_key n)\<rparr>)) (\<lambda>h.
           Inr (t\<lparr>t_heap := h\<rparr>))
       else table_insert hashf eq t k v)"

text \<open>The nodes in list order, as \<^verbatim>\<open>for(;node;node=node->next)\<close> meets them.\<close>

fun nodes_from :: "nat \<Rightarrow> ('k, 'v) NODE heap \<Rightarrow> ptr \<Rightarrow> ('k, 'v) NODE list result" where
  "nodes_from fuel h None = Inr []"
| "nodes_from 0 h (Some a) = Inl Diverges"
| "nodes_from (Suc fuel) h (Some a) =
     bindE (load h (Some a)) (\<lambda>n. bindE (nodes_from fuel h (n_next n)) (\<lambda>ns. Inr (n # ns)))"

text \<open>
  A null-terminated array with room for \<^verbatim>\<open>size + 1\<close> entries.  With fewer nodes than \<^verbatim>\<open>size\<close> the array
  has indeterminate entries, with more than \<^verbatim>\<open>size + 1\<close> it overflows; both are \<open>OutOfBounds\<close>.
\<close>

definition table_array :: "(('k, 'v) NODE \<Rightarrow> 'a) \<Rightarrow> ('k, 'v, 'z) Table_scheme \<Rightarrow> 'a list result" where
  "table_array f t =
     bindE (nodes_from (length (t_heap t)) (t_heap t) (t_start t)) (\<lambda>ns.
     bindE (guardE (t_size t \<le> length ns \<and> length ns \<le> t_size t + 1) OutOfBounds) (\<lambda>_.
       Inr (take (t_size t) (map f ns))))"

end
