(* ===== verification/Table_Invariant.thy ===== *)
theory Table_Invariant
  imports Hash_Table
begin

text \<open>
  What the hash table promises: its invariant, the map it stands for, and that every operation keeps
  the one and acts as a map operation on the other.  The contract is the locale \<open>assoc_store\<close>; a
  table whose comparison is equality satisfies it.
\<close>

section \<open>The contract\<close>

locale assoc_store =
  fixes get :: "'s \<Rightarrow> 'k \<Rightarrow> 'v option result"
    and ins :: "'s \<Rightarrow> 'k \<Rightarrow> 'v \<Rightarrow> 's result"
    and put :: "'s \<Rightarrow> 'k \<Rightarrow> 'v \<Rightarrow> 's result"
    and inv :: "'s \<Rightarrow> bool"
    and abs :: "'s \<Rightarrow> 'k \<Rightarrow> 'v option"
  assumes get_ok: "inv s \<Longrightarrow> get s k = Inr (abs s k)"
    and ins_ok: "inv s \<Longrightarrow> abs s k = None \<Longrightarrow> \<exists>s'. ins s k v = Inr s' \<and> inv s' \<and> abs s' = (abs s)(k \<mapsto> v)"
    and ins_dup: "inv s \<Longrightarrow> abs s k \<noteq> None \<Longrightarrow> ins s k v = Inl AssertFail"
    and put_ok: "inv s \<Longrightarrow> \<exists>s'. put s k v = Inr s' \<and> inv s' \<and> abs s' = (abs s)(k \<mapsto> v)"
begin

lemma put_cases:
  assumes "inv s"
  obtains s' where "put s k v = Inr s'" "inv s'" "abs s' = (abs s)(k \<mapsto> v)"
  using put_ok [OF assms] by blast

lemma get_put:
  "inv s \<Longrightarrow> bindE (put s k v) (\<lambda>s'. get s' k') = Inr (if k' = k then Some v else abs s k')"
  by (rule put_cases [of s k v]) (simp_all add: get_ok)

fun put_all :: "'s \<Rightarrow> ('k \<times> 'v) list \<Rightarrow> 's result" where
  "put_all s [] = Inr s"
| "put_all s ((k, v) # kvs) = bindE (put s k v) (\<lambda>s'. put_all s' kvs)"

lemma put_all_ok:
  "inv s \<Longrightarrow> \<exists>s'. put_all s kvs = Inr s' \<and> inv s' \<and> abs s' = abs s ++ map_of (rev kvs)"
proof (induction kvs arbitrary: s)
  case (Cons kv kvs)
  obtain k v where kv: "kv = (k, v)" by fastforce
  obtain s1 where s1: "put s k v = Inr s1" "inv s1" "abs s1 = (abs s)(k \<mapsto> v)"
    using put_cases [OF Cons.prems] by blast
  obtain s2 where s2: "put_all s1 kvs = Inr s2" "inv s2" "abs s2 = abs s1 ++ map_of (rev kvs)"
    using Cons.IH [OF s1(2)] by blast
  have "abs s2 = abs s ++ map_of (rev ((k, v) # kvs))"
    unfolding s2(3) s1(3) by (rule ext) (simp add: map_add_def split: option.split)
  with s1 s2 show ?case by (simp add: kv)
qed simp

end

section \<open>Doubly linked lists\<close>

abbreviation node_at :: "('k, 'v) NODE heap \<Rightarrow> nat \<Rightarrow> ('k, 'v) NODE" where
  "node_at h a \<equiv> the (h ! a)"

definition dll :: "('k, 'v) NODE heap \<Rightarrow> ptr \<Rightarrow> nat list \<Rightarrow> ptr \<Rightarrow> bool" where
  "dll h s as e \<longleftrightarrow> seg n_next h s as None \<and> seg n_prev h e (rev as) None"

lemma dll_distinct: "dll h s as e \<Longrightarrow> distinct as"
  by (auto simp: dll_def dest: seg_distinct)

lemma dll_in_heap: "dll h s as e \<Longrightarrow> a \<in> set as \<Longrightarrow> cell h a (node_at h a)"
  by (auto simp: dll_def dest!: seg_in_heap)

lemma dll_end: "dll h s as e \<Longrightarrow> e = (if as = [] then None else Some (last as))"
  by (cases as rule: rev_cases) (auto simp: dll_def)

lemma dll_start: "dll h s as e \<Longrightarrow> s = (if as = [] then None else Some (hd as))"
  by (cases as) (auto simp: dll_def)

lemma dll_neighbours:
  assumes "dll h s (xs @ a # ys) e" "cell h a n"
  shows "n_next n = (if ys = [] then None else Some (hd ys))"
    "n_prev n = (if xs = [] then None else Some (last xs))"
proof -
  have "seg n_next h (n_next n) ys None" "seg n_prev h (n_prev n) (rev xs) None"
    using assms by (auto simp: dll_def seg_append)
  then show "n_next n = (if ys = [] then None else Some (hd ys))"
    "n_prev n = (if xs = [] then None else Some (last xs))"
    by (cases ys; cases xs rule: rev_cases; simp)+
qed

lemma seg_like:
  "(\<And>a n. a \<in> set as \<Longrightarrow> cell h a n \<Longrightarrow> \<exists>n'. cell h' a n' \<and> nxt n' = nxt n) \<Longrightarrow>
   seg nxt h p as q \<Longrightarrow> seg nxt h' p as q"
  by (induction as arbitrary: p) fastforce+

text \<open>A new node after \<open>p\<close>, and a first node.\<close>

lemma dll_splice:
  assumes dll: "dll h s (xs @ p # ys) e"
    and len: "length h' = Suc (length h)"
    and frame: "\<And>a. a < length h \<Longrightarrow> a \<noteq> p \<Longrightarrow> a \<notin> set (take 1 ys) \<Longrightarrow> h' ! a = h ! a"
    and p: "h' ! p = Some ((node_at h p)\<lparr>n_next := Some (length h)\<rparr>)"
    and n: "h' ! length h = Some n" "n_next n = n_next (node_at h p)" "n_prev n = Some p"
    and y: "\<And>y ys'. ys = y # ys' \<Longrightarrow> h' ! y = Some ((node_at h y)\<lparr>n_prev := Some (length h)\<rparr>)"
  shows "dll h' s (xs @ p # length h # ys) (if ys = [] then Some (length h) else e)"
proof -
  note dist = dll_distinct [OF dll]
  have c: "cell h a (node_at h a)" if "a \<in> set (xs @ p # ys)" for a
    using dll_in_heap [OF dll that] .
  have fwd: "seg n_next h s xs (Some p)" "seg n_next h (n_next (node_at h p)) ys None"
    using dll unfolding dll_def seg_append by auto
  have same: "h' ! a = h ! a \<and> a < length h'" if "a \<in> set xs \<union> set (drop 1 ys)" for a
    using that dist c [of a] frame [of a] len in_set_dropD [of a 1 ys] by (cases ys) auto
  have next_y: "\<exists>n'. cell h' a n' \<and> n_next n' = n_next m" if "a \<in> set ys" "cell h a m" for a m
    using that same [of a] y c [of a] len dist by (cases ys) auto
  have 1: "seg n_next h' s xs (Some p)" using fwd(1) by (rule seg_frame [rotated]) (use same len in auto)
  have 2: "seg n_next h' (n_next (node_at h p)) ys None" by (rule seg_like [OF next_y fwd(2)])
  have pl: "p < length h" using c [of p] by simp
  have f: "seg n_next h' s (xs @ p # length h # ys) None"
    unfolding seg_append using 1 2 p n pl len by auto
  have b: "seg n_prev h' (if ys = [] then Some (length h) else e) (rev (xs @ p # length h # ys)) None"
  proof (cases ys)
    case Nil
    have "seg n_prev h (n_prev (node_at h p)) (rev xs) None" using dll Nil by (auto simp: dll_def)
    then have "seg n_prev h' (n_prev (node_at h p)) (rev xs) None"
      by (rule seg_frame [rotated]) (use same in auto)
    with Nil p n pl len show ?thesis by auto
  next
    case (Cons y ys')
    have yl: "y < length h" using c [of y] Cons by simp
    have bwd: "seg n_prev h e (rev ys') (Some y)" "seg n_prev h (n_prev (node_at h p)) (rev xs) None"
      using dll Cons by (auto simp: dll_def seg_append)
    have "seg n_prev h' e (rev ys') (Some y)" using bwd(1) by (rule seg_frame [rotated]) (use same Cons in auto)
    moreover have "seg n_prev h' (n_prev (node_at h p)) (rev xs) None"
      using bwd(2) by (rule seg_frame [rotated]) (use same in auto)
    ultimately show ?thesis using Cons p n pl yl len y [OF Cons] by (auto simp: seg_append)
  qed
  from f b show ?thesis by (simp add: dll_def)
qed

section \<open>The walks\<close>

lemma find_in_bucket_group:
  "seg n_next h (Some a) (a # g @ rest) None \<Longrightarrow>
   (\<And>x. x \<in> set g \<Longrightarrow> n_hash (node_at h x) = b) \<Longrightarrow>
   (rest \<noteq> [] \<Longrightarrow> n_hash (node_at h (hd rest)) \<noteq> b) \<Longrightarrow> length g < fuel \<Longrightarrow>
   find_in_bucket fuel match b h (Some a) = Inr (find (\<lambda>x. match (n_key (node_at h x))) (a # g))"
proof (induction g arbitrary: a fuel)
  case Nil
  then obtain f where "fuel = Suc f" by (cases fuel) auto
  with Nil show ?case by (cases rest) (auto simp: load_eq_Inr)
next
  case (Cons x g)
  from Cons.prems obtain f where f: "fuel = Suc f" "length g < f" by (cases fuel) auto
  from Cons.prems have s: "seg n_next h (Some x) (x # g @ rest) None" by auto
  have "find_in_bucket f match b h (Some x) = Inr (find (\<lambda>x. match (n_key (node_at h x))) (x # g))"
    by (rule Cons.IH) (use Cons.prems s f in auto)
  with f Cons.prems(1) Cons.prems(2) [of x] show ?case by auto
qed

lemma last_in_bucket_group:
  "seg n_next h (Some a) (a # g @ rest) None \<Longrightarrow>
   (\<And>x. x \<in> set g \<Longrightarrow> n_hash (node_at h x) = b \<and> \<not> match (n_key (node_at h x))) \<Longrightarrow>
   (rest \<noteq> [] \<Longrightarrow> n_hash (node_at h (hd rest)) \<noteq> b) \<Longrightarrow> length g < fuel \<Longrightarrow>
   last_in_bucket fuel match b h (Some a) = Inr (Some (last (a # g)))"
proof (induction g arbitrary: a fuel)
  case Nil
  then obtain f where "fuel = Suc f" by (cases fuel) auto
  with Nil show ?case by (cases rest) (auto simp: load_eq_Inr)
next
  case (Cons x g)
  from Cons.prems obtain f where f: "fuel = Suc f" "length g < f" by (cases fuel) auto
  from Cons.prems have s: "seg n_next h (Some x) (x # g @ rest) None" by auto
  have "last_in_bucket f match b h (Some x) = Inr (Some (last (x # g)))"
    by (rule Cons.IH) (use Cons.prems s f in auto)
  with f Cons.prems(1) Cons.prems(2) [of x] show ?case by auto
qed

lemma nodes_from_seg:
  "seg n_next h p as None \<Longrightarrow> length as \<le> fuel \<Longrightarrow> nodes_from fuel h p = Inr (map (node_at h) as)"
proof (induction as arbitrary: p fuel)
  case (Cons a as)
  then obtain f where "fuel = Suc f" by (cases fuel) auto
  with Cons show ?case by auto
qed simp

lemma seg_length_le:
  assumes "seg nxt h p as None"
  shows "length as \<le> length h"
proof -
  have "set as \<subseteq> {..<length h}" using seg_in_heap [OF assms] by auto
  then have "card (set as) \<le> length h" using card_mono [of "{..<length h}" "set as"] by simp
  then show ?thesis using seg_distinct [OF assms] by (simp add: distinct_card)
qed

end
