(* ===== verification/Table_Laws.thy ===== *)
theory Table_Laws
  imports Table_Invariant
begin

text \<open>
  The invariant of the hash table, the map it stands for, and the proof that its operations satisfy
  the contract \<open>assoc_store\<close> for every comparison that is equality.
\<close>

section \<open>Representation\<close>

text \<open>
  A table is a sequence of groups \<open>(b, as)\<close>: the cells \<open>as\<close> of bucket \<open>b\<close>, in the order of the list.
\<close>

abbreviation addrs :: "(nat \<times> nat list) list \<Rightarrow> nat list" where
  "addrs gs \<equiv> concat (map snd gs)"

definition groups_ok ::
  "('k \<Rightarrow> 64 word) \<Rightarrow> ('k, 'v, 'z) Table_scheme \<Rightarrow> (nat \<times> nat list) list \<Rightarrow> bool" where
  "groups_ok hashf t gs \<longleftrightarrow> distinct (map fst gs) \<and>
     (\<forall>b g. (b, g) \<in> set gs \<longrightarrow> g \<noteq> [] \<and> b < t_numBuckets t \<and>
        (\<forall>a\<in>set g. n_hash (node_at (t_heap t) a) = b \<and>
           unat (hashf (n_key (node_at (t_heap t) a))) mod t_numBuckets t = b))"

definition table_rep ::
  "('k \<Rightarrow> 64 word) \<Rightarrow> ('k, 'v, 'z) Table_scheme \<Rightarrow> (nat \<times> nat list) list \<Rightarrow> bool" where
  "table_rep hashf t gs \<longleftrightarrow>
     dll (t_heap t) (t_start t) (addrs gs) (t_end t) \<and> t_size t = length (addrs gs) \<and>
     0 < t_numBuckets t \<and> groups_ok hashf t gs \<and>
     t_hash t = map (\<lambda>b. map_option hd (map_of gs b)) [0..<t_numBuckets t] \<and>
     distinct (map (\<lambda>a. n_key (node_at (t_heap t) a)) (addrs gs))"

definition table_inv :: "('k \<Rightarrow> 64 word) \<Rightarrow> ('k, 'v, 'z) Table_scheme \<Rightarrow> bool" where
  "table_inv hashf t \<longleftrightarrow> (\<exists>gs. table_rep hashf t gs)"

definition table_entries :: "('k, 'v, 'z) Table_scheme \<Rightarrow> ('k \<times> 'v) list" where
  "table_entries t =
     (case nodes_from (length (t_heap t)) (t_heap t) (t_start t) of
        Inl _ \<Rightarrow> [] | Inr ns \<Rightarrow> map (\<lambda>n. (n_key n, n_data n)) ns)"

definition table_map :: "('k, 'v, 'z) Table_scheme \<Rightarrow> 'k \<Rightarrow> 'v option" where
  "table_map t = map_of (table_entries t)"

lemma rep_cell:
  "table_rep hashf t gs \<Longrightarrow> a \<in> set (addrs gs) \<Longrightarrow> cell (t_heap t) a (node_at (t_heap t) a)"
  unfolding table_rep_def by (rule dll_in_heap) blast+

lemma rep_ends:
  assumes "table_rep hashf t gs"
  shows "t_start t = (if addrs gs = [] then None else Some (hd (addrs gs)))"
    "t_end t = (if addrs gs = [] then None else Some (last (addrs gs)))"
  using assms unfolding table_rep_def by (blast dest: dll_start dll_end)+

lemma nodes_from_rep:
  "table_rep hashf t gs \<Longrightarrow>
   nodes_from (length (t_heap t)) (t_heap t) (t_start t) = Inr (map (node_at (t_heap t)) (addrs gs))"
  by (rule nodes_from_seg) (auto simp: table_rep_def dll_def intro: seg_length_le)

lemma table_entries_rep:
  "table_rep hashf t gs \<Longrightarrow>
   table_entries t = map (\<lambda>a. (n_key (node_at (t_heap t) a), n_data (node_at (t_heap t) a))) (addrs gs)"
  by (simp add: table_entries_def nodes_from_rep)

lemma table_keys_distinct: "table_rep hashf t gs \<Longrightarrow> distinct (map fst (table_entries t))"
  by (simp only: table_entries_rep map_map comp_def fst_conv) (simp add: table_rep_def)

lemma table_map_eq_Some:
  assumes "table_rep hashf t gs"
  shows "table_map t k = Some v \<longleftrightarrow>
    (\<exists>a\<in>set (addrs gs). n_key (node_at (t_heap t) a) = k \<and> n_data (node_at (t_heap t) a) = v)"
  unfolding table_map_def map_of_eq_Some_iff [OF table_keys_distinct [OF assms]]
  unfolding table_entries_rep [OF assms] set_map by (auto simp del: set_concat)

lemma table_map_eq_None:
  assumes "table_rep hashf t gs"
  shows "table_map t k = None \<longleftrightarrow> (\<forall>a\<in>set (addrs gs). n_key (node_at (t_heap t) a) \<noteq> k)"
  unfolding table_map_def map_of_eq_None_iff
  unfolding table_entries_rep [OF assms] set_map image_image fst_conv by (auto simp del: set_concat)

text \<open>One table that extends another by the node \<open>x\<close> has the invariant and the bigger map.\<close>

lemma table_rep_extend:
  assumes rep: "table_rep hashf t gs"
    and dll: "dll (t_heap t') (t_start t') (addrs gs') (t_end t')"
    and add: "addrs gs = us @ vs" "addrs gs' = us @ x # vs"
    and cnt: "t_size t' = Suc (t_size t)" "t_numBuckets t' = t_numBuckets t"
    and keep: "\<And>a. a \<in> set (addrs gs) \<Longrightarrow>
      n_key (node_at (t_heap t') a) = n_key (node_at (t_heap t) a) \<and>
      n_data (node_at (t_heap t') a) = n_data (node_at (t_heap t) a) \<and>
      n_hash (node_at (t_heap t') a) = n_hash (node_at (t_heap t) a)"
    and x: "n_key (node_at (t_heap t') x) = k" "n_data (node_at (t_heap t') x) = v"
      "n_hash (node_at (t_heap t') x) = unat (hashf k) mod t_numBuckets t"
    and fresh: "table_map t k = None"
    and dist: "distinct (map fst gs')"
    and groups: "\<And>b g. (b, g) \<in> set gs' \<Longrightarrow> g \<noteq> [] \<and> b < t_numBuckets t \<and>
      (\<forall>a\<in>set g. a = x \<and> b = unat (hashf k) mod t_numBuckets t \<or> (\<exists>g0. (b, g0) \<in> set gs \<and> a \<in> set g0))"
    and hash: "t_hash t' = map (\<lambda>b. map_option hd (map_of gs' b)) [0..<t_numBuckets t]"
  shows "table_rep hashf t' gs' \<and> table_map t' = (table_map t)(k \<mapsto> v)"
proof -
  let ?key = "\<lambda>a. n_key (node_at (t_heap t) a)" and ?key' = "\<lambda>a. n_key (node_at (t_heap t') a)"
  have old: "\<And>a. a \<in> set us \<union> set vs \<Longrightarrow> ?key' a = ?key a" using keep add by auto
  have new: "k \<notin> ?key ` (set us \<union> set vs)"
    using fresh add table_map_eq_None [OF rep] by auto
  have "groups_ok hashf t' gs'"
    unfolding groups_ok_def
  proof (intro conjI allI impI)
    fix b g assume "(b, g) \<in> set gs'"
    from groups [OF this] show "g \<noteq> []" "b < t_numBuckets t'" using cnt by auto
    show "\<forall>a\<in>set g. n_hash (node_at (t_heap t') a) = b \<and> unat (hashf (?key' a)) mod t_numBuckets t' = b"
    proof
      fix a assume "a \<in> set g"
      with groups [OF \<open>(b, g) \<in> set gs'\<close>]
      consider (1) "a = x" "b = unat (hashf k) mod t_numBuckets t" | (2) g0 where "(b, g0) \<in> set gs" "a \<in> set g0"
        by metis
      then show "n_hash (node_at (t_heap t') a) = b \<and> unat (hashf (?key' a)) mod t_numBuckets t' = b"
      proof cases
        case 1
        then show ?thesis using x cnt by simp
      next
        case 2
        then have "a \<in> set (addrs gs)" by force
        from keep [OF this] 2 rep show ?thesis
          unfolding table_rep_def groups_ok_def cnt by (metis cnt(2))
      qed
    qed
  qed (rule dist)
  moreover have "distinct (map ?key' (addrs gs'))"
    using rep new old x(1) unfolding add table_rep_def
    by (auto simp: distinct_map inj_on_def image_iff dest: dll_distinct)
  ultimately have rep': "table_rep hashf t' gs'"
    using rep dll add cnt hash by (simp add: table_rep_def)
  have same: "map_of (map (\<lambda>a. (?key' a, n_data (node_at (t_heap t') a))) as)
      = map_of (map (\<lambda>a. (?key a, n_data (node_at (t_heap t) a))) as)" if "set as \<subseteq> set us \<union> set vs" for as
    by (rule arg_cong [where f = map_of], rule map_cong) (use that keep add in auto)
  have "map_of (map (\<lambda>a. (?key a, n_data (node_at (t_heap t) a))) us) k = None"
    using new by (auto simp: map_of_eq_None_iff)
  then have "table_map t' = (table_map t)(k \<mapsto> v)"
    unfolding table_map_def table_entries_rep [OF rep] table_entries_rep [OF rep'] add
    using same [of us] same [of vs] x
    by (auto simp: fun_eq_iff map_add_def split: option.splits)
  with rep' show ?thesis by simp
qed

section \<open>Buckets\<close>

lemma find_outside: "(\<And>x. x \<in> set xs \<union> set zs \<Longrightarrow> \<not> P x) \<Longrightarrow> find P (xs @ ys @ zs) = find P ys"
proof -
  assume none: "\<And>x. x \<in> set xs \<union> set zs \<Longrightarrow> \<not> P x"
  then have "find P zs = None" by (simp add: find_None_iff)
  moreover have "find P (ys @ zs) = (case find P ys of None \<Rightarrow> find P zs | r \<Rightarrow> r)"
    by (induction ys) auto
  moreover have "find P (xs @ us) = find P us" for us using none by (induction xs) auto
  ultimately show ?thesis by (simp split: option.split)
qed

text \<open>What the entry of the bucket array says.\<close>

lemma bucket_cases:
  assumes rep: "table_rep hashf t gs" and b: "b < t_numBuckets t"
  obtains (empty) "t_hash t ! b = None" "b \<notin> fst ` set gs"
  | (group) pre a g post where "t_hash t ! b = Some a" "gs = pre @ (b, a # g) # post"
proof (cases "map_of gs b")
  case None
  then show ?thesis using rep b by (intro empty) (auto simp: table_rep_def map_of_eq_None_iff)
next
  case (Some as)
  then have in_gs: "(b, as) \<in> set gs" by (rule map_of_SomeD)
  then have "as \<noteq> []" using rep by (auto simp: table_rep_def groups_ok_def)
  then obtain a g where "as = a # g" by (cases as) auto
  moreover obtain pre post where "gs = pre @ (b, as) # post" using split_list [OF in_gs] by blast
  ultimately show ?thesis using Some rep b by (intro group) (auto simp: table_rep_def)
qed

lemma in_addrs: "a \<in> set (addrs gs) \<longleftrightarrow> (\<exists>b g. (b, g) \<in> set gs \<and> a \<in> set g)"
  by force

lemma other_groups:
  assumes "groups_ok hashf t (pre @ (b, as) # post)" "a \<in> set (addrs pre) \<union> set (addrs post)"
  shows "n_hash (node_at (t_heap t) a) \<noteq> b"
    "unat (hashf (n_key (node_at (t_heap t) a))) mod t_numBuckets t \<noteq> b"
proof -
  from assms(2) obtain b' g where "(b', g) \<in> set pre \<union> set post" "a \<in> set g"
    unfolding Un_iff in_addrs by blast
  moreover have "b \<notin> fst ` (set pre \<union> set post)" using assms(1) by (auto simp: groups_ok_def)
  then have "b' \<noteq> b" using calculation(1) by (metis fst_conv image_eqI)
  moreover have "n_hash (node_at (t_heap t) a) = b' \<and>
      unat (hashf (n_key (node_at (t_heap t) a))) mod t_numBuckets t = b'"
    using assms(1) calculation(1,2) by (auto simp: groups_ok_def)
  ultimately show "n_hash (node_at (t_heap t) a) \<noteq> b"
    "unat (hashf (n_key (node_at (t_heap t) a))) mod t_numBuckets t \<noteq> b" by auto
qed

lemma group_hash:
  "groups_ok hashf t (pre @ (b, as) # post) \<Longrightarrow> a \<in> set as \<Longrightarrow> n_hash (node_at (t_heap t) a) = b"
  by (auto simp: groups_ok_def)

text \<open>The facts both walks need, at a bucket that has nodes.\<close>

lemma group_walk:
  assumes rep: "table_rep hashf t (pre @ (b, a # g) # post)"
  shows "seg n_next (t_heap t) (Some a) (a # g @ addrs post) None"
    "\<And>x. x \<in> set g \<Longrightarrow> n_hash (node_at (t_heap t) x) = b"
    "addrs post \<noteq> [] \<Longrightarrow> n_hash (node_at (t_heap t) (hd (addrs post))) \<noteq> b"
    "length g < Suc (length (t_heap t))"
proof -
  note ok = rep [unfolded table_rep_def]
  show s: "seg n_next (t_heap t) (Some a) (a # g @ addrs post) None"
    using ok by (auto simp: dll_def seg_append)
  show "length g < Suc (length (t_heap t))" using seg_length_le [OF s] by simp
  show "\<And>x. x \<in> set g \<Longrightarrow> n_hash (node_at (t_heap t) x) = b"
    using ok group_hash [of hashf t pre b "a # g" post] by simp
  show "n_hash (node_at (t_heap t) (hd (addrs post))) \<noteq> b" if "addrs post \<noteq> []"
    using ok hd_in_set [OF that] other_groups(1) by blast
qed

section \<open>Operations\<close>

definition fresh_cell :: "('k, 'v, 'z) Table_scheme \<Rightarrow> nat \<Rightarrow> 'k \<Rightarrow> 'v \<Rightarrow> ('k, 'v, 'z) Table_scheme" where
  "fresh_cell t b k v =
     t\<lparr>t_heap := t_heap t @ [Some \<lparr>n_next = None, n_prev = None, n_data = v, n_key = k, n_hash = b\<rparr>]\<rparr>"

lemma fresh_cell_simps [simp]:
  "t_hash (fresh_cell t b k v) = t_hash t" "t_numBuckets (fresh_cell t b k v) = t_numBuckets t"
  "t_start (fresh_cell t b k v) = t_start t" "t_end (fresh_cell t b k v) = t_end t"
  "t_size (fresh_cell t b k v) = t_size t"
  by (simp_all add: fresh_cell_def)

lemma table_rep_fresh:
  assumes rep: "table_rep hashf t gs"
  shows "table_rep hashf (fresh_cell t b k v) gs" "table_map (fresh_cell t b k v) = table_map t"
proof -
  let ?t = "fresh_cell t b k v"
  have same: "t_heap ?t ! a = t_heap t ! a" if "a \<in> set (addrs gs)" for a
    using dll_in_heap [OF _ that] rep by (auto simp: table_rep_def fresh_cell_def nth_append)
  have "t_heap ?t ! a = t_heap t ! a" if "(b', g) \<in> set gs" "a \<in> set g" for b' g a
    by (rule same) (use that in force)
  then have "groups_ok hashf ?t gs \<longleftrightarrow> groups_ok hashf t gs" by (auto simp: groups_ok_def)
  moreover have "map (\<lambda>a. n_key (node_at (t_heap ?t) a)) (addrs gs)
      = map (\<lambda>a. n_key (node_at (t_heap t) a)) (addrs gs)" by (rule map_cong) (simp_all add: same del: set_concat)
  then have "distinct (map (\<lambda>a. n_key (node_at (t_heap ?t) a)) (addrs gs))"
    using rep by (simp only: table_rep_def)
  moreover have "dll (t_heap ?t) s (addrs gs) e" if "dll (t_heap t) s (addrs gs) e" for s e
    using that by (auto simp: dll_def fresh_cell_def intro: seg_alloc)
  ultimately show rep': "table_rep hashf ?t gs" using rep by (simp add: table_rep_def)
  have "table_entries ?t = table_entries t"
    unfolding table_entries_rep [OF rep] table_entries_rep [OF rep']
    by (rule map_cong) (simp_all add: same del: set_concat)
  then show "table_map ?t = table_map t" by (simp add: table_map_def)
qed

locale keyed_table =
  fixes hashf :: "'k \<Rightarrow> 64 word"
    and eq :: "'k \<Rightarrow> 'k \<Rightarrow> bool"
  assumes eq_iff: "eq a b \<longleftrightarrow> a = b"
begin

lemma find_ok:
  assumes rep: "table_rep hashf t gs"
  shows "table_find hashf eq t k = Inr (find (\<lambda>a. n_key (node_at (t_heap t) a) = k) (addrs gs))"
proof -
  let ?b = "unat (hashf k) mod t_numBuckets t"
  have b: "bucket_of hashf t k = Inr ?b" "?b < t_numBuckets t" "length (t_hash t) = t_numBuckets t"
    using rep by (auto simp: bucket_of_def table_rep_def)
  have ok: "groups_ok hashf t gs" using rep by (simp add: table_rep_def)
  show ?thesis
  proof (cases rule: bucket_cases [OF rep b(2)])
    case 1
    note empty = 1
    have "n_key (node_at (t_heap t) a) \<noteq> k" if "a \<in> set (addrs gs)" for a
      using that ok empty(2) by (force simp: groups_ok_def)
    then have "find (\<lambda>a. n_key (node_at (t_heap t) a) = k) (addrs gs) = None"
      by (simp add: find_None_iff del: set_concat)
    with b empty show ?thesis by (simp add: table_find_def)
  next
    case (2 pre a g post)
    note group = 2
    note w = group_walk [OF rep [unfolded group(2)]]
    have "find_in_bucket (Suc (length (t_heap t))) (eq k) ?b (t_heap t) (Some a) =
        Inr (find (\<lambda>a. eq k (n_key (node_at (t_heap t) a))) (a # g))"
      by (rule find_in_bucket_group [OF w])
    moreover have "find (\<lambda>a. n_key (node_at (t_heap t) a) = k) (addrs gs)
        = find (\<lambda>a. n_key (node_at (t_heap t) a) = k) (a # g)"
      unfolding group(2) map_append concat_append list.map concat.simps snd_conv
      by (rule find_outside) (use other_groups(2) ok group(2) in blast)
    moreover have "(\<lambda>a. eq k (n_key (node_at (t_heap t) a))) = (\<lambda>a. n_key (node_at (t_heap t) a) = k)"
      by (auto simp: eq_iff)
    ultimately show ?thesis using b group(1) by (simp add: table_find_def del: find.simps find_in_bucket.simps)
  qed
qed

lemma find_cases:
  assumes rep: "table_rep hashf t gs"
  obtains (absent) "table_find hashf eq t k = Inr None" "table_map t k = None"
  | (found) a where "table_find hashf eq t k = Inr (Some a)" "a \<in> set (addrs gs)"
      "n_key (node_at (t_heap t) a) = k" "table_map t k = Some (n_data (node_at (t_heap t) a))"
proof (cases "find (\<lambda>a. n_key (node_at (t_heap t) a) = k) (addrs gs)")
  case None
  then show ?thesis using find_ok [OF rep, of k] table_map_eq_None [OF rep, of k]
    by (intro absent) (auto simp: find_None_iff simp del: set_concat)
next
  case (Some a)
  then have "a \<in> set (addrs gs)" "n_key (node_at (t_heap t) a) = k"
    by (auto simp: find_Some_iff simp del: set_concat intro: nth_mem)
  then show ?thesis using find_ok [OF rep, of k] Some table_map_eq_Some [OF rep]
    by (intro found) (auto simp del: set_concat)
qed

lemma get_ok: "table_inv hashf t \<Longrightarrow> table_get hashf eq t k = Inr (table_map t k)"
proof -
  assume "table_inv hashf t"
  then obtain gs where rep: "table_rep hashf t gs" by (auto simp: table_inv_def)
  show ?thesis
  proof (cases rule: find_cases [OF rep, of k])
    case 1
    then show ?thesis by (simp add: table_get_def)
  next
    case (2 a)
    note found = 2
    then show ?thesis using load_cell [OF rep_cell [OF rep found(2)]] by (simp add: table_get_def)
  qed
qed

lemma exists_ok: "table_inv hashf t \<Longrightarrow> table_exists hashf eq t k = Inr (table_map t k \<noteq> None)"
proof -
  assume "table_inv hashf t"
  then obtain gs where rep: "table_rep hashf t gs" by (auto simp: table_inv_def)
  show ?thesis by (cases rule: find_cases [OF rep, of k]) (simp_all add: table_exists_def)
qed

lemma ins_dup: "table_inv hashf t \<Longrightarrow> table_map t k \<noteq> None \<Longrightarrow> table_insert hashf eq t k v = Inl AssertFail"
  by (simp add: table_insert_def exists_ok)

lemma insert_first_ok:
  assumes rep: "table_rep hashf t gs" and fresh: "table_map t k = None"
    and b: "b = unat (hashf k) mod t_numBuckets t" "t_hash t ! b = None"
  shows "\<exists>t'. insert_first b (length (t_heap t)) (fresh_cell t b k v) = Inr t' \<and>
    (let t' = t'\<lparr>t_size := t_size t' + 1\<rparr> in table_inv hashf t' \<and> table_map t' = (table_map t)(k \<mapsto> v))"
proof -
  let ?x = "length (t_heap t)" and ?gs = "gs @ [(b, [length (t_heap t)])]"
  let ?n = "\<lparr>n_next = None, n_prev = t_end t, n_data = v, n_key = k, n_hash = b\<rparr>"
  note ok = rep [unfolded table_rep_def]
  have bl: "b < t_numBuckets t" "b < length (t_hash t)" using ok b(1) by auto
  have nb: "b \<notin> fst ` set gs"
    by (cases rule: bucket_cases [OF rep bl(1)]) (use b(2) in auto)
  then have nb': "map_of gs b = None" by (simp add: map_of_eq_None_iff)
  have hash: "(t_hash t)[b := Some ?x] = map (\<lambda>b. map_option hd (map_of ?gs b)) [0..<t_numBuckets t]"
  proof (rule nth_equalityI)
    fix i assume "i < length ((t_hash t)[b := Some ?x])"
    then show "(t_hash t)[b := Some ?x] ! i = map (\<lambda>b. map_option hd (map_of ?gs b)) [0..<t_numBuckets t] ! i"
      using ok nb' bl by (cases "i = b") (auto simp: map_add_def split: option.split)
  qed (use ok in simp)
  have groups: "g \<noteq> [] \<and> b' < t_numBuckets t \<and>
      (\<forall>a\<in>set g. a = ?x \<and> b' = unat (hashf k) mod t_numBuckets t \<or> (\<exists>g0. (b', g0) \<in> set gs \<and> a \<in> set g0))"
    if "(b', g) \<in> set ?gs" for b' g
    using that ok bl b(1) by (auto simp: groups_ok_def)
  have dist: "distinct (map fst ?gs)" using ok nb by (auto simp: groups_ok_def)
  have inv: "table_inv hashf t' \<and> table_map t' = (table_map t)(k \<mapsto> v)"
    if t': "t_heap t' = h'" "t_start t' = (if t_start t = None then Some ?x else t_start t)" "t_end t' = Some ?x"
      "t_size t' = Suc (t_size t)" "t_numBuckets t' = t_numBuckets t" "t_hash t' = (t_hash t)[b := Some ?x]"
      and dll: "dll h' (t_start t') (addrs ?gs) (Some ?x)" and x: "h' ! ?x = Some ?n"
      and keep: "\<And>a. a \<in> set (addrs gs) \<Longrightarrow> n_key (node_at h' a) = n_key (node_at (t_heap t) a) \<and>
        n_data (node_at h' a) = n_data (node_at (t_heap t) a) \<and> n_hash (node_at h' a) = n_hash (node_at (t_heap t) a)"
    for t' h'
  proof -
    have "table_rep hashf t' ?gs \<and> table_map t' = (table_map t)(k \<mapsto> v)"
    proof (rule table_rep_extend [OF rep _ _ _ _ _ _ _ _ _ fresh dist])
      show "addrs gs = addrs gs @ []" "addrs ?gs = addrs gs @ ?x # []" by simp_all
    qed (use t' dll x keep groups hash b(1) in \<open>simp_all del: set_concat\<close>)
    then show ?thesis by (auto simp: table_inv_def)
  qed
  show ?thesis
  proof (cases "addrs gs" rule: rev_cases)
    case Nil
    then have s: "t_start t = None" "t_end t = None" using rep_ends [OF rep] by simp_all
    have run: "insert_first b ?x (fresh_cell t b k v) = Inr (t\<lparr>t_heap := t_heap t @ [Some ?n],
        t_hash := (t_hash t)[b := Some ?x], t_start := Some ?x, t_end := Some ?x\<rparr>)"
      using bl s by (simp add: insert_first_def fresh_cell_def nth_append list_update_append)
    let ?f = "t\<lparr>t_heap := t_heap t @ [Some ?n], t_hash := (t_hash t)[b := Some ?x], t_start := Some ?x,
        t_end := Some ?x, t_size := Suc (t_size t)\<rparr>"
    have "table_inv hashf ?f \<and> table_map ?f = (table_map t)(k \<mapsto> v)"
      by (rule inv [OF refl]) (use s Nil in \<open>simp_all add: nth_append dll_def del: concat_eq_Nil_conv\<close>)
    then show ?thesis by (simp add: run)
  next
    case (snoc xs p)
    note xs = this
    then obtain s0 where s: "t_start t = Some s0" "t_end t = Some p" using rep_ends [OF rep] by simp
    have p: "cell (t_heap t) p (node_at (t_heap t) p)" using rep_cell [OF rep, of p] xs by (simp del: set_concat)
    let ?h = "(t_heap t @ [Some ?n])[p := Some ((node_at (t_heap t) p)\<lparr>n_next := Some ?x\<rparr>)]"
    have nx: "n_next (node_at (t_heap t) p) = None" using ok xs by (auto simp: dll_def seg_append)
    have dll: "dll ?h (t_start t) (xs @ p # ?x # []) (if ([] :: nat list) = [] then Some ?x else t_end t)"
      by (rule dll_splice [where n = ?n]) (use ok xs p nx s in \<open>auto simp: nth_append nth_list_update\<close>)
    have keep: "n_key (node_at ?h a) = n_key (node_at (t_heap t) a) \<and>
        n_data (node_at ?h a) = n_data (node_at (t_heap t) a) \<and> n_hash (node_at ?h a) = n_hash (node_at (t_heap t) a)"
      if "a \<in> set (addrs gs)" for a
      using rep_cell [OF rep that] p by (cases "a = p") (auto simp: nth_list_update nth_append)
    have run: "insert_first b ?x (fresh_cell t b k v)
        = Inr (t\<lparr>t_heap := ?h, t_hash := (t_hash t)[b := Some ?x], t_end := Some ?x\<rparr>)"
      using bl s p by (simp add: insert_first_def fresh_cell_def nth_append list_update_append update_def
          load_eq_Inr load_cell [of _ _ "node_at (t_heap t) p"])
    let ?f = "t\<lparr>t_heap := ?h, t_hash := (t_hash t)[b := Some ?x], t_end := Some ?x, t_size := Suc (t_size t)\<rparr>"
    have x: "?h ! ?x = Some ?n" using p by (simp add: nth_append nth_list_update)
    have "table_inv hashf ?f \<and> table_map ?f = (table_map t)(k \<mapsto> v)"
    proof (rule inv [OF refl])
      show "dll (t_heap ?f) (t_start ?f) (addrs ?gs) (Some ?x)" using dll xs by simp
    qed (use s x keep in \<open>simp_all del: set_concat\<close>)
    then show ?thesis by (simp add: run)
  qed
qed

lemma insert_after_ok:
  assumes rep: "table_rep hashf t (pre @ (b, a # g) # post)" (is "table_rep _ _ ?old")
    and fresh: "table_map t k = None" and b: "b = unat (hashf k) mod t_numBuckets t"
  shows "\<exists>t'. insert_after (\<lambda>k'. eq k' k) b (Some a) (length (t_heap t)) (fresh_cell t b k v) = Inr t' \<and>
    (let t' = t'\<lparr>t_size := t_size t' + 1\<rparr> in table_inv hashf t' \<and> table_map t' = (table_map t)(k \<mapsto> v))"
proof -
  let ?x = "length (t_heap t)" and ?gs = "pre @ (b, a # g @ [length (t_heap t)]) # post"
  obtain ys where ys: "addrs post = ys" by simp
  obtain xs' p where g: "a # g = xs' @ [p]" by (metis rev_exhaust list.discI)
  then have last: "last (a # g) = p" by simp
  let ?us = "addrs pre @ a # g" and ?xs = "addrs pre @ xs'"
  let ?pn = "node_at (t_heap t) p"
  let ?n = "\<lparr>n_next = n_next ?pn, n_prev = Some p, n_data = v, n_key = k, n_hash = b\<rparr>"
  note ok = rep [unfolded table_rep_def]
  have as: "addrs ?old = ?us @ ys" "addrs ?gs = ?us @ ?x # ys" "?us = ?xs @ [p]"
    by (simp_all add: ys g)
  have order: "?xs @ p # ys = addrs ?old" "?xs @ p # ?x # ys = ?us @ ?x # ys"
    by (simp_all only: as(1,3) append.assoc append.simps)
  have bl: "b < t_numBuckets t" "b < length (t_hash t)" using ok b by auto
  have "p \<in> set (addrs ?old)" unfolding as(1,3) by simp
  then have p: "cell (t_heap t) p ?pn" by (rule rep_cell [OF rep])
  have no_key: "n_key (node_at (t_heap t) c) \<noteq> k" if "c \<in> set (addrs ?old)" for c
    using fresh that unfolding table_map_eq_None [OF rep] by blast
  have nx: "n_next ?pn = (if ys = [] then None else Some (hd ys))"
    using ok unfolding as dll_def seg_append
    by (cases ys) auto
  have hash: "t_hash t = map (\<lambda>b. map_option hd (map_of ?gs b)) [0..<t_numBuckets t]"
    using ok by (auto simp: fun_upd_def map_add_def split: option.split)
  have dist: "distinct (map fst ?gs)" using ok by (simp add: groups_ok_def)
  have groups: "g' \<noteq> [] \<and> b' < t_numBuckets t \<and>
      (\<forall>c\<in>set g'. c = ?x \<and> b' = unat (hashf k) mod t_numBuckets t \<or> (\<exists>g0. (b', g0) \<in> set ?old \<and> c \<in> set g0))"
    if "(b', g') \<in> set ?gs" for b' g'
    using that ok bl b by (auto simp: groups_ok_def)
  have inv: "table_inv hashf t' \<and> table_map t' = (table_map t)(k \<mapsto> v)"
    if t': "t_heap t' = h'" "t_start t' = t_start t" 
      "t_size t' = Suc (t_size t)" "t_numBuckets t' = t_numBuckets t" "t_hash t' = t_hash t"
      and dll: "dll h' (t_start t) (?us @ ?x # ys) (t_end t')" and x: "h' ! ?x = Some ?n"
      and keep: "\<And>c. c \<in> set (addrs ?old) \<Longrightarrow> n_key (node_at h' c) = n_key (node_at (t_heap t) c) \<and>
        n_data (node_at h' c) = n_data (node_at (t_heap t) c) \<and> n_hash (node_at h' c) = n_hash (node_at (t_heap t) c)"
    for t' h'
  proof -
    have "table_rep hashf t' ?gs \<and> table_map t' = (table_map t)(k \<mapsto> v)"
      by (rule table_rep_extend [OF rep _ as(1) as(2) _ _ _ _ _ _ fresh dist])
        (use t' dll x keep groups hash b in \<open>simp_all del: set_concat add: ys\<close>)
    then show ?thesis by (auto simp: table_inv_def)
  qed
  let ?H = "t_heap t @ [Some ?n]"
  let ?h = "(case ys of [] \<Rightarrow> ?H | y # _ \<Rightarrow> ?H[y := Some ((node_at (t_heap t) y)\<lparr>n_prev := Some ?x\<rparr>)])
     [p := Some (?pn\<lparr>n_next := Some ?x\<rparr>)]"
  have dd: "distinct (addrs ?old)" using ok by (blast dest: dll_distinct)
  have y: "cell (t_heap t) y (node_at (t_heap t) y)" "y \<noteq> p" if "ys = y # ys'" for y ys'
    using rep_cell [OF rep, of y] dd that unfolding as(1,3) by (auto simp del: set_concat)
  have len: "length ?h = Suc (length (t_heap t))" by (simp split: list.split)
  have "dll ?h (t_start t) (?xs @ p # ?x # ys) (if ys = [] then Some ?x else t_end t)"
  proof (rule dll_splice [where n = ?n, OF _ len])
    show "dll (t_heap t) (t_start t) (?xs @ p # ys) (t_end t)" using ok unfolding order(1) by blast
    show "?h ! c = t_heap t ! c" if "c < length (t_heap t)" "c \<noteq> p" "c \<notin> set (take 1 ys)" for c
      using that p y by (cases ys) (auto simp: nth_append nth_list_update)
    show "?h ! y = Some ((node_at (t_heap t) y)\<lparr>n_prev := Some ?x\<rparr>)" if "ys = y # ys'" for y ys'
      using y [OF that] that p by (simp add: nth_append nth_list_update)
  qed (use p y in \<open>auto simp: nth_append nth_list_update split: list.split\<close>)
  then have dll: "dll ?h (t_start t) (?us @ ?x # ys) (if ys = [] then Some ?x else t_end t)"
    unfolding order(2) .
  have keep: "n_key (node_at ?h c) = n_key (node_at (t_heap t) c) \<and>
      n_data (node_at ?h c) = n_data (node_at (t_heap t) c) \<and> n_hash (node_at ?h c) = n_hash (node_at (t_heap t) c)"
    if "c \<in> set (addrs ?old)" for c
    using rep_cell [OF rep that] p y by (cases ys) (auto simp: nth_append nth_list_update)
  have tail: "(if Some p = t_end t then Some ?x else t_end t) = (if ys = [] then Some ?x else t_end t)"
  proof (cases "ys = []")
    case False
    then have 1: "last (addrs ?old) \<in> set ys" unfolding as(1) by (simp del: set_concat)
    have 2: "p \<notin> set ys" using dd unfolding as(1,3) by (simp del: set_concat)
    have 3: "t_end t = Some (last (addrs ?old))" unfolding rep_ends(2) [OF rep] by simp
    have "Some p \<noteq> t_end t" unfolding 3 option.inject using 1 2 by blast
    then show ?thesis using False by (simp only: if_False)
  next
    case True
    have "t_end t = Some p" unfolding rep_ends(2) [OF rep] as(1,3) True by simp
    with True show ?thesis by simp
  qed
  have run: "insert_after (\<lambda>k'. eq k' k) b (Some a) ?x (fresh_cell t b k v)
      = Inr (t\<lparr>t_heap := ?h, t_end := (if Some p = t_end t then Some ?x else t_end t)\<rparr>)"
  proof -
    obtain pn where pn: "cell (t_heap t) p pn" "?pn = pn" using p by blast
    note gw = group_walk [OF table_rep_fresh(1) [OF rep, of b k v]]
    let ?t1 = "fresh_cell t b k v"
    have same: "t_heap ?t1 ! c = t_heap t ! c" if "c \<in> set (addrs ?old)" for c
      using rep_cell [OF rep that] by (simp add: fresh_cell_def nth_append)
    have "last_in_bucket (Suc (length (t_heap ?t1))) (\<lambda>k'. eq k' k) b (t_heap ?t1) (Some a) = Inr (Some p)"
      by (rule last_in_bucket_group [OF gw(1) _ gw(3) gw(4), unfolded last])
        (use gw(2) no_key same in \<open>auto simp: eq_iff simp del: set_concat\<close>)
    then show ?thesis
      using pn nx y(2) load_cell [OF y(1)] y(1) [THEN conjunct1] unfolding insert_after_def pn(2)
      by (cases ys) (simp_all add: fresh_cell_def nth_append list_update_append update_def
          load_eq_Inr del: last_in_bucket.simps)
  qed
  let ?f = "t\<lparr>t_heap := ?h, t_end := (if ys = [] then Some ?x else t_end t), t_size := Suc (t_size t)\<rparr>"
  have "?h ! ?x = Some ?n" using p y by (cases ys) (auto simp: nth_append nth_list_update)
  then have "table_inv hashf ?f \<and> table_map ?f = (table_map t)(k \<mapsto> v)"
    by (intro inv [OF refl]) (use dll keep in \<open>simp_all del: set_concat\<close>)
  then show ?thesis by (simp add: run tail)
qed

lemma insert_ok:
  assumes "table_inv hashf t" "table_map t k = None"
  shows "\<exists>t'. table_insert hashf eq t k v = Inr t' \<and> table_inv hashf t' \<and> table_map t' = (table_map t)(k \<mapsto> v)"
proof -
  let ?b = "unat (hashf k) mod t_numBuckets t"
  obtain gs where rep: "table_rep hashf t gs" using assms(1) by (auto simp: table_inv_def)
  have b: "bucket_of hashf t k = Inr ?b" "?b < t_numBuckets t" "length (t_hash t) = t_numBuckets t"
    using rep by (auto simp: bucket_of_def table_rep_def)
  have cell: "t\<lparr>t_heap := fst (alloc (t_heap t) \<lparr>n_next = None, n_prev = None, n_data = v, n_key = k, n_hash = ?b\<rparr>)\<rparr>
      = fresh_cell t ?b k v" by (simp add: alloc_def fresh_cell_def)
  show ?thesis
  proof (cases rule: bucket_cases [OF rep b(2)])
    case 1
    from insert_first_ok [OF rep assms(2) refl 1(1), of v] 1 b assms show ?thesis
      by (auto simp: table_insert_def exists_ok alloc_def fresh_cell_def Let_def)
  next
    case (2 pre a g post)
    from insert_after_ok [OF rep [unfolded 2(2)] assms(2) refl, of v] 2 b assms show ?thesis
      by (auto simp: table_insert_def exists_ok alloc_def fresh_cell_def Let_def)
  qed
qed

lemma set_ok:
  assumes "table_inv hashf t"
  shows "\<exists>t'. table_set hashf eq rekey t k v = Inr t' \<and> table_inv hashf t' \<and> table_map t' = (table_map t)(k \<mapsto> v)"
proof -
  obtain gs where rep: "table_rep hashf t gs" using assms(1) by (auto simp: table_inv_def)
  show ?thesis
  proof (cases rule: find_cases [OF rep, of k])
    case 1
    then show ?thesis using insert_ok [OF assms 1(2), of v] by (simp add: table_set_def)
  next
    case (2 a)
    obtain n where a: "cell (t_heap t) a n" using rep_cell [OF rep 2(2)] by blast
    let ?n = "n\<lparr>n_data := v, n_key := k\<rparr>"
    let ?t = "t\<lparr>t_heap := (t_heap t)[a := Some ?n]\<rparr>"
    have run: "table_set hashf eq rekey t k v = Inr ?t"
      using 2(1,3) a by (simp add: table_set_def update_def)
    have dll: "dll (t_heap ?t) s as e" if "dll (t_heap t) s as e" for s as e
      using that seg_update_keep [OF _ a, of _ _ _ _ "\<lambda>n. n\<lparr>n_data := v, n_key := k\<rparr>"] unfolding dll_def by simp
    have same: "n_key (node_at ((t_heap t)[a := Some ?n]) c) = n_key (node_at (t_heap t) c)"
      "n_hash (node_at ((t_heap t)[a := Some ?n]) c) = n_hash (node_at (t_heap t) c)" for c
      using 2(3) a by (cases "c = a", simp, simp)+
    have rep': "table_rep hashf ?t gs"
      using rep dll unfolding table_rep_def groups_ok_def by (simp add: same del: set_concat)
    have dist: "distinct (map (\<lambda>a. n_key (node_at (t_heap t) a)) (addrs gs))"
      using rep by (simp add: table_rep_def)
    have uniq: "c = a" if "c \<in> set (addrs gs)" "n_key (node_at (t_heap t) c) = k" for c
      using dist that 2(2,3) unfolding distinct_map inj_on_def by blast
    have "table_map ?t k' = ((table_map t)(k \<mapsto> v)) k'" for k'
    proof (rule option.expand)
      show "(table_map ?t k' = None) = (((table_map t)(k \<mapsto> v)) k' = None)"
        using 2 unfolding table_map_eq_None [OF rep'] by (auto simp: same table_map_eq_None [OF rep] simp del: set_concat)
    next
      assume "table_map ?t k' \<noteq> None"
      then obtain w where w: "table_map ?t k' = Some w" by blast
      then obtain c where c: "c \<in> set (addrs gs)" "n_key (node_at (t_heap t) c) = k'" "n_data (node_at (t_heap ?t) c) = w"
        unfolding table_map_eq_Some [OF rep'] by (auto simp: same simp del: set_concat)
      show "the (table_map ?t k') = the (((table_map t)(k \<mapsto> v)) k')"
      proof (cases "k' = k")
        case True
        with uniq c a w show ?thesis by auto
      next
        case False
        with c 2(3) have "c \<noteq> a" by auto
        then have "table_map t k' = Some w" using c unfolding table_map_eq_Some [OF rep] by auto
        with False w show ?thesis by simp
      qed
    qed
    with run rep' show ?thesis by (auto simp: table_inv_def)
  qed
qed

end

sublocale keyed_table \<subseteq> store: assoc_store "table_get hashf eq" "table_insert hashf eq" "table_set hashf eq rekey"
    "table_inv hashf" table_map for rekey
  by unfold_locales (rule get_ok insert_ok ins_dup set_ok; assumption)+

text \<open>An empty table.\<close>

lemma empty_table:
  assumes "t_heap t = []" "t_hash t = replicate (t_numBuckets t) None" "0 < t_numBuckets t"
    "t_start t = None" "t_end t = None" "t_size t = 0"
  shows "table_rep hashf t []" "table_inv hashf t" "table_map t = Map.empty"
proof -
  show "table_rep hashf t []"
    using assms by (auto simp: table_rep_def dll_def groups_ok_def intro!: nth_equalityI)
  then show "table_inv hashf t" by (auto simp: table_inv_def)
  show "table_map t = Map.empty" using assms by (simp add: table_map_def table_entries_def)
qed

end
