(* ===== verification/Dictionary.thy ===== *)
theory Dictionary
  imports Table_Laws
begin

text \<open>
  \<^verbatim>\<open>src/src/util/dictionary.c\<close>, \<^verbatim>\<open>src/src/util/map.c\<close> and \<^verbatim>\<open>src/src/util/hash.c\<close>: dictionaries with
  string keys and maps with integer keys, as instances of the hash table.
\<close>

section \<open>Hash functions\<close>

text \<open>\<^verbatim>\<open>char\<close> is signed: a character above 127 is subtracted.\<close>

definition hash1 :: "string \<Rightarrow> 64 word" where
  "hash1 str = fold (\<lambda>c h. (push_bit 5 h + h) + scast (of_char c :: byte)) str 5381"

definition hash32Bit :: "32 word \<Rightarrow> 32 word" where
  "hash32Bit key =
     (let res = NOT key + push_bit 15 key;
          res = res XOR drop_bit 12 res;
          res = res + push_bit 2 res;
          res = res XOR drop_bit 4 res;
          res = res * 2057
      in res XOR drop_bit 16 res)"

text \<open>\<^verbatim>\<open>hashInt\<close> does the same in an \<^verbatim>\<open>unsigned int\<close>; its first line is computed in \<^verbatim>\<open>int\<close> and wraps.\<close>

definition hashInt :: "32 word \<Rightarrow> 64 word" where
  "hashInt key =
     (let res = NOT key + push_bit 15 key;
          res = res XOR drop_bit 12 res;
          res = res + push_bit 2 res;
          res = res XOR drop_bit 4 res;
          res = res * 2057;
          res = res XOR drop_bit 16 res
      in ucast res)"

definition hash64Bit :: "64 word \<Rightarrow> 64 word" where
  "hash64Bit key =
     (let key = NOT key + push_bit 21 key;
          key = key XOR drop_bit 24 key;
          key = (key + push_bit 3 key) + push_bit 8 key;
          key = key XOR drop_bit 14 key;
          key = (key + push_bit 2 key) + push_bit 4 key;
          key = key XOR drop_bit 28 key
      in key + push_bit 31 key)"

section \<open>Dictionaries\<close>

text \<open>The comparison \<^verbatim>\<open>!strcmp(key,node->key)\<close> is equality of strings; keys are copied in.\<close>

record 'v Dictionary = "(string, 'v) Table" +
  d_refcount :: "32 word"

definition dictCreate :: "nat \<Rightarrow> 'v Dictionary" where
  "dictCreate bucketCnt =
     \<lparr>t_heap = [], t_hash = replicate bucketCnt None, t_numBuckets = bucketCnt, t_start = None,
      t_end = None, t_size = 0, d_refcount = 1\<rparr>"

definition dictExists :: "'v Dictionary \<Rightarrow> string \<Rightarrow> bool result" where
  "dictExists dict key = table_exists hash1 (=) dict key"

definition dictGet :: "'v Dictionary \<Rightarrow> string \<Rightarrow> 'v option result" where
  "dictGet dict key = table_get hash1 (=) dict key"

definition dictInsert :: "'v Dictionary \<Rightarrow> string \<Rightarrow> 'v \<Rightarrow> 'v Dictionary result" where
  "dictInsert dict key v = table_insert hash1 (=) dict key v"

definition dictSet :: "'v Dictionary \<Rightarrow> string \<Rightarrow> 'v \<Rightarrow> 'v Dictionary result" where
  "dictSet dict key v = table_set hash1 (=) False dict key v"

definition dictSize :: "'v Dictionary \<Rightarrow> nat" where
  "dictSize dict = t_size dict"

definition dictKeys :: "'v Dictionary \<Rightarrow> string list result" where
  "dictKeys dict = table_array n_key dict"

definition dictValues :: "'v Dictionary \<Rightarrow> 'v list result" where
  "dictValues dict = table_array n_data dict"

definition dictGrab :: "'v Dictionary \<Rightarrow> 'v Dictionary \<times> 32 word" where
  "dictGrab dict = (let rc = d_refcount dict + 1 in (dict\<lparr>d_refcount := rc\<rparr>, rc))"

definition dictRelease :: "'v Dictionary \<Rightarrow> ('v Dictionary \<times> 32 word) result" where
  "dictRelease dict =
     (let rc = d_refcount dict - 1 in
      bindE (guardE (0 \<le> sint rc) AssertFail) (\<lambda>_. Inr (dict\<lparr>d_refcount := rc\<rparr>, rc)))"

text \<open>
  \<^verbatim>\<open>dictNodeDuplicate\<close> copies a chain into the heap of the new dictionary.  \<open>dataCP\<close> is \<open>None\<close> when the
  values are copied as they are; a copy function may change a state (it allocates).
\<close>

definition copy_data :: "('s \<Rightarrow> 'v \<Rightarrow> ('s \<times> 'v) result) option \<Rightarrow> 's \<Rightarrow> 'v \<Rightarrow> ('s \<times> 'v) result" where
  "copy_data dataCP s v = (case dataCP of None \<Rightarrow> Inr (s, v) | Some f \<Rightarrow> f s v)"

fun dictNodeDuplicate :: "nat \<Rightarrow> ('s \<Rightarrow> 'v \<Rightarrow> ('s \<times> 'v) result) option \<Rightarrow> (string, 'v) NODE heap \<Rightarrow> ptr \<Rightarrow>
  's \<Rightarrow> (string, 'v) NODE heap \<Rightarrow> ('s \<times> (string, 'v) NODE heap \<times> ptr) result" where
  "dictNodeDuplicate fuel dataCP h None s new = Inr (s, new, None)"
| "dictNodeDuplicate 0 dataCP h (Some a) s new = Inl Diverges"
| "dictNodeDuplicate (Suc fuel) dataCP h (Some a) s new =
     bindE (load h (Some a)) (\<lambda>n.
     bindE (copy_data dataCP s (n_data n)) (\<lambda>(s, v).
     case alloc new \<lparr>n_next = None, n_prev = None, n_data = v, n_key = n_key n, n_hash = n_hash n\<rparr> of
       (new, node) \<Rightarrow>
       if n_next n = None then Inr (s, new, Some node)
       else
         bindE (dictNodeDuplicate fuel dataCP h (n_next n) s new) (\<lambda>(s, new, next).
         bindE (update new (Some node) (\<lambda>m. m\<lparr>n_next := next\<rparr>)) (\<lambda>new.
         bindE (update new next (\<lambda>m. m\<lparr>n_prev := Some node\<rparr>)) (\<lambda>new.
           Inr (s, new, Some node))))))"

text \<open>The loop that fills the bucket array and finds the end.\<close>

fun fill_hash :: "nat \<Rightarrow> ('k, 'v) NODE heap \<Rightarrow> ptr \<Rightarrow> ptr \<Rightarrow> ptr list \<Rightarrow> (ptr list \<times> ptr) result" where
  "fill_hash fuel h None prev hash = Inr (hash, prev)"
| "fill_hash 0 h (Some a) prev hash = Inl Diverges"
| "fill_hash (Suc fuel) h (Some a) prev hash =
     bindE (load h (Some a)) (\<lambda>n.
     bindE (elem_at hash (n_hash n)) (\<lambda>first.
     bindE (if first = None then store_at hash (n_hash n) (Some a) else Inr hash) (\<lambda>hash.
       fill_hash fuel h (n_next n) (Some a) hash)))"

definition dictDuplicate ::
  "('s \<Rightarrow> 'v \<Rightarrow> ('s \<times> 'v) result) option \<Rightarrow> 's \<Rightarrow> 'v Dictionary \<Rightarrow> ('s \<times> 'v Dictionary) result" where
  "dictDuplicate dataCP s dict =
     (let new = dictCreate (t_numBuckets dict) in
      bindE (dictNodeDuplicate (length (t_heap dict)) dataCP (t_heap dict) (t_start dict) s (t_heap new))
        (\<lambda>(s, h, start).
      bindE (fill_hash (length h) h start None (replicate (t_numBuckets new) None)) (\<lambda>(hash, last).
        Inr (s, new\<lparr>t_heap := h, t_size := t_size dict, t_start := start, t_hash := hash, t_end := last\<rparr>))))"

text \<open>\<^verbatim>\<open>dictDelete\<close> and \<^verbatim>\<open>mapDelete\<close>: the heap that is left.\<close>

fun free_from :: "nat \<Rightarrow> ('k, 'v) NODE heap \<Rightarrow> ptr \<Rightarrow> ('k, 'v) NODE heap result" where
  "free_from fuel h None = Inr h"
| "free_from 0 h (Some a) = Inl Diverges"
| "free_from (Suc fuel) h (Some a) =
     bindE (load h (Some a)) (\<lambda>n. bindE (free_cell h (Some a)) (\<lambda>h. free_from fuel h (n_next n)))"

definition dictDelete :: "'v Dictionary \<Rightarrow> (string, 'v) NODE heap result" where
  "dictDelete dict = free_from (length (t_heap dict)) (t_heap dict) (t_start dict)"

section \<open>Maps\<close>

record ('k, 'v) Map = "('k, 'v) Table" +
  m_hashfunc :: "'k \<Rightarrow> 64 word"
  m_cmpfunc :: "'k \<Rightarrow> 'k \<Rightarrow> 32 word"

definition mapCreate :: "nat \<Rightarrow> ('k \<Rightarrow> 64 word) \<Rightarrow> ('k \<Rightarrow> 'k \<Rightarrow> 32 word) \<Rightarrow> ('k, 'v) Map" where
  "mapCreate bucketCnt hashfunc cmpfunc =
     \<lparr>t_heap = [], t_hash = replicate bucketCnt None, t_numBuckets = bucketCnt, t_start = None,
      t_end = None, t_size = 0, m_hashfunc = hashfunc, m_cmpfunc = cmpfunc\<rparr>"

text \<open>Signed overflow of \<^verbatim>\<open>ai-bi\<close> is taken to wrap.  \<^verbatim>\<open>size_tCmp\<close> reads both keys through \<^verbatim>\<open>uint*\<close>.\<close>

definition intCmp :: "32 word \<Rightarrow> 32 word \<Rightarrow> 32 word" where
  "intCmp a b = a - b"

definition uintCmp :: "32 word \<Rightarrow> 32 word \<Rightarrow> 32 word" where
  "uintCmp a b = a - b"

definition size_tCmp :: "64 word \<Rightarrow> 64 word \<Rightarrow> 32 word" where
  "size_tCmp a b =
     (let ai = ucast (ucast a :: 32 word) :: 64 word; bi = ucast (ucast b :: 32 word) :: 64 word
      in ucast (ai - bi))"

definition intHash :: "32 word \<Rightarrow> 64 word" where
  "intHash integer = hashInt integer"

definition size_tHash :: "64 word \<Rightarrow> 64 word" where
  "size_tHash sizet = hash64Bit sizet"

definition integerMapCreate :: "nat \<Rightarrow> (32 word, 'v) Map" where
  "integerMapCreate bucketCount = mapCreate bucketCount intHash intCmp"

definition uintMapCreate :: "nat \<Rightarrow> (32 word, 'v) Map" where
  "uintMapCreate bucketCount = mapCreate bucketCount intHash uintCmp"

definition size_tMapCreate :: "nat \<Rightarrow> (64 word, 'v) Map" where
  "size_tMapCreate bucketCount = mapCreate bucketCount size_tHash size_tCmp"

definition map_eq :: "('k, 'v) Map \<Rightarrow> 'k \<Rightarrow> 'k \<Rightarrow> bool" where
  "map_eq m a b \<longleftrightarrow> m_cmpfunc m a b = 0"

definition mapExists :: "('k, 'v) Map \<Rightarrow> 'k \<Rightarrow> bool result" where
  "mapExists m key = table_exists (m_hashfunc m) (map_eq m) m key"

definition mapGet :: "('k, 'v) Map \<Rightarrow> 'k \<Rightarrow> 'v option result" where
  "mapGet m key = table_get (m_hashfunc m) (map_eq m) m key"

definition mapInsert :: "('k, 'v) Map \<Rightarrow> 'k \<Rightarrow> 'v \<Rightarrow> ('k, 'v) Map result" where
  "mapInsert m key v = table_insert (m_hashfunc m) (map_eq m) m key v"

definition mapSet :: "('k, 'v) Map \<Rightarrow> 'k \<Rightarrow> 'v \<Rightarrow> ('k, 'v) Map result" where
  "mapSet m key v = table_set (m_hashfunc m) (map_eq m) True m key v"

definition mapSize :: "('k, 'v) Map \<Rightarrow> nat" where
  "mapSize m = t_size m"

definition mapKeys :: "('k, 'v) Map \<Rightarrow> 'k list result" where
  "mapKeys m = table_array n_key m"

definition mapDelete :: "('k, 'v) Map \<Rightarrow> ('k, 'v) NODE heap result" where
  "mapDelete m = free_from (length (t_heap m)) (t_heap m) (t_start m)"

text \<open>
  \<^verbatim>\<open>mapRemove\<close> unlinks and frees the first node of the bucket, whatever its key, and leaves the bucket
  array alone.
\<close>

definition mapRemove :: "('k, 'v) Map \<Rightarrow> 'k \<Rightarrow> (('k, 'v) Map \<times> bool) result" where
  "mapRemove m key =
     bindE (bucket_of (m_hashfunc m) m key) (\<lambda>b.
     bindE (elem_at (t_hash m) b) (\<lambda>node.
       if node = None then Inr (m, False)
       else
         bindE (load (t_heap m) node) (\<lambda>n.
         bindE (if n_prev n \<noteq> None then update (t_heap m) (n_prev n) (\<lambda>p. p\<lparr>n_next := n_next n\<rparr>)
                else Inr (t_heap m)) (\<lambda>h.
         bindE (if n_next n \<noteq> None then update h (n_next n) (\<lambda>s. s\<lparr>n_prev := n_prev n\<rparr>)
                else Inr h) (\<lambda>h.
         bindE (free_cell h node) (\<lambda>h.
           Inr (m\<lparr>t_heap := h,
                  t_start := (if node = t_start m then n_next n else t_start m),
                  t_end := (if node = t_end m then n_prev n else t_end m),
                  t_size := t_size m - 1\<rparr>, True)))))))"

section \<open>The contract holds\<close>

interpretation dict: keyed_table hash1 "(=)"
  by unfold_locales simp

interpretation intmap: keyed_table intHash "\<lambda>a b. intCmp a b = 0"
  by unfold_locales (simp add: intCmp_def)

interpretation uintmap: keyed_table intHash "\<lambda>a b. uintCmp a b = 0"
  by unfold_locales (simp add: uintCmp_def)

end
