(* ===== verification/Dictionary_Copy.thy ===== *)
theory Dictionary_Copy
  imports Dictionary Except_Chains
begin

text \<open>
  \<^verbatim>\<open>dictDuplicate\<close>: the copy has the entries of the original in the same order and satisfies the
  invariant.
\<close>

section \<open>The copied chain\<close>

text \<open>Copying the values one after the other.\<close>

fun copy_all :: "('s \<Rightarrow> 'v \<Rightarrow> ('s \<times> 'v) result) option \<Rightarrow> 's \<Rightarrow> 'v list \<Rightarrow> ('s \<times> 'v list) result" where
  "copy_all cp s [] = Inr (s, [])"
| "copy_all cp s (v # vs) =
     bindE (copy_data cp s v) (\<lambda>(s, w). bindE (copy_all cp s vs) (\<lambda>(s, ws). Inr (s, w # ws)))"

lemma copy_all_length: "copy_all cp s vs = Inr (s', ws) \<Longrightarrow> length ws = length vs"
  by (induction vs arbitrary: s ws) (auto simp: bindE_eq_Inr)

lemma copy_all_None [simp]: "copy_all None s vs = Inr (s, vs)"
  by (induction vs) (simp_all add: copy_data_def)

text \<open>The cells of the copy of the nodes \<open>ns\<close> with new values, the first at \<open>base\<close> with predecessor \<open>prev\<close>.\<close>

fun copied :: "nat \<Rightarrow> ptr \<Rightarrow> (('k, 'v) NODE \<times> 'v) list \<Rightarrow> ('k, 'v) NODE list" where
  "copied base prev [] = []"
| "copied base prev ((n, v) # ns) =
     \<lparr>n_next = (if ns = [] then None else Some (Suc base)), n_prev = prev, n_data = v,
      n_key = n_key n, n_hash = n_hash n\<rparr> # copied (Suc base) (Some base) ns"

lemma length_copied [simp]: "length (copied base prev ns) = length ns"
  by (induction ns arbitrary: base prev) auto

lemma copied_eq_Nil [simp]: "copied base prev ns = [] \<longleftrightarrow> ns = []"
  by (cases ns) auto

lemma copied_fields:
  "map n_key (copied base prev ns) = map (n_key \<circ> fst) ns"
  "map n_data (copied base prev ns) = map snd ns"
  "map n_hash (copied base prev ns) = map (n_hash \<circ> fst) ns"
  by (induction ns arbitrary: base prev) auto

lemma copied_update_prev:
  "ns \<noteq> [] \<Longrightarrow> (copied base prev' ns)[0 := (copied base prev' ns ! 0)\<lparr>n_prev := prev\<rparr>]
     = copied base prev ns"
  by (cases ns) auto

lemma dictNodeDuplicate_run:
  "seg n_next h p as None \<Longrightarrow> length as \<le> fuel \<Longrightarrow>
   copy_all cp s (map (n_data \<circ> node_at h) as) = Inr (s', vs) \<Longrightarrow>
   dictNodeDuplicate fuel cp h p s new =
     Inr (s', new @ map Some (copied (length new) None (zip (map (node_at h) as) vs)),
          if as = [] then None else Some (length new))"
proof (induction as arbitrary: p fuel s vs new)
  case (Cons a as)
  then obtain f n where f: "fuel = Suc f" "length as \<le> f" "p = Some a" "cell h a n"
      "seg n_next h (n_next n) as None" by (cases fuel) auto
  then obtain s1 v ws where v: "copy_data cp s (n_data n) = Inr (s1, v)" "vs = v # ws"
      "copy_all cp s1 (map (n_data \<circ> node_at h) as) = Inr (s', ws)"
    using Cons.prems(3) by (auto simp: bindE_eq_Inr comp_def)
  let ?c = "\<lambda>nx. \<lparr>n_next = nx, n_prev = None, n_data = v, n_key = n_key n, n_hash = n_hash n\<rparr>"
  let ?rest = "\<lambda>prev. copied (Suc (length new)) prev (zip (map (node_at h) as) ws)"
  show ?case
  proof (cases as)
    case Nil
    then show ?thesis using f v by (simp add: alloc_def)
  next
    case (Cons a' as')
    then obtain w ws' where ws: "ws = w # ws'" using copy_all_length [OF v(3)] by (cases ws) auto
    have nx: "n_next n = Some a'" using Cons f(5) by simp
    then have "dictNodeDuplicate f cp h (Some a') s1 (new @ [Some (?c None)]) =
        Inr (s', (new @ [Some (?c None)]) @ map Some (?rest None), Some (Suc (length new)))"
      using Cons.IH [OF f(5,2) v(3), of "new @ [Some (?c None)]"] Cons by (simp del: copied.simps)
    moreover have "as \<noteq> []" "zip (map (node_at h) as) ws \<noteq> []" using Cons ws by simp_all
    moreover have "(?rest None)[0 := (?rest None ! 0)\<lparr>n_prev := Some (length new)\<rparr>] = ?rest (Some (length new))"
      by (rule copied_update_prev) (use Cons ws in simp)
    moreover have "?rest None \<noteq> []" using Cons ws by simp
    ultimately show ?thesis
      using f nx Cons v ws
      by (auto simp: alloc_def nth_append list_update_append update_def load_eq_Inr map_update [symmetric] neq_Nil_conv)
  qed
qed simp

lemma copied_next:
  "seg n_next (pre @ map Some (copied (length pre) prev ns)) (if ns = [] then None else Some (length pre))
     [length pre..<length pre + length ns] None"
proof (induction ns arbitrary: pre prev)
  case (Cons nv ns)
  obtain n v where [simp]: "nv = (n, v)" by fastforce
  from Cons.IH [of "pre @ [Some (hd (copied (length pre) prev (nv # ns)))]" "Some (length pre)"]
  show ?case by (auto simp: upt_conv_Cons nth_append simp del: upt_Suc)
qed simp

lemma copied_prevs:
  "seg n_prev (pre @ map Some (copied (length pre) prev ns))
     (if ns = [] then prev else Some (length pre + length ns - 1))
     (rev [length pre..<length pre + length ns]) prev"
proof (induction ns arbitrary: pre prev)
  case (Cons nv ns)
  obtain n v where [simp]: "nv = (n, v)" by fastforce
  from Cons.IH [of "pre @ [Some (hd (copied (length pre) prev (nv # ns)))]" "Some (length pre)"]
  show ?case by (auto simp: upt_conv_Cons nth_append seg_append simp del: upt_Suc)
qed simp

lemma copied_dll:
  "dll (map Some (copied 0 None ns)) (if ns = [] then None else Some 0) [0..<length ns]
     (if ns = [] then None else Some (length ns - 1))"
  using copied_next [of "[]" None ns] copied_prevs [of "[]" None ns]
  by (cases "ns = []") (simp_all add: dll_def)

lemma copied_nth:
  assumes "i < length ns"
  shows "n_key (copied base prev ns ! i) = n_key (fst (ns ! i))"
    "n_data (copied base prev ns ! i) = snd (ns ! i)"
    "n_hash (copied base prev ns ! i) = n_hash (fst (ns ! i))"
  using assms arg_cong [OF copied_fields(1), of "\<lambda>xs. xs ! i" base prev ns]
    arg_cong [OF copied_fields(2), of "\<lambda>xs. xs ! i" base prev ns]
    arg_cong [OF copied_fields(3), of "\<lambda>xs. xs ! i" base prev ns] by simp_all

section \<open>The bucket array\<close>

lemma fill_hash_run:
  "seg n_next h p as None \<Longrightarrow> length as \<le> fuel \<Longrightarrow>
   (\<And>a. a \<in> set as \<Longrightarrow> n_hash (node_at h a) < length hash) \<Longrightarrow>
   fill_hash fuel h p prev hash =
     Inr (map (\<lambda>b. if hash ! b = None then find (\<lambda>a. n_hash (node_at h a) = b) as else hash ! b) [0..<length hash],
          if as = [] then prev else Some (last as))"
proof (induction as arbitrary: p fuel prev hash)
  case Nil
  then show ?case by (auto simp: if_distrib intro!: nth_equalityI)
next
  case (Cons a as)
  then obtain f n where f: "fuel = Suc f" "length as \<le> f" "p = Some a" "cell h a n"
      "seg n_next h (n_next n) as None" by (cases fuel) auto
  have b: "n_hash n < length hash" using Cons.prems(3) [of a] f by simp
  let ?hash = "if hash ! n_hash n = None then hash[n_hash n := Some a] else hash"
  have run: "fill_hash f h (n_next n) (Some a) ?hash =
     Inr (map (\<lambda>b. if ?hash ! b = None then find (\<lambda>a. n_hash (node_at h a) = b) as else ?hash ! b) [0..<length ?hash],
          if as = [] then Some a else Some (last as))"
    by (rule Cons.IH [OF f(5,2)]) (use Cons.prems(3) in auto)
  have eq: "map (\<lambda>b. if ?hash ! b = None then find (\<lambda>a. n_hash (node_at h a) = b) as else ?hash ! b) [0..<length ?hash]
      = map (\<lambda>b. if hash ! b = None then find (\<lambda>a. n_hash (node_at h a) = b) (a # as) else hash ! b) [0..<length hash]"
    by (rule nth_equalityI) (use f b in \<open>auto simp: nth_list_update\<close>)
  have "fill_hash fuel h p prev hash = fill_hash f h (n_next n) (Some a) ?hash" using f b by simp
  then show ?case unfolding run eq by simp
qed

lemma find_group:
  "distinct (map fst gs) \<Longrightarrow> (\<And>b g. (b, g) \<in> set gs \<Longrightarrow> g \<noteq> [] \<and> (\<forall>a\<in>set g. f a = b)) \<Longrightarrow>
   find (\<lambda>a. f a = b) (addrs gs) = map_option hd (map_of gs b)"
proof (induction gs)
  case (Cons bg gs)
  obtain b' g where bg: "bg = (b', g)" by fastforce
  have g: "g \<noteq> []" "\<forall>a\<in>set g. f a = b'" using Cons.prems(2) [of b' g] bg by auto
  have IH: "find (\<lambda>a. f a = b) (addrs gs) = map_option hd (map_of gs b)"
    using Cons.prems by (intro Cons.IH) auto
  show ?case
  proof (cases "b' = b")
    case True
    with g show ?thesis unfolding bg by (cases g) auto
  next
    case False
    then have "find (\<lambda>a. f a = b) (g @ addrs gs) = find (\<lambda>a. f a = b) (addrs gs)"
      using find_outside [of g "[]" "\<lambda>a. f a = b" "addrs gs"] g by auto
    with IH False show ?thesis unfolding bg by simp
  qed
qed simp

section \<open>The copy\<close>

lemma dictDuplicate_ok:
  assumes "table_inv hash1 d" and copies: "copy_all cp s (map snd (table_entries d)) = Inr (s', vs)"
  shows "\<exists>d'. dictDuplicate cp s d = Inr (s', d') \<and> table_inv hash1 d' \<and> d_refcount d' = 1 \<and>
    table_entries d' = zip (map fst (table_entries d)) vs"
proof -
  obtain gs where rep: "table_rep hash1 d gs" using assms(1) by (auto simp: table_inv_def)
  note ok = rep [unfolded table_rep_def groups_ok_def]
  obtain as where as: "as = addrs gs" by simp
  let ?h = "t_heap d"
  have data: "copy_all cp s (map (n_data \<circ> node_at ?h) as) = Inr (s', vs)"
    using copies unfolding table_entries_rep [OF rep] as by (simp add: comp_def)
  have vs: "length vs = length as" using copy_all_length [OF data] by simp
  let ?ns = "zip (map (node_at ?h) as) vs"
  let ?H = "map Some (copied 0 None ?ns)"
  let ?gs = "map (\<lambda>(b, g). (b, map (pos as) g)) gs"
  have dist: "distinct as" using ok as by (blast dest: dll_distinct)
  have pos: "pos as a < length as" "as ! pos as a = a" if "a \<in> set as" for a
    using pos_less [OF that] by auto
  have pos_nth: "pos as (as ! i) = i" if "i < length as" for i
    using pos [of "as ! i"] that dist by (auto simp: nth_eq_iff_index_eq)
  have addrs: "addrs ?gs = [0..<length as]"
  proof -
    have "addrs ?gs = map (pos as) as" unfolding as by (simp add: map_concat comp_def case_prod_unfold)
    then show ?thesis by (auto simp: pos_nth intro!: nth_equalityI)
  qed
  have seg: "seg n_next ?h (t_start d) as None" using ok as by (auto simp: dll_def)
  have in_gs: "a \<in> set as" if "(b, g) \<in> set gs" "a \<in> set g" for a b g
    using that unfolding as in_addrs by blast
  have cellH: "n_key (node_at ?H (pos as a)) = n_key (node_at ?h a) \<and>
      n_hash (node_at ?H (pos as a)) = n_hash (node_at ?h a)" if "a \<in> set as" for a
    using pos [OF that] by (simp add: copied_nth vs)
  have fst_gs: "map fst ?gs = map fst gs" by (simp add: comp_def case_prod_unfold)
  have groups: "g \<noteq> [] \<and> b < t_numBuckets d \<and>
      (\<forall>a\<in>set g. n_hash (node_at ?H a) = b \<and> unat (hash1 (n_key (node_at ?H a))) mod t_numBuckets d = b)"
    if mem: "(b, g) \<in> set ?gs" for b g
  proof -
    from mem obtain g0 where g0: "(b, g0) \<in> set gs" "g = map (pos as) g0" by auto
    with ok have "g0 \<noteq> [] \<and> b < t_numBuckets d \<and>
        (\<forall>a\<in>set g0. n_hash (node_at ?h a) = b \<and> unat (hash1 (n_key (node_at ?h a))) mod t_numBuckets d = b)"
      by blast
    with g0 cellH in_gs show ?thesis by auto
  qed
  have hashes: "n_hash (node_at ?H a) < t_numBuckets d" if mem: "a \<in> set [0..<length as]" for a
  proof -
    obtain b g where bg: "(b, g) \<in> set ?gs" "a \<in> set g" using mem unfolding addrs [symmetric] in_addrs by blast
    from groups [OF bg(1)] bg(2) show ?thesis by auto
  qed
  have dup: "dictNodeDuplicate (length ?h) cp ?h (t_start d) s [] = Inr (s', ?H, if as = [] then None else Some 0)"
    using dictNodeDuplicate_run [OF seg seg_length_le [OF seg] data, of "[]"] by simp
  have dll: "dll ?H (if as = [] then None else Some 0) [0..<length as] (if as = [] then None else Some (length as - 1))"
  proof -
    have "(?ns = []) = (as = [])" "length ?ns = length as" using vs by auto
    then show ?thesis using copied_dll [of ?ns] by (simp only:)
  qed
  let ?hash = "map (\<lambda>b. map_option hd (map_of ?gs b)) [0..<t_numBuckets d]"
  have find: "find (\<lambda>a. n_hash (node_at ?H a) = b) [0..<length as] = map_option hd (map_of ?gs b)" for b
    unfolding addrs [symmetric]
    by (rule find_group) (use groups ok fst_gs in \<open>auto simp del: map_map\<close>)
  have "fill_hash (length ?H) ?H (if as = [] then None else Some 0) None (replicate (t_numBuckets d) None)
      = Inr (?hash, if as = [] then None else Some (length as - 1))"
    using dll hashes by (subst fill_hash_run [where as = "[0..<length as]"]) (auto simp: dll_def find last_upt vs)
  with dup have run: "dictDuplicate cp s d = Inr (s', \<lparr>t_heap = ?H, t_hash = ?hash, t_numBuckets = t_numBuckets d,
      t_start = (if as = [] then None else Some 0), t_end = (if as = [] then None else Some (length as - 1)),
      t_size = t_size d, d_refcount = 1\<rparr>)"
    by (simp add: dictDuplicate_def dictCreate_def Let_def vs)
  obtain d' where d': "dictDuplicate cp s d = Inr (s', d')" "t_heap d' = ?H" "t_hash d' = ?hash"
      "t_numBuckets d' = t_numBuckets d" "t_start d' = (if as = [] then None else Some 0)"
      "t_end d' = (if as = [] then None else Some (length as - 1))" "t_size d' = t_size d" "d_refcount d' = 1"
    by (rule that [OF run]) simp_all
  have keys: "map (\<lambda>a. n_key (node_at ?H a)) [0..<length as] = map (\<lambda>a. n_key (node_at ?h a)) as"
    by (rule nth_equalityI) (simp_all add: copied_nth vs)
  have rep': "table_rep hash1 d' ?gs"
    using ok dll groups fst_gs keys unfolding table_rep_def groups_ok_def d' addrs
    by (auto simp: as [symmetric] simp del: map_map set_concat)
  have "table_entries d' = zip (map fst (table_entries d)) vs"
    unfolding table_entries_rep [OF rep] table_entries_rep [OF rep'] addrs d' as [symmetric]
    by (rule nth_equalityI) (simp_all add: copied_nth vs)
  with d' rep' show ?thesis by (auto simp: table_inv_def)
qed

end
