(* ===== verification/Store_Properties.thy ===== *)
theory Store_Properties
  imports Dictionary_Copy
begin

text \<open>
  The properties of the dictionaries and maps: they refine the map of their entries, a duplicate has
  the same entries, and where the code departs from that.
\<close>

lemma dictCreate_empty [simp]:
  "0 < n \<Longrightarrow> table_inv hash1 (dictCreate n)" "0 < n \<Longrightarrow> table_map (dictCreate n) = Map.empty"
  by (rule empty_table; simp add: dictCreate_def)+

lemma mapCreate_empty [simp]:
  "0 < n \<Longrightarrow> table_inv hashf (mapCreate n h c)" "0 < n \<Longrightarrow> table_map (mapCreate n h c) = Map.empty"
  by (rule empty_table; simp add: mapCreate_def)+

text \<open>Freeing a list frees its cells and no other.\<close>

lemma free_from_seg:
  assumes "seg n_next h p as None" "length as \<le> fuel"
  shows "\<exists>h'. free_from fuel h p = Inr h' \<and> length h' = length h \<and>
    (\<forall>a < length h. h' ! a = (if a \<in> set as then None else h ! a))"
  using assms
proof (induction as arbitrary: h p fuel)
  case (Cons a as)
  then obtain f n where f: "fuel = Suc f" "length as \<le> f" and n: "p = Some a" "cell h a n" "seg n_next h (n_next n) as None"
    by (cases fuel) auto
  have a: "a \<notin> set as" using seg_distinct [OF Cons.prems(1)] by simp
  from Cons.IH [OF seg_update_other [OF a n(3)] f(2), of None] obtain h' where
    h': "free_from f (h[a := None]) (n_next n) = Inr h'" "length h' = length h"
      "\<forall>b < length h. h' ! b = (if b \<in> set as then None else h[a := None] ! b)" by auto
  moreover have "free_from fuel h p = free_from f (h[a := None]) (n_next n)"
    using n by (simp add: f free_cell_def)
  moreover have "h' ! b = (if b \<in> set (a # as) then None else h ! b)" if "b < length h" for b
    using h'(3) that n(2) by (cases "b = a") auto
  ultimately show ?case by auto
qed (cases fuel; simp)

lemma table_array_entries:
  assumes "table_inv hashf t"
  shows "table_array n_key t = Inr (map fst (table_entries t)) \<and> table_array n_data t = Inr (map snd (table_entries t)) \<and>
    t_size t = length (table_entries t) \<and> distinct (map fst (table_entries t))"
proof -
  obtain gs where rep: "table_rep hashf t gs" using assms by (auto simp: table_inv_def)
  moreover have "t_size t = length (addrs gs)" using rep by (simp add: table_rep_def)
  ultimately show ?thesis
    using table_keys_distinct [OF rep]
    by (simp only: table_array_def nodes_from_rep [OF rep] table_entries_rep [OF rep]) (simp add: comp_def)
qed

text \<open>
  C8: a dictionary that satisfies its invariant behaves as the map of its entries: a lookup gives the
  map's value and the test for existence its domain, setting a key updates the map there and keeps the invariant,
  inserting does the same when the key is new and is stopped by the assertion when it is not; the keys, the values and the size are
  those of the entries, in which no key occurs twice; and deleting it frees the nodes of its list and no other.
\<close>

theorem dictionary_is_a_map:
  assumes "table_inv hash1 d"
  shows "dictGet d k = Inr (table_map d k) \<and>
    dictExists d k = Inr (table_map d k \<noteq> None) \<and>
    (\<exists>d'. dictSet d k v = Inr d' \<and> table_inv hash1 d' \<and> table_map d' = (table_map d)(k \<mapsto> v)) \<and>
    (if table_map d k = None
     then \<exists>d'. dictInsert d k v = Inr d' \<and> table_inv hash1 d' \<and> table_map d' = (table_map d)(k \<mapsto> v)
     else dictInsert d k v = Inl AssertFail) \<and>
    dictKeys d = Inr (map fst (table_entries d)) \<and> dictValues d = Inr (map snd (table_entries d)) \<and>
    dictSize d = length (table_entries d) \<and> distinct (map fst (table_entries d)) \<and>
    table_map d = map_of (table_entries d) \<and>
    (\<exists>as h. seg n_next (t_heap d) (t_start d) as None \<and> length as = dictSize d \<and> dictDelete d = Inr h \<and>
       length h = length (t_heap d) \<and> (\<forall>a < length h. h ! a = (if a \<in> set as then None else t_heap d ! a)))"
proof -
  obtain gs where rep: "table_rep hash1 d gs" using assms by (auto simp: table_inv_def)
  then have s: "seg n_next (t_heap d) (t_start d) (addrs gs) None" "length (addrs gs) = t_size d"
    by (auto simp: table_rep_def dll_def)
  from free_from_seg [OF s(1) seg_length_le [OF s(1)]] obtain h where h: "dictDelete d = Inr h" "length h = length (t_heap d)"
      "\<forall>a < length (t_heap d). h ! a = (if a \<in> set (addrs gs) then None else t_heap d ! a)"
    unfolding dictDelete_def by blast
  have del: "\<exists>as h. seg n_next (t_heap d) (t_start d) as None \<and> length as = dictSize d \<and> dictDelete d = Inr h \<and>
       length h = length (t_heap d) \<and> (\<forall>a < length h. h ! a = (if a \<in> set as then None else t_heap d ! a))"
    by (rule exI [of _ "addrs gs"], rule exI [of _ h]) (use s h in \<open>simp only: dictSize_def h(2) simp_thms\<close>)
  have ops: "dictGet d k = Inr (table_map d k)" "dictExists d k = Inr (table_map d k \<noteq> None)"
      "\<exists>d'. dictSet d k v = Inr d' \<and> table_inv hash1 d' \<and> table_map d' = (table_map d)(k \<mapsto> v)"
      "if table_map d k = None
       then \<exists>d'. dictInsert d k v = Inr d' \<and> table_inv hash1 d' \<and> table_map d' = (table_map d)(k \<mapsto> v)
       else dictInsert d k v = Inl AssertFail"
    using dict.get_ok [OF assms, of k] dict.exists_ok [OF assms, of k] dict.set_ok [OF assms, of False k v]
      dict.insert_ok [OF assms, of k v] dict.ins_dup [OF assms, of k v]
    by (simp_all add: dictGet_def dictExists_def dictSet_def dictInsert_def)
  have arr: "dictKeys d = Inr (map fst (table_entries d))" "dictValues d = Inr (map snd (table_entries d))"
      "dictSize d = length (table_entries d)" "distinct (map fst (table_entries d))"
    using table_array_entries [OF assms] by (simp_all add: dictKeys_def dictValues_def dictSize_def)
  show ?thesis by (intro conjI ops arr del) (rule table_map_def)
qed

theorem dictionary_is_a_map_witness:
  "\<exists>d. dictSet (dictCreate 100 :: string Dictionary) ''r6'' ''a'' = Inr d \<and>
     dictGet d ''r6'' = Inr (Some ''a'') \<and> dictGet d ''r7'' = Inr None \<and> dictInsert d ''r6'' ''b'' = Inl AssertFail \<and>
     dictExists d ''r7'' = Inr False \<and> (\<exists>ks. dictKeys d = Inr ks \<and> set ks = {''r6''}) \<and> (\<exists>h. dictDelete d = Inr h)"
proof -
  obtain d :: "string Dictionary" where d: "dictSet (dictCreate 100) ''r6'' ''a'' = Inr d" "table_inv hash1 d"
      "table_map d = [''r6'' \<mapsto> ''a'']"
    using dictionary_is_a_map [of "dictCreate 100" "''r6''" "''a''"] by (simp only: dictCreate_empty) auto
  have look: "dictGet d k = Inr (table_map d k)" "dictExists d k = Inr (table_map d k \<noteq> None)"
      "table_map d k \<noteq> None \<Longrightarrow> dictInsert d k w = Inl AssertFail"
      "dictKeys d = Inr (map fst (table_entries d))" "\<exists>h. dictDelete d = Inr h" for k w
    using dictionary_is_a_map [OF d(2), of k w] by (blast, blast, presburger, blast, blast)
  have "set (map fst (table_entries d)) = dom (table_map d)"
    by (simp add: table_map_def dom_map_of_conv_image_fst)
  then have "set (map fst (table_entries d)) = {''r6''}" unfolding d(3) by simp
  with look(4) have "\<exists>ks. dictKeys d = Inr ks \<and> set ks = {''r6''}" by blast
  with look(5) d(1) show ?thesis by (intro exI [of _ d]) (simp add: look(1-3) d(3))
qed

text \<open>
  C24: duplicating a dictionary that satisfies its invariant gives a dictionary that satisfies it, has one
  reference, and has the keys of the original in the same order with the values that the copy function
  returns for the original's values, taken in list order.
\<close>

theorem dictDuplicate_copies:
  assumes "table_inv hash1 d" "copy_all dataCP s (map snd (table_entries d)) = Inr (s', vs)"
  shows "\<exists>d'. dictDuplicate dataCP s d = Inr (s', d') \<and> table_inv hash1 d' \<and> d_refcount d' = 1 \<and>
    table_entries d' = zip (map fst (table_entries d)) vs \<and> dom (table_map d') = dom (table_map d)"
proof -
  obtain d' where d': "dictDuplicate dataCP s d = Inr (s', d')" "table_inv hash1 d'" "d_refcount d' = 1"
      "table_entries d' = zip (map fst (table_entries d)) vs"
    using dictDuplicate_ok [OF assms] by blast
  moreover have "map fst (table_entries d') = map fst (table_entries d)"
    using copy_all_length [OF assms(2)] d'(4) by simp
  then have "fst ` set (table_entries d') = fst ` set (table_entries d)" by (metis set_map)
  ultimately show ?thesis by (auto simp: table_map_def dom_map_of_conv_image_fst)
qed

theorem dictDuplicate_copies_witness:
  "\<exists>d d'. dictInsert (dictCreate 1 :: string Dictionary) ''r6'' ''a'' = Inr d \<and>
     dictDuplicate (Some (\<lambda>n v. Inr (n + 1, v @ ''b''))) (0 :: nat) d = Inr (1, d') \<and>
     table_entries d' = [(''r6'', ''ab'')]"
proof -
  let ?d = "\<lparr>t_heap = [Some \<lparr>n_next = None, n_prev = None, n_data = ''a'', n_key = ''r6'', n_hash = 0\<rparr>],
      t_hash = [Some 0], t_numBuckets = 1, t_start = Some 0, t_end = Some 0, t_size = 1, d_refcount = 1\<rparr>"
  have "dictInsert (dictCreate 1 :: string Dictionary) ''r6'' ''a'' = Inr ?d"
    by (simp add: dictInsert_def dictCreate_def table_insert_def table_exists_def
      table_find_def bucket_of_def alloc_def insert_first_def)
  moreover have "table_rep hash1 ?d [(0, [0])]" by (simp add: table_rep_def dll_def groups_ok_def)
  then have "table_inv hash1 ?d" by (auto simp: table_inv_def)
  moreover have "table_entries ?d = [(''r6'', ''a'')]" by (simp add: table_entries_def)
  ultimately show ?thesis
    using dictDuplicate_copies [of ?d "Some (\<lambda>n v. Inr (n + 1, v @ ''b''))" "0 :: nat" 1 "[''ab'']"]
    by (auto simp: copy_data_def)
qed

text \<open>
  A map with \<^verbatim>\<open>int\<close> keys behaves as the map of its entries.
\<close>

theorem integer_map_is_a_map:
  assumes "table_inv intHash m" "m_hashfunc m = intHash" "m_cmpfunc m = intCmp"
  shows "mapGet m k = Inr (table_map m k) \<and>
    (\<exists>m'. mapSet m k v = Inr m' \<and> table_inv intHash m' \<and> table_map m' = (table_map m)(k \<mapsto> v)) \<and>
    (if table_map m k = None
     then \<exists>m'. mapInsert m k v = Inr m' \<and> table_inv intHash m' \<and> table_map m' = (table_map m)(k \<mapsto> v)
     else mapInsert m k v = Inl AssertFail)"
proof -
  have "map_eq m = (\<lambda>a b. intCmp a b = 0)" using assms(3) by (auto simp: map_eq_def fun_eq_iff)
  then show ?thesis
    using intmap.get_ok [OF assms(1), of k] intmap.set_ok [OF assms(1), of True k v]
      intmap.insert_ok [OF assms(1), of k v] intmap.ins_dup [OF assms(1), of k v]
    by (simp add: mapGet_def mapSet_def mapInsert_def assms(2))
qed

theorem integer_map_is_a_map_witness:
  "mapGet (integerMapCreate 100 :: (32 word, nat) Map) 5 = Inr None \<and>
   (\<exists>m. mapInsert (integerMapCreate 100 :: (32 word, nat) Map) 5 7 = Inr m \<and> table_map m = [5 \<mapsto> 7])"
proof -
  have "table_inv intHash (integerMapCreate 100 :: (32 word, nat) Map)" "table_map (integerMapCreate 100 :: (32 word, nat) Map) = Map.empty"
    by (simp_all add: integerMapCreate_def)
  moreover have "m_hashfunc (integerMapCreate 100 :: (32 word, nat) Map) = intHash"
    "m_cmpfunc (integerMapCreate 100 :: (32 word, nat) Map) = intCmp"
    by (simp_all add: integerMapCreate_def mapCreate_def)
  ultimately show ?thesis
    using integer_map_is_a_map [of "integerMapCreate 100 :: (32 word, nat) Map" 5 7] by auto
qed

lemma size_tCmp_low: "size_tCmp a b = 0 \<longleftrightarrow> (ucast a :: 32 word) = ucast b"
proof -
  have "ucast (ucast x - ucast y :: 64 word) = (x - y :: 32 word)" for x y
    by transfer (simp add: take_bit_diff)
  then show ?thesis by (simp add: size_tCmp_def Let_def)
qed

text \<open>
  A map with \<^verbatim>\<open>size_t\<close> keys compares their low 32 bits: a lookup of another key in the same bucket
  with the same low half gives the value stored under the first.
\<close>

theorem size_t_map_confuses_keys:
  assumes "0 < n" "(ucast a :: 32 word) = ucast b"
    and "unat (hash64Bit a) mod n = unat (hash64Bit b) mod n"
  shows "bindE (mapInsert (size_tMapCreate n) a v) (\<lambda>m. mapGet m b) = Inr (Some v)"
  using assms
  by (simp add: mapInsert_def mapGet_def size_tMapCreate_def mapCreate_def table_insert_def table_exists_def
      table_get_def table_find_def bucket_of_def size_tHash_def alloc_def insert_first_def map_eq_def size_tCmp_low)

text \<open>
  Removing a key from a map frees the first node of its bucket and leaves the bucket pointing at it:
  the removal succeeds, and every later lookup in that bucket uses the freed node.
\<close>

theorem mapRemove_leaves_dangling_bucket:
  assumes inv: "table_inv (m_hashfunc m) m"
    and bucket: "bucket_of (m_hashfunc m) m k = Inr b" "t_hash m ! b \<noteq> None"
    and same: "bucket_of (m_hashfunc m) m k' = Inr b"
  shows "\<exists>m'. mapRemove m k = Inr (m', True) \<and> mapGet m' k' = Inl UseAfterFree"
proof -
  obtain gs where rep: "table_rep (m_hashfunc m) m gs" using inv by (auto simp: table_inv_def)
  have b: "b < t_numBuckets m" "b < length (t_hash m)"
    using rep bucket(1) by (auto simp: table_rep_def bucket_of_def)
  obtain a xs ys where a: "t_hash m ! b = Some a" "addrs gs = xs @ a # ys"
  proof (cases rule: bucket_cases [OF rep b(1)])
    case 1
    then show ?thesis using bucket(2) by simp
  next
    case (2 pre a g post)
    then show ?thesis using that [of a "addrs pre" "g @ addrs post"] by simp
  qed
  have dll: "dll (t_heap m) (t_start m) (xs @ a # ys) (t_end m)" using rep a(2) by (simp add: table_rep_def)
  obtain n where n: "cell (t_heap m) a n" using rep_cell [OF rep, of a] a(2) by auto
  note dist = dll_distinct [OF dll] and nb = dll_neighbours [OF dll n]
  have live: "\<exists>c. cell (t_heap m) z c" if "z \<in> set (addrs gs)" for z using rep_cell [OF rep that] by blast
  let ?unlink = "\<lambda>q f h. if q = None then h else h[the q := Some (f (node_at h (the q)))]"
  let ?h1 = "?unlink (n_prev n) (\<lambda>p. p\<lparr>n_next := n_next n\<rparr>) (t_heap m)"
  let ?h2 = "?unlink (n_next n) (\<lambda>s. s\<lparr>n_prev := n_prev n\<rparr>) ?h1"
  have u1: "(if n_prev n \<noteq> None then update (t_heap m) (n_prev n) (\<lambda>p. p\<lparr>n_next := n_next n\<rparr>)
      else Inr (t_heap m)) = Inr ?h1"
    using nb(2) live [of "last xs"] a(2) by (auto simp: update_def)
  have u2: "(if n_next n \<noteq> None then update ?h1 (n_next n) (\<lambda>s. s\<lparr>n_prev := n_prev n\<rparr>) else Inr ?h1) = Inr ?h2"
  proof (cases "ys = []")
    case False
    with a(2) have "\<exists>c. cell (t_heap m) (hd ys) c" by (intro live) simp
    then have "\<exists>c. cell ?h1 (hd ys) c" by (cases "n_prev n"; cases "n_prev n = Some (hd ys)") auto
    then obtain c where "cell ?h1 (hd ys) c" by blast
    with False nb(1) show ?thesis by (simp add: update_def)
  qed (simp add: nb(1))
  have "xs \<noteq> [] \<Longrightarrow> last xs \<noteq> a" "ys \<noteq> [] \<Longrightarrow> hd ys \<noteq> a" using dist by auto
  then have c: "cell ?h2 a n" using n nb by (cases "xs = []"; cases "ys = []") auto
  have e: "elem_at (t_hash m) b = Inr (Some a)" using b a by simp
  have f: "free_cell ?h2 (Some a) = Inr (?h2[a := None])"
    unfolding free_cell_def option.case load_cell [OF c] bindE_simps ..
  obtain h where h: "length h = length (t_heap m)" "h ! a = None"
      "mapRemove m k = Inr (m\<lparr>t_heap := h,
                  t_start := (if Some a = t_start m then n_next n else t_start m),
                  t_end := (if Some a = t_end m then n_prev n else t_end m),
                  t_size := t_size m - 1\<rparr>, True)"
  proof (rule that)
    show "length (?h2[a := None]) = length (t_heap m)" "?h2[a := None] ! a = None" using n by simp_all
  qed (simp only: mapRemove_def bucket(1) e bindE_simps option.distinct if_False load_cell [OF n] u1 u2 f)
  have gone: "mapGet m' k' = Inl UseAfterFree"
    if m': "t_heap m' = h" "t_hash m' = t_hash m" "t_numBuckets m' = t_numBuckets m" "m_hashfunc m' = m_hashfunc m" for m'
  proof -
    have "bucket_of (m_hashfunc m') m' k' = Inr b" using same m' by (auto simp: bucket_of_def split: if_splits)
    moreover have "load h (Some a) = Inl UseAfterFree" using h n by (simp add: load_def)
    ultimately show ?thesis using b(2) a(1) m' by (simp add: mapGet_def table_get_def table_find_def)
  qed
  show ?thesis by (intro exI conjI, rule h(3), rule gone) simp_all
qed

theorem size_t_map_confuses_keys_witness:
  "bindE (mapInsert (size_tMapCreate 100) 5 ''five'') (\<lambda>m. mapGet m 0xde00000005) = Inr (Some ''five'')"
proof (rule size_t_map_confuses_keys)
  have "hash64Bit 5 = 0xcaf5148d95ea2900" "hash64Bit 0xde00000005 = 0x2bd12e3bde7d8aa0" by (simp_all add: hash64Bit_def Let_def)
  then show "unat (hash64Bit 5) mod 100 = unat (hash64Bit 0xde00000005) mod 100" by simp
qed simp_all

theorem mapRemove_leaves_dangling_bucket_witness:
  "\<exists>m m'. mapInsert (integerMapCreate 1) 5 ''five'' = Inr m \<and> mapRemove m 5 = Inr (m', True) \<and>
     mapGet m' 6 = Inl UseAfterFree"
proof (intro exI conjI)
  let ?m = "\<lparr>t_heap = [Some \<lparr>n_next = None, n_prev = None, n_data = ''five'', n_key = 5 :: 32 word, n_hash = 0\<rparr>],
      t_hash = [Some 0], t_numBuckets = 1, t_start = Some 0, t_end = Some 0, t_size = 1,
      m_hashfunc = intHash, m_cmpfunc = intCmp\<rparr>"
  show "mapInsert (integerMapCreate 1) 5 ''five'' = Inr ?m"
    by (simp add: mapInsert_def integerMapCreate_def mapCreate_def table_insert_def table_exists_def
      table_find_def bucket_of_def alloc_def insert_first_def)
  have "table_rep intHash ?m [(0, [0])]" by (simp add: table_rep_def dll_def groups_ok_def)
  then have "\<exists>m'. mapRemove ?m 5 = Inr (m', True) \<and> mapGet m' 6 = Inl UseAfterFree"
    by (intro mapRemove_leaves_dangling_bucket [where b = 0]) (auto simp: table_inv_def bucket_of_def)
  then show "mapRemove ?m 5 = Inr (fst (projr (mapRemove ?m 5)), True)"
    "mapGet (fst (projr (mapRemove ?m 5))) 6 = Inl UseAfterFree" by auto
qed

end
