(* ===== verification/Dwarf_VM.thy ===== *)
theory Dwarf_VM
  imports Dictionary_Copy Call_Frame
begin

text \<open>
  The interpreter of call frame instructions of \<^verbatim>\<open>src/src/dwarfvm.c\<close>.  A dictionary of rules holds
  pointers to the rules; the rules are the cells of a store, so that what \<^verbatim>\<open>dictDuplicate\<close> without a
  copy function shares is shared here too.
\<close>

section \<open>State\<close>

text \<open>
  \<open>vm_states\<close> is the static \<^verbatim>\<open>stateStack\<close>: \<open>None\<close> until the first \<^verbatim>\<open>DW_CFA_remember_state\<close>, and kept
  from one evaluation to the next.
\<close>

type_synonym Rules = "nat Dictionary"

record VMState =
  vm_store :: "PoRegRule heap"
  vm_rules :: Rules
  vm_states :: "Rules Stack option"

definition zero_rule :: PoRegRule where
  "zero_rule = \<lparr>regLH = zero_reg, rule_type = ERRT_UNDEF, regRH = zero_reg, rule_offset = 0, rule_index = 0\<rparr>"

section \<open>Remembering and restoring\<close>

definition duplicatePoRegRule :: "PoRegRule heap \<Rightarrow> nat \<Rightarrow> (PoRegRule heap \<times> nat) result" where
  "duplicatePoRegRule st p = bindE (load st (Some p)) (\<lambda>r. Inr (alloc st r))"

definition remember_state :: "VMState \<Rightarrow> VMState result" where
  "remember_state s =
     bindE (dictDuplicate (Some duplicatePoRegRule) (vm_store s) (vm_rules s)) (\<lambda>(st, rulesCopy).
     let stack = (case vm_states s of None \<Rightarrow> stackCreate | Some stack \<Rightarrow> stack) in
       Inr (s\<lparr>vm_store := st, vm_states := Some (stackPush stack rulesCopy)\<rparr>))"

fun restore_keys :: "string list \<Rightarrow> Rules \<Rightarrow> VMState \<Rightarrow> VMState result" where
  "restore_keys [] savedRules s = Inr s"
| "restore_keys (key # keys) savedRules s =
     bindE (dictGet (vm_rules s) key) (\<lambda>currentRule.
     bindE (dictGet savedRules key) (\<lambda>savedRule.
     bindE (guardE (savedRule \<noteq> None) AssertFail) (\<lambda>_.
     bindE (case currentRule of
              Some c \<Rightarrow>
                bindE (load (vm_store s) savedRule) (\<lambda>r.
                bindE (update (vm_store s) (Some c) (\<lambda>_. r)) (\<lambda>st. Inr (s\<lparr>vm_store := st\<rparr>)))
            | None \<Rightarrow>
                bindE (duplicatePoRegRule (vm_store s) (the savedRule)) (\<lambda>(st, c).
                bindE (dictInsert (vm_rules s) key c) (\<lambda>d. Inr (s\<lparr>vm_store := st, vm_rules := d\<rparr>)))) (\<lambda>s.
       restore_keys keys savedRules s))))"

text \<open>\<^verbatim>\<open>dictDelete(savedRules,free)\<close>: the effect on the rules.\<close>

fun free_all :: "PoRegRule heap \<Rightarrow> nat list \<Rightarrow> PoRegRule heap result" where
  "free_all st [] = Inr st"
| "free_all st (p # ps) = bindE (free_cell st (Some p)) (\<lambda>st. free_all st ps)"

definition delete_rules :: "PoRegRule heap \<Rightarrow> Rules \<Rightarrow> PoRegRule heap result" where
  "delete_rules st d =
     bindE (nodes_from (length (t_heap d)) (t_heap d) (t_start d)) (\<lambda>ns. free_all st (map n_data ns))"

definition restore_state :: "VMState \<Rightarrow> VMState result" where
  "restore_state s =
     (case vm_states s of
        None \<Rightarrow> Inl Death
      | Some stack \<Rightarrow>
          (case stackPop stack of
             (None, _) \<Rightarrow> Inl Death
           | (Some savedRules, stack) \<Rightarrow>
               bindE (dictKeys savedRules) (\<lambda>keys.
               bindE (restore_keys keys savedRules (s\<lparr>vm_states := Some stack\<rparr>)) (\<lambda>s.
               bindE (delete_rules (vm_store s) savedRules) (\<lambda>st. Inr (s\<lparr>vm_store := st\<rparr>))))))"

section \<open>Register instructions\<close>

definition rule_reg :: "RegInstruction \<Rightarrow> PoReg" where
  "rule_reg inst =
     (if ri_type inst \<in> set [DW_CFA_def_cfa, DW_CFA_def_cfa_register, DW_CFA_def_cfa_offset]
      then zero_reg\<lparr>reg_type := ERT_CFA\<rparr> else ri_arg1Reg inst)"

definition find_rule :: "PoReg \<Rightarrow> VMState \<Rightarrow> (VMState \<times> nat) result" where
  "find_rule reg s =
     bindE (strForReg reg 0) (\<lambda>str.
     bindE (dictGet (vm_rules s) str) (\<lambda>rule.
       case rule of
         Some p \<Rightarrow> Inr (s, p)
       | None \<Rightarrow>
           (case alloc (vm_store s) (zero_rule\<lparr>regLH := reg\<rparr>) of (st, p) \<Rightarrow>
            bindE (dictInsert (vm_rules s) str p) (\<lambda>d.
              Inr (s\<lparr>vm_store := st, vm_rules := d\<rparr>, p)))))"

text \<open>
  The second switch.  \<^verbatim>\<open>DW_CFA_restore\<close> looks up a string that has been freed.  The cases of the
  instructions that the first switch has dealt with are unreachable.
\<close>

definition rule_effect :: "CIE \<Rightarrow> RegInstruction \<Rightarrow> PoRegRule \<Rightarrow> PoRegRule result" where
  "rule_effect cie inst rule =
     (let t = ri_type inst in
      if t = DW_CFA_undefined then Inr (rule\<lparr>rule_type := ERRT_UNDEF\<rparr>)
      else if t = DW_CFA_offset then
        Inr (rule\<lparr>rule_type := ERRT_OFFSET, rule_offset := ucast (ri_arg2 inst * cie_dataAlign cie)\<rparr>)
      else if t = DW_CFA_register then
        Inr (rule\<lparr>rule_type := ERRT_REGISTER, regRH := ri_arg2Reg inst\<rparr>)
      else if t = DW_CFA_def_cfa then
        Inr (rule\<lparr>rule_type := ERRT_CFA, regRH := ri_arg1Reg inst, rule_offset := ucast (ri_arg2 inst)\<rparr>)
      else if t = DW_CFA_def_cfa_register then
        Inr (rule\<lparr>rule_type := ERRT_CFA, regRH := ri_arg1Reg inst\<rparr>)
      else if t = DW_CFA_def_cfa_offset then
        Inr (rule\<lparr>rule_type := ERRT_CFA, rule_offset := ucast (ri_arg1 inst)\<rparr>)
      else if t = DW_CFA_restore then Inl UseAfterFree
      else if t = DW_CFA_KATANA_fixups then
        Inr (rule\<lparr>rule_type := ERRT_RECURSE_FIXUP, regRH := ri_arg2Reg inst, rule_index := ri_arg3 inst\<rparr>)
      else if t = DW_CFA_KATANA_fixups_pointer then
        Inr (rule\<lparr>rule_type := ERRT_RECURSE_FIXUP_POINTER, regRH := ri_arg2Reg inst,
                  rule_index := ri_arg3 inst\<rparr>)
      else if t \<in> set [DW_CFA_expression, DW_CFA_val_expression, DW_CFA_nop] then Inr rule
      else Inl Death)"

definition eval_rule :: "CIE \<Rightarrow> RegInstruction \<Rightarrow> VMState \<Rightarrow> VMState result" where
  "eval_rule cie inst s =
     bindE (find_rule (rule_reg inst) s) (\<lambda>(s, p).
     bindE (load (vm_store s) (Some p)) (\<lambda>rule.
     bindE (rule_effect cie inst rule) (\<lambda>rule.
     bindE (update (vm_store s) (Some p) (\<lambda>_. rule)) (\<lambda>st. Inr (s\<lparr>vm_store := st\<rparr>)))))"

section \<open>Evaluation\<close>

text \<open>The comparisons with \<^verbatim>\<open>stopLocation\<close> are made in the unsigned 64-bit type of the operand.\<close>

definition past_stop :: "32 word \<Rightarrow> 64 word \<Rightarrow> bool" where
  "past_stop stopLocation w \<longleftrightarrow> 0 \<le> sint stopLocation \<and> (scast stopLocation :: 64 word) < w"

abbreviation advances :: "nat \<Rightarrow> bool" where
  "advances t \<equiv> t \<in> set [DW_CFA_advance_loc, DW_CFA_advance_loc1, DW_CFA_advance_loc2]"

fun evaluateInstructionsToRules ::
  "CIE \<Rightarrow> RegInstruction list \<Rightarrow> 32 word \<Rightarrow> 32 word \<Rightarrow> VMState \<Rightarrow> (VMState \<times> 32 word) result" where
  "evaluateInstructionsToRules cie [] loc stopLocation s = Inr (s, loc)"
| "evaluateInstructionsToRules cie (inst # instrs) loc stopLocation s =
     (if ri_type inst = DW_CFA_set_loc then
        if past_stop stopLocation (ri_arg1 inst) then Inr (s, loc)
        else evaluateInstructionsToRules cie instrs (ucast (ri_arg1 inst)) stopLocation s
      else if advances (ri_type inst) then
        if past_stop stopLocation (scast loc + ri_arg1 inst) then Inr (s, loc)
        else evaluateInstructionsToRules cie instrs
               (ucast (scast loc + ri_arg1 inst * cie_codeAlign cie :: 64 word)) stopLocation s
      else if ri_type inst = DW_CFA_remember_state then
        bindE (remember_state s) (evaluateInstructionsToRules cie instrs loc stopLocation)
      else if ri_type inst = DW_CFA_restore_state then
        bindE (restore_state s) (evaluateInstructionsToRules cie instrs loc stopLocation)
      else
        bindE (eval_rule cie inst s) (evaluateInstructionsToRules cie instrs loc stopLocation))"

end
