(* ===== verification/Dwarf_VM_Refine.thy ===== *)
theory Dwarf_VM_Refine
  imports Dwarf_VM
begin

text \<open>
  What the interpreter computes, over maps from register names to rules and a list of remembered maps,
  and the proof that the pointer version implements it.
\<close>

section \<open>Specification\<close>

type_synonym rule_map = "string \<Rightarrow> PoRegRule option"

definition spec_rule :: "CIE \<Rightarrow> RegInstruction \<Rightarrow> rule_map \<Rightarrow> rule_map result" where
  "spec_rule cie inst m =
     bindE (strForReg (rule_reg inst) 0) (\<lambda>str.
     bindE (rule_effect cie inst (case m str of None \<Rightarrow> zero_rule\<lparr>regLH := rule_reg inst\<rparr> | Some r \<Rightarrow> r))
       (\<lambda>r. Inr (m(str \<mapsto> r))))"

fun spec_eval :: "CIE \<Rightarrow> RegInstruction list \<Rightarrow> 32 word \<Rightarrow> 32 word \<Rightarrow> rule_map \<Rightarrow> rule_map list \<Rightarrow>
  ((rule_map \<times> rule_map list) \<times> 32 word) result" where
  "spec_eval cie [] loc stopLocation m ms = Inr ((m, ms), loc)"
| "spec_eval cie (inst # instrs) loc stopLocation m ms =
     (if ri_type inst = DW_CFA_set_loc then
        if past_stop stopLocation (ri_arg1 inst) then Inr ((m, ms), loc)
        else spec_eval cie instrs (ucast (ri_arg1 inst)) stopLocation m ms
      else if advances (ri_type inst) then
        if past_stop stopLocation (scast loc + ri_arg1 inst) then Inr ((m, ms), loc)
        else spec_eval cie instrs (ucast (scast loc + ri_arg1 inst * cie_codeAlign cie :: 64 word)) stopLocation m ms
      else if ri_type inst = DW_CFA_remember_state then spec_eval cie instrs loc stopLocation m (m # ms)
      else if ri_type inst = DW_CFA_restore_state then
        (case ms of [] \<Rightarrow> Inl Death | m' # ms \<Rightarrow> spec_eval cie instrs loc stopLocation (m ++ m') ms)
      else bindE (spec_rule cie inst m) (\<lambda>m. spec_eval cie instrs loc stopLocation m ms))"

section \<open>Abstraction\<close>

definition live :: "'n heap \<Rightarrow> nat \<Rightarrow> bool" where
  "live h p \<longleftrightarrow> p < length h \<and> h ! p \<noteq> None"

definition rule_at :: "PoRegRule heap \<Rightarrow> nat \<Rightarrow> PoRegRule option" where
  "rule_at st p = (if live st p then st ! p else None)"

definition rules_of :: "PoRegRule heap \<Rightarrow> Rules \<Rightarrow> rule_map" where
  "rules_of st d k = Option.bind (table_map d k) (rule_at st)"

text \<open>A dictionary owns the rules it points to.\<close>

definition owns :: "PoRegRule heap \<Rightarrow> Rules \<Rightarrow> bool" where
  "owns st d \<longleftrightarrow> table_inv hash1 d \<and> inj_on (table_map d) (dom (table_map d)) \<and>
     (\<forall>p\<in>ran (table_map d). live st p)"

definition apart :: "Rules \<Rightarrow> Rules \<Rightarrow> bool" where
  "apart d d' \<longleftrightarrow> ran (table_map d) \<inter> ran (table_map d') = {}"

definition saved :: "VMState \<Rightarrow> Rules list" where
  "saved s = (case vm_states s of None \<Rightarrow> [] | Some stack \<Rightarrow> st_top stack)"

definition vm_inv :: "VMState \<Rightarrow> bool" where
  "vm_inv s \<longleftrightarrow> (\<forall>d\<in>set (vm_rules s # saved s). owns (vm_store s) d) \<and> sorted_wrt apart (vm_rules s # saved s)"

definition vm_abs :: "VMState \<Rightarrow> rule_map \<times> rule_map list" where
  "vm_abs s = (rules_of (vm_store s) (vm_rules s), map (rules_of (vm_store s)) (saved s))"

lemma live_load: "live st p \<Longrightarrow> load st (Some p) = Inr (the (st ! p))"
  by (auto simp: live_def load_def)

lemma rule_at_live: "live st p \<Longrightarrow> rule_at st p = Some (the (st ! p))"
  by (auto simp: rule_at_def live_def)

lemma live_append [simp]: "live st p \<Longrightarrow> live (st @ xs) p"
  by (auto simp: live_def nth_append)

lemma live_update [simp]: "live st p \<Longrightarrow> live (st[q := Some r]) p"
  by (cases "p = q") (auto simp: live_def)

lemma rule_at_append [simp]: "live st p \<Longrightarrow> rule_at (st @ xs) p = rule_at st p"
  by (auto simp: rule_at_def live_def nth_append)

lemma rule_at_update: "live st q \<Longrightarrow> rule_at (st[q := Some r]) p = (if p = q then Some r else rule_at st p)"
  by (auto simp: rule_at_def live_def nth_list_update)

lemma owns_live: "owns st d \<Longrightarrow> table_map d k = Some p \<Longrightarrow> live st p"
  by (auto simp: owns_def ran_def)

lemma owns_get: "owns st d \<Longrightarrow> dictGet d k = Inr (table_map d k)"
  by (simp add: owns_def dictGet_def dict.get_ok)

lemma rules_of_None: "owns st d \<Longrightarrow> rules_of st d k = None \<longleftrightarrow> table_map d k = None"
  by (cases "table_map d k") (auto simp: rules_of_def rule_at_live owns_live)

lemma rules_of_Some: "owns st d \<Longrightarrow> table_map d k = Some p \<Longrightarrow> rules_of st d k = Some (the (st ! p))"
  by (auto simp: rules_of_def rule_at_live owns_live)

text \<open>Growing the store, and writing to a rule of one dictionary.\<close>

lemma owns_append: "owns st d \<Longrightarrow> owns (st @ xs) d"
  by (auto simp: owns_def)

lemma owns_update: "owns st d \<Longrightarrow> owns (st[p := Some r]) d"
  by (auto simp: owns_def)

lemma rules_of_append: "owns st d \<Longrightarrow> rules_of (st @ xs) d = rules_of st d"
  by (rule ext) (auto simp: rules_of_def owns_live split: Option.bind_split)

lemma rules_of_update_own:
  assumes "owns st d" "table_map d k = Some p"
  shows "rules_of (st[p := Some r]) d = (rules_of st d)(k \<mapsto> r)"
proof (rule ext)
  fix k'
  have "table_map d k' = Some p \<Longrightarrow> k' = k"
    using assms by (auto simp: owns_def inj_on_def dom_def)
  then show "rules_of (st[p := Some r]) d k' = ((rules_of st d)(k \<mapsto> r)) k'"
    using assms(2) owns_live [OF assms] by (cases "table_map d k'") (auto simp: rules_of_def rule_at_update)
qed

lemma rules_of_update_other:
  assumes "owns st d" "live st p" "p \<notin> ran (table_map d)"
  shows "rules_of (st[p := Some r]) d = rules_of st d"
  using assms by (auto simp: rules_of_def rule_at_update fun_eq_iff ran_def split: Option.bind_split)

text \<open>A new key that points to a new rule.\<close>

lemma insert_owned:
  assumes own: "owns st d" and new: "table_map d k = None"
  shows "\<exists>d'. dictInsert d k (length st) = Inr d' \<and> owns (st @ [Some r]) d' \<and>
    rules_of (st @ [Some r]) d' = (rules_of st d)(k \<mapsto> r) \<and> table_map d' = (table_map d)(k \<mapsto> length st)"
proof -
  obtain d' where d': "dictInsert d k (length st) = Inr d'" "table_inv hash1 d'" "table_map d' = (table_map d)(k \<mapsto> length st)"
    using dict.insert_ok [of d k "length st"] own new by (auto simp: dictInsert_def owns_def)
  have fresh: "length st \<notin> ran (table_map d)" using own by (auto simp: owns_def live_def)
  have "owns (st @ [Some r]) d'"
    using own d' fresh new unfolding owns_def
    by (auto simp: inj_on_def dom_def ran_def live_def nth_append)
  moreover have "rules_of (st @ [Some r]) d' = (rules_of st d)(k \<mapsto> r)"
    using rules_of_append [OF own, of "[Some r]"] d'(3)
    by (auto simp: rules_of_def fun_eq_iff rule_at_def live_def)
  ultimately show ?thesis using d' by blast
qed

section \<open>Steps\<close>

lemma write_rule_ok:
  assumes inv: "vm_inv s" and k: "table_map (vm_rules s) k = Some p"
  shows "vm_inv (s\<lparr>vm_store := (vm_store s)[p := Some r]\<rparr>)"
    "vm_abs (s\<lparr>vm_store := (vm_store s)[p := Some r]\<rparr>) = ((fst (vm_abs s))(k \<mapsto> r), snd (vm_abs s))"
    "live (vm_store s) p"
proof -
  have own: "owns (vm_store s) (vm_rules s)" and others: "\<And>d. d \<in> set (saved s) \<Longrightarrow> owns (vm_store s) d"
    and ap: "\<And>d. d \<in> set (saved s) \<Longrightarrow> apart (vm_rules s) d" using inv by (auto simp: vm_inv_def)
  show live: "live (vm_store s) p" using own k by (rule owns_live)
  have "p \<in> ran (table_map (vm_rules s))" using k by (rule ranI)
  then have "rules_of ((vm_store s)[p := Some r]) d = rules_of (vm_store s) d" if "d \<in> set (saved s)" for d
    using rules_of_update_other [OF others [OF that] live] ap [OF that] by (auto simp: apart_def)
  then show "vm_abs (s\<lparr>vm_store := (vm_store s)[p := Some r]\<rparr>) = ((fst (vm_abs s))(k \<mapsto> r), snd (vm_abs s))"
    using rules_of_update_own [OF own k] by (simp add: vm_abs_def saved_def)
  show "vm_inv (s\<lparr>vm_store := (vm_store s)[p := Some r]\<rparr>)"
    using inv by (auto simp: vm_inv_def saved_def owns_update)
qed

lemma insert_rule_ok:
  assumes inv: "vm_inv s" and k: "table_map (vm_rules s) k = None"
  shows "\<exists>d. dictInsert (vm_rules s) k (length (vm_store s)) = Inr d \<and>
    table_map d k = Some (length (vm_store s)) \<and>
    vm_inv (s\<lparr>vm_store := vm_store s @ [Some r], vm_rules := d\<rparr>) \<and>
    vm_abs (s\<lparr>vm_store := vm_store s @ [Some r], vm_rules := d\<rparr>) = ((fst (vm_abs s))(k \<mapsto> r), snd (vm_abs s))"
proof -
  have own: "owns (vm_store s) (vm_rules s)" and others: "\<And>d. d \<in> set (saved s) \<Longrightarrow> owns (vm_store s) d"
    and ap: "\<And>d. d \<in> set (saved s) \<Longrightarrow> apart (vm_rules s) d" and sw: "sorted_wrt apart (saved s)"
    using inv by (auto simp: vm_inv_def)
  obtain d where d: "dictInsert (vm_rules s) k (length (vm_store s)) = Inr d" "owns (vm_store s @ [Some r]) d"
      "rules_of (vm_store s @ [Some r]) d = (rules_of (vm_store s) (vm_rules s))(k \<mapsto> r)"
      "table_map d = (table_map (vm_rules s))(k \<mapsto> length (vm_store s))"
    using insert_owned [OF own k] by blast
  have "ran (table_map d) = insert (length (vm_store s)) (ran (table_map (vm_rules s)))"
    using k unfolding d(4) by simp
  moreover have "length (vm_store s) \<notin> ran (table_map d')" if "d' \<in> set (saved s)" for d'
    using others [OF that] by (auto simp: owns_def live_def)
  ultimately have "apart d d'" if "d' \<in> set (saved s)" for d'
    using ap [OF that] that by (auto simp: apart_def)
  with d sw others have "vm_inv (s\<lparr>vm_store := vm_store s @ [Some r], vm_rules := d\<rparr>)"
    by (auto simp: vm_inv_def saved_def owns_append)
  moreover have "vm_abs (s\<lparr>vm_store := vm_store s @ [Some r], vm_rules := d\<rparr>) = ((fst (vm_abs s))(k \<mapsto> r), snd (vm_abs s))"
    using d(3) others by (simp add: vm_abs_def saved_def rules_of_append)
  ultimately show ?thesis using d by auto
qed

lemma vm_abs_rules [simp]: "fst (vm_abs s) = rules_of (vm_store s) (vm_rules s)"
  by (simp add: vm_abs_def)

lemma eval_rule_ok:
  assumes inv: "vm_inv s"
  shows "case spec_rule cie inst (fst (vm_abs s)) of
      Inl e \<Rightarrow> eval_rule cie inst s = Inl e
    | Inr m \<Rightarrow> \<exists>s'. eval_rule cie inst s = Inr s' \<and> vm_inv s' \<and> vm_abs s' = (m, snd (vm_abs s))"
proof (cases "strForReg (rule_reg inst) 0")
  case (Inl e)
  then show ?thesis by (simp add: spec_rule_def eval_rule_def find_rule_def)
next
  case (Inr str)
  let ?reg = "rule_reg inst"
  have own: "owns (vm_store s) (vm_rules s)" using inv by (auto simp: vm_inv_def)
  show ?thesis
  proof (cases "table_map (vm_rules s) str")
    case None
    let ?z = "zero_rule\<lparr>regLH := ?reg\<rparr>"
    let ?s2 = "\<lambda>d. s\<lparr>vm_store := vm_store s @ [Some ?z], vm_rules := d\<rparr>"
    from insert_rule_ok [OF inv None, of ?z] obtain d where
      d: "dictInsert (vm_rules s) str (length (vm_store s)) = Inr d" "table_map d str = Some (length (vm_store s))"
        "vm_inv (?s2 d)" "vm_abs (?s2 d) = ((fst (vm_abs s))(str \<mapsto> ?z), snd (vm_abs s))" by blast
    have find: "find_rule ?reg s = Inr ((?s2 d), length (vm_store s))"
      using Inr None d(1) owns_get [OF own, of str] by (simp add: find_rule_def alloc_def)
    have none: "rules_of (vm_store s) (vm_rules s) str = None" using None rules_of_None [OF own] by simp
    have ld: "load (vm_store (?s2 d)) (Some (length (vm_store s))) = Inr ?z"
      by (simp add: load_def)
    show ?thesis
    proof (cases "rule_effect cie inst ?z")
      case (Inl e)
      then show ?thesis using find ld none Inr by (simp add: spec_rule_def eval_rule_def)
    next
      case (Inr r)
      note w = write_rule_ok(1,2) [OF d(3), where k = str and p = "length (vm_store s)" and r = r]
      have run: "eval_rule cie inst s = Inr ((?s2 d)\<lparr>vm_store := (vm_store (?s2 d))[length (vm_store s) := Some r]\<rparr>)"
        using find ld Inr by (simp add: eval_rule_def update_def load_def)
      have spec: "spec_rule cie inst (fst (vm_abs s)) = Inr ((fst (vm_abs s))(str \<mapsto> r))"
        using none Inr \<open>strForReg ?reg 0 = Inr str\<close> by (simp add: spec_rule_def)
      have "vm_inv (?s2 d\<lparr>vm_store := (vm_store (?s2 d))[length (vm_store s) := Some r]\<rparr>)" by (rule w) (simp add: d(2))
      moreover have "vm_abs (?s2 d\<lparr>vm_store := (vm_store (?s2 d))[length (vm_store s) := Some r]\<rparr>)
          = ((fst (vm_abs s))(str \<mapsto> r), snd (vm_abs s))"
        using w(2) d(2) unfolding d(4) by simp
      ultimately show ?thesis unfolding run spec sum.case by blast
    qed
  next
    case (Some p)
    let ?r = "the (vm_store s ! p)"
    have find: "find_rule ?reg s = Inr (s, p)"
      using Inr Some owns_get [OF own, of str] by (simp add: find_rule_def)
    have some: "rules_of (vm_store s) (vm_rules s) str = Some ?r" using rules_of_Some [OF own Some] .
    note w = write_rule_ok [OF inv Some]
    show ?thesis
    proof (cases "rule_effect cie inst ?r")
      case (Inl e)
      then show ?thesis using find live_load [OF w(3)] some Inr by (simp add: spec_rule_def eval_rule_def)
    next
      case (Inr r)
      have run: "eval_rule cie inst s = Inr (s\<lparr>vm_store := (vm_store s)[p := Some r]\<rparr>)"
        using find live_load [OF w(3)] Inr by (simp add: eval_rule_def update_def)
      show ?thesis
        using w(1,2) some Inr \<open>strForReg ?reg 0 = Inr str\<close> unfolding run by (simp add: spec_rule_def)
    qed
  qed
qed

section \<open>Remembering\<close>

lemma copy_rules:
  "(\<And>p. p \<in> set ps \<Longrightarrow> live st p) \<Longrightarrow>
   copy_all (Some duplicatePoRegRule) st ps =
     Inr (st @ map (\<lambda>p. st ! p) ps, [length st..<length st + length ps])"
proof (induction ps arbitrary: st)
  case (Cons p ps)
  then have p: "live st p" and st: "Some (the (st ! p)) = st ! p" by (auto simp: live_def)
  have "map (\<lambda>q. (st @ [st ! p]) ! q) ps = map (\<lambda>q. st ! q) ps"
    using Cons.prems by (auto simp: live_def nth_append)
  with Cons.IH [of "st @ [st ! p]"] Cons.prems st p show ?case
    by (simp add: copy_data_def duplicatePoRegRule_def live_load alloc_def upt_conv_Cons del: upt_Suc)
qed simp

lemma map_of_zip_map_option: "map_of (zip ks (map f ps)) k = map_option f (map_of (zip ks ps) k)"
  by (simp add: zip_map2 case_prod_unfold map_of_map [unfolded case_prod_unfold])

lemma entries_zip: "table_entries d = zip (map fst (table_entries d)) (map snd (table_entries d))"
  by (simp add: zip_map_fst_snd)

lemma table_map_zip: "table_map d = map_of (zip (map fst (table_entries d)) (map snd (table_entries d)))"
  by (simp add: table_map_def zip_map_fst_snd)

lemma owns_entries:
  assumes "owns st d"
  shows "distinct (map fst (table_entries d))" "p \<in> set (map snd (table_entries d)) \<longleftrightarrow> p \<in> ran (table_map d)"
    "distinct (map snd (table_entries d))" "dictKeys d = Inr (map fst (table_entries d))"
proof -
  obtain gs where rep: "table_rep hash1 d gs" using assms by (auto simp: owns_def table_inv_def)
  show dist: "distinct (map fst (table_entries d))" by (rule table_keys_distinct [OF rep])
  show "p \<in> set (map snd (table_entries d)) \<longleftrightarrow> p \<in> ran (table_map d)"
    using ran_distinct [OF dist] by (auto simp: table_map_def)
  have "inj_on snd (set (table_entries d))"
  proof (rule inj_onI)
    fix x y assume xy: "x \<in> set (table_entries d)" "y \<in> set (table_entries d)" "snd x = snd y"
    have "table_map d (fst x) = Some (snd x)" "table_map d (fst y) = Some (snd y)"
      using xy(1,2) map_of_is_SomeI [OF dist] unfolding table_map_def by simp_all
    with xy(3) have "table_map d (fst x) = Some (snd x)" "table_map d (fst y) = Some (snd x)" by simp_all
    then have "fst x = fst y" using assms by (auto simp: owns_def inj_on_def dom_def)
    with xy(3) show "x = y" by (simp add: prod_eq_iff)
  qed
  then show "distinct (map snd (table_entries d))" using dist by (simp add: distinct_map)
  have "t_size d = length (addrs gs)" using rep by (simp add: table_rep_def)
  then show "dictKeys d = Inr (map fst (table_entries d))"
    unfolding dictKeys_def table_array_def nodes_from_rep [OF rep] table_entries_rep [OF rep]
    by (simp add: comp_def guardE_def del: length_concat)
qed

lemma inj_map_of_zip:
  assumes "distinct qs"
  shows "inj_on (map_of (zip ks qs)) (dom (map_of (zip ks qs)))"
proof (rule inj_onI)
  fix k k' assume "k \<in> dom (map_of (zip ks qs))" "map_of (zip ks qs) k = map_of (zip ks qs) k'"
  then obtain q where "(k, q) \<in> set (zip ks qs)" "(k', q) \<in> set (zip ks qs)"
    by (auto dest: map_of_SomeD) (metis map_of_SomeD)
  then show "k = k'" using assms by (auto simp: set_zip nth_eq_iff_index_eq)
qed

lemma copy_owned:
  assumes own: "owns st d"
  shows "\<exists>st' d'. dictDuplicate (Some duplicatePoRegRule) st d = Inr (st @ st', d') \<and> owns (st @ st') d' \<and>
    rules_of (st @ st') d' = rules_of st d \<and> (\<forall>p\<in>ran (table_map d'). length st \<le> p)"
proof -
  let ?ks = "map fst (table_entries d)" and ?ps = "map snd (table_entries d)"
  let ?st = "map (\<lambda>p. st ! p) ?ps" and ?qs = "[length st..<length st + length ?ps]"
  have live: "live st p" if "p \<in> set ?ps" for p
    using that own unfolding owns_entries(2) [OF own] by (auto simp: owns_def)
  obtain d' where d': "dictDuplicate (Some duplicatePoRegRule) st d = Inr (st @ ?st, d')" "table_inv hash1 d'"
      "table_entries d' = zip ?ks ?qs"
    using dictDuplicate_ok [OF _ copy_rules [OF live]] own by (auto simp: owns_def)
  have map: "table_map d' = map_of (zip ?ks ?qs)" unfolding table_map_def d'(3) ..
  have ran: "ran (table_map d') \<subseteq> set ?qs"
    unfolding map by (auto simp: ran_def dest!: map_of_SomeD set_zip_rightD)
  have at: "map (rule_at (st @ ?st)) ?qs = map (rule_at st) ?ps"
    by (rule nth_equalityI) (use live in \<open>auto simp: rule_at_def live_def nth_append\<close>)
  have livest: "live (st @ ?st) q" if "q \<in> set ?qs" for q
  proof -
    from that obtain i where i: "i < length ?ps" "q = length st + i" by (auto simp: less_iff_Suc_add dest!: le_Suc_ex)
    then have "live st (?ps ! i)" by (intro live nth_mem)
    with i show ?thesis by (auto simp: live_def nth_append)
  qed
  have "owns (st @ ?st) d'"
    using d'(2) ran livest inj_map_of_zip [of ?qs ?ks] unfolding owns_def map by auto
  moreover have "rules_of (st @ ?st) d' = rules_of st d"
  proof (rule ext)
    fix k
    have "map_option (rule_at (st @ ?st)) (table_map d' k) = map_option (rule_at st) (table_map d k)"
      unfolding map table_map_zip [of d] map_of_zip_map_option [symmetric] at ..
    then show "rules_of (st @ ?st) d' k = rules_of st d k"
      unfolding rules_of_def by (cases "table_map d' k"; cases "table_map d k") auto
  qed
  moreover have "\<forall>p\<in>ran (table_map d'). length st \<le> p" using ran by auto
  ultimately show ?thesis using d'(1) by blast
qed

lemma remember_state_ok:
  assumes inv: "vm_inv s"
  shows "\<exists>s'. remember_state s = Inr s' \<and> vm_inv s' \<and>
    vm_abs s' = (fst (vm_abs s), fst (vm_abs s) # snd (vm_abs s))"
proof -
  have own: "\<And>d. d \<in> set (vm_rules s # saved s) \<Longrightarrow> owns (vm_store s) d"
    and sw: "sorted_wrt apart (vm_rules s # saved s)" using inv by (auto simp: vm_inv_def)
  obtain st' d' where d': "dictDuplicate (Some duplicatePoRegRule) (vm_store s) (vm_rules s) = Inr (vm_store s @ st', d')"
      "owns (vm_store s @ st') d'" "rules_of (vm_store s @ st') d' = rules_of (vm_store s) (vm_rules s)"
      "\<forall>p\<in>ran (table_map d'). length (vm_store s) \<le> p"
    using copy_owned [of "vm_store s" "vm_rules s"] own by auto
  let ?s = "s\<lparr>vm_store := vm_store s @ st', vm_states := Some \<lparr>st_top = d' # saved s\<rparr>\<rparr>"
  have run: "remember_state s = Inr ?s"
    using d'(1) by (auto simp: remember_state_def saved_def stackPush_def stackCreate_def split: option.split)
  have fresh: "apart d d' \<and> apart d' d" if "d \<in> set (vm_rules s # saved s)" for d
    using own [OF that] d'(4) by (force simp: apart_def owns_def live_def)
  have "vm_inv ?s"
    using own sw d'(2) fresh by (auto simp: vm_inv_def saved_def owns_append)
  moreover have "vm_abs ?s = (fst (vm_abs s), fst (vm_abs s) # snd (vm_abs s))"
    using own d'(3) by (auto simp: vm_abs_def saved_def rules_of_append)
  ultimately show ?thesis using run by blast
qed

section \<open>Restoring\<close>

text \<open>While the saved rules are copied back they are off the stack, and still owned.\<close>

definition holding :: "Rules \<Rightarrow> VMState \<Rightarrow> VMState" where
  "holding d s = s\<lparr>vm_states := Some \<lparr>st_top = d # saved s\<rparr>\<rparr>"

lemma holding_simps [simp]:
  "vm_store (holding d s) = vm_store s" "vm_rules (holding d s) = vm_rules s"
  "saved (holding d s) = d # saved s"
  "holding d (s\<lparr>vm_store := st\<rparr>) = (holding d s)\<lparr>vm_store := st\<rparr>"
  "holding d (s\<lparr>vm_store := st, vm_rules := rs\<rparr>) = (holding d s)\<lparr>vm_store := st, vm_rules := rs\<rparr>"
  by (simp_all add: holding_def saved_def)

lemma vm_abs_holding: "vm_abs (holding d s) = (fst (vm_abs s), rules_of (vm_store s) d # snd (vm_abs s))"
  by (simp add: vm_abs_def)

text \<open>One key.\<close>

lemma restore_key_ok:
  assumes inv: "vm_inv (holding d s)" and k: "table_map d k = Some q"
  shows "\<exists>s'. (\<forall>ks. restore_keys (k # ks) d s = restore_keys ks d s') \<and> vm_inv (holding d s') \<and>
    vm_states s' = vm_states s \<and>
    vm_abs (holding d s') = ((fst (vm_abs s))(k := rules_of (vm_store s) d k), snd (vm_abs (holding d s)))"
proof -
  have own: "owns (vm_store s) d" "owns (vm_store s) (vm_rules s)" using inv by (auto simp: vm_inv_def)
  have gets: "dictGet d k = Inr (Some q)" "dictGet (vm_rules s) k = Inr (table_map (vm_rules s) k)"
    using owns_get [OF own(1)] owns_get [OF own(2)] k by auto
  let ?r = "the (vm_store s ! q)"
  have r: "rules_of (vm_store s) d k = Some ?r" "load (vm_store s) (Some q) = Inr ?r"
    using rules_of_Some [OF own(1) k] live_load [OF owns_live [OF own(1) k]] by auto
  show ?thesis
  proof (cases "table_map (vm_rules s) k")
    case (Some c)
    let ?s = "s\<lparr>vm_store := (vm_store s)[c := Some ?r]\<rparr>"
    note w = write_rule_ok [OF inv, of k c, simplified, OF Some]
    have "restore_keys (k # ks) d s = restore_keys ks d ?s" for ks
      using gets Some r(2) live_load [OF w(3)] by (simp add: update_def)
    moreover have "vm_abs (holding d ?s) = ((fst (vm_abs s))(k := rules_of (vm_store s) d k), snd (vm_abs (holding d s)))"
      using w(2) [of ?r] by (simp add: r(1))
    ultimately show ?thesis using w(1) [of ?r] by (intro exI [of _ ?s]) simp
  next
    case None
    from insert_rule_ok [OF inv, of k ?r] None obtain d' where
      d': "dictInsert (vm_rules s) k (length (vm_store s)) = Inr d'"
        "vm_inv ((holding d s)\<lparr>vm_store := vm_store s @ [Some ?r], vm_rules := d'\<rparr>)"
        "vm_abs ((holding d s)\<lparr>vm_store := vm_store s @ [Some ?r], vm_rules := d'\<rparr>)
          = ((fst (vm_abs (holding d s)))(k \<mapsto> ?r), snd (vm_abs (holding d s)))"
      by auto
    let ?s = "s\<lparr>vm_store := vm_store s @ [Some ?r], vm_rules := d'\<rparr>"
    have "restore_keys (k # ks) d s = restore_keys ks d ?s" for ks
      using gets None r(2) d'(1) by (simp add: duplicatePoRegRule_def alloc_def)
    moreover have "vm_abs (holding d ?s) = ((fst (vm_abs s))(k := rules_of (vm_store s) d k), snd (vm_abs (holding d s)))"
      using d'(3) by (simp add: r(1))
    ultimately show ?thesis using d'(2) by (intro exI [of _ ?s]) simp
  qed
qed

lemma restore_keys_ok:
  assumes "vm_inv (holding d s)" "set ks \<subseteq> dom (table_map d)"
  shows "\<exists>s'. restore_keys ks d s = Inr s' \<and> vm_inv (holding d s') \<and> vm_states s' = vm_states s \<and>
    vm_abs (holding d s') = (\<lambda>k. if k \<in> set ks then rules_of (vm_store s) d k else fst (vm_abs s) k,
      snd (vm_abs (holding d s)))"
  using assms
proof (induction ks arbitrary: s)
  case Nil
  then show ?case by (simp add: vm_abs_holding)
next
  case (Cons k ks)
  then obtain q where "table_map d k = Some q" by auto
  from restore_key_ok [OF Cons.prems(1) this] obtain s1 where
    s1: "\<And>ks. restore_keys (k # ks) d s = restore_keys ks d s1" "vm_inv (holding d s1)" "vm_states s1 = vm_states s"
      "vm_abs (holding d s1) = ((fst (vm_abs s))(k := rules_of (vm_store s) d k), snd (vm_abs (holding d s)))"
    by blast
  from Cons.IH [OF s1(2)] Cons.prems(2) obtain s2 where
    s2: "restore_keys ks d s1 = Inr s2" "vm_inv (holding d s2)" "vm_states s2 = vm_states s1"
      "vm_abs (holding d s2) = (\<lambda>k. if k \<in> set ks then rules_of (vm_store s1) d k else fst (vm_abs s1) k,
        snd (vm_abs (holding d s1)))" by auto
  have same: "rules_of (vm_store s1) d = rules_of (vm_store s) d"
    "fst (vm_abs s1) = (fst (vm_abs s))(k := rules_of (vm_store s) d k)"
    "snd (vm_abs (holding d s1)) = snd (vm_abs (holding d s))"
    using s1(4) by (simp_all add: vm_abs_holding)
  have "vm_abs (holding d s2) = (\<lambda>k'. if k' \<in> set (k # ks) then rules_of (vm_store s) d k' else fst (vm_abs s) k',
      snd (vm_abs (holding d s)))"
    unfolding s2(4) same by (auto simp: fun_eq_iff)
  with s1 s2 show ?case by auto
qed

text \<open>Freeing the saved rules.\<close>

lemma free_all_ok:
  "distinct ps \<Longrightarrow> (\<And>p. p \<in> set ps \<Longrightarrow> live st p) \<Longrightarrow>
   \<exists>st'. free_all st ps = Inr st' \<and> length st' = length st \<and>
     (\<forall>p. st' ! p = (if p \<in> set ps \<and> p < length st then None else st ! p))"
proof (induction ps arbitrary: st)
  case (Cons p ps)
  have p: "live st p" using Cons.prems by simp
  have "live (st[p := None]) q" if "q \<in> set ps" for q
    using Cons.prems that by (auto simp: live_def nth_list_update)
  with Cons.IH [of "st[p := None]"] Cons.prems obtain st' where
    st': "free_all (st[p := None]) ps = Inr st'" "length st' = length st"
      "\<forall>q. st' ! q = (if q \<in> set ps \<and> q < length st then None else st[p := None] ! q)" by auto
  have "free_cell st (Some p) = Inr (st[p := None])" using p by (simp add: free_cell_def live_load)
  with st' p show ?case
    by (intro exI [of _ st']) (auto simp: live_def nth_list_update)
qed simp

lemma owns_freed:
  assumes "owns st d" "length st' = length st" "\<And>p. p \<in> ran (table_map d) \<Longrightarrow> st' ! p = st ! p"
  shows "owns st' d" "rules_of st' d = rules_of st d"
proof -
  have live: "live st' p" "rule_at st' p = rule_at st p" if "p \<in> ran (table_map d)" for p
    using assms that by (auto simp: owns_def live_def rule_at_def)
  then show "owns st' d" using assms(1) by (auto simp: owns_def)
  show "rules_of st' d = rules_of st d"
    by (rule ext) (auto simp: rules_of_def live(2) ranI split: Option.bind_split)
qed

lemma delete_rules_ok:
  assumes inv: "vm_inv (holding d s)"
  shows "\<exists>st. delete_rules (vm_store s) d = Inr st \<and> vm_inv (s\<lparr>vm_store := st\<rparr>) \<and> vm_abs (s\<lparr>vm_store := st\<rparr>) = vm_abs s"
proof -
  have own: "owns (vm_store s) d" "\<And>d'. d' \<in> set (vm_rules s # saved s) \<Longrightarrow> owns (vm_store s) d'"
    and ap: "\<And>d'. d' \<in> set (vm_rules s # saved s) \<Longrightarrow> apart d' d" and sw: "sorted_wrt apart (vm_rules s # saved s)"
    using inv by (auto simp: vm_inv_def apart_def)
  let ?ps = "map snd (table_entries d)"
  obtain gs where rep: "table_rep hash1 d gs" using own(1) by (auto simp: owns_def table_inv_def)
  have "live (vm_store s) p" if "p \<in> set ?ps" for p
    using that own(1) unfolding owns_entries(2) [OF own(1)] by (auto simp: owns_def)
  then obtain st where st: "free_all (vm_store s) ?ps = Inr st" "length st = length (vm_store s)"
      "\<forall>p. st ! p = (if p \<in> set ?ps \<and> p < length (vm_store s) then None else vm_store s ! p)"
    using free_all_ok [OF owns_entries(3) [OF own(1)]] by blast
  have run: "delete_rules (vm_store s) d = Inr st"
    using st(1) unfolding delete_rules_def nodes_from_rep [OF rep] table_entries_rep [OF rep]
    by (simp add: comp_def)
  have "owns st d' \<and> rules_of st d' = rules_of (vm_store s) d'" if d': "d' \<in> set (vm_rules s # saved s)" for d'
  proof -
    have "st ! p = vm_store s ! p" if "p \<in> ran (table_map d')" for p
      using st(3) ap [OF d'] that owns_entries(2) [OF own(1), of p] by (auto simp: apart_def)
    from owns_freed [OF own(2) [OF d'] st(2) this] show ?thesis by simp
  qed
  then have "vm_inv (s\<lparr>vm_store := st\<rparr>) \<and> vm_abs (s\<lparr>vm_store := st\<rparr>) = vm_abs s"
    using sw by (auto simp: vm_inv_def vm_abs_def saved_def)
  with run show ?thesis by blast
qed

lemma restore_state_ok:
  assumes inv: "vm_inv s"
  shows "case snd (vm_abs s) of
      [] \<Rightarrow> restore_state s = Inl Death
    | m # ms \<Rightarrow> \<exists>s'. restore_state s = Inr s' \<and> vm_inv s' \<and> vm_abs s' = (fst (vm_abs s) ++ m, ms)"
proof (cases "saved s")
  case Nil
  then have "snd (vm_abs s) = []" by (simp add: vm_abs_def)
  moreover have "restore_state s = Inl Death"
    using Nil by (auto simp: restore_state_def saved_def stackPop_def split: option.splits)
  ultimately show ?thesis by simp
next
  case (Cons d ds)
  then obtain stack where stack: "vm_states s = Some stack" "st_top stack = d # ds"
    by (auto simp: saved_def split: option.splits)
  let ?s = "s\<lparr>vm_states := Some (stack\<lparr>st_top := ds\<rparr>)\<rparr>"
  have hold: "holding d ?s = s" using stack by (simp add: holding_def saved_def)
  have own: "owns (vm_store s) d" using inv Cons by (auto simp: vm_inv_def)
  let ?ks = "map fst (table_entries d)"
  have ks: "set ?ks = dom (table_map d)" by (simp add: table_map_def dom_map_of_conv_image_fst)
  have held: "vm_inv (holding d ?s)" using inv hold by simp
  have e: "vm_store ?s = vm_store s" "fst (vm_abs ?s) = fst (vm_abs s)" by simp_all
  from restore_keys_ok [OF held, of ?ks] ks obtain s1 where
    s1: "restore_keys ?ks d ?s = Inr s1" "vm_inv (holding d s1)"
      "vm_abs (holding d s1) = (\<lambda>k. if k \<in> set ?ks then rules_of (vm_store s) d k else fst (vm_abs s) k,
        snd (vm_abs s))" unfolding hold e by auto
  obtain st where st: "delete_rules (vm_store s1) d = Inr st" "vm_inv (s1\<lparr>vm_store := st\<rparr>)"
      "vm_abs (s1\<lparr>vm_store := st\<rparr>) = vm_abs s1"
    using delete_rules_ok [OF s1(2)] by blast
  have run: "restore_state s = Inr (s1\<lparr>vm_store := st\<rparr>)"
    using stack s1(1) st(1) owns_entries(4) [OF own] by (simp add: restore_state_def stackPop_def)
  have "(\<lambda>k. if k \<in> set ?ks then rules_of (vm_store s) d k else fst (vm_abs s) k)
      = fst (vm_abs s) ++ rules_of (vm_store s) d"
    unfolding ks
  proof (rule ext)
    fix k
    show "(if k \<in> dom (table_map d) then rules_of (vm_store s) d k else fst (vm_abs s) k)
        = (fst (vm_abs s) ++ rules_of (vm_store s) d) k"
      using rules_of_None [OF own, of k] by (cases "table_map d k") (auto simp: map_add_def domIff split: option.split)
  qed
  then have "fst (vm_abs s1) = fst (vm_abs s) ++ rules_of (vm_store s) d"
    "rules_of (vm_store s1) d # snd (vm_abs s1) = snd (vm_abs s)"
    using s1(3) unfolding vm_abs_holding by simp_all
  moreover have "snd (vm_abs s) = rules_of (vm_store s) d # map (rules_of (vm_store s)) ds"
    using Cons by (simp add: vm_abs_def)
  ultimately show ?thesis using run st by (auto simp: prod_eq_iff simp del: vm_abs_rules)
qed

section \<open>The refinement\<close>

definition agrees :: "((rule_map \<times> rule_map list) \<times> 32 word) result \<Rightarrow> (VMState \<times> 32 word) result \<Rightarrow> bool" where
  "agrees spec run \<longleftrightarrow>
     (case spec of
        Inl e \<Rightarrow> run = Inl e
      | Inr (a, loc) \<Rightarrow> (\<exists>s. run = Inr (s, loc) \<and> vm_inv s \<and> vm_abs s = a))"

lemma evaluate_agrees:
  "vm_inv s \<Longrightarrow>
   agrees (spec_eval cie instrs loc stop (fst (vm_abs s)) (snd (vm_abs s)))
     (evaluateInstructionsToRules cie instrs loc stop s)"
proof (induction instrs arbitrary: loc s)
  case Nil
  then show ?case by (simp add: agrees_def del: vm_abs_rules)
next
  case (Cons inst instrs)
  let ?spec = "spec_eval cie (inst # instrs) loc stop (fst (vm_abs s)) (snd (vm_abs s))"
  let ?run = "evaluateInstructionsToRules cie (inst # instrs) loc stop s"
  have stop: "agrees (Inr ((fst (vm_abs s), snd (vm_abs s)), loc)) (Inr (s, loc))" for loc
    using Cons.prems by (simp add: agrees_def del: vm_abs_rules)
  consider (set_loc) "ri_type inst = DW_CFA_set_loc"
    | (adv) "ri_type inst \<noteq> DW_CFA_set_loc" "advances (ri_type inst)"
    | (remember) "ri_type inst = DW_CFA_remember_state"
    | (restore) "ri_type inst = DW_CFA_restore_state"
    | (rule) "ri_type inst \<noteq> DW_CFA_set_loc" "\<not> advances (ri_type inst)"
        "ri_type inst \<noteq> DW_CFA_remember_state" "ri_type inst \<noteq> DW_CFA_restore_state"
    by blast
  then show ?case
  proof cases
    case set_loc
    then show ?thesis
      unfolding spec_eval.simps evaluateInstructionsToRules.simps if_P [OF set_loc]
      using stop Cons by (cases "past_stop stop (ri_arg1 inst)") (simp_all del: vm_abs_rules)
  next
    case adv
    then show ?thesis
      unfolding spec_eval.simps evaluateInstructionsToRules.simps if_not_P [OF adv(1)] if_P [OF adv(2)]
      using stop Cons by (cases "past_stop stop (scast loc + ri_arg1 inst)") (simp_all del: vm_abs_rules)
  next
    case remember
    from remember_state_ok [OF Cons.prems] obtain s1 where s1: "remember_state s = Inr s1" "vm_inv s1"
      "vm_abs s1 = (fst (vm_abs s), fst (vm_abs s) # snd (vm_abs s))" by blast
    have "?spec = spec_eval cie instrs loc stop (fst (vm_abs s1)) (snd (vm_abs s1))"
      "?run = evaluateInstructionsToRules cie instrs loc stop s1"
      using remember s1 by (simp_all del: vm_abs_rules)
    with Cons.IH [OF s1(2), of loc] show ?thesis by (simp only:)
  next
    case restore
    show ?thesis
    proof (cases "snd (vm_abs s)")
      case Nil
      then have "?spec = Inl Death" "?run = Inl Death"
        using restore_state_ok [OF Cons.prems] restore by (simp_all del: vm_abs_rules)
      then show ?thesis by (simp only: agrees_def sum.case)
    next
      case mms: (Cons m ms)
      with restore_state_ok [OF Cons.prems] obtain s1 where s1: "restore_state s = Inr s1" "vm_inv s1"
        "vm_abs s1 = (fst (vm_abs s) ++ m, ms)" by auto
      have "?spec = spec_eval cie instrs loc stop (fst (vm_abs s1)) (snd (vm_abs s1))"
        "?run = evaluateInstructionsToRules cie instrs loc stop s1"
        using restore s1 mms by (simp_all del: vm_abs_rules)
      with Cons.IH [OF s1(2), of loc] show ?thesis by (simp only:)
    qed
  next
    case rule
    have eq: "?spec = bindE (spec_rule cie inst (fst (vm_abs s))) (\<lambda>m. spec_eval cie instrs loc stop m (snd (vm_abs s)))"
      "?run = bindE (eval_rule cie inst s) (evaluateInstructionsToRules cie instrs loc stop)"
      unfolding spec_eval.simps evaluateInstructionsToRules.simps using rule by (simp_all only: if_False)
    show ?thesis
    proof (cases "spec_rule cie inst (fst (vm_abs s))")
      case (Inl e)
      with eval_rule_ok [OF Cons.prems, of cie inst] have "eval_rule cie inst s = Inl e" by simp
      with Inl show ?thesis unfolding eq by (simp add: agrees_def del: vm_abs_rules)
    next
      case (Inr m)
      with eval_rule_ok [OF Cons.prems, of cie inst] obtain s1 where s1: "eval_rule cie inst s = Inr s1" "vm_inv s1"
        "vm_abs s1 = (m, snd (vm_abs s))" by auto
      with Cons.IH [OF s1(2), of loc] Inr show ?thesis unfolding eq by (simp del: vm_abs_rules)
    qed
  qed
qed

end
