(* ===== verification/Dwarf_Stack.thy ===== *)
theory Dwarf_Stack
  imports Dwarf_Expr
begin

text \<open>
  The evaluation of DWARF expressions in \<^verbatim>\<open>src/src/dwarfvm.c\<close>.  The stack is the memory of its
  allocation, \<open>stackLen\<close> words of which are in use; \<open>stackAlloced\<close> is the number of words the code
  takes it to hold.
\<close>

record DWVMStack =
  ws_mem :: "byte list"
  ws_len :: nat
  ws_alloced :: nat

definition popDWVMStack :: "DWVMStack \<Rightarrow> (word_t \<times> DWVMStack) result" where
  "popDWVMStack st =
     (if ws_len st = 0 then Inl Death
      else
        let n = ws_len st - 1 in
        bindE (copy_out (drop (8 * n) (ws_mem st)) 8) (\<lambda>bs. Inr (le_word bs, st\<lparr>ws_len := n\<rparr>)))"

text \<open>
  Growing the stack fails: \<^verbatim>\<open>realloc\<close> is given the address of the caller's variable instead of the stack, which is no block
  of the heap.  It does not happen, as the only operation of the loop pops a word before it pushes one.
\<close>

definition pushDWVMStack :: "DWVMStack \<Rightarrow> word_t \<Rightarrow> DWVMStack result" where
  "pushDWVMStack st v =
     (if ws_len st + 1 = ws_alloced st then Inl UseAfterFree
      else
        bindE (write_bytes (ws_mem st) (8 * ws_len st) (word_bytes 8 v)) (\<lambda>mem.
          Inr (st\<lparr>ws_mem := mem, ws_len := ws_len st + 1\<rparr>)))"

text \<open>The loop over the bytes that are left; every round takes at least one.\<close>

function eval_expr_loop :: "byte list \<Rightarrow> nat \<Rightarrow> DWVMStack \<Rightarrow> DWVMStack result" where
  "eval_expr_loop bytes len st =
     (if len = 0 then Inr st
      else
        bindE (elem_at bytes 0) (\<lambda>b.
          if unat b = DW_OP_plus_uconst then
            bindE (popDWVMStack st) (\<lambda>(top, st).
            bindE (leb128ToUWord (drop 1 bytes)) (\<lambda>(uconst, bytesRead).
            bindE (pushDWVMStack st (top + uconst)) (\<lambda>st.
              eval_expr_loop (drop (1 + bytesRead) bytes) (len - (1 + bytesRead)) st)))
          else Inl Death))"
  by auto
termination by (relation "measure (\<lambda>(bytes, len, st). len)") auto

text \<open>\<^verbatim>\<open>memcpy\<close> copies \<^verbatim>\<open>stackLen\<close> bytes of the starting stack, not words.\<close>

definition evaluateDwarfExpression :: "byte list \<Rightarrow> nat \<Rightarrow> word_t list \<Rightarrow> word_t result" where
  "evaluateDwarfExpression bytes len startingStack =
     (let stackLen = length startingStack; stackAlloced = stackLen + 10;
          mem = replicate (8 * stackAlloced) 0 in
      bindE (copy_out (concat (map (word_bytes 8) startingStack)) stackLen) (\<lambda>bs.
      bindE (write_bytes mem 0 bs) (\<lambda>mem.
      bindE (eval_expr_loop bytes len \<lparr>ws_mem = mem, ws_len = stackLen, ws_alloced = stackAlloced\<rparr>) (\<lambda>st.
      bindE (popDWVMStack st) (\<lambda>(w, _). Inr w)))))"

end
