(* ===== verification/Dwarf_VM_Properties.thy ===== *)
theory Dwarf_VM_Properties
  imports Dwarf_VM_Refine Dwarf_Stack Except_Actions
begin

text \<open>
  The properties of the DWARF interpreter: the refinement of its specification, what remembering and
  advancing do and do not do, the instructions it cannot run, and the expression evaluator.
\<close>

section \<open>Expressions\<close>

definition plus_uconsts :: "word_t list \<Rightarrow> byte list" where
  "plus_uconsts cs = concat (map (\<lambda>c. of_nat DW_OP_plus_uconst # uleb c) cs)"

definition top_word :: "DWVMStack \<Rightarrow> word_t" where
  "top_word st = le_word (take 8 (drop (8 * (ws_len st - 1)) (ws_mem st)))"

definition ws_ok :: "DWVMStack \<Rightarrow> bool" where
  "ws_ok st \<longleftrightarrow> 0 < ws_len st \<and> ws_alloced st = ws_len st + 10 \<and> length (ws_mem st) = 8 * (ws_len st + 10)"

lemma pop_push_ok:
  assumes "ws_ok st"
  shows "\<exists>st1 st2. popDWVMStack st = Inr (top_word st, st1) \<and> pushDWVMStack st1 w = Inr st2 \<and>
    ws_ok st2 \<and> top_word st2 = w"
proof -
  from assms obtain n where n: "ws_len st = Suc n" "ws_alloced st = n + 11" "length (ws_mem st) = 8 * n + 88"
    by (cases "ws_len st") (auto simp: ws_ok_def)
  then have pop: "popDWVMStack st = Inr (top_word st, st\<lparr>ws_len := n\<rparr>)"
    by (simp add: popDWVMStack_def top_word_def copy_out_def)
  let ?mem = "take (8 * n) (ws_mem st) @ word_bytes 8 w @ drop (8 * n + 8) (ws_mem st)"
  have push: "pushDWVMStack (st\<lparr>ws_len := n\<rparr>) w = Inr (st\<lparr>ws_len := Suc n, ws_mem := ?mem\<rparr>)"
    using n by (simp add: pushDWVMStack_def write_bytes_def)
  have "ws_ok (st\<lparr>ws_len := Suc n, ws_mem := ?mem\<rparr>)" using n by (simp add: ws_ok_def)
  moreover have "top_word (st\<lparr>ws_len := Suc n, ws_mem := ?mem\<rparr>) = w" using n by (simp add: top_word_def)
  ultimately show ?thesis using pop push by blast
qed

lemma eval_plus_uconsts:
  "ws_ok st \<Longrightarrow> \<exists>st'. eval_expr_loop (plus_uconsts cs @ rest) (length (plus_uconsts cs)) st = Inr st' \<and>
     ws_ok st' \<and> top_word st' = top_word st + sum_list cs"
proof (induction cs arbitrary: st)
  case Nil
  then show ?case by (simp add: plus_uconsts_def)
next
  case (Cons c cs)
  obtain st1 st2 where st: "popDWVMStack st = Inr (top_word st, st1)" "pushDWVMStack st1 (top_word st + c) = Inr st2"
      "ws_ok st2" "top_word st2 = top_word st + c"
    using pop_push_ok [OF Cons.prems] by blast
  have code: "plus_uconsts (c # cs) = 0x23 # uleb c @ plus_uconsts cs" by (simp add: plus_uconsts_def)
  have "eval_expr_loop (plus_uconsts (c # cs) @ rest) (length (plus_uconsts (c # cs))) st
      = eval_expr_loop (plus_uconsts cs @ rest) (length (plus_uconsts cs)) st2"
    unfolding code by (subst eval_expr_loop.simps) (simp add: st)
  with Cons.IH [OF st(3)] st(4) show ?case by (simp add: add.assoc)
qed

text \<open>
  An expression of additions of constants, run on a starting stack, gives their sum; of the stack
  only the low byte of its word counts when it has one, and nothing when it has more, because the
  stack is copied by the length in words taken as a length in bytes.
\<close>

theorem expression_ignores_starting_stack:
  assumes "stack \<noteq> []"
  shows "evaluateDwarfExpression (plus_uconsts cs @ rest) (length (plus_uconsts cs)) stack
    = Inr ((if length stack = 1 then take_bit 8 (hd stack) else 0) + sum_list cs)"
proof -
  let ?L = "length stack"
  let ?bytes = "concat (map (word_bytes 8) stack) :: byte list"
  have len: "length ?bytes = 8 * ?L" by (induction stack) simp_all
  let ?mem = "take ?L ?bytes @ replicate (8 * (?L + 10) - ?L) 0"
  let ?st = "\<lparr>ws_mem = ?mem, ws_len = ?L, ws_alloced = ?L + 10\<rparr>"
  have ok: "ws_ok ?st" using assms len by (simp add: ws_ok_def)
  have top: "top_word ?st = (if ?L = 1 then take_bit 8 (hd stack) else 0)"
  proof (cases "?L = 1")
    case True
    then obtain w where w: "stack = [w]" by (auto simp: length_Suc_conv)
    then have "top_word ?st = le_word (ucast w # replicate 7 0)"
      by (simp add: top_word_def word_bytes_def upt_rec numeral_eq_Suc)
    also have "\<dots> = take_bit 8 w"
      by (rule bit_word_eqI) (auto simp: le_word_def bit_le_int bit_simps nth_Cons' div_eq_0_iff)
    finally show ?thesis using w by simp
  next
    case False
    with assms obtain n where n: "?L = Suc (Suc n)" by (cases stack; cases "tl stack") auto
    then have "drop (8 * (?L - 1)) ?mem = replicate (88 - 0) 0" using len by simp
    then have "top_word ?st = le_word (replicate 8 0)" by (simp add: top_word_def)
    also have "\<dots> = 0" by (simp add: le_word_def numeral_eq_Suc le_int_Cons)
    finally show ?thesis using n by simp
  qed
  obtain st where st: "eval_expr_loop (plus_uconsts cs @ rest) (length (plus_uconsts cs)) ?st = Inr st" "ws_ok st"
      "top_word st = top_word ?st + sum_list cs"
    using eval_plus_uconsts [OF ok] by blast
  obtain st1 where "popDWVMStack st = Inr (top_word st, st1)" using pop_push_ok [OF st(2)] by blast
  with st(1,3) top len show ?thesis
    by (simp add: evaluateDwarfExpression_def write_bytes_def Let_def)
qed

theorem expression_ignores_starting_stack_witness:
  "evaluateDwarfExpression (plus_uconsts [16]) (length (plus_uconsts [16])) [0x1000] = Inr 16"
  using expression_ignores_starting_stack [of "[0x1000]" "[16]" "[]"] by simp

section \<open>Call frame instructions\<close>

text \<open>
  C7: on a machine state in which every dictionary owns the rules it points to, evaluating instructions
  does what the specification does on the rule maps: it fails as the specification fails, or it
  returns the specification's location and a state, again with separate rules, that stands for the
  specification's maps.
\<close>

theorem evaluate_refines:
  assumes "vm_inv s"
  shows "case spec_eval cie instrs loc stop (fst (vm_abs s)) (snd (vm_abs s)) of
      Inl e \<Rightarrow> evaluateInstructionsToRules cie instrs loc stop s = Inl e
    | Inr (a, loc') \<Rightarrow> \<exists>s'. evaluateInstructionsToRules cie instrs loc stop s = Inr (s', loc') \<and>
        vm_inv s' \<and> vm_abs s' = a"
  using evaluate_agrees [OF assms, of cie instrs loc stop] by (simp add: agrees_def)

definition vm_start :: VMState where
  "vm_start = \<lparr>vm_store = [], vm_rules = dictCreate 100, vm_states = None\<rparr>"

lemma vm_start_inv [simp]: "vm_inv vm_start"
proof -
  have "table_inv hash1 (dictCreate 100 :: Rules)" "table_map (dictCreate 100 :: Rules) = Map.empty"
    by (rule empty_table; simp add: dictCreate_def)+
  then show ?thesis by (simp add: vm_inv_def vm_start_def saved_def owns_def)
qed

lemma vm_start_abs [simp]: "vm_abs vm_start = (Map.empty, [])"
proof -
  have "table_map (dictCreate 100 :: Rules) = Map.empty"
    by (rule empty_table; simp add: dictCreate_def)
  then show ?thesis by (simp add: vm_abs_def vm_start_def saved_def rules_of_def fun_eq_iff)
qed

definition sample_cie :: CIE where
  "sample_cie = \<lparr>cie_initialInstructions = [], cie_dataAlign = - 8, cie_codeAlign = 1, cie_returnAddrRuleNum = 16,
     cie_idx = 0, cie_version = 1, cie_addressSize = 8, cie_segmentSize = 0, cie_augmentationFlags = 0,
     cie_fdePointerEncoding = 0, cie_fdeLSDAPointerEncoding = 0, cie_personalityPointerEncoding = 0,
     cie_personalityFunction = 0\<rparr>"

theorem evaluate_refines_witness:
  "\<exists>s. evaluateInstructionsToRules sample_cie
     [(with_reg DW_CFA_def_cfa (basic_reg 7))\<lparr>ri_arg2 := 8\<rparr>, zero_inst DW_CFA_remember_state,
      (zero_inst DW_CFA_advance_loc)\<lparr>ri_arg1 := 4\<rparr>] 0 10 vm_start = Inr (s, 4) \<and>
     fst (vm_abs s) ''{CFA}'' = Some \<lparr>regLH = zero_reg\<lparr>reg_type := ERT_CFA\<rparr>, rule_type = ERRT_CFA,
       regRH = basic_reg 7, rule_offset = 8, rule_index = 0\<rparr> \<and> length (snd (vm_abs s)) = 1"
  using evaluate_refines [OF vm_start_inv, of sample_cie "[(with_reg DW_CFA_def_cfa (basic_reg 7))\<lparr>ri_arg2 := 8\<rparr>,
      zero_inst DW_CFA_remember_state, (zero_inst DW_CFA_advance_loc)\<lparr>ri_arg1 := 4\<rparr>]" 0 10]
  by (auto simp: spec_rule_def rule_reg_def strForReg_def with_reg_def zero_inst_def zero_reg_def rule_effect_def
      Let_def zero_rule_def sample_cie_def past_stop_def simp del: vm_abs_rules)

abbreviation plain_instr :: "RegInstruction \<Rightarrow> bool" where
  "plain_instr inst \<equiv> ri_type inst \<noteq> DW_CFA_set_loc \<and> \<not> advances (ri_type inst) \<and>
     ri_type inst \<noteq> DW_CFA_remember_state \<and> ri_type inst \<noteq> DW_CFA_restore_state"

text \<open>
  Restoring a remembered state brings back the rules that were there, but keeps a rule for a
  register that had none when the state was remembered.
\<close>

theorem restore_state_keeps_new_rules:
  assumes inv: "vm_inv s" and inst: "plain_instr inst" "strForReg (rule_reg inst) 0 = Inr reg"
    and old: "rules_of (vm_store s) (vm_rules s) reg = old"
    and eff: "rule_effect cie inst (case old of None \<Rightarrow> zero_rule\<lparr>regLH := rule_reg inst\<rparr> | Some r \<Rightarrow> r) = Inr new"
  shows "\<exists>s'. evaluateInstructionsToRules cie
      [zero_inst DW_CFA_remember_state, inst, zero_inst DW_CFA_restore_state] loc stop s = Inr (s', loc) \<and>
    rules_of (vm_store s') (vm_rules s') =
      (rules_of (vm_store s) (vm_rules s))(reg \<mapsto> (case old of None \<Rightarrow> new | Some r \<Rightarrow> r))"
proof -
  let ?m = "rules_of (vm_store s) (vm_rules s)"
  let ?is = "[zero_inst DW_CFA_remember_state, inst, zero_inst DW_CFA_restore_state]"
  have t: "ri_type (zero_inst DW_CFA_remember_state) = DW_CFA_remember_state"
    "ri_type (zero_inst DW_CFA_restore_state) = DW_CFA_restore_state" by (simp_all add: zero_inst_def)
  have rule: "spec_rule cie inst ?m = Inr (?m(reg \<mapsto> new))"
    using inst(2) eff old by (simp add: spec_rule_def)
  have "spec_eval cie ?is loc stop ?m (snd (vm_abs s)) = Inr ((?m(reg \<mapsto> new) ++ ?m, snd (vm_abs s)), loc)"
    using inst(1) by (simp add: t rule)
  moreover have "?m(reg \<mapsto> new) ++ ?m = ?m(reg \<mapsto> (case old of None \<Rightarrow> new | Some r \<Rightarrow> r))"
    using old by (auto simp: fun_eq_iff map_add_def split: option.split)
  ultimately have spec: "spec_eval cie ?is loc stop ?m (snd (vm_abs s))
      = Inr ((?m(reg \<mapsto> (case old of None \<Rightarrow> new | Some r \<Rightarrow> r)), snd (vm_abs s)), loc)" by simp
  have "agrees (spec_eval cie ?is loc stop ?m (snd (vm_abs s))) (evaluateInstructionsToRules cie ?is loc stop s)"
    using evaluate_agrees [OF inv, of cie ?is loc stop] by simp
  then obtain s' where s': "evaluateInstructionsToRules cie ?is loc stop s = Inr (s', loc)"
      "vm_abs s' = (?m(reg \<mapsto> (case old of None \<Rightarrow> new | Some r \<Rightarrow> r)), snd (vm_abs s))"
    unfolding spec agrees_def sum.case prod.case by blast
  have "fst (vm_abs s') = ?m(reg \<mapsto> (case old of None \<Rightarrow> new | Some r \<Rightarrow> r))" unfolding s'(2) fst_conv ..
  then have "rules_of (vm_store s') (vm_rules s') = ?m(reg \<mapsto> (case old of None \<Rightarrow> new | Some r \<Rightarrow> r))"
    unfolding vm_abs_rules .
  with s'(1) show ?thesis by (intro exI conjI)
qed

theorem restore_state_keeps_new_rules_witness:
  "\<exists>s'. evaluateInstructionsToRules sample_cie
      [zero_inst DW_CFA_remember_state, (with_reg DW_CFA_offset (basic_reg 3))\<lparr>ri_arg2 := 2\<rparr>,
       zero_inst DW_CFA_restore_state] 0 (- 1) vm_start = Inr (s', 0) \<and>
    rules_of (vm_store s') (vm_rules s') ''r3/rbx'' \<noteq> None"
proof -
  let ?i = "(with_reg DW_CFA_offset (basic_reg 3))\<lparr>ri_arg2 := 2\<rparr>"
  have i: "rule_reg ?i = basic_reg 3" "ri_type ?i = DW_CFA_offset"
    by (simp_all add: rule_reg_def with_reg_def zero_inst_def)
  have name: "strForReg (basic_reg 3) 0 = Inr ''r3/rbx''"
    by (simp add: strForReg_def basic_reg_def getArchRegNameFromDwarfRegNum_def getX86_64RegNameFromDwarfRegNum_def
        fmt_i_def base_digits.simps hex_digit_def upto.simps)
  have start: "rules_of (vm_store vm_start) (vm_rules vm_start) = Map.empty"
    using vm_start_abs by (simp add: vm_abs_def)
  obtain r where "rule_effect sample_cie ?i (zero_rule\<lparr>regLH := basic_reg 3\<rparr>) = Inr r"
    by (simp add: rule_effect_def i(2))
  with restore_state_keeps_new_rules [OF vm_start_inv, of ?i "''r3/rbx''" None sample_cie r 0 "- 1"] i name start
  obtain s' where "evaluateInstructionsToRules sample_cie [zero_inst DW_CFA_remember_state, ?i,
      zero_inst DW_CFA_restore_state] 0 (- 1) vm_start = Inr (s', 0)"
    "rules_of (vm_store s') (vm_rules s') = [''r3/rbx'' \<mapsto> r]" by auto
  then show ?thesis by (intro exI [of _ s'] conjI) simp_all
qed

lemma sint_small:
  assumes "0 \<le> k" "k < 2 ^ 31"
  shows "sint (word_of_int k :: 32 word) = k"
proof -
  have "- (2 ^ 31) \<le> k" using order_trans [OF _ assms(1), of "- (2 ^ 31)"] by simp
  with assms(2) show ?thesis unfolding sint_sbintrunc' by (intro signed_take_bit_int_eq_self) simp_all
qed

lemma not_past_stop:
  assumes "0 \<le> sint stop" "\<not> past_stop stop w"
  shows "sint (ucast w :: 32 word) \<le> sint stop" "(ucast w :: 32 word) = word_of_int (uint w)"
proof -
  have s: "sint stop < 2 ^ 31" using sint_lt [of stop] by simp
  have u: "uint (scast stop :: 64 word) = sint stop"
    unfolding scast_eq uint_word_of_int using assms(1) s by (intro mod_pos_pos_trivial) simp_all
  have "\<not> uint (scast stop :: 64 word) < uint w"
    using assms by (simp only: past_stop_def word_less_def simp_thms)
  then have le: "uint w \<le> sint stop" unfolding u by linarith
  show w: "(ucast w :: 32 word) = word_of_int (uint w)" by (rule ucast_eq)
  have "sint (ucast w :: 32 word) = uint w"
    unfolding w using le s by (intro sint_small) simp_all
  with le show "sint (ucast w :: 32 word) \<le> sint stop" by simp
qed

definition other_step :: "CIE \<Rightarrow> RegInstruction \<Rightarrow> VMState \<Rightarrow> VMState result" where
  "other_step cie inst s =
     (if ri_type inst = DW_CFA_remember_state then remember_state s
      else if ri_type inst = DW_CFA_restore_state then restore_state s else eval_rule cie inst s)"

lemma evaluate_other:
  "ri_type inst \<noteq> DW_CFA_set_loc \<Longrightarrow> \<not> advances (ri_type inst) \<Longrightarrow>
   evaluateInstructionsToRules cie (inst # instrs) loc stop s =
     bindE (other_step cie inst s) (evaluateInstructionsToRules cie instrs loc stop)"
  by (simp add: other_step_def)

text \<open>
  C25: with a code alignment of one and a non-negative stop location, evaluation that starts at or before
  the stop location ends at or before it.
\<close>

theorem evaluate_stays_before_stop:
  assumes "cie_codeAlign cie = 1" "0 \<le> sint stop" "sint loc \<le> sint stop"
    and "evaluateInstructionsToRules cie instrs loc stop s = Inr (s', loc')"
  shows "sint loc' \<le> sint stop"
  using assms(3,4)
proof (induction instrs arbitrary: loc s)
  case Nil
  then show ?case by simp
next
  case (Cons inst instrs)
  let ?run = "evaluateInstructionsToRules cie instrs"
  consider (set_loc) "ri_type inst = DW_CFA_set_loc"
    | (adv) "ri_type inst \<noteq> DW_CFA_set_loc" "advances (ri_type inst)"
    | (other) f where "evaluateInstructionsToRules cie (inst # instrs) loc stop s = bindE (f s) (?run loc stop)"
  proof (cases "ri_type inst = DW_CFA_set_loc \<or> advances (ri_type inst)")
    case True
    then show ?thesis using set_loc adv by blast
  next
    case False
    then have neither: "ri_type inst \<noteq> DW_CFA_set_loc" "\<not> advances (ri_type inst)" by blast+
    show ?thesis by (rule other) (rule evaluate_other [OF neither])
  qed
  then show ?case
  proof cases
    case set_loc
    show ?thesis
    proof (cases "past_stop stop (ri_arg1 inst)")
      case False
      show ?thesis
        by (rule Cons.IH [OF not_past_stop(1) [OF assms(2) False]])
          (use Cons.prems(2) set_loc False in simp)
    qed (use Cons.prems set_loc in simp)
  next
    case adv
    let ?w = "scast loc + ri_arg1 inst :: 64 word"
    have run: "evaluateInstructionsToRules cie (inst # instrs) loc stop s
        = (if past_stop stop ?w then Inr (s, loc) else ?run (ucast ?w) stop s)"
      unfolding evaluateInstructionsToRules.simps if_not_P [OF adv(1)] if_P [OF adv(2)] by (simp add: assms(1))
    show ?thesis
    proof (cases "past_stop stop ?w")
      case False
      show ?thesis
        by (rule Cons.IH [OF not_past_stop(1) [OF assms(2) False]])
          (use Cons.prems(2) run False in simp)
    qed (use Cons.prems run in simp)
  next
    case (other f)
    from other Cons.prems(2) have "bindE (f s) (?run loc stop) = Inr (s', loc')" by (rule trans [OF sym])
    then obtain s1 where "?run loc stop s1 = Inr (s', loc')" by (auto simp: bindE_eq_Inr)
    then show ?thesis by (rule Cons.IH [OF Cons.prems(1)])
  qed
qed

theorem evaluate_stays_before_stop_witness:
  "\<exists>s'. evaluateInstructionsToRules sample_cie [(zero_inst DW_CFA_advance_loc)\<lparr>ri_arg1 := 4\<rparr>,
     (zero_inst DW_CFA_advance_loc)\<lparr>ri_arg1 := 4\<rparr>] 0 7 vm_start = Inr (s', 4) \<and> sint (4 :: 32 word) \<le> sint (7 :: 32 word)"
proof -
  have run: "evaluateInstructionsToRules sample_cie [(zero_inst DW_CFA_advance_loc)\<lparr>ri_arg1 := 4\<rparr>,
     (zero_inst DW_CFA_advance_loc)\<lparr>ri_arg1 := 4\<rparr>] 0 7 vm_start = Inr (vm_start, 4)"
    by (simp add: zero_inst_def past_stop_def sample_cie_def)
  then show ?thesis
    using evaluate_stays_before_stop [OF _ _ _ run] by (auto simp: sample_cie_def)
qed

text \<open>
  With a larger code alignment the stop location is compared with the unscaled operand: an advance
  whose operand stays at or before the stop location is taken although the location it leads to lies
  behind it, and the instructions that follow are evaluated.
\<close>

theorem advance_overshoots_stop:
  assumes "ri_type inst \<noteq> DW_CFA_set_loc" "advances (ri_type inst)"
    and "0 \<le> sint loc" "sint loc + uint (ri_arg1 inst) \<le> sint stop"
    and "sint stop < sint loc + uint (ri_arg1 inst) * uint (cie_codeAlign cie)"
    and "sint loc + uint (ri_arg1 inst) * uint (cie_codeAlign cie) < 2 ^ 31"
  shows "\<exists>loc'. evaluateInstructionsToRules cie (inst # instrs) loc stop s
        = evaluateInstructionsToRules cie instrs loc' stop s \<and>
      sint loc' = sint loc + uint (ri_arg1 inst) * uint (cie_codeAlign cie) \<and> sint stop < sint loc'"
proof -
  let ?d = "uint (ri_arg1 inst)" and ?c = "uint (cie_codeAlign cie)"
  let ?w = "scast loc + ri_arg1 inst :: 64 word"
  have bounds: "sint loc < 2 ^ 31" "sint stop < 2 ^ 31" using sint_lt [of loc] sint_lt [of stop] by simp_all
  have "0 \<le> ?d" "0 \<le> ?d * ?c" by simp_all
  moreover from this assms(3,4) have "0 \<le> sint stop" by linarith
  ultimately have nonneg: "0 \<le> ?d" "0 \<le> ?d * ?c" "0 \<le> sint stop" .
  have ext: "(scast l :: 64 word) = word_of_int (sint l)" for l :: "32 word" by (rule scast_eq)
  have "?w = word_of_int (sint loc + ?d)" unfolding ext by simp
  then have w: "uint ?w = sint loc + ?d"
    using assms(3,4) bounds nonneg by (simp only: uint_word_of_int) (intro mod_pos_pos_trivial, simp_all)
  have "uint (scast stop :: 64 word) = sint stop"
    unfolding ext uint_word_of_int using nonneg bounds by (intro mod_pos_pos_trivial) simp_all
  then have not: "\<not> past_stop stop ?w"
    unfolding past_stop_def word_less_def w using assms(4) by simp
  let ?loc = "ucast (scast loc + ri_arg1 inst * cie_codeAlign cie :: 64 word) :: 32 word"
  have run: "evaluateInstructionsToRules cie (inst # instrs) loc stop s
      = evaluateInstructionsToRules cie instrs ?loc stop s"
    unfolding evaluateInstructionsToRules.simps if_not_P [OF assms(1)] if_P [OF assms(2)] if_not_P [OF not] ..
  have "(scast loc + ri_arg1 inst * cie_codeAlign cie :: 64 word) = word_of_int (sint loc + ?d * ?c)"
    unfolding ext by simp
  then have "?loc = word_of_int (sint loc + ?d * ?c)" by (simp only: ucast_word_of_int_32)
  then have "sint ?loc = sint loc + ?d * ?c"
    using assms(3,6) nonneg by (simp only:) (rule sint_small, simp_all)
  with run assms(5) show ?thesis by (intro exI [of _ ?loc]) simp
qed

theorem advance_overshoots_stop_witness:
  "\<exists>loc'. evaluateInstructionsToRules (sample_cie\<lparr>cie_codeAlign := 4\<rparr>)
       [(zero_inst DW_CFA_advance_loc)\<lparr>ri_arg1 := 4\<rparr>] 0 7 vm_start = Inr (vm_start, loc') \<and> sint loc' = 16"
  using advance_overshoots_stop [of "(zero_inst DW_CFA_advance_loc)\<lparr>ri_arg1 := 4\<rparr>" 0 7
      "sample_cie\<lparr>cie_codeAlign := 4\<rparr>" "[]" vm_start]
  by (auto simp: zero_inst_def)

text \<open>
  Two instructions that the reader accepts stop the interpreter: \<^verbatim>\<open>DW_CFA_advance_loc4\<close>, which it
  does not know to advance the location, fails an assertion, and \<^verbatim>\<open>DW_CFA_restore\<close> uses freed memory.
\<close>

theorem unusable_instructions:
  assumes "vm_inv s" "length bs = 4" "w < 64"
  shows "\<exists>advance restore.
    parse_fde_instr (of_nat DW_CFA_advance_loc4 # bs @ rest) = Inr (Some advance, 4) \<and>
    evaluateInstructionsToRules cie (advance # instrs) loc stop s = Inl AssertFail \<and>
    parse_fde_instr ((of_nat DW_CFA_restore OR w) # rest) = Inr (Some restore, 0) \<and>
    evaluateInstructionsToRules cie (restore # instrs) loc stop s = Inl UseAfterFree"
proof -
  let ?a = "(zero_inst DW_CFA_advance_loc4)\<lparr>ri_arg1 := ucast (le_word bs :: uint)\<rparr>"
  let ?r = "low_inst DW_CFA_restore (ucast w)"
  have "parse_fde_instr (of_nat DW_CFA_advance_loc4 # bs @ rest) = Inr (Some ?a, 4)"
    using assms(2) by (simp add: parse_fde_instr_def parse_low_def Let_def)
  moreover have "evaluateInstructionsToRules cie (?a # instrs) loc stop s = Inl AssertFail"
    by (simp add: zero_inst_def eval_rule_def find_rule_def rule_reg_def strForReg_def zero_reg_def)
  moreover have "parse_fde_instr ((of_nat DW_CFA_restore OR w) # rest) = Inr (Some ?r, 0)"
  proof -
    have "(ucast (ucast w :: word_t) :: 32 word) = ucast w" by (rule bit_word_eqI) (auto simp: bit_simps)
    then show ?thesis
      using packed_operand [OF assms(3), of "of_nat DW_CFA_restore"]
      by (simp add: parse_fde_instr_def Let_def low_inst_def)
  qed
  moreover have "evaluateInstructionsToRules cie (?r # instrs) loc stop s = Inl UseAfterFree"
  proof -
    have "strForReg (basic_reg n) 0 \<noteq> Inl e" for n e
      by (simp add: strForReg_def basic_reg_def split: option.split)
    then obtain str where "strForReg (basic_reg (ucast (ucast w :: word_t))) 0 = Inr str"
      by (cases "strForReg (basic_reg (ucast (ucast w :: word_t))) 0") auto
    then have "spec_eval cie (?r # instrs) loc stop (fst (vm_abs s)) (snd (vm_abs s)) = Inl UseAfterFree"
      by (simp add: low_inst_def zero_inst_def spec_rule_def rule_reg_def rule_effect_def)
    with evaluate_agrees [OF assms(1), of cie "?r # instrs" loc stop] show ?thesis by (simp add: agrees_def)
  qed
  ultimately show ?thesis by blast
qed

theorem unusable_instructions_witness:
  "\<exists>restore. parse_fde_instr [0xC3] = Inr (Some restore, 0) \<and>
     evaluateInstructionsToRules sample_cie [restore] 0 (- 1) vm_start = Inl UseAfterFree"
  using unusable_instructions [OF vm_start_inv, of "[1, 0, 0, 0]" 3 "[]" sample_cie "[]" 0 "- 1"]
  by (auto simp del: evaluateInstructionsToRules.simps)

end
