(* ===== verification/Patch_Data.thy ===== *)
theory Patch_Data
  imports Dwarf_VM Dwarf_Stack
begin

text \<open>
  The second half of \<^verbatim>\<open>src/src/dwarfvm.c\<close>: from the rules of a patch FDE to the bytes to write into the
  running target, and the writing.
\<close>

section \<open>State\<close>

text \<open>
  What the code uses of the target process and of the ELF objects is a parameter: reading, writing
  and allocating memory (\<^verbatim>\<open>memcpyFromTarget\<close>, \<^verbatim>\<open>memcpyToTarget\<close> and \<^verbatim>\<open>mallocTarget\<close>, all \<^verbatim>\<open>ptrace\<close> calls
  on a process \<open>'t\<close>), the symbol lookups in the old binary and the patch, and the address of the
  section \<^verbatim>\<open>.data.new\<close>.  Symbol 0 is \<^verbatim>\<open>STN_UNDEF\<close>.
\<close>

record 't TargetEnv =
  te_getSymAddress :: "uint \<Rightarrow> addr_t result"
  te_read :: "'t \<Rightarrow> addr_t \<Rightarrow> nat \<Rightarrow> byte list result"
  te_write :: "'t \<Rightarrow> addr_t \<Rightarrow> byte list \<Rightarrow> 't result"
  te_malloc :: "'t \<Rightarrow> nat \<Rightarrow> ('t \<times> addr_t) result"
  te_findSymbol :: "addr_t \<Rightarrow> nat"
  te_reindexSymbol :: "nat \<Rightarrow> nat"
  te_getSymbol :: "nat \<Rightarrow> nat \<times> addr_t"
  te_dataIndex :: nat
  te_dataNew :: "addr_t option"

record PatchData =
  pd_data :: "byte list"
  pd_len :: nat
  pd_addr :: addr_t

text \<open>\<open>ps_moved\<close> is the static \<^verbatim>\<open>dataMoved\<close>; rules and remembered states are those of the interpreter.\<close>

record 't PatchState =
  ps_target :: 't
  ps_moved :: "(64 word, addr_t) Map option"
  ps_store :: "PoRegRule heap"
  ps_states :: "Rules Stack option"

type_synonym 't generate = "FDE \<Rightarrow> SpecialRegsState \<Rightarrow> 't PatchState \<Rightarrow> (PatchData list \<times> 't PatchState) result"

definition ERRF_flags :: "bool \<Rightarrow> bool \<Rightarrow> E_REG_RESOLVE_FLAGS" where
  "ERRF_flags assign dereference = \<lparr>ERRF_ASSIGN = assign, ERRF_DEREFERENCE = dereference\<rparr>"

definition resolve_in ::
  "'t TargetEnv \<Rightarrow> 't PatchState \<Rightarrow> PoReg \<Rightarrow> SpecialRegsState \<Rightarrow> E_REG_RESOLVE_FLAGS \<Rightarrow> byte list result" where
  "resolve_in env ps reg state flags =
     resolveRegisterValue (te_getSymAddress env) (te_read env (ps_target ps)) reg state flags"

text \<open>A value that has to be an address.\<close>

definition resolve_addr ::
  "fault \<Rightarrow> 't TargetEnv \<Rightarrow> 't PatchState \<Rightarrow> PoReg \<Rightarrow> SpecialRegsState \<Rightarrow> E_REG_RESOLVE_FLAGS \<Rightarrow> addr_t result" where
  "resolve_addr err env ps reg state flags =
     bindE (resolve_in env ps reg state flags) (\<lambda>bs.
     bindE (guardE (length bs = 8) err) (\<lambda>_. Inr (le_word bs)))"

section \<open>One rule\<close>

text \<open>Where an object that a pointer points to goes: \<^verbatim>\<open>.data.new\<close> or fresh memory.\<close>

definition new_location ::
  "'t TargetEnv \<Rightarrow> FDE list \<Rightarrow> PoRegRule \<Rightarrow> addr_t \<Rightarrow> 't PatchState \<Rightarrow> (addr_t \<times> 't PatchState) result" where
  "new_location env fdes rule old ps =
     (let symIdxOld = te_findSymbol env old in
      if symIdxOld \<noteq> 0 then
        let symIdxPatch = te_reindexSymbol env symIdxOld in
        if symIdxPatch = 0 then Inl Death
        else
          (case te_getSymbol env symIdxPatch of (st_shndx, st_value) \<Rightarrow>
           bindE (guardE (st_shndx = te_dataIndex env) AssertFail) (\<lambda>_.
             case te_dataNew env of
               None \<Rightarrow> Inl AssertFail
             | Some sh_addr \<Rightarrow> Inr (sh_addr + st_value, ps)))
      else
        bindE (elem_at fdes (unat (rule_index rule - 1))) (\<lambda>fde.
        bindE (te_malloc env (ps_target ps) (unat (scast (fde_memSize fde) :: word_t))) (\<lambda>(t, a).
          Inr (a, ps\<lparr>ps_target := t\<rparr>))))"

definition fixup_pointer ::
  "'t generate \<Rightarrow> 't TargetEnv \<Rightarrow> FDE list \<Rightarrow> PoRegRule \<Rightarrow> SpecialRegsState \<Rightarrow> addr_t \<Rightarrow> 't PatchState \<Rightarrow>
   (PatchData list \<times> 't PatchState) result" where
  "fixup_pointer gen env fdes rule state resultAddr ps =
     (let patch = (\<lambda>a :: addr_t. \<lparr>pd_data = word_bytes 8 a, pd_len = 8, pd_addr = resultAddr\<rparr>) in
      bindE (resolve_addr AssertFail env ps (regRH rule) state (ERRF_flags False True)) (\<lambda>old.
        if old = 0 then Inr ([patch 0], ps)
        else
          case ps_moved ps of
            None \<Rightarrow> Inl NullDeref
          | Some moved \<Rightarrow>
          bindE (mapGet moved old) (\<lambda>existing.
            case existing of
              Some a \<Rightarrow> Inr ([patch a], ps)
            | None \<Rightarrow>
                bindE (new_location env fdes rule old ps) (\<lambda>(new, ps).
                bindE (mapInsert moved old new) (\<lambda>moved.
                bindE (elem_at fdes (unat (rule_index rule - 1))) (\<lambda>fde.
                bindE (gen fde (state\<lparr>currAddrOld := old, currAddrNew := new\<rparr>) (ps\<lparr>ps_moved := Some moved\<rparr>))
                  (\<lambda>(rest, ps). Inr (patch new # rest, ps))))))))"

definition fixup ::
  "'t generate \<Rightarrow> 't TargetEnv \<Rightarrow> FDE list \<Rightarrow> PoRegRule \<Rightarrow> SpecialRegsState \<Rightarrow> addr_t \<Rightarrow> 't PatchState \<Rightarrow>
   (PatchData list \<times> 't PatchState) result" where
  "fixup gen env fdes rule state resultAddr ps =
     bindE (resolve_addr AssertFail env ps (regRH rule) state (ERRF_flags False False)) (\<lambda>old.
     bindE (elem_at fdes (unat (rule_index rule - 1))) (\<lambda>fde.
       gen fde (state\<lparr>currAddrNew := resultAddr, currAddrOld := old\<rparr>) ps))"

definition makePatchData ::
  "'t generate \<Rightarrow> 't TargetEnv \<Rightarrow> FDE list \<Rightarrow> PoRegRule \<Rightarrow> SpecialRegsState \<Rightarrow> 't PatchState \<Rightarrow>
   (PatchData list \<times> 't PatchState) result" where
  "makePatchData gen env fdes rule state ps =
     (let ps = (if ps_moved ps = None then ps\<lparr>ps_moved := Some (size_tMapCreate 100)\<rparr> else ps) in
      bindE (resolve_addr Death env ps (regLH rule) state (ERRF_flags True False)) (\<lambda>resultAddr.
        case rule_type rule of
          ERRT_UNDEF \<Rightarrow> Inr ([], ps)
        | ERRT_OFFSET \<Rightarrow>
            let len = (if reg_size (regLH rule) \<noteq> 0 then unat (reg_size (regLH rule)) else 8) in
            bindE (te_read env (ps_target ps) (cfaValue state + scast (rule_offset rule)) len) (\<lambda>bs.
              Inr ([\<lparr>pd_data = bs, pd_len = len, pd_addr = resultAddr\<rparr>], ps))
        | ERRT_REGISTER \<Rightarrow>
            bindE (resolve_in env ps (regRH rule) state (ERRF_flags False True)) (\<lambda>bs.
              Inr ([\<lparr>pd_data = bs, pd_len = length bs, pd_addr = resultAddr\<rparr>], ps))
        | ERRT_RECURSE_FIXUP \<Rightarrow> fixup gen env fdes rule state resultAddr ps
        | ERRT_RECURSE_FIXUP_POINTER \<Rightarrow> fixup_pointer gen env fdes rule state resultAddr ps
        | _ \<Rightarrow> Inl Death))"

section \<open>One FDE\<close>

text \<open>
  The loop over the null-terminated array of rules; \<^verbatim>\<open>concatLists\<close> is always given the end of the list so
  far.
\<close>

fun patches_for ::
  "'t generate \<Rightarrow> 't TargetEnv \<Rightarrow> FDE list \<Rightarrow> nat list \<Rightarrow> SpecialRegsState \<Rightarrow> 't PatchState \<Rightarrow>
   (PatchData list \<times> 't PatchState) result" where
  "patches_for gen env fdes [] state ps = Inr ([], ps)"
| "patches_for gen env fdes (p # rules) state ps =
     bindE (load (ps_store ps) (Some p)) (\<lambda>rule.
     bindE (makePatchData gen env fdes rule state ps) (\<lambda>(xs, ps).
     bindE (patches_for gen env fdes rules state ps) (\<lambda>(ys, ps). Inr (xs @ ys, ps))))"

definition read_cfa ::
  "'t TargetEnv \<Rightarrow> Rules \<Rightarrow> SpecialRegsState \<Rightarrow> 't PatchState \<Rightarrow> SpecialRegsState result" where
  "read_cfa env rules state ps =
     bindE (strForReg (zero_reg\<lparr>reg_type := ERT_CFA\<rparr>) 0) (\<lambda>str.
     bindE (dictGet rules str) (\<lambda>cfaRule.
       case cfaRule of
         None \<Rightarrow> Inr (state\<lparr>cfaValue := 0\<rparr>)
       | Some p \<Rightarrow>
           bindE (load (ps_store ps) (Some p)) (\<lambda>rule.
           bindE (resolve_addr AssertFail env ps (regRH rule) state (ERRF_flags False False)) (\<lambda>addr.
             Inr (state\<lparr>cfaValue := addr + scast (rule_offset rule)\<rparr>)))))"

text \<open>
  Fixups recurse into other FDEs, and a fixup that comes back to its own FDE goes on for ever: the
  depth is bounded by fuel, and running out of it is \<open>Diverges\<close>.
\<close>

fun generatePatchesFromFDEAndState :: "nat \<Rightarrow> 't TargetEnv \<Rightarrow> FDE list \<Rightarrow> 't generate" where
  "generatePatchesFromFDEAndState 0 env fdes fde state ps = Inl Diverges"
| "generatePatchesFromFDEAndState (Suc fuel) env fdes fde state ps =
     (case fde_cie fde of
        None \<Rightarrow> Inl NullDeref
      | Some cie \<Rightarrow>
     bindE (evaluateInstructionsToRules cie (fde_instructions fde) (fde_lowpc fde) (fde_highpc fde)
              \<lparr>vm_store = ps_store ps, vm_rules = dictCreate 100, vm_states = ps_states ps\<rparr>) (\<lambda>(vm, _).
     let ps = ps\<lparr>ps_store := vm_store vm, ps_states := vm_states vm\<rparr> in
     bindE (dictValues (vm_rules vm)) (\<lambda>rules.
     bindE (read_cfa env (vm_rules vm) state ps) (\<lambda>state.
     bindE (patches_for (generatePatchesFromFDEAndState fuel env fdes) env fdes rules state ps) (\<lambda>(patches, ps).
     bindE (delete_rules (ps_store ps) (vm_rules vm)) (\<lambda>st.
       Inr (patches, ps\<lparr>ps_store := st\<rparr>)))))))"

section \<open>Writing\<close>

fun write_patches :: "'t TargetEnv \<Rightarrow> PatchData list \<Rightarrow> 't \<Rightarrow> 't result" where
  "write_patches env [] t = Inr t"
| "write_patches env (pd # pds) t =
     bindE (copy_out (pd_data pd) (pd_len pd)) (\<lambda>bs.
     bindE (te_write env t (pd_addr pd) bs) (\<lambda>t. write_patches env pds t))"

definition patchDataWithFDE ::
  "nat \<Rightarrow> 't TargetEnv \<Rightarrow> FDE list \<Rightarrow> addr_t \<Rightarrow> addr_t \<Rightarrow> FDE \<Rightarrow> 't PatchState \<Rightarrow> 't PatchState result" where
  "patchDataWithFDE fuel env fdes oldLocation newLocation fde ps =
     bindE (generatePatchesFromFDEAndState fuel env fdes fde
              \<lparr>currAddrOld = oldLocation, currAddrNew = newLocation, cfaValue = 0\<rparr> ps) (\<lambda>(patches, ps).
     bindE (write_patches env patches (ps_target ps)) (\<lambda>t. Inr (ps\<lparr>ps_target := t\<rparr>)))"

definition cleanupDwarfVM :: "'t PatchState \<Rightarrow> ((64 word, addr_t) NODE heap option) result" where
  "cleanupDwarfVM ps =
     (case ps_moved ps of None \<Rightarrow> Inr None | Some m \<Rightarrow> bindE (mapDelete m) (\<lambda>h. Inr (Some h)))"

end
