(* ===== verification/Patch_Properties.thy ===== *)
theory Patch_Properties
  imports Patch_Data Dwarf_VM_Refine Dwarf_VM_Properties
begin

text \<open>
  The properties of patching: the patch data is collected without writing to the target, and a rule
  for the canonical frame address stops it.
\<close>

section \<open>Collecting before writing\<close>

text \<open>What \<^verbatim>\<open>mallocTarget\<close> keeps, the generation of one FDE keeps.\<close>

definition malloc_keeps :: "('t \<Rightarrow> bool) \<Rightarrow> 't TargetEnv \<Rightarrow> bool" where
  "malloc_keeps P env \<longleftrightarrow> (\<forall>t n t' a. P t \<longrightarrow> te_malloc env t n = Inr (t', a) \<longrightarrow> P t')"

definition gen_keeps :: "('t \<Rightarrow> bool) \<Rightarrow> 't generate \<Rightarrow> bool" where
  "gen_keeps P gen \<longleftrightarrow> (\<forall>fde state ps x ps'. P (ps_target ps) \<longrightarrow> gen fde state ps = Inr (x, ps') \<longrightarrow> P (ps_target ps'))"

lemma malloc_keepsD: "malloc_keeps P env \<Longrightarrow> P t \<Longrightarrow> te_malloc env t n = Inr (t', a) \<Longrightarrow> P t'"
  unfolding malloc_keeps_def by blast

lemma new_location_keeps:
  "malloc_keeps P env \<Longrightarrow> new_location env fdes rule old ps = Inr (a, ps') \<Longrightarrow> P (ps_target ps) \<Longrightarrow> P (ps_target ps')"
  using malloc_keepsD [of P env "ps_target ps"]
  by (auto simp: new_location_def Let_def bindE_eq_Inr split: if_splits prod.splits option.splits)

lemma fixup_pointer_keeps:
  assumes "malloc_keeps P env" "gen_keeps P gen"
    and "fixup_pointer gen env fdes rule state ra ps = Inr (x, ps')" "P (ps_target ps)"
  shows "P (ps_target ps')"
proof -
  from assms(3) consider "ps' = ps"
    | old new ps1 moved fde x1 where "new_location env fdes rule old ps = Inr (new, ps1)"
        "gen fde (state\<lparr>currAddrOld := old, currAddrNew := new\<rparr>) (ps1\<lparr>ps_moved := Some moved\<rparr>) = Inr (x1, ps')"
    by (auto simp: fixup_pointer_def Let_def bindE_eq_Inr split: if_splits option.splits)
  then show ?thesis
  proof cases
    case 2
    then have "P (ps_target ps1)" using new_location_keeps [OF assms(1)] assms(4) by blast
    then have "P (ps_target (ps1\<lparr>ps_moved := Some moved\<rparr>))" by simp
    with 2(2) assms(2) show ?thesis unfolding gen_keeps_def by blast
  qed (use assms(4) in simp)
qed

lemma makePatchData_keeps:
  assumes "malloc_keeps P env" "gen_keeps P gen"
    and "makePatchData gen env fdes rule state ps = Inr (x, ps')" "P (ps_target ps)"
  shows "P (ps_target ps')"
proof -
  define ps1 where "ps1 = (if ps_moved ps = None then ps\<lparr>ps_moved := Some (size_tMapCreate 100)\<rparr> else ps)"
  have P: "P (ps_target ps1)" using assms(4) by (simp add: ps1_def)
  from assms(3) consider "ps' = ps1"
    | a where "fixup gen env fdes rule state a ps1 = Inr (x, ps')"
    | a where "fixup_pointer gen env fdes rule state a ps1 = Inr (x, ps')"
    unfolding makePatchData_def ps1_def [symmetric] Let_def
    by (cases "rule_type rule") (auto simp: bindE_eq_Inr)
  then show ?thesis
  proof cases
    case (2 a)
    then show ?thesis using P assms(2) by (auto simp: fixup_def bindE_eq_Inr gen_keeps_def)
  next
    case (3 a)
    then show ?thesis using P fixup_pointer_keeps [OF assms(1,2)] by blast
  qed (use P in simp)
qed

lemma patches_for_keeps:
  "malloc_keeps P env \<Longrightarrow> gen_keeps P gen \<Longrightarrow> patches_for gen env fdes rules state ps = Inr (x, ps') \<Longrightarrow>
   P (ps_target ps) \<Longrightarrow> P (ps_target ps')"
proof (induction rules arbitrary: ps x)
  case (Cons p rules)
  then obtain rule x1 ps1 x2 where "makePatchData gen env fdes rule state ps = Inr (x1, ps1)"
      "patches_for gen env fdes rules state ps1 = Inr (x2, ps')"
    by (auto simp: bindE_eq_Inr)
  with Cons show ?case using makePatchData_keeps [OF Cons.prems(1,2)] by blast
qed simp

lemma generate_keeps:
  assumes "malloc_keeps P env"
  shows "gen_keeps P (generatePatchesFromFDEAndState fuel env fdes)"
proof (induction fuel)
  case (Suc fuel)
  show ?case
    unfolding gen_keeps_def
  proof (intro allI impI)
    fix fde state x and ps ps' :: "'a PatchState"
    assume P: "P (ps_target ps)" and run: "generatePatchesFromFDEAndState (Suc fuel) env fdes fde state ps = Inr (x, ps')"
    from run obtain rules st and vm :: VMState and ps1 :: "'a PatchState" where
      1: "patches_for (generatePatchesFromFDEAndState fuel env fdes) env fdes rules st
           (ps\<lparr>ps_store := vm_store vm, ps_states := vm_states vm\<rparr>) = Inr (x, ps1)" "ps_target ps' = ps_target ps1"
      by (auto simp: bindE_eq_Inr Let_def split: option.splits)
    show "P (ps_target ps')"
      using patches_for_keeps [OF assms Suc 1(1)] P 1(2) by simp
  qed
qed (simp add: gen_keeps_def)

section \<open>The rules of one FDE\<close>

text \<open>Evaluation starts on an empty dictionary; here nothing has been remembered before.\<close>

lemma dictCreate_owns: "owns st (dictCreate 100)" "table_map (dictCreate 100 :: Rules) = Map.empty"
proof -
  show e: "table_map (dictCreate 100 :: Rules) = Map.empty" by (rule empty_table; simp add: dictCreate_def)
  have "table_inv hash1 (dictCreate 100 :: Rules)" by (rule empty_table; simp add: dictCreate_def)
  then show "owns st (dictCreate 100)" unfolding owns_def e by simp
qed

lemma rules_evaluated:
  assumes "spec_eval cie instrs loc stop Map.empty [] = Inr ((m, ms), loc')"
  shows "\<exists>vm. evaluateInstructionsToRules cie instrs loc stop
       \<lparr>vm_store = st, vm_rules = dictCreate 100, vm_states = None\<rparr> = Inr (vm, loc') \<and>
     vm_inv vm \<and> rules_of (vm_store vm) (vm_rules vm) = m"
proof -
  let ?s = "\<lparr>vm_store = st, vm_rules = dictCreate 100, vm_states = None\<rparr>"
  have inv: "vm_inv ?s" using dictCreate_owns(1) by (simp add: vm_inv_def saved_def)
  have abs: "vm_abs ?s = (Map.empty, [])"
    using dictCreate_owns(2) by (simp add: vm_abs_def saved_def rules_of_def fun_eq_iff)
  have "agrees (Inr ((m, ms), loc')) (evaluateInstructionsToRules cie instrs loc stop ?s)"
    using evaluate_agrees [OF inv, of cie instrs loc stop] unfolding abs fst_conv snd_conv assms .
  then obtain vm where "evaluateInstructionsToRules cie instrs loc stop ?s = Inr (vm, loc')" "vm_inv vm"
      "vm_abs vm = (m, ms)"
    unfolding agrees_def sum.case prod.case by blast
  then show ?thesis using vm_abs_rules [of vm] by auto
qed

lemma dictValues_ok:
  assumes "owns st d"
  shows "dictValues d = Inr (map snd (table_entries d))"
    "p \<in> set (map snd (table_entries d)) \<longleftrightarrow> (\<exists>k. table_map d k = Some p)"
proof -
  obtain gs where rep: "table_rep hash1 d gs" using assms by (auto simp: owns_def table_inv_def)
  have "t_size d = length (addrs gs)" using rep by (simp add: table_rep_def)
  then show "dictValues d = Inr (map snd (table_entries d))"
    unfolding dictValues_def table_array_def nodes_from_rep [OF rep] table_entries_rep [OF rep]
    by (simp add: comp_def guardE_def del: length_concat)
  show "p \<in> set (map snd (table_entries d)) \<longleftrightarrow> (\<exists>k. table_map d k = Some p)"
    unfolding owns_entries(2) [OF assms] ran_def by blast
qed

lemma rules_deletable: "vm_inv vm \<Longrightarrow> \<exists>st. delete_rules (vm_store vm) (vm_rules vm) = Inr st"
proof -
  assume inv: "vm_inv vm"
  have "vm_inv (holding (vm_rules vm) (vm\<lparr>vm_rules := dictCreate 100\<rparr>))"
    using inv dictCreate_owns(2) dictCreate_owns(1) [of "vm_store vm"] by (simp add: vm_inv_def apart_def holding_def saved_def)
  from delete_rules_ok [OF this] show ?thesis by auto
qed

lemma one_entry:
  assumes "owns st d" "rules_of st d = [k \<mapsto> r]"
  shows "\<exists>p. table_entries d = [(k, p)] \<and> load st (Some p) = Inr r"
proof -
  have "table_map d k' = None \<longleftrightarrow> k' \<noteq> k" for k'
    using rules_of_None [OF assms(1), of k'] assms(2) by auto
  then have "set (map fst (table_entries d)) = {k}"
    by (auto simp: table_map_def map_of_eq_None_iff simp flip: domIff dom_map_of_conv_image_fst)
  moreover have "distinct (map fst (table_entries d))" by (rule owns_entries(1) [OF assms(1)])
  ultimately have "length (map fst (table_entries d)) = 1" using distinct_card by fastforce
  then obtain e where e: "table_entries d = [e]" by (auto simp: length_Suc_conv)
  then have "table_map d k = Some (snd e)" "fst e = k"
    using \<open>set (map fst (table_entries d)) = {k}\<close> by (auto simp: table_map_def)
  then show ?thesis
    using e live_load [OF owns_live [OF assms(1), of k "snd e"]] rules_of_Some [OF assms(1), of k "snd e"] assms(2)
    by (cases e) auto
qed

text \<open>
  C26: while the patch data of an FDE is collected, through every fixup it leads to, the target changes by
  allocations alone: what \<^verbatim>\<open>mallocTarget\<close> keeps true of it is still true when the collecting ends.
\<close>

theorem patches_are_collected_before_writing:
  assumes "\<And>t n t' a. P t \<Longrightarrow> te_malloc env t n = Inr (t', a) \<Longrightarrow> P t'"
    and "P (ps_target ps)"
    and "generatePatchesFromFDEAndState fuel env fdes fde state ps = Inr (patches, ps')"
  shows "P (ps_target ps')"
  using generate_keeps [of P env fuel fdes] assms unfolding malloc_keeps_def gen_keeps_def by blast

text \<open>A process as its memory and the end of its heap, and an FDE that copies four bytes.\<close>

definition sample_env :: "(byte list \<times> addr_t) TargetEnv" where
  "sample_env = \<lparr>te_getSymAddress = \<lambda>_. Inr 0, te_read = \<lambda>(m, _) a n. Inr (take n (drop (unat a) m)),
     te_write = \<lambda>(m, b) a bs. Inr (take (unat a) m @ bs @ drop (unat a + length bs) m, b),
     te_malloc = \<lambda>(m, b) n. Inr ((m, b + of_nat n), b), te_findSymbol = \<lambda>_. 0, te_reindexSymbol = \<lambda>_. 0,
     te_getSymbol = \<lambda>_. (0, 0), te_dataIndex = 1, te_dataNew = None\<rparr>"

definition copy_instr :: RegInstruction where
  "copy_instr = (with_reg DW_CFA_register \<lparr>reg_type = ERT_CURR_TARG_NEW, reg_size = 4, reg_u = 0\<rparr>)
     \<lparr>ri_arg2Reg := \<lparr>reg_type = ERT_CURR_TARG_OLD, reg_size = 4, reg_u = 4\<rparr>\<rparr>"

definition fde_of :: "RegInstruction list \<Rightarrow> FDE" where
  "fde_of instrs = \<lparr>fde_cie = Some sample_cie, fde_instructions = instrs, fde_memSize = 0, fde_lowpc = 0, fde_highpc = 0,
     fde_offset = 0, fde_idx = 0, fde_hasLSDAPointer = False, fde_lsdaIdx = 0\<rparr>"

definition sample_state :: "(byte list \<times> addr_t) PatchState" where
  "sample_state = \<lparr>ps_target = ([1, 2, 3, 4, 5, 6, 7, 8, 9, 10, 11, 12, 13, 14, 15, 16], 4096), ps_moved = None,
     ps_store = [], ps_states = None\<rparr>"

lemma sample_spec:
  "\<exists>k r. k \<noteq> ''{CFA}'' \<and> spec_eval sample_cie [copy_instr] 0 0 Map.empty [] = Inr (([k \<mapsto> r], []), 0) \<and>
     rule_type r = ERRT_REGISTER \<and> regLH r = ri_arg1Reg copy_instr \<and> regRH r = ri_arg2Reg copy_instr"
proof -
  obtain k where k: "strForReg (ri_arg1Reg copy_instr) 0 = Inr k" "k \<noteq> ''{CFA}''"
    by (simp add: copy_instr_def with_reg_def strForReg_def)
  have inst: "rule_reg copy_instr = ri_arg1Reg copy_instr" "ri_type copy_instr = DW_CFA_register"
    by (simp_all add: copy_instr_def with_reg_def zero_inst_def rule_reg_def)
  have "spec_eval sample_cie [copy_instr] 0 0 Map.empty []
      = Inr (([k \<mapsto> zero_rule\<lparr>regLH := ri_arg1Reg copy_instr, rule_type := ERRT_REGISTER, regRH := ri_arg2Reg copy_instr\<rparr>], []), 0)"
    using k(1) by (simp add: inst spec_rule_def rule_effect_def)
  with k(2) show ?thesis by fastforce
qed

lemma copy_run:
  assumes "te_read env t 6 4 = Inr bs" "length bs = 4"
  shows "\<exists>ps'. generatePatchesFromFDEAndState 1 env [] (fde_of [copy_instr])
     \<lparr>currAddrOld = 2, currAddrNew = 12, cfaValue = 0\<rparr>
     \<lparr>ps_target = t, ps_moved = None, ps_store = [], ps_states = None\<rparr>
     = Inr ([\<lparr>pd_data = bs, pd_len = 4, pd_addr = 12\<rparr>], ps') \<and> ps_target ps' = t"
proof -
  obtain k r where spec: "k \<noteq> ''{CFA}''" "spec_eval sample_cie [copy_instr] 0 0 Map.empty [] = Inr (([k \<mapsto> r], []), 0)"
      "rule_type r = ERRT_REGISTER" "regLH r = ri_arg1Reg copy_instr" "regRH r = ri_arg2Reg copy_instr"
    using sample_spec by blast
  obtain vm where vm: "evaluateInstructionsToRules sample_cie [copy_instr] 0 0
       \<lparr>vm_store = [], vm_rules = dictCreate 100, vm_states = None\<rparr> = Inr (vm, 0)"
     "vm_inv vm" "rules_of (vm_store vm) (vm_rules vm) = [k \<mapsto> r]"
    using rules_evaluated [OF spec(2)] by blast
  let ?st = "vm_store vm" and ?d = "vm_rules vm"
  have own: "owns ?st ?d" using vm(2) by (simp add: vm_inv_def)
  obtain p where p: "table_entries ?d = [(k, p)]" "load ?st (Some p) = Inr r" using one_entry [OF own vm(3)] by blast
  have vals: "dictValues ?d = Inr [p]" using dictValues_ok(1) [OF own] p(1) by simp
  have "table_map ?d ''{CFA}'' = None" using p(1) spec(1) by (simp add: table_map_def)
  then have cfa: "read_cfa env ?d state ps = Inr (state\<lparr>cfaValue := 0\<rparr>)" for env state and ps :: "'t PatchState"
    using owns_get [OF own] by (simp add: read_cfa_def strForReg_def zero_reg_def)
  obtain st where st: "delete_rules ?st ?d = Inr st" using rules_deletable [OF vm(2)] by blast
  have "(le_word (word_bytes 8 (12 :: 64 word)) :: 64 word) = 12" by simp
  then show ?thesis
    using spec(3-5) vm(1) p(2) vals st assms
    by (simp add: fde_of_def cfa makePatchData_def resolve_addr_def resolve_in_def resolveRegisterValue_def
        ERRF_flags_def copy_instr_def with_reg_def)
qed

lemma sample_run:
  "\<exists>ps'. generatePatchesFromFDEAndState 1 sample_env [] (fde_of [copy_instr])
     \<lparr>currAddrOld = 2, currAddrNew = 12, cfaValue = 0\<rparr> sample_state
     = Inr ([\<lparr>pd_data = [7, 8, 9, 10], pd_len = 4, pd_addr = 12\<rparr>], ps')"
proof -
  have "te_read sample_env (ps_target sample_state) 6 4 = Inr [7, 8, 9, 10]"
    by (simp add: sample_env_def sample_state_def)
  from copy_run [OF this] show ?thesis by (auto simp: sample_state_def)
qed

theorem patches_are_collected_before_writing_witness:
  "\<exists>patches ps'. generatePatchesFromFDEAndState 1 sample_env [] (fde_of [copy_instr])
       \<lparr>currAddrOld = 2, currAddrNew = 12, cfaValue = 0\<rparr> sample_state = Inr (patches, ps') \<and>
     patches \<noteq> [] \<and> fst (ps_target ps') = fst (ps_target sample_state)"
proof -
  obtain ps' where run: "generatePatchesFromFDEAndState 1 sample_env [] (fde_of [copy_instr])
     \<lparr>currAddrOld = 2, currAddrNew = 12, cfaValue = 0\<rparr> sample_state
     = Inr ([\<lparr>pd_data = [7, 8, 9, 10], pd_len = 4, pd_addr = 12\<rparr>], ps')"
    using sample_run by blast
  have "fst (ps_target ps') = fst (ps_target sample_state)"
    by (rule patches_are_collected_before_writing [where P = "\<lambda>t. fst t = fst (ps_target sample_state)", OF _ _ run])
      (auto simp: sample_env_def)
  with run show ?thesis by auto
qed

section \<open>A rule for the canonical frame address\<close>

text \<open>The left hand side of a rule is the register whose name it is filed under.\<close>

definition filed :: "rule_map \<Rightarrow> bool" where
  "filed m \<longleftrightarrow> (\<forall>k r. m k = Some r \<longrightarrow> strForReg (regLH r) 0 = Inr k)"

lemma rule_effect_regLH: "rule_effect cie inst r = Inr r' \<Longrightarrow> regLH r' = regLH r"
  by (auto simp: rule_effect_def Let_def split: if_splits)

lemma spec_rule_filed: "filed m \<Longrightarrow> spec_rule cie inst m = Inr m' \<Longrightarrow> filed m'"
  by (cases "strForReg (rule_reg inst) 0"; cases "m (projr (strForReg (rule_reg inst) 0))")
    (auto simp: spec_rule_def filed_def bindE_eq_Inr dest!: rule_effect_regLH split: if_splits)

lemma spec_eval_filed:
  "filed m \<Longrightarrow> \<forall>m\<in>set ms. filed m \<Longrightarrow> spec_eval cie instrs loc stop m ms = Inr ((m', ms'), loc') \<Longrightarrow> filed m'"
proof (induction instrs arbitrary: m ms loc)
  case (Cons inst instrs)
  have "filed (m ++ m1)" if "filed m1" for m1
    using Cons.prems(1) that by (auto simp: filed_def map_add_def split: option.splits)
  then have popped: "filed m'" if "ms = m1 # ms1" "spec_eval cie instrs loc stop (m ++ m1) ms1 = Inr ((m', ms'), loc')" for m1 ms1
    using Cons.IH [of "m ++ m1" ms1 loc] Cons.prems that by simp
  show ?case
    using Cons Cons.IH [of m "m # ms" loc]
    by (auto simp: bindE_eq_Inr split: if_splits list.splits dest: spec_rule_filed intro: popped)
qed simp

lemma strForReg_CFA: "strForReg r 0 = Inr ''{CFA}'' \<Longrightarrow> reg_type r = ERT_CFA"
  by (auto simp: strForReg_def split: E_REG_TYPE.splits option.splits)

abbreviation is_fixup :: "PoRegRule \<Rightarrow> bool" where
  "is_fixup r \<equiv> rule_type r = ERRT_RECURSE_FIXUP \<or> rule_type r = ERRT_RECURSE_FIXUP_POINTER"

lemma makePatchData_store:
  "makePatchData gen env fdes rule state ps = Inr (x, ps') \<Longrightarrow> \<not> is_fixup rule \<Longrightarrow> ps_store ps' = ps_store ps"
  unfolding makePatchData_def Let_def
  by (cases "rule_type rule") (auto simp: bindE_eq_Inr)

lemma makePatchData_CFA: "reg_type (regLH rule) = ERT_CFA \<Longrightarrow> makePatchData gen env fdes rule state ps = Inl Death"
  by (simp add: makePatchData_def Let_def resolve_addr_def resolve_in_def resolveRegisterValue_def)

lemma patches_for_CFA:
  "p \<in> set ps \<Longrightarrow> (\<And>q. q \<in> set ps \<Longrightarrow> \<exists>r. load (ps_store s) (Some q) = Inr r \<and> \<not> is_fixup r) \<Longrightarrow>
   load (ps_store s) (Some p) = Inr r \<Longrightarrow> reg_type (regLH r) = ERT_CFA \<Longrightarrow>
   \<exists>e. patches_for gen env fdes ps state s = Inl e"
proof (induction ps arbitrary: s)
  case (Cons q ps)
  obtain rq where rq: "load (ps_store s) (Some q) = Inr rq" "\<not> is_fixup rq" using Cons.prems(2) [of q] by auto
  show ?case
  proof (cases "makePatchData gen env fdes rq state s")
    case (Inl e)
    then show ?thesis using rq by simp
  next
    case (Inr xs)
    obtain x s1 where s1: "makePatchData gen env fdes rq state s = Inr (x, s1)" using Inr by (cases xs) simp
    have "p \<noteq> q" using s1 rq(1) Cons.prems(3,4) makePatchData_CFA [of rq gen env fdes state s] by auto
    moreover have "ps_store s1 = ps_store s" using makePatchData_store [OF s1 rq(2)] .
    ultimately have "\<exists>e. patches_for gen env fdes ps state s1 = Inl e"
      using Cons by auto
    then show ?thesis using rq s1 by auto
  qed
qed simp

text \<open>
  An FDE whose instructions give a rule for the canonical frame address, and no fixups, yields no
  patches: the rule is read first, as meant, but it is then among the rules of the loop, where
  its left hand side is not an address.
\<close>

theorem cfa_rule_stops_patching:
  assumes "fde_cie fde = Some cie" "ps_states ps = None"
    and "spec_eval cie (fde_instructions fde) (fde_lowpc fde) (fde_highpc fde) Map.empty [] = Inr ((m, ms), loc)"
    and "m ''{CFA}'' \<noteq> None" "\<forall>r\<in>ran m. \<not> is_fixup r"
  shows "\<exists>e. generatePatchesFromFDEAndState fuel env fdes fde state ps = Inl e"
proof (cases fuel)
  case (Suc n)
  obtain vm where vm: "evaluateInstructionsToRules cie (fde_instructions fde) (fde_lowpc fde) (fde_highpc fde)
       \<lparr>vm_store = ps_store ps, vm_rules = dictCreate 100, vm_states = None\<rparr> = Inr (vm, loc)"
     "vm_inv vm" "rules_of (vm_store vm) (vm_rules vm) = m"
    using rules_evaluated [OF assms(3)] by blast
  let ?st = "vm_store vm" and ?d = "vm_rules vm"
  let ?vals = "map snd (table_entries ?d)" and ?ps = "ps\<lparr>ps_store := ?st, ps_states := vm_states vm\<rparr>"
  have own: "owns ?st ?d" using vm(2) by (simp add: vm_inv_def)
  have cell: "\<exists>r. load ?st (Some q) = Inr r \<and> m k = Some r" if "table_map ?d k = Some q" for k q
    using live_load [OF owns_live [OF own that]] rules_of_Some [OF own that] vm(3) by simp
  have "filed m" using spec_eval_filed [OF _ _ assms(3)] by (simp add: filed_def)
  obtain p where p: "table_map ?d ''{CFA}'' = Some p"
    using assms(4) rules_of_None [OF own, of "''{CFA}''"] vm(3) by auto
  from cell [OF this] obtain r where r: "load ?st (Some p) = Inr r" "m ''{CFA}'' = Some r" by blast
  then have "reg_type (regLH r) = ERT_CFA" using \<open>filed m\<close> strForReg_CFA by (auto simp: filed_def)
  moreover have "\<exists>r. load (ps_store ?ps) (Some q) = Inr r \<and> \<not> is_fixup r" if "q \<in> set ?vals" for q
  proof -
    obtain k where "table_map ?d k = Some q" using \<open>q \<in> set ?vals\<close> unfolding dictValues_ok(2) [OF own] by blast
    from cell [OF this] show ?thesis using assms(5) ranI by (auto simp: ran_def)
  qed
  moreover have "p \<in> set ?vals" using p dictValues_ok(2) [OF own] by blast
  ultimately have stuck: "\<exists>e. patches_for gen env fdes ?vals st ?ps = Inl e" for gen st
    using patches_for_CFA [of p ?vals ?ps r] r(1) by simp
  show ?thesis
  proof (cases "read_cfa env ?d state ?ps")
    case (Inl e)
    then show ?thesis using Suc assms(1,2) vm(1) dictValues_ok(1) [OF own] by simp
  next
    case (Inr st)
    then show ?thesis
      using Suc assms(1,2) vm(1) dictValues_ok(1) [OF own] stuck [of "generatePatchesFromFDEAndState n env fdes" st] by auto
  qed
qed simp

theorem cfa_rule_stops_patching_witness:
  "\<exists>e. generatePatchesFromFDEAndState 1 sample_env []
     (fde_of [(with_reg DW_CFA_def_cfa \<lparr>reg_type = ERT_CURR_TARG_OLD, reg_size = 4, reg_u = 0\<rparr>)\<lparr>ri_arg2 := 8\<rparr>])
     \<lparr>currAddrOld = 2, currAddrNew = 12, cfaValue = 0\<rparr> sample_state = Inl e"
proof -
  let ?i = "(with_reg DW_CFA_def_cfa \<lparr>reg_type = ERT_CURR_TARG_OLD, reg_size = 4, reg_u = 0\<rparr>)\<lparr>ri_arg2 := 8\<rparr>"
  obtain r where r: "spec_eval sample_cie [?i] 0 0 Map.empty [] = Inr (([''{CFA}'' \<mapsto> r], []), 0)" "rule_type r = ERRT_CFA"
    by (simp add: with_reg_def zero_inst_def zero_reg_def spec_rule_def rule_reg_def strForReg_def rule_effect_def
        zero_rule_def)
  show ?thesis
    by (rule cfa_rule_stops_patching [of _ sample_cie _ "[''{CFA}'' \<mapsto> r]" "[]" 0])
      (use r in \<open>simp_all add: fde_of_def sample_state_def\<close>)
qed

end
