(* ===== verification/C_Sorting.thy ===== *)
theory C_Sorting
  imports Katana_Prelude "HOL-Library.Multiset"
begin

text \<open>
  What the callers of a comparison sort rely on.  A comparison function in the C manner returns a number
  that is at most zero when its arguments are in order; nothing is promised when it does not order
  the elements.
\<close>

definition in_order :: "('a \<Rightarrow> 'a \<Rightarrow> int) \<Rightarrow> 'a \<Rightarrow> 'a \<Rightarrow> bool" where
  "in_order compar x y \<longleftrightarrow> compar x y \<le> 0"

definition orders :: "('a \<Rightarrow> 'a \<Rightarrow> int) \<Rightarrow> 'a set \<Rightarrow> bool" where
  "orders compar A \<longleftrightarrow>
     (\<forall>x\<in>A. \<forall>y\<in>A. in_order compar x y \<or> in_order compar y x) \<and>
     (\<forall>x\<in>A. \<forall>y\<in>A. \<forall>z\<in>A. in_order compar x y \<longrightarrow> in_order compar y z \<longrightarrow> in_order compar x z)"

lemma orders_subset: "orders compar B \<Longrightarrow> A \<subseteq> B \<Longrightarrow> orders compar A"
  unfolding orders_def by blast

lemma orders_total: "orders compar A \<Longrightarrow> x \<in> A \<Longrightarrow> y \<in> A \<Longrightarrow> \<not> in_order compar x y \<Longrightarrow> in_order compar y x"
  unfolding orders_def by blast

lemma orders_trans:
  "orders compar A \<Longrightarrow> x \<in> A \<Longrightarrow> y \<in> A \<Longrightarrow> z \<in> A \<Longrightarrow> in_order compar x y \<Longrightarrow> in_order compar y z \<Longrightarrow> in_order compar x z"
  unfolding orders_def by blast

text \<open>The comparison of a key.\<close>

definition compares_key :: "('a \<Rightarrow> 'a \<Rightarrow> int) \<Rightarrow> ('a \<Rightarrow> 'k::linorder) \<Rightarrow> 'a set \<Rightarrow> bool" where
  "compares_key compar f A \<longleftrightarrow> (\<forall>x\<in>A. \<forall>y\<in>A. in_order compar x y \<longleftrightarrow> f x \<le> f y)"

lemma compares_key_orders: "compares_key compar f A \<Longrightarrow> orders compar A"
  unfolding compares_key_def orders_def by auto

locale comparison_sort =
  fixes srt :: "('a \<Rightarrow> 'a \<Rightarrow> int) \<Rightarrow> 'a list \<Rightarrow> 'a list"
  assumes perm: "mset (srt compar xs) = mset xs"
    and ordered: "orders compar (set xs) \<Longrightarrow> sorted_wrt (in_order compar) (srt compar xs)"
begin

lemma same_set: "set (srt compar xs) = set xs"
  using perm [of compar xs] by (metis set_mset_mset)

lemma same_length: "length (srt compar xs) = length xs"
  using perm [of compar xs] by (metis size_mset)

text \<open>Every such sort gives the same list of keys.\<close>

lemma sorts_keys:
  assumes "compares_key compar f (set xs)"
  shows "map f (srt compar xs) = sort (map f xs)"
proof (rule properties_for_sort [symmetric])
  show "mset (map f (srt compar xs)) = mset (map f xs)" using perm [of compar xs] by simp
  have "sorted_wrt (\<lambda>x y. f x \<le> f y) (srt compar xs)"
  proof (rule sorted_wrt_mono_rel)
    show "sorted_wrt (in_order compar) (srt compar xs)"
      by (rule ordered) (rule compares_key_orders [OF assms])
    show "f x \<le> f y" if "x \<in> set (srt compar xs)" "y \<in> set (srt compar xs)" "in_order compar x y" for x y
      using that assms unfolding same_set compares_key_def by blast
  qed
  then show "sorted (map f (srt compar xs))" by (simp add: sorted_wrt_map)
qed

end

section \<open>The C library's sort\<close>

text \<open>
  \<^verbatim>\<open>qsort\<close> as a stable sort: on elements that the comparison orders strictly any correct sort gives this
  list.
\<close>

fun insert_by :: "('a \<Rightarrow> 'a \<Rightarrow> int) \<Rightarrow> 'a \<Rightarrow> 'a list \<Rightarrow> 'a list" where
  "insert_by compar x [] = [x]"
| "insert_by compar x (y # ys) = (if compar x y \<le> 0 then x # y # ys else y # insert_by compar x ys)"

fun qsort :: "('a \<Rightarrow> 'a \<Rightarrow> int) \<Rightarrow> 'a list \<Rightarrow> 'a list" where
  "qsort compar [] = []"
| "qsort compar (x # xs) = insert_by compar x (qsort compar xs)"

lemma mset_insert_by: "mset (insert_by compar x ys) = add_mset x (mset ys)"
  by (induction ys) auto

lemma set_insert_by: "set (insert_by compar x ys) = insert x (set ys)"
  by (induction ys) auto

lemma sorted_insert_by:
  "orders compar (insert x (set ys)) \<Longrightarrow> sorted_wrt (in_order compar) ys \<Longrightarrow>
   sorted_wrt (in_order compar) (insert_by compar x ys)"
proof (induction ys)
  case (Cons y ys)
  have sub: "orders compar (insert x (set ys))" by (rule orders_subset [OF Cons.prems(1)]) auto
  show ?case
  proof (cases "in_order compar x y")
    case True
    then have "in_order compar x z" if "z \<in> set ys" for z
      using orders_trans [OF Cons.prems(1), of x y z] Cons.prems(2) that by simp
    with True Cons.prems(2) show ?thesis by (auto simp: in_order_def)
  next
    case False
    then have "in_order compar y x" using orders_total [OF Cons.prems(1), of x y] by simp
    with False Cons.IH [OF sub] Cons.prems(2) show ?thesis by (auto simp: in_order_def set_insert_by)
  qed
qed simp

lemma mset_qsort: "mset (qsort compar xs) = mset xs"
  by (induction xs) (simp_all add: mset_insert_by)

lemma sorted_qsort: "orders compar (set xs) \<Longrightarrow> sorted_wrt (in_order compar) (qsort compar xs)"
proof (induction xs)
  case (Cons x xs)
  have "orders compar (set xs)" by (rule orders_subset [OF Cons.prems]) auto
  moreover have "set (qsort compar xs) = set xs" using mset_qsort by (metis set_mset_mset)
  ultimately show ?case using Cons sorted_insert_by [of compar x "qsort compar xs"] by simp
qed simp

interpretation c_qsort: comparison_sort qsort
  by unfold_locales (rule mset_qsort, rule sorted_qsort)

end
