(* ===== verification/Frame_Section.thy ===== *)
theory Frame_Section
  imports Except_Table C_Sorting
begin

text \<open>
  The whole call frame section: \<^verbatim>\<open>buildCallFrameSectionData\<close> of \<^verbatim>\<open>src/src/callFrameInfo.c\<close> puts the CIEs
  and the FDEs one behind the other, and for \<^verbatim>\<open>.eh_frame\<close> writes the exception tables first and the
  search table \<^verbatim>\<open>.eh_frame_hdr\<close> last.
\<close>

section \<open>Data\<close>

text \<open>The fields of \<^verbatim>\<open>SectionHeaderData\<close> that are not always zero.\<close>

record SectionHeaderData =
  shd_name :: string
  shd_type :: nat
  shd_flags :: nat
  shd_addr :: addr_t
  shd_size :: nat
  shd_addralign :: nat

definition zero_header :: SectionHeaderData where
  "zero_header = \<lparr>shd_name = [], shd_type = 0, shd_flags = 0, shd_addr = 0, shd_size = 0, shd_addralign = 0\<rparr>"

abbreviation (input) SHT_PROGBITS :: nat where "SHT_PROGBITS \<equiv> 1"
abbreviation (input) SHF_ALLOC :: nat where "SHF_ALLOC \<equiv> 2"
abbreviation (input) WORDSIZE :: nat where "WORDSIZE \<equiv> 64"
abbreviation (input) EH_FRAME_HDR_VERSION :: byte where "EH_FRAME_HDR_VERSION \<equiv> 1"

definition section_header :: "string \<Rightarrow> addr_t \<Rightarrow> nat \<Rightarrow> nat \<Rightarrow> SectionHeaderData" where
  "section_header name addr len align =
     \<lparr>shd_name = name, shd_type = SHT_PROGBITS, shd_flags = SHF_ALLOC, shd_addr = addr, shd_size = len,
      shd_addralign = align\<rparr>"

record CallFrameSectionData =
  ehData :: "byte list"
  ehShdr :: SectionHeaderData
  ehHdrData :: "byte list option"
  ehHShdr :: SectionHeaderData
  gccExceptTableData :: "byte list"
  gccExceptTableShdr :: SectionHeaderData

record EhFrameHdrTableEntry =
  initialLocation :: "32 word"
  fdeAddress :: "32 word"

text \<open>The subtraction is one of 32-bit integers.\<close>

definition compareEhFrameHdrTableEntries :: "EhFrameHdrTableEntry \<Rightarrow> EhFrameHdrTableEntry \<Rightarrow> int" where
  "compareEhFrameHdrTableEntries a b = sint (initialLocation a - initialLocation b)"

section \<open>The entries\<close>

text \<open>\<open>junk i\<close> is what the writer of the \<open>i\<close>th CIE finds on its stack.\<close>

fun build_cies :: "nat \<Rightarrow> (nat \<Rightarrow> byte list) \<Rightarrow> CallFrameInfo \<Rightarrow> CIE list \<Rightarrow> nat \<Rightarrow> GrowingBuffer \<Rightarrow>
  (GrowingBuffer \<times> uint list) result" where
  "build_cies bitwidth junk cfi [] i buf = Inr (buf, [])"
| "build_cies bitwidth junk cfi (cie # cies) i buf =
     bindE (buildCIERawData bitwidth (junk i) cie buf cfi) (\<lambda>buf1.
     bindE (build_cies bitwidth junk cfi cies (i + 1) buf1) (\<lambda>(buf2, offsets).
       Inr (buf2, of_nat (gb_len buf) # offsets)))"

fun build_fdes :: "nat \<Rightarrow> CallFrameInfo \<Rightarrow> FDE list \<Rightarrow> uint list \<Rightarrow> addr_t list option \<Rightarrow> GrowingBuffer \<Rightarrow>
  (GrowingBuffer \<times> uint list) result" where
  "build_fdes bitwidth cfi [] cieOffsets lsdaPointers buf = Inr (buf, [])"
| "build_fdes bitwidth cfi (fde # fdes) cieOffsets lsdaPointers buf =
     bindE (buildFDERawData bitwidth cfi fde cieOffsets lsdaPointers buf) (\<lambda>buf1.
     bindE (build_fdes bitwidth cfi fdes cieOffsets lsdaPointers buf1) (\<lambda>(buf2, offsets).
       Inr (buf2, of_nat (gb_len buf) # offsets)))"

section \<open>The search table\<close>

definition hdr_header :: "nat \<Rightarrow> CallFrameInfo \<Rightarrow> byte list result" where
  "hdr_header bitwidth cfi =
     (let enc = of_nat DW_EH_PE_sdata4 OR of_nat DW_EH_PE_pcrel :: byte in
      bindE (encodeEHPointerFromEncoding bitwidth (ehAddress cfi) enc (ehHdrAddress cfi + 4)) (\<lambda>(p, numBytesOut).
      bindE (guardE (numBytesOut = 4) AssertFail) (\<lambda>_.
        Inr ([EH_FRAME_HDR_VERSION, enc, of_nat DW_EH_PE_udata4, hdrTableEncoding cfi] @
             word_bytes 4 (ucast p :: 32 word) @ word_bytes 4 (of_nat (length (cfi_fdes cfi)) :: 32 word)))))"

definition hdr_entry :: "CallFrameInfo \<Rightarrow> FDE \<Rightarrow> uint \<Rightarrow> EhFrameHdrTableEntry" where
  "hdr_entry cfi fde offset =
     \<lparr>initialLocation = ucast (scast (fde_lowpc fde) - ehHdrAddress cfi),
      fdeAddress = ucast (ehAddress cfi + ucast offset - ehHdrAddress cfi)\<rparr>"

definition hdr_table :: "CallFrameInfo \<Rightarrow> uint list \<Rightarrow> EhFrameHdrTableEntry list" where
  "hdr_table cfi fdeOffsets = qsort compareEhFrameHdrTableEntries (map2 (hdr_entry cfi) (cfi_fdes cfi) fdeOffsets)"

definition hdr_chunks :: "EhFrameHdrTableEntry list \<Rightarrow> (byte list \<times> nat) list" where
  "hdr_chunks table = concat (map (\<lambda>e. [(word_bytes 4 (initialLocation e), 4), (word_bytes 4 (fdeAddress e), 4)]) table)"

definition build_hdr :: "nat \<Rightarrow> CallFrameInfo \<Rightarrow> uint list \<Rightarrow> byte list result" where
  "build_hdr bitwidth cfi fdeOffsets =
     bindE (hdr_header bitwidth cfi) (\<lambda>header.
     bindE (add_chunks empty_buffer ((header, 12) # hdr_chunks (hdr_table cfi fdeOffsets))) (\<lambda>buf.
       Inr (gb_contents buf)))"

section \<open>The section\<close>

definition build_except_part :: "nat \<Rightarrow> CallFrameInfo \<Rightarrow> (byte list \<times> SectionHeaderData \<times> addr_t list option) result" where
  "build_except_part bitwidth cfi =
     (if isEHFrame cfi \<and> exceptTable cfi \<noteq> None then
        bindE (buildExceptTableRawData bitwidth cfi empty_buffer) (\<lambda>(buf, lsdaPointers).
          Inr (gb_contents buf, section_header ''.gcc_except_table'' (exceptTableAddress cfi) (gb_len buf) 4,
               Some lsdaPointers))
      else Inr ([], zero_header, None))"

text \<open>The first buffer is the fresh memory of a \<^verbatim>\<open>malloc\<close>; none of its bytes is read before it is written.\<close>

definition buildCallFrameSectionData ::
  "nat \<Rightarrow> (nat \<Rightarrow> byte list) \<Rightarrow> CallFrameInfo \<Rightarrow> CallFrameSectionData result" where
  "buildCallFrameSectionData bitwidth junk cfi =
     bindE (build_except_part bitwidth cfi) (\<lambda>(exceptData, exceptHeader, lsdaPointers).
     let buf = \<lparr>gb_data = replicate 10000 0, gb_len = 0, gb_allocated = 10000\<rparr> in
     bindE (build_cies bitwidth junk cfi (cfi_cies cfi) 0 buf) (\<lambda>(buf, cieOffsets).
     bindE (build_fdes bitwidth cfi (cfi_fdes cfi) cieOffsets lsdaPointers buf) (\<lambda>(buf, fdeOffsets).
     bindE (if isEHFrame cfi then bindE (build_hdr bitwidth cfi fdeOffsets) (\<lambda>h. Inr (Some h)) else Inr None) (\<lambda>hdr.
       Inr \<lparr>ehData = gb_contents buf,
            ehShdr = section_header ''.eh_frame'' (ehAddress cfi) (gb_len buf) WORDSIZE,
            ehHdrData = hdr,
            ehHShdr = (case hdr of None \<Rightarrow> zero_header
                       | Some h \<Rightarrow> section_header ''.eh_frame_hdr'' (ehHdrAddress cfi) (length h) 4),
            gccExceptTableData = exceptData, gccExceptTableShdr = exceptHeader\<rparr>))))"

end
