(* ===== verification/Frame_Section_Properties.thy ===== *)
theory Frame_Section_Properties
  imports Frame_Section
begin

text \<open>
  The call frame section as a whole: every entry is where the search table says it is, and every FDE
  finds its CIE.
\<close>

section \<open>Entries and their offsets\<close>

fun offsets_of :: "nat \<Rightarrow> 'a list list \<Rightarrow> nat list" where
  "offsets_of k [] = []"
| "offsets_of k (bs # bss) = k # offsets_of (k + length bs) bss"

lemma length_offsets_of [simp]: "length (offsets_of k bss) = length bss"
  by (induction bss arbitrary: k) auto

lemma nth_offsets_of: "i < length bss \<Longrightarrow> offsets_of k bss ! i = k + length (concat (take i bss))"
  by (induction bss arbitrary: k i) (auto simp: nth_Cons' take_Cons' split: if_splits)

abbreviation uint_offsets :: "nat \<Rightarrow> byte list list \<Rightarrow> uint list" where
  "uint_offsets k bss \<equiv> map of_nat (offsets_of k bss)"

lemma build_cies_ok:
  assumes "\<And>i. length (junk i) = 32"
  shows "gb_wf buf \<Longrightarrow> \<forall>cie\<in>set cies. cie_writable bitwidth cie \<Longrightarrow>
    \<exists>buf' bss. build_cies bitwidth junk cfi cies i buf = Inr (buf', uint_offsets (gb_len buf) bss) \<and>
      gb_wf buf' \<and> gb_contents buf' = gb_contents buf @ concat bss \<and>
      list_all2 (\<lambda>cie bs. frame_entry_ok (cie_addressSize cie) bs) cies bss"
proof (induction cies arbitrary: i buf)
  case Nil
  then show ?case by (intro exI [of _ buf] exI [of _ "[]"]) simp
next
  case (Cons cie cies)
  obtain buf1 bs where 1: "buildCIERawData bitwidth (junk i) cie buf cfi = Inr buf1" "gb_wf buf1"
      "gb_contents buf1 = gb_contents buf @ bs" "frame_entry_ok (cie_addressSize cie) bs"
    using cie_entry [OF Cons.prems(1) _ assms, of bitwidth cie i cfi] Cons.prems(2) by auto
  have len: "gb_len buf1 = gb_len buf + length bs"
    using arg_cong [OF 1(3), of length] length_gb_contents [OF 1(2)] length_gb_contents [OF Cons.prems(1)] by simp
  obtain buf2 bss where 2: "build_cies bitwidth junk cfi cies (i + 1) buf1 = Inr (buf2, uint_offsets (gb_len buf1) bss)"
      "gb_wf buf2" "gb_contents buf2 = gb_contents buf1 @ concat bss"
      "list_all2 (\<lambda>cie bs. frame_entry_ok (cie_addressSize cie) bs) cies bss"
    using Cons.IH [OF 1(2)] Cons.prems(2) by (metis list.set_intros(2))
  show ?case
    using 1 2 len by (intro exI [of _ buf2] exI [of _ "bs # bss"]) simp
qed

text \<open>An FDE: its length, and the distance back to its CIE.\<close>

definition fde_entry_ok :: "uint list \<Rightarrow> nat \<Rightarrow> FDE \<Rightarrow> byte list \<Rightarrow> bool" where
  "fde_entry_ok cieOffsets k fde bs \<longleftrightarrow>
     (\<exists>cie. fde_cie fde = Some cie \<and> frame_entry_ok (cie_addressSize cie) bs \<and>
       le_word (take 4 (drop 4 bs)) = of_nat (k + 4) - cieOffsets ! cie_idx cie)"

lemma build_fdes_ok:
  assumes "isEHFrame cfi"
  shows "gb_wf buf \<Longrightarrow>
    \<forall>fde\<in>set fdes. \<exists>cie. fde_cie fde = Some cie \<and> fde_writable bitwidth cfi cie fde cieOffsets lsdaPointers \<Longrightarrow>
    \<exists>buf' bss. build_fdes bitwidth cfi fdes cieOffsets lsdaPointers buf = Inr (buf', uint_offsets (gb_len buf) bss) \<and>
      gb_wf buf' \<and> gb_contents buf' = gb_contents buf @ concat bss \<and> length bss = length fdes \<and>
      (\<forall>j<length fdes. fde_entry_ok cieOffsets (offsets_of (gb_len buf) bss ! j) (fdes ! j) (bss ! j))"
proof (induction fdes arbitrary: buf)
  case Nil
  then show ?case by (intro exI [of _ buf] exI [of _ "[]"]) simp
next
  case (Cons fde fdes)
  obtain cie where cie: "fde_cie fde = Some cie" "fde_writable bitwidth cfi cie fde cieOffsets lsdaPointers"
    using Cons.prems(2) by auto
  obtain buf1 bs where 1: "buildFDERawData bitwidth cfi fde cieOffsets lsdaPointers buf = Inr buf1" "gb_wf buf1"
      "gb_contents buf1 = gb_contents buf @ bs" "frame_entry_ok (cie_addressSize cie) bs"
      "le_word (take 4 (drop 4 bs)) = of_nat (gb_len buf) + 4 - cieOffsets ! cie_idx cie"
    using fde_entry [OF Cons.prems(1) cie] assms by auto
  have len: "gb_len buf1 = gb_len buf + length bs"
    using arg_cong [OF 1(3), of length] length_gb_contents [OF 1(2)] length_gb_contents [OF Cons.prems(1)] by simp
  obtain buf2 bss where 2: "build_fdes bitwidth cfi fdes cieOffsets lsdaPointers buf1 = Inr (buf2, uint_offsets (gb_len buf1) bss)"
      "gb_wf buf2" "gb_contents buf2 = gb_contents buf1 @ concat bss" "length bss = length fdes"
      "\<forall>j<length fdes. fde_entry_ok cieOffsets (offsets_of (gb_len buf1) bss ! j) (fdes ! j) (bss ! j)"
    using Cons.IH [OF 1(2)] Cons.prems(2) by (metis list.set_intros(2))
  have "fde_entry_ok cieOffsets (gb_len buf) fde bs"
    using cie(1) 1(4,5) by (simp add: fde_entry_ok_def)
  then have "\<forall>j<length (fde # fdes). fde_entry_ok cieOffsets (offsets_of (gb_len buf) (bs # bss) ! j)
      ((fde # fdes) ! j) ((bs # bss) ! j)"
    using 2(5) len by (auto simp: nth_Cons')
  then show ?case
    using 1 2 len by (intro exI [of _ buf2] exI [of _ "bs # bss"]) simp
qed

section \<open>The search table\<close>

lemma sint_diff:
  fixes a b :: "32 word"
  assumes "\<bar>sint a - sint b\<bar> < 2 ^ 31"
  shows "sint (a - b) = sint a - sint b"
  using assms by (simp add: sint_word_ariths(2) signed_take_bit_int_eq_self abs_less_iff)

lemma compare_locations:
  assumes "\<forall>x\<in>A. \<forall>y\<in>A. \<bar>sint (initialLocation x) - sint (initialLocation y)\<bar> < 2 ^ 31"
  shows "compares_key compareEhFrameHdrTableEntries (\<lambda>e. sint (initialLocation e)) A"
  using assms sint_diff by (auto simp: compares_key_def in_order_def compareEhFrameHdrTableEntries_def)

definition entry_bytes :: "EhFrameHdrTableEntry \<Rightarrow> byte list" where
  "entry_bytes e = word_bytes 4 (initialLocation e) @ word_bytes 4 (fdeAddress e)"

lemma hdr_chunks_bytes: "concat (map (\<lambda>(src, n). take n src) (hdr_chunks table)) = concat (map entry_bytes table)"
  by (induction table) (simp_all add: hdr_chunks_def entry_bytes_def)

lemma hdr_chunks_fit: "list_all (\<lambda>(src, n). n \<le> length src) (hdr_chunks table)"
  by (induction table) (simp_all add: hdr_chunks_def)

definition hdr_front :: "CallFrameInfo \<Rightarrow> byte list" where
  "hdr_front cfi = [1, 0x1B, 3, hdrTableEncoding cfi] @
     word_bytes 4 (ucast (ehAddress cfi - (ehHdrAddress cfi + 4)) :: 32 word) @
     word_bytes 4 (of_nat (length (cfi_fdes cfi)) :: 32 word)"

lemma hdr_header_ok: "hdr_header bitwidth cfi = Inr (hdr_front cfi)"
  by (simp add: hdr_header_def hdr_front_def encodeEHPointerFromEncoding_def getPointerSizeFromEHPointerEncoding_def
      eh_format_def eh_application_def Let_def)

lemma build_hdr_ok:
  "build_hdr bitwidth cfi offs = Inr (hdr_front cfi @ concat (map entry_bytes (hdr_table cfi offs)))"
proof -
  have l: "length (hdr_front cfi) = 12" by (simp add: hdr_front_def)
  obtain buf where "add_chunks empty_buffer ((hdr_front cfi, 12) # hdr_chunks (hdr_table cfi offs)) = Inr buf"
      "gb_contents buf = hdr_front cfi @ concat (map entry_bytes (hdr_table cfi offs))"
    using add_chunks_ok [OF gb_wf_empty, of "(hdr_front cfi, 12) # hdr_chunks (hdr_table cfi offs)"]
      hdr_chunks_fit hdr_chunks_bytes l by auto
  then show ?thesis by (simp add: build_hdr_def hdr_header_ok del: add_chunks.simps)
qed

text \<open>The location that the table gives for an FDE, and the place of its entry in the section.\<close>

definition hdr_location :: "CallFrameInfo \<Rightarrow> FDE \<Rightarrow> 32 word" where
  "hdr_location cfi fde = ucast (scast (fde_lowpc fde) - ehHdrAddress cfi)"

definition entry_at :: "CallFrameInfo \<Rightarrow> byte list list \<Rightarrow> byte list list \<Rightarrow> nat \<Rightarrow> EhFrameHdrTableEntry" where
  "entry_at cfi cieBytes fdeBytes k =
     \<lparr>initialLocation = hdr_location cfi (cfi_fdes cfi ! k),
      fdeAddress = ucast (ehAddress cfi - ehHdrAddress cfi) + of_nat (length (concat cieBytes @ concat (take k fdeBytes)))\<rparr>"

lemma ucast_down:
  fixes a b :: "64 word" and c :: "32 word"
  shows "(ucast (a + b) :: 32 word) = ucast a + ucast b" "(ucast (a - b) :: 32 word) = ucast a - ucast b"
    "(ucast (ucast c :: 64 word) :: 32 word) = c"
proof -
  have e: "(ucast x :: 32 word) = word_of_int (uint x)" for x :: "64 word" by (rule ucast_eq)
  have "a + b = word_of_int (uint a + uint b)" "a - b = word_of_int (uint a - uint b)" by simp_all
  then show "(ucast (a + b) :: 32 word) = ucast a + ucast b" "(ucast (a - b) :: 32 word) = ucast a - ucast b"
    by (simp_all only: ucast_word_of_int_32 e [of a] e [of b] wi_hom_add wi_hom_sub)
  show "(ucast (ucast c :: 64 word) :: 32 word) = c" by (rule bit_word_eqI) (auto simp: bit_simps)
qed

lemma map2_entries:
  assumes "length fdeBytes = length (cfi_fdes cfi)"
  shows "map2 (hdr_entry cfi) (cfi_fdes cfi) (uint_offsets (length (concat cieBytes)) fdeBytes)
    = map (entry_at cfi cieBytes fdeBytes) [0..<length (cfi_fdes cfi)]"
  using assms by (intro nth_equalityI)
    (simp_all add: hdr_entry_def entry_at_def hdr_location_def nth_offsets_of ucast_down algebra_simps)

text \<open>
  C10: whenever the parts of an \<^verbatim>\<open>.eh_frame\<close> section can be written, and the places of its functions
  lie within 2 GB of each other, the section is built: it is the CIEs followed by the FDEs, each a well-formed
  entry, and each FDE's second field leads back to the first byte of its CIE; behind its header, \<^verbatim>\<open>.eh_frame_hdr\<close>
  holds exactly one entry per FDE, which gives the function's place and the place of that FDE in the section,
  both relative to \<^verbatim>\<open>.eh_frame_hdr\<close>, and the entries ascend by the function's place, as a binary search needs.
\<close>

theorem frame_section_searchable:
  assumes "isEHFrame cfi" "build_except_part bitwidth cfi = Inr (exceptData, exceptHeader, lsdaPointers)"
    and junk: "\<And>i. length (junk i) = 32" and "\<forall>cie\<in>set (cfi_cies cfi). cie_writable bitwidth cie"
    and "\<forall>fde\<in>set (cfi_fdes cfi). \<exists>cie. fde_cie fde = Some cie \<and>
      (\<forall>offs. length offs = length (cfi_cies cfi) \<longrightarrow> fde_writable bitwidth cfi cie fde offs lsdaPointers)"
    and near: "\<forall>x\<in>set (cfi_fdes cfi). \<forall>y\<in>set (cfi_fdes cfi).
      \<bar>sint (hdr_location cfi x) - sint (hdr_location cfi y)\<bar> < 2 ^ 31"
  shows "\<exists>res cieBytes fdeBytes table. buildCallFrameSectionData bitwidth junk cfi = Inr res \<and>
    ehData res = concat cieBytes @ concat fdeBytes \<and>
    list_all2 (\<lambda>cie bs. frame_entry_ok (cie_addressSize cie) bs) (cfi_cies cfi) cieBytes \<and>
    length fdeBytes = length (cfi_fdes cfi) \<and>
    (\<forall>j<length (cfi_fdes cfi). \<exists>cie. fde_cie (cfi_fdes cfi ! j) = Some cie \<and>
       frame_entry_ok (cie_addressSize cie) (fdeBytes ! j) \<and>
       le_word (take 4 (drop 4 (fdeBytes ! j))) =
         (of_nat (length (concat cieBytes @ concat (take j fdeBytes)) + 4)
           - of_nat (length (concat (take (cie_idx cie) cieBytes))) :: uint)) \<and>
    ehHdrData res = Some (hdr_front cfi @ concat (map entry_bytes table)) \<and>
    mset table = mset (map (entry_at cfi cieBytes fdeBytes) [0..<length (cfi_fdes cfi)]) \<and>
    sorted (map (\<lambda>e. sint (initialLocation e)) table)"
proof -
  let ?buf = "\<lparr>gb_data = replicate 10000 0, gb_len = 0, gb_allocated = 10000\<rparr>"
  have wf: "gb_wf ?buf" "gb_contents ?buf = []" by (simp_all add: gb_wf_def gb_contents_def)
  obtain buf1 cieBytes where 1: "build_cies bitwidth junk cfi (cfi_cies cfi) 0 ?buf = Inr (buf1, uint_offsets 0 cieBytes)"
      "gb_wf buf1" "gb_contents buf1 = concat cieBytes"
      "list_all2 (\<lambda>cie bs. frame_entry_ok (cie_addressSize cie) bs) (cfi_cies cfi) cieBytes"
    using build_cies_ok [of junk ?buf "cfi_cies cfi" bitwidth cfi 0, OF junk wf(1) assms(4)] wf(2) by auto
  have len: "gb_len buf1 = length (concat cieBytes)" "length cieBytes = length (cfi_cies cfi)"
    using length_gb_contents [OF 1(2)] 1(3) list_all2_lengthD [OF 1(4)] by simp_all
  let ?offs = "uint_offsets 0 cieBytes"
  have "\<forall>fde\<in>set (cfi_fdes cfi). \<exists>cie. fde_cie fde = Some cie \<and> fde_writable bitwidth cfi cie fde ?offs lsdaPointers"
    using assms(5) len(2) by auto
  from build_fdes_ok [OF assms(1) 1(2) this] obtain buf2 fdeBytes where
    2: "build_fdes bitwidth cfi (cfi_fdes cfi) ?offs lsdaPointers buf1 = Inr (buf2, uint_offsets (gb_len buf1) fdeBytes)"
      "gb_contents buf2 = gb_contents buf1 @ concat fdeBytes" "length fdeBytes = length (cfi_fdes cfi)"
      "\<And>j. j < length (cfi_fdes cfi) \<Longrightarrow> fde_entry_ok ?offs (offsets_of (gb_len buf1) fdeBytes ! j) (cfi_fdes cfi ! j) (fdeBytes ! j)"
    by blast
  let ?entries = "map (entry_at cfi cieBytes fdeBytes) [0..<length (cfi_fdes cfi)]"
  let ?table = "qsort compareEhFrameHdrTableEntries ?entries"
  have table: "hdr_table cfi (uint_offsets (gb_len buf1) fdeBytes) = ?table"
    unfolding hdr_table_def len(1) map2_entries [OF 2(3)] ..
  define res where "res = \<lparr>ehData = concat cieBytes @ concat fdeBytes,
            ehShdr = section_header ''.eh_frame'' (ehAddress cfi) (gb_len buf2) WORDSIZE,
            ehHdrData = Some (hdr_front cfi @ concat (map entry_bytes ?table)),
            ehHShdr = section_header ''.eh_frame_hdr'' (ehHdrAddress cfi)
              (length (hdr_front cfi @ concat (map entry_bytes ?table))) 4,
            gccExceptTableData = exceptData, gccExceptTableShdr = exceptHeader\<rparr>"
  have "buildCallFrameSectionData bitwidth junk cfi = Inr res"
    using assms(1,2) 1(1,3) 2(1,2) table by (simp add: buildCallFrameSectionData_def build_hdr_ok res_def Let_def)
  moreover have "\<exists>cie. fde_cie (cfi_fdes cfi ! j) = Some cie \<and> frame_entry_ok (cie_addressSize cie) (fdeBytes ! j) \<and>
       le_word (take 4 (drop 4 (fdeBytes ! j))) = (of_nat (length (concat cieBytes @ concat (take j fdeBytes)) + 4)
           - of_nat (length (concat (take (cie_idx cie) cieBytes))) :: uint)"
    if j: "j < length (cfi_fdes cfi)" for j
  proof -
    obtain cie where cie: "fde_cie (cfi_fdes cfi ! j) = Some cie" "frame_entry_ok (cie_addressSize cie) (fdeBytes ! j)"
        "le_word (take 4 (drop 4 (fdeBytes ! j))) = of_nat (offsets_of (gb_len buf1) fdeBytes ! j + 4) - ?offs ! cie_idx cie"
      using 2(4) [OF j] by (auto simp: fde_entry_ok_def)
    have "fde_writable bitwidth cfi cie (cfi_fdes cfi ! j) ?offs lsdaPointers"
      using assms(5) cie(1) j len(2) by (metis length_map length_offsets_of nth_mem option.inject)
    then have "cie_idx cie < length cieBytes" by (simp add: fde_writable_def)
    with cie j 2(3) len(1) show ?thesis by (intro exI [of _ cie]) (simp add: nth_offsets_of)
  qed
  moreover have "sorted (map (\<lambda>e. sint (initialLocation e)) ?table)"
  proof -
    have "compares_key compareEhFrameHdrTableEntries (\<lambda>e. sint (initialLocation e)) (set ?entries)"
      by (rule compare_locations) (use near in \<open>auto simp: entry_at_def\<close>)
    from c_qsort.sorts_keys [OF this] show ?thesis by simp
  qed
  ultimately show ?thesis
    using 1(4) 2(3)
    by - (rule exI [of _ res], rule exI [of _ cieBytes], rule exI [of _ fdeBytes], rule exI [of _ ?table],
      simp add: res_def c_qsort.perm)
qed

lemma sample_cie_fde_writable:
  "length offs = 1 \<Longrightarrow> fde_writable 64 sample_cfi sample_cie sample_fde offs None"
  using sample_fde_writable by (simp add: fde_writable_def)

theorem frame_section_searchable_witness:
  "\<exists>res entries. buildCallFrameSectionData 64 (\<lambda>_. replicate 32 0) sample_cfi = Inr res \<and> length entries = 8 \<and>
    ehHdrData res = Some (hdr_front sample_cfi @ entries)"
proof -
  have parts: "build_except_part 64 sample_cfi = Inr ([], zero_header, None)" "isEHFrame sample_cfi"
    "cfi_fdes sample_cfi = [sample_fde]" "cfi_cies sample_cfi = [sample_cie]" "fde_cie sample_fde = Some sample_cie"
    by (simp_all add: sample_cfi_def build_except_part_def sample_fde_def)
  obtain res cieBytes fdeBytes table where r:
    "buildCallFrameSectionData 64 (\<lambda>_. replicate 32 0) sample_cfi = Inr res"
    "ehHdrData res = Some (hdr_front sample_cfi @ concat (map entry_bytes table))"
    "mset table = mset (map (entry_at sample_cfi cieBytes fdeBytes) [0..<length (cfi_fdes sample_cfi)])"
    using frame_section_searchable [of sample_cfi 64 "[]" zero_header None "\<lambda>_. replicate 32 0"]
      sample_cie_fde_writable sample_cie_writable unfolding parts(3,4)
    by (auto simp: parts)
  from arg_cong [OF r(3), of size] have "length table = 1" unfolding parts(3) by simp
  then have "length (concat (map entry_bytes table)) = 8" by (auto simp: length_Suc_conv entry_bytes_def)
  with r show ?thesis by blast
qed

end
