(* ===== verification/Linked_List.thy ===== *)
theory Linked_List
  imports Heap_Model C_Sorting
begin

text \<open>
  \<^verbatim>\<open>src/src/util/list.c\<close>: singly linked lists, whose nodes the functions relink in place, and doubly
  linked ones.  The loops over a list have fuel; a list that runs into itself uses up any amount.
\<close>

section \<open>Singly linked lists\<close>

record 'v LNode =
  l_value :: 'v
  l_next :: ptr

text \<open>The values are handed to \<^verbatim>\<open>delFunc\<close> in the order of the list.\<close>

fun deleteList :: "nat \<Rightarrow> 'v LNode heap \<Rightarrow> ptr \<Rightarrow> ('v list \<times> 'v LNode heap) result" where
  "deleteList fuel h None = Inr ([], h)"
| "deleteList 0 h (Some a) = Inl Diverges"
| "deleteList (Suc fuel) h (Some a) =
     bindE (load h (Some a)) (\<lambda>n.
     bindE (free_cell h (Some a)) (\<lambda>h.
     bindE (deleteList fuel h (l_next n)) (\<lambda>(vs, h). Inr (l_value n # vs, h))))"

fun last_from :: "nat \<Rightarrow> 'v LNode heap \<Rightarrow> ptr \<Rightarrow> ptr result" where
  "last_from 0 h p = Inl Diverges"
| "last_from (Suc fuel) h p =
     bindE (load h p) (\<lambda>n. if l_next n \<noteq> None then last_from fuel h (l_next n) else Inr p)"

text \<open>
  When the end of the first list is to be found, the loop runs over the second: \<^verbatim>\<open>l1End\<close> stays the
  first node.
\<close>

definition concatLists ::
  "nat \<Rightarrow> 'v LNode heap \<Rightarrow> ptr \<Rightarrow> ptr \<Rightarrow> ptr \<Rightarrow> ptr \<Rightarrow> ('v LNode heap \<times> ptr \<times> ptr) result" where
  "concatLists fuel h l1Start l1End l2Start l2End =
     (if l1Start = None \<and> l2Start = None then Inr (h, None, None)
      else
        bindE (if l1Start \<noteq> None \<and> l1End = None
               then bindE (last_from fuel h l2End) (\<lambda>l2End. Inr (l1Start, l2End))
               else Inr (l1End, l2End)) (\<lambda>(l1End, l2End).
        bindE (if l2Start \<noteq> None \<and> l2End = None then last_from fuel h l2Start else Inr l2End) (\<lambda>l2End.
          if l1Start = None then Inr (h, l2Start, l2End)
          else if l2Start = None then Inr (h, l1Start, l1End)
          else bindE (update h l1End (\<lambda>n. n\<lparr>l_next := l2Start\<rparr>)) (\<lambda>h. Inr (h, l1Start, l2End)))))"

fun listLength :: "nat \<Rightarrow> 'v LNode heap \<Rightarrow> ptr \<Rightarrow> nat result" where
  "listLength fuel h None = Inr 0"
| "listLength 0 h (Some a) = Inl Diverges"
| "listLength (Suc fuel) h (Some a) =
     bindE (load h (Some a)) (\<lambda>n. bindE (listLength fuel h (l_next n)) (\<lambda>k. Inr (Suc k)))"

section \<open>Merge sort\<close>

definition append_node :: "'v LNode heap \<Rightarrow> ptr \<Rightarrow> ptr \<Rightarrow> ptr \<Rightarrow> ('v LNode heap \<times> ptr \<times> ptr) result" where
  "append_node h res resTail p =
     (if res = None then Inr (h, p, p)
      else bindE (update h resTail (\<lambda>n. n\<lparr>l_next := p\<rparr>)) (\<lambda>h. Inr (h, res, p)))"

text \<open>The first loop ends with both rests, at most one of them a list.\<close>

fun merge_heads :: "nat \<Rightarrow> ('v \<Rightarrow> 'v \<Rightarrow> int) \<Rightarrow> 'v LNode heap \<Rightarrow> ptr \<Rightarrow> ptr \<Rightarrow> ptr \<Rightarrow> ptr \<Rightarrow>
  ('v LNode heap \<times> ptr \<times> ptr \<times> ptr \<times> ptr) result" where
  "merge_heads fuel cmpfunc h (Some a) (Some b) res resTail =
     (case fuel of
        0 \<Rightarrow> Inl Diverges
      | Suc fuel \<Rightarrow>
          bindE (load h (Some a)) (\<lambda>na.
          bindE (load h (Some b)) (\<lambda>nb.
          case (if cmpfunc (l_value na) (l_value nb) \<le> 0 then (a, l_next na, Some b) else (b, Some a, l_next nb)) of
            (next, a', b') \<Rightarrow>
              bindE (update h (Some next) (\<lambda>n. n\<lparr>l_next := None\<rparr>)) (\<lambda>h.
              bindE (append_node h res resTail (Some next)) (\<lambda>(h, res, resTail).
                merge_heads fuel cmpfunc h a' b' res resTail)))))"
| "merge_heads fuel cmpfunc h a b res resTail = Inr (h, a, b, res, resTail)"

fun merge_rest :: "nat \<Rightarrow> 'v LNode heap \<Rightarrow> ptr \<Rightarrow> ptr \<Rightarrow> ptr \<Rightarrow> ('v LNode heap \<times> ptr \<times> ptr) result" where
  "merge_rest fuel h None res resTail = Inr (h, res, resTail)"
| "merge_rest 0 h (Some a) res resTail = Inl Diverges"
| "merge_rest (Suc fuel) h (Some a) res resTail =
     bindE (append_node h res resTail (Some a)) (\<lambda>(h, res, resTail).
     bindE (load h (Some a)) (\<lambda>n. merge_rest fuel h (l_next n) res resTail))"

definition mergeSortedLists :: "nat \<Rightarrow> ('v \<Rightarrow> 'v \<Rightarrow> int) \<Rightarrow> 'v LNode heap \<Rightarrow> ptr \<Rightarrow> ptr \<Rightarrow> ('v LNode heap \<times> ptr) result" where
  "mergeSortedLists fuel cmpfunc h a b =
     bindE (merge_heads fuel cmpfunc h a b None None) (\<lambda>(h, a, b, res, resTail).
     bindE (merge_rest fuel h a res resTail) (\<lambda>(h, res, resTail).
     bindE (merge_rest fuel h b res resTail) (\<lambda>(h, res, resTail). Inr (h, res))))"

text \<open>\<open>n\<close> steps from \<open>p\<close>: the node before the one reached, and the one reached.\<close>

fun advance :: "nat \<Rightarrow> 'v LNode heap \<Rightarrow> ptr \<Rightarrow> ptr \<Rightarrow> (ptr \<times> ptr) result" where
  "advance 0 h before p = Inr (before, p)"
| "advance (Suc n) h before p = bindE (load h p) (\<lambda>x. advance n h p (l_next x))"

fun sortList :: "nat \<Rightarrow> ('v \<Rightarrow> 'v \<Rightarrow> int) \<Rightarrow> 'v LNode heap \<Rightarrow> ptr \<Rightarrow> ('v LNode heap \<times> ptr) result" where
  "sortList 0 cmpfunc h lst = Inl Diverges"
| "sortList (Suc fuel) cmpfunc h lst =
     bindE (listLength fuel h lst) (\<lambda>len.
     let halflen = len div 2 in
     if halflen < 1 then Inr (h, lst)
     else
       bindE (advance halflen h None lst) (\<lambda>(beforeMiddle, middle).
       bindE (update h beforeMiddle (\<lambda>n. n\<lparr>l_next := None\<rparr>)) (\<lambda>h.
       bindE (sortList fuel cmpfunc h lst) (\<lambda>(h, a).
       bindE (sortList fuel cmpfunc h middle) (\<lambda>(h, b).
         mergeSortedLists fuel cmpfunc h a b)))))"

section \<open>Adding nodes\<close>

definition listAppend :: "'v LNode heap \<Rightarrow> ptr \<Rightarrow> ptr \<Rightarrow> nat \<Rightarrow> ('v LNode heap \<times> ptr \<times> ptr) result" where
  "listAppend h head tail li =
     bindE (update h (Some li) (\<lambda>n. n\<lparr>l_next := None\<rparr>)) (\<lambda>h.
     if head \<noteq> None
     then bindE (update h tail (\<lambda>n. n\<lparr>l_next := Some li\<rparr>)) (\<lambda>h. Inr (h, head, Some li))
     else Inr (h, Some li, Some li))"

text \<open>\<open>tail\<close> is \<open>None\<close> when the caller keeps no tail.\<close>

definition listPush :: "'v LNode heap \<Rightarrow> ptr \<Rightarrow> ptr option \<Rightarrow> nat \<Rightarrow> ('v LNode heap \<times> ptr \<times> ptr option) result" where
  "listPush h head tail li =
     bindE (update h (Some li) (\<lambda>n. n\<lparr>l_next := head\<rparr>)) (\<lambda>h.
       Inr (h, Some li, if head = None \<and> tail \<noteq> None then Some (Some li) else tail))"

section \<open>Doubly linked lists\<close>

record 'v DLNode =
  dl_value :: 'v
  dl_next :: ptr
  dl_prev :: ptr

fun deleteDList :: "nat \<Rightarrow> 'v DLNode heap \<Rightarrow> ptr \<Rightarrow> ('v list \<times> 'v DLNode heap) result" where
  "deleteDList fuel h None = Inr ([], h)"
| "deleteDList 0 h (Some a) = Inl Diverges"
| "deleteDList (Suc fuel) h (Some a) =
     bindE (load h (Some a)) (\<lambda>n.
     bindE (free_cell h (Some a)) (\<lambda>h.
     bindE (deleteDList fuel h (dl_next n)) (\<lambda>(vs, h). Inr (dl_value n # vs, h))))"

definition dlistPush :: "'v DLNode heap \<Rightarrow> ptr \<Rightarrow> ptr option \<Rightarrow> nat \<Rightarrow> ('v DLNode heap \<times> ptr \<times> ptr option) result" where
  "dlistPush h head tail li =
     bindE (update h (Some li) (\<lambda>n. n\<lparr>dl_prev := None, dl_next := head\<rparr>)) (\<lambda>h.
     bindE (if head \<noteq> None then update h head (\<lambda>n. n\<lparr>dl_prev := Some li\<rparr>) else Inr h) (\<lambda>h.
       Inr (h, Some li, if head = None \<and> tail \<noteq> None then Some (Some li) else tail)))"

definition dlistAppend :: "'v DLNode heap \<Rightarrow> ptr \<Rightarrow> ptr \<Rightarrow> nat \<Rightarrow> ('v DLNode heap \<times> ptr \<times> ptr) result" where
  "dlistAppend h head tail li =
     bindE (update h (Some li) (\<lambda>n. n\<lparr>dl_next := None, dl_prev := tail\<rparr>)) (\<lambda>h.
     if head \<noteq> None
     then bindE (guardE (tail \<noteq> None) AssertFail) (\<lambda>_.
          bindE (update h tail (\<lambda>n. n\<lparr>dl_next := Some li\<rparr>)) (\<lambda>h. Inr (h, head, Some li)))
     else Inr (h, Some li, Some li))"

text \<open>The \<^verbatim>\<open>next\<close> of the new last node keeps pointing at the node that is freed.\<close>

definition dlistDeleteTail :: "'v DLNode heap \<Rightarrow> ptr \<Rightarrow> ptr \<Rightarrow> ('v DLNode heap \<times> ptr \<times> ptr) result" where
  "dlistDeleteTail h head tail =
     bindE (guardE (tail \<noteq> None) AssertFail) (\<lambda>_.
     bindE (load h tail) (\<lambda>oldTail.
     bindE (free_cell h tail) (\<lambda>h.
       Inr (h, if dl_prev oldTail = None then None else head, dl_prev oldTail))))"

end
