(* ===== verification/Linked_List_Sort.thy ===== *)
theory Linked_List_Sort
  imports Linked_List
begin

text \<open>
  The in-place merge sort of \<^verbatim>\<open>list.c\<close> computes on the nodes what a merge sort of the list of their
  addresses computes, and changes nothing but the links between them.
\<close>

section \<open>Relinking\<close>

definition value_at :: "'v LNode heap \<Rightarrow> nat \<Rightarrow> 'v" where
  "value_at h a = l_value (the (h ! a))"

definition relinks :: "nat set \<Rightarrow> 'v LNode heap \<Rightarrow> 'v LNode heap \<Rightarrow> bool" where
  "relinks A h h' \<longleftrightarrow> length h' = length h \<and>
     (\<forall>a<length h. map_option l_value (h' ! a) = map_option l_value (h ! a) \<and> (a \<notin> A \<longrightarrow> h' ! a = h ! a))"

lemma relinks_refl [simp]: "relinks A h h"
  by (simp add: relinks_def)

lemma relinks_mono: "relinks A h h' \<Longrightarrow> A \<subseteq> B \<Longrightarrow> relinks B h h'"
  by (auto simp: relinks_def)

lemma relinks_trans: "relinks A h h' \<Longrightarrow> relinks A h' h'' \<Longrightarrow> relinks A h h''"
  by (simp add: relinks_def)

lemma relinks_update: "cell h a n \<Longrightarrow> a \<in> A \<Longrightarrow> relinks A h (h[a := Some (n\<lparr>l_next := p\<rparr>)])"
  by (auto simp: relinks_def nth_list_update)

lemma relinks_cell: "relinks A h h' \<Longrightarrow> cell h a n \<Longrightarrow> \<exists>m. cell h' a m \<and> l_value m = l_value n"
  unfolding relinks_def by (metis (no_types, lifting) map_option_eq_Some option.simps(9))

lemma relinks_value: "relinks A h h' \<Longrightarrow> cell h a n \<Longrightarrow> value_at h' a = value_at h a"
  using relinks_cell [of A h h' a n] by (auto simp: value_at_def)

lemma relinks_outside: "relinks A h h' \<Longrightarrow> a < length h \<Longrightarrow> a \<notin> A \<Longrightarrow> h' ! a = h ! a"
  by (simp add: relinks_def)

lemma relinks_seg: "relinks A h h' \<Longrightarrow> set as \<inter> A = {} \<Longrightarrow> seg nxt h p as q \<Longrightarrow> seg nxt h' p as q"
proof (erule seg_frame [rotated])
  fix a assume "relinks A h h'" "set as \<inter> A = {}" "a \<in> set as" "a < length h"
  then show "a < length h' \<and> h' ! a = h ! a"
    using relinks_outside [of A h h' a] by (auto simp: relinks_def)
qed

abbreviation list_at :: "'v LNode heap \<Rightarrow> ptr \<Rightarrow> nat list \<Rightarrow> bool" where
  "list_at h p as \<equiv> seg l_next h p as None"

section \<open>A list under construction\<close>

text \<open>All links but the last node's are in place.\<close>

definition building :: "'v LNode heap \<Rightarrow> ptr \<Rightarrow> ptr \<Rightarrow> nat list \<Rightarrow> bool" where
  "building h res resTail rs \<longleftrightarrow>
     (if rs = [] then res = None
      else resTail = Some (last rs) \<and> seg l_next h res (butlast rs) resTail \<and> (\<exists>n. cell h (last rs) n))"

definition closed :: "'v LNode heap \<Rightarrow> nat list \<Rightarrow> bool" where
  "closed h rs \<longleftrightarrow> rs \<noteq> [] \<longrightarrow> l_next (the (h ! last rs)) = None"

lemma building_closed: "building h res resTail rs \<Longrightarrow> closed h rs \<Longrightarrow> list_at h res rs"
  by (cases rs rule: rev_cases) (auto simp: building_def closed_def seg_append)

lemma building_seg: "building h res resTail rs \<Longrightarrow> rs \<noteq> [] \<Longrightarrow> \<exists>q. seg l_next h res rs q"
  by (cases rs rule: rev_cases) (auto simp: building_def seg_append)

lemma building_frame:
  "(\<And>a. a \<in> set rs \<Longrightarrow> h' ! a = h ! a) \<Longrightarrow> length h' = length h \<Longrightarrow> building h res resTail rs \<Longrightarrow> building h' res resTail rs"
  by (cases rs rule: rev_cases) (auto simp: building_def intro: seg_frame [rotated])

lemma append_node_ok:
  assumes b: "building h res resTail rs" and x: "cell h x nx" and d: "distinct (rs @ [x])"
  shows "\<exists>h' res'. append_node h res resTail (Some x) = Inr (h', res', Some x) \<and> building h' res' (Some x) (rs @ [x]) \<and>
    relinks (set rs) h h'"
proof (cases "rs = []")
  case True
  then show ?thesis using b x by (simp add: append_node_def building_def)
next
  case False
  then have t: "resTail = Some (last rs)" "seg l_next h res (butlast rs) resTail" using b by (auto simp: building_def)
  obtain n where n: "cell h (last rs) n" using b False by (auto simp: building_def)
  obtain q where q: "seg l_next h res rs q" using building_seg [OF b False] by blast
  have rs: "rs = butlast rs @ [last rs]" using False by simp
  have res: "res \<noteq> None" using q False by (cases rs) auto
  let ?h = "h[last rs := Some (n\<lparr>l_next := Some x\<rparr>)]"
  have "append_node h res resTail (Some x) = Inr (?h, res, Some x)"
    using res n t(1) by (simp add: append_node_def)
  moreover have "seg l_next ?h res rs (Some x)"
  proof -
    have "last rs \<notin> set (butlast rs)" using d rs by (metis distinct_append distinct_butlast not_distinct_conv_prefix append_butlast_last_id)
    then show ?thesis
      using seg_redirect [of l_next h res "butlast rs" "last rs" q n "\<lambda>n. n\<lparr>l_next := Some x\<rparr>" "Some x"] q n rs by simp
  qed
  moreover have "cell ?h x nx"
  proof -
    have "last rs \<noteq> x" using d False by (metis distinct_append disjoint_iff last_in_set list.set_intros(1))
    with x show ?thesis by simp
  qed
  moreover have "relinks (set rs) h ?h" using n False by (intro relinks_update) auto
  ultimately show ?thesis by (auto simp: building_def)
qed

section \<open>Merging\<close>

fun merge_by :: "('a \<Rightarrow> 'a \<Rightarrow> int) \<Rightarrow> 'a list \<Rightarrow> 'a list \<Rightarrow> 'a list" where
  "merge_by compar [] ys = ys"
| "merge_by compar xs [] = xs"
| "merge_by compar (x # xs) (y # ys) =
     (if compar x y \<le> 0 then x # merge_by compar xs (y # ys) else y # merge_by compar (x # xs) ys)"

lemma merge_by_Nil2 [simp]: "merge_by compar xs [] = xs"
  by (cases xs) auto

lemma set_merge_by: "set (merge_by compar xs ys) = set xs \<union> set ys"
  by (induction compar xs ys rule: merge_by.induct) auto

text \<open>The comparison of two nodes.\<close>

abbreviation node_cmp :: "('v \<Rightarrow> 'v \<Rightarrow> int) \<Rightarrow> (nat \<Rightarrow> 'v) \<Rightarrow> nat \<Rightarrow> nat \<Rightarrow> int" where
  "node_cmp cmpfunc val a b \<equiv> cmpfunc (val a) (val b)"

text \<open>One round of the first loop: the node taken is unlinked and appended.\<close>

lemma take_node:
  assumes x: "list_at h (Some x) (x # xs)" and b: "building h res resTail rs" and d: "distinct (rs @ x # xs @ zs)"
    and zs: "list_at h q zs"
  shows "\<exists>h1 h2 res' nx. cell h x nx \<and> update h (Some x) (\<lambda>n. n\<lparr>l_next := None\<rparr>) = Inr h1 \<and>
    append_node h1 res resTail (Some x) = Inr (h2, res', Some x) \<and>
    building h2 res' (Some x) (rs @ [x]) \<and> closed h2 (rs @ [x]) \<and> relinks (set (rs @ [x])) h h2 \<and>
    list_at h2 (l_next nx) xs \<and> list_at h2 q zs"
proof -
  obtain nx where nx: "cell h x nx" "list_at h (l_next nx) xs" using x by auto
  let ?h1 = "h[x := Some (nx\<lparr>l_next := None\<rparr>)]"
  have "building ?h1 res resTail rs"
  proof (rule building_frame [OF _ _ b])
    fix a assume "a \<in> set rs"
    then have "x \<noteq> a" using d by auto
    then show "h[x := Some (nx\<lparr>l_next := None\<rparr>)] ! a = h ! a" by simp
  qed simp
  moreover have c1: "cell ?h1 x (nx\<lparr>l_next := None\<rparr>)" using nx by simp
  ultimately obtain h2 res' where
    h2: "append_node ?h1 res resTail (Some x) = Inr (h2, res', Some x)" "building h2 res' (Some x) (rs @ [x])"
      "relinks (set rs) ?h1 h2"
    using append_node_ok [of ?h1 res resTail rs x] d by auto
  have r1: "relinks (set (rs @ [x])) h ?h1" using nx(1) by (intro relinks_update) auto
  have r: "relinks (set (rs @ [x])) h h2"
    by (rule relinks_trans [OF r1]) (rule relinks_mono [OF h2(3)], auto)
  have "h2 ! x = ?h1 ! x" using relinks_outside [OF h2(3), of x] nx(1) d by auto
  then have "closed h2 (rs @ [x])" using c1 by (simp add: closed_def)
  moreover have "list_at h2 (l_next nx) xs" by (rule relinks_seg [OF r _ nx(2)]) (use d in auto)
  moreover have "list_at h2 q zs" by (rule relinks_seg [OF r _ zs]) (use d in auto)
  ultimately show ?thesis using nx(1) h2 r by auto
qed

lemma merge_heads_ok:
  "length as + length bs \<le> fuel \<Longrightarrow> list_at h a as \<Longrightarrow> list_at h b bs \<Longrightarrow> building h res resTail rs \<Longrightarrow> closed h rs \<Longrightarrow>
   distinct (rs @ as @ bs) \<Longrightarrow> (\<And>x. x \<in> set (as @ bs) \<Longrightarrow> value_at h x = val x) \<Longrightarrow>
   \<exists>h' a' b' res' resTail' ms as' bs'.
     merge_heads fuel cmpfunc h a b res resTail = Inr (h', a', b', res', resTail') \<and>
     relinks (set (rs @ as @ bs)) h h' \<and> list_at h' a' as' \<and> list_at h' b' bs' \<and> (as' = [] \<or> bs' = []) \<and>
     building h' res' resTail' (rs @ ms) \<and> closed h' (rs @ ms) \<and>
     ms @ as' @ bs' = merge_by (node_cmp cmpfunc val) as bs"
proof (induction fuel arbitrary: h a b res resTail rs as bs)
  case 0
  then show ?case by (cases a; cases b) (auto intro!: exI [of _ "[]"])
next
  case (Suc fuel)
  show ?case
  proof (cases "as = [] \<or> bs = []")
    case True
    then have "merge_heads (Suc fuel) cmpfunc h a b res resTail = Inr (h, a, b, res, resTail)"
      using Suc.prems(2,3) by (cases a; cases b) auto
    with Suc.prems True show ?thesis
      by - (rule exI [of _ h], rule exI [of _ a], rule exI [of _ b], rule exI [of _ res], rule exI [of _ resTail],
        rule exI [of _ "[]"], rule exI [of _ as], rule exI [of _ bs], elim disjE, simp_all)
  next
    case False
    then obtain x xs y ys where as: "as = x # xs" "a = Some x" and bs: "bs = y # ys" "b = Some y"
      using Suc.prems(2,3) by (cases as; cases bs) auto
    obtain nx ny where n: "cell h x nx" "cell h y ny" using Suc.prems(2,3) as bs by auto
    then have v: "l_value nx = val x" "l_value ny = val y"
      using Suc.prems(7) [of x] Suc.prems(7) [of y] as bs by (auto simp: value_at_def)
    have vals: "value_at h2 z = val z" if "relinks A h h2" "z \<in> set (as @ bs)" for A z h2
    proof -
      have "\<exists>n. cell h z n" using that(2) seg_in_heap [OF Suc.prems(2)] seg_in_heap [OF Suc.prems(3)] by auto
      then show ?thesis using relinks_value [OF that(1)] Suc.prems(7) [OF that(2)] by auto
    qed
    show ?thesis
    proof (cases "cmpfunc (val x) (val y) \<le> 0")
      case True
      have "distinct (rs @ x # xs @ bs)" using Suc.prems(6) as by auto
      from take_node [OF _ Suc.prems(4) this Suc.prems(3)] Suc.prems(2) as obtain h1 h2 res2 nx' where
        t: "cell h x nx'" "update h (Some x) (\<lambda>n. n\<lparr>l_next := None\<rparr>) = Inr h1"
          "append_node h1 res resTail (Some x) = Inr (h2, res2, Some x)" "building h2 res2 (Some x) (rs @ [x])"
          "closed h2 (rs @ [x])" "relinks (set (rs @ [x])) h h2" "list_at h2 (l_next nx') xs" "list_at h2 b bs" by auto
      have "nx' = nx" using t(1) n(1) by simp
      then have run: "merge_heads (Suc fuel) cmpfunc h a b res resTail = merge_heads fuel cmpfunc h2 (l_next nx) b res2 (Some x)"
        using n v True t(2,3) as(2) bs(2) by (simp add: load_def elem_at_def)
      have "\<exists>h' a' b' res' resTail' ms as' bs'.
         merge_heads fuel cmpfunc h2 (l_next nx) b res2 (Some x) = Inr (h', a', b', res', resTail') \<and>
         relinks (set ((rs @ [x]) @ xs @ bs)) h2 h' \<and> list_at h' a' as' \<and> list_at h' b' bs' \<and> (as' = [] \<or> bs' = []) \<and>
         building h' res' resTail' ((rs @ [x]) @ ms) \<and> closed h' ((rs @ [x]) @ ms) \<and>
         ms @ as' @ bs' = merge_by (node_cmp cmpfunc val) xs bs"
        by (rule Suc.IH) (use Suc.prems(1,6) as t \<open>nx' = nx\<close> vals [OF t(6)] in auto)
      then obtain h' a' b' res' resTail' ms as' bs' where
        i: "merge_heads fuel cmpfunc h2 (l_next nx) b res2 (Some x) = Inr (h', a', b', res', resTail')"
          "relinks (set ((rs @ [x]) @ xs @ bs)) h2 h'" "list_at h' a' as'" "list_at h' b' bs'" "as' = [] \<or> bs' = []"
          "building h' res' resTail' ((rs @ [x]) @ ms)" "closed h' ((rs @ [x]) @ ms)"
          "ms @ as' @ bs' = merge_by (node_cmp cmpfunc val) xs bs" by blast
      have "relinks (set (rs @ as @ bs)) h h'"
        by (rule relinks_trans [of _ h h2]) (rule relinks_mono [OF t(6)] relinks_mono [OF i(2)], use as in auto)+
      then show ?thesis
        unfolding run using i as bs True
        by - (rule exI [of _ h'], rule exI [of _ a'], rule exI [of _ b'], rule exI [of _ res'], rule exI [of _ resTail'],
          rule exI [of _ "x # ms"], rule exI [of _ as'], rule exI [of _ bs'], simp)
    next
      case False
      have "distinct (rs @ y # ys @ as)" using Suc.prems(6) bs by auto
      from take_node [OF _ Suc.prems(4) this Suc.prems(2)] Suc.prems(3) bs obtain h1 h2 res2 ny' where
        t: "cell h y ny'" "update h (Some y) (\<lambda>n. n\<lparr>l_next := None\<rparr>) = Inr h1"
          "append_node h1 res resTail (Some y) = Inr (h2, res2, Some y)" "building h2 res2 (Some y) (rs @ [y])"
          "closed h2 (rs @ [y])" "relinks (set (rs @ [y])) h h2" "list_at h2 (l_next ny') ys" "list_at h2 a as" by auto
      have "ny' = ny" using t(1) n(2) by simp
      then have run: "merge_heads (Suc fuel) cmpfunc h a b res resTail = merge_heads fuel cmpfunc h2 a (l_next ny) res2 (Some y)"
        using n v False t(2,3) as(2) bs(2) by (simp add: load_def elem_at_def)
      have "\<exists>h' a' b' res' resTail' ms as' bs'.
         merge_heads fuel cmpfunc h2 a (l_next ny) res2 (Some y) = Inr (h', a', b', res', resTail') \<and>
         relinks (set ((rs @ [y]) @ as @ ys)) h2 h' \<and> list_at h' a' as' \<and> list_at h' b' bs' \<and> (as' = [] \<or> bs' = []) \<and>
         building h' res' resTail' ((rs @ [y]) @ ms) \<and> closed h' ((rs @ [y]) @ ms) \<and>
         ms @ as' @ bs' = merge_by (node_cmp cmpfunc val) as ys"
        by (rule Suc.IH) (use Suc.prems(1,6) bs t \<open>ny' = ny\<close> vals [OF t(6)] in auto)
      then obtain h' a' b' res' resTail' ms as' bs' where
        i: "merge_heads fuel cmpfunc h2 a (l_next ny) res2 (Some y) = Inr (h', a', b', res', resTail')"
          "relinks (set ((rs @ [y]) @ as @ ys)) h2 h'" "list_at h' a' as'" "list_at h' b' bs'" "as' = [] \<or> bs' = []"
          "building h' res' resTail' ((rs @ [y]) @ ms)" "closed h' ((rs @ [y]) @ ms)"
          "ms @ as' @ bs' = merge_by (node_cmp cmpfunc val) as ys" by blast
      have "relinks (set (rs @ as @ bs)) h h'"
        by (rule relinks_trans [of _ h h2]) (rule relinks_mono [OF t(6)] relinks_mono [OF i(2)], use bs in auto)+
      then show ?thesis
        unfolding run using i as bs False
        by - (rule exI [of _ h'], rule exI [of _ a'], rule exI [of _ b'], rule exI [of _ res'], rule exI [of _ resTail'],
          rule exI [of _ "y # ms"], rule exI [of _ as'], rule exI [of _ bs'], simp)
    qed
  qed
qed

lemma merge_rest_ok:
  "length as \<le> fuel \<Longrightarrow> list_at h a as \<Longrightarrow> building h res resTail rs \<Longrightarrow> (as = [] \<Longrightarrow> closed h rs) \<Longrightarrow>
   distinct (rs @ as) \<Longrightarrow>
   \<exists>h' res' resTail'. merge_rest fuel h a res resTail = Inr (h', res', resTail') \<and>
     relinks (set (rs @ as)) h h' \<and> building h' res' resTail' (rs @ as) \<and> closed h' (rs @ as)"
proof (induction as arbitrary: fuel h a res resTail rs)
  case Nil
  then show ?case by (intro exI [of _ h] exI [of _ res] exI [of _ resTail]) (cases fuel; simp)
next
  case (Cons x xs)
  then obtain n fuel' where n: "a = Some x" "cell h x n" "list_at h (l_next n) xs" and f: "fuel = Suc fuel'"
    by (cases fuel) auto
  obtain h1 res1 where 1: "append_node h res resTail (Some x) = Inr (h1, res1, Some x)"
      "building h1 res1 (Some x) (rs @ [x])" "relinks (set rs) h h1"
    using append_node_ok [OF Cons.prems(3) n(2)] Cons.prems(5) by auto
  have x: "cell h1 x n" using relinks_outside [OF 1(3), of x] relinks_cell [OF 1(3) n(2)] Cons.prems(5) n(2) by auto
  have xs: "list_at h1 (l_next n) xs" by (rule relinks_seg [OF 1(3) _ n(3)]) (use Cons.prems(5) in auto)
  have cl: "xs = [] \<Longrightarrow> closed h1 (rs @ [x])" using xs x by (simp add: closed_def)
  obtain h' res' resTail' where 2: "merge_rest fuel' h1 (l_next n) res1 (Some x) = Inr (h', res', resTail')"
      "relinks (set ((rs @ [x]) @ xs)) h1 h'" "building h' res' resTail' ((rs @ [x]) @ xs)" "closed h' ((rs @ [x]) @ xs)"
    using Cons.IH [OF _ xs 1(2) cl, of fuel'] Cons.prems(1,5) f by auto
  have "relinks (set (rs @ x # xs)) h h'"
    by (rule relinks_trans [of _ h h1]) (rule relinks_mono [OF 1(3)] relinks_mono [OF 2(2)], auto)+
  then show ?case using n(1) f 1(1) 2 x by simp
qed

lemma mergeSortedLists_ok:
  assumes fuel: "length as + length bs \<le> fuel" and l: "list_at h a as" "list_at h b bs" and d: "distinct (as @ bs)"
    and val: "\<And>x. x \<in> set (as @ bs) \<Longrightarrow> value_at h x = val x"
  shows "\<exists>h' p. mergeSortedLists fuel cmpfunc h a b = Inr (h', p) \<and> relinks (set (as @ bs)) h h' \<and>
    list_at h' p (merge_by (node_cmp cmpfunc val) as bs)"
proof -
  have b: "building h None None []" "closed h []" by (simp_all add: building_def closed_def)
  from merge_heads_ok [OF fuel l b, unfolded append_Nil, OF d val] obtain h1 a1 b1 res1 t1 ms as1 bs1 where
    1: "merge_heads fuel cmpfunc h a b None None = Inr (h1, a1, b1, res1, t1)" "relinks (set (as @ bs)) h h1"
      "list_at h1 a1 as1" "list_at h1 b1 bs1" "as1 = [] \<or> bs1 = []" "building h1 res1 t1 ms" "closed h1 ms"
      "ms @ as1 @ bs1 = merge_by (node_cmp cmpfunc val) as bs"
    by blast
  have perm: "mset (merge_by c xs ys) = mset xs + mset ys" for c and xs ys :: "nat list"
    by (induction c xs ys rule: merge_by.induct) auto
  have "mset (ms @ as1 @ bs1) = mset (as @ bs)" unfolding 1(8) perm by simp
  then have same: "distinct (ms @ as1 @ bs1)" "length (ms @ as1 @ bs1) = length (as @ bs)" "set (ms @ as1 @ bs1) = set (as @ bs)"
    using d mset_eq_imp_distinct_iff mset_eq_length mset_eq_setD by blast+
  have dd: "distinct (ms @ as1)" "distinct ((ms @ as1) @ bs1)" and ll: "length as1 \<le> fuel" "length bs1 \<le> fuel"
    using same(1,2) fuel by auto
  from merge_rest_ok [OF ll(1) 1(3,6) 1(7) dd(1)] obtain h2 res2 t2 where
    2: "merge_rest fuel h1 a1 res1 t1 = Inr (h2, res2, t2)" "relinks (set (ms @ as1)) h1 h2"
      "building h2 res2 t2 (ms @ as1)" "closed h2 (ms @ as1)" by blast
  have b2: "list_at h2 b1 bs1" by (rule relinks_seg [OF 2(2) _ 1(4)]) (use same(1) in auto)
  from merge_rest_ok [OF ll(2) b2 2(3,4) dd(2)] obtain h3 res3 t3 where
    3: "merge_rest fuel h2 b1 res2 t2 = Inr (h3, res3, t3)" "relinks (set ((ms @ as1) @ bs1)) h2 h3"
      "building h3 res3 t3 ((ms @ as1) @ bs1)" "closed h3 ((ms @ as1) @ bs1)" by blast
  have "relinks (set (as @ bs)) h h3"
    by (rule relinks_trans [OF relinks_trans [OF 1(2)]]) (rule relinks_mono [OF 2(2)] relinks_mono [OF 3(2)], use same(3) in auto)+
  moreover have "list_at h3 res3 (merge_by (node_cmp cmpfunc val) as bs)"
    using building_closed [OF 3(3,4)] 1(8) by simp
  ultimately show ?thesis using 1(1) 2(1) 3(1) by (simp add: mergeSortedLists_def)
qed

section \<open>Sorting\<close>

function msort :: "('a \<Rightarrow> 'a \<Rightarrow> int) \<Rightarrow> 'a list \<Rightarrow> 'a list" where
  "msort compar xs =
     (let n = length xs div 2 in
      if n < 1 then xs else merge_by compar (msort compar (take n xs)) (msort compar (drop n xs)))"
  by auto
termination by (relation "measure (\<lambda>(compar, xs). length xs)") auto

declare msort.simps [simp del]

lemma mset_merge_by: "mset (merge_by compar xs ys) = mset xs + mset ys"
  by (induction compar xs ys rule: merge_by.induct) auto

lemma mset_msort: "mset (msort compar xs) = mset xs"
proof (induction compar xs rule: msort.induct)
  case (1 compar xs)
  show ?case
  proof (cases "length xs div 2 < 1")
    case True
    then show ?thesis by (simp add: msort.simps [of compar xs] Let_def)
  next
    case False
    then have "mset (msort compar xs) = mset (take (length xs div 2) xs) + mset (drop (length xs div 2) xs)"
      using 1 by (simp add: msort.simps [of compar xs] mset_merge_by Let_def)
    then show ?thesis by (simp flip: mset_append)
  qed
qed

lemma sorted_merge_by:
  "orders compar (set (xs @ ys)) \<Longrightarrow> sorted_wrt (in_order compar) xs \<Longrightarrow> sorted_wrt (in_order compar) ys \<Longrightarrow>
   sorted_wrt (in_order compar) (merge_by compar xs ys)"
proof (induction compar xs ys rule: merge_by.induct)
  case (3 compar x xs y ys)
  note tr = orders_trans [OF 3(3)]
  show ?case
  proof (cases "compar x y \<le> 0")
    case True
    then have xy: "in_order compar x y" by (simp add: in_order_def)
    have "in_order compar x z" if "z \<in> set ys" for z
      using tr [of x y z] xy that 3(5) by auto
    moreover have "sorted_wrt (in_order compar) (merge_by compar xs (y # ys))"
      by (rule 3(1) [OF True orders_subset [OF 3(3)]]) (use 3(4,5) in auto)
    ultimately show ?thesis using True xy 3(4) by (auto simp: set_merge_by)
  next
    case False
    then have yx: "in_order compar y x" using orders_total [OF 3(3), of x y] by (auto simp: in_order_def)
    have "in_order compar y z" if "z \<in> set xs" for z
      using tr [of y x z] yx that 3(4) by auto
    moreover have "sorted_wrt (in_order compar) (merge_by compar (x # xs) ys)"
      by (rule 3(2) [OF False orders_subset [OF 3(3)]]) (use 3(4,5) in auto)
    ultimately show ?thesis using False yx 3(5) by (auto simp: set_merge_by)
  qed
qed simp_all

lemma sorted_msort: "orders compar (set xs) \<Longrightarrow> sorted_wrt (in_order compar) (msort compar xs)"
proof (induction compar xs rule: msort.induct)
  case (1 compar xs)
  show ?case
  proof (cases "length xs div 2 < 1")
    case True
    then have "xs = [] \<or> (\<exists>x. xs = [x])" by (cases xs; cases "tl xs") auto
    then show ?thesis by (auto simp: msort.simps [of compar xs])
  next
    case False
    let ?n = "length xs div 2"
    have halves: "set (msort compar (take ?n xs)) = set (take ?n xs)" "set (msort compar (drop ?n xs)) = set (drop ?n xs)"
      using mset_msort by (metis set_mset_mset)+
    have sub: "orders compar (set (take ?n xs))" "orders compar (set (drop ?n xs))"
      using orders_subset [OF 1(3)] by (simp_all add: set_take_subset set_drop_subset)
    have "sorted_wrt (in_order compar) (merge_by compar (msort compar (take ?n xs)) (msort compar (drop ?n xs)))"
      by (rule sorted_merge_by [OF orders_subset [OF 1(3)]])
        (use 1(1,2) False sub halves in \<open>auto dest: in_set_takeD in_set_dropD\<close>)
    then show ?thesis using False by (simp add: msort.simps [of compar xs] Let_def)
  qed
qed

interpretation list_msort: comparison_sort msort
  by unfold_locales (rule mset_msort, rule sorted_msort)

lemma distinct_msort: "distinct (msort compar xs) = distinct xs"
  by (rule mset_eq_imp_distinct_iff [OF mset_msort])

lemma merge_by_map: "map f (merge_by (\<lambda>x y. compar (f x) (f y)) xs ys) = merge_by compar (map f xs) (map f ys)"
  by (induction "\<lambda>x y. compar (f x) (f y)" xs ys rule: merge_by.induct) auto

section \<open>The sort of linked nodes\<close>

lemma listLength_ok: "list_at h p as \<Longrightarrow> length as \<le> fuel \<Longrightarrow> listLength fuel h p = Inr (length as)"
proof (induction as arbitrary: fuel p)
  case (Cons a as)
  then show ?case by (cases fuel) auto
qed (cases fuel; simp)

lemma advance_ok:
  "seg l_next h p (as @ [m]) q \<Longrightarrow> advance (length as + 1) h before p = Inr (Some m, q)"
proof (induction as arbitrary: p before)
  case (Cons a as)
  then show ?case by auto
qed auto

lemma sortList_ok:
  "list_at h lst as \<Longrightarrow> length as < fuel \<Longrightarrow> (\<And>x. x \<in> set as \<Longrightarrow> value_at h x = val x) \<Longrightarrow>
   \<exists>h' p. sortList fuel cmpfunc h lst = Inr (h', p) \<and> relinks (set as) h h' \<and>
     list_at h' p (msort (node_cmp cmpfunc val) as)"
proof (induction fuel arbitrary: h lst as)
  case (Suc fuel)
  let ?n = "length as div 2" and ?c = "node_cmp cmpfunc val"
  have keep: "value_at h2 x = val x" if r: "relinks (set as) h h2" and x: "x \<in> set as" for h2 x
  proof -
    obtain n where "cell h x n" using seg_in_heap [OF Suc.prems(1) x] by blast
    from relinks_value [OF r this] Suc.prems(3) [OF x] show ?thesis by simp
  qed
  have len: "listLength fuel h lst = Inr (length as)" using listLength_ok [OF Suc.prems(1)] Suc.prems(2) by simp
  show ?case
  proof (cases "?n < 1")
    case True
    then show ?thesis using Suc.prems(1) len by (simp add: msort.simps [of ?c as] Let_def)
  next
    case False
    define xs where "xs = take (?n - 1) as"
    define m where "m = as ! (?n - 1)"
    define ys where "ys = drop ?n as"
    have "?n - 1 < length as" using False by linarith
    then have split: "take ?n as = xs @ [m]" "as = xs @ m # ys"
      using False id_take_nth_drop [of "?n - 1" as] take_Suc_conv_app_nth [of "?n - 1" as]
      by (simp_all add: xs_def m_def ys_def)
    have dist: "distinct as" by (rule seg_distinct [OF Suc.prems(1)])
    have D: "m \<notin> set xs" "m \<notin> set ys" "set xs \<inter> set ys = {}" "distinct ys"
      using dist by (subst (asm) split(2), auto)+
    have D4: "distinct (take ?n as)" using dist by (rule distinct_take)
    have T: "set (take ?n as) = insert m (set xs)" by (simp only: split(1)) simp
    have A: "set as = insert m (set xs \<union> set ys)" by (subst split(2)) auto
    have "list_at h lst ((xs @ [m]) @ ys)" using Suc.prems(1) by (subst (asm) split(2)) simp
    then obtain q where q: "seg l_next h lst (xs @ [m]) q" "list_at h q ys" unfolding seg_append by blast
    have adv: "advance ?n h None lst = Inr (Some m, q)"
    proof -
      have "length (take ?n as) = ?n" by simp
      then have "length xs + 1 = ?n" unfolding split(1) by simp
      with advance_ok [OF q(1), of None] show ?thesis by (simp only:)
    qed
    obtain n where n: "cell h m n" using seg_in_heap [OF q(1), of m] by auto
    define h1 where "h1 = h[m := Some (n\<lparr>l_next := None\<rparr>)]"
    have up: "update h (Some m) (\<lambda>n. n\<lparr>l_next := None\<rparr>) = Inr h1" using n by (simp add: h1_def)
    have r1: "relinks (set as) h h1" using n A unfolding h1_def by (intro relinks_update) auto
    have l1: "list_at h1 lst (take ?n as)"
      unfolding h1_def split(1) by (rule seg_redirect [OF q(1) D(1) n]) simp
    have l2: "list_at h1 q ys" unfolding h1_def by (rule seg_update_other [OF D(2) q(2)])
    have small: "length (take ?n as) < fuel" "length ys < fuel" using Suc.prems(2) False by (auto simp: ys_def)
    have val1: "value_at h1 x = val x" if "x \<in> set as" for x
      by (rule keep [OF r1 that])
    have "set (take ?n as) \<subseteq> set as" by (rule set_take_subset)
    then have "\<And>x. x \<in> set (take ?n as) \<Longrightarrow> value_at h1 x = val x" using val1 by blast
    from Suc.IH [OF l1 small(1) this] obtain h2 a where
      2: "sortList fuel cmpfunc h1 lst = Inr (h2, a)" "relinks (set (take ?n as)) h1 h2" "list_at h2 a (msort ?c (take ?n as))"
      by blast
    have l3: "list_at h2 q ys" by (rule relinks_seg [OF 2(2) _ l2]) (use D in \<open>auto simp only: T\<close>)
    have r2: "relinks (set as) h h2" by (rule relinks_trans [OF r1]) (rule relinks_mono [OF 2(2)], rule set_take_subset)
    have val2: "value_at h2 x = val x" if "x \<in> set as" for x
      by (rule keep [OF r2 that])
    have "set ys \<subseteq> set as" using A by blast
    then have "\<And>x. x \<in> set ys \<Longrightarrow> value_at h2 x = val x" using val2 by blast
    from Suc.IH [OF l3 small(2) this] obtain h3 b where
      3: "sortList fuel cmpfunc h2 q = Inr (h3, b)" "relinks (set ys) h2 h3" "list_at h3 b (msort ?c ys)" by blast
    have sets: "set (msort ?c (take ?n as)) = set (take ?n as)" "set (msort ?c ys) = set ys"
      "length (msort ?c (take ?n as)) = length (take ?n as)" "length (msort ?c ys) = length ys"
      "distinct (msort ?c (take ?n as))" "distinct (msort ?c ys)"
      using D(4) D4 by (simp_all only: list_msort.same_set list_msort.same_length distinct_msort)
    have l4: "list_at h3 a (msort ?c (take ?n as))"
      by (rule relinks_seg [OF 3(2) _ 2(3)]) (use D in \<open>auto simp only: sets(1) T\<close>)
    have r3: "relinks (set as) h h3" by (rule relinks_trans [OF r2]) (rule relinks_mono [OF 3(2)], use A in blast)
    have val3: "value_at h3 x = val x" if "x \<in> set as" for x
      by (rule keep [OF r3 that])
    have "\<exists>h' p. mergeSortedLists fuel cmpfunc h3 a b = Inr (h', p) \<and>
        relinks (set (msort ?c (take ?n as) @ msort ?c ys)) h3 h' \<and>
        list_at h' p (merge_by ?c (msort ?c (take ?n as)) (msort ?c ys))"
    proof (rule mergeSortedLists_ok [OF _ l4 3(3)])
      show "length (msort ?c (take ?n as)) + length (msort ?c ys) \<le> fuel"
        unfolding sets(3,4) using Suc.prems(2) by (simp add: ys_def)
      show "distinct (msort ?c (take ?n as) @ msort ?c ys)" unfolding distinct_append sets(1,2) using sets(5,6) D T by auto
      fix x assume "x \<in> set (msort ?c (take ?n as) @ msort ?c ys)"
      then have "x \<in> set as" unfolding set_append sets(1,2) T A by blast
      then show "value_at h3 x = val x" by (rule val3)
    qed
    then obtain h' p where 4: "mergeSortedLists fuel cmpfunc h3 a b = Inr (h', p)"
        "relinks (set (msort ?c (take ?n as) @ msort ?c ys)) h3 h'"
        "list_at h' p (merge_by ?c (msort ?c (take ?n as)) (msort ?c ys))" by blast
    have "relinks (set as) h h'"
    proof (rule relinks_trans [OF r3], rule relinks_mono [OF 4(2)])
      show "set (msort ?c (take ?n as) @ msort ?c ys) \<subseteq> set as" unfolding set_append sets(1,2) T A by blast
    qed
    moreover have "msort ?c as = merge_by ?c (msort ?c (take ?n as)) (msort ?c ys)"
      using False by (simp add: msort.simps [of ?c as] Let_def ys_def)
    ultimately have "list_at h' p (msort ?c as)" "relinks (set as) h h'" using 4(3) by simp_all
    moreover have "sortList (Suc fuel) cmpfunc h lst = Inr (h', p)"
      unfolding sortList.simps len bindE_simps Let_def if_not_P [OF False] adv prod.case up 2(1) 3(1) by (rule 4(1))
    ultimately show ?thesis by blast
  qed
qed simp

end
