(* ===== verification/List_Properties.thy ===== *)
theory List_Properties
  imports Linked_List_Sort
begin

text \<open>The property of the sort of linked lists, and what a caller that keeps the old head is left with.\<close>

lemma sortList_sorted:
  assumes l: "list_at h lst as" and fuel: "length as < fuel" and key: "compares_key cmpfunc key (value_at h ` set as)"
  shows "\<exists>h' p bs. sortList fuel cmpfunc h lst = Inr (h', p) \<and> list_at h' p bs \<and> mset bs = mset as \<and>
    map (\<lambda>a. key (value_at h' a)) bs = sort (map (\<lambda>a. key (value_at h a)) as) \<and> relinks (set as) h h'"
proof -
  let ?bs = "msort (node_cmp cmpfunc (value_at h)) as"
  obtain h' p where s: "sortList fuel cmpfunc h lst = Inr (h', p)" "relinks (set as) h h'" "list_at h' p ?bs"
    using sortList_ok [OF l fuel, of "value_at h"] by blast
  have "value_at h' a = value_at h a" if "a \<in> set ?bs" for a
  proof -
    have "a \<in> set as" using that by (simp add: list_msort.same_set)
    from seg_in_heap [OF l this] obtain n where "cell h a n" by blast
    then show ?thesis by (rule relinks_value [OF s(2)])
  qed
  then have "map (\<lambda>a. key (value_at h' a)) ?bs = map (\<lambda>a. key (value_at h a)) ?bs" by simp
  also have "\<dots> = sort (map (\<lambda>a. key (value_at h a)) as)"
    by (rule list_msort.sorts_keys) (use key in \<open>auto simp: compares_key_def in_order_def\<close>)
  finally show ?thesis using s mset_msort by blast
qed

text \<open>
  C17: on a well-formed list of fewer nodes than the fuel, with a comparison that compares a key, \<^verbatim>\<open>sortList\<close>
  returns the head of a list of the same nodes whose keys are the sorted keys (the result of any sort), having
  changed no value and no node outside the list.
\<close>

theorem sortList_sorts:
  assumes "list_at h lst as" "length as < fuel" "compares_key cmpfunc key (value_at h ` set as)"
  shows "\<exists>h' p bs. sortList fuel cmpfunc h lst = Inr (h', p) \<and> list_at h' p bs \<and> mset bs = mset as \<and>
    map (\<lambda>a. key (value_at h' a)) bs = sort (map (\<lambda>a. key (value_at h a)) as) \<and> relinks (set as) h h'"
  by (rule sortList_sorted [OF assms])

definition three_nodes :: "int LNode heap" where
  "three_nodes = [Some \<lparr>l_value = 5, l_next = Some 1\<rparr>, Some \<lparr>l_value = 3, l_next = Some 2\<rparr>,
     Some \<lparr>l_value = 4, l_next = None\<rparr>]"

theorem sortList_sorts_witness:
  "\<exists>h' p bs. sortList 4 (-) three_nodes (Some 0) = Inr (h', p) \<and> list_at h' p bs \<and> map (value_at h') bs = [3, 4, 5]"
proof -
  have "list_at three_nodes (Some 0) [0, 1, 2]" by (simp add: three_nodes_def)
  from sortList_sorts [OF this, of 4 "(-)" "\<lambda>v. v"] obtain h' p bs where
    s: "sortList 4 (-) three_nodes (Some 0) = Inr (h', p)" "list_at h' p bs"
      "map (\<lambda>a. value_at h' a) bs = sort (map (\<lambda>a. value_at three_nodes a) [0, 1, 2])"
    by (auto simp: compares_key_def in_order_def simp del: sortList.simps)
  moreover have "sort (map (\<lambda>a. value_at three_nodes a) [0, 1, 2]) = [3, 4, 5]"
    by (simp add: value_at_def three_nodes_def)
  ultimately show ?thesis by auto
qed

text \<open>
  Without the ends, \<^verbatim>\<open>concatLists\<close> fails on a non-empty first list: it looks for its end from the missing end
  of the second.  With only the end of the second, it keeps the first node of the first list and loses the rest.
\<close>

lemma concatLists_without_ends: "concatLists (Suc fuel) h (Some a) None l2 None = Inl NullDeref"
  by (simp add: concatLists_def)

lemma concatLists_first_end_only:
  assumes "list_at h (Some a) (a # as)" "list_at h (Some b) (b # bs @ [c])" "a \<notin> set (b # bs @ [c])"
  shows "\<exists>h'. concatLists (Suc fuel) h (Some a) None (Some b) (Some c) = Inr (h', Some a, Some c) \<and>
    list_at h' (Some a) (a # b # bs @ [c])"
proof -
  obtain na nc where n: "cell h a na" "cell h c nc" "l_next nc = None"
    using assms(1,2) by (auto simp: seg_append)
  let ?h = "h[a := Some (na\<lparr>l_next := Some b\<rparr>)]"
  have "list_at ?h (Some b) (b # bs @ [c])" by (rule seg_update_other [OF assms(3,2)])
  with n show ?thesis by (auto simp: concatLists_def)
qed

text \<open>After \<^verbatim>\<open>dlistDeleteTail\<close> the link of the new last node leads to freed memory.\<close>

lemma dlistDeleteTail_dangles:
  assumes "cell h a na" "cell h b nb" "a \<noteq> b" "dl_next na = Some b" "dl_prev nb = Some a"
  shows "\<exists>h'. dlistDeleteTail h head (Some b) = Inr (h', head, Some a) \<and> cell h' a na \<and>
    load h' (dl_next na) = Inl UseAfterFree"
  using assms by (auto simp: dlistDeleteTail_def free_cell_def load_def)

text \<open>The old head is a node of the sorted list: from it the list goes on to the end.\<close>

lemma old_head:
  assumes "list_at h p (xs @ a # ys)"
  shows "list_at h (Some a) (a # ys)"
  using assms by (auto simp: seg_append)

end
