(* ===== verification/Elf_File.thy ===== *)
theory Elf_File
  imports Util Growing_Buffer Frame_Section
begin

text \<open>
  ELF objects as \<^verbatim>\<open>src/src/elfparse.c\<close> and \<^verbatim>\<open>src/src/elfutil.c\<close> see them through libelf: a table of
  sections, each with its header and its data.  libelf itself is not modelled: what its calls return for a
  section is the data of the model.  Section 0 is the null section, which \<^verbatim>\<open>elf_nextscn\<close> skips.
\<close>

section \<open>Data\<close>

record GElf_Shdr =
  sh_name :: nat
  sh_type :: nat
  sh_flags :: "64 word"
  sh_addr :: addr_t
  sh_offset :: "64 word"
  sh_size :: "64 word"
  sh_link :: nat
  sh_info :: nat
  sh_addralign :: "64 word"
  sh_entsize :: "64 word"

text \<open>The data of a section without contents (\<^verbatim>\<open>SHT_NOBITS\<close>) has a size but no buffer.\<close>

record Elf_Scn =
  scn_shdr :: GElf_Shdr
  d_size :: nat
  d_buf :: "byte list"

datatype E_RECOGNIZED_SECTION = ERS_TEXT | ERS_RODATA | ERS_DATA | ERS_SYMTAB | ERS_STRTAB | ERS_HASHTABLE
  | ERS_RELA_TEXT | ERS_REL_TEXT | ERS_GOT | ERS_GOTPLT | ERS_PLT | ERS_RELX_PLT | ERS_DYNSYM | ERS_DYNSTR
  | ERS_DYNAMIC | ERS_UNSAFE_FUNCTIONS | ERS_DEBUG_INFO | ERS_EH_FRAME

datatype ELF_STORAGE_TYPE = IN_MEM | ON_DISK

text \<open>
  \<open>e_ints\<close> is the run of adjacent \<^verbatim>\<open>int\<close> members \<^verbatim>\<open>dataStart[2]\<close>, \<^verbatim>\<open>textStart[2]\<close> and \<^verbatim>\<open>fd\<close>: the arrays are
  indexed by storage types, whose values are 1 and 2, so that an access for \<^verbatim>\<open>ON_DISK\<close> falls on the member behind
  the array.
\<close>

record ElfInfo =
  e_scns :: "Elf_Scn list"
  symTabCount :: nat
  sectionHdrStrTblIdx :: nat
  strTblIdx :: nat
  textRelocCount :: nat
  sectionIndices :: "E_RECOGNIZED_SECTION \<Rightarrow> nat"
  e_ints :: "32 word list"
  isPO :: bool
  arch_bitwidth :: nat
  textUsesSmallCodeModel :: bool

definition storage_num :: "ELF_STORAGE_TYPE \<Rightarrow> nat" where
  "storage_num type = (case type of IN_MEM \<Rightarrow> 1 | ON_DISK \<Rightarrow> 2)"

definition dataStart_at :: "ELF_STORAGE_TYPE \<Rightarrow> nat" where "dataStart_at type = storage_num type"
definition textStart_at :: "ELF_STORAGE_TYPE \<Rightarrow> nat" where "textStart_at type = 2 + storage_num type"
definition fd_at :: nat where "fd_at = 4"

abbreviation (input) SHT_NOBITS :: nat where "SHT_NOBITS \<equiv> 8"
abbreviation (input) SHT_REL :: nat where "SHT_REL \<equiv> 9"
abbreviation (input) SHT_RELA :: nat where "SHT_RELA \<equiv> 4"
abbreviation (input) SHN_UNDEF :: nat where "SHN_UNDEF \<equiv> 0"
abbreviation (input) SHN_ABS :: nat where "SHN_ABS \<equiv> 0xfff1"
abbreviation (input) SHN_COMMON :: nat where "SHN_COMMON \<equiv> 0xfff2"
abbreviation (input) STN_UNDEF :: nat where "STN_UNDEF \<equiv> 0"

text \<open>\<^verbatim>\<open>elf_getscn\<close>.\<close>

definition getscn :: "ElfInfo \<Rightarrow> nat \<Rightarrow> Elf_Scn option" where
  "getscn e i = (if i < length (e_scns e) then Some (e_scns e ! i) else None)"

definition scn_or :: "fault \<Rightarrow> ElfInfo \<Rightarrow> nat \<Rightarrow> Elf_Scn result" where
  "scn_or err e i = (case getscn e i of None \<Rightarrow> Inl err | Some scn \<Rightarrow> Inr scn)"

section \<open>Sections and strings\<close>

definition getDataByIdx :: "ElfInfo \<Rightarrow> nat \<Rightarrow> Elf_Scn result" where
  "getDataByIdx e idx = scn_or AssertFail e idx"

definition getSectionByERS :: "ElfInfo \<Rightarrow> E_RECOGNIZED_SECTION \<Rightarrow> Elf_Scn result" where
  "getSectionByERS e ers =
     bindE (guardE (sectionIndices e ers \<noteq> 0) AssertFail) (\<lambda>_. scn_or AssertFail e (sectionIndices e ers))"

definition getDataByERS :: "ElfInfo \<Rightarrow> E_RECOGNIZED_SECTION \<Rightarrow> Elf_Scn result" where
  "getDataByERS e ers =
     bindE (guardE (sectionIndices e ers \<noteq> 0) AssertFail) (\<lambda>_. scn_or AssertFail e (sectionIndices e ers))"

definition getShdrByERS :: "ElfInfo \<Rightarrow> E_RECOGNIZED_SECTION \<Rightarrow> GElf_Shdr result" where
  "getShdrByERS e ers =
     bindE (guardE (sectionIndices e ers \<noteq> 0) AssertFail) (\<lambda>_.
     bindE (scn_or AssertFail e (sectionIndices e ers)) (\<lambda>scn. Inr (scn_shdr scn)))"

definition hasERS :: "ElfInfo \<Rightarrow> E_RECOGNIZED_SECTION \<Rightarrow> bool" where
  "hasERS e ers \<longleftrightarrow> sectionIndices e ers \<noteq> 0"

text \<open>The C string that starts at \<open>idx\<close>.\<close>

definition c_string :: "byte list \<Rightarrow> nat \<Rightarrow> string result" where
  "c_string bs idx =
     (if 0 \<in> set (drop idx bs) then Inr (map (\<lambda>b. char_of (unat b)) (takeWhile (\<lambda>b. b \<noteq> 0) (drop idx bs)))
      else Inl OutOfBounds)"

definition getString :: "ElfInfo \<Rightarrow> nat \<Rightarrow> string result" where
  "getString e idx = bindE (scn_or NullDeref e (strTblIdx e)) (\<lambda>scn. c_string (d_buf scn) idx)"

definition getDynString :: "ElfInfo \<Rightarrow> nat \<Rightarrow> string result" where
  "getDynString e idx = bindE (getSectionByERS e ERS_DYNSTR) (\<lambda>scn. c_string (d_buf scn) idx)"

definition getScnHdrString :: "ElfInfo \<Rightarrow> nat \<Rightarrow> string result" where
  "getScnHdrString e idx =
     bindE (guardE (sectionHdrStrTblIdx e \<noteq> 0) AssertFail) (\<lambda>_.
     bindE (scn_or AssertFail e (sectionHdrStrTblIdx e)) (\<lambda>scn.
     bindE (guardE (idx < d_size scn) AssertFail) (\<lambda>_. c_string (d_buf scn) idx)))"

text \<open>The search goes over the sections from \<open>i\<close> on; a section is its index.\<close>

fun find_section :: "ElfInfo \<Rightarrow> string \<Rightarrow> Elf_Scn list \<Rightarrow> nat \<Rightarrow> nat option result" where
  "find_section e name [] i = Inr None"
| "find_section e name (scn # scns) i =
     bindE (getScnHdrString e (sh_name (scn_shdr scn))) (\<lambda>scnName.
       if name = scnName then Inr (Some i) else find_section e name scns (i + 1))"

definition getSectionByName :: "ElfInfo \<Rightarrow> string \<Rightarrow> nat option result" where
  "getSectionByName e name =
     bindE (guardE (sectionHdrStrTblIdx e \<noteq> 0) AssertFail) (\<lambda>_. find_section e name (drop 1 (e_scns e)) 1)"

definition getSectionNameFromIdx :: "ElfInfo \<Rightarrow> nat \<Rightarrow> string option result" where
  "getSectionNameFromIdx e idx =
     (case getscn e idx of
        None \<Rightarrow> Inr None
      | Some scn \<Rightarrow> bindE (getScnHdrString e (sh_name (scn_shdr scn))) (\<lambda>s. Inr (Some s)))"

section \<open>Data at an address\<close>

text \<open>The offset is a 32-bit number, and the size of what is read there is not checked.\<close>

definition scn_base :: "Elf_Scn \<Rightarrow> ELF_STORAGE_TYPE \<Rightarrow> addr_t" where
  "scn_base scn type = (case type of IN_MEM \<Rightarrow> sh_addr (scn_shdr scn) | ON_DISK \<Rightarrow> sh_offset (scn_shdr scn))"

definition scn_off :: "Elf_Scn \<Rightarrow> addr_t \<Rightarrow> ELF_STORAGE_TYPE \<Rightarrow> nat" where
  "scn_off scn addr type = unat (ucast (addr - scn_base scn type) :: uint)"

definition getDataAtAbs :: "Elf_Scn \<Rightarrow> addr_t \<Rightarrow> ELF_STORAGE_TYPE \<Rightarrow> byte list result" where
  "getDataAtAbs scn addr type =
     bindE (guardE (scn_off scn addr type \<le> d_size scn) AssertFail) (\<lambda>_. Inr (drop (scn_off scn addr type) (d_buf scn)))"

definition getWordAtAbs :: "Elf_Scn \<Rightarrow> addr_t \<Rightarrow> ELF_STORAGE_TYPE \<Rightarrow> word_t result" where
  "getWordAtAbs scn addr type =
     bindE (guardE (scn_off scn addr type \<le> d_size scn) AssertFail) (\<lambda>_.
     bindE (copy_out (drop (scn_off scn addr type) (d_buf scn)) 8) (\<lambda>bs. Inr (le_word bs)))"

definition setWordAtAbs :: "Elf_Scn \<Rightarrow> addr_t \<Rightarrow> word_t \<Rightarrow> ELF_STORAGE_TYPE \<Rightarrow> Elf_Scn result" where
  "setWordAtAbs scn addr v type =
     bindE (guardE (scn_off scn addr type + 8 \<le> d_size scn) AssertFail) (\<lambda>_.
     bindE (write_bytes (d_buf scn) (scn_off scn addr type) (word_bytes 8 v)) (\<lambda>buf. Inr (scn\<lparr>d_buf := buf\<rparr>)))"

definition text_off :: "ElfInfo \<Rightarrow> addr_t \<Rightarrow> ELF_STORAGE_TYPE \<Rightarrow> nat result" where
  "text_off e addr type =
     bindE (elem_at (e_ints e) (textStart_at type)) (\<lambda>start. Inr (unat (ucast (addr - scast start) :: uint)))"

definition getTextDataAtAbs :: "ElfInfo \<Rightarrow> addr_t \<Rightarrow> ELF_STORAGE_TYPE \<Rightarrow> byte list result" where
  "getTextDataAtAbs e addr type =
     bindE (getDataByERS e ERS_TEXT) (\<lambda>textData.
     bindE (text_off e addr type) (\<lambda>offset.
     bindE (guardE (offset \<le> d_size textData) AssertFail) (\<lambda>_. Inr (drop offset (d_buf textData)))))"

definition getTextAtAbs :: "ElfInfo \<Rightarrow> addr_t \<Rightarrow> ELF_STORAGE_TYPE \<Rightarrow> word_t result" where
  "getTextAtAbs e addr type =
     bindE (getTextDataAtAbs e addr type) (\<lambda>bs. bindE (copy_out bs 8) (\<lambda>bs. Inr (le_word bs)))"

definition set_scn :: "ElfInfo \<Rightarrow> nat \<Rightarrow> Elf_Scn \<Rightarrow> ElfInfo" where
  "set_scn e i scn = e\<lparr>e_scns := (e_scns e)[i := scn]\<rparr>"

definition setTextAtAbs :: "ElfInfo \<Rightarrow> addr_t \<Rightarrow> word_t \<Rightarrow> ELF_STORAGE_TYPE \<Rightarrow> ElfInfo result" where
  "setTextAtAbs e addr v type =
     bindE (getDataByERS e ERS_TEXT) (\<lambda>textData.
     bindE (text_off e addr type) (\<lambda>offset.
     bindE (guardE (offset \<le> d_size textData) AssertFail) (\<lambda>_.
     bindE (write_bytes (d_buf textData) offset (word_bytes 8 v)) (\<lambda>buf.
       Inr (set_scn e (sectionIndices e ERS_TEXT) (textData\<lparr>d_buf := buf\<rparr>))))))"

text \<open>The relative offset is an \<^verbatim>\<open>int\<close>; one that is negative leads out of the data.\<close>

definition getTextDataAtRelOffset :: "ElfInfo \<Rightarrow> 32 word \<Rightarrow> byte list result" where
  "getTextDataAtRelOffset e offset =
     bindE (getDataByERS e ERS_TEXT) (\<lambda>textData.
     bindE (guardE (0 \<le> sint offset \<and> sint offset \<le> int (length (d_buf textData))) OutOfBounds) (\<lambda>_.
       Inr (drop (unat offset) (d_buf textData))))"

definition getTextAtRelOffset :: "ElfInfo \<Rightarrow> 32 word \<Rightarrow> word_t result" where
  "getTextAtRelOffset e offset =
     bindE (getTextDataAtRelOffset e offset) (\<lambda>bs. bindE (copy_out bs 8) (\<lambda>bs. Inr (le_word bs)))"

section \<open>Finding the sections\<close>

definition note_section :: "ElfInfo \<Rightarrow> E_RECOGNIZED_SECTION \<Rightarrow> nat \<Rightarrow> ElfInfo" where
  "note_section e ers i = e\<lparr>sectionIndices := (sectionIndices e)(ers := i)\<rparr>"

definition note_start :: "(ELF_STORAGE_TYPE \<Rightarrow> nat) \<Rightarrow> GElf_Shdr \<Rightarrow> ElfInfo \<Rightarrow> ElfInfo result" where
  "note_start at shdr e =
     bindE (store_at (e_ints e) (at IN_MEM) (ucast (sh_addr shdr))) (\<lambda>ints.
     bindE (store_at ints (at ON_DISK) (ucast (sh_offset shdr))) (\<lambda>ints.
       Inr (e\<lparr>e_ints := ints, textUsesSmallCodeModel := True\<rparr>)))"

definition count_entries :: "GElf_Shdr \<Rightarrow> nat result" where
  "count_entries shdr =
     bindE (guardE (sh_entsize shdr \<noteq> 0) DivideByZero) (\<lambda>_.
       Inr (unat (sh_size shdr) div unat (sh_entsize shdr)))"

definition starts_with :: "string \<Rightarrow> string \<Rightarrow> bool" where
  "starts_with prefix s \<longleftrightarrow> take (length prefix) s = prefix"

text \<open>One round of the loop; the names are tried in the order of the source.\<close>

definition find_elf_section :: "GElf_Shdr \<Rightarrow> string \<Rightarrow> nat \<Rightarrow> ElfInfo \<Rightarrow> ElfInfo result" where
  "find_elf_section shdr name i e =
     (if name = ''.hash'' then Inr (note_section e ERS_HASHTABLE i)
      else if name = ''.symtab'' then
        bindE (count_entries shdr) (\<lambda>n. Inr ((note_section e ERS_SYMTAB i)\<lparr>symTabCount := n, strTblIdx := sh_link shdr\<rparr>))
      else if name = ''.strtab'' then Inr (note_section e ERS_STRTAB i)
      else if name = ''.rel.text'' then bindE (count_entries shdr) (\<lambda>n. Inr (e\<lparr>textRelocCount := n\<rparr>))
      else if starts_with ''.data'' name then note_start dataStart_at shdr (note_section e ERS_DATA i)
      else if starts_with ''.text'' name then
        note_start textStart_at shdr
          (note_section (if name = ''.text.new'' then e\<lparr>isPO := True\<rparr> else e) ERS_TEXT i)
      else if starts_with ''.rodata'' name then Inr ((note_section e ERS_RODATA i)\<lparr>textUsesSmallCodeModel := True\<rparr>)
      else if starts_with ''.rela.text'' name then Inr (note_section e ERS_RELA_TEXT i)
      else if starts_with ''.rel.text'' name then Inr (note_section e ERS_REL_TEXT i)
      else if name = ''.got'' then Inr (note_section e ERS_GOT i)
      else if name = ''.got.plt'' then Inr (note_section e ERS_GOTPLT i)
      else if name = ''.plt'' then Inr (note_section e ERS_PLT i)
      else if name = ''.rel.plt'' \<or> name = ''.rela.plt'' then
        bindE (guardE (sectionIndices e ERS_RELX_PLT = 0) AssertFail) (\<lambda>_. Inr (note_section e ERS_RELX_PLT i))
      else if name = ''.dynsym'' then Inr (note_section e ERS_DYNSYM i)
      else if name = ''.dynstr'' then Inr (note_section e ERS_DYNSTR i)
      else if name = ''.dynamic'' then Inr (note_section e ERS_DYNAMIC i)
      else if name = ''.unsafe_functions'' then Inr (note_section e ERS_UNSAFE_FUNCTIONS i)
      else if name = ''.debug_info'' then Inr (note_section e ERS_DEBUG_INFO i)
      else if name = ''.eh_frame'' then Inr (note_section e ERS_EH_FRAME i)
      else Inr e)"

fun find_elf_sections :: "Elf_Scn list \<Rightarrow> nat \<Rightarrow> ElfInfo \<Rightarrow> ElfInfo result" where
  "find_elf_sections [] i e = Inr e"
| "find_elf_sections (scn # scns) i e =
     bindE (scn_or NullDeref e (sectionHdrStrTblIdx e)) (\<lambda>strs.
     bindE (c_string (d_buf strs) (sh_name (scn_shdr scn))) (\<lambda>name.
     bindE (find_elf_section (scn_shdr scn) name i e) (\<lambda>e. find_elf_sections scns (i + 1) e)))"

text \<open>\<open>shstrndx\<close> is what \<^verbatim>\<open>elf_getshdrstrndx\<close> finds in the ELF header.\<close>

definition findELFSections :: "nat \<Rightarrow> ElfInfo \<Rightarrow> ElfInfo result" where
  "findELFSections shstrndx e =
     find_elf_sections (drop 1 (e_scns e)) 1 (e\<lparr>sectionHdrStrTblIdx := shstrndx, sectionIndices := \<lambda>_. 0\<rparr>)"

section \<open>Section headers\<close>

text \<open>\<open>addString\<close> is the writer of the section name table (\<^verbatim>\<open>addShdrStrtabEntry\<close>).\<close>

definition updateShdrFromSectionHeaderData ::
  "(ElfInfo \<Rightarrow> string \<Rightarrow> (ElfInfo \<times> nat) result) \<Rightarrow> ElfInfo \<Rightarrow> SectionHeaderData \<Rightarrow> 64 word \<Rightarrow> nat \<times> nat \<Rightarrow> 64 word \<Rightarrow>
   GElf_Shdr \<Rightarrow> (ElfInfo \<times> GElf_Shdr) result" where
  "updateShdrFromSectionHeaderData addString e shd shd_offset shd_link_info shd_entsize shdr =
     bindE (getScnHdrString e (sh_name shdr)) (\<lambda>oldScnName.
     bindE (if oldScnName \<noteq> shd_name shd then addString e (shd_name shd) else Inr (e, sh_name shdr)) (\<lambda>(e, name).
       Inr (e, shdr\<lparr>sh_name := name, sh_type := shd_type shd, sh_flags := of_nat (shd_flags shd),
         sh_offset := (if shd_offset \<noteq> 0 then shd_offset else sh_offset shdr + (shd_addr shd - sh_addr shdr)),
         sh_addr := shd_addr shd, sh_size := of_nat (shd_size shd), sh_link := fst shd_link_info,
         sh_info := snd shd_link_info, sh_addralign := of_nat (shd_addralign shd), sh_entsize := shd_entsize\<rparr>)))"

end
