(* ===== verification/Symbols.thy ===== *)
theory Symbols
  imports Elf_File
begin

text \<open>
  \<^verbatim>\<open>src/src/symbol.c\<close>: reading, matching and finding symbols.  The readers of libelf are parameters, the
  record \<open>LibElf\<close>; \<open>reads_tables\<close> states what they do on 64-bit objects.
\<close>

section \<open>Data\<close>

record GElf_Sym =
  st_name :: "32 word"
  st_info :: byte
  st_other :: byte
  st_shndx :: "16 word"
  st_value :: "64 word"
  st_size :: "64 word"

record GElf_Rela =
  rl_offset :: "64 word"
  rl_info :: "64 word"
  rl_addend :: "64 word"

text \<open>\<^verbatim>\<open>gelf_getrel\<close> has no addend to give.\<close>

record LibElf =
  gelf_getsym :: "Elf_Scn \<Rightarrow> nat \<Rightarrow> GElf_Sym option"
  gelf_getrel :: "Elf_Scn \<Rightarrow> nat \<Rightarrow> (64 word \<times> 64 word) option"
  gelf_getrela :: "Elf_Scn \<Rightarrow> nat \<Rightarrow> GElf_Rela option"

text \<open>The layout of \<^verbatim>\<open>Elf64_Sym\<close>, \<^verbatim>\<open>Elf64_Rel\<close> and \<^verbatim>\<open>Elf64_Rela\<close>, as a \<^verbatim>\<open>memcpy\<close> into such a struct fills it.\<close>

definition sym_of_bytes :: "byte list \<Rightarrow> GElf_Sym" where
  "sym_of_bytes bs = \<lparr>st_name = le_word (take 4 bs), st_info = bs ! 4, st_other = bs ! 5,
     st_shndx = le_word (take 2 (drop 6 bs)), st_value = le_word (take 8 (drop 8 bs)),
     st_size = le_word (take 8 (drop 16 bs))\<rparr>"

definition rel_of_bytes :: "byte list \<Rightarrow> 64 word \<times> 64 word" where
  "rel_of_bytes bs = (le_word (take 8 bs), le_word (take 8 (drop 8 bs)))"

definition rela_of_bytes :: "byte list \<Rightarrow> GElf_Rela" where
  "rela_of_bytes bs = \<lparr>rl_offset = le_word (take 8 bs), rl_info = le_word (take 8 (drop 8 bs)),
     rl_addend = le_word (take 8 (drop 16 bs))\<rparr>"

definition entry :: "(byte list \<Rightarrow> 'a) \<Rightarrow> nat \<Rightarrow> Elf_Scn \<Rightarrow> nat \<Rightarrow> 'a option" where
  "entry of_bytes sz scn i =
     (if (i + 1) * sz \<le> length (d_buf scn) then Some (of_bytes (take sz (drop (i * sz) (d_buf scn)))) else None)"

definition reads_tables :: "LibElf \<Rightarrow> bool" where
  "reads_tables L \<longleftrightarrow> gelf_getsym L = entry sym_of_bytes 24 \<and> gelf_getrel L = entry rel_of_bytes 16 \<and>
     gelf_getrela L = entry rela_of_bytes 24"

definition elf64 :: LibElf where
  "elf64 = \<lparr>gelf_getsym = entry sym_of_bytes 24, gelf_getrel = entry rel_of_bytes 16,
     gelf_getrela = entry rela_of_bytes 24\<rparr>"

lemma reads_tables_elf64 [simp]: "reads_tables elf64"
  by (simp add: reads_tables_def elf64_def)

abbreviation (input) STT_NOTYPE :: byte where "STT_NOTYPE \<equiv> 0"
abbreviation (input) STT_FUNC :: byte where "STT_FUNC \<equiv> 2"
abbreviation (input) STT_SECTION :: byte where "STT_SECTION \<equiv> 3"

definition ST_BIND :: "byte \<Rightarrow> byte" where "ST_BIND info = drop_bit 4 info"
definition ST_TYPE :: "byte \<Rightarrow> byte" where "ST_TYPE info = info AND 0xf"
definition ST_INFO :: "byte \<Rightarrow> byte \<Rightarrow> byte" where "ST_INFO bd type = push_bit 4 bd + (type AND 0xf)"

definition ESFF_MANGLED_OK :: int where "ESFF_MANGLED_OK = 1"
definition ESFF_NEW_DYNAMIC :: int where "ESFF_NEW_DYNAMIC = 2"
definition ESFF_VERSIONED_SECTIONS_OK :: int where "ESFF_VERSIONED_SECTIONS_OK = 4"
definition ESFF_BSS_MATCH_DATA_OK :: int where "ESFF_BSS_MATCH_DATA_OK = 8"
definition ESFF_FUZZY_MATCHING_OK :: int where "ESFF_FUZZY_MATCHING_OK = 5"

definition flag :: "int \<Rightarrow> int \<Rightarrow> bool" where
  "flag flags f \<longleftrightarrow> flags AND f \<noteq> 0"

section \<open>Symbols by index\<close>

definition getSymbol :: "LibElf \<Rightarrow> ElfInfo \<Rightarrow> nat \<Rightarrow> GElf_Sym result" where
  "getSymbol L e symIdx =
     bindE (getDataByERS e ERS_SYMTAB) (\<lambda>symTabData.
       case gelf_getsym L symTabData symIdx of None \<Rightarrow> Inl Death | Some sy \<Rightarrow> Inr sy)"

definition getSymAddress :: "LibElf \<Rightarrow> ElfInfo \<Rightarrow> nat \<Rightarrow> addr_t result" where
  "getSymAddress L e symIdx =
     bindE (getDataByERS e ERS_SYMTAB) (\<lambda>symTabData.
       case gelf_getsym L symTabData symIdx of None \<Rightarrow> Inl Death | Some sy \<Rightarrow> Inr (st_value sy))"

definition unmangleSymbolName :: "string \<Rightarrow> string" where
  "unmangleSymbolName name = takeWhile (\<lambda>c. c \<noteq> CHR ''@'') name"

definition nativeSymToGELFSym :: "GElf_Sym \<Rightarrow> GElf_Sym" where
  "nativeSymToGELFSym sy = \<lparr>st_name = st_name sy, st_info = ST_INFO (ST_BIND (st_info sy)) (ST_TYPE (st_info sy)),
     st_other = st_other sy, st_shndx = st_shndx sy, st_value = st_value sy, st_size = st_size sy\<rparr>"

definition gelfSymToNativeSym :: "GElf_Sym \<Rightarrow> GElf_Sym" where
  "gelfSymToNativeSym sy = \<lparr>st_name = st_name sy, st_info = ST_INFO (ST_BIND (st_info sy)) (ST_TYPE (st_info sy)),
     st_other = st_other sy, st_shndx = st_shndx sy, st_value = st_value sy, st_size = st_size sy\<rparr>"

section \<open>Matching symbols\<close>

definition symtab_for :: "ElfInfo \<Rightarrow> int \<Rightarrow> Elf_Scn result" where
  "symtab_for e flags = getDataByERS e (if flag flags ESFF_NEW_DYNAMIC then ERS_DYNSYM else ERS_SYMTAB)"

definition string_for :: "ElfInfo \<Rightarrow> int \<Rightarrow> nat \<Rightarrow> string result" where
  "string_for e flags idx = (if flag flags ESFF_NEW_DYNAMIC then getDynString e idx else getString e idx)"

definition unmangled :: "int \<Rightarrow> string \<Rightarrow> string" where
  "unmangled flags name = (if flag flags ESFF_MANGLED_OK then unmangleSymbolName name else name)"

definition strip_suffix :: "string \<Rightarrow> string \<Rightarrow> string" where
  "strip_suffix suf s = (if strEndsWith s suf then take (length s - length suf) s else s)"

definition getVersionStringOfPatchSections :: string where
  "getVersionStringOfPatchSections = ''new''"

text \<open>The name of a symbol's section, without the symbol's own name and without the version.\<close>

definition section_name :: "int \<Rightarrow> string \<Rightarrow> string \<Rightarrow> string" where
  "section_name flags symbolName scnName =
     (let s = strip_suffix (CHR ''.'' # symbolName) scnName in
      if flag flags ESFF_VERSIONED_SECTIONS_OK then strip_suffix (CHR ''.'' # getVersionStringOfPatchSections) s else s)"

definition data_and_bss :: "string \<Rightarrow> string \<Rightarrow> bool" where
  "data_and_bss a b \<longleftrightarrow> starts_with ''.data'' a \<and> starts_with ''.bss'' b \<or> starts_with ''.bss'' a \<and> starts_with ''.data'' b"

definition sections_match :: "ElfInfo \<Rightarrow> ElfInfo \<Rightarrow> int \<Rightarrow> string \<Rightarrow> byte \<Rightarrow> nat \<Rightarrow> nat \<Rightarrow> bool result" where
  "sections_match e ref flags symbolName type shndxRef shndxNew =
     (if shndxRef \<noteq> SHN_UNDEF \<and> shndxNew \<noteq> SHN_UNDEF \<and> shndxRef \<noteq> SHN_COMMON \<and> shndxNew \<noteq> SHN_COMMON then
        bindE (scn_or AssertFail ref shndxRef) (\<lambda>scnRef.
        bindE (scn_or AssertFail e shndxNew) (\<lambda>scnNew.
        bindE (getScnHdrString ref (sh_name (scn_shdr scnRef))) (\<lambda>nameRef.
        bindE (getScnHdrString e (sh_name (scn_shdr scnNew))) (\<lambda>nameNew.
          let a = section_name flags symbolName nameRef; b = section_name flags symbolName nameNew in
          Inr (a = b \<or> type \<noteq> STT_SECTION \<and> flag flags ESFF_BSS_MATCH_DATA_OK \<and> data_and_bss a b)))))
      else Inr True)"

definition symbol_matches :: "ElfInfo \<Rightarrow> GElf_Sym \<Rightarrow> ElfInfo \<Rightarrow> int \<Rightarrow> string \<Rightarrow> Elf_Scn \<Rightarrow> nat \<Rightarrow> bool result" where
  "symbol_matches e sy ref flags symbolName symTabData i =
     (let bd = ST_BIND (st_info sy); type = ST_TYPE (st_info sy) in
      bindE (copy_out (drop (i * 24) (d_buf symTabData)) 24) (\<lambda>bs.
      let sym2 = sym_of_bytes bs in
      bindE (string_for e flags (unat (st_name sym2))) (\<lambda>symname.
      let bind2 = ST_BIND (st_info sym2); type2 = ST_TYPE (st_info sym2) in
      if (type = STT_SECTION \<and> type2 = STT_SECTION) \<or> unmangleSymbolName symname = unmangled flags symbolName then
        if bd \<noteq> bind2 then Inr False
        else if type \<noteq> STT_NOTYPE \<and> type2 \<noteq> STT_NOTYPE \<and> type \<noteq> type2 then Inr False
        else if st_other sy \<noteq> st_other sym2 then Inr False
        else sections_match e ref flags symbolName type (unat (st_shndx sy)) (unat (st_shndx sym2))
      else Inr False)))"

text \<open>The loop goes on after a match: the last one counts.\<close>

fun last_match :: "(nat \<Rightarrow> bool result) \<Rightarrow> nat list \<Rightarrow> nat \<Rightarrow> nat result" where
  "last_match m [] retval = Inr retval"
| "last_match m (i # is) retval = bindE (m i) (\<lambda>ok. last_match m is (if ok then i else retval))"

definition findSymbol :: "ElfInfo \<Rightarrow> GElf_Sym \<Rightarrow> ElfInfo \<Rightarrow> int \<Rightarrow> nat result" where
  "findSymbol e sy ref flags =
     bindE (symtab_for e flags) (\<lambda>symTabData.
     bindE (getString ref (unat (st_name sy))) (\<lambda>symbolName.
       last_match (symbol_matches e sy ref flags symbolName symTabData) [1..<d_size symTabData div 24] STN_UNDEF))"

text \<open>The first attempt is made without the fuzzy flags.  The name is looked up again for the log.\<close>

definition reindexSymbol :: "LibElf \<Rightarrow> ElfInfo \<Rightarrow> ElfInfo \<Rightarrow> nat \<Rightarrow> int \<Rightarrow> nat result" where
  "reindexSymbol L old new oldIdx flags =
     bindE (getSymbol L old oldIdx) (\<lambda>sy.
     let flagsNoFuzzy = flags AND NOT ESFF_FUZZY_MATCHING_OK in
     bindE (findSymbol new sy old flagsNoFuzzy) (\<lambda>idx.
     bindE (if idx = STN_UNDEF \<and> flags \<noteq> flagsNoFuzzy then findSymbol new sy old flags else Inr idx) (\<lambda>idx.
       if idx = STN_UNDEF then bindE (getString old (unat (st_name sy))) (\<lambda>_. Inr idx) else Inr idx)))"

section \<open>Symbols by name and by address\<close>

text \<open>
  The count is that of \<^verbatim>\<open>.symtab\<close> whichever table is searched; an entry that libelf does not find leaves the
  variable \<^verbatim>\<open>sym\<close> indeterminate.
\<close>

fun first_named :: "(nat \<Rightarrow> string result) \<Rightarrow> string \<Rightarrow> nat list \<Rightarrow> nat option result" where
  "first_named nm name [] = Inr None"
| "first_named nm name (i # is) = bindE (nm i) (\<lambda>s. if s = name then Inr (Some i) else first_named nm name is)"

definition getSymtabIdx :: "LibElf \<Rightarrow> ElfInfo \<Rightarrow> string \<Rightarrow> int \<Rightarrow> nat result" where
  "getSymtabIdx L e symbolName flags =
     bindE (guardE (0 < strTblIdx e) AssertFail) (\<lambda>_.
     bindE (symtab_for e flags) (\<lambda>symTabData.
     bindE (first_named (\<lambda>i. case gelf_getsym L symTabData i of
                None \<Rightarrow> Inl OutOfBounds
              | Some sy \<Rightarrow> bindE (string_for e flags (unat (st_name sy))) (\<lambda>s. Inr (unmangled flags s)))
              (unmangled flags symbolName) [0..<symTabCount e]) (\<lambda>r.
       Inr (case r of None \<Rightarrow> STN_UNDEF | Some i \<Rightarrow> i))))"

definition sym_covers :: "addr_t \<Rightarrow> byte \<Rightarrow> nat \<Rightarrow> GElf_Sym \<Rightarrow> bool" where
  "sym_covers addr type scnIdx sy \<longleftrightarrow> ST_TYPE (st_info sy) = type \<and>
     (unat (st_shndx sy) = scnIdx \<or> scnIdx = SHN_UNDEF) \<and>
     (st_value sy = addr \<or> st_value sy \<le> addr \<and> addr < st_value sy + st_size sy)"

fun first_covering :: "LibElf \<Rightarrow> Elf_Scn \<Rightarrow> (GElf_Sym \<Rightarrow> bool) \<Rightarrow> nat list \<Rightarrow> nat result" where
  "first_covering L symTabData P [] = Inr STN_UNDEF"
| "first_covering L symTabData P (i # is) =
     (case gelf_getsym L symTabData i of
        None \<Rightarrow> Inl Death
      | Some sy \<Rightarrow> if P sy then Inr i else first_covering L symTabData P is)"

definition findSymbolContainingAddress :: "LibElf \<Rightarrow> ElfInfo \<Rightarrow> addr_t \<Rightarrow> byte \<Rightarrow> nat \<Rightarrow> nat result" where
  "findSymbolContainingAddress L e addr type scnIdx =
     (if \<not> hasERS e ERS_SYMTAB then Inr STN_UNDEF
      else bindE (getDataByERS e ERS_SYMTAB) (\<lambda>symTabData.
        first_covering L symTabData (sym_covers addr type scnIdx) [1..<symTabCount e]))"

text \<open>\<open>demangle\<close> is the C++ demangler.\<close>

definition getFunctionNameAtPC :: "LibElf \<Rightarrow> (string \<Rightarrow> string) \<Rightarrow> ElfInfo \<Rightarrow> addr_t \<Rightarrow> string result" where
  "getFunctionNameAtPC L demangle elf pc =
     bindE (findSymbolContainingAddress L elf pc STT_FUNC SHN_UNDEF) (\<lambda>symIdx.
       if symIdx = STN_UNDEF then Inr ''?''
       else
         bindE (getSymbol L elf symIdx) (\<lambda>sy.
         bindE (getString elf (unat (st_name sy))) (\<lambda>name.
           Inr (if starts_with ''_Z'' name then demangle name else name))))"

end
