(* ===== verification/Target_Memory.thy ===== *)
theory Target_Memory
  imports Growing_Buffer Dictionary
begin

text \<open>
  \<^verbatim>\<open>src/src/patcher/target.c\<close>: reading and writing the memory of the process that is patched.  The process
  is its memory (a byte or nothing at each address) and its registers; \<^verbatim>\<open>ptrace\<close> reads and writes a word at
  any address all of whose bytes are there, and fails otherwise.
\<close>

section \<open>Memory\<close>

type_synonym memory = "addr_t \<Rightarrow> byte option"

definition mem_write :: "memory \<Rightarrow> addr_t \<Rightarrow> byte list \<Rightarrow> memory" where
  "mem_write m a bs = (\<lambda>x. if unat (x - a) < length bs then Some (bs ! unat (x - a)) else m x)"

definition mem_read :: "memory \<Rightarrow> addr_t \<Rightarrow> nat \<Rightarrow> byte list option" where
  "mem_read m a n = those (map (\<lambda>i. m (a + of_nat i)) [0..<n])"

definition ptrace_peek :: "memory \<Rightarrow> addr_t \<Rightarrow> word_t option" where
  "ptrace_peek m a = map_option le_word (mem_read m a 8)"

definition ptrace_poke :: "memory \<Rightarrow> addr_t \<Rightarrow> word_t \<Rightarrow> memory option" where
  "ptrace_poke m a w = (if mem_read m a 8 = None then None else Some (mem_write m a (word_bytes 8 w)))"

section \<open>The process\<close>

text \<open>The registers of \<^verbatim>\<open>struct user_regs_struct\<close> that the macros of \<^verbatim>\<open>src/src/arch.h\<close> name.\<close>

record user_regs_struct =
  reg_rip :: word_t
  reg_rsp :: word_t
  reg_rax :: word_t
  reg_rbx :: word_t
  reg_rcx :: word_t
  reg_rdx :: word_t
  reg_rbp :: word_t
  reg_rsi :: word_t
  reg_rdi :: word_t
  reg_r8 :: word_t
  reg_r9 :: word_t
  reg_r10 :: word_t

text \<open>\<open>check_writes\<close> is the flag \<^verbatim>\<open>EKCF_CHECK_PTRACE_WRITES\<close>; the last three fields are the globals of the file.\<close>

record Target =
  tg_mem :: memory
  tg_regs :: user_regs_struct
  check_writes :: bool
  mallocAddress :: addr_t
  targetTextStart :: addr_t
  breakpointRestoreInfo :: "(64 word, byte list) Map option"

definition setMallocAddress :: "addr_t \<Rightarrow> Target \<Rightarrow> Target" where
  "setMallocAddress addr t = t\<lparr>mallocAddress := addr\<rparr>"

definition setTargetTextStart :: "addr_t \<Rightarrow> Target \<Rightarrow> Target" where
  "setTargetTextStart addr t = t\<lparr>targetTextStart := addr\<rparr>"

definition modifyTarget :: "Target \<Rightarrow> addr_t \<Rightarrow> word_t \<Rightarrow> Target result" where
  "modifyTarget t addr v =
     (case ptrace_poke (tg_mem t) addr v of
        None \<Rightarrow> Inl Death
      | Some m \<Rightarrow>
          if check_writes t \<and> ptrace_peek m addr \<noteq> Some v then Inl Death else Inr (t\<lparr>tg_mem := m\<rparr>))"

text \<open>
  The word that \<^verbatim>\<open>ptrace\<close> returns is cut to an \<^verbatim>\<open>unsigned int\<close>; a copy of more than its four bytes takes
  what lies behind the variable, \<open>junk i\<close> in round \<open>i\<close>.  The result is \<open>None\<close> when a read failed.
\<close>

function from_target_loop :: "(nat \<Rightarrow> byte list) \<Rightarrow> memory \<Rightarrow> addr_t \<Rightarrow> nat \<Rightarrow> nat \<Rightarrow> byte list \<Rightarrow>
  byte list option result" where
  "from_target_loop junk m addr numBytes i dat =
     (if i < numBytes then
        (case ptrace_peek m (addr + of_nat i) of
           None \<Rightarrow> Inr None
         | Some w \<Rightarrow>
             bindE (copy_out (word_bytes 4 (ucast w :: uint) @ junk i) (if i + 8 \<le> numBytes then 8 else numBytes - i)) (\<lambda>bs.
             bindE (write_bytes dat i bs) (\<lambda>dat. from_target_loop junk m addr numBytes (i + 4) dat)))
      else Inr (Some dat))"
  by pat_completeness auto
termination by (relation "measure (\<lambda>(junk, m, addr, n, i, dat). n - i)") auto

declare from_target_loop.simps [simp del]

definition memcpyFromTargetNoDeath ::
  "(nat \<Rightarrow> byte list) \<Rightarrow> Target \<Rightarrow> byte list \<Rightarrow> addr_t \<Rightarrow> nat \<Rightarrow> byte list option result" where
  "memcpyFromTargetNoDeath junk t dat addr numBytes = from_target_loop junk (tg_mem t) addr numBytes 0 dat"

definition memcpyFromTarget :: "(nat \<Rightarrow> byte list) \<Rightarrow> Target \<Rightarrow> byte list \<Rightarrow> addr_t \<Rightarrow> nat \<Rightarrow> byte list result" where
  "memcpyFromTarget junk t dat addr numBytes =
     bindE (memcpyFromTargetNoDeath junk t dat addr numBytes) (\<lambda>r.
       case r of None \<Rightarrow> Inl Death | Some dat \<Rightarrow> Inr dat)"

text \<open>The loop over whole words; the last one keeps the bytes behind the data.\<close>

function to_target_loop :: "(nat \<Rightarrow> byte list) \<Rightarrow> Target \<Rightarrow> addr_t \<Rightarrow> byte list \<Rightarrow> nat \<Rightarrow> nat \<Rightarrow> Target result" where
  "to_target_loop junk t addr dat numBytes i =
     (if i < numBytes then
        bindE (if i + 8 \<le> numBytes then copy_out (drop i dat) 8
               else bindE (memcpyFromTarget junk t (replicate 8 0) (addr + of_nat i) 8) (\<lambda>tmp.
                    bindE (copy_out (drop i dat) (numBytes - i)) (\<lambda>bs. write_bytes tmp 0 bs))) (\<lambda>bs.
        bindE (modifyTarget t (addr + of_nat i) (le_word bs)) (\<lambda>t.
          to_target_loop junk t addr dat numBytes (i + 8)))
      else Inr t)"
  by pat_completeness auto
termination by (relation "measure (\<lambda>(junk, t, addr, dat, n, i). n - i)") auto

declare to_target_loop.simps [simp del]

definition memcpyToTarget :: "(nat \<Rightarrow> byte list) \<Rightarrow> Target \<Rightarrow> addr_t \<Rightarrow> byte list \<Rightarrow> nat \<Rightarrow> Target result" where
  "memcpyToTarget junk t addr dat numBytes =
     (let misalignment = unat (addr mod 8) in
      if misalignment \<noteq> 0 then
        bindE (memcpyFromTarget junk t (replicate 8 0) (addr - of_nat misalignment) 8) (\<lambda>firstWord.
        let bytesInWd = min (8 - misalignment) numBytes in
        bindE (copy_out dat bytesInWd) (\<lambda>bs.
        bindE (write_bytes firstWord misalignment bs) (\<lambda>firstWord.
        bindE (modifyTarget t (addr - of_nat misalignment) (le_word firstWord)) (\<lambda>t.
        if numBytes - bytesInWd = 0 then Inr t
        else
          bindE (guardE ((addr + of_nat bytesInWd) mod 8 = 0) AssertFail) (\<lambda>_.
            to_target_loop junk t (addr + of_nat bytesInWd) (drop bytesInWd dat) (numBytes - bytesInWd) 0)))))
      else to_target_loop junk t addr dat numBytes 0)"

section \<open>Calls made in the process\<close>

text \<open>
  \<open>run\<close> is what the process does from \<^verbatim>\<open>PTRACE_CONT\<close> until the trap it runs into.
\<close>

definition malloc_code :: "addr_t \<Rightarrow> byte list" where
  "malloc_code addr = [0xff, 0x15, 0x01, 0x00, 0x00, 0x00, 0xcc] @ word_bytes 8 addr"

definition mallocTarget :: "(nat \<Rightarrow> byte list) \<Rightarrow> (Target \<Rightarrow> Target) \<Rightarrow> Target \<Rightarrow> word_t \<Rightarrow> (Target \<times> addr_t) result" where
  "mallocTarget junk run t len =
     (let oldRegs = tg_regs t in
      bindE (guardE (mallocAddress t \<noteq> 0) Death) (\<lambda>_.
      bindE (guardE (targetTextStart t \<noteq> 0) Death) (\<lambda>_.
      let loc = targetTextStart t;
          newRegs = oldRegs\<lparr>reg_rdi := len, reg_rbx := mallocAddress t\<rparr> in
      bindE (memcpyFromTarget junk t (replicate 15 0) loc 15) (\<lambda>oldText.
      bindE (memcpyToTarget junk t loc (malloc_code (mallocAddress t)) 15) (\<lambda>t.
      let t = run (t\<lparr>tg_regs := newRegs\<lparr>reg_rip := loc\<rparr>\<rparr>);
          retval = reg_rax (tg_regs t) in
      bindE (guardE (retval \<noteq> 0) Death) (\<lambda>_.
      bindE (memcpyToTarget junk t loc oldText 15) (\<lambda>t.
        Inr (t\<lparr>tg_regs := oldRegs\<rparr>, retval))))))))"

definition syscall_code :: "byte list" where
  "syscall_code = [0x0f, 0x05, 0xcc, 0x00]"

definition mmapTarget :: "(nat \<Rightarrow> byte list) \<Rightarrow> (Target \<Rightarrow> Target) \<Rightarrow> Target \<Rightarrow> word_t \<Rightarrow> word_t \<Rightarrow> addr_t \<Rightarrow>
  (Target \<times> addr_t) result" where
  "mmapTarget junk run t sz prot desiredAddress =
     (let oldRegs = tg_regs t;
          newRegs = oldRegs\<lparr>reg_rsp := reg_rsp oldRegs - 4\<rparr> in
      bindE (memcpyFromTarget junk t (replicate 4 0) (reg_rip newRegs) 4) (\<lambda>oldText.
      bindE (memcpyToTarget junk t (reg_rip newRegs) syscall_code 4) (\<lambda>t.
      let returnAddr = reg_rip newRegs + 2;
          newRegs = newRegs\<lparr>reg_rdi := desiredAddress, reg_rsi := sz, reg_rdx := prot, reg_rcx := 0x22,
            reg_r8 := - 1, reg_r9 := 0, reg_r10 := 0x22, reg_rsp := reg_rsp newRegs - 8\<rparr> in
      bindE (modifyTarget t (reg_rsp newRegs) returnAddr) (\<lambda>t.
      let t = run (t\<lparr>tg_regs := newRegs\<lparr>reg_rax := 9\<rparr>\<rparr>);
          retval = reg_rax (tg_regs t) in
      bindE (guardE (retval \<noteq> - 1) Death) (\<lambda>_.
      bindE (memcpyToTarget junk t (reg_rip oldRegs) oldText 4) (\<lambda>t.
        Inr (t\<lparr>tg_regs := oldRegs\<rparr>, retval)))))))"

definition strnmatchTarget :: "(nat \<Rightarrow> byte list) \<Rightarrow> Target \<Rightarrow> string \<Rightarrow> addr_t \<Rightarrow> bool result" where
  "strnmatchTarget junk t str strInTarget =
     (let len = length str in
      bindE (memcpyFromTarget junk t (replicate (len + 1) 0) strInTarget (len + 1)) (\<lambda>buf.
      bindE (store_at buf len 0) (\<lambda>buf.
        Inr (takeWhile (\<lambda>b. b \<noteq> 0) buf = map of_char str))))"

section \<open>Breakpoints\<close>

definition int3_code :: "byte list" where
  "int3_code = [0xcc, 0x90, 0x90, 0x90]"

definition setBreakpoint :: "(nat \<Rightarrow> byte list) \<Rightarrow> Target \<Rightarrow> addr_t \<Rightarrow> Target result" where
  "setBreakpoint junk t loc =
     (let bps = (case breakpointRestoreInfo t of None \<Rightarrow> size_tMapCreate 100 | Some bps \<Rightarrow> bps) in
      bindE (memcpyFromTarget junk t (replicate 4 0) loc 4) (\<lambda>origCode.
      bindE (mapInsert bps loc origCode) (\<lambda>bps.
        memcpyToTarget junk (t\<lparr>breakpointRestoreInfo := Some bps\<rparr>) loc int3_code 4)))"

definition removeBreakpoint :: "(nat \<Rightarrow> byte list) \<Rightarrow> Target \<Rightarrow> addr_t \<Rightarrow> Target result" where
  "removeBreakpoint junk t loc =
     (case breakpointRestoreInfo t of
        None \<Rightarrow> Inl AssertFail
      | Some bps \<Rightarrow>
          bindE (mapGet bps loc) (\<lambda>restore.
          case restore of
            None \<Rightarrow> Inl Death
          | Some origCode \<Rightarrow>
              bindE (memcpyToTarget junk t loc origCode 4) (\<lambda>t.
                Inr (if reg_rip (tg_regs t) = loc + 1 then t\<lparr>tg_regs := (tg_regs t)\<lparr>reg_rip := loc\<rparr>\<rparr> else t))))"

end
