(* ===== verification/Relocation.thy ===== *)
theory Relocation
  imports Symbols Target_Memory
begin

text \<open>
  \<^verbatim>\<open>src/src/relocation.c\<close>: reading, writing and applying relocation entries.  A \<^verbatim>\<open>RelocInfo\<close> carries the
  object it is for; here the object is an argument of the functions, as all their uses are about one object.
\<close>

section \<open>Data\<close>

record RelocInfo =
  r_offset :: addr_t
  symIdx :: nat
  relocType :: byte
  r_addend :: addr_t
  scnIdx :: nat

definition R_SYM :: "64 word \<Rightarrow> nat" where "R_SYM info = unat (drop_bit 32 info)"

text \<open>The type is 32 bits wide in the entry and 8 in \<^verbatim>\<open>RelocInfo\<close>.\<close>

definition R_TYPE :: "64 word \<Rightarrow> byte" where "R_TYPE info = ucast (take_bit 32 info)"
definition R_INFO :: "nat \<Rightarrow> byte \<Rightarrow> 64 word" where "R_INFO si type = push_bit 32 (of_nat si) + ucast type"

text \<open>\<^verbatim>\<open>R_386_32\<close> and \<^verbatim>\<open>R_X86_64_64\<close> are the same number, and so are the two \<^verbatim>\<open>PC32\<close> types.\<close>

abbreviation (input) R_386_32 :: byte where "R_386_32 \<equiv> 1"
abbreviation (input) R_386_PC32 :: byte where "R_386_PC32 \<equiv> 2"
abbreviation (input) R_386_COPY :: byte where "R_386_COPY \<equiv> 5"
abbreviation (input) R_386_GLOB_DAT :: byte where "R_386_GLOB_DAT \<equiv> 6"
abbreviation (input) R_386_JMP_SLOT :: byte where "R_386_JMP_SLOT \<equiv> 7"
abbreviation (input) R_X86_64_32 :: byte where "R_X86_64_32 \<equiv> 10"
abbreviation (input) R_X86_64_32S :: byte where "R_X86_64_32S \<equiv> 11"
abbreviation (input) R_X86_64_PC64 :: byte where "R_X86_64_PC64 \<equiv> 24"

definition is_reloc_scn :: "Elf_Scn \<Rightarrow> bool" where
  "is_reloc_scn scn \<longleftrightarrow> sh_type (scn_shdr scn) = SHT_REL \<or> sh_type (scn_shdr scn) = SHT_RELA"

section \<open>Addends\<close>

definition computeAddend :: "LibElf \<Rightarrow> ElfInfo \<Rightarrow> byte \<Rightarrow> nat \<Rightarrow> addr_t \<Rightarrow> nat \<Rightarrow> addr_t result" where
  "computeAddend L e type si offset si_scn =
     (if type \<in> {R_386_COPY, R_386_GLOB_DAT, R_386_JMP_SLOT} then Inr 0
      else
        bindE (getSymbol L e si) (\<lambda>sy.
        let symVal = (if unat (st_shndx sy) = SHN_COMMON then 0 else st_value sy) in
        bindE (scn_or AssertFail e si_scn) (\<lambda>scn.
        bindE (getWordAtAbs scn offset IN_MEM) (\<lambda>addrAccessed.
          if type = R_386_32 then Inr (addrAccessed - symVal)
          else if type = R_386_PC32 then
            let computation = addrAccessed - symVal + offset + 8 in
            Inr (if symVal = 0 \<and> computation = offset then - 8 else computation)
          else Inl Death))))"

section \<open>Entries\<close>

definition entry_bytes :: "RelocInfo \<Rightarrow> bool \<Rightarrow> byte list" where
  "entry_bytes reloc rela =
     word_bytes 8 (r_offset reloc) @ word_bytes 8 (R_INFO (symIdx reloc) (relocType reloc)) @
     (if rela then word_bytes 8 (r_addend reloc) else [])"

definition setRelocationEntryAtOffset :: "RelocInfo \<Rightarrow> Elf_Scn \<Rightarrow> addr_t \<Rightarrow> Elf_Scn result" where
  "setRelocationEntryAtOffset reloc relocScn offset =
     bindE (guardE (is_reloc_scn relocScn) AssertFail) (\<lambda>_.
     bindE (guardE (offset < sh_size (scn_shdr relocScn)) AssertFail) (\<lambda>_.
     bindE (write_bytes (d_buf relocScn) (unat offset) (entry_bytes reloc (sh_type (scn_shdr relocScn) \<noteq> SHT_REL))) (\<lambda>buf.
       Inr (relocScn\<lparr>d_buf := buf\<rparr>))))"

definition rel_info :: "LibElf \<Rightarrow> ElfInfo \<Rightarrow> nat \<Rightarrow> 64 word \<times> 64 word \<Rightarrow> RelocInfo result" where
  "rel_info L e sc r =
     bindE (computeAddend L e (R_TYPE (snd r)) (R_SYM (snd r)) (fst r) sc) (\<lambda>addend.
       Inr \<lparr>r_offset = fst r, symIdx = R_SYM (snd r), relocType = R_TYPE (snd r), r_addend = addend, scnIdx = sc\<rparr>)"

definition rela_info :: "nat \<Rightarrow> GElf_Rela \<Rightarrow> RelocInfo" where
  "rela_info sc r = \<lparr>r_offset = rl_offset r, symIdx = R_SYM (rl_info r), relocType = R_TYPE (rl_info r),
     r_addend = rl_addend r, scnIdx = sc\<rparr>"

definition getRelocationEntryAtOffset :: "LibElf \<Rightarrow> ElfInfo \<Rightarrow> Elf_Scn \<Rightarrow> addr_t \<Rightarrow> RelocInfo result" where
  "getRelocationEntryAtOffset L e relocScn offset =
     bindE (guardE (is_reloc_scn relocScn) AssertFail) (\<lambda>_.
     bindE (guardE (offset < sh_size (scn_shdr relocScn)) AssertFail) (\<lambda>_.
       if sh_type (scn_shdr relocScn) = SHT_REL then
         bindE (copy_out (drop (unat offset) (d_buf relocScn)) 16) (\<lambda>bs.
           rel_info L e (sh_info (scn_shdr relocScn)) (rel_of_bytes bs))
       else
         bindE (copy_out (drop (unat offset) (d_buf relocScn)) 24) (\<lambda>bs.
           Inr (rela_info (sh_info (scn_shdr relocScn)) (rela_of_bytes bs)))))"

section \<open>Entries of a section\<close>

text \<open>
  The entries that \<open>wanted\<close> accepts by offset and symbol; an entry libelf does not find leaves the variable
  indeterminate.
\<close>

fun collect_relocs :: "LibElf \<Rightarrow> ElfInfo \<Rightarrow> (64 word \<Rightarrow> 64 word \<Rightarrow> bool) \<Rightarrow> Elf_Scn \<Rightarrow> nat list \<Rightarrow> RelocInfo list result" where
  "collect_relocs L e wanted scn [] = Inr []"
| "collect_relocs L e wanted scn (i # is) =
     bindE
       (if sh_type (scn_shdr scn) = SHT_REL then
          (case gelf_getrel L scn i of
             None \<Rightarrow> Inl OutOfBounds
           | Some r \<Rightarrow>
               if wanted (fst r) (snd r) then bindE (rel_info L e (sh_info (scn_shdr scn)) r) (\<lambda>ri. Inr [ri]) else Inr [])
        else
          (case gelf_getrela L scn i of
             None \<Rightarrow> Inl OutOfBounds
           | Some r \<Rightarrow>
               Inr (if wanted (rl_offset r) (rl_info r) then [rela_info (sh_info (scn_shdr scn)) r] else []))) (\<lambda>xs.
     bindE (collect_relocs L e wanted scn is) (\<lambda>ys. Inr (xs @ ys)))"

definition num_relocs :: "Elf_Scn \<Rightarrow> nat result" where
  "num_relocs scn =
     bindE (guardE (sh_entsize (scn_shdr scn) \<noteq> 0) DivideByZero) (\<lambda>_.
       Inr (d_size scn div unat (sh_entsize (scn_shdr scn))))"

definition getRelocationItemsInRange :: "LibElf \<Rightarrow> ElfInfo \<Rightarrow> Elf_Scn option \<Rightarrow> addr_t \<Rightarrow> addr_t \<Rightarrow> RelocInfo list result" where
  "getRelocationItemsInRange L e relocScn lowAddr highAddr =
     (case relocScn of
        None \<Rightarrow> Inr []
      | Some scn \<Rightarrow>
          bindE (guardE (is_reloc_scn scn) AssertFail) (\<lambda>_.
          bindE (num_relocs scn) (\<lambda>n.
            collect_relocs L e (\<lambda>off info. \<not> (off < lowAddr \<or> highAddr < off)) scn [0..<n])))"

fun relocs_in_sections :: "LibElf \<Rightarrow> ElfInfo \<Rightarrow> nat \<Rightarrow> Elf_Scn list \<Rightarrow> RelocInfo list result" where
  "relocs_in_sections L e si [] = Inr []"
| "relocs_in_sections L e si (scn # scns) =
     bindE (if is_reloc_scn scn
            then bindE (num_relocs scn) (\<lambda>n. collect_relocs L e (\<lambda>off info. R_SYM info = si) scn [0..<n])
            else Inr []) (\<lambda>xs.
     bindE (relocs_in_sections L e si scns) (\<lambda>ys. Inr (xs @ ys)))"

text \<open>The name of the symbol is looked up for the log.\<close>

definition getRelocationItemsFor :: "LibElf \<Rightarrow> ElfInfo \<Rightarrow> nat \<Rightarrow> RelocInfo list result" where
  "getRelocationItemsFor L e si =
     bindE (getSymbol L e si) (\<lambda>sy.
     bindE (getString e (unat (st_name sy))) (\<lambda>_.
       relocs_in_sections L e si (drop 1 (e_scns e))))"

definition first_some :: "(string \<Rightarrow> nat option result) \<Rightarrow> string list \<Rightarrow> nat option result" where
  "first_some f names = foldr (\<lambda>nm rest. bindE (f nm) (\<lambda>r. case r of None \<Rightarrow> rest | Some i \<Rightarrow> Inr (Some i))) names (Inr None)"

text \<open>The first two names are cut to the buffer of 1024 bytes.\<close>

definition getRelocationSection :: "ElfInfo \<Rightarrow> string \<Rightarrow> nat option result" where
  "getRelocationSection e fnname =
     first_some (getSectionByName e)
       [take 1023 (''.rel.text.'' @ fnname), take 1023 (''.rela.text.'' @ fnname), ''.rel.text'', ''.rela.text'']"

section \<open>The procedure linkage table\<close>

fun find_plt_entry :: "LibElf \<Rightarrow> (nat \<Rightarrow> byte list) \<Rightarrow> Target \<Rightarrow> ElfInfo \<Rightarrow> Elf_Scn \<Rightarrow> addr_t \<Rightarrow> nat \<Rightarrow> nat list \<Rightarrow> addr_t result" where
  "find_plt_entry L junk t e pltRelScn pltStart si [] = Inl Death"
| "find_plt_entry L junk t e pltRelScn pltStart si (i # is) =
     bindE (memcpyFromTarget junk t (replicate 8 0) (pltStart + 7 + of_nat i) 4) (\<lambda>bs.
     bindE (getRelocationEntryAtOffset L e pltRelScn (le_word bs * sh_entsize (scn_shdr pltRelScn))) (\<lambda>reloc.
       if symIdx reloc = si then Inr (pltStart + of_nat i)
       else find_plt_entry L junk t e pltRelScn pltStart si is))"

definition getPLTEntryForSym :: "LibElf \<Rightarrow> (nat \<Rightarrow> byte list) \<Rightarrow> Target \<Rightarrow> ElfInfo \<Rightarrow> nat \<Rightarrow> addr_t result" where
  "getPLTEntryForSym L junk t e si =
     bindE (getShdrByERS e ERS_PLT) (\<lambda>shdr.
     bindE (getSectionByERS e ERS_RELX_PLT) (\<lambda>pltRelScn.
       find_plt_entry L junk t e pltRelScn (sh_addr shdr) si
         (map (\<lambda>k. 16 * k) [1..<(unat (sh_size shdr) + 15) div 16])))"

section \<open>Applying relocations\<close>

text \<open>The value to write and how many of its bytes.\<close>

definition plt_value :: "RelocInfo \<Rightarrow> addr_t \<Rightarrow> addr_t \<times> nat" where
  "plt_value rel plt =
     (if relocType rel = R_386_PC32 then (plt - r_offset rel - 4, 4)
      else if relocType rel = R_X86_64_PC64 then (plt - r_offset rel - 8, 8)
      else (plt, 8))"

definition reloc_value :: "RelocInfo \<Rightarrow> addr_t \<Rightarrow> (addr_t \<times> nat) result" where
  "reloc_value rel addrNew =
     (if relocType rel = R_386_32 \<or> relocType rel = R_X86_64_32 then
        Inr (addrNew + r_addend rel, if relocType rel = R_X86_64_32 then 4 else 8)
      else if relocType rel = R_386_PC32 then Inr (addrNew + r_addend rel - r_offset rel, 4)
      else if relocType rel = R_X86_64_32S then Inr (addrNew + signExtend32To64 (ucast (r_addend rel)), 8)
      else Inl Death)"

text \<open>
  \<open>type\<close> is \<^verbatim>\<open>IN_MEM\<close> (1), \<^verbatim>\<open>ON_DISK\<close> (2) or both.  The names of symbols are looked up for the log.
\<close>

definition applyRelocation ::
  "LibElf \<Rightarrow> (nat \<Rightarrow> byte list) \<Rightarrow> int \<Rightarrow> RelocInfo \<Rightarrow> ElfInfo \<Rightarrow> Target \<Rightarrow> (ElfInfo \<times> Target) result" where
  "applyRelocation L junk type rel e t =
     bindE (scn_or Death e (scnIdx rel)) (\<lambda>relScn.
     let shdr = scn_shdr relScn; alloc = (sh_flags shdr AND of_nat SHF_ALLOC \<noteq> 0) in
     if type = 1 \<and> \<not> alloc then Inr (e, t)
     else
       bindE (getSymbol L e (symIdx rel)) (\<lambda>sy.
       bindE (getString e (unat (st_name sy))) (\<lambda>_.
       bindE (if unat (st_shndx sy) = SHN_UNDEF \<and> st_value sy = 0 \<and> ST_TYPE (st_info sy) = STT_FUNC
              then bindE (reindexSymbol L e e (symIdx rel) 7) (\<lambda>symIdxDynamic.
                   bindE (getPLTEntryForSym L junk t e symIdxDynamic) (\<lambda>plt. Inr (plt_value rel plt)))
              else reloc_value rel (st_value sy)) (\<lambda>(newAddrAccessed, bytesInAddr).
       bindE (if flag type 1 \<and> alloc
              then memcpyToTarget junk t (r_offset rel) (word_bytes 8 newAddrAccessed) bytesInAddr else Inr t) (\<lambda>t.
       bindE (if flag type 2
              then bindE (write_bytes (d_buf relScn) (unat (r_offset rel - sh_addr shdr)) (word_bytes bytesInAddr newAddrAccessed)) (\<lambda>buf.
                   Inr (set_scn e (scnIdx rel) (relScn\<lparr>d_buf := buf\<rparr>)))
              else Inr e) (\<lambda>e. Inr (e, t)))))))"

fun applyRelocations ::
  "LibElf \<Rightarrow> (nat \<Rightarrow> byte list) \<Rightarrow> int \<Rightarrow> RelocInfo list \<Rightarrow> ElfInfo \<Rightarrow> Target \<Rightarrow> (ElfInfo \<times> Target) result" where
  "applyRelocations L junk type [] e t = Inr (e, t)"
| "applyRelocations L junk type (rel # rels) e t =
     bindE (applyRelocation L junk type rel e t) (\<lambda>(e, t). applyRelocations L junk type rels e t)"

text \<open>
  \<^verbatim>\<open>applyAllRelocations\<close> looks for sections named \<^verbatim>\<open>rel.\<close> and hands their entries on as if they were
  \<^verbatim>\<open>RelocInfo\<close>, which is a bigger struct: the first one applied is read beyond its end.
\<close>

fun count_rel_entries :: "ElfInfo \<Rightarrow> Elf_Scn list \<Rightarrow> nat result" where
  "count_rel_entries e [] = Inr 0"
| "count_rel_entries e (scn # scns) =
     bindE (scn_or NullDeref e (sectionHdrStrTblIdx e)) (\<lambda>strs.
     bindE (c_string (d_buf strs) (sh_name (scn_shdr scn))) (\<lambda>name.
     bindE (if starts_with ''rel.'' name then num_relocs scn else Inr 0) (\<lambda>n.
     bindE (count_rel_entries e scns) (\<lambda>k. Inr (n + k)))))"

definition applyAllRelocations :: "ElfInfo \<Rightarrow> ElfInfo result" where
  "applyAllRelocations e =
     bindE (count_rel_entries e (drop 1 (e_scns e))) (\<lambda>n. if n = 0 then Inr e else Inl OutOfBounds)"

end
