(* ===== verification/Code_Diff.thy ===== *)
theory Code_Diff
  imports Relocation Linked_List
begin

text \<open>
  \<^verbatim>\<open>src/src/patchwrite/codediff.c\<close>: whether the code of a function is the same in two objects, up to where
  its relocations point.
\<close>

section \<open>Relocations in order\<close>

text \<open>The difference of the offsets is cut to an \<^verbatim>\<open>int\<close>.\<close>

definition cmpRelocs :: "RelocInfo \<Rightarrow> RelocInfo \<Rightarrow> int" where
  "cmpRelocs a b = sint (ucast (r_offset a - r_offset b) :: 32 word)"

text \<open>A fresh list, as the functions that collect relocations return it.\<close>

definition fresh_list :: "'v list \<Rightarrow> 'v LNode heap \<times> ptr" where
  "fresh_list vs =
     (map (\<lambda>i. Some \<lparr>l_value = vs ! i, l_next = (if i + 1 < length vs then Some (i + 1) else None)\<rparr>) [0..<length vs],
      if vs = [] then None else Some 0)"

text \<open>The new head that \<^verbatim>\<open>sortList\<close> returns is dropped: the list is read from its old head.\<close>

definition sort_in_place :: "RelocInfo list \<Rightarrow> (RelocInfo LNode heap \<times> ptr) result" where
  "sort_in_place rs =
     (case fresh_list rs of (h, head) \<Rightarrow>
        bindE (sortList (length rs + 1) cmpRelocs h head) (\<lambda>(h, newHead). Inr (h, head)))"

section \<open>One pair of relocations\<close>

definition special_section :: "GElf_Sym \<Rightarrow> bool" where
  "special_section s \<longleftrightarrow> unat (st_shndx s) \<in> {SHN_UNDEF, SHN_COMMON, SHN_ABS}"

definition section_name_of :: "ElfInfo \<Rightarrow> Elf_Scn \<Rightarrow> string result" where
  "section_name_of e scn = getScnHdrString e (sh_name (scn_shdr scn))"

text \<open>
  \<open>Some b\<close> ends the comparison with the value \<open>b\<close>: two of the breaks leave \<^verbatim>\<open>retval\<close> true.  \<open>None\<close> goes on.  A
  difference in size is only logged.
\<close>

definition compare_relocs :: "LibElf \<Rightarrow> ElfInfo \<Rightarrow> ElfInfo \<Rightarrow> RelocInfo \<Rightarrow> RelocInfo \<Rightarrow> bool option result" where
  "compare_relocs L oldBinary newBinary relocOld relocNew =
     bindE (getSymbol L oldBinary (symIdx relocOld)) (\<lambda>symOld.
     bindE (getSymbol L newBinary (symIdx relocNew)) (\<lambda>symNew.
     bindE (getString oldBinary (unat (st_name symOld))) (\<lambda>oldSymName.
     bindE (getString newBinary (unat (st_name symNew))) (\<lambda>newSymName.
     if oldSymName \<noteq> newSymName \<or> ST_TYPE (st_info symOld) \<noteq> ST_TYPE (st_info symNew) \<or>
        ST_BIND (st_info symOld) \<noteq> ST_BIND (st_info symNew) \<or> st_other symOld \<noteq> st_other symNew
     then Inr (Some False)
     else
       bindE
         (if \<not> special_section symOld \<and> \<not> special_section symNew then
            bindE (scn_or AssertFail oldBinary (unat (st_shndx symOld))) (\<lambda>scnOld.
            bindE (scn_or AssertFail newBinary (unat (st_shndx symNew))) (\<lambda>scnNew.
            bindE (section_name_of oldBinary scnOld) (\<lambda>scnNameOld.
            bindE (section_name_of newBinary scnNew) (\<lambda>scnNameNew.
              Inr (if scnNameOld \<noteq> scnNameNew then Some False else None)))))
          else if special_section symOld \<and> st_shndx symNew \<noteq> st_shndx symOld then Inr (Some True)
          else if special_section symNew \<and> st_shndx symNew \<noteq> st_shndx symOld then Inr (Some True)
          else Inr None) (\<lambda>stop.
       case stop of
         Some b \<Rightarrow> Inr (Some b)
       | None \<Rightarrow> Inr (if r_addend relocOld \<noteq> r_addend relocNew then Some False else None))))))"

section \<open>The comparison\<close>

record SubprogramInfo =
  sp_name :: string
  sp_lowpc :: addr_t
  sp_highpc :: addr_t

text \<open>One side of the comparison: the object, the function, its code and its relocations.\<close>

record CodeSide =
  cs_elf :: ElfInfo
  cs_lowpc :: addr_t
  cs_text :: "byte list"
  cs_heap :: "RelocInfo LNode heap"

definition next_reloc :: "CodeSide \<Rightarrow> ptr \<Rightarrow> RelocInfo LNode option result" where
  "next_reloc s li = (case li of None \<Rightarrow> Inr None | Some a \<Rightarrow> bindE (load (cs_heap s) li) (\<lambda>n. Inr (Some n)))"

definition applies_at :: "CodeSide \<Rightarrow> nat \<Rightarrow> RelocInfo LNode option \<Rightarrow> bool" where
  "applies_at s i r = (case r of None \<Rightarrow> False | Some n \<Rightarrow> cs_lowpc s + of_nat i = r_offset (l_value n))"

text \<open>A pair of relocations stands for eight bytes, whatever its type.\<close>

function diff_loop :: "LibElf \<Rightarrow> CodeSide \<Rightarrow> CodeSide \<Rightarrow> nat \<Rightarrow> nat \<Rightarrow> ptr \<Rightarrow> ptr \<Rightarrow> bool result" where
  "diff_loop L old new len i oldLi newLi =
     (if i < len then
        bindE (next_reloc old oldLi) (\<lambda>relocOld.
        bindE (next_reloc new newLi) (\<lambda>relocNew.
        if applies_at old i relocOld \<and> applies_at new i relocNew then
          bindE (compare_relocs L (cs_elf old) (cs_elf new) (l_value (the relocOld)) (l_value (the relocNew))) (\<lambda>stop.
            case stop of
              Some b \<Rightarrow> Inr b
            | None \<Rightarrow> diff_loop L old new len (i + 8) (l_next (the relocOld)) (l_next (the relocNew)))
        else if applies_at old i relocOld then Inr False
        else if applies_at new i relocNew then Inr False
        else
          bindE (elem_at (cs_text old) i) (\<lambda>a.
          bindE (elem_at (cs_text new) i) (\<lambda>b.
            if a \<noteq> b then Inr False else diff_loop L old new len (i + 1) oldLi newLi))))
      else Inr True)"
  by pat_completeness auto
termination by (relation "measure (\<lambda>(L, old, new, len, i, p, q). len - i)") auto

declare diff_loop.simps [simp del]

definition sp_len :: "SubprogramInfo \<Rightarrow> 32 word" where
  "sp_len f = ucast (sp_highpc f - sp_lowpc f)"

definition text_of :: "ElfInfo \<Rightarrow> string \<Rightarrow> addr_t \<Rightarrow> byte list result" where
  "text_of e fnname lowpc =
     bindE (getSectionByName e (take 1023 (''.text.'' @ fnname))) (\<lambda>scn.
     bindE (case scn of None \<Rightarrow> getSectionByERS e ERS_TEXT | Some i \<Rightarrow> scn_or AssertFail e i) (\<lambda>textScn.
       getDataAtAbs textScn lowpc IN_MEM))"

definition relocs_of :: "LibElf \<Rightarrow> ElfInfo \<Rightarrow> SubprogramInfo \<Rightarrow> RelocInfo list result" where
  "relocs_of L e f =
     bindE (getRelocationSection e (sp_name f)) (\<lambda>scn.
       getRelocationItemsInRange L e (case scn of None \<Rightarrow> None | Some i \<Rightarrow> getscn e i) (sp_lowpc f) (sp_highpc f))"

definition areSubprogramsIdentical ::
  "LibElf \<Rightarrow> SubprogramInfo \<Rightarrow> SubprogramInfo \<Rightarrow> ElfInfo \<Rightarrow> ElfInfo \<Rightarrow> bool result" where
  "areSubprogramsIdentical L patcheeFunc patchedFunc oldBinary newBinary =
     (if sp_len patcheeFunc \<noteq> sp_len patchedFunc then Inr False
      else
        bindE (relocs_of L oldBinary patcheeFunc) (\<lambda>oldRelocations.
        bindE (relocs_of L newBinary patchedFunc) (\<lambda>newRelocations.
        if length oldRelocations \<noteq> length newRelocations then Inr False
        else
          bindE (sort_in_place oldRelocations) (\<lambda>(oldHeap, oldLi).
          bindE (sort_in_place newRelocations) (\<lambda>(newHeap, newLi).
          bindE (text_of oldBinary (sp_name patcheeFunc) (sp_lowpc patcheeFunc)) (\<lambda>textOld.
          bindE (text_of newBinary (sp_name patcheeFunc) (sp_lowpc patchedFunc)) (\<lambda>textNew.
            diff_loop L
              \<lparr>cs_elf = oldBinary, cs_lowpc = sp_lowpc patcheeFunc, cs_text = textOld, cs_heap = oldHeap\<rparr>
              \<lparr>cs_elf = newBinary, cs_lowpc = sp_lowpc patchedFunc, cs_text = textNew, cs_heap = newHeap\<rparr>
              (nat (sint (sp_len patcheeFunc))) 0 oldLi newLi)))))))"

end
