(* ===== verification/Symbol_Properties.thy ===== *)
theory Symbol_Properties
  imports Symbols
begin

text \<open>
  What the symbol searches find.  An object is well formed for them when its symbol table, its strings and
  the names of the sections its symbols are in can be read.
\<close>

definition sym_at :: "Elf_Scn \<Rightarrow> nat \<Rightarrow> GElf_Sym" where
  "sym_at tab i = sym_of_bytes (take 24 (drop (i * 24) (d_buf tab)))"

definition special_shndx :: "nat \<Rightarrow> bool" where
  "special_shndx shndx \<longleftrightarrow> shndx = SHN_UNDEF \<or> shndx = SHN_COMMON"

definition named_section :: "ElfInfo \<Rightarrow> nat \<Rightarrow> string \<Rightarrow> bool" where
  "named_section e shndx s \<longleftrightarrow>
     (\<exists>scn. scn_or AssertFail e shndx = Inr scn \<and> getScnHdrString e (sh_name (scn_shdr scn)) = Inr s)"

definition symtab_ok :: "ElfInfo \<Rightarrow> Elf_Scn \<Rightarrow> bool" where
  "symtab_ok e tab \<longleftrightarrow> getDataByERS e ERS_SYMTAB = Inr tab \<and> d_size tab = length (d_buf tab) \<and>
     (\<forall>i<d_size tab div 24. \<exists>s. getString e (unat (st_name (sym_at tab i))) = Inr s \<and>
        (special_shndx (unat (st_shndx (sym_at tab i))) \<or> (\<exists>nm. named_section e (unat (st_shndx (sym_at tab i))) nm)))"

lemma entry_in: "i < length (d_buf scn) div sz \<Longrightarrow> entry f sz scn i = Some (f (take sz (drop (i * sz) (d_buf scn))))"
proof -
  assume "i < length (d_buf scn) div sz"
  then have "Suc i * sz \<le> length (d_buf scn) div sz * sz" by (intro mult_le_mono1) simp
  also have "\<dots> \<le> length (d_buf scn)" by simp
  finally show ?thesis by (simp add: entry_def add.commute)
qed

lemma copy_entry:
  assumes "i < length buf div 24"
  shows "copy_out (drop (i * 24) buf) 24 = Inr (take 24 (drop (i * 24) buf))"
proof -
  have "(i + 1) * 24 \<le> length buf div 24 * 24" using assms by (intro mult_le_mono1) simp
  also have "\<dots> \<le> length buf" by simp
  finally show ?thesis by (intro copy_out_in) simp
qed

section \<open>The last match\<close>

lemma last_match_none: "(\<And>i. i \<in> set is \<Longrightarrow> m i = Inr False) \<Longrightarrow> last_match m is r = Inr r"
  by (induction "is") simp_all

lemma last_match_total:
  assumes "\<And>i. i \<in> set is \<Longrightarrow> \<exists>b. m i = Inr b"
  shows "\<exists>k. last_match m is r = Inr k \<and> (k \<in> set is \<and> m k = Inr True \<or> k = r)"
  using assms
proof (induction "is" arbitrary: r)
  case (Cons i "is")
  obtain b where "m i = Inr b" using Cons.prems [of i] by auto
  moreover obtain k where "last_match m is (if b then i else r) = Inr k"
      "k \<in> set is \<and> m k = Inr True \<or> k = (if b then i else r)"
    using Cons.IH [of "if b then i else r"] Cons.prems by auto
  ultimately show ?case by (auto split: if_splits)
qed simp

lemma last_match_found:
  assumes "\<And>i. i \<in> set (xs @ j # ys) \<Longrightarrow> \<exists>b. m i = Inr b" "m j = Inr True"
  shows "\<exists>k. last_match m (xs @ j # ys) r = Inr k \<and> k \<in> set (j # ys) \<and> m k = Inr True"
  using assms
proof (induction xs arbitrary: r)
  case Nil
  then have "\<exists>k. last_match m ys j = Inr k \<and> (k \<in> set ys \<and> m k = Inr True \<or> k = j)"
    by (intro last_match_total) auto
  with Nil show ?case by auto
next
  case (Cons x xs)
  obtain b where "m x = Inr b" using Cons.prems(1) [of x] by auto
  with Cons.IH [of "if b then x else r"] Cons.prems show ?case by auto
qed

section \<open>Matching inside one object\<close>

text \<open>What a match means.\<close>

definition same_symbol :: "ElfInfo \<Rightarrow> ElfInfo \<Rightarrow> int \<Rightarrow> GElf_Sym \<Rightarrow> string \<Rightarrow> GElf_Sym \<Rightarrow> bool" where
  "same_symbol e ref flags a name b \<longleftrightarrow>
     (ST_TYPE (st_info a) = STT_SECTION \<and> ST_TYPE (st_info b) = STT_SECTION \<or>
      (\<exists>s. string_for e flags (unat (st_name b)) = Inr s \<and> unmangleSymbolName s = unmangled flags name)) \<and>
     ST_BIND (st_info a) = ST_BIND (st_info b) \<and> st_other a = st_other b \<and>
     (ST_TYPE (st_info a) = ST_TYPE (st_info b) \<or> STT_NOTYPE \<in> {ST_TYPE (st_info a), ST_TYPE (st_info b)}) \<and>
     sections_match e ref flags name (ST_TYPE (st_info a)) (unat (st_shndx a)) (unat (st_shndx b)) = Inr True"

lemma symbol_matches_sound:
  assumes "symbol_matches e sy ref flags name tab i = Inr True"
  shows "same_symbol e ref flags sy name (sym_at tab i)"
  using assms
  by (auto simp: symbol_matches_def same_symbol_def sym_at_def Let_def bindE_eq_Inr copy_out_def split: if_splits)

lemma sections_match_total:
  assumes "special_shndx a \<or> (\<exists>s. named_section ref a s)" "special_shndx b \<or> (\<exists>s. named_section e b s)"
  shows "\<exists>r. sections_match e ref flags name type a b = Inr r"
  using assms by (auto simp: sections_match_def special_shndx_def named_section_def Let_def)

lemma sections_match_same:
  assumes "special_shndx a \<or> (\<exists>s. named_section e a s)"
  shows "sections_match e e flags name type a a = Inr True"
  using assms by (auto simp: sections_match_def special_shndx_def named_section_def Let_def)

lemma if_total: "\<exists>b. x = Inr b \<Longrightarrow> \<exists>b. y = Inr b \<Longrightarrow> \<exists>b. (if c then x else y) = (Inr b :: 'a result)"
  by simp

lemma symbol_matches_total:
  assumes "symtab_ok e tab" "i < d_size tab div 24" "\<not> flag flags ESFF_NEW_DYNAMIC"
    "special_shndx (unat (st_shndx sy)) \<or> (\<exists>s. named_section ref (unat (st_shndx sy)) s)"
  shows "\<exists>b. symbol_matches e sy ref flags name tab i = Inr b"
proof -
  let ?s = "sym_at tab i"
  obtain s where s: "getString e (unat (st_name ?s)) = Inr s"
      "special_shndx (unat (st_shndx ?s)) \<or> (\<exists>nm. named_section e (unat (st_shndx ?s)) nm)"
    using assms(1,2) by (auto simp: symtab_ok_def)
  obtain r where "sections_match e ref flags name (ST_TYPE (st_info sy)) (unat (st_shndx sy)) (unat (st_shndx ?s)) = Inr r"
    using sections_match_total [OF assms(4) s(2)] by blast
  moreover have "copy_out (drop (i * 24) (d_buf tab)) 24 = Inr (take 24 (drop (i * 24) (d_buf tab)))"
    using assms(1,2) by (intro copy_entry) (simp add: symtab_ok_def)
  ultimately show ?thesis
    unfolding symbol_matches_def Let_def string_for_def using s(1) assms(3)
    by (simp only: bindE_simps if_False flip: sym_at_def) (intro if_total exI, (rule refl | assumption)+)
qed

lemma symbol_matches_itself:
  assumes "symtab_ok e tab" "i < d_size tab div 24" "\<not> flag flags ESFF_NEW_DYNAMIC"
    "getString e (unat (st_name (sym_at tab i))) = Inr name"
    "flag flags ESFF_MANGLED_OK \<or> CHR ''@'' \<notin> set name \<or> ST_TYPE (st_info (sym_at tab i)) = STT_SECTION"
  shows "symbol_matches e (sym_at tab i) e flags name tab i = Inr True"
proof -
  let ?s = "sym_at tab i"
  have "special_shndx (unat (st_shndx ?s)) \<or> (\<exists>nm. named_section e (unat (st_shndx ?s)) nm)"
    using assms(1,2) by (auto simp: symtab_ok_def)
  note secs = sections_match_same [OF this]
  have "ST_TYPE (st_info ?s) = STT_SECTION \<or> unmangleSymbolName name = unmangled flags name"
    using assms(5) by (auto simp: unmangled_def unmangleSymbolName_def takeWhile_eq_all_conv)
  moreover have "copy_out (drop (i * 24) (d_buf tab)) 24 = Inr (take 24 (drop (i * 24) (d_buf tab)))"
    using assms(1,2) by (intro copy_entry) (simp add: symtab_ok_def)
  ultimately show ?thesis
    using assms(3,4) by (simp add: symbol_matches_def string_for_def Let_def secs flip: sym_at_def)
qed

lemma getSymbol_in:
  assumes "reads_tables L" "symtab_ok e tab" "i < d_size tab div 24"
  shows "getSymbol L e i = Inr (sym_at tab i)"
  using assms entry_in [of i tab 24 sym_of_bytes]
  by (simp add: getSymbol_def symtab_ok_def reads_tables_def sym_at_def)

lemma findSymbol_in:
  assumes "symtab_ok e tab" "0 < j" "j < d_size tab div 24" "\<not> flag flags ESFF_NEW_DYNAMIC"
    "getString e (unat (st_name (sym_at tab j))) = Inr name"
    "flag flags ESFF_MANGLED_OK \<or> CHR ''@'' \<notin> set name \<or> ST_TYPE (st_info (sym_at tab j)) = STT_SECTION"
  shows "\<exists>k\<ge>j. k < d_size tab div 24 \<and> findSymbol e (sym_at tab j) e flags = Inr k \<and>
    same_symbol e e flags (sym_at tab j) name (sym_at tab k)"
proof -
  let ?n = "d_size tab div 24" and ?m = "symbol_matches e (sym_at tab j) e flags name tab"
  have split: "[1..<?n] = [1..<j] @ j # [Suc j..<?n]"
    using assms(2,3) by (metis Suc_leI One_nat_def le_add_diff_inverse less_imp_le_nat upt_add_eq_append upt_conv_Cons)
  have "special_shndx (unat (st_shndx (sym_at tab j))) \<or> (\<exists>nm. named_section e (unat (st_shndx (sym_at tab j))) nm)"
    using assms(1,3) by (auto simp: symtab_ok_def)
  then have "\<exists>b. ?m i = Inr b" if "i \<in> set ([1..<j] @ j # [Suc j..<?n])" for i
    by (intro symbol_matches_total [OF assms(1) _ assms(4)]) (use that assms(3) in auto)
  from last_match_found [of "[1..<j]" j "[Suc j..<?n]" ?m 0, OF this symbol_matches_itself [OF assms(1,3-6)]]
  obtain k where "last_match ?m [1..<?n] 0 = Inr k" "k \<in> set (j # [Suc j..<?n])" "?m k = Inr True"
    unfolding split by blast
  with assms show ?thesis
    by (intro exI [of _ k]) (auto simp: findSymbol_def symtab_for_def symtab_ok_def dest: symbol_matches_sound)
qed

text \<open>A name with a version is never found as long as the fuzzy flag for names is not given.\<close>

lemma versioned_name_not_found:
  assumes "getString ref (unat (st_name sy)) = Inr name" "CHR ''@'' \<in> set name" "\<not> flag flags ESFF_MANGLED_OK"
    "ST_TYPE (st_info sy) \<noteq> STT_SECTION" "findSymbol e sy ref flags = Inr k"
  shows "k = 0"
proof -
  have ne: "unmangleSymbolName s \<noteq> name" for s
    using assms(2) by (auto simp: unmangleSymbolName_def dest: set_takeWhileD)
  have step: "m i \<noteq> Inr True \<Longrightarrow> last_match m (i # is) r = Inr k \<Longrightarrow> last_match m is r = Inr k"
    for m :: "nat \<Rightarrow> bool result" and i "is" r by (cases "m i") auto
  have "last_match m is r = Inr k \<Longrightarrow> (\<And>i. m i \<noteq> Inr True) \<Longrightarrow> k = r" for m "is" r
  proof (induction "is")
    case (Cons i "is")
    from step [OF Cons.prems(2) Cons.prems(1)] Cons.IH Cons.prems(2) show ?case by blast
  qed simp
  moreover obtain tab where "last_match (symbol_matches e sy ref flags name tab) [1..<d_size tab div 24] 0 = Inr k"
    using assms(1,5) by (auto simp: findSymbol_def bindE_eq_Inr)
  moreover have "symbol_matches e sy ref flags name tab i \<noteq> Inr True" for tab i
    using ne assms(3,4) by (auto simp: symbol_matches_def unmangled_def Let_def bindE_eq_Inr split: if_splits)
  ultimately show ?thesis by blast
qed

lemma findSymbol_total:
  assumes "symtab_ok e tab" "j < d_size tab div 24" "\<not> flag flags ESFF_NEW_DYNAMIC"
    "getString e (unat (st_name (sym_at tab j))) = Inr name"
  shows "\<exists>k. findSymbol e (sym_at tab j) e flags = Inr k"
proof -
  have "special_shndx (unat (st_shndx (sym_at tab j))) \<or> (\<exists>nm. named_section e (unat (st_shndx (sym_at tab j))) nm)"
    using assms(1,2) by (auto simp: symtab_ok_def)
  then have "\<exists>b. symbol_matches e (sym_at tab j) e flags name tab i = Inr b" if "i \<in> set [1..<d_size tab div 24]" for i
    by (intro symbol_matches_total [OF assms(1) _ assms(3)]) (use that in auto)
  from last_match_total [of "[1..<d_size tab div 24]" "symbol_matches e (sym_at tab j) e flags name tab", OF this] obtain k where
    "last_match (symbol_matches e (sym_at tab j) e flags name tab) [1..<d_size tab div 24] 0 = Inr k" by blast
  then show ?thesis
    using assms by (auto simp: findSymbol_def symtab_for_def symtab_ok_def)
qed

lemma fuzzy_flags:
  "flag (flags AND NOT ESFF_FUZZY_MATCHING_OK) ESFF_NEW_DYNAMIC \<longleftrightarrow> flag flags ESFF_NEW_DYNAMIC"
  "\<not> flag (flags AND NOT ESFF_FUZZY_MATCHING_OK) ESFF_MANGLED_OK"
  by (simp_all add: flag_def ESFF_NEW_DYNAMIC_def ESFF_MANGLED_OK_def ESFF_FUZZY_MATCHING_OK_def and.assoc)


text \<open>A small object: two symbols, the second a function \<open>f\<close> of size 16 at address 4096.\<close>

definition small_shdr :: "nat \<Rightarrow> nat \<Rightarrow> GElf_Shdr" where
  "small_shdr type n = \<lparr>sh_name = 0, sh_type = type, sh_flags = 0, sh_addr = 0, sh_offset = 0, sh_size = of_nat n,
     sh_link = 0, sh_info = 0, sh_addralign = 1, sh_entsize = 24\<rparr>"

definition small_symtab :: Elf_Scn where
  "small_symtab = \<lparr>scn_shdr = small_shdr 2 48, d_size = 48,
     d_buf = [0, 0, 0, 0, 0, 0, 0, 0, 0, 0, 0, 0, 0, 0, 0, 0, 0, 0, 0, 0, 0, 0, 0, 0, 
       1, 0, 0, 0, 0x12, 0, 0, 0, 0, 16, 0, 0, 0, 0, 0, 0, 16, 0, 0, 0, 0, 0, 0, 0]\<rparr>"

definition small_elf :: ElfInfo where
  "small_elf = \<lparr>e_scns = [\<lparr>scn_shdr = small_shdr 0 0, d_size = 0, d_buf = []\<rparr>, small_symtab,
       \<lparr>scn_shdr = small_shdr 3 3, d_size = 3, d_buf = [0, 102, 0]\<rparr>],
     symTabCount = 2, sectionHdrStrTblIdx = 0, strTblIdx = 2, textRelocCount = 0,
     sectionIndices = (\<lambda>_. 0)(ERS_SYMTAB := 1), e_ints = replicate 5 0, isPO = False, arch_bitwidth = 64,
     textUsesSmallCodeModel = False\<rparr>"

lemma small_symbols:
  "sym_at small_symtab 0 = \<lparr>st_name = 0, st_info = 0, st_other = 0, st_shndx = 0, st_value = 0, st_size = 0\<rparr>"
  "sym_at small_symtab 1 = \<lparr>st_name = 1, st_info = 0x12, st_other = 0, st_shndx = 0, st_value = 4096, st_size = 16\<rparr>"
  by (simp_all add: sym_at_def small_symtab_def sym_of_bytes_def le_word_def le_int_Cons)

lemma small_strings: "getString small_elf 0 = Inr []" "getString small_elf 1 = Inr ''f''"
  by (simp_all add: getString_def scn_or_def getscn_def small_elf_def c_string_def char_of_def bit_Suc_0_iff)

lemma small_symtab_data: "getDataByERS small_elf ERS_SYMTAB = Inr small_symtab" "d_size small_symtab = 48"
    "length (d_buf small_symtab) = 48"
  by (simp_all add: getDataByERS_def scn_or_def getscn_def small_elf_def small_symtab_def)

lemma small_symtab_ok: "symtab_ok small_elf small_symtab"
proof -
  have n: "d_size small_symtab div 24 = 2" by (simp add: small_symtab_data)
  show ?thesis
    unfolding symtab_ok_def special_shndx_def n
    by (simp add: numeral_2_eq_2 All_less_Suc small_symtab_data small_symbols [simplified] small_strings [simplified])
qed


section \<open>The symbol at an address\<close>

lemma first_covering_found:
  assumes "\<And>i. i \<in> set is \<Longrightarrow> gelf_getsym L tab i = Some (f i)"
  shows "first_covering L tab P is = Inr (case find (\<lambda>i. P (f i)) is of None \<Rightarrow> STN_UNDEF | Some i \<Rightarrow> i)"
  using assms by (induction "is") auto

text \<open>
  C28: on an object whose symbol table has the entries it counts, the search by address returns the first
  symbol of the type and section asked for that starts at the address or spans it, and 0 exactly when there is
  none behind the first entry.
\<close>

theorem findSymbolContainingAddress_first:
  assumes "reads_tables L" "getDataByERS e ERS_SYMTAB = Inr tab" "symTabCount e * 24 \<le> length (d_buf tab)"
  shows "\<exists>i. findSymbolContainingAddress L e addr type scnIdx = Inr i \<and>
    (if i = 0 then \<forall>k. 0 < k \<and> k < symTabCount e \<longrightarrow> \<not> sym_covers addr type scnIdx (sym_at tab k)
     else i < symTabCount e \<and> sym_covers addr type scnIdx (sym_at tab i) \<and>
       (\<forall>k. 0 < k \<and> k < i \<longrightarrow> \<not> sym_covers addr type scnIdx (sym_at tab k)))"
proof -
  let ?n = "symTabCount e" and ?P = "\<lambda>k. sym_covers addr type scnIdx (sym_at tab k)"
  have "gelf_getsym L tab k = Some (sym_at tab k)" if "k < ?n" for k
  proof -
    have "(k + 1) * 24 \<le> ?n * 24" using that by (intro mult_le_mono1) simp
    with assms(1,3) show ?thesis by (simp add: reads_tables_def entry_def sym_at_def)
  qed
  then have "first_covering L tab (sym_covers addr type scnIdx) [1..<?n] =
      Inr (case find ?P [1..<?n] of None \<Rightarrow> STN_UNDEF | Some i \<Rightarrow> i)"
    by (intro first_covering_found) auto
  moreover have "hasERS e ERS_SYMTAB" using assms(2) by (auto simp: getDataByERS_def hasERS_def bindE_eq_Inr)
  ultimately have res: "findSymbolContainingAddress L e addr type scnIdx =
      Inr (case find ?P [1..<?n] of None \<Rightarrow> 0 | Some i \<Rightarrow> i)"
    using assms(2) by (simp add: findSymbolContainingAddress_def)
  have none: "\<not> ?P k" if "find ?P [1..<?n] = None" "0 < k" "k < ?n" for k
    using that by (auto simp: find_None_iff)
  have some: "0 < i \<and> i < ?n \<and> ?P i \<and> (\<forall>k. 0 < k \<and> k < i \<longrightarrow> \<not> ?P k)" if found: "find ?P [1..<?n] = Some i" for i
  proof -
    obtain m where "m < ?n - 1" "i = m + 1" "?P i" "\<forall>j<m. \<not> ?P (j + 1)"
      using found by (auto simp: find_Some_iff nth_upt)
    moreover from this(4) have "\<not> ?P k" if "0 < k" "k < m + 1" for k
      using that by (cases k) auto
    ultimately show ?thesis by auto
  qed
  show ?thesis
  proof (cases "find ?P [1..<?n]")
    case None
    from none [OF None] res None show ?thesis by (intro exI [of _ 0]) simp
  next
    case (Some i)
    from some [OF Some] res Some show ?thesis by (intro exI [of _ i]) simp
  qed
qed

theorem findSymbolContainingAddress_first_witness:
  "findSymbolContainingAddress elf64 small_elf 4104 STT_FUNC 0 = Inr 1 \<and>
   findSymbolContainingAddress elf64 small_elf 4112 STT_FUNC 0 = Inr 0"
proof -
  have c: "symTabCount small_elf = 2" "sym_covers 4104 STT_FUNC 0 (sym_at small_symtab 1)"
      "\<not> sym_covers 4112 STT_FUNC 0 (sym_at small_symtab 1)"
    by (simp_all add: small_elf_def small_symbols [simplified] sym_covers_def ST_TYPE_def)
  note r = findSymbolContainingAddress_first [OF reads_tables_elf64 small_symtab_data(1), unfolded small_symtab_data(3) c(1)]
  have n: "2 * 24 \<le> (48 :: nat)" by simp
  obtain i where i: "findSymbolContainingAddress elf64 small_elf 4104 STT_FUNC 0 = Inr i"
      "if i = 0 then \<forall>k. 0 < k \<and> k < 2 \<longrightarrow> \<not> sym_covers 4104 STT_FUNC 0 (sym_at small_symtab k)
       else i < 2 \<and> sym_covers 4104 STT_FUNC 0 (sym_at small_symtab i) \<and>
         (\<forall>k. 0 < k \<and> k < i \<longrightarrow> \<not> sym_covers 4104 STT_FUNC 0 (sym_at small_symtab k))"
    using r [OF n, of 4104 STT_FUNC 0] by blast
  have "i = 1" using i(2) c(2) by (cases "i = 0") auto
  moreover obtain j where j: "findSymbolContainingAddress elf64 small_elf 4112 STT_FUNC 0 = Inr j"
      "if j = 0 then \<forall>k. 0 < k \<and> k < 2 \<longrightarrow> \<not> sym_covers 4112 STT_FUNC 0 (sym_at small_symtab k)
       else j < 2 \<and> sym_covers 4112 STT_FUNC 0 (sym_at small_symtab j) \<and>
         (\<forall>k. 0 < k \<and> k < j \<longrightarrow> \<not> sym_covers 4112 STT_FUNC 0 (sym_at small_symtab k))"
    using r [OF n, of 4112 STT_FUNC 0] by blast
  have "j = 0"
  proof (rule ccontr)
    assume "j \<noteq> 0"
    with j(2) have "j = 1" by simp
    with j(2) c(3) show False by simp
  qed
  ultimately show ?thesis using i(1) j(1) by simp
qed

end
