(* ===== verification/Code_Diff_Properties.thy ===== *)
theory Code_Diff_Properties
  imports Code_Diff List_Properties Symbol_Properties
begin

text \<open>
  What the comparison of two functions shows: where it answers yes the bytes agree, except under a pair of
  relocations that agree; and what it takes for equal although it is not.
\<close>

section \<open>The sorted relocations\<close>

lemma fresh_suffix:
  assumes "fresh_list vs = (h, p)" "k \<le> length vs"
  shows "list_at h (if k < length vs then Some k else None) [k..<length vs]"
  using assms(2)
proof (induction "length vs - k" arbitrary: k)
  case (Suc d)
  then have k: "k < length vs" and "d = length vs - Suc k" "Suc k \<le> length vs" by auto
  note ih = Suc.hyps(1) [OF this(2,3)]
  have "cell h k \<lparr>l_value = vs ! k, l_next = (if k + 1 < length vs then Some (k + 1) else None)\<rparr>"
    using assms(1) k by (auto simp: fresh_list_def)
  moreover have "[k..<length vs] = k # [Suc k..<length vs]" using k by (rule upt_conv_Cons)
  ultimately show ?case using ih k by (auto split: if_splits simp del: upt_Suc)
qed simp

lemma fresh_values: "fresh_list vs = (h, p) \<Longrightarrow> length h = length vs \<and> (\<forall>a<length vs. map_option l_value (h ! a) = Some (vs ! a))"
  by (auto simp: fresh_list_def)

text \<open>Sorting succeeds, keeps the values, and the old head leads to the end of the list.\<close>

lemma sort_in_place_ok:
  "\<exists>h p as. sort_in_place rs = Inr (h, p) \<and> list_at h p as \<and> (p = None \<longleftrightarrow> rs = []) \<and> length h = length rs \<and>
    (\<forall>a<length rs. map_option l_value (h ! a) = Some (rs ! a))"
proof -
  obtain h0 p0 where f: "fresh_list rs = (h0, p0)" by (cases "fresh_list rs")
  have p0: "p0 = (if rs = [] then None else Some 0)" using f by (auto simp: fresh_list_def)
  have l: "list_at h0 p0 [0..<length rs]" using fresh_suffix [OF f, of 0] p0 by (auto split: if_splits)
  obtain h p where s: "sortList (length rs + 1) cmpRelocs h0 p0 = Inr (h, p)" "relinks (set [0..<length rs]) h0 h"
      "list_at h p (msort (node_cmp cmpRelocs (value_at h0)) [0..<length rs])"
    using sortList_ok [OF l, of "length rs + 1" "value_at h0" cmpRelocs] by auto
  have "\<exists>as. list_at h p0 as"
  proof (cases "rs = []")
    case False
    then have "0 \<in> set (msort (node_cmp cmpRelocs (value_at h0)) [0..<length rs])"
      by (simp add: list_msort.same_set)
    then obtain xs ys where "msort (node_cmp cmpRelocs (value_at h0)) [0..<length rs] = xs @ 0 # ys"
      by (auto simp: in_set_conv_decomp)
    with s(3) have "list_at h (Some 0) (0 # ys)" by (intro old_head [of h p xs 0 ys]) simp
    then show ?thesis using False p0 by (intro exI [of _ "0 # ys"]) (simp only: if_False)
  qed (use p0 in \<open>auto intro: exI [of _ "[]"]\<close>)
  then obtain as where "list_at h p0 as" ..
  moreover have "sort_in_place rs = Inr (h, p0)" using f s(1) by (simp add: sort_in_place_def)
  ultimately show ?thesis
    using s(2) fresh_values [OF f] p0 by (intro exI [of _ h] exI [of _ p0] exI [of _ as]) (auto simp: relinks_def)
qed

section \<open>Agreement\<close>

definition holds :: "RelocInfo set \<Rightarrow> CodeSide \<Rightarrow> bool" where
  "holds R s \<longleftrightarrow> (\<forall>a<length (cs_heap s). \<forall>n. cs_heap s ! a = Some n \<longrightarrow> l_value n \<in> R)"

lemma next_reloc_in: "holds R s \<Longrightarrow> next_reloc s li = Inr (Some n) \<Longrightarrow> l_value n \<in> R"
  by (auto simp: holds_def next_reloc_def bindE_eq_Inr load_eq_Inr split: option.splits)

text \<open>A pair of relocations \<open>j\<close> bytes into both functions at which the comparison went on, or ended with yes.\<close>

definition paired :: "LibElf \<Rightarrow> CodeSide \<Rightarrow> CodeSide \<Rightarrow> RelocInfo set \<Rightarrow> RelocInfo set \<Rightarrow> nat \<Rightarrow> bool option \<Rightarrow> bool" where
  "paired L old new R S j stop \<longleftrightarrow>
     (\<exists>r\<in>R. \<exists>s\<in>S. r_offset r = cs_lowpc old + of_nat j \<and> r_offset s = cs_lowpc new + of_nat j \<and>
        compare_relocs L (cs_elf old) (cs_elf new) r s = Inr stop)"

lemma diff_loop_True:
  assumes "holds R old" "holds S new" "diff_loop L old new len i p q = Inr True" "i \<le> k" "k < len"
  shows "(k < length (cs_text old) \<and> k < length (cs_text new) \<and> cs_text old ! k = cs_text new ! k) \<or>
    (\<exists>j\<le>k. paired L old new R S j None \<and> k < j + 8 \<or> paired L old new R S j (Some True))"
  using assms
proof (induction L old new len i p q rule: diff_loop.induct)
  case (1 L old new len i p q)
  have "i < len" using 1(5,6,7) by simp
  obtain ro rn where r: "next_reloc old p = Inr ro" "next_reloc new q = Inr rn"
    using 1(5) \<open>i < len\<close> by (subst (asm) diff_loop.simps) (auto simp: bindE_eq_Inr)
  note run = 1(5) [unfolded diff_loop.simps [of L old new len i p q], simplified r \<open>i < len\<close> if_True bindE_simps]
  show ?case
  proof (cases "applies_at old i ro \<and> applies_at new i rn")
    case True
    then obtain no nn where n: "ro = Some no" "rn = Some nn" "cs_lowpc old + of_nat i = r_offset (l_value no)"
        "cs_lowpc new + of_nat i = r_offset (l_value nn)"
      by (auto simp: applies_at_def split: option.splits)
    obtain stop where stop: "compare_relocs L (cs_elf old) (cs_elf new) (l_value no) (l_value nn) = Inr stop"
      using run True n by (auto simp: bindE_eq_Inr)
    have pr: "paired L old new R S i stop"
      using stop n next_reloc_in [OF 1(3), of p no] next_reloc_in [OF 1(4), of q nn] r by (auto simp: paired_def)
    show ?thesis
    proof (cases stop)
      case None
      then have "diff_loop L old new len (i + 8) (l_next no) (l_next nn) = Inr True"
        using run True n stop by simp
      moreover have ih: "diff_loop L old new len (i + 8) (l_next no) (l_next nn) = Inr True \<Longrightarrow> i + 8 \<le> k \<Longrightarrow> ?thesis"
        using 1(1) [OF \<open>i < len\<close> r True, of stop] stop None n 1(3,4,7) by simp
      ultimately show ?thesis using pr None 1(6) by (cases "i + 8 \<le> k") auto
    next
      case (Some b)
      then show ?thesis using run True n stop pr 1(6) by auto
    qed
  next
    case False
    then have no: "\<not> applies_at old i ro" "\<not> applies_at new i rn"
      using run by (auto split: if_splits)
    obtain a b where ab: "elem_at (cs_text old) i = Inr a" "elem_at (cs_text new) i = Inr b" "a = b"
        "diff_loop L old new len (i + 1) p q = Inr True"
      using run False no by (auto simp: bindE_eq_Inr split: if_splits)
    show ?thesis
    proof (cases "k = i")
      case True
      with ab show ?thesis by (auto simp: elem_at_eq_Inr)
    next
      case False
      with 1(6) have "i + 1 \<le> k" by simp
      then show ?thesis
        using 1(2) [OF \<open>i < len\<close> r _ no ab(1,2)] ab(3,4) 1(3,4,7) \<open>\<not> (applies_at old i ro \<and> applies_at new i rn)\<close> by simp
    qed
  qed
qed

text \<open>
  The two relocations are for symbols of the same name, type, binding and visibility.
\<close>

definition same_symbols :: "LibElf \<Rightarrow> ElfInfo \<Rightarrow> ElfInfo \<Rightarrow> RelocInfo \<Rightarrow> RelocInfo \<Rightarrow> GElf_Sym \<Rightarrow> GElf_Sym \<Rightarrow> bool" where
  "same_symbols L old new r s x y \<longleftrightarrow>
     getSymbol L old (symIdx r) = Inr x \<and> getSymbol L new (symIdx s) = Inr y \<and>
     (\<exists>nm. getString old (unat (st_name x)) = Inr nm \<and> getString new (unat (st_name y)) = Inr nm) \<and>
     ST_TYPE (st_info x) = ST_TYPE (st_info y) \<and> ST_BIND (st_info x) = ST_BIND (st_info y) \<and> st_other x = st_other y"

text \<open>Moreover the symbols are in sections of the same name, or in the same special section, and the addends are equal.\<close>

definition relocs_agree :: "LibElf \<Rightarrow> ElfInfo \<Rightarrow> ElfInfo \<Rightarrow> RelocInfo \<Rightarrow> RelocInfo \<Rightarrow> bool" where
  "relocs_agree L old new r s \<longleftrightarrow>
     (\<exists>x y. same_symbols L old new r s x y \<and> r_addend r = r_addend s \<and>
        (if special_section x \<or> special_section y then st_shndx x = st_shndx y
         else \<exists>p q nm. getscn old (unat (st_shndx x)) = Some p \<and> getscn new (unat (st_shndx y)) = Some q \<and>
           section_name_of old p = Inr nm \<and> section_name_of new q = Inr nm))"

text \<open>One of the symbols is in a special section, and the other one is not in that section.\<close>

definition special_clash :: "LibElf \<Rightarrow> ElfInfo \<Rightarrow> ElfInfo \<Rightarrow> RelocInfo \<Rightarrow> RelocInfo \<Rightarrow> bool" where
  "special_clash L old new r s \<longleftrightarrow>
     (\<exists>x y. same_symbols L old new r s x y \<and> (special_section x \<or> special_section y) \<and> st_shndx x \<noteq> st_shndx y)"

lemma compare_relocs_True:
  assumes "compare_relocs L old new r s = Inr stop" "stop \<noteq> Some False"
  shows "if stop = None then relocs_agree L old new r s else special_clash L old new r s"
proof -
  obtain x y a b where sym: "getSymbol L old (symIdx r) = Inr x" "getSymbol L new (symIdx s) = Inr y"
      "getString old (unat (st_name x)) = Inr a" "getString new (unat (st_name y)) = Inr b"
    using assms(1) by (auto simp: compare_relocs_def bindE_eq_Inr)
  note run = assms(1) [unfolded compare_relocs_def sym bindE_simps]
  have same: "same_symbols L old new r s x y"
    using run sym assms(2) by (auto simp: same_symbols_def split: if_splits)
  consider (plain) "\<not> special_section x" "\<not> special_section y"
    | (equal) "special_section x \<or> special_section y" "st_shndx x = st_shndx y"
    | (clash) "special_section x \<or> special_section y" "st_shndx x \<noteq> st_shndx y" by blast
  then show ?thesis
  proof cases
    case plain
    then obtain p q nm where "getscn old (unat (st_shndx x)) = Some p" "getscn new (unat (st_shndx y)) = Some q"
        "section_name_of old p = Inr nm" "section_name_of new q = Inr nm" "stop = None" "r_addend r = r_addend s"
      using run assms(2) by (auto simp: bindE_eq_Inr scn_or_def split: if_splits option.splits)
    with plain same show ?thesis unfolding relocs_agree_def by simp (intro exI [of _ x] exI [of _ y], simp)
  next
    case equal
    then have "stop = None" "r_addend r = r_addend s"
      using run assms(2) by (auto split: if_splits)
    with equal same show ?thesis by (auto simp: relocs_agree_def)
  next
    case clash
    then have "stop = Some True" using run assms(2) by (auto split: if_splits)
    with clash same show ?thesis by (auto simp: special_clash_def)
  qed
qed

text \<open>
  C16: when two functions are reported identical, they have the same length (as a 32-bit number) and as many
  relocations, and every byte of one equals the byte of the other, unless it lies in the eight bytes behind a
  pair of their relocations that agree (symbols of the same name, type, binding and visibility in sections of the same
  name, the same addend), or anywhere behind a pair whose symbols are alike but in different special sections.
\<close>

theorem identical_code_agrees:
  assumes "areSubprogramsIdentical L f g old new = Inr True" "k < nat (sint (sp_len f))"
  shows "sp_len f = sp_len g \<and>
    (\<exists>rs ss a b. relocs_of L old f = Inr rs \<and> relocs_of L new g = Inr ss \<and> length rs = length ss \<and>
      text_of old (sp_name f) (sp_lowpc f) = Inr a \<and> text_of new (sp_name f) (sp_lowpc g) = Inr b \<and>
      (k < length a \<and> k < length b \<and> a ! k = b ! k \<or>
       (\<exists>j\<le>k. \<exists>r\<in>set rs. \<exists>s\<in>set ss. r_offset r = sp_lowpc f + of_nat j \<and> r_offset s = sp_lowpc g + of_nat j \<and>
          (k < j + 8 \<and> relocs_agree L old new r s \<or> special_clash L old new r s))))"
proof -
  obtain rs ss where rs: "sp_len f = sp_len g" "relocs_of L old f = Inr rs" "relocs_of L new g = Inr ss" "length rs = length ss"
    using assms(1) by (auto simp: areSubprogramsIdentical_def bindE_eq_Inr split: if_splits)
  obtain h p where h: "sort_in_place rs = Inr (h, p)" "\<forall>a<length h. map_option l_value (h ! a) = Some (rs ! a)" "length h = length rs"
    using sort_in_place_ok [of rs] by auto
  obtain h' q where h': "sort_in_place ss = Inr (h', q)" "\<forall>a<length h'. map_option l_value (h' ! a) = Some (ss ! a)" "length h' = length ss"
    using sort_in_place_ok [of ss] by auto
  obtain a b where t: "text_of old (sp_name f) (sp_lowpc f) = Inr a" "text_of new (sp_name f) (sp_lowpc g) = Inr b"
      "diff_loop L \<lparr>cs_elf = old, cs_lowpc = sp_lowpc f, cs_text = a, cs_heap = h\<rparr>
         \<lparr>cs_elf = new, cs_lowpc = sp_lowpc g, cs_text = b, cs_heap = h'\<rparr> (nat (sint (sp_len f))) 0 p q = Inr True"
    using assms(1) rs h(1) h'(1) by (auto simp: areSubprogramsIdentical_def bindE_eq_Inr)
  let ?old = "\<lparr>cs_elf = old, cs_lowpc = sp_lowpc f, cs_text = a, cs_heap = h\<rparr>"
  let ?new = "\<lparr>cs_elf = new, cs_lowpc = sp_lowpc g, cs_text = b, cs_heap = h'\<rparr>"
  have hold: "holds (set rs) ?old" "holds (set ss) ?new" using h h' by (auto simp: holds_def)
  from diff_loop_True [OF hold t(3) _ assms(2)] have
    "k < length a \<and> k < length b \<and> a ! k = b ! k \<or> (\<exists>j\<le>k. paired L ?old ?new (set rs) (set ss) j None \<and> k < j + 8 \<or>
      paired L ?old ?new (set rs) (set ss) j (Some True))" by simp
  then show ?thesis
  proof
    assume "k < length a \<and> k < length b \<and> a ! k = b ! k"
    with rs t(1,2) show ?thesis by blast
  next
    assume "\<exists>j\<le>k. paired L ?old ?new (set rs) (set ss) j None \<and> k < j + 8 \<or> paired L ?old ?new (set rs) (set ss) j (Some True)"
    then have "\<exists>j\<le>k. \<exists>r\<in>set rs. \<exists>s\<in>set ss. r_offset r = sp_lowpc f + of_nat j \<and> r_offset s = sp_lowpc g + of_nat j \<and>
        (k < j + 8 \<and> relocs_agree L old new r s \<or> special_clash L old new r s)"
      unfolding paired_def by simp (use compare_relocs_True in \<open>fastforce split: if_splits\<close>)
    with rs t(1,2) show ?thesis by blast
  qed
qed

text \<open>Without relocations the answer is whether the bytes are the same.\<close>

lemma diff_loop_plain:
  assumes "len \<le> length (cs_text old)" "len \<le> length (cs_text new)" "i \<le> len"
  shows "diff_loop L old new len i None None = Inr (take (len - i) (drop i (cs_text old)) = take (len - i) (drop i (cs_text new)))"
  using assms(3)
proof (induction "len - i" arbitrary: i)
  case 0
  then show ?case by (simp add: diff_loop.simps)
next
  case (Suc d)
  then have i: "i < len" "d = len - Suc i" "Suc i \<le> len" by auto
  have "take (len - i) (drop i xs) = xs ! i # take (len - Suc i) (drop (Suc i) xs)" if "len \<le> length xs" for xs :: "byte list"
    using i that by (metis Cons_nth_drop_Suc Suc_diff_Suc order_less_le_trans take_Suc_Cons)
  with Suc.hyps(1) [OF i(2,3)] assms(1,2) i show ?case
    by (subst diff_loop.simps) (simp add: next_reloc_def applies_at_def elem_at_def)
qed

lemma code_diff_without_relocations:
  assumes "relocs_of L old f = Inr []" "relocs_of L new g = Inr []" "text_of old (sp_name f) (sp_lowpc f) = Inr a"
    "text_of new (sp_name f) (sp_lowpc g) = Inr b" "n = nat (sint (sp_len f))" "n \<le> length a" "n \<le> length b"
  shows "areSubprogramsIdentical L f g old new = Inr (sp_len f = sp_len g \<and> take n a = take n b)"
proof -
  have "sort_in_place [] = Inr ([], None)" by (simp add: sort_in_place_def fresh_list_def)
  then show ?thesis
    using assms diff_loop_plain [of n "\<lparr>cs_elf = old, cs_lowpc = sp_lowpc f, cs_text = a, cs_heap = []\<rparr>"
        "\<lparr>cs_elf = new, cs_lowpc = sp_lowpc g, cs_text = b, cs_heap = []\<rparr>" 0 L]
    by (cases "sp_len f = sp_len g") (simp_all add: areSubprogramsIdentical_def)
qed

text \<open>Two functions of four bytes in one section.\<close>

definition code_elf :: ElfInfo where
  "code_elf = small_elf\<lparr>e_scns := [\<lparr>scn_shdr = small_shdr 0 0, d_size = 0, d_buf = []\<rparr>,
       \<lparr>scn_shdr = (small_shdr 1 8)\<lparr>sh_name := 1\<rparr>, d_size = 8, d_buf = [1, 2, 3, 4, 1, 2, 3, 4]\<rparr>,
       \<lparr>scn_shdr = small_shdr 3 7, d_size = 7, d_buf = [0, 46, 116, 101, 120, 116, 0]\<rparr>],
     sectionHdrStrTblIdx := 2, sectionIndices := (\<lambda>_. 0)(ERS_TEXT := 1)\<rparr>"

lemma code_elf_names: "getScnHdrString code_elf 0 = Inr []" "getScnHdrString code_elf 1 = Inr ''.text''"
  by (simp_all add: getScnHdrString_def scn_or_def getscn_def code_elf_def c_string_def char_of_def bit_Suc_0_iff)

lemma code_elf_search: "s \<noteq> [] \<Longrightarrow> s \<noteq> ''.text'' \<Longrightarrow> getSectionByName code_elf s = Inr None"
proof -
  assume s: "s \<noteq> []" "s \<noteq> ''.text''"
  have "drop 1 (e_scns code_elf) = [\<lparr>scn_shdr = (small_shdr 1 8)\<lparr>sh_name := 1\<rparr>, d_size = 8, d_buf = [1, 2, 3, 4, 1, 2, 3, 4]\<rparr>,
      \<lparr>scn_shdr = small_shdr 3 7, d_size = 7, d_buf = [0, 46, 116, 101, 120, 116, 0]\<rparr>]" "sectionHdrStrTblIdx code_elf = 2"
    by (simp_all add: code_elf_def)
  with s code_elf_names show ?thesis by (simp add: getSectionByName_def small_shdr_def)
qed

definition code_fun :: "addr_t \<Rightarrow> SubprogramInfo" where
  "code_fun a = \<lparr>sp_name = ''f'', sp_lowpc = a, sp_highpc = a + 4\<rparr>"

lemma code_elf_text: "text_of code_elf ''f'' 0 = Inr [1, 2, 3, 4, 1, 2, 3, 4]" "text_of code_elf ''f'' 4 = Inr [1, 2, 3, 4]"
  by (simp_all add: text_of_def code_elf_search)
    (simp_all add: getSectionByERS_def scn_or_def getscn_def code_elf_def getDataAtAbs_def scn_off_def scn_base_def small_shdr_def)

theorem identical_code_agrees_witness:
  "areSubprogramsIdentical elf64 (code_fun 0) (code_fun 4) code_elf code_elf = Inr True \<and> sp_len (code_fun 0) = sp_len (code_fun 4)"
proof -
  have r: "relocs_of elf64 code_elf (code_fun a) = Inr []" for a
    by (simp add: relocs_of_def getRelocationSection_def first_some_def code_elf_search code_fun_def getRelocationItemsInRange_def)
  have l: "sp_len (code_fun a) = 4" for a by (simp add: sp_len_def code_fun_def)
  have run: "areSubprogramsIdentical elf64 (code_fun 0) (code_fun 4) code_elf code_elf = Inr True"
    by (subst code_diff_without_relocations [OF r r, where a = "[1, 2, 3, 4, 1, 2, 3, 4]" and b = "[1, 2, 3, 4]" and n = 4])
      (simp_all add: l, simp_all add: code_fun_def code_elf_text)
  have "sp_len (code_fun 0) = sp_len (code_fun 4)"
    by (rule identical_code_agrees [OF run, of 3, THEN conjunct1]) (simp add: l)
  with run show ?thesis ..
qed

text \<open>A symbol that is defined in one object only ends the comparison with yes, whatever bytes follow.\<close>

lemma special_section_ends_comparison:
  assumes "getSymbol L old (symIdx r) = Inr a" "getSymbol L new (symIdx s) = Inr b"
    "getString old (unat (st_name a)) = Inr nm" "getString new (unat (st_name b)) = Inr nm"
    "st_info a = st_info b" "st_other a = st_other b" "special_section a \<noteq> special_section b"
  shows "compare_relocs L old new r s = Inr (Some True)"
proof -
  have "st_shndx b \<noteq> st_shndx a" using assms(7) by (auto simp: special_section_def)
  with assms show ?thesis by (cases "special_section a") (simp_all add: compare_relocs_def)
qed

end
