(* ===== verification/Target_Laws.thy ===== *)
theory Target_Laws
  imports Target_Memory
begin

text \<open>
  What the copies from and to the process do: a copy from it reads the bytes that are there, a copy to it
  changes exactly the bytes copied.
\<close>

section \<open>Reads and writes of memory\<close>

definition mem_has :: "memory \<Rightarrow> addr_t \<Rightarrow> byte list \<Rightarrow> bool" where
  "mem_has m a bs \<longleftrightarrow> (\<forall>i<length bs. m (a + of_nat i) = Some (bs ! i))"

lemma those_map_Some [simp]: "those (map Some ys) = Some ys"
  by (induction ys) simp_all

lemma those_eq_Some: "those xs = Some ys \<longleftrightarrow> xs = map Some ys"
proof
  show "those xs = Some ys \<Longrightarrow> xs = map Some ys"
    by (induction xs arbitrary: ys) (auto split: option.splits)
qed simp

lemma mem_read_eq_Some: "mem_read m a n = Some bs \<longleftrightarrow> length bs = n \<and> mem_has m a bs"
proof -
  have "map (\<lambda>i. m (a + of_nat i)) [0..<n] = map Some bs \<longleftrightarrow> length bs = n \<and> mem_has m a bs"
    unfolding mem_has_def list_eq_iff_nth_eq by auto
  then show ?thesis by (simp only: mem_read_def those_eq_Some)
qed

lemma mem_has_take: "mem_has m a bs \<Longrightarrow> mem_has m a (take n bs)"
  by (simp add: mem_has_def)

lemma mem_has_append: "mem_has m a (xs @ ys) \<longleftrightarrow> mem_has m a xs \<and> mem_has m (a + of_nat (length xs)) ys"
proof -
  have "mem_has m a (xs @ ys) \<longleftrightarrow> (\<forall>i<length xs. m (a + of_nat i) = Some (xs ! i)) \<and>
      (\<forall>i<length ys. m (a + of_nat (length xs + i)) = Some (ys ! i))"
  proof (intro iffI conjI allI impI)
    fix i assume "mem_has m a (xs @ ys)" "i < length xs"
    then show "m (a + of_nat i) = Some (xs ! i)" by (auto simp: mem_has_def nth_append dest: spec [of _ i])
  next
    fix i assume "mem_has m a (xs @ ys)" "i < length ys"
    then show "m (a + of_nat (length xs + i)) = Some (ys ! i)"
      unfolding mem_has_def by (auto simp: nth_append dest: spec [of _ "length xs + i"])
  next
    assume r: "(\<forall>i<length xs. m (a + of_nat i) = Some (xs ! i)) \<and>
      (\<forall>i<length ys. m (a + of_nat (length xs + i)) = Some (ys ! i))"
    show "mem_has m a (xs @ ys)"
      unfolding mem_has_def
    proof (intro allI impI)
      fix i assume i: "i < length (xs @ ys)"
      show "m (a + of_nat i) = Some ((xs @ ys) ! i)"
      proof (cases "i < length xs")
        case False
        with i r [THEN conjunct2, rule_format, of "i - length xs"] show ?thesis by (simp add: nth_append)
      qed (use r in \<open>simp add: nth_append\<close>)
    qed
  qed
  then show ?thesis by (simp add: mem_has_def add.assoc)
qed

lemma mem_has_drop: "mem_has m a bs \<Longrightarrow> n \<le> length bs \<Longrightarrow> mem_has m (a + of_nat n) (drop n bs)"
  using mem_has_append [of m a "take n bs" "drop n bs"] by simp

lemma mem_has_slice: "mem_has m a bs \<Longrightarrow> i + n \<le> length bs \<Longrightarrow> mem_has m (a + of_nat i) (take n (drop i bs))"
  by (intro mem_has_take mem_has_drop) auto

lemma mem_read_has [simp]: "mem_has m a bs \<Longrightarrow> length bs = n \<Longrightarrow> mem_read m a n = Some bs"
  by (simp add: mem_read_eq_Some)

lemma word_add_offset: "n < 2 ^ 64 \<Longrightarrow> unat (a + of_nat n - a :: addr_t) = n"
  by (simp add: unat_of_nat)

lemma mem_write_offset:
  assumes "n < 2 ^ 64"
  shows "mem_write m a bs (a + of_nat n) = (if n < length bs then Some (bs ! n) else m (a + of_nat n))"
  using word_add_offset [OF assms, of a] by (simp add: mem_write_def)

lemma mem_write_eqI:
  assumes "\<And>n. n < 2 ^ 64 \<Longrightarrow> f (a + of_nat n) = g (a + of_nat n)"
  shows "f = (g :: memory)"
proof
  fix x :: addr_t
  have "x = a + of_nat (unat (x - a))" by simp
  then show "f x = g x" using assms [of "unat (x - a)"] unsigned_less [of "x - a"] by simp
qed

lemma mem_write_has: "length bs \<le> 2 ^ 64 \<Longrightarrow> mem_has (mem_write m a bs) a bs"
  by (simp add: mem_has_def mem_write_offset)

lemma mem_write_keep: "mem_has m a bs \<Longrightarrow> length bs \<le> 2 ^ 64 \<Longrightarrow> mem_write m a bs = m"
  by (rule mem_write_eqI [of _ a]) (simp add: mem_write_offset mem_has_def)

lemma mem_write_append:
  assumes "length (xs @ ys) \<le> 2 ^ 64"
  shows "mem_write m a (xs @ ys) = mem_write (mem_write m a xs) (a + of_nat (length xs)) ys"
    and "mem_write m a (xs @ ys) = mem_write (mem_write m (a + of_nat (length xs)) ys) a xs"
proof -
  have at: "mem_write f (a + of_nat (length xs)) ys (a + of_nat n) =
      (if length xs \<le> n \<and> n < length xs + length ys then Some (ys ! (n - length xs)) else f (a + of_nat n))"
    if n: "n < 2 ^ 64" for f n
  proof (cases "ys = []")
    case True
    then show ?thesis by (auto simp: mem_write_def)
  next
    case False
    with assms have l: "length xs < 2 ^ 64" by (cases ys) auto
    have "unat (a + of_nat n - (a + of_nat (length xs)) :: addr_t) = unat (of_nat n - of_nat (length xs) :: addr_t)"
      by simp
    also have "\<dots> = (if length xs \<le> n then n - length xs else n + 2 ^ 64 - length xs)"
      unfolding unat_sub_if' using n l by (simp add: unat_of_nat)
    finally have "unat (a + of_nat n - (a + of_nat (length xs)) :: addr_t) =
        (if length xs \<le> n then n - length xs else n + 2 ^ 64 - length xs)" .
    then show ?thesis using assms by (auto simp: mem_write_def)
  qed
  show "mem_write m a (xs @ ys) = mem_write (mem_write m a xs) (a + of_nat (length xs)) ys"
    by (rule mem_write_eqI [of _ a]) (auto simp: at mem_write_offset nth_append)
  show "mem_write m a (xs @ ys) = mem_write (mem_write m (a + of_nat (length xs)) ys) a xs"
    by (rule mem_write_eqI [of _ a]) (auto simp: at mem_write_offset nth_append)
qed

section \<open>Copies from the process\<close>

lemma le_word_4: "length bs = 8 \<Longrightarrow> word_bytes 4 (ucast (le_word bs :: word_t) :: uint) = take 4 bs"
  by (rule nth_equalityI) (auto simp: le_word_def bit_simps bit_le_int intro!: bit_word_eqI)

lemma ptrace_peek_has: "mem_has m a bs \<Longrightarrow> length bs = 8 \<Longrightarrow> ptrace_peek m a = Some (le_word bs)"
  by (simp add: ptrace_peek_def)

text \<open>How far behind the address a copy of \<open>n\<close> bytes reads: whole words, four bytes apart.\<close>

definition copy_extent :: "nat \<Rightarrow> nat" where
  "copy_extent n = 4 * ((n + 3) div 4) + 4"

lemma copy_extent_step: "i < n \<Longrightarrow> 4 dvd i \<Longrightarrow> i + 8 \<le> copy_extent n"
  unfolding copy_extent_def dvd_def by presburger

lemma from_target_loop_ok:
  assumes "mem_has m addr bs" "4 dvd i" "copy_extent n \<le> length bs" "n \<le> length dat" "\<And>j. 4 \<le> length (junk j)"
  shows "from_target_loop junk m addr n i dat =
    Inr (Some (if i < n then take i dat @ take (n - i) (drop i bs) @ drop n dat else dat))"
  using assms(2,4)
proof (induction "n - i" arbitrary: i dat rule: less_induct)
  case less
  show ?case
  proof (cases "i < n")
    case True
    let ?ws = "take 8 (drop i bs)" and ?k = "if i + 8 \<le> n then 8 else n - i"
    have w: "length ?ws = 8" "mem_has m (addr + of_nat i) ?ws"
      using copy_extent_step [OF True less.prems(1)] assms(3) by (auto intro!: mem_has_slice assms(1))
    obtain v where v: "copy_out (word_bytes 4 (ucast (le_word ?ws :: word_t) :: uint) @ junk i) ?k = Inr v"
        "length v = ?k" "take 4 v = take (min 4 ?k) (drop i bs)"
    proof -
      define k where "k = ?k"
      define ws where "ws = ?ws"
      have l: "length ws = 8" using w(1) by (simp add: ws_def)
      have k: "k \<le> length (take 4 ws @ junk i)" using assms(5) [of i] l True by (auto simp: k_def)
      have "take 4 (take k (take 4 ws @ junk i)) = take (min 4 k) (take 4 ws @ junk i)" by (simp only: take_take)
      also have "\<dots> = take (min 4 k) ws" using l by (simp add: min_def)
      also have "\<dots> = take (min 4 k) (drop i bs)" by (simp add: ws_def)
      finally have "take 4 (take k (take 4 ws @ junk i)) = take (min 4 k) (drop i bs)" .
      then show ?thesis
        using k le_word_4 [OF l] by (intro that [of "take k (take 4 ws @ junk i)"]) (simp_all only: copy_out_in length_take min.absorb2 flip: k_def ws_def)
    qed
    let ?dat = "take i dat @ v @ drop (i + ?k) dat"
    have k: "i + ?k \<le> n" "i + length v \<le> length dat" using True less.prems v(2) by auto
    then have "write_bytes dat i v = Inr ?dat" by (simp add: write_bytes_def v(2))
    then have "from_target_loop junk m addr n i dat = from_target_loop junk m addr n (i + 4) ?dat"
      by (subst from_target_loop.simps) (simp only: True if_True ptrace_peek_has [OF w(2,1)] option.case v bindE_simps)
    also have "\<dots> = Inr (Some (if i + 4 < n then take (i + 4) ?dat @ take (n - (i + 4)) (drop (i + 4) bs) @ drop n ?dat else ?dat))"
    proof (rule less.hyps)
      show "n \<le> length ?dat" using less.prems k v(2) by simp
    qed (use True less.prems in auto)
    also have "(if i + 4 < n then take (i + 4) ?dat @ take (n - (i + 4)) (drop (i + 4) bs) @ drop n ?dat else ?dat) =
        take i dat @ take (n - i) (drop i bs) @ drop n dat"
    proof (cases "i + 4 < n")
      case True
      then have "n - i = 4 + (n - (i + 4))" by simp
      then have "take (n - i) (drop i bs) = take 4 (drop i bs) @ take (n - (i + 4)) (drop (i + 4) bs)"
        by (simp only: take_add drop_drop add.commute)
      moreover have "take 4 v = take 4 (drop i bs)" using v(3) True by auto
      moreover have "drop n ?dat = drop n dat" using k v(2) by (simp add: drop_append)
      ultimately show ?thesis using True k v(2) by (auto simp: take_append)
    next
      case False
      then have k': "?k = n - i" "min 4 (n - i) = n - i" using \<open>i < n\<close> by auto
      then have "length v \<le> 4" using v(2) by simp
      then have "v = take (n - i) (drop i bs)" using v(3) k' by simp
      with False k' \<open>i < n\<close> show ?thesis by auto
    qed
    finally show ?thesis using True by simp
  qed (simp add: from_target_loop.simps)
qed

lemma memcpyFromTarget_ok:
  assumes "mem_has (tg_mem t) addr bs" "copy_extent n \<le> length bs" "n \<le> length dat" "\<And>j. 4 \<le> length (junk j)"
  shows "memcpyFromTarget junk t dat addr n = Inr (take n bs @ drop n dat)"
  using from_target_loop_ok [OF assms(1) _ assms(2-4), of 0]
  by (auto simp: memcpyFromTarget_def memcpyFromTargetNoDeath_def)

text \<open>The first word that cannot be read ends the copy.\<close>

lemma memcpyFromTarget_8_fails:
  assumes "mem_has m addr bs" "length bs = 8" "m (addr + 8) = None" "4 \<le> length (junk 0)" "length dat = 8"
  shows "from_target_loop junk m addr 8 0 dat = Inr None"
proof -
  have "mem_read m (addr + 4) 8 = None"
  proof (rule ccontr)
    assume "mem_read m (addr + 4) 8 \<noteq> None"
    then obtain xs where "length xs = 8" "mem_has m (addr + 4) xs" by (auto simp: mem_read_eq_Some)
    then have "\<forall>i<8. m (addr + 4 + of_nat i) = Some (xs ! i)" by (simp add: mem_has_def)
    from this [rule_format, of 4] show False using assms(3) by (simp add: add.commute)
  qed
  then have peek: "ptrace_peek m (addr + 4) = None" by (simp add: ptrace_peek_def)
  have second: "from_target_loop junk m addr 8 4 d = Inr None" for d
    by (simp add: from_target_loop.simps peek)
  show ?thesis
    by (subst from_target_loop.simps)
      (use assms in \<open>simp add: second ptrace_peek_has copy_out_def write_bytes_def\<close>)
qed

section \<open>Copies to the process\<close>

lemma modifyTarget_ok:
  assumes "mem_has (tg_mem t) a old" "length old = 8" "length bs = 8"
  shows "modifyTarget t a (le_word bs) = Inr (t\<lparr>tg_mem := mem_write (tg_mem t) a bs\<rparr>)"
proof -
  have "word_bytes 8 (le_word bs :: word_t) = bs"
    by (rule le_int_inject) (use assms(3) le_int_less [of bs] in
      \<open>simp_all add: le_int_word_bytes le_word_def uint_word_of_int take_bit_eq_mod\<close>)
  moreover have "mem_has (mem_write (tg_mem t) a bs) a bs" by (rule mem_write_has) (simp add: assms(3))
  ultimately show ?thesis
    using assms by (simp add: modifyTarget_def ptrace_poke_def ptrace_peek_has)
qed

text \<open>A word written with some of its own bytes around the new ones changes only those.\<close>

lemma mem_write_within:
  assumes "mem_has m a (pre @ old @ post)" "length old = length xs" "length (pre @ xs @ post) \<le> 2 ^ 64"
  shows "mem_write m a (pre @ xs @ post) = mem_write m (a + of_nat (length pre)) xs"
proof -
  have h: "mem_has m a pre" "mem_has m (a + of_nat (length pre) + of_nat (length xs)) post"
    using assms(1,2) by (simp_all add: mem_has_append)
  have "mem_write m a (pre @ xs @ post) = mem_write (mem_write m a pre) (a + of_nat (length pre)) (xs @ post)"
    by (rule mem_write_append(1)) (use assms(3) in simp)
  also have "mem_write m a pre = m" by (rule mem_write_keep) (use h assms(3) in simp_all)
  also have "mem_write m (a + of_nat (length pre)) (xs @ post) =
      mem_write (mem_write m (a + of_nat (length pre) + of_nat (length xs)) post) (a + of_nat (length pre)) xs"
    by (rule mem_write_append(2)) (use assms(3) in simp)
  also have "mem_write m (a + of_nat (length pre) + of_nat (length xs)) post = m"
    by (rule mem_write_keep) (use h assms(3) in simp_all)
  finally show ?thesis .
qed

lemma mem_has_write_behind:
  assumes "mem_has m (a + of_nat (length xs)) ys" "length (xs @ ys) \<le> 2 ^ 64"
  shows "mem_has (mem_write m a xs) (a + of_nat (length xs)) ys"
  unfolding mem_has_def
proof (intro allI impI)
  fix i assume i: "i < length ys"
  then have "mem_write m a xs (a + of_nat (length xs + i)) = m (a + of_nat (length xs + i))"
    using assms(2) by (subst mem_write_offset) auto
  then show "mem_write m a xs (a + of_nat (length xs) + of_nat i) = Some (ys ! i)"
    using assms(1) i by (simp add: mem_has_def add.assoc)
qed

text \<open>What a copy of \<open>n\<close> bytes to an aligned address needs to be there.\<close>

definition write_extent :: "nat \<Rightarrow> nat" where
  "write_extent n = (if n mod 8 = 0 then n else 8 * (n div 8) + 12)"

lemma write_extent_simps:
  "8 \<le> n \<Longrightarrow> write_extent n = write_extent (n - 8) + 8" "0 < n \<Longrightarrow> n < 8 \<Longrightarrow> write_extent n = 12"
  by (simp_all add: write_extent_def le_mod_geq le_div_geq)

lemma write_tail:
  assumes "mem_has (tg_mem t) a old" "12 \<le> length old" "length bs < 8" "\<And>j. 4 \<le> length (junk j)"
  shows "bindE (bindE (memcpyFromTarget junk t (replicate 8 0) a 8) (\<lambda>tmp. write_bytes tmp 0 bs))
      (\<lambda>bs. modifyTarget t a (le_word bs)) = Inr (t\<lparr>tg_mem := mem_write (tg_mem t) a bs\<rparr>)"
proof -
  let ?w = "take 8 old" and ?post = "drop (length bs) (take 8 old)"
  have w: "mem_has (tg_mem t) a ?w" "length ?w = 8" using assms by (auto intro: mem_has_take)
  have "memcpyFromTarget junk t (replicate 8 0) a 8 = Inr ?w"
    using memcpyFromTarget_ok [OF assms(1), of 8 "replicate 8 0" junk] assms by (simp add: copy_extent_def)
  moreover have "write_bytes ?w 0 bs = Inr (bs @ ?post)" using assms(2,3) by (simp add: write_bytes_def)
  moreover have "modifyTarget t a (le_word (bs @ ?post)) = Inr (t\<lparr>tg_mem := mem_write (tg_mem t) a (bs @ ?post)\<rparr>)"
    by (rule modifyTarget_ok [OF w]) (use assms in simp)
  moreover have "mem_write (tg_mem t) a (bs @ ?post) = mem_write (tg_mem t) a bs"
    using mem_write_within [of "tg_mem t" a "[]" "take (length bs) ?w" ?post bs] w assms(2,3)
    by (simp add: append_take_drop_id del: take_take)
  ultimately show ?thesis by simp
qed

lemma to_target_loop_ok:
  assumes "mem_has (tg_mem t) (addr + of_nat i) old" "write_extent (n - i) \<le> length old" "length old \<le> 2 ^ 64"
    "n \<le> length dat" "\<And>j. 4 \<le> length (junk j)"
  shows "to_target_loop junk t addr dat n i =
    Inr (if i < n then t\<lparr>tg_mem := mem_write (tg_mem t) (addr + of_nat i) (take (n - i) (drop i dat))\<rparr> else t)"
  using assms(1-3)
proof (induction "n - i" arbitrary: i t old rule: less_induct)
  case less
  let ?a = "addr + of_nat i :: addr_t"
  consider (stop) "n \<le> i" | (word) "i + 8 \<le> n" | (tail) "i < n" "n < i + 8" by linarith
  then show ?case
  proof cases
    case stop
    then show ?thesis by (simp add: to_target_loop.simps)
  next
    case word
    let ?bs = "take 8 (drop i dat)"
    let ?t = "t\<lparr>tg_mem := mem_write (tg_mem t) ?a ?bs\<rparr>"
    have l: "length ?bs = 8" "8 \<le> length old" "write_extent (n - (i + 8)) \<le> length (drop 8 old)"
      using word assms(4) less.prems(2) by (simp_all add: write_extent_simps)
    have "modifyTarget t ?a (le_word ?bs) = Inr ?t"
      by (rule modifyTarget_ok [of _ _ "take 8 old"]) (use less.prems l in \<open>auto intro: mem_has_take\<close>)
    moreover have "copy_out (drop i dat) 8 = Inr ?bs" using word assms(4) by simp
    ultimately have "to_target_loop junk t addr dat n i = to_target_loop junk ?t addr dat n (i + 8)"
      using word by (subst to_target_loop.simps) simp
    also have "\<dots> = Inr (if i + 8 < n then ?t\<lparr>tg_mem := mem_write (tg_mem ?t) (addr + of_nat (i + 8)) (take (n - (i + 8)) (drop (i + 8) dat))\<rparr> else ?t)"
    proof (rule less.hyps)
      have "mem_has (mem_write (tg_mem t) ?a ?bs) (?a + of_nat (length ?bs)) (drop 8 old)"
        by (rule mem_has_write_behind) (use mem_has_drop [OF less.prems(1) l(2)] less.prems(3) l in simp_all)
      then have "mem_has (mem_write (tg_mem t) ?a ?bs) (addr + of_nat (i + 8)) (drop 8 old)"
        unfolding l(1) by (simp add: add.assoc)
      then show "mem_has (tg_mem ?t) (addr + of_nat (i + 8)) (drop 8 old)" by simp
    qed (use word l less.prems in auto)
    also have "\<dots> = Inr (t\<lparr>tg_mem := mem_write (tg_mem t) ?a (take (n - i) (drop i dat))\<rparr>)"
    proof (cases "i + 8 < n")
      case True
      let ?rest = "take (n - (i + 8)) (drop (i + 8) dat)"
      have "take (n - i) (drop i dat) = ?bs @ ?rest"
        using word take_add [of 8 "n - (i + 8)" "drop i dat"] by (simp add: add.commute)
      moreover have "length (?bs @ ?rest) \<le> 2 ^ 64"
      proof -
        have "n - i \<le> length old" using less.prems(2) by (auto simp: write_extent_def split: if_splits)
        then show ?thesis using less.prems(3) l(1) by simp
      qed
      ultimately have "mem_write (tg_mem t) ?a (take (n - i) (drop i dat)) =
          mem_write (mem_write (tg_mem t) ?a ?bs) (?a + of_nat (length ?bs)) ?rest"
        by (simp only: mem_write_append(1))
      also have "?a + of_nat (length ?bs) = addr + of_nat (i + 8)" unfolding l(1) by (simp add: add.assoc)
      finally show ?thesis using True by simp
    next
      case False
      with word have "n - i = 8" by simp
      with False show ?thesis by simp
    qed
    finally show ?thesis using word by simp
  next
    case tail
    let ?bs = "take (n - i) (drop i dat)"
    have l: "length ?bs < 8" "12 \<le> length old"
      using tail less.prems(2) by (simp_all add: write_extent_simps)
    have "to_target_loop junk t addr dat n i = bindE (bindE (bindE (memcpyFromTarget junk t (replicate 8 0) ?a 8)
        (\<lambda>tmp. write_bytes tmp 0 ?bs)) (\<lambda>bs. modifyTarget t ?a (le_word bs))) (\<lambda>t. to_target_loop junk t addr dat n (i + 8))"
      using tail assms(4) by (subst to_target_loop.simps) (simp add: bindE_assoc)
    also have "\<dots> = Inr (t\<lparr>tg_mem := mem_write (tg_mem t) ?a ?bs\<rparr>)"
      using write_tail [OF less.prems(1) l(2,1) assms(5)] tail by (simp add: to_target_loop.simps)
    finally show ?thesis using tail by simp
  qed
qed

lemma write_extent_le: "write_extent n \<le> n + 11"
  unfolding write_extent_def by (cases "n mod 8 = 0") (simp, simp, presburger)

lemma first_word:
  assumes "mem_has (tg_mem t) a old" "12 \<le> length old" "k + length bs \<le> 8" "\<And>j. 4 \<le> length (junk j)"
  shows "bindE (memcpyFromTarget junk t (replicate 8 0) a 8) (\<lambda>w. bindE (write_bytes w k bs) (\<lambda>w.
      bindE (modifyTarget t a (le_word w)) f)) = f (t\<lparr>tg_mem := mem_write (tg_mem t) (a + of_nat k) bs\<rparr>)"
proof -
  let ?w = "take 8 old"
  let ?pre = "take k ?w" and ?post = "drop (k + length bs) ?w" and ?old = "take (length bs) (drop k ?w)"
  have w: "mem_has (tg_mem t) a ?w" "length ?w = 8" using assms by (auto intro: mem_has_take)
  have split: "?w = ?pre @ ?old @ ?post"
    by (metis add.commute append_take_drop_id drop_drop)
  have l: "length ?pre = k" "length ?old = length bs" using assms(2,3) by simp_all
  have "memcpyFromTarget junk t (replicate 8 0) a 8 = Inr ?w"
    using memcpyFromTarget_ok [OF assms(1), of 8 "replicate 8 0" junk] assms by (simp add: copy_extent_def)
  moreover have "write_bytes ?w k bs = Inr (?pre @ bs @ ?post)"
    using w(2) assms(3) by (simp add: write_bytes_def)
  moreover have "modifyTarget t a (le_word (?pre @ bs @ ?post)) = Inr (t\<lparr>tg_mem := mem_write (tg_mem t) a (?pre @ bs @ ?post)\<rparr>)"
    by (rule modifyTarget_ok [OF w]) (use assms(2,3) in simp)
  moreover have "mem_write (tg_mem t) a (?pre @ bs @ ?post) = mem_write (tg_mem t) (a + of_nat (length ?pre)) bs"
    by (rule mem_write_within [of _ _ _ ?old]) (use split w(1) l assms(2,3) in \<open>simp_all flip: split\<close>)
  ultimately show ?thesis unfolding l(1) by (simp only: bindE_simps)
qed

lemma memcpyToTarget_ok:
  assumes "mem_has (tg_mem t) (addr - of_nat k) old" "k = unat (addr mod 8)" "k + n + 11 \<le> length old"
    "length old \<le> 2 ^ 64" "n \<le> length dat" "\<And>j. 4 \<le> length (junk j)"
  shows "memcpyToTarget junk t addr dat n = Inr (t\<lparr>tg_mem := mem_write (tg_mem t) addr (take n dat)\<rparr>)"
proof (cases "k = 0")
  case True
  have "mem_has (tg_mem t) (addr + of_nat 0) old" using assms(1) True by simp
  from to_target_loop_ok [OF this, of n dat junk] write_extent_le [of n] assms True
  show ?thesis by (cases "n = 0") (auto simp: memcpyToTarget_def Let_def mem_write_def)
next
  case False
  let ?a = "addr - of_nat k" and ?b = "min (8 - k) n"
  have k: "k < 8" using assms(2) by (simp add: unat_mod)
  have wrap: "?a + of_nat k = addr" "?a + 8 = addr + of_nat (8 - k)"
    using k by (simp_all add: of_nat_diff)
  let ?bs = "take ?b dat"
  let ?t = "t\<lparr>tg_mem := mem_write (tg_mem t) addr ?bs\<rparr>"
  have l: "length ?bs = ?b" "k + length ?bs \<le> 8" "12 \<le> length old" using assms(3,5) False k by auto
  have "memcpyToTarget junk t addr dat n = bindE (memcpyFromTarget junk t (replicate 8 0) ?a 8) (\<lambda>w.
      bindE (write_bytes w k ?bs) (\<lambda>w. bindE (modifyTarget t ?a (le_word w)) (\<lambda>t.
        if n - ?b = 0 then Inr t
        else bindE (guardE ((addr + of_nat ?b) mod 8 = 0) AssertFail) (\<lambda>_.
          to_target_loop junk t (addr + of_nat ?b) (drop ?b dat) (n - ?b) 0))))"
  proof -
    have "copy_out dat ?b = Inr ?bs" using assms(5) by (intro copy_out_in) simp
    with False show ?thesis by (simp add: memcpyToTarget_def Let_def flip: assms(2))
  qed
  also have "\<dots> = (if n - ?b = 0 then Inr ?t
      else bindE (guardE ((addr + of_nat ?b) mod 8 = 0) AssertFail) (\<lambda>_.
        to_target_loop junk ?t (addr + of_nat ?b) (drop ?b dat) (n - ?b) 0))"
    by (subst first_word [OF assms(1) l(3,2), of junk, OF assms(6)]) (simp only: wrap(1))
  also have "\<dots> = Inr (t\<lparr>tg_mem := mem_write (tg_mem t) addr (take n dat)\<rparr>)"
  proof (cases "n \<le> 8 - k")
    case True
    then show ?thesis by simp
  next
    case False
    then have b: "?b = 8 - k" by simp
    have "?a = 8 * (addr div 8)"
      by (simp add: assms(2) minus_mod_eq_mult_div)
    then have "addr + of_nat (8 - k) = push_bit 3 (addr div 8 + 1)"
      unfolding wrap(2) [symmetric] by (simp add: push_bit_eq_mult algebra_simps)
    then have al: "(addr + of_nat (8 - k)) mod 8 = 0"
      using take_bit_eq_mod [of 3 "addr + of_nat (8 - k)"] by (simp add: take_bit_push_bit)
    have "mem_has (tg_mem t) (addr + of_nat (8 - k)) (drop 8 old)"
      using mem_has_drop [OF assms(1), of 8] l(3) wrap(2) by simp
    then have "mem_has (mem_write (tg_mem t) addr ?bs) (addr + of_nat (length ?bs)) (drop 8 old)"
      by (intro mem_has_write_behind) (use l(1) b assms(4) k l(3) in simp_all)
    then have "mem_has (mem_write (tg_mem t) addr ?bs) (addr + of_nat (8 - k)) (drop 8 old)"
      using l(1) by (simp only: b)
    then have old: "mem_has (tg_mem ?t) (addr + of_nat (8 - k) + of_nat 0) (drop 8 old)" by simp
    have "to_target_loop junk ?t (addr + of_nat (8 - k)) (drop (8 - k) dat) (n - (8 - k)) 0 =
        Inr (?t\<lparr>tg_mem := mem_write (tg_mem ?t) (addr + of_nat (8 - k)) (take (n - (8 - k)) (drop (8 - k) dat))\<rparr>)"
      using to_target_loop_ok [OF old, of "n - (8 - k)" "drop (8 - k) dat" junk]
        write_extent_le [of "n - (8 - k)"] assms(3-6) False k by simp
    moreover have "take n dat = ?bs @ take (n - (8 - k)) (drop (8 - k) dat)"
      using take_add [of "8 - k" "n - (8 - k)" dat] False unfolding b by simp
    then have "mem_write (tg_mem t) addr (take n dat) =
        mem_write (mem_write (tg_mem t) addr ?bs) (addr + of_nat (8 - k)) (take (n - (8 - k)) (drop (8 - k) dat))"
      using mem_write_append(1) [of ?bs "take (n - (8 - k)) (drop (8 - k) dat)" "tg_mem t" addr]
        assms(3-5) False l(1) unfolding b by simp
    ultimately show ?thesis using False al unfolding b by simp
  qed
  finally show ?thesis .
qed

end
