(* ===== verification/Target_Properties.thy ===== *)
theory Target_Properties
  imports Target_Laws
begin

text \<open>
  The properties of the access to the patched process: what a copy changes, what a call made inside the
  process leaves behind, and what becomes of a breakpoint.
\<close>

definition word_base :: "addr_t \<Rightarrow> addr_t" where
  "word_base addr = addr - of_nat (unat (addr mod 8))"

text \<open>
  C13: when the memory from the word that holds \<open>addr\<close> to eleven bytes behind the data is there, writing the data
  succeeds, changes exactly those bytes, and reading them back gives the data, whatever lies behind the
  variables the copies go through.
\<close>

theorem target_copy_roundtrip:
  assumes "mem_has (tg_mem t) (word_base addr) old" "unat (addr mod 8) + length dat + 11 \<le> length old"
    "length old \<le> 2 ^ 64" "\<And>j. 4 \<le> length (junk j)" "length buf = length dat"
  shows "\<exists>t'. memcpyToTarget junk t addr dat (length dat) = Inr t' \<and>
    tg_mem t' = mem_write (tg_mem t) addr dat \<and> tg_regs t' = tg_regs t \<and>
    memcpyFromTarget junk t' buf addr (length dat) = Inr dat"
proof -
  let ?k = "unat (addr mod 8)" and ?n = "length dat"
  let ?t = "t\<lparr>tg_mem := mem_write (tg_mem t) addr dat\<rparr>"
  have w: "memcpyToTarget junk t addr dat ?n = Inr ?t"
    using memcpyToTarget_ok [OF assms(1) [unfolded word_base_def] refl assms(2,3), of dat junk] assms(4) by simp
  have "mem_has (tg_mem t) (word_base addr + of_nat (?k + ?n)) (drop (?k + ?n) old)"
    by (rule mem_has_drop [OF assms(1)]) (use assms(2) in simp)
  then have "mem_has (mem_write (tg_mem t) addr dat) (addr + of_nat (length dat)) (drop (?k + ?n) old)"
    by (intro mem_has_write_behind) (use assms(2,3) in \<open>simp_all add: word_base_def\<close>)
  then have has: "mem_has (tg_mem ?t) addr (dat @ drop (?k + ?n) old)"
    unfolding mem_has_append using mem_write_has [of dat "tg_mem t" addr] assms(2,3) by simp
  have "copy_extent ?n \<le> length (dat @ drop (?k + ?n) old)"
  proof -
    have "copy_extent ?n \<le> ?n + 7" unfolding copy_extent_def by presburger
    with assms(2) show ?thesis by simp
  qed
  from memcpyFromTarget_ok [OF has this, of buf junk] assms(4,5) w show ?thesis by simp
qed

definition blank_target :: Target where
  "blank_target = \<lparr>tg_mem = \<lambda>_. Some 0, tg_regs = \<lparr>reg_rip = 4096, reg_rsp = 8192, reg_rax = 0, reg_rbx = 0, reg_rcx = 0,
     reg_rdx = 0, reg_rbp = 0, reg_rsi = 0, reg_rdi = 0, reg_r8 = 0, reg_r9 = 0, reg_r10 = 0\<rparr>, check_writes = True,
     mallocAddress = 0, targetTextStart = 0, breakpointRestoreInfo = None\<rparr>"

lemma blank_target_has [simp]: "mem_has (tg_mem blank_target) a (replicate n 0)"
  by (simp add: mem_has_def blank_target_def)

theorem target_copy_roundtrip_witness:
  "\<exists>t'. memcpyToTarget (\<lambda>_. [1, 2, 3, 4]) blank_target 5 [9, 8, 7, 6, 5] 5 = Inr t' \<and>
    tg_mem t' 4 = Some 0 \<and> tg_mem t' 5 = Some 9 \<and> tg_mem t' 9 = Some 5 \<and> tg_mem t' 10 = Some 0"
proof -
  have m: "unat ((5 :: addr_t) mod 8) = 5" by (simp add: unat_mod)
  obtain t' where "memcpyToTarget (\<lambda>_. [1, 2, 3, 4]) blank_target 5 [9, 8, 7, 6, 5] (length [9, 8, 7, 6, 5 :: byte]) = Inr t'"
      "tg_mem t' = mem_write (tg_mem blank_target) 5 [9, 8, 7, 6, 5]"
    using target_copy_roundtrip [of blank_target 5 "replicate 24 0" "[9, 8, 7, 6, 5]" "\<lambda>_. [1, 2, 3, 4]" "replicate 5 0"]
    by (auto simp: m)
  moreover have "length [9, 8, 7, 6, 5 :: byte] = 5" by simp
  ultimately show ?thesis by (simp only:) (simp add: mem_write_def blank_target_def unsigned_minus_1_eq_mask mask_eq_exp_minus_1)
qed

text \<open>
  The copy reads four bytes too far: the last word in front of memory that is not there can be neither
  read nor written in part.
\<close>

lemma last_word_unreadable:
  assumes "mem_has (tg_mem t) a bs" "length bs = 8" "tg_mem t (a + 8) = None" "4 \<le> length (junk 0)" "length dat = 8"
  shows "memcpyFromTarget junk t dat a 8 = Inl Death"
  using memcpyFromTarget_8_fails [of "tg_mem t" a bs junk dat] assms
  by (simp add: memcpyFromTarget_def memcpyFromTargetNoDeath_def)

section \<open>Calls\<close>

text \<open>
  \<^verbatim>\<open>mallocTarget\<close> returns what the process leaves in \<^verbatim>\<open>rax\<close>, and puts back the code it replaced and the
  registers; it relies on the memory around the code still being there after the run.
\<close>

lemma mallocTarget_restores:
  assumes "mallocAddress t \<noteq> 0" "targetTextStart t = loc" "loc \<noteq> 0"
    "mem_has (tg_mem t) (word_base loc) old" "unat (loc mod 8) + 26 \<le> length old" "length old \<le> 2 ^ 64"
    "\<And>j. 4 \<le> length (junk j)" "mem_has (tg_mem t) loc code" "length code = 22"
    "s = run (t\<lparr>tg_mem := mem_write (tg_mem t) loc (malloc_code (mallocAddress t)),
      tg_regs := (tg_regs t)\<lparr>reg_rdi := len, reg_rbx := mallocAddress t, reg_rip := loc\<rparr>\<rparr>)"
    "reg_rax (tg_regs s) \<noteq> 0"
    "mem_has (tg_mem s) (word_base loc) old'" "length old' = length old"
  shows "mallocTarget junk run t len = Inr (s\<lparr>tg_mem := mem_write (tg_mem s) loc (take 15 code), tg_regs := tg_regs t\<rparr>,
    reg_rax (tg_regs s))"
proof -
  have l: "length (malloc_code (mallocAddress t)) = 15" by (simp add: malloc_code_def)
  have r: "memcpyFromTarget junk t (replicate 15 0) loc 15 = Inr (take 15 code)"
    using memcpyFromTarget_ok [OF assms(8), of 15 "replicate 15 0" junk] assms(7,9) by (simp add: copy_extent_def)
  have w: "memcpyToTarget junk t loc (malloc_code (mallocAddress t)) 15 =
      Inr (t\<lparr>tg_mem := mem_write (tg_mem t) loc (malloc_code (mallocAddress t))\<rparr>)"
    using memcpyToTarget_ok [OF assms(4) [unfolded word_base_def] refl, of 15 "malloc_code (mallocAddress t)" junk] assms(5-7) l by simp
  have w': "memcpyToTarget junk s loc (take 15 code) 15 = Inr (s\<lparr>tg_mem := mem_write (tg_mem s) loc (take 15 code)\<rparr>)"
    using memcpyToTarget_ok [OF assms(12) [unfolded word_base_def] refl, of 15 "take 15 code" junk] assms(5-7,9,13) by simp
  show ?thesis
    using assms(1-3,11) r w w' by (simp add: mallocTarget_def Let_def flip: assms(10))
qed

text \<open>
  \<^verbatim>\<open>mmapTarget\<close> also writes a return address below the stack pointer, where a leaf function may keep its
  variables, and does not put back what was there: only the code and the registers are restored.
\<close>

lemma mmapTarget_restores:
  assumes "reg_rip (tg_regs t) = pc" "reg_rsp (tg_regs t) - 12 = sp"
    "mem_has (tg_mem t) (word_base pc) old" "unat (pc mod 8) + 15 \<le> length old" "length old \<le> 2 ^ 64"
    "\<And>j. 4 \<le> length (junk j)" "mem_has (tg_mem t) pc code" "length code = 8"
    "mem_has (mem_write (tg_mem t) pc syscall_code) sp stack" "length stack = 8"
    "s = run (t\<lparr>tg_mem := mem_write (mem_write (tg_mem t) pc syscall_code) sp (word_bytes 8 (pc + 2)),
      tg_regs := (tg_regs t)\<lparr>reg_rdi := addr, reg_rsi := sz, reg_rdx := prot, reg_rcx := 0x22, reg_r8 := - 1,
        reg_r9 := 0, reg_r10 := 0x22, reg_rsp := sp, reg_rax := 9\<rparr>\<rparr>)"
    "reg_rax (tg_regs s) \<noteq> - 1"
    "mem_has (tg_mem s) (word_base pc) old'" "length old' = length old"
  shows "mmapTarget junk run t sz prot addr = Inr (s\<lparr>tg_mem := mem_write (tg_mem s) pc (take 4 code), tg_regs := tg_regs t\<rparr>,
    reg_rax (tg_regs s))"
proof -
  have l: "length syscall_code = 4" by (simp add: syscall_code_def)
  have r: "memcpyFromTarget junk t (replicate 4 0) pc 4 = Inr (take 4 code)"
    using memcpyFromTarget_ok [OF assms(7), of 4 "replicate 4 0" junk] assms(6,8) by (simp add: copy_extent_def)
  have w: "memcpyToTarget junk t pc syscall_code 4 = Inr (t\<lparr>tg_mem := mem_write (tg_mem t) pc syscall_code\<rparr>)"
    using memcpyToTarget_ok [OF assms(3) [unfolded word_base_def] refl, of 4 syscall_code junk] assms(4-6) l by simp
  have p: "modifyTarget (t\<lparr>tg_mem := mem_write (tg_mem t) pc syscall_code\<rparr>) sp (pc + 2) =
      Inr (t\<lparr>tg_mem := mem_write (mem_write (tg_mem t) pc syscall_code) sp (word_bytes 8 (pc + 2))\<rparr>)"
    using modifyTarget_ok [of "t\<lparr>tg_mem := mem_write (tg_mem t) pc syscall_code\<rparr>" sp stack "word_bytes 8 (pc + 2)"] assms(9,10)
    by simp
  have w': "memcpyToTarget junk s pc (take 4 code) 4 = Inr (s\<lparr>tg_mem := mem_write (tg_mem s) pc (take 4 code)\<rparr>)"
    using memcpyToTarget_ok [OF assms(13) [unfolded word_base_def] refl, of 4 "take 4 code" junk] assms(4-6,8,14) by simp
  show ?thesis
    using assms(12) r w w' p by (simp add: mmapTarget_def Let_def assms(1,2) flip: assms(11))
qed

section \<open>Breakpoints\<close>

text \<open>A map with the one entry that was inserted.\<close>

lemma first_breakpoint:
  "\<exists>bps. mapInsert (size_tMapCreate 100) loc code = Inr bps \<and> mapGet bps loc = Inr (Some code) \<and>
    mapInsert bps loc code' = Inl AssertFail"
proof -
  let ?b = "unat (size_tHash loc) mod 100"
  have b: "?b < 100" by simp
  have eq: "size_tCmp loc loc = 0" by (simp add: size_tCmp_def)
  show ?thesis
    using b by (simp add: size_tMapCreate_def mapCreate_def mapInsert_def mapGet_def table_insert_def table_exists_def
      table_get_def table_find_def bucket_of_def alloc_def insert_first_def map_eq_def eq)
qed

lemma mem_write_twice: "length xs = length ys \<Longrightarrow> mem_write (mem_write m a xs) a ys = mem_write m a ys"
  by (rule ext) (simp add: mem_write_def)

lemma mem_has_overwrite:
  assumes "mem_has m a old" "k + length xs \<le> length old" "length old \<le> 2 ^ 64"
  shows "mem_has (mem_write m (a + of_nat k) xs) a (take k old @ xs @ drop (k + length xs) old)"
proof -
  let ?pre = "take k old" and ?mid = "take (length xs) (drop k old)" and ?post = "drop (k + length xs) old"
  have "old = ?pre @ ?mid @ ?post" by (metis add.commute append_take_drop_id drop_drop)
  then have "mem_write m a (?pre @ xs @ ?post) = mem_write m (a + of_nat (length ?pre)) xs"
    by (intro mem_write_within [of _ _ _ ?mid]) (use assms in simp_all)
  moreover have "length ?pre = k" using assms(2) by simp
  moreover have "mem_has (mem_write m a (?pre @ xs @ ?post)) a (?pre @ xs @ ?post)"
    by (rule mem_write_has) (use assms in simp)
  ultimately show ?thesis by simp
qed

text \<open>
  C30: the first breakpoint set in a process replaces the code there, and removing it restores the memory and
  moves the program counter back when it stands behind the trap; setting it again at the same place fails
  the assertion of \<^verbatim>\<open>mapInsert\<close>, because the entry was never removed from the map.
\<close>

theorem breakpoint_set_once:
  assumes "breakpointRestoreInfo t = None"
    "mem_has (tg_mem t) (word_base loc) old" "unat (loc mod 8) + 15 \<le> length old" "length old \<le> 2 ^ 64"
    "\<And>j. 4 \<le> length (junk j)"
  shows "\<exists>t1 t2. setBreakpoint junk t loc = Inr t1 \<and> tg_mem t1 = mem_write (tg_mem t) loc int3_code \<and>
    removeBreakpoint junk t1 loc = Inr t2 \<and> tg_mem t2 = tg_mem t \<and>
    tg_regs t2 = (if reg_rip (tg_regs t) = loc + 1 then (tg_regs t)\<lparr>reg_rip := loc\<rparr> else tg_regs t) \<and>
    setBreakpoint junk t2 loc = Inl AssertFail"
proof -
  let ?k = "unat (loc mod 8)" and ?orig = "take 4 (drop (unat (loc mod 8)) old)"
  have base: "word_base loc + of_nat ?k = loc" by (simp add: word_base_def)
  have l: "length ?orig = 4" "length int3_code = 4" using assms(3) by (simp_all add: int3_code_def)
  have has: "mem_has (tg_mem t) loc (drop ?k old)"
    using mem_has_drop [OF assms(2), of ?k] assms(3) base by simp
  have read: "memcpyFromTarget junk u (replicate 4 0) loc 4 = Inr ?orig" if "tg_mem u = tg_mem t" for u
    using memcpyFromTarget_ok [of u loc "drop ?k old" 4 "replicate 4 0" junk] has that assms(3,5) by (simp add: copy_extent_def)
  obtain bps :: "(64 word, byte list) Map" where bps: "mapInsert (size_tMapCreate 100) loc ?orig = Inr bps"
      "mapGet bps loc = Inr (Some ?orig)" "mapInsert bps loc ?orig = Inl AssertFail"
    using first_breakpoint [of loc ?orig ?orig] by blast
  let ?t0 = "t\<lparr>breakpointRestoreInfo := Some bps\<rparr>"
  let ?t1 = "?t0\<lparr>tg_mem := mem_write (tg_mem t) loc int3_code\<rparr>"
  have "memcpyToTarget junk ?t0 loc int3_code 4 = Inr ?t1"
    using memcpyToTarget_ok [of ?t0 loc ?k old 4 int3_code junk] assms(2-5) l by (simp add: word_base_def)
  then have set: "setBreakpoint junk t loc = Inr ?t1"
    using bps(1) assms(1) read [of t] by (simp add: setBreakpoint_def)
  let ?old1 = "take ?k old @ int3_code @ drop (?k + 4) old"
  have old1: "mem_has (tg_mem ?t1) (loc - of_nat ?k) ?old1" "length ?old1 = length old"
    using mem_has_overwrite [OF assms(2), of ?k int3_code] assms(3,4) l(2) base by (simp_all add: word_base_def)
  have "mem_write (mem_write (tg_mem t) loc int3_code) loc ?orig = mem_write (tg_mem t) loc ?orig"
    by (rule mem_write_twice) (simp only: l)
  also have "\<dots> = tg_mem t"
    by (rule mem_write_keep [OF mem_has_take [OF has]]) (use assms(3,4) in simp)
  finally have restored: "mem_write (mem_write (tg_mem t) loc int3_code) loc ?orig = tg_mem t" .
  have "memcpyToTarget junk ?t1 loc ?orig 4 = Inr (?t1\<lparr>tg_mem := mem_write (tg_mem ?t1) loc (take 4 ?orig)\<rparr>)"
    by (rule memcpyToTarget_ok [OF old1(1) refl]) (use assms(3-5) old1(2) l in simp_all)
  then have "memcpyToTarget junk ?t1 loc ?orig 4 = Inr ?t0" using restored by simp
  then obtain t2 where rm: "removeBreakpoint junk ?t1 loc = Inr t2" "tg_mem t2 = tg_mem t"
      "tg_regs t2 = (if reg_rip (tg_regs t) = loc + 1 then (tg_regs t)\<lparr>reg_rip := loc\<rparr> else tg_regs t)"
      "breakpointRestoreInfo t2 = Some bps"
    using bps(2) by (auto simp: removeBreakpoint_def)
  have "setBreakpoint junk t2 loc = Inl AssertFail"
    using bps(3) rm(4) read [OF rm(2)] by (simp add: setBreakpoint_def)
  with set rm show ?thesis by auto
qed

theorem breakpoint_set_once_witness:
  "\<exists>t1 t2. setBreakpoint (\<lambda>_. [1, 2, 3, 4]) blank_target 4096 = Inr t1 \<and> tg_mem t1 4096 = Some 0xcc \<and>
    removeBreakpoint (\<lambda>_. [1, 2, 3, 4]) t1 4096 = Inr t2 \<and> tg_mem t2 = tg_mem blank_target \<and>
    setBreakpoint (\<lambda>_. [1, 2, 3, 4]) t2 4096 = Inl AssertFail"
proof -
  have "unat ((4096 :: addr_t) mod 8) = 0" by (simp add: unat_mod)
  moreover have "breakpointRestoreInfo blank_target = None" by (simp add: blank_target_def)
  ultimately obtain t1 t2 where t: "setBreakpoint (\<lambda>_. [1, 2, 3, 4]) blank_target 4096 = Inr t1"
      "tg_mem t1 = mem_write (tg_mem blank_target) 4096 int3_code"
      "removeBreakpoint (\<lambda>_. [1, 2, 3, 4]) t1 4096 = Inr t2" "tg_mem t2 = tg_mem blank_target"
      "setBreakpoint (\<lambda>_. [1, 2, 3, 4]) t2 4096 = Inl AssertFail"
    using breakpoint_set_once [of blank_target 4096 "replicate 24 0" "\<lambda>_. [1, 2, 3, 4]"] by auto
  from t(2) have "tg_mem t1 4096 = Some 0xcc" by (simp add: mem_write_def int3_code_def)
  with t show ?thesis by blast
qed

end
