(* ===== verification/Relocation_Properties.thy ===== *)
theory Relocation_Properties
  imports Relocation Symbol_Properties Target_Properties
begin

text \<open>
  The properties of relocation: an entry that is written reads back, and applying a relocation of a plain
  address changes its bytes alone and leaves the addend recoverable.
\<close>

section \<open>Entries\<close>

lemma R_INFO_fields:
  assumes "s < 2 ^ 32"
  shows "R_SYM (R_INFO s type) = s" "R_TYPE (R_INFO s type) = type"
proof -
  have i: "R_INFO s type = push_bit 32 (of_nat s) OR ucast type"
    unfolding R_INFO_def by (rule disjunctive_add) (auto simp: bit_simps dest: bit_imp_le_length)
  have "drop_bit 32 (R_INFO s type) = take_bit 32 (of_nat s)"
    unfolding i by (rule bit_word_eqI) (auto simp: bit_simps dest: bit_imp_le_length)
  then show "R_SYM (R_INFO s type) = s"
    using assms by (simp add: R_SYM_def take_bit_eq_mod unat_mod unat_of_nat)
  show "R_TYPE (R_INFO s type) = type"
    unfolding i R_TYPE_def by (rule bit_word_eqI) (auto simp: bit_simps dest: bit_imp_le_length)
qed

lemma read_back:
  assumes "off + length bs \<le> length mem"
  shows "\<exists>mem'. write_bytes mem off bs = Inr mem' \<and> length mem' = length mem \<and> take (length bs) (drop off mem') = bs \<and>
    (\<forall>i n. i + n \<le> off \<or> off + length bs \<le> i \<longrightarrow> take n (drop i mem') = take n (drop i mem))"
proof -
  let ?m = "take off mem @ bs @ drop (off + length bs) mem"
  have l: "length (take off mem) = off" using assms by simp
  have before: "take n (drop i ?m) = take n (drop i mem)" if "i + n \<le> off" for i n
  proof -
    have "take (i + n) ?m = take (i + n) mem" using that assms by simp
    then show ?thesis by (metis drop_take add_diff_cancel_left')
  qed
  have behind: "drop i ?m = drop i mem" if "off + length bs \<le> i" for i
    using that assms by simp
  have "drop off ?m = bs @ drop (off + length bs) mem" using l by simp
  then have "take (length bs) (drop off ?m) = bs" by simp
  moreover have "write_bytes mem off bs = Inr ?m" using assms by (simp add: write_bytes_def)
  moreover have "length ?m = length mem" using assms by simp
  ultimately show ?thesis using before behind by (intro exI [of _ ?m]) auto
qed

text \<open>
  C14: a relocation entry that is written at an offset inside the section reads back with its offset, symbol
  and type, and with its addend when the section has room for addends (otherwise the addend is computed from
  the data, and the one handed in is lost); every other entry keeps its bytes.
\<close>

theorem relocation_entry_roundtrip:
  assumes "is_reloc_scn scn" "off < sh_size (scn_shdr scn)" "symIdx reloc < 2 ^ 32"
    "unat off + (if sh_type (scn_shdr scn) = SHT_REL then 16 else 24) \<le> length (d_buf scn)"
  shows "\<exists>scn'. setRelocationEntryAtOffset reloc scn off = Inr scn' \<and> scn_shdr scn' = scn_shdr scn \<and>
    length (d_buf scn') = length (d_buf scn) \<and>
    getRelocationEntryAtOffset L e scn' off =
      (if sh_type (scn_shdr scn) = SHT_REL
       then bindE (computeAddend L e (relocType reloc) (symIdx reloc) (r_offset reloc) (sh_info (scn_shdr scn)))
         (\<lambda>a. Inr (reloc\<lparr>r_addend := a, scnIdx := sh_info (scn_shdr scn)\<rparr>))
       else Inr (reloc\<lparr>scnIdx := sh_info (scn_shdr scn)\<rparr>)) \<and>
    (\<forall>i n. i + n \<le> unat off \<or> unat off + (if sh_type (scn_shdr scn) = SHT_REL then 16 else 24) \<le> i \<longrightarrow>
       take n (drop i (d_buf scn')) = take n (drop i (d_buf scn)))"
proof -
  let ?rela = "sh_type (scn_shdr scn) \<noteq> SHT_REL" and ?bs = "entry_bytes reloc (sh_type (scn_shdr scn) \<noteq> SHT_REL)"
  have len: "length ?bs = (if ?rela then 24 else 16)" by (simp add: entry_bytes_def)
  then obtain mem where mem: "write_bytes (d_buf scn) (unat off) ?bs = Inr mem" "length mem = length (d_buf scn)"
      "take (length ?bs) (drop (unat off) mem) = ?bs"
      "\<And>i n. i + n \<le> unat off \<or> unat off + length ?bs \<le> i \<Longrightarrow> take n (drop i mem) = take n (drop i (d_buf scn))"
    using read_back [of "unat off" ?bs "d_buf scn"] assms(4) by (auto split: if_splits)
  let ?scn = "scn\<lparr>d_buf := mem\<rparr>"
  have set: "setRelocationEntryAtOffset reloc scn off = Inr ?scn"
    using assms(1,2) mem(1) by (simp add: setRelocationEntryAtOffset_def)
  have copy: "copy_out (drop (unat off) mem) (length ?bs) = Inr ?bs"
    using mem(2,3) assms(4) len by (auto simp: copy_out_def split: if_splits)
  have "getRelocationEntryAtOffset L e ?scn off =
      (if sh_type (scn_shdr scn) = SHT_REL
       then bindE (computeAddend L e (relocType reloc) (symIdx reloc) (r_offset reloc) (sh_info (scn_shdr scn)))
         (\<lambda>a. Inr (reloc\<lparr>r_addend := a, scnIdx := sh_info (scn_shdr scn)\<rparr>))
       else Inr (reloc\<lparr>scnIdx := sh_info (scn_shdr scn)\<rparr>))"
    using assms(1,2) copy len R_INFO_fields [OF assms(3)]
    by (cases reloc) (auto simp: getRelocationEntryAtOffset_def is_reloc_scn_def entry_bytes_def rel_info_def rela_info_def
      rel_of_bytes_def rela_of_bytes_def)
  with set mem(2,4) len show ?thesis by (intro exI [of _ ?scn]) auto
qed

definition small_rela :: Elf_Scn where
  "small_rela = \<lparr>scn_shdr = (small_shdr 4 48)\<lparr>sh_info := 1\<rparr>, d_size = 48, d_buf = replicate 48 0\<rparr>"

theorem relocation_entry_roundtrip_witness:
  "\<exists>scn. setRelocationEntryAtOffset \<lparr>r_offset = 4096, symIdx = 7, relocType = R_X86_64_32, r_addend = - 4, scnIdx = 0\<rparr>
      small_rela 24 = Inr scn \<and>
    getRelocationEntryAtOffset elf64 small_elf scn 24 =
      Inr \<lparr>r_offset = 4096, symIdx = 7, relocType = R_X86_64_32, r_addend = - 4, scnIdx = 1\<rparr> \<and>
    take 24 (d_buf scn) = replicate 24 0"
proof -
  let ?r = "\<lparr>r_offset = 4096, symIdx = 7, relocType = R_X86_64_32, r_addend = - 4, scnIdx = 0\<rparr>"
  have small: "is_reloc_scn small_rela" "24 < sh_size (scn_shdr small_rela)" "symIdx ?r < 2 ^ 32"
      "unat (24 :: addr_t) + (if sh_type (scn_shdr small_rela) = SHT_REL then 16 else 24) \<le> length (d_buf small_rela)"
    by (simp_all add: small_rela_def is_reloc_scn_def small_shdr_def)
  have shdr: "sh_type (scn_shdr small_rela) = SHT_RELA" "sh_info (scn_shdr small_rela) = 1"
    by (simp_all add: small_rela_def small_shdr_def)
  obtain scn where scn: "setRelocationEntryAtOffset ?r small_rela 24 = Inr scn"
      "getRelocationEntryAtOffset elf64 small_elf scn 24 = Inr (?r\<lparr>scnIdx := 1\<rparr>)"
      "\<forall>i n. i + n \<le> unat (24 :: addr_t) \<or> unat (24 :: addr_t) + 24 \<le> i \<longrightarrow>
        take n (drop i (d_buf scn)) = take n (drop i (d_buf small_rela))"
    using relocation_entry_roundtrip [OF small, of elf64 small_elf] unfolding shdr by auto
  from scn(3) [rule_format, of 0 24] have "take 24 (d_buf scn) = replicate 24 0" by (simp add: small_rela_def)
  with scn(1,2) show ?thesis by (intro exI [of _ scn]) simp
qed

section \<open>Applying a relocation\<close>

text \<open>Storing a section that is not the symbol table does not change what its symbols read as.\<close>

lemma getscn_set_scn: "getscn (set_scn e k scn) i = (if i = k \<and> k < length (e_scns e) then Some scn else getscn e i)"
  by (auto simp: getscn_def set_scn_def)

lemma getSymbol_set_scn:
  "sectionIndices e ERS_SYMTAB \<noteq> k \<Longrightarrow> getSymbol L (set_scn e k scn) i = getSymbol L e i"
  by (simp add: getSymbol_def getDataByERS_def scn_or_def getscn_set_scn) (simp add: set_scn_def)

text \<open>On disk a relocation of a symbol that is not an undefined function stores the low bytes of its value.\<close>

lemma applyRelocation_on_disk:
  assumes "getscn e (scnIdx rel) = Some scn" "getSymbol L e (symIdx rel) = Inr sy"
    "getString e (unat (st_name sy)) = Inr name" "\<not> (st_shndx sy = 0 \<and> st_value sy = 0 \<and> ST_TYPE (st_info sy) = STT_FUNC)"
    "reloc_value rel (st_value sy) = Inr (v, n)"
    "unat (r_offset rel - sh_addr (scn_shdr scn)) + n \<le> length (d_buf scn)"
  shows "\<exists>buf. applyRelocation L junk 2 rel e t = Inr (set_scn e (scnIdx rel) (scn\<lparr>d_buf := buf\<rparr>), t) \<and>
    length buf = length (d_buf scn) \<and>
    take n (drop (unat (r_offset rel - sh_addr (scn_shdr scn))) buf) = word_bytes n v \<and>
    (\<forall>i k. i + k \<le> unat (r_offset rel - sh_addr (scn_shdr scn)) \<or> unat (r_offset rel - sh_addr (scn_shdr scn)) + n \<le> i \<longrightarrow>
      take k (drop i buf) = take k (drop i (d_buf scn)))"
proof -
  let ?off = "unat (r_offset rel - sh_addr (scn_shdr scn))"
  obtain buf where buf: "write_bytes (d_buf scn) ?off (word_bytes n v) = Inr buf" "length buf = length (d_buf scn)"
      "take n (drop ?off buf) = word_bytes n v"
      "\<forall>i k. i + k \<le> ?off \<or> ?off + n \<le> i \<longrightarrow> take k (drop i buf) = take k (drop i (d_buf scn))"
    using read_back [of ?off "word_bytes n v" "d_buf scn"] assms(6) by auto
  have "\<not> (unat (st_shndx sy) = SHN_UNDEF \<and> st_value sy = 0 \<and> ST_TYPE (st_info sy) = STT_FUNC)"
    using assms(4) by (auto simp: unat_eq_0)
  with assms(1-3,5) buf show ?thesis
    by (intro exI [of _ buf]) (auto simp: applyRelocation_def scn_or_def Let_def flag_def)
qed

text \<open>
  C29: applying a relocation of type \<^verbatim>\<open>R_386_32\<close> on disk writes the symbol's value plus the addend over the
  eight bytes at its offset and changes nothing else, and the addend can be computed back from the data.
\<close>

theorem applied_addend_recovered:
  assumes "getscn e (scnIdx rel) = Some scn" "getSymbol L e (symIdx rel) = Inr sy"
    "getString e (unat (st_name sy)) = Inr name" "\<not> (st_shndx sy = 0 \<and> st_value sy = 0 \<and> ST_TYPE (st_info sy) = STT_FUNC)"
    "relocType rel = R_386_32" "unat (st_shndx sy) \<noteq> SHN_COMMON" "sectionIndices e ERS_SYMTAB \<noteq> scnIdx rel"
    "r_offset rel - sh_addr (scn_shdr scn) = of_nat off" "off < 2 ^ 32" "off + 8 \<le> length (d_buf scn)"
    "length (d_buf scn) \<le> d_size scn"
  shows "\<exists>buf. applyRelocation L junk 2 rel e t = Inr (set_scn e (scnIdx rel) (scn\<lparr>d_buf := buf\<rparr>), t) \<and>
    take 8 (drop off buf) = word_bytes 8 (st_value sy + r_addend rel) \<and>
    (\<forall>i k. i + k \<le> off \<or> off + 8 \<le> i \<longrightarrow> take k (drop i buf) = take k (drop i (d_buf scn))) \<and>
    computeAddend L (set_scn e (scnIdx rel) (scn\<lparr>d_buf := buf\<rparr>)) R_386_32 (symIdx rel) (r_offset rel) (scnIdx rel) =
      Inr (r_addend rel)"
proof -
  have off: "unat (r_offset rel - sh_addr (scn_shdr scn)) = off" using assms(8,9) by (simp add: unat_of_nat)
  have v: "reloc_value rel (st_value sy) = Inr (st_value sy + r_addend rel, 8)" using assms(5) by (simp add: reloc_value_def)
  obtain buf where buf: "applyRelocation L junk 2 rel e t = Inr (set_scn e (scnIdx rel) (scn\<lparr>d_buf := buf\<rparr>), t)"
      "length buf = length (d_buf scn)" "take 8 (drop off buf) = word_bytes 8 (st_value sy + r_addend rel)"
      "\<forall>i k. i + k \<le> off \<or> off + 8 \<le> i \<longrightarrow> take k (drop i buf) = take k (drop i (d_buf scn))"
    using applyRelocation_on_disk [OF assms(1-4) v, unfolded off, OF assms(10)] by blast
  let ?scn = "scn\<lparr>d_buf := buf\<rparr>"
  have "scn_off ?scn (r_offset rel) IN_MEM = off"
    using assms(8,9) by (simp add: scn_off_def scn_base_def unsigned_ucast_eq take_bit_eq_mod unat_of_nat)
  then have "getWordAtAbs ?scn (r_offset rel) IN_MEM = Inr (st_value sy + r_addend rel)"
    using buf(2,3) assms(10,11) by (simp add: getWordAtAbs_def copy_out_def)
  moreover have "scnIdx rel < length (e_scns e)" using assms(1) by (simp add: getscn_def split: if_splits)
  ultimately show ?thesis
    using buf assms(2,6) by (intro exI [of _ buf])
      (simp add: computeAddend_def getSymbol_set_scn [OF assms(7)] scn_or_def getscn_set_scn)
qed

definition small_text :: Elf_Scn where
  "small_text = \<lparr>scn_shdr = small_shdr 1 16, d_size = 16, d_buf = replicate 16 7\<rparr>"

definition small_linked :: ElfInfo where
  "small_linked = small_elf\<lparr>e_scns := e_scns small_elf @ [small_text]\<rparr>"

theorem applied_addend_recovered_witness:
  "\<exists>e'. applyRelocation elf64 (\<lambda>_. []) 2 \<lparr>r_offset = 4, symIdx = 1, relocType = R_386_32, r_addend = 100, scnIdx = 3\<rparr>
      small_linked blank_target = Inr (e', blank_target) \<and>
    computeAddend elf64 e' R_386_32 1 4 3 = Inr 100"
proof -
  let ?r = "\<lparr>r_offset = 4, symIdx = 1, relocType = R_386_32, r_addend = 100, scnIdx = 3\<rparr>"
  have data: "getDataByERS small_linked ERS_SYMTAB = Inr small_symtab"
    by (simp add: getDataByERS_def scn_or_def getscn_def small_linked_def small_elf_def)
  have sy: "getSymbol elf64 small_linked 1 = Inr (sym_at small_symtab 1)"
    using entry_in [of 1 small_symtab 24 sym_of_bytes] small_symtab_data
    by (simp add: getSymbol_def data elf64_def sym_at_def)
  have str: "getString small_linked (unat (st_name (sym_at small_symtab 1))) = Inr ''f''"
    using small_strings(2) unfolding small_symbols(2)
    by (simp add: getString_def scn_or_def getscn_def small_linked_def small_elf_def)
  have scn: "getscn small_linked (scnIdx ?r) = Some small_text"
    by (simp add: getscn_def small_linked_def small_elf_def)
  have rest: "sectionIndices small_linked ERS_SYMTAB \<noteq> scnIdx ?r" "r_offset ?r - sh_addr (scn_shdr small_text) = of_nat 4"
      "(4 :: nat) < 2 ^ 32" "4 + 8 \<le> length (d_buf small_text)" "length (d_buf small_text) \<le> d_size small_text"
    by (simp_all add: small_linked_def small_elf_def small_text_def small_shdr_def)
  have sym: "\<not> (st_shndx (sym_at small_symtab 1) = 0 \<and> st_value (sym_at small_symtab 1) = 0 \<and>
      ST_TYPE (st_info (sym_at small_symtab 1)) = STT_FUNC)" "unat (st_shndx (sym_at small_symtab 1)) \<noteq> SHN_COMMON"
    unfolding small_symbols(2) by simp_all
  have "symIdx ?r = 1" "relocType ?r = R_386_32" by simp_all
  with applied_addend_recovered [OF scn, of elf64 "sym_at small_symtab 1" "''f''" 4 "\<lambda>_. []" blank_target] sy str sym rest
  obtain buf where "applyRelocation elf64 (\<lambda>_. []) 2 ?r small_linked blank_target =
        Inr (set_scn small_linked (scnIdx ?r) (small_text\<lparr>d_buf := buf\<rparr>), blank_target)"
      "computeAddend elf64 (set_scn small_linked (scnIdx ?r) (small_text\<lparr>d_buf := buf\<rparr>)) R_386_32 (symIdx ?r) (r_offset ?r) (scnIdx ?r) =
        Inr (r_addend ?r)"
    by metis
  then show ?thesis by auto
qed

text \<open>
  For the \<^verbatim>\<open>PC32\<close> types the addend computed back from the word that an application leaves is 8 too big; and a
  relocation of type \<^verbatim>\<open>R_X86_64_32S\<close>, whose field has four bytes, is written over eight.
\<close>

lemma pc32_addend_shifted:
  assumes "getSymbol L e si = Inr sy" "unat (st_shndx sy) \<noteq> SHN_COMMON" "st_value sy \<noteq> 0" "getscn e sc = Some scn"
    "getWordAtAbs scn off IN_MEM = Inr (st_value sy + addend - off)"
  shows "computeAddend L e R_386_PC32 si off sc = Inr (addend + 8)"
  using assms by (simp add: computeAddend_def scn_or_def Let_def)

lemma sext32_writes_eight:
  "relocType rel = R_X86_64_32S \<Longrightarrow> reloc_value rel a = Inr (a + scast (ucast (r_addend rel) :: uint), 8)"
  by (simp add: reloc_value_def signExtend32To64_scast)

end
