(* ===== verification/Type_Diff.thy ===== *)
theory Type_Diff
  imports Heap_Model
begin

text \<open>
  \<^verbatim>\<open>src/src/patchwrite/typediff.c\<close>: whether a type of the old program is the same in the new one, and, where
  it is not, how to carry its data over (\<^verbatim>\<open>TypeInfo\<close>, \<^verbatim>\<open>TypeTransform\<close> of \<^verbatim>\<open>src/src/types.h\<close>).  Types and
  transformations refer to each other by address, so both live in heaps of their own.
\<close>

section \<open>Types and transformations\<close>

datatype TYPE_TYPE = TT_STRUCT | TT_BASE | TT_POINTER | TT_ARRAY | TT_UNION | TT_ENUM
  | TT_SUBROUTINE_TYPE | TT_CONST | TT_VOID

datatype E_TYPEDIFF_STATUS = ETS_NOT_DONE | ETS_DIFFERED | ETS_SAME

text \<open>
  The members of \<^verbatim>\<open>TypeInfo\<close> that the comparison reads or writes; the reference count, the compilation
  unit, the DWARF entries and the flags of the reader are left out.
\<close>

record TypeInfo =
  ti_name :: string
  ti_type :: TYPE_TYPE
  ti_length :: int
  ti_typediffStatus :: E_TYPEDIFF_STATUS
  ti_diffAgainst :: ptr
  ti_transformer :: ptr
  ti_numFields :: nat
  ti_fields :: "string list"
  ti_fieldOffsets :: "int list"
  ti_fieldTypes :: "ptr list"
  ti_pointedType :: ptr
  ti_lowerBounds :: "int list"
  ti_upperBounds :: "int list"
  ti_depth :: nat

text \<open>\<^verbatim>\<open>E_FIELD_TRANSFORM_TYPE\<close> as the numbers it has: a zeroed array holds none of them.\<close>

definition FIELD_DELETED :: int where "FIELD_DELETED = -2"
definition EFTT_DELETE :: int where "EFTT_DELETE = FIELD_DELETED"
definition EFTT_COPY :: int where "EFTT_COPY = 1"
definition EFTT_RECURSE :: int where "EFTT_RECURSE = 2"

record TypeTransform =
  tt_from :: ptr
  tt_to :: ptr
  tt_straightCopy :: bool
  tt_fieldOffsets :: "int list"
  tt_fieldTransformTypes :: "int list"
  tt_onDisk :: bool
  tt_fdeIdx :: nat

record Types =
  ts_types :: "TypeInfo heap"
  ts_trans :: "TypeTransform heap"

definition load_type :: "Types \<Rightarrow> ptr \<Rightarrow> TypeInfo result" where
  "load_type ts p = load (ts_types ts) p"

definition update_type :: "Types \<Rightarrow> ptr \<Rightarrow> (TypeInfo \<Rightarrow> TypeInfo) \<Rightarrow> Types result" where
  "update_type ts p f = bindE (update (ts_types ts) p f) (\<lambda>h. Inr (ts\<lparr>ts_types := h\<rparr>))"

definition load_trans :: "Types \<Rightarrow> ptr \<Rightarrow> TypeTransform result" where
  "load_trans ts p = load (ts_trans ts) p"

definition update_trans :: "Types \<Rightarrow> nat \<Rightarrow> (TypeTransform \<Rightarrow> TypeTransform result) \<Rightarrow> Types result" where
  "update_trans ts tr f =
     bindE (load_trans ts (Some tr)) (\<lambda>t. bindE (f t) (\<lambda>t'.
       Inr (ts\<lparr>ts_trans := (ts_trans ts)[tr := Some t']\<rparr>)))"

definition alloc_trans :: "Types \<Rightarrow> TypeTransform \<Rightarrow> Types \<times> nat" where
  "alloc_trans ts t = (case alloc (ts_trans ts) t of (h, tr) \<Rightarrow> (ts\<lparr>ts_trans := h\<rparr>, tr))"

text \<open>A \<^verbatim>\<open>TypeTransform\<close> as \<^verbatim>\<open>zmalloc\<close> leaves it.\<close>

definition blank_trans :: TypeTransform where
  "blank_trans = \<lparr>tt_from = None, tt_to = None, tt_straightCopy = False, tt_fieldOffsets = [],
     tt_fieldTransformTypes = [], tt_onDisk = False, tt_fdeIdx = 0\<rparr>"

definition freeTypeTransform :: "Types \<Rightarrow> nat \<Rightarrow> Types result" where
  "freeTypeTransform ts tr =
     bindE (free_cell (ts_trans ts) (Some tr)) (\<lambda>h. Inr (ts\<lparr>ts_trans := h\<rparr>))"

section \<open>Fields by name\<close>

fun find_field :: "TypeInfo \<Rightarrow> string \<Rightarrow> nat list \<Rightarrow> nat option result" where
  "find_field t name [] = Inr None"
| "find_field t name (i # is) =
     bindE (elem_at (ti_fields t) i) (\<lambda>f. if name = f then Inr (Some i) else find_field t name is)"

definition getOffsetForField :: "TypeInfo \<Rightarrow> string \<Rightarrow> int result" where
  "getOffsetForField t name =
     bindE (find_field t name [0..<ti_numFields t]) (\<lambda>r. case r of
       None \<Rightarrow> Inr FIELD_DELETED
     | Some i \<Rightarrow> elem_at (ti_fieldOffsets t) i)"

definition getIndexForField :: "TypeInfo \<Rightarrow> string \<Rightarrow> int result" where
  "getIndexForField t name =
     bindE (find_field t name [0..<ti_numFields t]) (\<lambda>r. case r of
       None \<Rightarrow> Inr FIELD_DELETED
     | Some i \<Rightarrow> Inr (int i))"

text \<open>An array indexed by a signed number.\<close>

definition elem_at_int :: "'a list \<Rightarrow> int \<Rightarrow> 'a result" where
  "elem_at_int xs i = (if i < 0 then Inl OutOfBounds else elem_at xs (nat i))"

definition genStraightCopyTransform :: "Types \<Rightarrow> ptr \<Rightarrow> ptr \<Rightarrow> Types result" where
  "genStraightCopyTransform ts a b =
     bindE (load_type ts a) (\<lambda>ta.
     bindE (guardE (ti_transformer ta = None) AssertFail) (\<lambda>_.
       (case alloc_trans ts (blank_trans\<lparr>tt_from := a, tt_to := b, tt_straightCopy := True\<rparr>) of
          (ts1, tr) \<Rightarrow> update_type ts1 a (ti_transformer_update (\<lambda>_. Some tr)))))"

section \<open>Whether a type changed\<close>

text \<open>
  One member of a structure or union.  The test for an anonymous type looks at the old type twice, never
  at the new one.
\<close>

definition anonymous :: "TypeInfo \<Rightarrow> bool" where
  "anonymous t \<longleftrightarrow> take 5 (ti_name t) = ''anon_''"

definition member_agrees :: "TypeInfo \<Rightarrow> string \<Rightarrow> TypeInfo \<Rightarrow> string \<Rightarrow> bool" where
  "member_agrees ta fa tb fb \<longleftrightarrow>
     \<not> (ti_length ta \<noteq> ti_length tb \<or> ti_name ta \<noteq> ti_name tb \<or> fa \<noteq> fb) \<or>
     (anonymous ta \<and> anonymous ta \<and> ti_type ta = ti_type tb \<and> fa = fb \<and> ti_length ta = ti_length tb)"

fun members_agree :: "Types \<Rightarrow> TypeInfo \<Rightarrow> TypeInfo \<Rightarrow> nat list \<Rightarrow> bool result" where
  "members_agree ts a b [] = Inr True"
| "members_agree ts a b (i # is) =
     bindE (elem_at (ti_fieldTypes a) i) (\<lambda>pa. bindE (load_type ts pa) (\<lambda>ta.
     bindE (elem_at (ti_fieldTypes b) i) (\<lambda>pb. bindE (load_type ts pb) (\<lambda>tb.
     bindE (elem_at (ti_fields a) i) (\<lambda>fa. bindE (elem_at (ti_fields b) i) (\<lambda>fb.
       if member_agrees ta fa tb fb then members_agree ts a b is else Inr False))))))"

text \<open>The first dimension that changed: only its upper bound may.\<close>

fun bounds_agree :: "TypeInfo \<Rightarrow> TypeInfo \<Rightarrow> nat list \<Rightarrow> bool result" where
  "bounds_agree a b [] = Inr True"
| "bounds_agree a b (i # is) =
     bindE (elem_at (ti_lowerBounds a) i) (\<lambda>la. bindE (elem_at (ti_lowerBounds b) i) (\<lambda>lb.
     bindE (elem_at (ti_upperBounds a) i) (\<lambda>ua. bindE (elem_at (ti_upperBounds b) i) (\<lambda>ub.
       if la \<noteq> lb \<or> ua \<noteq> ub then (if la \<noteq> lb then Inl Death else Inr False)
       else bounds_agree a b is))))"

text \<open>
  \<open>cmp\<close> is the comparison itself, called for the types this one refers to.
\<close>

type_synonym comparison = "ptr \<Rightarrow> ptr \<Rightarrow> Types \<Rightarrow> (bool \<times> Types) result"

definition pointed_agrees :: "comparison \<Rightarrow> TypeInfo \<Rightarrow> TypeInfo \<Rightarrow> bool \<Rightarrow> Types \<Rightarrow> (bool \<times> Types) result" where
  "pointed_agrees cmp ta tb retval ts =
     bindE (cmp (ti_pointedType ta) (ti_pointedType tb) ts) (\<lambda>(same, ts).
       Inr (if \<not> same then False else retval, ts))"

definition same_surface :: "TypeInfo \<Rightarrow> TypeInfo \<Rightarrow> bool" where
  "same_surface ta tb \<longleftrightarrow>
     ti_name ta = ti_name tb \<and> ti_numFields ta = ti_numFields tb \<and> ti_length ta = ti_length tb"

definition type_agrees :: "comparison \<Rightarrow> TypeInfo \<Rightarrow> TypeInfo \<Rightarrow> Types \<Rightarrow> (bool \<times> Types) result" where
  "type_agrees cmp ta tb ts =
     (let retval = same_surface ta tb in
      case ti_type ta of
        TT_UNION \<Rightarrow> bindE (if retval then members_agree ts ta tb [0..<ti_numFields ta] else Inr False) (\<lambda>r. Inr (r, ts))
      | TT_STRUCT \<Rightarrow> bindE (if retval then members_agree ts ta tb [0..<ti_numFields ta] else Inr False) (\<lambda>r. Inr (r, ts))
      | TT_ARRAY \<Rightarrow>
          bindE (guardE (ti_depth ta = ti_depth tb) Death) (\<lambda>_.
          bindE (bounds_agree ta tb [0..<ti_depth ta]) (\<lambda>r.
            pointed_agrees cmp ta tb (r \<and> retval) ts))
      | TT_POINTER \<Rightarrow> pointed_agrees cmp ta tb retval ts
      | TT_CONST \<Rightarrow> pointed_agrees cmp ta tb retval ts
      | TT_BASE \<Rightarrow> Inr (retval, ts)
      | TT_VOID \<Rightarrow> Inr (retval, ts)
      | TT_ENUM \<Rightarrow> Inr (retval, ts)
      | TT_SUBROUTINE_TYPE \<Rightarrow> Inr (True, ts))"

section \<open>How to transform it\<close>

definition set_kind :: "nat \<Rightarrow> nat \<Rightarrow> int \<Rightarrow> Types \<Rightarrow> Types result" where
  "set_kind tr i k ts =
     update_trans ts tr (\<lambda>t. bindE (store_at (tt_fieldTransformTypes t) i k) (\<lambda>ks. Inr (t\<lparr>tt_fieldTransformTypes := ks\<rparr>)))"

definition set_offset :: "nat \<Rightarrow> nat \<Rightarrow> int \<Rightarrow> Types \<Rightarrow> Types result" where
  "set_offset tr i off ts =
     update_trans ts tr (\<lambda>t. bindE (store_at (tt_fieldOffsets t) i off) (\<lambda>os. Inr (t\<lparr>tt_fieldOffsets := os\<rparr>)))"

text \<open>
  What is done with a field whose kind did not change.  \<open>None\<close>: the type it points to changed and has no
  transformation.
\<close>

definition field_kind :: "comparison \<Rightarrow> TypeInfo \<Rightarrow> TypeInfo \<Rightarrow> Types \<Rightarrow> (int option \<times> Types) result" where
  "field_kind cmp told tnew ts =
     (if ti_type told = TT_BASE \<or> ti_type told = TT_ENUM then Inr (Some EFTT_COPY, ts)
      else if ti_type told = TT_STRUCT \<or> ti_type told = TT_UNION then Inr (Some EFTT_RECURSE, ts)
      else if ti_type told = TT_POINTER \<or> ti_type told = TT_CONST then
        bindE (cmp (ti_pointedType told) (ti_pointedType tnew) ts) (\<lambda>(same, ts).
        bindE (load_type ts (ti_pointedType told)) (\<lambda>p.
          Inr (if \<not> same \<and> ti_transformer p = None then None
               else if ti_transformer p \<noteq> None then Some EFTT_RECURSE
               else Some EFTT_COPY, ts)))
      else Inl Death)"

definition check_transformer :: "ptr \<Rightarrow> ptr \<Rightarrow> Types \<Rightarrow> unit result" where
  "check_transformer old new ts =
     bindE (load_type ts old) (\<lambda>t.
       if ti_transformer t = None then Inr ()
       else bindE (load_trans ts (ti_transformer t)) (\<lambda>x. guardE (tt_to x = new) Death))"

text \<open>The comparison of a field's own type: \<open>False\<close> when it changed and has no transformation.\<close>

definition field_recurse :: "comparison \<Rightarrow> TYPE_TYPE \<Rightarrow> ptr \<Rightarrow> ptr \<Rightarrow> Types \<Rightarrow> (bool \<times> Types) result" where
  "field_recurse cmp kind old new ts =
     bindE (cmp old new ts) (\<lambda>(same, ts).
       if same then Inr (True, ts)
       else
         bindE (load_type ts old) (\<lambda>t.
           if ti_transformer t = None then Inr (False, ts)
           else if kind = TT_UNION then Inl Death
           else Inr (True, ts)))"

text \<open>
  What follows the choice \<open>k\<close> for field \<open>i\<close>.  \<open>False\<close> ends the comparison: the transformation has been freed,
  the type still points to it.
\<close>

definition place_field ::
  "comparison \<Rightarrow> nat \<Rightarrow> TYPE_TYPE \<Rightarrow> TypeInfo \<Rightarrow> nat \<Rightarrow> string \<Rightarrow> ptr \<Rightarrow> ptr \<Rightarrow> int option \<Rightarrow> Types \<Rightarrow> (bool \<times> Types) result" where
  "place_field cmp tr kind tb i name old new k ts =
     (case k of
        None \<Rightarrow> bindE (freeTypeTransform ts tr) (\<lambda>ts. Inr (False, ts))
      | Some k \<Rightarrow>
          bindE (set_kind tr i k ts) (\<lambda>ts.
          bindE (check_transformer old new ts) (\<lambda>_.
          bindE (if k = EFTT_RECURSE then field_recurse cmp kind old new ts else Inr (True, ts)) (\<lambda>(ok, ts).
            if \<not> ok then bindE (freeTypeTransform ts tr) (\<lambda>ts. Inr (False, ts))
            else
              bindE (getOffsetForField tb name) (\<lambda>off.
              bindE (set_offset tr i off ts) (\<lambda>ts. Inr (True, ts)))))))"

text \<open>One field of the old type.\<close>

definition transform_field ::
  "comparison \<Rightarrow> nat \<Rightarrow> TypeInfo \<Rightarrow> TypeInfo \<Rightarrow> nat \<Rightarrow> Types \<Rightarrow> (bool \<times> Types) result" where
  "transform_field cmp tr ta tb i ts =
     bindE (elem_at (ti_fields ta) i) (\<lambda>name.
     bindE (getIndexForField tb name) (\<lambda>idxInB.
     bindE (elem_at (ti_fieldTypes ta) i) (\<lambda>old.
     bindE (elem_at_int (ti_fieldTypes tb) idxInB) (\<lambda>new.
     bindE (load_type ts old) (\<lambda>told.
     bindE (load_type ts new) (\<lambda>tnew.
     if ti_type told \<noteq> ti_type tnew then
       bindE (set_offset tr i FIELD_DELETED ts) (\<lambda>ts.
       bindE (set_kind tr i EFTT_DELETE ts) (\<lambda>ts. Inr (True, ts)))
     else
       bindE (field_kind cmp told tnew ts) (\<lambda>(k, ts).
         place_field cmp tr (ti_type ta) tb i name old new k ts)))))))"

fun transform_fields ::
  "comparison \<Rightarrow> nat \<Rightarrow> TypeInfo \<Rightarrow> TypeInfo \<Rightarrow> nat list \<Rightarrow> Types \<Rightarrow> Types result" where
  "transform_fields cmp tr ta tb [] ts = Inr ts"
| "transform_fields cmp tr ta tb (i # is) ts =
     bindE (transform_field cmp tr ta tb i ts) (\<lambda>(ok, ts).
       if ok then transform_fields cmp tr ta tb is ts else Inr ts)"

definition new_transform :: "ptr \<Rightarrow> ptr \<Rightarrow> TypeInfo \<Rightarrow> TypeTransform" where
  "new_transform a b ta =
     blank_trans\<lparr>tt_from := a, tt_to := b,
       tt_straightCopy := (ti_type ta = TT_UNION \<or> ti_type ta = TT_ENUM \<or> ti_type ta = TT_ARRAY),
       tt_fieldOffsets := replicate (ti_numFields ta) 0,
       tt_fieldTransformTypes := replicate (ti_numFields ta) 0\<rparr>"

definition gen_transform :: "comparison \<Rightarrow> ptr \<Rightarrow> ptr \<Rightarrow> TypeInfo \<Rightarrow> TypeInfo \<Rightarrow> Types \<Rightarrow> (bool \<times> Types) result" where
  "gen_transform cmp a b ta tb ts =
     bindE (update_type ts a (ti_typediffStatus_update (\<lambda>_. ETS_DIFFERED))) (\<lambda>ts.
     (case alloc_trans ts (new_transform a b ta) of (ts, tr) \<Rightarrow>
        bindE (update_type ts a (ti_transformer_update (\<lambda>_. Some tr))) (\<lambda>ts.
        bindE (transform_fields cmp tr ta tb [0..<ti_numFields ta] ts) (\<lambda>ts. Inr (False, ts)))))"

section \<open>The comparison\<close>

text \<open>
  One activation.  The names, lengths and members of a type do not change while it is compared, so they
  are read once; the three members that do (\<^verbatim>\<open>diffAgainst\<close>, \<^verbatim>\<open>typediffStatus\<close>, \<^verbatim>\<open>transformer\<close>) are read
  again after every call.
\<close>

definition compare_step :: "comparison \<Rightarrow> comparison" where
  "compare_step cmp a b ts =
     bindE (load_type ts a) (\<lambda>ta.
     bindE (load_type ts b) (\<lambda>tb.
     if ti_type ta \<noteq> ti_type tb then Inr (False, ts)
     else if ti_diffAgainst ta \<noteq> None then
       bindE (guardE (ETS_NOT_DONE \<noteq> ti_typediffStatus ta) AssertFail) (\<lambda>_.
         if ti_diffAgainst ta \<noteq> b then Inl Death
         else Inr (if ETS_DIFFERED = ti_typediffStatus ta then False else True, ts))
     else
       bindE (update_type ts a (ti_diffAgainst_update (\<lambda>_. b))) (\<lambda>ts.
       bindE (type_agrees cmp ta tb ts) (\<lambda>(retval, ts).
         if retval then
           bindE (update_type ts a (ti_typediffStatus_update (\<lambda>_. ETS_SAME))) (\<lambda>ts. Inr (True, ts))
         else gen_transform cmp a b ta tb ts))))"

text \<open>The C function calls itself without a bound; \<open>fuel\<close> is the depth of the calls.\<close>

fun compareTypesAndGenTransforms :: "nat \<Rightarrow> comparison" where
  "compareTypesAndGenTransforms 0 a b ts = Inl Diverges"
| "compareTypesAndGenTransforms (Suc fuel) a b ts = compare_step (compareTypesAndGenTransforms fuel) a b ts"

end
