(* ===== verification/Type_Diff_Laws.thy ===== *)
theory Type_Diff_Laws
  imports Type_Diff
begin

text \<open>
  What a comparison of types does to the types it did not start with, how deep its calls go, and what its
  answer means.
\<close>

section \<open>Outcomes\<close>

text \<open>\<open>outcome m P\<close>: the run \<open>m\<close> comes to an end, and \<open>P\<close> holds of the value, if it returns one.\<close>

definition outcome :: "'a result \<Rightarrow> ('a \<Rightarrow> bool) \<Rightarrow> bool" where
  "outcome m P \<longleftrightarrow> (case m of Inl e \<Rightarrow> e \<noteq> Diverges | Inr x \<Rightarrow> P x)"

named_theorems outcome_intros \<open>one rule for each form of a run\<close>

lemma outcome_Inr [outcome_intros]: "P x \<Longrightarrow> outcome (Inr x) P"
  by (simp add: outcome_def)

lemma outcome_Inl [outcome_intros]: "e \<noteq> Diverges \<Longrightarrow> outcome (Inl e) P"
  by (simp add: outcome_def)

lemma outcome_simps [simp]: "outcome (Inr x) P = P x" "outcome (Inl e) P = (e \<noteq> Diverges)"
  by (simp_all add: outcome_def)

lemma outcome_bindE: "outcome m Q \<Longrightarrow> (\<And>x. Q x \<Longrightarrow> outcome (f x) P) \<Longrightarrow> outcome (bindE m f) P"
  by (cases m) (simp_all add: outcome_def)

lemma outcome_mono: "outcome m Q \<Longrightarrow> (\<And>x. Q x \<Longrightarrow> P x) \<Longrightarrow> outcome m P"
  by (auto simp: outcome_def split: sum.splits)

lemma outcome_guardE [outcome_intros]: "e \<noteq> Diverges \<Longrightarrow> outcome (guardE b e) (\<lambda>_. b)"
  by (simp add: outcome_def guardE_def)

lemma outcome_elem_at [outcome_intros]: "outcome (elem_at xs i) (\<lambda>x. i < length xs \<and> x = xs ! i)"
  by (simp add: outcome_def elem_at_def)

lemma outcome_elem_at_int [outcome_intros]: "outcome (elem_at_int xs i) (\<lambda>x. 0 \<le> i \<and> nat i < length xs \<and> x = xs ! nat i)"
  by (simp add: outcome_def elem_at_int_def elem_at_def)

lemma outcome_store_at [outcome_intros]: "outcome (store_at xs i v) (\<lambda>ys. ys = xs[i := v])"
  by (simp add: outcome_def store_at_def)

lemma outcome_load [outcome_intros]: "outcome (load h p) (\<lambda>n. \<exists>a. p = Some a \<and> cell h a n)"
  by (auto simp: outcome_def load_def elem_at_def split: option.splits)

lemma outcome_load_type [outcome_intros]:
  "outcome (load_type ts p) (\<lambda>t. \<exists>a. p = Some a \<and> cell (ts_types ts) a t)"
  unfolding load_type_def by (rule outcome_load)

section \<open>What a comparison leaves alone\<close>

text \<open>The members of a type that a comparison never writes.\<close>

definition static :: "TypeInfo \<Rightarrow> TypeInfo" where
  "static t = t\<lparr>ti_typediffStatus := ETS_NOT_DONE, ti_diffAgainst := None, ti_transformer := None\<rparr>"

text \<open>
  \<open>evolves ts ts'\<close>: no type appeared or went away or changed its description, one that had been compared
  or was being compared is as it was, and the transformations there were are as they were.
\<close>

definition evolves :: "Types \<Rightarrow> Types \<Rightarrow> bool" where
  "evolves ts ts' \<longleftrightarrow>
     length (ts_types ts') = length (ts_types ts) \<and>
     (\<forall>i. (i < length (ts_types ts) \<and> ts_types ts ! i = None) \<longrightarrow> ts_types ts' ! i = None) \<and>
     (\<forall>i t. cell (ts_types ts) i t \<longrightarrow>
        (\<exists>t'. ts_types ts' ! i = Some t' \<and> static t' = static t \<and> (ti_diffAgainst t \<noteq> None \<longrightarrow> t' = t))) \<and>
     length (ts_trans ts) \<le> length (ts_trans ts') \<and>
     (\<forall>i < length (ts_trans ts). ts_trans ts' ! i = ts_trans ts ! i)"

lemma evolves_refl [simp]: "evolves ts ts"
  by (simp add: evolves_def)

lemma evolves_cell:
  "evolves ts ts' \<Longrightarrow> cell (ts_types ts) i t \<Longrightarrow>
   \<exists>t'. cell (ts_types ts') i t' \<and> static t' = static t \<and> (ti_diffAgainst t \<noteq> None \<longrightarrow> t' = t)"
  by (auto simp: evolves_def)

lemma evolves_cell_back:
  assumes "evolves ts ts'" "cell (ts_types ts') i t'"
  obtains t where "cell (ts_types ts) i t" "static t' = static t" "ti_diffAgainst t \<noteq> None \<Longrightarrow> t' = t"
proof -
  have i: "i < length (ts_types ts)" using assms by (simp add: evolves_def)
  show thesis
  proof (cases "ts_types ts ! i")
    case None
    then have "ts_types ts' ! i = None" using assms(1) i by (simp add: evolves_def)
    then show thesis using assms(2) by simp
  next
    case (Some t)
    then have "cell (ts_types ts) i t" using i by simp
    with evolves_cell [OF assms(1) this] assms(2) that show thesis by auto
  qed
qed

lemma evolves_trans:
  assumes "evolves ts ts'" "evolves ts' ts''" shows "evolves ts ts''"
proof -
  have "\<exists>t''. ts_types ts'' ! i = Some t'' \<and> static t'' = static t \<and> (ti_diffAgainst t \<noteq> None \<longrightarrow> t'' = t)"
    if c: "cell (ts_types ts) i t" for i t
  proof -
    obtain t' where t': "cell (ts_types ts') i t'" "static t' = static t" "ti_diffAgainst t \<noteq> None \<longrightarrow> t' = t"
      using evolves_cell [OF assms(1) c] by blast
    obtain t'' where "cell (ts_types ts'') i t''" "static t'' = static t'" "ti_diffAgainst t' \<noteq> None \<longrightarrow> t'' = t'"
      using evolves_cell [OF assms(2) t'(1)] by blast
    with t' show ?thesis by auto
  qed
  then show ?thesis using assms by (auto simp: evolves_def)
qed

section \<open>The writes\<close>

text \<open>A type that is not being compared with any other may be written, except for its description.\<close>

definition writes_variable :: "(TypeInfo \<Rightarrow> TypeInfo) \<Rightarrow> bool" where
  "writes_variable f \<longleftrightarrow> (\<forall>t. static (f t) = static t)"

lemma writes_variableI [simp]:
  "writes_variable (ti_diffAgainst_update g)"
  "writes_variable (ti_typediffStatus_update g')"
  "writes_variable (ti_transformer_update g)"
  by (simp_all add: writes_variable_def static_def)

text \<open>The type \<open>a\<close> belongs to the activation that found it not yet compared.\<close>

definition fresh_type :: "Types \<Rightarrow> nat \<Rightarrow> bool" where
  "fresh_type ts a \<longleftrightarrow> (\<exists>t. cell (ts_types ts) a t \<and> ti_diffAgainst t = None)"

lemma evolves_update_type:
  assumes "evolves ts ts'" "fresh_type ts a" "writes_variable f" "cell (ts_types ts') a t"
  shows "evolves ts (ts'\<lparr>ts_types := (ts_types ts')[a := Some (f t)]\<rparr>)"
proof -
  let ?ts = "ts'\<lparr>ts_types := (ts_types ts')[a := Some (f t)]\<rparr>"
  obtain t0 where t0: "cell (ts_types ts) a t0" "ti_diffAgainst t0 = None"
    using assms(2) by (auto simp: fresh_type_def)
  have "\<exists>u'. ts_types ?ts ! i = Some u' \<and> static u' = static u \<and> (ti_diffAgainst u \<noteq> None \<longrightarrow> u' = u)"
    if u: "cell (ts_types ts) i u" for i u
  proof (cases "i = a")
    case True
    then have "u = t0" using u t0 by simp
    moreover have "static t = static t0" using evolves_cell [OF assms(1) t0(1)] assms(4) by auto
    ultimately show ?thesis using True t0(2) assms(3,4) by (simp add: writes_variable_def)
  next
    case False
    then show ?thesis using evolves_cell [OF assms(1) u] by auto
  qed
  moreover have "ts_types ?ts ! i = None" if "i < length (ts_types ts)" "ts_types ts ! i = None" for i
    using that t0 assms(1) by (cases "i = a") (auto simp: evolves_def)
  ultimately show ?thesis using assms(1) by (simp add: evolves_def)
qed

lemma outcome_update_type:
  assumes "evolves ts ts'" "fresh_type ts a" "writes_variable f"
  shows "outcome (update_type ts' (Some a) f)
     (\<lambda>ts''. evolves ts ts'' \<and> (\<exists>t. cell (ts_types ts') a t \<and> ts'' = ts'\<lparr>ts_types := (ts_types ts')[a := Some (f t)]\<rparr>))"
  unfolding update_type_def update_def
  using evolves_update_type [OF assms]
  by (auto simp: outcome_def load_def elem_at_def fault_simps split: sum.splits option.splits)

text \<open>A transformation made since may be written or freed.\<close>

lemma evolves_trans_cell:
  "evolves ts ts' \<Longrightarrow> length (ts_trans ts) \<le> tr \<Longrightarrow> evolves ts (ts'\<lparr>ts_trans := (ts_trans ts')[tr := c]\<rparr>)"
  by (auto simp: evolves_def)

lemma outcome_update_trans:
  assumes "evolves ts ts'" "length (ts_trans ts) \<le> tr" "\<And>t. outcome (f t) (\<lambda>_. True)"
  shows "outcome (update_trans ts' tr f) (\<lambda>ts''. evolves ts ts'' \<and> ts_types ts'' = ts_types ts')"
  unfolding update_trans_def load_trans_def
  by (rule outcome_bindE [OF outcome_load])
     (auto intro!: outcome_bindE [OF assms(3)] outcome_Inr evolves_trans_cell assms(1,2))

lemma outcome_set_kind:
  "evolves ts ts' \<Longrightarrow> length (ts_trans ts) \<le> tr \<Longrightarrow>
   outcome (set_kind tr i k ts') (\<lambda>ts''. evolves ts ts'' \<and> ts_types ts'' = ts_types ts')"
  unfolding set_kind_def
  by (erule outcome_update_trans) (auto intro!: outcome_bindE [OF outcome_store_at] outcome_Inr)

lemma outcome_set_offset:
  "evolves ts ts' \<Longrightarrow> length (ts_trans ts) \<le> tr \<Longrightarrow>
   outcome (set_offset tr i k ts') (\<lambda>ts''. evolves ts ts'' \<and> ts_types ts'' = ts_types ts')"
  unfolding set_offset_def
  by (erule outcome_update_trans) (auto intro!: outcome_bindE [OF outcome_store_at] outcome_Inr)

lemma outcome_freeTypeTransform:
  assumes "evolves ts ts'" "length (ts_trans ts) \<le> tr"
  shows "outcome (freeTypeTransform ts' tr) (\<lambda>ts''. evolves ts ts'' \<and> ts_types ts'' = ts_types ts')"
  unfolding freeTypeTransform_def free_cell_def
  using evolves_trans_cell [OF assms, of None]
  by (auto simp: outcome_def load_def elem_at_def fault_simps split: sum.splits option.splits)

lemma evolves_alloc_trans:
  "evolves ts ts' \<Longrightarrow> alloc_trans ts' t = (ts'', tr) \<Longrightarrow>
   evolves ts ts'' \<and> ts_types ts'' = ts_types ts' \<and> tr = length (ts_trans ts')"
  by (auto simp: alloc_trans_def alloc_def evolves_def nth_append)


section \<open>What the answer means\<close>

text \<open>The types \<open>a\<close> and \<open>b\<close> have been compared and found the same.\<close>

definition agreed :: "Types \<Rightarrow> ptr \<Rightarrow> ptr \<Rightarrow> bool" where
  "agreed ts a b \<longleftrightarrow>
     (\<exists>x t. a = Some x \<and> cell (ts_types ts) x t \<and> ti_diffAgainst t = b \<and> ti_typediffStatus t = ETS_SAME)"

definition same_member :: "Types \<Rightarrow> TypeInfo \<Rightarrow> TypeInfo \<Rightarrow> nat \<Rightarrow> bool" where
  "same_member ts ta tb i \<longleftrightarrow>
     i < length (ti_fields ta) \<and> i < length (ti_fields tb) \<and> ti_fields ta ! i = ti_fields tb ! i \<and>
     i < length (ti_fieldTypes ta) \<and> i < length (ti_fieldTypes tb) \<and>
     (\<exists>x u y v. ti_fieldTypes ta ! i = Some x \<and> cell (ts_types ts) x u \<and>
        ti_fieldTypes tb ! i = Some y \<and> cell (ts_types ts) y v \<and> ti_length u = ti_length v \<and>
        (ti_name u = ti_name v \<or> anonymous u \<and> ti_type u = ti_type v))"

definition same_bounds :: "TypeInfo \<Rightarrow> TypeInfo \<Rightarrow> nat \<Rightarrow> bool" where
  "same_bounds ta tb i \<longleftrightarrow>
     i < length (ti_lowerBounds ta) \<and> i < length (ti_lowerBounds tb) \<and> ti_lowerBounds ta ! i = ti_lowerBounds tb ! i \<and>
     i < length (ti_upperBounds ta) \<and> i < length (ti_upperBounds tb) \<and> ti_upperBounds ta ! i = ti_upperBounds tb ! i"

text \<open>
  Two types that look the same: of the same kind, name, size and number of fields (function types are not looked
  at), their members the same by name, size and type name, their dimensions the same, and what they point
  to, or consist of, found the same.
\<close>

definition alike :: "Types \<Rightarrow> TypeInfo \<Rightarrow> TypeInfo \<Rightarrow> bool" where
  "alike ts ta tb \<longleftrightarrow>
     ti_type ta = ti_type tb \<and>
     (ti_type ta \<noteq> TT_SUBROUTINE_TYPE \<longrightarrow> same_surface ta tb) \<and>
     (ti_type ta = TT_STRUCT \<or> ti_type ta = TT_UNION \<longrightarrow> (\<forall>i < ti_numFields ta. same_member ts ta tb i)) \<and>
     (ti_type ta = TT_ARRAY \<longrightarrow> ti_depth ta = ti_depth tb \<and> (\<forall>i < ti_depth ta. same_bounds ta tb i)) \<and>
     (ti_type ta = TT_ARRAY \<or> ti_type ta = TT_POINTER \<or> ti_type ta = TT_CONST \<longrightarrow>
        agreed ts (ti_pointedType ta) (ti_pointedType tb))"

definition matches :: "Types \<Rightarrow> TypeInfo \<Rightarrow> bool" where
  "matches ts t \<longleftrightarrow> (\<exists>b tb. ti_diffAgainst t = Some b \<and> cell (ts_types ts) b tb \<and> alike ts t tb)"

text \<open>
  The state between comparisons, and within one: a type not yet compared has no answer, and one whose answer
  is \<open>ETS_SAME\<close> looks the same as the type it was compared with.
\<close>

definition diff_ok :: "Types \<Rightarrow> bool" where
  "diff_ok ts \<longleftrightarrow> (\<forall>i t. cell (ts_types ts) i t \<longrightarrow>
     (ti_diffAgainst t = None \<longrightarrow> ti_typediffStatus t = ETS_NOT_DONE) \<and>
     (ti_typediffStatus t = ETS_SAME \<longrightarrow> matches ts t))"

lemma static_eqD:
  assumes "static t = static u"
  shows "ti_name t = ti_name u" "ti_type t = ti_type u" "ti_length t = ti_length u"
    "ti_numFields t = ti_numFields u" "ti_fields t = ti_fields u" "ti_fieldTypes t = ti_fieldTypes u"
    "ti_pointedType t = ti_pointedType u" "ti_lowerBounds t = ti_lowerBounds u"
    "ti_upperBounds t = ti_upperBounds u" "ti_depth t = ti_depth u"
  using assms by (cases t; cases u; simp add: static_def)+

lemma alike_static:
  assumes "static t = static ta" "static u = static tb"
  shows "alike ts t u = alike ts ta tb"
proof -
  note s = static_eqD [OF assms(1)] static_eqD [OF assms(2)]
  have "same_member ts t u = same_member ts ta tb" by (rule ext) (simp add: same_member_def s)
  moreover have "same_bounds t u = same_bounds ta tb" by (rule ext) (simp add: same_bounds_def s)
  ultimately show ?thesis by (simp add: alike_def same_surface_def s)
qed

text \<open>Writing the type of an activation changes no answer.\<close>

lemma same_member_write:
  assumes "same_member ts ta tb i" "cell (ts_types ts) a t" "static t' = static t"
  shows "same_member (ts\<lparr>ts_types := (ts_types ts)[a := Some t']\<rparr>) ta tb i"
proof -
  let ?h = "(ts_types ts)[a := Some t']"
  have "\<exists>u'. cell ?h x u' \<and> static u' = static u" if "cell (ts_types ts) x u" for x u
    using that assms(2,3) by (cases "x = a") auto
  moreover obtain x u y v where m: "ti_fieldTypes ta ! i = Some x" "cell (ts_types ts) x u"
      "ti_fieldTypes tb ! i = Some y" "cell (ts_types ts) y v" "ti_length u = ti_length v"
      "ti_name u = ti_name v \<or> anonymous u \<and> ti_type u = ti_type v"
    using assms(1) unfolding same_member_def by blast
  ultimately obtain u' v' where n: "cell ?h x u'" "static u' = static u" "cell ?h y v'" "static v' = static v" by blast
  note s = static_eqD [OF n(2)] static_eqD [OF n(4)]
  have "ti_length u' = ti_length v' \<and> (ti_name u' = ti_name v' \<or> anonymous u' \<and> ti_type u' = ti_type v')"
    using m(5,6) by (simp add: anonymous_def s)
  then show ?thesis using assms(1) m(1,3) n(1,3) unfolding same_member_def by auto
qed

lemma agreed_write:
  "agreed ts p q \<Longrightarrow> cell (ts_types ts) a t \<Longrightarrow> ti_typediffStatus t \<noteq> ETS_SAME \<Longrightarrow>
   agreed (ts\<lparr>ts_types := (ts_types ts)[a := Some t']\<rparr>) p q"
  unfolding agreed_def by (auto simp: nth_list_update)

lemma alike_write:
  assumes "alike ts ta tb" "cell (ts_types ts) a t" "static t' = static t" "ti_typediffStatus t \<noteq> ETS_SAME"
  shows "alike (ts\<lparr>ts_types := (ts_types ts)[a := Some t']\<rparr>) ta tb"
proof -
  let ?ts = "ts\<lparr>ts_types := (ts_types ts)[a := Some t']\<rparr>"
  have "\<And>i. same_member ts ta tb i \<Longrightarrow> same_member ?ts ta tb i"
    by (rule same_member_write [OF _ assms(2,3)])
  moreover have "\<And>p q. agreed ts p q \<Longrightarrow> agreed ?ts p q"
    by (rule agreed_write [OF _ assms(2,4)])
  ultimately show ?thesis using assms(1) unfolding alike_def by blast
qed

lemma matches_write:
  assumes "matches ts u" "cell (ts_types ts) a t" "static t' = static t" "ti_typediffStatus t \<noteq> ETS_SAME"
  shows "matches (ts\<lparr>ts_types := (ts_types ts)[a := Some t']\<rparr>) u"
proof -
  let ?ts = "ts\<lparr>ts_types := (ts_types ts)[a := Some t']\<rparr>"
  obtain b tb where b: "ti_diffAgainst u = Some b" "cell (ts_types ts) b tb" "alike ts u tb"
    using assms(1) unfolding matches_def by blast
  obtain tb' where tb': "cell (ts_types ?ts) b tb'" "static tb' = static tb"
    using b(2) assms(2,3) by (cases "b = a") auto
  have "alike ?ts u tb'"
    using alike_write [OF b(3) assms(2,3,4)] alike_static [OF refl tb'(2), of _ u] by simp
  with b(1) tb'(1) show ?thesis unfolding matches_def by blast
qed

lemma diff_ok_write:
  assumes "diff_ok ts" "cell (ts_types ts) a t" "static t' = static t" "ti_typediffStatus t \<noteq> ETS_SAME"
    and "ti_diffAgainst t' = None \<longrightarrow> ti_typediffStatus t' = ETS_NOT_DONE"
    and "ti_typediffStatus t' = ETS_SAME \<longrightarrow> matches ts t'"
  shows "diff_ok (ts\<lparr>ts_types := (ts_types ts)[a := Some t']\<rparr>)"
  unfolding diff_ok_def
proof (intro allI impI)
  fix i u assume u: "cell (ts_types (ts\<lparr>ts_types := (ts_types ts)[a := Some t']\<rparr>)) i u"
  have "(ti_diffAgainst u = None \<longrightarrow> ti_typediffStatus u = ETS_NOT_DONE) \<and>
        (ti_typediffStatus u = ETS_SAME \<longrightarrow> matches ts u)"
    using u assms(1,2,5,6) by (cases "i = a") (auto simp: diff_ok_def)
  then show "(ti_diffAgainst u = None \<longrightarrow> ti_typediffStatus u = ETS_NOT_DONE) \<and>
        (ti_typediffStatus u = ETS_SAME \<longrightarrow> matches (ts\<lparr>ts_types := (ts_types ts)[a := Some t']\<rparr>) u)"
    using matches_write [OF _ assms(2,3,4)] by blast
qed

lemma diff_ok_types: "ts_types ts' = ts_types ts \<Longrightarrow> diff_ok ts' = diff_ok ts"
  by (simp add: diff_ok_def matches_def alike_def same_member_def agreed_def)

section \<open>One activation\<close>

text \<open>How many types have not been compared.\<close>

definition undiffed :: "Types \<Rightarrow> nat" where
  "undiffed ts = length (filter (\<lambda>c. case c of None \<Rightarrow> False | Some t \<Rightarrow> ti_diffAgainst t = None) (ts_types ts))"

lemma undiffed_card: "undiffed ts = card {a. fresh_type ts a}"
  unfolding undiffed_def length_filter_conv_card
  by (rule arg_cong [of _ _ card]) (auto simp: fresh_type_def split: option.splits)

lemma finite_fresh: "finite {a. fresh_type ts a}"
  by (rule finite_subset [of _ "{..<length (ts_types ts)}"]) (auto simp: fresh_type_def)

lemma evolves_fresh:
  assumes "evolves ts ts'" "fresh_type ts' a" shows "fresh_type ts a"
proof -
  obtain t' where t': "cell (ts_types ts') a t'" "ti_diffAgainst t' = None"
    using assms(2) by (auto simp: fresh_type_def)
  obtain t where "cell (ts_types ts) a t" "ti_diffAgainst t \<noteq> None \<Longrightarrow> t' = t"
    using evolves_cell_back [OF assms(1) t'(1)] by blast
  with t'(2) show ?thesis unfolding fresh_type_def by metis
qed

text \<open>
  \<open>own ts a t ts'\<close>: within the activation that started in \<open>ts\<close> for the type \<open>a\<close>, which is \<open>t\<close> now.
\<close>

definition own :: "Types \<Rightarrow> nat \<Rightarrow> TypeInfo \<Rightarrow> Types \<Rightarrow> bool" where
  "own ts a t ts' \<longleftrightarrow> fresh_type ts a \<and> evolves ts ts' \<and> cell (ts_types ts') a t \<and>
     ti_diffAgainst t \<noteq> None \<and> (diff_ok ts \<longrightarrow> diff_ok ts')"

lemma own_undiffed:
  assumes "own ts a t ts'" shows "undiffed ts' < undiffed ts"
  unfolding undiffed_card
proof (rule psubset_card_mono [OF finite_fresh])
  have "a \<notin> {a. fresh_type ts' a}" using assms by (auto simp: own_def fresh_type_def)
  moreover have "a \<in> {a. fresh_type ts a}" "{a. fresh_type ts' a} \<subseteq> {a. fresh_type ts a}"
    using assms evolves_fresh by (auto simp: own_def)
  ultimately show "{a. fresh_type ts' a} \<subset> {a. fresh_type ts a}" by blast
qed

text \<open>A comparison that does what it should from every state with fewer than \<open>n\<close> types left.\<close>

definition good :: "nat \<Rightarrow> comparison \<Rightarrow> bool" where
  "good n cmp \<longleftrightarrow> (\<forall>a b ts. undiffed ts < n \<longrightarrow>
     outcome (cmp a b ts) (\<lambda>(r, ts'). evolves ts ts' \<and> (diff_ok ts \<longrightarrow> diff_ok ts' \<and> (r \<longrightarrow> agreed ts' a b))))"

lemma own_call:
  assumes "good n cmp" "own ts a t x" "undiffed ts \<le> n"
  shows "outcome (cmp p q x) (\<lambda>(r, y). own ts a t y \<and> (diff_ok ts \<and> r \<longrightarrow> agreed y p q))"
proof (rule outcome_mono)
  show "outcome (cmp p q x) (\<lambda>(r, ts'). evolves x ts' \<and> (diff_ok x \<longrightarrow> diff_ok ts' \<and> (r \<longrightarrow> agreed ts' p q)))"
    using assms(1) less_le_trans [OF own_undiffed [OF assms(2)] assms(3)] unfolding good_def by blast
next
  fix ry :: "bool \<times> Types"
  assume c: "case ry of (r, ts') \<Rightarrow> evolves x ts' \<and> (diff_ok x \<longrightarrow> diff_ok ts' \<and> (r \<longrightarrow> agreed ts' p q))"
  obtain r y where ry: "ry = (r, y)" by (cases ry)
  have o: "fresh_type ts a" "evolves ts x" "cell (ts_types x) a t" "ti_diffAgainst t \<noteq> None" "diff_ok ts \<longrightarrow> diff_ok x"
    using assms(2) by (auto simp: own_def)
  have e: "evolves x y" "diff_ok x \<longrightarrow> diff_ok y \<and> (r \<longrightarrow> agreed y p q)" using c ry by auto
  have "cell (ts_types y) a t" using evolves_cell [OF e(1) o(3)] o(4) by auto
  then show "case ry of (r, y) \<Rightarrow> own ts a t y \<and> (diff_ok ts \<and> r \<longrightarrow> agreed y p q)"
    using o e evolves_trans [OF o(2) e(1)] ry by (simp add: own_def)
qed

lemma own_same_types:
  "own ts a t x \<Longrightarrow> evolves ts y \<and> ts_types y = ts_types x \<Longrightarrow> own ts a t y"
  using diff_ok_types [of y x] by (simp add: own_def)

end
