(* ===== verification/Type_Diff_Properties.thy ===== *)
theory Type_Diff_Properties
  imports Type_Diff_Laws
begin

text \<open>
  The comparison of types as a whole: it comes back, and a type it reports unchanged looks like the type it
  was compared with.
\<close>

section \<open>The steps of an activation\<close>

lemma own_static:
  assumes "own ts a t x" "cell (ts_types ts) a t0" shows "static t = static t0"
  using assms evolves_cell [of ts x a t0] by (auto simp: own_def)

text \<open>The description of any type is the same throughout.\<close>

lemma own_cell:
  assumes "own ts a t x" "cell (ts_types ts) b u"
  obtains u' where "cell (ts_types x) b u'" "static u' = static u"
  using assms evolves_cell [of ts x b u] by (auto simp: own_def)

lemma outcome_members_agree:
  "outcome (members_agree ts ta tb is) (\<lambda>r. r \<longrightarrow> (\<forall>i \<in> set is. same_member ts ta tb i))"
proof (induction "is")
  case (Cons i "is")
  show ?case
    unfolding members_agree.simps
  proof (rule outcome_bindE [OF outcome_elem_at], rule outcome_bindE [OF outcome_load_type],
         rule outcome_bindE [OF outcome_elem_at], rule outcome_bindE [OF outcome_load_type],
         rule outcome_bindE [OF outcome_elem_at], rule outcome_bindE [OF outcome_elem_at])
    fix pa u pb v fa fb
    assume h: "i < length (ti_fieldTypes ta) \<and> pa = ti_fieldTypes ta ! i" "\<exists>x. pa = Some x \<and> cell (ts_types ts) x u"
      "i < length (ti_fieldTypes tb) \<and> pb = ti_fieldTypes tb ! i" "\<exists>y. pb = Some y \<and> cell (ts_types ts) y v"
      "i < length (ti_fields ta) \<and> fa = ti_fields ta ! i" "i < length (ti_fields tb) \<and> fb = ti_fields tb ! i"
    have "member_agrees u fa v fb \<Longrightarrow> same_member ts ta tb i"
      using h by (auto simp: member_agrees_def same_member_def)
    then show "outcome (if member_agrees u fa v fb then members_agree ts ta tb is else Inr False)
        (\<lambda>r. r \<longrightarrow> (\<forall>i \<in> set (i # is). same_member ts ta tb i))"
      using outcome_mono [OF Cons.IH] by (auto intro: outcome_Inr)
  qed
qed (simp add: outcome_Inr)

lemma outcome_bounds_agree:
  "outcome (bounds_agree ta tb is) (\<lambda>r. r \<longrightarrow> (\<forall>i \<in> set is. same_bounds ta tb i))"
proof (induction "is")
  case (Cons i "is")
  show ?case
    unfolding bounds_agree.simps
  proof (rule outcome_bindE [OF outcome_elem_at], rule outcome_bindE [OF outcome_elem_at],
         rule outcome_bindE [OF outcome_elem_at], rule outcome_bindE [OF outcome_elem_at])
    fix la lb ua ub
    assume h: "i < length (ti_lowerBounds ta) \<and> la = ti_lowerBounds ta ! i" "i < length (ti_lowerBounds tb) \<and> lb = ti_lowerBounds tb ! i"
      "i < length (ti_upperBounds ta) \<and> ua = ti_upperBounds ta ! i" "i < length (ti_upperBounds tb) \<and> ub = ti_upperBounds tb ! i"
    have "\<not> (la \<noteq> lb \<or> ua \<noteq> ub) \<Longrightarrow> same_bounds ta tb i" using h by (auto simp: same_bounds_def)
    then show "outcome (if la \<noteq> lb \<or> ua \<noteq> ub then (if la \<noteq> lb then Inl Death else Inr False)
          else bounds_agree ta tb is) (\<lambda>r. r \<longrightarrow> (\<forall>i \<in> set (i # is). same_bounds ta tb i))"
      using outcome_mono [OF Cons.IH] by (auto intro: outcome_Inr outcome_Inl)
  qed
qed (simp add: outcome_Inr)

lemma outcome_pointed:
  assumes "good n cmp" "own ts a t x" "undiffed ts \<le> n"
  shows "outcome (pointed_agrees cmp ta tb retval x)
     (\<lambda>(r, y). own ts a t y \<and> (r \<longrightarrow> retval) \<and> (diff_ok ts \<and> r \<longrightarrow> agreed y (ti_pointedType ta) (ti_pointedType tb)))"
  unfolding pointed_agrees_def
  by (rule outcome_bindE [OF own_call [OF assms]]) (auto split: if_splits)

lemma outcome_type_agrees:
  assumes "good n cmp" "own ts a t x" "undiffed ts \<le> n" "ti_type ta = ti_type tb"
  shows "outcome (type_agrees cmp ta tb x) (\<lambda>(r, y). own ts a t y \<and> (diff_ok ts \<and> r \<longrightarrow> alike y ta tb))"
proof -
  let ?P = "\<lambda>(r, y). own ts a t y \<and> (diff_ok ts \<and> r \<longrightarrow> alike y ta tb)"
  have members: "outcome (bindE (if same_surface ta tb then members_agree x ta tb [0..<ti_numFields ta] else Inr False)
      (\<lambda>r. Inr (r, x))) ?P" if k: "ti_type ta = TT_STRUCT \<or> ti_type ta = TT_UNION"
  proof (rule outcome_bindE)
    show "outcome (if same_surface ta tb then members_agree x ta tb [0..<ti_numFields ta] else Inr False)
        (\<lambda>r. r \<longrightarrow> same_surface ta tb \<and> (\<forall>i \<in> set [0..<ti_numFields ta]. same_member x ta tb i))"
      using outcome_mono [OF outcome_members_agree] by (auto intro: outcome_Inr)
    show "outcome (Inr (r, x)) ?P"
      if "r \<longrightarrow> same_surface ta tb \<and> (\<forall>i \<in> set [0..<ti_numFields ta]. same_member x ta tb i)" for r
      using that assms(2,4) k by (auto intro!: outcome_Inr simp: alike_def)
  qed
  have pointer: "outcome (pointed_agrees cmp ta tb retval x) ?P"
    if k: "ti_type ta = TT_ARRAY \<or> ti_type ta = TT_POINTER \<or> ti_type ta = TT_CONST"
      and r: "retval \<longrightarrow> same_surface ta tb"
      and b: "ti_type ta = TT_ARRAY \<Longrightarrow> ti_depth ta = ti_depth tb \<and> (retval \<longrightarrow> (\<forall>i < ti_depth ta. same_bounds ta tb i))"
    for retval
    by (rule outcome_mono [OF outcome_pointed [OF assms(1,2,3)]])
       (use k r b assms(4) in \<open>auto simp: alike_def\<close>)
  show ?thesis
  proof (cases "ti_type ta")
    case TT_ARRAY
    show ?thesis
      unfolding type_agrees_def Let_def TT_ARRAY TYPE_TYPE.case
    proof (rule outcome_bindE [OF outcome_guardE], simp, rule outcome_bindE [OF outcome_bounds_agree])
      fix r assume "ti_depth ta = ti_depth tb" "r \<longrightarrow> (\<forall>i \<in> set [0..<ti_depth ta]. same_bounds ta tb i)"
      then show "outcome (pointed_agrees cmp ta tb (r \<and> same_surface ta tb) x) ?P"
        by (intro pointer) (auto simp: TT_ARRAY)
    qed
  qed (use members pointer assms(2,4) in
       \<open>auto simp: type_agrees_def Let_def alike_def intro!: outcome_Inr\<close>)
qed


text \<open>The transformation of a changed type; \<open>tr\<close> was made by this activation.\<close>

lemma outcome_find_field: "outcome (find_field t name is) (\<lambda>r. \<forall>i. r = Some i \<longrightarrow> i \<in> set is)"
proof (induction "is")
  case (Cons i "is")
  show ?case
    unfolding find_field.simps
    by (rule outcome_bindE [OF outcome_elem_at]) (auto intro: outcome_mono [OF Cons.IH])
qed simp

lemma outcome_getOffsetForField: "outcome (getOffsetForField t name) (\<lambda>_. True)"
  unfolding getOffsetForField_def
  by (rule outcome_bindE [OF outcome_find_field])
     (auto split: option.splits intro: outcome_mono [OF outcome_elem_at])

lemma outcome_getIndexForField: "outcome (getIndexForField t name) (\<lambda>_. True)"
  unfolding getIndexForField_def
  by (rule outcome_bindE [OF outcome_find_field]) (auto split: option.splits)

lemma outcome_field_kind:
  assumes "good n cmp" "own ts a t x" "undiffed ts \<le> n"
  shows "outcome (field_kind cmp told tnew x) (\<lambda>(k, y). own ts a t y)"
proof -
  have "outcome (bindE (cmp (ti_pointedType told) (ti_pointedType tnew) x) (\<lambda>(same, ts).
        bindE (load_type ts (ti_pointedType told)) (\<lambda>p.
          Inr (if \<not> same \<and> ti_transformer p = None then None
               else if ti_transformer p \<noteq> None then Some EFTT_RECURSE
               else Some EFTT_COPY, ts)))) (\<lambda>(k, y). own ts a t y)"
    by (rule outcome_bindE [OF own_call [OF assms]])
       (auto intro!: outcome_bindE [OF outcome_load_type])
  then show ?thesis using assms(2) by (simp add: field_kind_def)
qed

lemma outcome_check_transformer: "outcome (check_transformer old new ts) (\<lambda>_. True)"
  unfolding check_transformer_def load_trans_def
  by (rule outcome_bindE [OF outcome_load_type])
     (auto intro!: outcome_bindE [OF outcome_load] outcome_mono [OF outcome_guardE])

lemma outcome_field_recurse:
  assumes "good n cmp" "own ts a t x" "undiffed ts \<le> n"
  shows "outcome (field_recurse cmp kind old new x) (\<lambda>(k, y). own ts a t y)"
  unfolding field_recurse_def
  by (rule outcome_bindE [OF own_call [OF assms]])
     (auto intro!: outcome_bindE [OF outcome_load_type] split: if_splits)

lemma outcome_give_up:
  assumes "own ts a t x" "length (ts_trans ts) \<le> tr"
  shows "outcome (bindE (freeTypeTransform x tr) (\<lambda>y. Inr (False, y))) (\<lambda>(ok, y). own ts a t y)"
proof (rule outcome_bindE [OF outcome_freeTypeTransform [OF _ assms(2)]])
  show "evolves ts x" using assms(1) by (simp add: own_def)
qed (use own_same_types [OF assms(1)] in simp)

lemma own_set_kind:
  assumes "own ts a t x" "length (ts_trans ts) \<le> tr"
  shows "outcome (set_kind tr i k x) (own ts a t)"
proof (rule outcome_mono [OF outcome_set_kind [OF _ assms(2)]])
  show "evolves ts x" using assms(1) by (simp add: own_def)
qed (rule own_same_types [OF assms(1)])

lemma own_set_offset:
  assumes "own ts a t x" "length (ts_trans ts) \<le> tr"
  shows "outcome (set_offset tr i k x) (own ts a t)"
proof (rule outcome_mono [OF outcome_set_offset [OF _ assms(2)]])
  show "evolves ts x" using assms(1) by (simp add: own_def)
qed (rule own_same_types [OF assms(1)])

lemma outcome_place_field:
  assumes "good n cmp" "own ts a t x" "undiffed ts \<le> n" "length (ts_trans ts) \<le> tr"
  shows "outcome (place_field cmp tr kind tb i name old new k x) (\<lambda>(ok, y). own ts a t y)"
proof (cases k)
  case None
  then show ?thesis using outcome_give_up [OF assms(2,4)] by (simp add: place_field_def)
next
  case (Some k')
  have placed: "outcome (if \<not> ok then bindE (freeTypeTransform y tr) (\<lambda>y. Inr (False, y))
      else bindE (getOffsetForField tb name) (\<lambda>off. bindE (set_offset tr i off y) (\<lambda>y. Inr (True, y))))
      (\<lambda>(ok, y). own ts a t y)" if y: "own ts a t y" for ok y
  proof (cases ok)
    case True
    have "outcome (bindE (getOffsetForField tb name) (\<lambda>off. bindE (set_offset tr i off y) (\<lambda>y. Inr (True, y))))
        (\<lambda>(ok, y). own ts a t y)"
      by (rule outcome_bindE [OF outcome_getOffsetForField],
          rule outcome_bindE [OF own_set_offset [OF y assms(4)]]) simp
    with True show ?thesis by simp
  next
    case False
    then show ?thesis using outcome_give_up [OF y assms(4)] by simp
  qed
  have recursed: "outcome (if k' = EFTT_RECURSE then field_recurse cmp kind old new y else Inr (True, y))
      (\<lambda>(ok, y). own ts a t y)" if y: "own ts a t y" for y
    using outcome_field_recurse [OF assms(1) y assms(3)] y by simp
  show ?thesis
    unfolding place_field_def Some option.case
    by (rule outcome_bindE [OF own_set_kind [OF assms(2,4)]], rule outcome_bindE [OF outcome_check_transformer],
        rule outcome_bindE [OF recursed], assumption)
       (use placed in auto)
qed

lemma outcome_transform_field:
  assumes "good n cmp" "own ts a t x" "undiffed ts \<le> n" "length (ts_trans ts) \<le> tr"
  shows "outcome (transform_field cmp tr ta tb i x) (\<lambda>(ok, y). own ts a t y)"
  unfolding transform_field_def
proof (rule outcome_bindE [OF outcome_elem_at], rule outcome_bindE [OF outcome_getIndexForField],
       rule outcome_bindE [OF outcome_elem_at], rule outcome_bindE [OF outcome_elem_at_int],
       rule outcome_bindE [OF outcome_load_type], rule outcome_bindE [OF outcome_load_type])
  fix name idx old new told tnew
  have deleted: "outcome (bindE (set_offset tr i FIELD_DELETED x) (\<lambda>y.
      bindE (set_kind tr i EFTT_DELETE y) (\<lambda>y. Inr (True, y)))) (\<lambda>(ok, y). own ts a t y)"
    by (rule outcome_bindE [OF own_set_offset [OF assms(2,4)]],
        rule outcome_bindE [OF own_set_kind [OF _ assms(4)]]) auto
  have kept: "outcome (bindE (field_kind cmp told tnew x) (\<lambda>(k, ts).
      place_field cmp tr (ti_type ta) tb i name old new k ts)) (\<lambda>(ok, y). own ts a t y)"
    by (rule outcome_bindE [OF outcome_field_kind [OF assms(1,2,3)]])
       (auto intro: outcome_place_field [OF assms(1) _ assms(3,4)])
  show "outcome (if ti_type told \<noteq> ti_type tnew then
       bindE (set_offset tr i FIELD_DELETED x) (\<lambda>ts.
       bindE (set_kind tr i EFTT_DELETE ts) (\<lambda>ts. Inr (True, ts)))
     else
       bindE (field_kind cmp told tnew x) (\<lambda>(k, ts).
         place_field cmp tr (ti_type ta) tb i name old new k ts)) (\<lambda>(ok, y). own ts a t y)"
    using deleted kept by simp
qed

lemma outcome_transform_fields:
  assumes "good n cmp" "undiffed ts \<le> n" "length (ts_trans ts) \<le> tr"
  shows "own ts a t x \<Longrightarrow> outcome (transform_fields cmp tr ta tb is x) (own ts a t)"
proof (induction "is" arbitrary: x)
  case (Cons i "is")
  show ?case
    unfolding transform_fields.simps
    by (rule outcome_bindE [OF outcome_transform_field [OF assms(1) Cons.prems assms(2,3)]])
       (auto intro: Cons.IH)
qed simp


text \<open>A write of the activation's own type.\<close>

lemma own_update:
  assumes "own ts a t x" "writes_variable f" "ti_diffAgainst (f t) \<noteq> None"
    and "diff_ok ts \<longrightarrow> ti_typediffStatus t \<noteq> ETS_SAME \<and> (ti_typediffStatus (f t) = ETS_SAME \<longrightarrow> matches x (f t))"
  shows "outcome (update_type x (Some a) f) (\<lambda>y. own ts a (f t) y)"
proof -
  have o: "fresh_type ts a" "evolves ts x" "cell (ts_types x) a t" "diff_ok ts \<longrightarrow> diff_ok x"
    using assms(1) by (auto simp: own_def)
  let ?y = "x\<lparr>ts_types := (ts_types x)[a := Some (f t)]\<rparr>"
  have st: "static (f t) = static t" using assms(2) by (simp add: writes_variable_def)
  have "diff_ok ?y" if d: "diff_ok ts"
    by (rule diff_ok_write [OF _ o(3) st]) (use d o(4) assms(3,4) in auto)
  moreover have "evolves ts ?y" by (rule evolves_update_type [OF o(2,1) assms(2) o(3)])
  ultimately have "own ts a (f t) ?y" using o assms(3) by (simp add: own_def)
  moreover have "update_type x (Some a) f = Inr ?y" using o(3) by (simp add: update_type_def)
  ultimately show ?thesis by simp
qed

lemma outcome_gen_transform:
  assumes "good n cmp" "own ts a t x" "undiffed ts \<le> n" "diff_ok ts \<longrightarrow> ti_typediffStatus t \<noteq> ETS_SAME"
  shows "outcome (gen_transform cmp (Some a) b ta tb x)
     (\<lambda>(r, y). evolves ts y \<and> (diff_ok ts \<longrightarrow> diff_ok y \<and> (r \<longrightarrow> agreed y (Some a) b)))"
  unfolding gen_transform_def
proof (rule outcome_bindE [OF own_update [OF assms(2)]])
  have t: "ti_diffAgainst t \<noteq> None" using assms(2) by (simp add: own_def)
  then show "ti_diffAgainst (ti_typediffStatus_update (\<lambda>_. ETS_DIFFERED) t) \<noteq> None" by simp
  fix y assume y: "own ts a (ti_typediffStatus_update (\<lambda>_. ETS_DIFFERED) t) y"
  let ?t = "ti_typediffStatus_update (\<lambda>_. ETS_DIFFERED) t"
  obtain z tr where z: "alloc_trans y (new_transform (Some a) b ta) = (z, tr)" by (cases "alloc_trans y (new_transform (Some a) b ta)")
  have e: "evolves ts y" using y by (simp add: own_def)
  have z': "evolves ts z \<and> ts_types z = ts_types y" "tr = length (ts_trans y)" using evolves_alloc_trans [OF e z] by auto
  have tr: "length (ts_trans ts) \<le> tr" using e z'(2) by (simp add: evolves_def)
  have "outcome (bindE (update_type z (Some a) (ti_transformer_update (\<lambda>_. Some tr))) (\<lambda>ts.
        bindE (transform_fields cmp tr ta tb [0..<ti_numFields ta] ts) (\<lambda>ts. Inr (False, ts))))
     (\<lambda>(r, y). evolves ts y \<and> (diff_ok ts \<longrightarrow> diff_ok y \<and> (r \<longrightarrow> agreed y (Some a) b)))"
    by (rule outcome_bindE [OF own_update [OF own_same_types [OF y z'(1)]]],
        simp, use t in simp, simp,
        rule outcome_bindE [OF outcome_transform_fields [OF assms(1,3) tr]], assumption)
       (auto simp: own_def)
  then show "outcome (case alloc_trans y (new_transform (Some a) b ta) of (ts, tr) \<Rightarrow>
        bindE (update_type ts (Some a) (ti_transformer_update (\<lambda>_. Some tr))) (\<lambda>ts.
        bindE (transform_fields cmp tr ta tb [0..<ti_numFields ta] ts) (\<lambda>ts. Inr (False, ts))))
     (\<lambda>(r, y). evolves ts y \<and> (diff_ok ts \<longrightarrow> diff_ok y \<and> (r \<longrightarrow> agreed y (Some a) b)))"
    by (simp add: z)
qed (use assms(4) in simp_all)

text \<open>The type has been marked as compared with \<open>b\<close>; the rest of the activation.\<close>

lemma outcome_compare_rest:
  assumes "good n cmp" "own ts a t x" "undiffed ts \<le> n" "diff_ok ts \<longrightarrow> ti_typediffStatus t \<noteq> ETS_SAME"
    and "ti_diffAgainst t = Some b" "cell (ts_types ts) b tb" "static t = static ta" "ti_type ta = ti_type tb"
  shows "outcome (bindE (type_agrees cmp ta tb x) (\<lambda>(retval, ts).
         if retval then
           bindE (update_type ts (Some a) (ti_typediffStatus_update (\<lambda>_. ETS_SAME))) (\<lambda>ts. Inr (True, ts))
         else gen_transform cmp (Some a) (Some b) ta tb ts))
     (\<lambda>(r, y). evolves ts y \<and> (diff_ok ts \<longrightarrow> diff_ok y \<and> (r \<longrightarrow> agreed y (Some a) (Some b))))"
proof (rule outcome_bindE [OF outcome_type_agrees [OF assms(1,2,3,8)]], clarify)
  fix r y assume y: "own ts a t y" "diff_ok ts \<and> r \<longrightarrow> alike y ta tb"
  let ?t = "ti_typediffStatus_update (\<lambda>_. ETS_SAME) t"
  have same: "outcome (bindE (update_type y (Some a) (ti_typediffStatus_update (\<lambda>_. ETS_SAME))) (\<lambda>ts. Inr (True, ts)))
     (\<lambda>(r, y). evolves ts y \<and> (diff_ok ts \<longrightarrow> diff_ok y \<and> (r \<longrightarrow> agreed y (Some a) (Some b))))" if r: r
  proof (rule outcome_bindE [OF own_update [OF y(1)]])
    obtain tb' where tb': "cell (ts_types y) b tb'" "static tb' = static tb" using own_cell [OF y(1) assms(6)] .
    have "static ?t = static ta" using assms(7) by (simp add: static_def)
    then have "matches y ?t" if "diff_ok ts"
      using alike_static [OF _ tb'(2), of ?t ta y] y(2) r that tb'(1) assms(5) unfolding matches_def by auto
    then show "diff_ok ts \<longrightarrow> ti_typediffStatus t \<noteq> ETS_SAME \<and> (ti_typediffStatus ?t = ETS_SAME \<longrightarrow> matches y ?t)"
      using assms(4) by simp
  qed (use assms(5) in \<open>auto simp: own_def agreed_def\<close>)
  show "outcome (if r then
           bindE (update_type y (Some a) (ti_typediffStatus_update (\<lambda>_. ETS_SAME))) (\<lambda>ts. Inr (True, ts))
         else gen_transform cmp (Some a) (Some b) ta tb y)
     (\<lambda>(r, y). evolves ts y \<and> (diff_ok ts \<longrightarrow> diff_ok y \<and> (r \<longrightarrow> agreed y (Some a) (Some b))))"
    using same outcome_gen_transform [OF assms(1) y(1) assms(3,4)] by simp
qed

lemma good_compare_step:
  assumes "good n cmp" shows "good (Suc n) (compare_step cmp)"
  unfolding good_def
proof (intro allI impI)
  fix a b ts assume n: "undiffed ts < Suc n"
  show "outcome (compare_step cmp a b ts) (\<lambda>(r, ts'). evolves ts ts' \<and> (diff_ok ts \<longrightarrow> diff_ok ts' \<and> (r \<longrightarrow> agreed ts' a b)))"
    unfolding compare_step_def
  proof (rule outcome_bindE [OF outcome_load_type], rule outcome_bindE [OF outcome_load_type])
    fix ta tb assume "\<exists>x. a = Some x \<and> cell (ts_types ts) x ta" "\<exists>y. b = Some y \<and> cell (ts_types ts) y tb"
    then obtain x y where x: "a = Some x" "cell (ts_types ts) x ta" and y: "b = Some y" "cell (ts_types ts) y tb" by blast
    let ?P = "\<lambda>(r, ts'). evolves ts ts' \<and> (diff_ok ts \<longrightarrow> diff_ok ts' \<and> (r \<longrightarrow> agreed ts' a b))"
    have compared: "outcome (bindE (guardE (ETS_NOT_DONE \<noteq> ti_typediffStatus ta) AssertFail) (\<lambda>_.
         if ti_diffAgainst ta \<noteq> b then Inl Death
         else Inr (if ETS_DIFFERED = ti_typediffStatus ta then False else True, ts))) ?P"
    proof (rule outcome_bindE [OF outcome_guardE], simp)
      assume "ETS_NOT_DONE \<noteq> ti_typediffStatus ta"
      then have "ETS_DIFFERED \<noteq> ti_typediffStatus ta \<Longrightarrow> ti_typediffStatus ta = ETS_SAME"
        by (cases "ti_typediffStatus ta") auto
      then show "outcome (if ti_diffAgainst ta \<noteq> b then Inl Death
         else Inr (if ETS_DIFFERED = ti_typediffStatus ta then False else True, ts)) ?P"
        using x by (auto simp: agreed_def)
    qed
    have fresh: "outcome (bindE (update_type ts a (ti_diffAgainst_update (\<lambda>_. b))) (\<lambda>ts.
       bindE (type_agrees cmp ta tb ts) (\<lambda>(retval, ts).
         if retval then
           bindE (update_type ts a (ti_typediffStatus_update (\<lambda>_. ETS_SAME))) (\<lambda>ts. Inr (True, ts))
         else gen_transform cmp a b ta tb ts))) ?P"
      if k: "ti_type ta = ti_type tb" "ti_diffAgainst ta = None"
    proof -
      let ?ta = "ti_diffAgainst_update (\<lambda>_. b) ta"
      let ?ts = "ts\<lparr>ts_types := (ts_types ts)[x := Some ?ta]\<rparr>"
      have st: "static ?ta = static ta" by (simp add: static_def)
      have status: "ti_typediffStatus ta = ETS_NOT_DONE" if "diff_ok ts"
        using that x(2) k(2) by (auto simp: diff_ok_def)
      have f: "fresh_type ts x" using x(2) k(2) by (auto simp: fresh_type_def)
      have "evolves ts ?ts" by (rule evolves_update_type [OF evolves_refl f _ x(2)]) simp
      moreover have "diff_ok ?ts" if d: "diff_ok ts"
        by (rule diff_ok_write [OF d x(2) st]) (use status [OF d] y(1) in auto)
      ultimately have "own ts x ?ta ?ts" using f x(2) y(1) by (simp add: own_def)
      from outcome_compare_rest [OF assms this _ _ _ y(2) st k(1)] status n
      show ?thesis unfolding x(1) y(1) by (simp add: update_type_def x(2))
    qed
    show "outcome (if ti_type ta \<noteq> ti_type tb then Inr (False, ts)
     else if ti_diffAgainst ta \<noteq> None then
       bindE (guardE (ETS_NOT_DONE \<noteq> ti_typediffStatus ta) AssertFail) (\<lambda>_.
         if ti_diffAgainst ta \<noteq> b then Inl Death
         else Inr (if ETS_DIFFERED = ti_typediffStatus ta then False else True, ts))
     else
       bindE (update_type ts a (ti_diffAgainst_update (\<lambda>_. b))) (\<lambda>ts.
       bindE (type_agrees cmp ta tb ts) (\<lambda>(retval, ts).
         if retval then
           bindE (update_type ts a (ti_typediffStatus_update (\<lambda>_. ETS_SAME))) (\<lambda>ts. Inr (True, ts))
         else gen_transform cmp a b ta tb ts))) ?P"
      using compared fresh by simp
  qed
qed

lemma good_compareTypes: "good fuel (compareTypesAndGenTransforms fuel)"
proof (induction fuel)
  case (Suc fuel)
  have "compareTypesAndGenTransforms (Suc fuel) = compare_step (compareTypesAndGenTransforms fuel)"
    by (intro ext) simp
  with good_compare_step [OF Suc.IH] show ?case by simp
qed (simp add: good_def)


section \<open>Structures of scalars\<close>

text \<open>
  A field of a scalar type, of the same kind in the new type.
\<close>

definition scalar_member :: "Types \<Rightarrow> TypeInfo \<Rightarrow> TypeInfo \<Rightarrow> nat \<Rightarrow> bool" where
  "scalar_member ts ta tb i \<longleftrightarrow>
     i < length (ti_fields ta) \<and> i < length (ti_fieldTypes ta) \<and>
     (\<exists>j off p u q v.
        getIndexForField tb (ti_fields ta ! i) = Inr (int j) \<and> j < length (ti_fieldTypes tb) \<and>
        getOffsetForField tb (ti_fields ta ! i) = Inr off \<and>
        ti_fieldTypes ta ! i = Some p \<and> cell (ts_types ts) p u \<and>
        ti_fieldTypes tb ! j = Some q \<and> cell (ts_types ts) q v \<and>
        ti_type u = ti_type v \<and> (ti_type u = TT_BASE \<or> ti_type u = TT_ENUM) \<and> ti_transformer u = None)"

text \<open>What the transformation says of field \<open>i\<close>.\<close>

definition carried_over :: "TypeInfo \<Rightarrow> TypeInfo \<Rightarrow> TypeTransform \<Rightarrow> nat \<Rightarrow> bool" where
  "carried_over ta tb t i \<longleftrightarrow>
     i < length (tt_fieldOffsets t) \<and> i < length (tt_fieldTransformTypes t) \<and>
     getOffsetForField tb (ti_fields ta ! i) = Inr (tt_fieldOffsets t ! i) \<and>
     tt_fieldTransformTypes t ! i = EFTT_COPY"

definition with_field :: "nat \<Rightarrow> int \<Rightarrow> TypeTransform \<Rightarrow> TypeTransform" where
  "with_field i off t =
     t\<lparr>tt_fieldTransformTypes := (tt_fieldTransformTypes t)[i := EFTT_COPY],
       tt_fieldOffsets := (tt_fieldOffsets t)[i := off]\<rparr>"

lemma transform_field_scalar:
  assumes "scalar_member x ta tb i" "cell (ts_trans x) tr t"
    and "i < length (tt_fieldOffsets t)" "i < length (tt_fieldTransformTypes t)"
  shows "\<exists>off. getOffsetForField tb (ti_fields ta ! i) = Inr off \<and>
     transform_field cmp tr ta tb i x = Inr (True, x\<lparr>ts_trans := (ts_trans x)[tr := Some (with_field i off t)]\<rparr>)"
proof -
  obtain j off p u q v where m:
    "getIndexForField tb (ti_fields ta ! i) = Inr (int j)" "j < length (ti_fieldTypes tb)"
    "getOffsetForField tb (ti_fields ta ! i) = Inr off"
    "ti_fieldTypes ta ! i = Some p" "cell (ts_types x) p u" "ti_fieldTypes tb ! j = Some q" "cell (ts_types x) q v"
    "ti_type u = ti_type v" "ti_type u = TT_BASE \<or> ti_type u = TT_ENUM" "ti_transformer u = None"
    "i < length (ti_fields ta)" "i < length (ti_fieldTypes ta)"
    using assms(1) unfolding scalar_member_def by blast
  have kind: "set_kind tr i EFTT_COPY x = Inr (x\<lparr>ts_trans := (ts_trans x)[tr := Some (t\<lparr>tt_fieldTransformTypes :=
      (tt_fieldTransformTypes t)[i := EFTT_COPY]\<rparr>)]\<rparr>)"
    using assms(2,4) by (simp add: set_kind_def update_trans_def load_trans_def)
  have "transform_field cmp tr ta tb i x = Inr (True, x\<lparr>ts_trans := (ts_trans x)[tr := Some (with_field i off t)]\<rparr>)"
    using m assms(2,3) kind
    by (auto simp: transform_field_def elem_at_int_def load_type_def field_kind_def place_field_def
        check_transformer_def set_offset_def update_trans_def load_trans_def with_field_def
        EFTT_COPY_def EFTT_RECURSE_def)
  with m(3) show ?thesis by blast
qed

lemma scalar_member_keep:
  assumes "scalar_member x ta tb i"
    and "\<And>p u. cell (ts_types x) p u \<Longrightarrow> ti_type u = TT_BASE \<or> ti_type u = TT_ENUM \<Longrightarrow> cell (ts_types y) p u"
  shows "scalar_member y ta tb i"
proof -
  obtain j off p u q v where m:
    "getIndexForField tb (ti_fields ta ! i) = Inr (int j)" "j < length (ti_fieldTypes tb)"
    "getOffsetForField tb (ti_fields ta ! i) = Inr off"
    "ti_fieldTypes ta ! i = Some p" "cell (ts_types x) p u" "ti_fieldTypes tb ! j = Some q" "cell (ts_types x) q v"
    "ti_type u = ti_type v" "ti_type u = TT_BASE \<or> ti_type u = TT_ENUM" "ti_transformer u = None"
    "i < length (ti_fields ta)" "i < length (ti_fieldTypes ta)"
    using assms(1) unfolding scalar_member_def by blast
  have "cell (ts_types y) p u" "cell (ts_types y) q v" using assms(2) m(5,7,8,9) by auto
  with m show ?thesis unfolding scalar_member_def by blast
qed

lemma transform_fields_scalar:
  assumes "\<forall>i \<in> set is. scalar_member x ta tb i \<and> i < length (tt_fieldOffsets t) \<and> i < length (tt_fieldTransformTypes t)"
    and "cell (ts_trans x) tr t" "distinct is"
  shows "\<exists>t'. transform_fields cmp tr ta tb is x = Inr (x\<lparr>ts_trans := (ts_trans x)[tr := Some t']\<rparr>) \<and>
     tt_from t' = tt_from t \<and> tt_to t' = tt_to t \<and> tt_straightCopy t' = tt_straightCopy t \<and>
     (\<forall>i \<in> set is. carried_over ta tb t' i) \<and> (\<forall>i. i \<notin> set is \<and> carried_over ta tb t i \<longrightarrow> carried_over ta tb t' i)"
  using assms
proof (induction "is" arbitrary: x t)
  case Nil
  then have "(ts_trans x)[tr := Some t] = ts_trans x" using list_update_id [of "ts_trans x" tr] by simp
  then show ?case by (intro exI [of _ t]) (cases x, simp)
next
  case (Cons i "is")
  obtain off where off: "getOffsetForField tb (ti_fields ta ! i) = Inr off"
      "transform_field cmp tr ta tb i x = Inr (True, x\<lparr>ts_trans := (ts_trans x)[tr := Some (with_field i off t)]\<rparr>)"
    using transform_field_scalar [of x ta tb i tr t cmp] Cons.prems by auto
  let ?x = "x\<lparr>ts_trans := (ts_trans x)[tr := Some (with_field i off t)]\<rparr>" and ?t = "with_field i off t"
  have "\<forall>k \<in> set is. scalar_member ?x ta tb k \<and> k < length (tt_fieldOffsets ?t) \<and> k < length (tt_fieldTransformTypes ?t)"
    using Cons.prems(1) scalar_member_keep [of x ta tb _ ?x] by (simp add: with_field_def)
  from Cons.IH [OF this] Cons.prems(2,3) obtain t' where t':
    "transform_fields cmp tr ta tb is ?x = Inr (?x\<lparr>ts_trans := (ts_trans ?x)[tr := Some t']\<rparr>)"
    "tt_from t' = tt_from ?t" "tt_to t' = tt_to ?t" "tt_straightCopy t' = tt_straightCopy ?t"
    "\<forall>i \<in> set is. carried_over ta tb t' i" "\<forall>i. i \<notin> set is \<and> carried_over ta tb ?t i \<longrightarrow> carried_over ta tb t' i"
    by auto
  have i: "carried_over ta tb ?t i" using Cons.prems(1) off(1) by (simp add: carried_over_def with_field_def)
  have k: "carried_over ta tb t k \<Longrightarrow> k \<noteq> i \<Longrightarrow> carried_over ta tb ?t k" for k
    by (simp add: carried_over_def with_field_def)
  have "transform_fields cmp tr ta tb (i # is) x = Inr (x\<lparr>ts_trans := (ts_trans x)[tr := Some t']\<rparr>)"
    using t'(1) off(2) by simp
  moreover have "\<forall>k \<in> set (i # is). carried_over ta tb t' k" using t'(5,6) i Cons.prems(3) by auto
  moreover have "\<forall>k. k \<notin> set (i # is) \<and> carried_over ta tb t k \<longrightarrow> carried_over ta tb t' k" using t'(6) k by auto
  ultimately show ?case using t'(2-4) by (intro exI [of _ t']) (simp add: with_field_def)
qed


section \<open>Examples\<close>

definition plain_type :: "string \<Rightarrow> TYPE_TYPE \<Rightarrow> int \<Rightarrow> TypeInfo" where
  "plain_type name k len =
     \<lparr>ti_name = name, ti_type = k, ti_length = len, ti_typediffStatus = ETS_NOT_DONE, ti_diffAgainst = None,
      ti_transformer = None, ti_numFields = 0, ti_fields = [], ti_fieldOffsets = [], ti_fieldTypes = [],
      ti_pointedType = None, ti_lowerBounds = [], ti_upperBounds = [], ti_depth = 0\<rparr>"

definition struct_type :: "string \<Rightarrow> int \<Rightarrow> (string \<times> int \<times> ptr) list \<Rightarrow> TypeInfo" where
  "struct_type name len fs =
     (plain_type name TT_STRUCT len)\<lparr>ti_numFields := length fs, ti_fields := map fst fs,
        ti_fieldOffsets := map (fst \<circ> snd) fs, ti_fieldTypes := map (snd \<circ> snd) fs\<rparr>"

definition pointer_type :: "nat \<Rightarrow> TypeInfo" where
  "pointer_type p = (plain_type ''ptr'' TT_POINTER 8)\<lparr>ti_pointedType := Some p\<rparr>"

text \<open>A pointer to a type that does not change, in two objects.\<close>

definition two_pointers :: Types where
  "two_pointers = \<lparr>ts_types = map Some [pointer_type 1, plain_type ''int'' TT_BASE 4,
     pointer_type 3, plain_type ''int'' TT_BASE 4], ts_trans = []\<rparr>"

text \<open>\<^verbatim>\<open>struct pair { int x; int y; }\<close> becomes \<^verbatim>\<open>struct pair { int y; int z; int x; }\<close>.\<close>

definition two_pairs :: Types where
  "two_pairs = \<lparr>ts_types = map Some [struct_type ''pair'' 8 [(''x'', 0, Some 1), (''y'', 4, Some 1)],
     plain_type ''int'' TT_BASE 4,
     struct_type ''pair'' 12 [(''y'', 0, Some 3), (''z'', 4, Some 3), (''x'', 8, Some 3)],
     plain_type ''int'' TT_BASE 4], ts_trans = []\<rparr>"

text \<open>\<^verbatim>\<open>struct node { struct node *next; }\<close> gains a field: the pointer type is compared first.\<close>

definition two_nodes :: Types where
  "two_nodes = \<lparr>ts_types = map Some [pointer_type 1, struct_type ''node'' 8 [(''next'', 0, Some 0)],
     pointer_type 3, struct_type ''node'' 16 [(''next'', 0, Some 2), (''key'', 8, Some 4)],
     plain_type ''int'' TT_BASE 4], ts_trans = []\<rparr>"

lemmas example_types = two_pointers_def two_pairs_def two_nodes_def pointer_type_def struct_type_def plain_type_def

lemmas compare_simps = compare_step_def load_type_def load_trans_def load_def update_type_def update_def
  type_agrees_def pointed_agrees_def same_surface_def gen_transform_def alloc_trans_def alloc_def
  transform_field_def place_field_def field_kind_def field_recurse_def check_transformer_def
  getIndexForField_def getOffsetForField_def elem_at_int_def set_kind_def set_offset_def update_trans_def
  new_transform_def blank_trans_def FIELD_DELETED_def EFTT_COPY_def EFTT_RECURSE_def EFTT_DELETE_def

text \<open>
  A pointer to a structure that changed and holds a pointer of the same type: the comparison reaches the
  pointer type again before it has an answer, and the assertion on its status fails.
\<close>

lemma changed_list_node_asserts:
  "compareTypesAndGenTransforms 3 (Some 0) (Some 2) two_nodes = Inl AssertFail"
  by (simp add: example_types compare_simps elem_at_def eval_nat_numeral)


text \<open>
  A field that the new structure lacks is looked up at the index \<^verbatim>\<open>FIELD_DELETED\<close>.
\<close>

lemma removed_field_out_of_bounds:
  assumes "ti_fields ta ! i = name" "i < length (ti_fields ta)" "i < length (ti_fieldTypes ta)"
    and "find_field tb name [0..<ti_numFields tb] = Inr None"
  shows "transform_field cmp tr ta tb i ts = Inl OutOfBounds"
  using assms by (cases "ti_fieldTypes ta ! i")
    (simp_all add: transform_field_def getIndexForField_def elem_at_int_def FIELD_DELETED_def)

section \<open>Properties\<close>

text \<open>
  C15: a comparison of types comes back, however the types refer to each other: no more calls are
  open at once than there are types not yet compared.
\<close>

theorem comparison_returns:
  assumes "undiffed ts < fuel"
  shows "compareTypesAndGenTransforms fuel a b ts \<noteq> Inl Diverges"
  using good_compareTypes [of fuel] assms unfolding good_def outcome_def
  by (metis (lifting) sum.simps(5))

theorem comparison_returns_witness:
  "undiffed two_nodes < 6 \<and> compareTypesAndGenTransforms 6 (Some 1) (Some 3) two_nodes \<noteq> Inl Diverges"
  using comparison_returns [of two_nodes 6 "Some 1" "Some 3"]
  by (simp add: undiffed_def example_types)

text \<open>
  C6: a comparison keeps the types well-formed: only a type not compared before is written, its
  description never, and every type whose status is \<^verbatim>\<open>ETS_SAME\<close> looks like the type it was compared with; when the
  answer is that \<open>a\<close> is unchanged, that holds of \<open>a\<close> and \<open>b\<close>.
\<close>

theorem comparison_keeps_types:
  assumes "compareTypesAndGenTransforms fuel a b ts = Inr (r, ts')" "undiffed ts < fuel" "diff_ok ts"
  shows "diff_ok ts' \<and> evolves ts ts' \<and>
     (r \<longrightarrow> (\<exists>x y ta tb. a = Some x \<and> b = Some y \<and> cell (ts_types ts') x ta \<and> cell (ts_types ts') y tb \<and>
        alike ts' ta tb))"
proof -
  have "outcome (compareTypesAndGenTransforms fuel a b ts)
      (\<lambda>(r, ts'). evolves ts ts' \<and> (diff_ok ts \<longrightarrow> diff_ok ts' \<and> (r \<longrightarrow> agreed ts' a b)))"
    using good_compareTypes [of fuel] assms(2) unfolding good_def by blast
  then have k: "evolves ts ts'" "diff_ok ts'" "r \<longrightarrow> agreed ts' a b" using assms(1,3) by auto
  have "\<exists>x y ta tb. a = Some x \<and> b = Some y \<and> cell (ts_types ts') x ta \<and> cell (ts_types ts') y tb \<and> alike ts' ta tb"
    if g: "agreed ts' a b"
  proof -
    obtain x t where x: "a = Some x" "cell (ts_types ts') x t" "ti_diffAgainst t = b" "ti_typediffStatus t = ETS_SAME"
      using g unfolding agreed_def by blast
    then have "matches ts' t" using k(2) unfolding diff_ok_def by blast
    then show ?thesis using x unfolding matches_def by auto
  qed
  with k show ?thesis by blast
qed

lemma two_pointers_ok: "diff_ok two_pointers"
proof -
  have "ti_typediffStatus t = ETS_NOT_DONE" if "cell (ts_types two_pointers) i t" for i t
    using that by (auto simp: example_types less_Suc_eq eval_nat_numeral)
  then show ?thesis by (simp add: diff_ok_def)
qed

theorem comparison_keeps_types_witness:
  "\<exists>ts'. compareTypesAndGenTransforms 5 (Some 0) (Some 2) two_pointers = Inr (True, ts') \<and> diff_ok ts' \<and>
     (\<exists>ta tb. cell (ts_types ts') 0 ta \<and> cell (ts_types ts') 2 tb \<and> alike ts' ta tb)"
proof -
  have "\<exists>ts'. compareTypesAndGenTransforms 5 (Some 0) (Some 2) two_pointers = Inr (True, ts')"
    by (simp add: example_types compare_simps elem_at_def eval_nat_numeral)
  then obtain ts' where r: "compareTypesAndGenTransforms 5 (Some 0) (Some 2) two_pointers = Inr (True, ts')" ..
  have "undiffed two_pointers < 5" by (simp add: undiffed_def example_types)
  from comparison_keeps_types [OF r this two_pointers_ok] r show ?thesis by auto
qed

text \<open>
  Two structures differ when their names, sizes or numbers of fields do, or when, with fields of scalar types, at some
  place the names of the fields, or the sizes or names of their types do (an anonymous type has no name to differ in).
\<close>

definition scalar_at :: "Types \<Rightarrow> TypeInfo \<Rightarrow> nat \<Rightarrow> TypeInfo \<Rightarrow> bool" where
  "scalar_at ts t i u \<longleftrightarrow> i < length (ti_fields t) \<and> i < length (ti_fieldTypes t) \<and>
     (\<exists>p. ti_fieldTypes t ! i = Some p \<and> cell (ts_types ts) p u) \<and> (ti_type u = TT_BASE \<or> ti_type u = TT_ENUM)"

definition structs_differ :: "Types \<Rightarrow> TypeInfo \<Rightarrow> TypeInfo \<Rightarrow> bool" where
  "structs_differ ts ta tb \<longleftrightarrow>
     ti_name ta \<noteq> ti_name tb \<or> ti_length ta \<noteq> ti_length tb \<or> ti_numFields ta \<noteq> ti_numFields tb \<or>
     (\<forall>i < ti_numFields ta. \<exists>u v. scalar_at ts ta i u \<and> scalar_at ts tb i v) \<and>
     (\<exists>i < ti_numFields ta. \<exists>u v. scalar_at ts ta i u \<and> scalar_at ts tb i v \<and>
        (ti_fields ta ! i \<noteq> ti_fields tb ! i \<or> ti_length u \<noteq> ti_length v \<or> ti_name u \<noteq> ti_name v \<and> \<not> anonymous u))"

lemma scalar_at_unique: "scalar_at ts t i u \<Longrightarrow> scalar_at ts t i v \<Longrightarrow> u = v"
  by (auto simp: scalar_at_def)

lemma members_agree_differ:
  assumes "\<forall>i \<in> set is. \<exists>u v. scalar_at ts ta i u \<and> scalar_at ts tb i v"
    and "\<exists>i \<in> set is. \<exists>u v. scalar_at ts ta i u \<and> scalar_at ts tb i v \<and> \<not> member_agrees u (ti_fields ta ! i) v (ti_fields tb ! i)"
  shows "members_agree ts ta tb is = Inr False"
  using assms
proof (induction "is")
  case (Cons i "is")
  from Cons.prems(1) obtain u v where i: "scalar_at ts ta i u" "scalar_at ts tb i v" by auto
  then have step: "members_agree ts ta tb (i # is) =
      (if member_agrees u (ti_fields ta ! i) v (ti_fields tb ! i) then members_agree ts ta tb is else Inr False)"
    by (auto simp: scalar_at_def load_type_def)
  show ?case
  proof (cases "member_agrees u (ti_fields ta ! i) v (ti_fields tb ! i)")
    case True
    with Cons.prems(2) i have "\<exists>i \<in> set is. \<exists>u v. scalar_at ts ta i u \<and> scalar_at ts tb i v \<and>
        \<not> member_agrees u (ti_fields ta ! i) v (ti_fields tb ! i)"
      using scalar_at_unique by (metis set_ConsD)
    with Cons.IH Cons.prems(1) True step show ?thesis by simp
  next
    case False
    with step show ?thesis by (simp only: if_False)
  qed
qed simp

lemma type_agrees_differ:
  assumes "structs_differ ts ta tb" "ti_type ta = TT_STRUCT"
  shows "type_agrees cmp ta tb ts = Inr (False, ts)"
proof (cases "same_surface ta tb")
  case True
  then have m: "\<forall>i < ti_numFields ta. \<exists>u v. scalar_at ts ta i u \<and> scalar_at ts tb i v"
    "\<exists>i < ti_numFields ta. \<exists>u v. scalar_at ts ta i u \<and> scalar_at ts tb i v \<and>
        (ti_fields ta ! i \<noteq> ti_fields tb ! i \<or> ti_length u \<noteq> ti_length v \<or> ti_name u \<noteq> ti_name v \<and> \<not> anonymous u)"
    using assms(1) by (auto simp: structs_differ_def same_surface_def)
  have "members_agree ts ta tb [0..<ti_numFields ta] = Inr False"
  proof (rule members_agree_differ)
    show "\<forall>i \<in> set [0..<ti_numFields ta]. \<exists>u v. scalar_at ts ta i u \<and> scalar_at ts tb i v" using m(1) by simp
    from m(2) obtain i u v where "i < ti_numFields ta" "scalar_at ts ta i u" "scalar_at ts tb i v"
      "ti_fields ta ! i \<noteq> ti_fields tb ! i \<or> ti_length u \<noteq> ti_length v \<or> ti_name u \<noteq> ti_name v \<and> \<not> anonymous u" by blast
    moreover from this(4) have "\<not> member_agrees u (ti_fields ta ! i) v (ti_fields tb ! i)" by (auto simp: member_agrees_def)
    ultimately show "\<exists>i \<in> set [0..<ti_numFields ta]. \<exists>u v. scalar_at ts ta i u \<and> scalar_at ts tb i v \<and>
        \<not> member_agrees u (ti_fields ta ! i) v (ti_fields tb ! i)"
      by (intro bexI [of _ i] exI [of _ u] exI [of _ v]) simp_all
  qed
  with True assms(2) show ?thesis by (simp add: type_agrees_def)
qed (simp add: type_agrees_def assms(2))

lemma structs_differ_keep:
  assumes "structs_differ ts ta tb" "\<And>p u. cell (ts_types ts) p u \<Longrightarrow> ti_type u = TT_BASE \<or> ti_type u = TT_ENUM \<Longrightarrow> cell (ts_types ts') p u"
  shows "structs_differ ts' ta tb"
proof -
  have "scalar_at ts t i u \<Longrightarrow> scalar_at ts' t i u" for t i u using assms(2) by (auto simp: scalar_at_def)
  with assms(1) show ?thesis unfolding structs_differ_def by meson
qed

text \<open>
  C31: when a structure is compared, for the first time, that has changed (another name, size or number of fields, or scalar fields in
  another order, with other names or types of another size), and each of its fields has a scalar type (a base type or an enumeration, not
  itself transformed) and is still present in the new structure with a type of the same kind, the transformation that is
  generated moves every field to where the field of its name is in the new structure, and copies it there.
\<close>

theorem scalar_struct_transformed:
  assumes "cell (ts_types ts) a ta" "cell (ts_types ts) b tb" "ti_type ta = TT_STRUCT" "ti_type tb = TT_STRUCT"
    and "ti_diffAgainst ta = None" "structs_differ ts ta tb" "\<forall>i < ti_numFields ta. scalar_member ts ta tb i"
  shows "\<exists>ts' t x. compareTypesAndGenTransforms (Suc fuel) (Some a) (Some b) ts = Inr (False, ts') \<and>
     load_type ts' (Some a) = Inr t \<and> load_trans ts' (ti_transformer t) = Inr x \<and>
     tt_from x = Some a \<and> tt_to x = Some b \<and> \<not> tt_straightCopy x \<and> (\<forall>i < ti_numFields ta. carried_over ta tb x i)"
proof -
  let ?tr = "length (ts_trans ts)"
  let ?t = "ta\<lparr>ti_diffAgainst := Some b, ti_typediffStatus := ETS_DIFFERED, ti_transformer := Some ?tr\<rparr>"
  let ?x = "new_transform (Some a) (Some b) ta"
  let ?ts = "\<lparr>ts_types = (ts_types ts)[a := Some ?t], ts_trans = ts_trans ts @ [Some ?x]\<rparr>"
  have m: "scalar_member ?ts ta tb i" if i: "i < ti_numFields ta" for i
  proof -
    have "cell (ts_types ?ts) p u" if "cell (ts_types ts) p u" "ti_type u = TT_BASE \<or> ti_type u = TT_ENUM" for p u
      using that assms(1,3) by (cases "p = a") auto
    moreover have "scalar_member ts ta tb i" using assms(7) i by blast
    ultimately show ?thesis using scalar_member_keep [of ts ta tb i ?ts] by blast
  qed
  have len: "length (tt_fieldOffsets ?x) = ti_numFields ta" "length (tt_fieldTransformTypes ?x) = ti_numFields ta"
    by (simp_all add: new_transform_def)
  obtain x where x: "transform_fields (compareTypesAndGenTransforms fuel) ?tr ta tb [0..<ti_numFields ta] ?ts =
      Inr (?ts\<lparr>ts_trans := (ts_trans ?ts)[?tr := Some x]\<rparr>)"
    "tt_from x = Some a" "tt_to x = Some b" "\<not> tt_straightCopy x" "\<forall>i \<in> set [0..<ti_numFields ta]. carried_over ta tb x i"
    using transform_fields_scalar [of "[0..<ti_numFields ta]" ?ts ta tb ?x ?tr "compareTypesAndGenTransforms fuel"] m len assms(3)
    by (auto simp: new_transform_def)
  have ts: "ts\<lparr>ts_trans := ts_trans ts @ [Some ?x], ts_types := (ts_types ts)[a := Some ?t]\<rparr> = ?ts"
    by simp
  have "structs_differ (ts\<lparr>ts_types := (ts_types ts)[a := Some (ta\<lparr>ti_diffAgainst := Some b\<rparr>)]\<rparr>) ta tb"
  proof (rule structs_differ_keep [OF assms(6)])
    show "cell (ts_types (ts\<lparr>ts_types := (ts_types ts)[a := Some (ta\<lparr>ti_diffAgainst := Some b\<rparr>)]\<rparr>)) p u"
      if "cell (ts_types ts) p u" "ti_type u = TT_BASE \<or> ti_type u = TT_ENUM" for p u
      using that assms(1,3) by (cases "p = a") auto
  qed
  note changed = type_agrees_differ [OF this assms(3)]
  have run: "compareTypesAndGenTransforms (Suc fuel) (Some a) (Some b) ts =
      Inr (False, ?ts\<lparr>ts_trans := (ts_trans ?ts)[?tr := Some x]\<rparr>)"
    using assms(1-5) x(1)
    by (simp add: compare_step_def load_type_def update_type_def changed gen_transform_def
        alloc_trans_def alloc_def ts)
  show ?thesis
    unfolding run using x(2-5) assms(1)
    by (intro exI [of _ "?ts\<lparr>ts_trans := (ts_trans ?ts)[?tr := Some x]\<rparr>"] exI [of _ ?t] exI [of _ x])
       (simp add: load_type_def load_trans_def)
qed

lemma all_less_two: "(\<forall>i < Suc (Suc 0). P i) \<longleftrightarrow> P 0 \<and> P (1 :: nat)"
  by (auto simp: less_Suc_eq)

theorem scalar_struct_transformed_witness:
  "\<exists>ts' t x. compareTypesAndGenTransforms 1 (Some 0) (Some 2) two_pairs = Inr (False, ts') \<and>
     load_type ts' (Some 0) = Inr t \<and> load_trans ts' (ti_transformer t) = Inr x \<and>
     tt_fieldOffsets x ! 0 = 8 \<and> tt_fieldOffsets x ! 1 = 0"
proof -
  let ?a = "struct_type ''pair'' 8 [(''x'', 0, Some 1), (''y'', 4, Some 1)]"
  let ?b = "struct_type ''pair'' 12 [(''y'', 0, Some 3), (''z'', 4, Some 3), (''x'', 8, Some 3)]"
  let ?i = "plain_type ''int'' TT_BASE 4"
  have h: "cell (ts_types two_pairs) 1 ?i" "cell (ts_types two_pairs) 3 ?i" "ti_type ?i = TT_BASE" "ti_transformer ?i = None"
    by (simp_all add: two_pairs_def plain_type_def)
  have f: "getIndexForField ?b (ti_fields ?a ! 0) = Inr (int 2)" "getOffsetForField ?b (ti_fields ?a ! 0) = Inr 8"
    "getIndexForField ?b (ti_fields ?a ! 1) = Inr (int 0)" "getOffsetForField ?b (ti_fields ?a ! 1) = Inr 0"
    by (simp_all add: struct_type_def plain_type_def getIndexForField_def getOffsetForField_def upt_conv_Cons)
  have t: "ti_fieldTypes ?a ! 0 = Some 1" "ti_fieldTypes ?a ! 1 = Some 1" "ti_fieldTypes ?b ! 2 = Some 3"
    "ti_fieldTypes ?b ! 0 = Some 3" "length (ti_fieldTypes ?b) = 3" "length (ti_fieldTypes ?a) = 2" "length (ti_fields ?a) = 2"
    by (simp_all add: struct_type_def)
  have "scalar_member two_pairs ?a ?b 0"
    unfolding scalar_member_def using h f(1,2) t
    by - (rule conjI, simp, rule conjI, simp, rule exI [of _ 2], rule exI [of _ 8], rule exI [of _ 1], rule exI [of _ ?i],
        rule exI [of _ 3], rule exI [of _ ?i], simp)
  moreover have "scalar_member two_pairs ?a ?b 1"
    unfolding scalar_member_def using h f(3,4) t
    by - (rule conjI, simp, rule conjI, simp, rule exI [of _ 0], rule exI [of _ 0], rule exI [of _ 1], rule exI [of _ ?i],
        rule exI [of _ 3], rule exI [of _ ?i], simp)
  ultimately have s: "\<forall>i < ti_numFields ?a. scalar_member two_pairs ?a ?b i"
    by (simp add: struct_type_def all_less_two)
  have "cell (ts_types two_pairs) 0 ?a" "cell (ts_types two_pairs) 2 ?b" "structs_differ two_pairs ?a ?b"
    "ti_type ?a = TT_STRUCT" "ti_type ?b = TT_STRUCT" "ti_diffAgainst ?a = None"
    by (simp_all add: example_types structs_differ_def)
  from scalar_struct_transformed [OF this(1,2,4,5,6,3) s, of 0]
  obtain ts' t x where r: "compareTypesAndGenTransforms 1 (Some 0) (Some 2) two_pairs = Inr (False, ts')"
    "load_type ts' (Some 0) = Inr t" "load_trans ts' (ti_transformer t) = Inr x"
    "\<forall>i < ti_numFields ?a. carried_over ?a ?b x i" by auto
  have "carried_over ?a ?b x 0" "carried_over ?a ?b x 1" using r(4) by (simp_all add: struct_type_def)
  then have "tt_fieldOffsets x ! 0 = 8 \<and> tt_fieldOffsets x ! 1 = 0"
    by (simp add: carried_over_def example_types getOffsetForField_def upt_conv_Cons)
  with r(1-3) show ?thesis by blast
qed

end
