(* ===== verification/Safety.thy ===== *)
theory Safety
  imports Target_Memory Symbols Dwarf_VM
begin

text \<open>
  \<^verbatim>\<open>src/src/patcher/safety.c\<close>: where the process may be stopped so that nothing that is patched is in use, and
  the unwinding that was to find it without libunwind.
\<close>

section \<open>The frame entry for a location\<close>

text \<open>
  The entries are sorted.  \<^verbatim>\<open>low\<close> and \<^verbatim>\<open>high\<close> are unsigned, so \<^verbatim>\<open>high\<close> falls below zero by wrapping round; half of
  their difference is computed in a \<^verbatim>\<open>float\<close>, exactly for a difference below \<open>2 ^ 24\<close>; the model halves exactly
  beyond that too, where the code may pick a middle nearby.  A bound of an entry is an
  \<^verbatim>\<open>int\<close>, compared as an unsigned 64-bit number.
\<close>

definition fde_low :: "FDE \<Rightarrow> addr_t" where "fde_low f = scast (fde_lowpc f)"
definition fde_high :: "FDE \<Rightarrow> addr_t" where "fde_high f = scast (fde_highpc f)"

fun fde_search :: "nat \<Rightarrow> FDE list \<Rightarrow> addr_t \<Rightarrow> 64 word \<Rightarrow> 64 word \<Rightarrow> nat option result" where
  "fde_search 0 fdes pc low high = Inl Diverges"
| "fde_search (Suc fuel) fdes pc low high =
     (if 0 < high - low then
        let middle = low + of_nat (unat (high - low) div 2) in
        bindE (elem_at fdes (unat middle)) (\<lambda>f.
          if fde_low f > pc then fde_search fuel fdes pc low (middle - 1)
          else if fde_high f < pc then fde_search fuel fdes pc (middle + 1) high
          else Inr (Some (unat middle)))
      else
        bindE (elem_at fdes (unat low)) (\<lambda>f.
          Inr (if fde_low f \<le> pc \<and> fde_high f \<ge> pc then Some (unat low) else None)))"

text \<open>The index of the entry; \<open>None\<close> is the null pointer.  An object without entries has no array.  Every round but the first halves the range.\<close>

definition getFDEForPC :: "CallFrameInfo \<Rightarrow> addr_t \<Rightarrow> nat option result" where
  "getFDEForPC cfi pc =
     bindE (guardE (cfi_fdes cfi \<noteq> []) AssertFail) (\<lambda>_.
       fde_search (length (cfi_fdes cfi) + 2) (cfi_fdes cfi) pc 0 (of_nat (length (cfi_fdes cfi))))"

section \<open>Registers by DWARF number\<close>

text \<open>\<^verbatim>\<open>REG_11\<close> to \<^verbatim>\<open>REG_15\<close> of \<^verbatim>\<open>src/src/arch.h\<close> all name \<^verbatim>\<open>r10\<close>.\<close>

definition setRegValueFromDwarfRegNum :: "user_regs_struct \<Rightarrow> int \<Rightarrow> word_t \<Rightarrow> user_regs_struct result" where
  "setRegValueFromDwarfRegNum regs num v =
     (if num = 0 then Inr (regs\<lparr>reg_rax := v\<rparr>)
      else if num = 1 then Inr (regs\<lparr>reg_rdx := v\<rparr>)
      else if num = 2 then Inr (regs\<lparr>reg_rcx := v\<rparr>)
      else if num = 3 then Inr (regs\<lparr>reg_rbx := v\<rparr>)
      else if num = 4 then Inr (regs\<lparr>reg_rsi := v\<rparr>)
      else if num = 5 then Inr (regs\<lparr>reg_rdi := v\<rparr>)
      else if num = 6 then Inr (regs\<lparr>reg_rbp := v\<rparr>)
      else if num = 7 then Inr (regs\<lparr>reg_rsp := v\<rparr>)
      else if num = 8 then Inr (regs\<lparr>reg_r8 := v\<rparr>)
      else if num = 9 then Inr (regs\<lparr>reg_r9 := v\<rparr>)
      else if 10 \<le> num \<and> num \<le> 15 then Inr (regs\<lparr>reg_r10 := v\<rparr>)
      else Inl Death)"

definition getRegValueFromDwarfRegNum :: "user_regs_struct \<Rightarrow> int \<Rightarrow> word_t result" where
  "getRegValueFromDwarfRegNum regs num =
     (if num = 0 then Inr (reg_rax regs)
      else if num = 1 then Inr (reg_rdx regs)
      else if num = 2 then Inr (reg_rcx regs)
      else if num = 3 then Inr (reg_rbx regs)
      else if num = 4 then Inr (reg_rsi regs)
      else if num = 5 then Inr (reg_rdi regs)
      else if num = 6 then Inr (reg_rbp regs)
      else if num = 7 then Inr (reg_rsp regs)
      else if num = 8 then Inr (reg_r8 regs)
      else if num = 9 then Inr (reg_r9 regs)
      else if 10 \<le> num \<and> num \<le> 15 then Inr (reg_r10 regs)
      else Inl Death)"

section \<open>Unwinding by rules\<close>

definition rule_for :: "PoRegRule heap \<Rightarrow> Rules \<Rightarrow> string \<Rightarrow> PoRegRule option result" where
  "rule_for st rules key =
     bindE (dictGet rules key) (\<lambda>p. case p of
       None \<Rightarrow> Inr None
     | Some p \<Rightarrow> bindE (load st (Some p)) (\<lambda>r. Inr (Some r)))"

text \<open>
  The test for the stack pointer compares one name with two; a register without a name (8 and above) makes
  it follow a null pointer.
\<close>

definition without_rule :: "uint \<Rightarrow> nat \<Rightarrow> user_regs_struct \<Rightarrow> user_regs_struct result" where
  "without_rule cfaAddr i regs =
     (case getArchRegNameFromDwarfRegNum (int i) of
        None \<Rightarrow> Inl NullDeref
      | Some regName \<Rightarrow>
          Inr (if ''esp'' = regName \<and> ''rsp'' = regName then regs\<lparr>reg_rsp := ucast cfaAddr\<rparr> else regs))"

definition restore_reg :: "(nat \<Rightarrow> byte list) \<Rightarrow> Target \<Rightarrow> user_regs_struct \<Rightarrow> uint \<Rightarrow> PoRegRule option \<Rightarrow> nat \<Rightarrow>
  user_regs_struct \<Rightarrow> user_regs_struct result" where
  "restore_reg junk t currentRegs cfaAddr rule i regs =
     (case rule of
        None \<Rightarrow> without_rule cfaAddr i regs
      | Some r \<Rightarrow>
          if rule_type r = ERRT_UNDEF then Inr regs
          else if rule_type r = ERRT_REGISTER then
            bindE (guardE (reg_type (regRH r) = ERT_BASIC) AssertFail) (\<lambda>_.
            bindE (getRegValueFromDwarfRegNum currentRegs (sint (reg_u (regRH r)))) (\<lambda>v.
              setRegValueFromDwarfRegNum regs (sint (reg_u (regRH r))) v))
          else if rule_type r = ERRT_OFFSET then
            bindE (memcpyFromTarget junk t (replicate 8 0) (ucast (cfaAddr + rule_offset r)) 8) (\<lambda>bs.
              setRegValueFromDwarfRegNum regs (int i) (le_word bs))
          else Inl Death)"

fun restore_regs :: "(nat \<Rightarrow> byte list) \<Rightarrow> Target \<Rightarrow> PoRegRule heap \<Rightarrow> Rules \<Rightarrow> user_regs_struct \<Rightarrow> uint \<Rightarrow> nat list \<Rightarrow>
  user_regs_struct \<Rightarrow> user_regs_struct result" where
  "restore_regs junk t st rules currentRegs cfaAddr [] regs = Inr regs"
| "restore_regs junk t st rules currentRegs cfaAddr (i # is) regs =
     bindE (rule_for st rules (''r'' @ base_digits 10 i)) (\<lambda>rule.
     bindE (restore_reg junk t currentRegs cfaAddr rule i regs) (\<lambda>regs.
       restore_regs junk t st rules currentRegs cfaAddr is regs))"

definition NUM_REGS :: nat where "NUM_REGS = 15"

definition restoreRegsFromRegisterRules ::
  "(nat \<Rightarrow> byte list) \<Rightarrow> Target \<Rightarrow> PoRegRule heap \<Rightarrow> user_regs_struct \<Rightarrow> Rules \<Rightarrow> user_regs_struct result" where
  "restoreRegsFromRegisterRules junk t st currentRegs rulesDict =
     bindE (strForReg (zero_reg\<lparr>reg_type := ERT_CFA\<rparr>) 0) (\<lambda>key.
     bindE (rule_for st rulesDict key) (\<lambda>cfaRule.
     case cfaRule of
       None \<Rightarrow> Inl Death
     | Some cfa \<Rightarrow>
         bindE (guardE (rule_type cfa = ERRT_CFA) AssertFail) (\<lambda>_.
         bindE (guardE (reg_type (regRH cfa) = ERT_BASIC) AssertFail) (\<lambda>_.
         bindE (getRegValueFromDwarfRegNum currentRegs (sint (reg_u (regRH cfa)))) (\<lambda>v.
           restore_regs junk t st rulesDict currentRegs (ucast (v + scast (rule_offset cfa))) [0..<NUM_REGS + 1] currentRegs)))))"

section \<open>Activation frames\<close>

record ActivationFrame =
  af_pc :: addr_t
  af_symIdx :: nat

text \<open>
  \<open>ips\<close> is what libunwind reports, from the caller of the function the process is stopped in outwards; a frame
  found later goes in front.
\<close>

fun activation_frames :: "LibElf \<Rightarrow> ElfInfo \<Rightarrow> addr_t \<Rightarrow> addr_t \<Rightarrow> addr_t list \<Rightarrow> ActivationFrame list \<Rightarrow>
  ActivationFrame list result" where
  "activation_frames L elf lowpc highpc [] frames = Inr frames"
| "activation_frames L elf lowpc highpc (ip # ips) frames =
     (if lowpc \<le> ip \<and> ip \<le> highpc then
        bindE (findSymbolContainingAddress L elf ip STT_FUNC SHN_UNDEF) (\<lambda>symIdx.
          activation_frames L elf lowpc highpc ips
            (if symIdx \<noteq> STN_UNDEF then \<lparr>af_pc = ip, af_symIdx = symIdx\<rparr> # frames else frames))
      else activation_frames L elf lowpc highpc ips frames)"

definition findActivationFrames :: "LibElf \<Rightarrow> ElfInfo \<Rightarrow> addr_t list \<Rightarrow> ActivationFrame list result" where
  "findActivationFrames L elf ips =
     bindE (getSectionByERS elf ERS_TEXT) (\<lambda>scn.
     let lowpc = sh_addr (scn_shdr scn); highpc = lowpc + sh_size (scn_shdr scn) in
       activation_frames L elf lowpc highpc ips [])"

section \<open>A safe place to stop\<close>

text \<open>The functions that the patch changes, as symbols of the target.\<close>

fun unsafe_functions :: "LibElf \<Rightarrow> ElfInfo \<Rightarrow> ElfInfo \<Rightarrow> byte list \<Rightarrow> nat list \<Rightarrow> nat list result" where
  "unsafe_functions L targetBin patch buf [] = Inr []"
| "unsafe_functions L targetBin patch buf (i # is) =
     bindE (copy_out (drop (i * 8) buf) 8) (\<lambda>bs.
     bindE (reindexSymbol L patch targetBin (unat (le_word bs :: word_t)) ESFF_VERSIONED_SECTIONS_OK) (\<lambda>symIdxTarget.
     bindE (guardE (symIdxTarget \<noteq> STN_UNDEF) Death) (\<lambda>_.
     bindE (unsafe_functions L targetBin patch buf is) (\<lambda>unsafe. Inr (symIdxTarget # unsafe)))))"

text \<open>
  The frames from the oldest on, up to the first that is in one of these functions; those that pass are
  returned newest first.  The name of every frame is looked up for the log.
\<close>

fun safe_frames :: "(addr_t \<Rightarrow> string result) \<Rightarrow> nat list \<Rightarrow> ActivationFrame list \<Rightarrow> ActivationFrame list \<Rightarrow>
  ActivationFrame list result" where
  "safe_frames nameAt unsafe [] good = Inr good"
| "safe_frames nameAt unsafe (f # fs) good =
     bindE (nameAt (af_pc f)) (\<lambda>_.
       if af_symIdx f \<in> set unsafe then Inr good else safe_frames nameAt unsafe fs (f # good))"

definition findSafeBreakpointForPatch :: "LibElf \<Rightarrow> (string \<Rightarrow> string) \<Rightarrow> ElfInfo \<Rightarrow> ElfInfo \<Rightarrow> bool \<Rightarrow> addr_t list \<Rightarrow>
  addr_t result" where
  "findSafeBreakpointForPatch L demangle targetBin patch avoidCurrentFrame ips =
     bindE (findActivationFrames L targetBin ips) (\<lambda>activationFrames.
     bindE (getDataByERS patch ERS_UNSAFE_FUNCTIONS) (\<lambda>unsafeFunctionsData.
     bindE (unsafe_functions L targetBin patch (d_buf unsafeFunctionsData) [0..<d_size unsafeFunctionsData div 8]) (\<lambda>unsafe.
     bindE (safe_frames (getFunctionNameAtPC L demangle targetBin) unsafe activationFrames []) (\<lambda>good.
       case good of
         [] \<Rightarrow> Inl Death
       | f # older \<Rightarrow>
           Inr (af_pc (if avoidCurrentFrame then (case older of [] \<Rightarrow> f | g # _ \<Rightarrow> g) else f))))))"

section \<open>Waiting for it\<close>

text \<open>
  The process between the polls: \<open>se_stop i t\<close> is what it has become when \<^verbatim>\<open>SIGSTOP\<close> stops it in round \<open>i\<close>,
  \<open>se_run i t\<close> what it has become when it is found stopped there, \<open>se_reported i\<close> whether \<^verbatim>\<open>waitpid\<close> reports it there, \<open>se_unwind t\<close> what libunwind reports of it.
\<close>

record SafetyEnv =
  se_stop :: "nat \<Rightarrow> Target \<Rightarrow> Target"
  se_run :: "nat \<Rightarrow> Target \<Rightarrow> Target"
  se_reported :: "nat \<Rightarrow> bool"
  se_unwind :: "Target \<Rightarrow> addr_t list"

definition WAIT_FOR_SAFE_PATCHING_USLEEP :: nat where "WAIT_FOR_SAFE_PATCHING_USLEEP = 10000"
definition MAX_WAIT_SECONDS_BEFORE_TRY_CURRENT_FRAME :: nat where "MAX_WAIT_SECONDS_BEFORE_TRY_CURRENT_FRAME = 2"

text \<open>
  After two seconds the restriction to older frames is given up: the process is stopped, and the breakpoint moved.
\<close>

definition relax :: "(nat \<Rightarrow> byte list) \<Rightarrow> SafetyEnv \<Rightarrow> (bool \<Rightarrow> addr_t list \<Rightarrow> addr_t result) \<Rightarrow> nat \<Rightarrow> addr_t \<Rightarrow> Target \<Rightarrow>
  (addr_t \<times> Target) result" where
  "relax junk env spotOf i spot t =
     (let t = se_stop env i t in
      bindE (removeBreakpoint junk t spot) (\<lambda>t.
      bindE (spotOf False (se_unwind env t)) (\<lambda>spot.
      bindE (setBreakpoint junk t spot) (\<lambda>t. Inr (spot, t)))))"

fun wait_loop :: "(nat \<Rightarrow> byte list) \<Rightarrow> SafetyEnv \<Rightarrow> (bool \<Rightarrow> addr_t list \<Rightarrow> addr_t result) \<Rightarrow> nat list \<Rightarrow> bool \<Rightarrow> addr_t \<Rightarrow> Target \<Rightarrow>
  Target result" where
  "wait_loop junk env spotOf [] avoidCurrentFrame spot t = Inl Death"
| "wait_loop junk env spotOf (i # is) avoidCurrentFrame spot t =
     bindE (if avoidCurrentFrame \<and> i * WAIT_FOR_SAFE_PATCHING_USLEEP > MAX_WAIT_SECONDS_BEFORE_TRY_CURRENT_FRAME * 1000000
            then bindE (relax junk env spotOf i spot t) (\<lambda>(spot, t). Inr (False, spot, t))
            else Inr (avoidCurrentFrame, spot, t)) (\<lambda>(avoid, spot, t).
       if se_reported env i then removeBreakpoint junk (se_run env i t) spot
       else wait_loop junk env spotOf is avoid spot t)"

definition bringTargetToSafeState :: "(nat \<Rightarrow> byte list) \<Rightarrow> SafetyEnv \<Rightarrow> LibElf \<Rightarrow> (string \<Rightarrow> string) \<Rightarrow> nat \<Rightarrow> ElfInfo \<Rightarrow>
  ElfInfo \<Rightarrow> Target \<Rightarrow> Target result" where
  "bringTargetToSafeState junk env L demangle maxWaitForPatching targetBin patch t =
     (let spotOf = findSafeBreakpointForPatch L demangle targetBin patch in
      bindE (spotOf True (se_unwind env t)) (\<lambda>spot.
      bindE (setBreakpoint junk t spot) (\<lambda>t.
        wait_loop junk env spotOf [0..<maxWaitForPatching * 1000000 div WAIT_FOR_SAFE_PATCHING_USLEEP] True spot t)))"

end
