(* ===== verification/Safety_Properties.thy ===== *)
theory Safety_Properties
  imports Safety Symbol_Properties Target_Properties
begin

text \<open>
  The place where the process is stopped is outside the functions the patch changes, and so is everything
  the process will return to from there; the binary search finds an entry for every location that has one.
\<close>

section \<open>The search\<close>

definition fde_covers :: "FDE \<Rightarrow> addr_t \<Rightarrow> bool" where
  "fde_covers f pc \<longleftrightarrow> fde_low f \<le> pc \<and> pc \<le> fde_high f"

definition fdes_sorted :: "FDE list \<Rightarrow> bool" where
  "fdes_sorted fdes \<longleftrightarrow> (\<forall>i j. i < j \<and> j < length fdes \<longrightarrow>
     fde_low (fdes ! i) \<le> fde_low (fdes ! j) \<and> fde_high (fdes ! i) \<le> fde_high (fdes ! j))"

lemma unat_small: "n < 2 ^ 64 \<Longrightarrow> unat (of_nat n :: 64 word) = n"
  by (simp add: unat_of_nat)

lemma half_range:
  fixes l h :: nat
  assumes "l \<le> h" "h < 2 ^ 63"
  shows "of_nat h - of_nat l = (of_nat (h - l) :: 64 word)"
    and "0 < (of_nat (h - l) :: 64 word) \<longleftrightarrow> l < h"
    and "(of_nat l + of_nat (unat (of_nat (h - l) :: 64 word) div 2) :: 64 word) = of_nat (l + (h - l) div 2)"
proof -
  show "of_nat h - of_nat l = (of_nat (h - l) :: 64 word)" using assms by (simp add: of_nat_diff)
  have "unat (of_nat (h - l) :: 64 word) = h - l" by (rule unat_small) (use assms in simp)
  then show "0 < (of_nat (h - l) :: 64 word) \<longleftrightarrow> l < h"
    "(of_nat l + of_nat (unat (of_nat (h - l) :: 64 word) div 2) :: 64 word) = of_nat (l + (h - l) div 2)"
    by (auto simp: word_less_nat_alt)
qed

lemma fde_search_finds:
  assumes "fdes_sorted fdes" "length fdes < 2 ^ 62" "k < length fdes" "fde_covers (fdes ! k) pc"
  shows "l \<le> k \<Longrightarrow> k \<le> h \<Longrightarrow> h \<le> length fdes \<Longrightarrow> h - l < fuel \<Longrightarrow>
    \<exists>m < length fdes. fde_search fuel fdes pc (of_nat l) (of_nat h) = Inr (Some m) \<and> fde_covers (fdes ! m) pc"
proof (induction fuel arbitrary: l h)
  case (Suc fuel)
  have b: "l \<le> h" "h < 2 ^ 63" using Suc.prems assms(2) by simp_all
  have l: "unat (of_nat l :: 64 word) = l" by (rule unat_small) (use b in simp)
  show ?case
  proof (cases "l < h")
    case False
    then have "l = k" "h = k" using Suc.prems by simp_all
    with assms(3,4) l show ?thesis by (simp add: fde_covers_def)
  next
    case True
    let ?m = "l + (h - l) div 2"
    have m: "?m < h" "l \<le> ?m" using True by auto
    have um: "unat (of_nat ?m :: 64 word) = ?m" by (rule unat_small) (use m b in simp)
    have ml: "?m < length fdes" using m(1) Suc.prems(3) by simp
    have step: "fde_search (Suc fuel) fdes pc (of_nat l) (of_nat h) =
        (if fde_low (fdes ! ?m) > pc then fde_search fuel fdes pc (of_nat l) (of_nat ?m - 1)
         else if fde_high (fdes ! ?m) < pc then fde_search fuel fdes pc (of_nat ?m + 1) (of_nat h)
         else Inr (Some ?m))"
      using True ml by (simp only: fde_search.simps Let_def half_range [OF b] um if_True elem_at_in bindE_simps)
    consider (below) "fde_low (fdes ! ?m) > pc"
      | (above) "\<not> fde_low (fdes ! ?m) > pc" "fde_high (fdes ! ?m) < pc"
      | (here) "\<not> fde_low (fdes ! ?m) > pc" "\<not> fde_high (fdes ! ?m) < pc" by blast
    then show ?thesis
    proof cases
      case below
      have km: "k < ?m"
      proof (rule ccontr)
        assume "\<not> k < ?m"
        then have "fde_low (fdes ! ?m) \<le> fde_low (fdes ! k)"
          using assms(1,3) by (cases "k = ?m") (auto simp: fdes_sorted_def)
        also have "fde_low (fdes ! k) \<le> pc" using assms(4) by (simp add: fde_covers_def)
        finally show False using below by simp
      qed
      then have "(of_nat ?m - 1 :: 64 word) = of_nat (?m - 1)" by (simp add: of_nat_diff)
      moreover have "\<exists>j < length fdes. fde_search fuel fdes pc (of_nat l) (of_nat (?m - 1)) = Inr (Some j) \<and> fde_covers (fdes ! j) pc"
        by (rule Suc.IH) (use Suc.prems km m in simp_all)
      ultimately show ?thesis unfolding step using below by simp
    next
      case above
      have km: "?m < k"
      proof (rule ccontr)
        assume "\<not> ?m < k"
        then have "fde_high (fdes ! k) \<le> fde_high (fdes ! ?m)"
          using assms(1) ml by (cases "k = ?m") (auto simp: fdes_sorted_def)
        then have "pc \<le> fde_high (fdes ! ?m)" using assms(4) unfolding fde_covers_def by (blast intro: order.trans)
        with above(2) show False by simp
      qed
      have up: "(of_nat ?m + 1 :: 64 word) = of_nat (?m + 1)" by (simp only: of_nat_add of_nat_1)
      have "\<exists>j < length fdes. fde_search fuel fdes pc (of_nat (?m + 1)) (of_nat h) = Inr (Some j) \<and> fde_covers (fdes ! j) pc"
        by (rule Suc.IH) (use Suc.prems km m in simp_all)
      then show ?thesis unfolding step up if_not_P [OF above(1)] if_P [OF above(2)] .
    next
      case here
      then show ?thesis unfolding step using ml by (auto simp: fde_covers_def)
    qed
  qed
qed simp

text \<open>
  A location in front of a single entry takes \<^verbatim>\<open>high\<close> below zero, and the search reads far outside
  the array.
\<close>

lemma search_before_first_entry:
  assumes "length (cfi_fdes cfi) = 1" "pc < fde_low (hd (cfi_fdes cfi))"
  shows "getFDEForPC cfi pc = Inl OutOfBounds"
proof -
  obtain f where f: "cfi_fdes cfi = [f]" using assms(1) by (cases "cfi_fdes cfi") auto
  have half: "unat (- 1 :: 64 word) div 2 = 2 ^ 63 - 1"
    by (simp add: unsigned_minus_1_eq_mask mask_eq_exp_minus_1)
  have "unat (of_nat (2 ^ 63 - 1) :: 64 word) = 2 ^ 63 - 1" by (rule unat_small) simp
  then have far: "elem_at [f] (unat (0 + of_nat (2 ^ 63 - 1) :: 64 word)) = Inl OutOfBounds"
    unfolding add_0 elem_at_def by simp
  have "fde_search (Suc (Suc 1)) [f] pc 0 1 = fde_search (Suc 1) [f] pc 0 (- 1)"
    using assms(2) f by (subst fde_search.simps) simp
  also have "\<dots> = Inl OutOfBounds"
    by (subst fde_search.simps) (simp only: diff_zero half far Let_def bindE_simps word_greater_zero_iff
        neg_equal_0_iff_equal one_neq_zero not_False_eq_True if_True)
  finally show ?thesis by (simp add: getFDEForPC_def f)
qed

section \<open>The scan of the frames\<close>

lemma safe_frames_prefix:
  "safe_frames nameAt unsafe fs acc = Inr good \<Longrightarrow>
   \<exists>pre post. fs = pre @ post \<and> good = rev pre @ acc \<and> (\<forall>f \<in> set pre. af_symIdx f \<notin> set unsafe) \<and>
     (post = [] \<or> af_symIdx (hd post) \<in> set unsafe)"
proof (induction fs arbitrary: acc)
  case (Cons f fs)
  show ?case
  proof (cases "af_symIdx f \<in> set unsafe")
    case True
    then have "good = acc" using Cons.prems by (auto simp: fault_simps)
    then show ?thesis using True by (intro exI [of _ "[]"] exI [of _ "f # fs"]) simp
  next
    case False
    then have "safe_frames nameAt unsafe fs (f # acc) = Inr good" using Cons.prems by (auto simp: fault_simps)
    from Cons.IH [OF this] obtain pre post where
      "fs = pre @ post" "good = rev pre @ f # acc" "\<forall>f \<in> set pre. af_symIdx f \<notin> set unsafe"
      "post = [] \<or> af_symIdx (hd post) \<in> set unsafe" by blast
    with False show ?thesis by (intro exI [of _ "f # pre"] exI [of _ post]) simp
  qed
qed simp

lemma unsafe_functions_nonzero:
  "unsafe_functions L targetBin patch buf is = Inr unsafe \<Longrightarrow> STN_UNDEF \<notin> set unsafe"
  by (induction "is" arbitrary: unsafe) (auto simp: fault_simps split: if_splits)

text \<open>
  The return addresses that lie in the text section and in a function there; a function is looked up for every one
  in the text section.
\<close>

definition in_text :: "Elf_Scn \<Rightarrow> addr_t \<Rightarrow> bool" where
  "in_text ts ip \<longleftrightarrow> sh_addr (scn_shdr ts) \<le> ip \<and> ip \<le> sh_addr (scn_shdr ts) + sh_size (scn_shdr ts)"

definition is_activation :: "LibElf \<Rightarrow> ElfInfo \<Rightarrow> Elf_Scn \<Rightarrow> addr_t \<Rightarrow> bool" where
  "is_activation L elf ts ip \<longleftrightarrow>
     in_text ts ip \<and> findSymbolContainingAddress L elf ip STT_FUNC SHN_UNDEF \<noteq> Inr STN_UNDEF"

text \<open>The frames are those of these addresses, each with its function, the outermost first.\<close>

lemma activation_frames_are:
  assumes "activation_frames L elf (sh_addr (scn_shdr ts)) (sh_addr (scn_shdr ts) + sh_size (scn_shdr ts)) ips acc = Inr out"
  shows "\<exists>fs. out = rev fs @ acc \<and> map af_pc fs = filter (is_activation L elf ts) ips \<and>
    (\<forall>f \<in> set fs. findSymbolContainingAddress L elf (af_pc f) STT_FUNC SHN_UNDEF = Inr (af_symIdx f)) \<and>
    (\<forall>ip \<in> set ips. in_text ts ip \<longrightarrow> (\<exists>s. findSymbolContainingAddress L elf ip STT_FUNC SHN_UNDEF = Inr s))"
  using assms
proof (induction ips arbitrary: acc)
  case (Cons ip ips)
  show ?case
  proof (cases "in_text ts ip")
    case True
    then obtain s where s: "findSymbolContainingAddress L elf ip STT_FUNC SHN_UNDEF = Inr s"
        "activation_frames L elf (sh_addr (scn_shdr ts)) (sh_addr (scn_shdr ts) + sh_size (scn_shdr ts)) ips
           (if s \<noteq> STN_UNDEF then \<lparr>af_pc = ip, af_symIdx = s\<rparr> # acc else acc) = Inr out"
      using Cons.prems by (cases "findSymbolContainingAddress L elf ip STT_FUNC SHN_UNDEF") (simp_all add: in_text_def)
    from Cons.IH [OF s(2)] obtain fs where fs: "out = rev fs @ (if s \<noteq> STN_UNDEF then \<lparr>af_pc = ip, af_symIdx = s\<rparr> # acc else acc)"
      "map af_pc fs = filter (is_activation L elf ts) ips"
      "\<forall>f \<in> set fs. findSymbolContainingAddress L elf (af_pc f) STT_FUNC SHN_UNDEF = Inr (af_symIdx f)"
      "\<forall>ip \<in> set ips. in_text ts ip \<longrightarrow> (\<exists>s. findSymbolContainingAddress L elf ip STT_FUNC SHN_UNDEF = Inr s)" by blast
    show ?thesis
      by (rule exI [of _ "if s \<noteq> STN_UNDEF then \<lparr>af_pc = ip, af_symIdx = s\<rparr> # fs else fs"])
        (use fs s(1) True is_activation_def [of L elf ts ip] in auto)
  next
    case False
    then have "activation_frames L elf (sh_addr (scn_shdr ts)) (sh_addr (scn_shdr ts) + sh_size (scn_shdr ts)) ips acc = Inr out"
      using Cons.prems by (auto simp: in_text_def)
    from Cons.IH [OF this] False show ?thesis by (auto simp: is_activation_def)
  qed
qed simp

lemma filter_splits: "filter P zs = xs @ ys \<Longrightarrow> \<exists>us vs. zs = us @ vs \<and> filter P us = xs \<and> filter P vs = ys"
proof (induction xs arbitrary: zs)
  case (Cons x xs)
  then obtain us vs where u: "zs = us @ x # vs" "\<forall>u \<in> set us. \<not> P u" "P x" "filter P vs = xs @ ys"
    by (auto simp: filter_eq_Cons_iff)
  from Cons.IH [OF u(4)] obtain us' vs' where "vs = us' @ vs'" "filter P us' = xs" "filter P vs' = ys" by blast
  with u(1-3) show ?case by (intro exI [of _ "us @ x # us'"] exI [of _ vs']) simp
qed (auto intro: exI [of _ "[]"])

text \<open>The frame that is chosen: all those further out are safe, and it is the innermost of the safe ones or the next one out.\<close>

lemma safe_frame_chosen:
  assumes "findSafeBreakpointForPatch L demangle targetBin patch avoid ips = Inr pc"
  shows "\<exists>older f newer unsafe scn.
     findActivationFrames L targetBin ips = Inr (older @ f # newer) \<and> pc = af_pc f \<and>
     getDataByERS patch ERS_UNSAFE_FUNCTIONS = Inr scn \<and>
     unsafe_functions L targetBin patch (d_buf scn) [0..<d_size scn div 8] = Inr unsafe \<and>
     (\<forall>g \<in> set (older @ [f]). af_symIdx g \<notin> set unsafe) \<and>
     (if avoid then newer \<noteq> [] \<or> older = [] else newer = [] \<or> af_symIdx (hd newer) \<in> set unsafe)"
proof -
  obtain frames scn unsafe good where r: "findActivationFrames L targetBin ips = Inr frames"
    "getDataByERS patch ERS_UNSAFE_FUNCTIONS = Inr scn"
    "unsafe_functions L targetBin patch (d_buf scn) [0..<d_size scn div 8] = Inr unsafe"
    "safe_frames (getFunctionNameAtPC L demangle targetBin) unsafe frames [] = Inr good"
    "(case good of [] \<Rightarrow> Inl Death
      | f # older \<Rightarrow> Inr (af_pc (if avoid then (case older of [] \<Rightarrow> f | g # _ \<Rightarrow> g) else f))) = Inr pc"
    using assms unfolding findSafeBreakpointForPatch_def bindE_eq_Inr by blast
  obtain pre post where p: "frames = pre @ post" "good = rev pre" "\<forall>f \<in> set pre. af_symIdx f \<notin> set unsafe"
      "post = [] \<or> af_symIdx (hd post) \<in> set unsafe"
    using safe_frames_prefix [OF r(4)] by auto
  obtain f rest where g: "good = f # rest" using r(5) by (cases good) auto
  then have pre: "pre = rev rest @ [f]" using p(2) by (metis rev.simps(2) rev_rev_ident)
  show ?thesis
  proof (cases "avoid \<and> rest \<noteq> []")
    case True
    then obtain g' rest' where rest: "rest = g' # rest'" by (cases rest) auto
    then have fr: "frames = rev rest' @ g' # (f # post)" using p(1) pre by simp
    moreover have "pc = af_pc g'" using r(5) g rest True by simp
    ultimately show ?thesis using r(1-3) p(3) pre rest True
      by - (rule exI [of _ "rev rest'"], rule exI [of _ g'], rule exI [of _ "f # post"], rule exI [of _ unsafe], rule exI [of _ scn], simp)
  next
    case False
    have fr: "frames = rev rest @ f # post" using p(1) pre by simp
    moreover have "pc = af_pc f" using r(5) g False by (cases rest) auto
    ultimately show ?thesis using r(1-3) p(3,4) pre False
      by - (rule exI [of _ "rev rest"], rule exI [of _ f], rule exI [of _ post], rule exI [of _ unsafe], rule exI [of _ scn], auto)
  qed
qed

section \<open>Properties\<close>

text \<open>
  C32: on entries sorted by their bounds, the binary search finds an entry for every location that one of
  them covers.
\<close>

theorem getFDEForPC_finds:
  assumes "fdes_sorted (cfi_fdes cfi)" "length (cfi_fdes cfi) < 2 ^ 62" "k < length (cfi_fdes cfi)"
    "fde_covers (cfi_fdes cfi ! k) pc"
  shows "\<exists>m < length (cfi_fdes cfi). getFDEForPC cfi pc = Inr (Some m) \<and> fde_covers (cfi_fdes cfi ! m) pc"
  using fde_search_finds [OF assms, of 0 "length (cfi_fdes cfi)" "length (cfi_fdes cfi) + 2"] assms(3)
  by (cases "cfi_fdes cfi = []") (simp_all add: getFDEForPC_def)

definition code_at :: "32 word \<Rightarrow> 32 word \<Rightarrow> FDE" where
  "code_at lo hi = \<lparr>fde_cie = None, fde_instructions = [], fde_memSize = 0, fde_lowpc = lo, fde_highpc = hi,
     fde_offset = 0, fde_idx = 0, fde_hasLSDAPointer = False, fde_lsdaIdx = 0\<rparr>"

definition three_functions :: CallFrameInfo where
  "three_functions = \<lparr>cfi_fdes = [code_at 16 32, code_at 32 48, code_at 48 64], cfi_cies = [], isEHFrame = True, ehAddress = 0,
     ehHdrAddress = 0, exceptTableAddress = 0, hdrTableEncoding = 0, exceptTable = None\<rparr>"

lemma three_functions_simps:
  "cfi_fdes three_functions = [code_at 16 32, code_at 32 48, code_at 48 64]"
  "fde_low (code_at 16 32) = 16" "fde_high (code_at 16 32) = 32" "fde_low (code_at 32 48) = 32" "fde_high (code_at 32 48) = 48"
  "fde_low (code_at 48 64) = 48" "fde_high (code_at 48 64) = 64"
  by (simp_all add: three_functions_def code_at_def fde_low_def fde_high_def)

theorem getFDEForPC_finds_witness:
  "getFDEForPC three_functions 60 = Inr (Some 2)"
proof -
  let ?fs = "cfi_fdes three_functions"
  have "i = 0 \<and> j = 1 \<or> i = 0 \<and> j = 2 \<or> i = 1 \<and> j = 2" if "i < j" "j < length ?fs" for i j
    using that by (auto simp: three_functions_simps)
  then have "fdes_sorted ?fs"
    unfolding fdes_sorted_def by (fastforce simp: three_functions_simps)
  moreover have "length ?fs < 2 ^ 62" "2 < length ?fs" "fde_covers (?fs ! 2) 60"
    by (simp_all add: three_functions_simps fde_covers_def)
  ultimately obtain m where m: "m < length ?fs" "getFDEForPC three_functions 60 = Inr (Some m)" "fde_covers (?fs ! m) 60"
    using getFDEForPC_finds [of three_functions 2 60] by blast
  have "m = 0 \<or> m = 1 \<or> m = 2" using m(1) by (auto simp: three_functions_simps)
  then have "m = 2" using m(3) by (auto simp: three_functions_simps fde_covers_def)
  with m(2) show ?thesis by simp
qed

text \<open>
  C5: a location that is found safe is the return address of an activation frame of the stack: neither that frame
  nor any frame further out (closer to \<^verbatim>\<open>main\<close>) is in a function that the patch changes, as far as the return
  addresses lie in the text section of the target.  When the current frame is to be avoided, a frame is left
  further in, or it is the outermost; otherwise the next frame further in, if there is one, is in a function that the patch changes.
\<close>

theorem safe_spot_is_safe:
  assumes "findSafeBreakpointForPatch L demangle targetBin patch avoid ips = Inr pc"
  shows "\<exists>inner outer ts unsafe scn.
     ips = inner @ pc # outer \<and>
     getSectionByERS targetBin ERS_TEXT = Inr ts \<and>
     getDataByERS patch ERS_UNSAFE_FUNCTIONS = Inr scn \<and>
     unsafe_functions L targetBin patch (d_buf scn) [0..<d_size scn div 8] = Inr unsafe \<and>
     (\<forall>ip \<in> set (pc # outer). in_text ts ip \<longrightarrow>
        (\<exists>s. findSymbolContainingAddress L targetBin ip STT_FUNC SHN_UNDEF = Inr s \<and> s \<notin> set unsafe)) \<and>
     is_activation L targetBin ts pc \<and>
     (if avoid then (\<exists>ip \<in> set inner. is_activation L targetBin ts ip) \<or> (\<forall>ip \<in> set outer. \<not> is_activation L targetBin ts ip)
      else filter (is_activation L targetBin ts) inner = [] \<or>
        (\<exists>s \<in> set unsafe. findSymbolContainingAddress L targetBin
           (last (filter (is_activation L targetBin ts) inner)) STT_FUNC SHN_UNDEF = Inr s))"
proof -
  obtain older f newer unsafe scn where c:
    "findActivationFrames L targetBin ips = Inr (older @ f # newer)" "pc = af_pc f"
    "getDataByERS patch ERS_UNSAFE_FUNCTIONS = Inr scn"
    "unsafe_functions L targetBin patch (d_buf scn) [0..<d_size scn div 8] = Inr unsafe"
    "\<forall>g \<in> set (older @ [f]). af_symIdx g \<notin> set unsafe"
    "if avoid then newer \<noteq> [] \<or> older = [] else newer = [] \<or> af_symIdx (hd newer) \<in> set unsafe"
    using safe_frame_chosen [OF assms] by blast
  obtain ts where t: "getSectionByERS targetBin ERS_TEXT = Inr ts"
    and act: "activation_frames L targetBin (sh_addr (scn_shdr ts)) (sh_addr (scn_shdr ts) + sh_size (scn_shdr ts)) ips [] =
      Inr (older @ f # newer)"
    using c(1) by (auto simp: findActivationFrames_def Let_def fault_simps)
  from activation_frames_are [OF act] obtain fs where fs: "older @ f # newer = rev fs"
    "map af_pc fs = filter (is_activation L targetBin ts) ips"
    "\<forall>f \<in> set fs. findSymbolContainingAddress L targetBin (af_pc f) STT_FUNC SHN_UNDEF = Inr (af_symIdx f)"
    "\<forall>ip \<in> set ips. in_text ts ip \<longrightarrow> (\<exists>s. findSymbolContainingAddress L targetBin ip STT_FUNC SHN_UNDEF = Inr s)"
    unfolding append_Nil2 by blast
  have fs': "fs = rev newer @ f # rev older" using fs(1) by (metis rev_rev_ident rev_append rev.simps(2) append_Cons append_Nil append_assoc)
  have look: "findSymbolContainingAddress L targetBin (af_pc g) STT_FUNC SHN_UNDEF = Inr (af_symIdx g)"
    if "g \<in> set (older @ f # newer)" for g using that fs(3) fs' by auto
  have "filter (is_activation L targetBin ts) ips = map af_pc (rev newer) @ pc # map af_pc (rev older)"
    using fs(2) fs' c(2) by simp
  then obtain us vs' where u: "ips = us @ vs'" "filter (is_activation L targetBin ts) us = map af_pc (rev newer)"
      "filter (is_activation L targetBin ts) vs' = pc # map af_pc (rev older)"
    using filter_splits by blast
  from u(3) obtain us' outer where v: "vs' = us' @ pc # outer" "\<forall>u \<in> set us'. \<not> is_activation L targetBin ts u"
      "is_activation L targetBin ts pc" "map af_pc (rev older) = filter (is_activation L targetBin ts) outer"
    by (auto simp: filter_eq_Cons_iff)
  have inner: "filter (is_activation L targetBin ts) (us @ us') = map af_pc (rev newer)" using u(2) v(2) by simp
  have safe: "\<exists>s. findSymbolContainingAddress L targetBin ip STT_FUNC SHN_UNDEF = Inr s \<and> s \<notin> set unsafe"
    if ip: "ip \<in> set (pc # outer)" "in_text ts ip" for ip
  proof -
    obtain s where s: "findSymbolContainingAddress L targetBin ip STT_FUNC SHN_UNDEF = Inr s"
      using fs(4) ip u(1) v(1) by auto
    show ?thesis
    proof (cases "s = STN_UNDEF")
      case True
      with s unsafe_functions_nonzero [OF c(4)] show ?thesis by blast
    next
      case False
      then have "is_activation L targetBin ts ip" using s ip(2) by (simp add: is_activation_def)
      then have "ip = pc \<or> ip \<in> set (filter (is_activation L targetBin ts) outer)" using ip(1) by auto
      then have "\<exists>g \<in> set (older @ [f]). af_pc g = ip" unfolding v(4) [symmetric] using c(2) by auto
      then obtain g where "g \<in> set (older @ [f])" "af_pc g = ip" by blast
      then show ?thesis using look [of g] c(5) by auto
    qed
  qed
  have last: "last (filter (is_activation L targetBin ts) (us @ us')) = af_pc (hd newer)" if "newer \<noteq> []"
    using that unfolding inner by (simp add: last_map last_rev)
  show ?thesis
  proof (intro exI conjI)
    show "ips = (us @ us') @ pc # outer" using u(1) v(1) by simp
    show "if avoid then (\<exists>ip \<in> set (us @ us'). is_activation L targetBin ts ip) \<or> (\<forall>ip \<in> set outer. \<not> is_activation L targetBin ts ip)
      else filter (is_activation L targetBin ts) (us @ us') = [] \<or>
        (\<exists>s \<in> set unsafe. findSymbolContainingAddress L targetBin
           (last (filter (is_activation L targetBin ts) (us @ us'))) STT_FUNC SHN_UNDEF = Inr s)"
    proof (cases avoid)
      case True
      have "\<exists>ip \<in> set (us @ us'). is_activation L targetBin ts ip" if "newer \<noteq> []"
        using inner that by (metis filter_False map_is_Nil_conv rev_is_Nil_conv)
      moreover have "\<forall>ip \<in> set outer. \<not> is_activation L targetBin ts ip" if "older = []"
        using v(4) that by (simp add: filter_empty_conv [symmetric])
      ultimately show ?thesis using c(6) True by auto
    next
      case False
      show ?thesis
      proof (cases "newer = []")
        case True
        with inner False show ?thesis by simp
      next
        case n: False
        then have "findSymbolContainingAddress L targetBin (af_pc (hd newer)) STT_FUNC SHN_UNDEF = Inr (af_symIdx (hd newer))"
          by (intro look) simp
        then show ?thesis using n False c(6) unfolding last [OF n] by auto
      qed
    qed
  qed (use t c(3,4) safe v(3) in blast)+
qed

text \<open>The first location of a function that follows another directly belongs to the entry of the other too.\<close>

lemma boundary_finds_previous: "getFDEForPC three_functions 48 = Inr (Some 1)"
proof -
  have n: "length (cfi_fdes three_functions) + 2 = Suc 4" by (simp add: three_functions_simps)
  show ?thesis
    unfolding getFDEForPC_def n fde_search.simps by (simp add: three_functions_simps)
qed

text \<open>
  An object with two functions \<open>f\<close> at 4096 and \<open>g\<close> at 8192, of which a patch changes the second.
\<close>

definition big_symtab :: Elf_Scn where
  "big_symtab = \<lparr>scn_shdr = small_shdr 2 72, d_size = 72,
     d_buf = replicate 24 0 @
       [1, 0, 0, 0, 0x12, 0, 0, 0, 0, 16, 0, 0, 0, 0, 0, 0, 16, 0, 0, 0, 0, 0, 0, 0] @
       [3, 0, 0, 0, 0x12, 0, 0, 0, 0, 32, 0, 0, 0, 0, 0, 0, 16, 0, 0, 0, 0, 0, 0, 0]\<rparr>"

definition big_elf :: ElfInfo where
  "big_elf = \<lparr>e_scns = [\<lparr>scn_shdr = small_shdr 0 0, d_size = 0, d_buf = []\<rparr>, big_symtab,
       \<lparr>scn_shdr = small_shdr 3 5, d_size = 5, d_buf = [0, 102, 0, 103, 0]\<rparr>,
       \<lparr>scn_shdr = small_shdr 1 16384, d_size = 16384, d_buf = []\<rparr>,
       \<lparr>scn_shdr = small_shdr 1 8, d_size = 8, d_buf = [2, 0, 0, 0, 0, 0, 0, 0]\<rparr>],
     symTabCount = 3, sectionHdrStrTblIdx = 0, strTblIdx = 2, textRelocCount = 0,
     sectionIndices = (\<lambda>_. 0)(ERS_SYMTAB := 1, ERS_TEXT := 3, ERS_UNSAFE_FUNCTIONS := 4), e_ints = replicate 5 0,
     isPO = False, arch_bitwidth = 64, textUsesSmallCodeModel = False\<rparr>"

lemma big_data:
  "getDataByERS big_elf ERS_SYMTAB = Inr big_symtab"
  "getDataByERS big_elf ERS_UNSAFE_FUNCTIONS = Inr \<lparr>scn_shdr = small_shdr 1 8, d_size = 8, d_buf = [2, 0, 0, 0, 0, 0, 0, 0]\<rparr>"
  "getSectionByERS big_elf ERS_TEXT = Inr \<lparr>scn_shdr = small_shdr 1 16384, d_size = 16384, d_buf = []\<rparr>"
  "hasERS big_elf ERS_SYMTAB" "symTabCount big_elf = 3"
  by (simp_all add: getDataByERS_def getSectionByERS_def hasERS_def scn_or_def getscn_def big_elf_def)

lemma big_strings: "getString big_elf 0 = Inr []" "getString big_elf 1 = Inr ''f''" "getString big_elf 3 = Inr ''g''"
  by (simp_all add: getString_def scn_or_def getscn_def big_elf_def c_string_def char_of_def bit_Suc_0_iff)

lemma big_symbols:
  "gelf_getsym elf64 big_symtab 0 = Some \<lparr>st_name = 0, st_info = 0, st_other = 0, st_shndx = 0, st_value = 0, st_size = 0\<rparr>"
  "gelf_getsym elf64 big_symtab 1 = Some \<lparr>st_name = 1, st_info = 0x12, st_other = 0, st_shndx = 0, st_value = 4096, st_size = 16\<rparr>"
  "gelf_getsym elf64 big_symtab 2 = Some \<lparr>st_name = 3, st_info = 0x12, st_other = 0, st_shndx = 0, st_value = 8192, st_size = 16\<rparr>"
  by (simp_all add: elf64_def entry_def big_symtab_def sym_of_bytes_def le_word_def le_int_Cons)


lemma big_symbol_bytes:
  "sym_of_bytes (take 24 (drop 24 (d_buf big_symtab))) = \<lparr>st_name = 1, st_info = 0x12, st_other = 0, st_shndx = 0, st_value = 4096, st_size = 16\<rparr>"
  "sym_of_bytes (take 24 (drop 48 (d_buf big_symtab))) = \<lparr>st_name = 3, st_info = 0x12, st_other = 0, st_shndx = 0, st_value = 8192, st_size = 16\<rparr>"
  "sym_of_bytes (drop 48 (d_buf big_symtab)) = \<lparr>st_name = 3, st_info = 0x12, st_other = 0, st_shndx = 0, st_value = 8192, st_size = 16\<rparr>"
  "d_size big_symtab = 72" "length (d_buf big_symtab) = 72"
  by (simp_all add: big_symtab_def sym_of_bytes_def le_word_def le_int_Cons)

lemma big_reindex: "reindexSymbol elf64 big_elf big_elf 2 ESFF_VERSIONED_SECTIONS_OK = Inr 2"
proof -
  let ?g = "\<lparr>st_name = 3, st_info = 0x12, st_other = 0, st_shndx = 0, st_value = 8192, st_size = 16\<rparr> :: GElf_Sym"
  have f: "symtab_for big_elf 0 = Inr big_symtab" "string_for big_elf 0 = getString big_elf"
    by (auto simp: symtab_for_def string_for_def flag_def big_data)
  have m: "symbol_matches big_elf ?g big_elf 0 ''g'' big_symtab 1 = Inr False"
      "symbol_matches big_elf ?g big_elf 0 ''g'' big_symtab 2 = Inr True"
    by (simp_all add: symbol_matches_def f big_symbol_bytes big_strings [simplified] ST_TYPE_def ST_BIND_def unmangled_def
        unmangleSymbolName_def flag_def sections_match_def)
  have l: "[1..<72 div 24] = [1, 2 :: nat]" by (simp add: upt_conv_Cons)
  have "findSymbol big_elf ?g big_elf 0 = Inr 2"
    unfolding findSymbol_def f big_symbol_bytes(4) bindE_simps l
    by (simp add: big_strings [simplified] m m [simplified])
  then show ?thesis
    by (simp add: reindexSymbol_def getSymbol_def big_data big_symbols ESFF_VERSIONED_SECTIONS_OK_def ESFF_FUZZY_MATCHING_OK_def)
qed

lemma big_symbol_at:
  "findSymbolContainingAddress elf64 big_elf 8200 STT_FUNC SHN_UNDEF = Inr 2"
  "findSymbolContainingAddress elf64 big_elf 4100 STT_FUNC SHN_UNDEF = Inr 1"
proof -
  have l: "[1..<3] = [1, 2 :: nat]" by (simp add: upt_conv_Cons)
  show "findSymbolContainingAddress elf64 big_elf 8200 STT_FUNC SHN_UNDEF = Inr 2"
    "findSymbolContainingAddress elf64 big_elf 4100 STT_FUNC SHN_UNDEF = Inr 1"
    unfolding findSymbolContainingAddress_def big_data bindE_simps l
    by (simp_all add: big_data big_symbols big_symbols [simplified] sym_covers_def ST_TYPE_def)
qed

theorem safe_spot_is_safe_witness:
  "findSafeBreakpointForPatch elf64 id big_elf big_elf True [8200, 4100] = Inr 4100 \<and>
   (\<exists>inner outer. [8200, 4100] = inner @ 4100 # outer \<and>
      (\<forall>ip \<in> set (4100 # outer). ip \<le> 16384 \<longrightarrow>
         (\<exists>s. findSymbolContainingAddress elf64 big_elf ip STT_FUNC SHN_UNDEF = Inr s \<and> s \<noteq> 2)))"
proof -
  have fr: "findActivationFrames elf64 big_elf [8200, 4100] = Inr [\<lparr>af_pc = 4100, af_symIdx = 1\<rparr>, \<lparr>af_pc = 8200, af_symIdx = 2\<rparr>]"
    using big_symbol_at by (simp add: findActivationFrames_def big_data small_shdr_def)
  have un: "unsafe_functions elf64 big_elf big_elf [2, 0, 0, 0, 0, 0, 0, 0] [0..<8 div 8] = Inr [2]"
    using big_reindex by (simp add: le_word_def le_int_Cons)
  have nm: "getFunctionNameAtPC elf64 id big_elf 4100 = Inr ''f''" "getFunctionNameAtPC elf64 id big_elf 8200 = Inr ''g''"
    using big_symbol_at by (simp_all add: getFunctionNameAtPC_def getSymbol_def big_data big_symbols big_symbols [simplified] big_strings
        big_strings [simplified] starts_with_def)
  have run: "findSafeBreakpointForPatch elf64 id big_elf big_elf True [8200, 4100] = Inr 4100"
    unfolding findSafeBreakpointForPatch_def fr bindE_simps big_data Elf_Scn.simps un
    by (simp add: nm)
  obtain inner outer ts unsafe scn where w:
    "[8200, 4100] = inner @ 4100 # outer" "getSectionByERS big_elf ERS_TEXT = Inr ts"
    "getDataByERS big_elf ERS_UNSAFE_FUNCTIONS = Inr scn"
    "unsafe_functions elf64 big_elf big_elf (d_buf scn) [0..<d_size scn div 8] = Inr unsafe"
    "\<forall>ip \<in> set (4100 # outer). in_text ts ip \<longrightarrow>
        (\<exists>s. findSymbolContainingAddress elf64 big_elf ip STT_FUNC SHN_UNDEF = Inr s \<and> s \<notin> set unsafe)"
    using safe_spot_is_safe [OF run] by blast
  have "unsafe = [2]" using w(3,4) un by (auto simp: big_data)
  moreover have "in_text ts ip \<longleftrightarrow> ip \<le> 16384" for ip
    using w(2) by (auto simp: big_data in_text_def small_shdr_def)
  ultimately show ?thesis using run w(1,5)
    by - (rule conjI, assumption, rule exI [of _ inner], rule exI [of _ outer], auto)
qed

section \<open>Unwinding by rules\<close>

text \<open>
  The interpreter files the rule of a register that has a name under ``\<open>r7/rsp\<close>''; the unwinder looks for ``\<open>r7\<close>''.
\<close>

lemma named_rule_not_found:
  assumes "i < 8" "strForReg (basic_reg (of_nat i)) 0 = Inr key"
  shows "key \<noteq> ''r'' @ base_digits 10 i"
proof -
  have "i = 0 \<or> i = 1 \<or> i = 2 \<or> i = 3 \<or> i = 4 \<or> i = 5 \<or> i = 6 \<or> i = 7" using assms(1) by auto
  then have "CHR ''/'' \<in> set key"
    using assms(2) by (auto simp: strForReg_def basic_reg_def getArchRegNameFromDwarfRegNum_def
        getX86_64RegNameFromDwarfRegNum_def DWIPF_NO_REG_NAMES_def upto.simps)
  moreover have "base_digits 10 i = [hex_digit i]" using assms(1) by (simp add: base_digits.simps)
  moreover have "hex_digit i \<noteq> CHR ''/''" using assms(1) by (auto simp: hex_digit_def less_Suc_eq eval_nat_numeral)
  ultimately show ?thesis by auto
qed

lemma unnamed_register_needs_rule: "without_rule cfaAddr 8 regs = Inl NullDeref"
  by (simp add: without_rule_def getArchRegNameFromDwarfRegNum_def getX86_64RegNameFromDwarfRegNum_def upto.simps)

text \<open>A rule that says register \<open>i\<close> was kept in another register leaves register \<open>i\<close> as it was.\<close>

lemma register_rule_restores_other:
  assumes "rule_type r = ERRT_REGISTER" "reg_type (regRH r) = ERT_BASIC" "reg_u (regRH r) = 0" "regs = current"
  shows "restore_reg junk t current cfaAddr (Some r) 3 regs = Inr regs"
  using assms by (simp add: restore_reg_def getRegValueFromDwarfRegNum_def setRegValueFromDwarfRegNum_def)

end
