(* ===== verification/Process_Patch.thy ===== *)
theory Process_Patch
  imports Patch_Properties Target_Properties
begin

text \<open>
  The data patching of \<^verbatim>\<open>src/src/dwarfvm.c\<close> on the process of \<^verbatim>\<open>src/src/patcher/target.c\<close>: the interface between
  the two is a writer of patches.
\<close>

section \<open>Writers of patches\<close>

definition apply_patch :: "PatchData \<Rightarrow> memory \<Rightarrow> memory" where
  "apply_patch pd m = mem_write m (pd_addr pd) (take (pd_len pd) (pd_data pd))"

text \<open>
  \<open>room m a n\<close>: the memory is such that \<open>n\<close> bytes can be written at \<open>a\<close>; \<open>rest\<close> is what writing leaves alone.
\<close>

locale patch_writer =
  fixes env :: "'t TargetEnv"
    and mem :: "'t \<Rightarrow> memory"
    and rest :: "'t \<Rightarrow> 'r"
    and room :: "memory \<Rightarrow> addr_t \<Rightarrow> nat \<Rightarrow> bool"
  assumes write_ok: "room (mem t) a (length bs) \<Longrightarrow>
      \<exists>t'. te_write env t a bs = Inr t' \<and> mem t' = mem_write (mem t) a bs \<and> rest t' = rest t"
    and room_write: "room m a n \<Longrightarrow> room (mem_write m b bs) a n"
begin

lemma write_patches_applies:
  "\<forall>pd \<in> set pds. pd_len pd \<le> length (pd_data pd) \<and> room (mem t) (pd_addr pd) (pd_len pd) \<Longrightarrow>
   \<exists>t'. write_patches env pds t = Inr t' \<and> mem t' = fold apply_patch pds (mem t) \<and> rest t' = rest t"
proof (induction pds arbitrary: t)
  case (Cons pd pds)
  let ?bs = "take (pd_len pd) (pd_data pd)"
  have len: "length ?bs = pd_len pd" using Cons.prems by simp
  obtain t1 where t1: "te_write env t (pd_addr pd) ?bs = Inr t1" "mem t1 = mem_write (mem t) (pd_addr pd) ?bs" "rest t1 = rest t"
    using write_ok [of t "pd_addr pd" ?bs] Cons.prems unfolding len by auto
  have "\<forall>pd \<in> set pds. pd_len pd \<le> length (pd_data pd) \<and> room (mem t1) (pd_addr pd) (pd_len pd)"
    using Cons.prems room_write unfolding t1(2) by auto
  from Cons.IH [OF this] obtain t2 where t2: "write_patches env pds t1 = Inr t2"
      "mem t2 = fold apply_patch pds (mem t1)" "rest t2 = rest t1" by blast
  have "write_patches env (pd # pds) t = Inr t2" using Cons.prems t1(1) t2(1) by simp
  moreover have "apply_patch pd (mem t) = mem t1" using t1(2) by (simp add: apply_patch_def)
  ultimately show ?case using t1(3) t2(2,3) by simp
qed simp

end

text \<open>What no patch covers is as it was.\<close>

definition covered :: "PatchData \<Rightarrow> addr_t \<Rightarrow> bool" where
  "covered pd x \<longleftrightarrow> unat (x - pd_addr pd) < pd_len pd"

lemma fold_apply_patch_outside:
  "\<forall>pd \<in> set pds. \<not> covered pd x \<Longrightarrow> fold apply_patch pds m x = m x"
  by (induction pds arbitrary: m) (auto simp: apply_patch_def mem_write_def covered_def)

section \<open>The process as a writer\<close>

text \<open>\<open>syms\<close> supplies the symbol lookups.\<close>

definition process_env :: "(nat \<Rightarrow> byte list) \<Rightarrow> (Target \<Rightarrow> Target) \<Rightarrow> Target TargetEnv \<Rightarrow> Target TargetEnv" where
  "process_env junk run syms =
     syms\<lparr>te_read := \<lambda>t a n. memcpyFromTarget junk t (replicate n 0) a n,
          te_write := \<lambda>t a bs. memcpyToTarget junk t a bs (length bs),
          te_malloc := \<lambda>t n. mallocTarget junk run t (of_nat n)\<rparr>"

text \<open>The words that hold the bytes, and two more, are there.\<close>

definition mapped :: "memory \<Rightarrow> addr_t \<Rightarrow> nat \<Rightarrow> bool" where
  "mapped m a n \<longleftrightarrow> unat (a mod 8) + n + 11 \<le> 2 ^ 64 \<and>
     (\<forall>i < unat (a mod 8) + n + 11. m (word_base a + of_nat i) \<noteq> None)"

lemma mapped_has:
  assumes "mapped m a n"
  obtains old where "mem_has m (word_base a) old" "length old = unat (a mod 8) + n + 11" "length old \<le> 2 ^ 64"
proof -
  let ?n = "unat (a mod 8) + n + 11"
  let ?old = "map (\<lambda>i. the (m (word_base a + of_nat i))) [0..<?n]"
  have "mem_has m (word_base a) ?old" using assms by (auto simp: mem_has_def mapped_def)
  moreover have "length ?old = ?n" by simp
  moreover have "length ?old \<le> 2 ^ 64" using assms by (simp add: mapped_def)
  ultimately show thesis using that by blast
qed

lemma process_writes:
  assumes "mapped (tg_mem t) a (length bs)" "\<And>j. 4 \<le> length (junk j)"
  shows "memcpyToTarget junk t a bs (length bs) = Inr (t\<lparr>tg_mem := mem_write (tg_mem t) a bs\<rparr>)"
proof -
  obtain old where old: "mem_has (tg_mem t) (word_base a) old" "length old = unat (a mod 8) + length bs + 11" "length old \<le> 2 ^ 64"
    using mapped_has [OF assms(1)] .
  show ?thesis
    using memcpyToTarget_ok [OF old(1) [unfolded word_base_def] refl, of "length bs" bs junk] old(2,3) assms(2) by simp
qed

lemma mapped_write: "mapped m a n \<Longrightarrow> mapped (mem_write m b bs) a n"
  by (simp add: mapped_def mem_write_def)

text \<open>What lies behind the variables of the reading functions: the four bytes that they copy from there.\<close>

definition stack_junk :: "(nat \<Rightarrow> byte list) \<Rightarrow> nat \<Rightarrow> byte list" where
  "stack_junk junk j = take 4 (junk j @ replicate 4 0)"

lemma length_stack_junk [simp]: "length (stack_junk junk j) = 4"
  by (simp add: stack_junk_def)

interpretation process: patch_writer "process_env (stack_junk junk) run syms" tg_mem tg_regs mapped for junk run syms
proof unfold_locales
  fix t :: Target and a and bs :: "byte list" assume "mapped (tg_mem t) a (length bs)"
  from process_writes [OF this, of "stack_junk junk"]
  show "\<exists>t'. te_write (process_env (stack_junk junk) run syms) t a bs = Inr t' \<and> tg_mem t' = mem_write (tg_mem t) a bs \<and>
      tg_regs t' = tg_regs t"
    by (simp add: process_env_def)
qed (rule mapped_write)

section \<open>Properties\<close>

text \<open>
  C4: once the patches of an FDE have been collected, and the memory they go to is mapped, patching the process
  succeeds, applies them in order and changes nothing else, neither registers nor memory.
\<close>

theorem process_is_patched:
  assumes "generatePatchesFromFDEAndState fuel (process_env (stack_junk junk) run syms) fdes fde
      \<lparr>currAddrOld = old, currAddrNew = new, cfaValue = 0\<rparr> ps = Inr (patches, ps1)"
    and "\<forall>pd \<in> set patches. pd_len pd \<le> length (pd_data pd) \<and> mapped (tg_mem (ps_target ps1)) (pd_addr pd) (pd_len pd)"
  shows "\<exists>ps'. patchDataWithFDE fuel (process_env (stack_junk junk) run syms) fdes old new fde ps = Inr ps' \<and>
     tg_mem (ps_target ps') = fold apply_patch patches (tg_mem (ps_target ps1)) \<and>
     tg_regs (ps_target ps') = tg_regs (ps_target ps1) \<and>
     (\<forall>x. (\<forall>pd \<in> set patches. \<not> covered pd x) \<longrightarrow> tg_mem (ps_target ps') x = tg_mem (ps_target ps1) x)"
proof -
  obtain t' where t': "write_patches (process_env (stack_junk junk) run syms) patches (ps_target ps1) = Inr t'"
      "tg_mem t' = fold apply_patch patches (tg_mem (ps_target ps1))" "tg_regs t' = tg_regs (ps_target ps1)"
    using process.write_patches_applies [OF assms(2), of junk run syms] by blast
  then have "patchDataWithFDE fuel (process_env (stack_junk junk) run syms) fdes old new fde ps = Inr (ps1\<lparr>ps_target := t'\<rparr>)"
    using assms(1) by (simp add: patchDataWithFDE_def)
  with t'(2,3) fold_apply_patch_outside show ?thesis by auto
qed

text \<open>A process whose memory counts up, and the FDE that copies four bytes from 6 to 12.\<close>

definition counting_target :: Target where
  "counting_target = blank_target\<lparr>tg_mem := \<lambda>a. Some (ucast a)\<rparr>"

definition no_symbols :: "Target TargetEnv" where
  "no_symbols = \<lparr>te_getSymAddress = \<lambda>_. Inr 0, te_read = \<lambda>_ _ _. Inl Death, te_write = \<lambda>_ _ _. Inl Death,
     te_malloc = \<lambda>_ _. Inl Death, te_findSymbol = \<lambda>_. 0, te_reindexSymbol = \<lambda>_. 0, te_getSymbol = \<lambda>_. (0, 0),
     te_dataIndex = 1, te_dataNew = None\<rparr>"

theorem process_is_patched_witness:
  "\<exists>ps'. patchDataWithFDE 1 (process_env (stack_junk (\<lambda>_. [])) id no_symbols) [] 2 12 (fde_of [copy_instr])
       \<lparr>ps_target = counting_target, ps_moved = None, ps_store = [], ps_states = None\<rparr> = Inr ps' \<and>
     tg_mem (ps_target ps') 12 = Some 6 \<and> tg_mem (ps_target ps') 16 = Some 16"
proof -
  let ?env = "process_env (stack_junk (\<lambda>_. [])) id no_symbols"
  let ?ps = "\<lparr>ps_target = counting_target, ps_moved = None, ps_store = [], ps_states = None\<rparr>"
  have eight: "i = 0 \<or> i = 1 \<or> i = 2 \<or> i = 3 \<or> i = 4 \<or> i = 5 \<or> i = 6 \<or> i = 7" if "i < 8" for i :: nat using that by auto
  have "mem_has (tg_mem counting_target) 6 [6, 7, 8, 9, 10, 11, 12, 13]"
  proof -
    have "tg_mem counting_target (6 + of_nat i) = Some ([6, 7, 8, 9, 10, 11, 12, 13] ! i)" if "i < 8" for i
      using eight [OF that] by (auto simp: counting_target_def)
    then show ?thesis by (simp add: mem_has_def)
  qed
  then have "te_read ?env counting_target 6 4 = Inr [6, 7, 8, 9]"
    using memcpyFromTarget_ok [of counting_target 6 "[6, 7, 8, 9, 10, 11, 12, 13]" 4 "replicate 4 0" "stack_junk (\<lambda>_. [])"]
    by (simp add: process_env_def copy_extent_def)
  from copy_run [OF this] obtain ps1 where ps1: "generatePatchesFromFDEAndState 1 ?env [] (fde_of [copy_instr])
      \<lparr>currAddrOld = 2, currAddrNew = 12, cfaValue = 0\<rparr> ?ps = Inr ([\<lparr>pd_data = [6, 7, 8, 9], pd_len = 4, pd_addr = 12\<rparr>], ps1)"
      "ps_target ps1 = counting_target" by auto
  have "mapped (tg_mem counting_target) 12 4"
    by (simp add: mapped_def counting_target_def blank_target_def unat_mod)
  then have "\<forall>pd \<in> set [\<lparr>pd_data = [6, 7, 8, 9 :: byte], pd_len = 4, pd_addr = 12\<rparr>]. pd_len pd \<le> length (pd_data pd) \<and>
      mapped (tg_mem (ps_target ps1)) (pd_addr pd) (pd_len pd)"
    by (simp add: ps1(2))
  from process_is_patched [OF ps1(1) this] show ?thesis
    by (auto simp: ps1(2) apply_patch_def mem_write_def counting_target_def blank_target_def covered_def)
qed

end
