(* ===== verification/Free_Space.thy ===== *)
theory Free_Space
  imports Target_Properties Type_Diff
begin

text \<open>
  \<^verbatim>\<open>src/src/patcher/hotpatch.c\<close>: the space that is mapped into the process and handed out piece by piece.
\<close>

section \<open>State\<close>

text \<open>The two globals of the file, both zero at first.\<close>

record FreeSpace =
  addrFreeSpace :: addr_t
  freeSpaceLeft :: addr_t

text \<open>The same function as \<^verbatim>\<open>getIndexForField\<close> of \<^verbatim>\<open>src/src/patchwrite/typediff.c\<close>.\<close>

definition getIdxForField :: "TypeInfo \<Rightarrow> string \<Rightarrow> int result" where
  "getIdxForField type name =
     bindE (find_field type name [0..<ti_numFields type]) (\<lambda>r. case r of
       None \<Rightarrow> Inr FIELD_DELETED
     | Some i \<Rightarrow> Inr (int i))"

text \<open>
  Whole pages, \<open>pageSize\<close> bytes each (\<^verbatim>\<open>sysconf\<close>).  The quotient is taken in \<^verbatim>\<open>double\<close>, which holds both numbers
  exactly.  What was left of the old space is given up.
\<close>

definition pages_for :: "nat \<Rightarrow> uint \<Rightarrow> nat" where
  "pages_for pageSize howMuch = (unat howMuch + pageSize - 1) div pageSize"

definition reserveFreeSpaceInTarget :: "(nat \<Rightarrow> byte list) \<Rightarrow> (Target \<Rightarrow> Target) \<Rightarrow> nat \<Rightarrow> uint \<Rightarrow> addr_t \<Rightarrow> FreeSpace \<Rightarrow> Target \<Rightarrow>
  (addr_t \<times> FreeSpace \<times> Target) result" where
  "reserveFreeSpaceInTarget junk run pageSize howMuch loc fs t =
     (if ucast howMuch \<le> freeSpaceLeft fs \<and> (loc = 0 \<or> addrFreeSpace fs = loc) then Inr (addrFreeSpace fs, fs, t)
      else
        let len = of_nat (pages_for pageSize howMuch * pageSize) in
        bindE (mmapTarget junk run t len 7 loc) (\<lambda>(t, addr).
          Inr (addr, \<lparr>addrFreeSpace = addr, freeSpaceLeft = len\<rparr>, t)))"

text \<open>The first assignment of the result is overwritten.\<close>

definition getFreeSpaceInTarget :: "(nat \<Rightarrow> byte list) \<Rightarrow> (Target \<Rightarrow> Target) \<Rightarrow> nat \<Rightarrow> uint \<Rightarrow> FreeSpace \<Rightarrow> Target \<Rightarrow>
  (addr_t \<times> FreeSpace \<times> Target) result" where
  "getFreeSpaceInTarget junk run pageSize howMuch fs t =
     bindE (reserveFreeSpaceInTarget junk run pageSize howMuch 0 fs t) (\<lambda>(_, fs, t).
       Inr (addrFreeSpace fs,
            \<lparr>addrFreeSpace = addrFreeSpace fs + ucast howMuch, freeSpaceLeft = freeSpaceLeft fs - ucast howMuch\<rparr>, t))"

section \<open>What is handed out\<close>

lemma pages_enough: "0 < pageSize \<Longrightarrow> unat howMuch \<le> pages_for pageSize howMuch * pageSize"
proof -
  assume p: "0 < pageSize"
  have "unat howMuch + pageSize - 1 = pages_for pageSize howMuch * pageSize + (unat howMuch + pageSize - 1) mod pageSize"
    by (simp add: pages_for_def)
  moreover have "(unat howMuch + pageSize - 1) mod pageSize \<le> pageSize - 1" using p by (simp add: less_Suc_eq_le [symmetric])
  ultimately show ?thesis using p by linarith
qed

text \<open>
  Space is taken from what is left when it is enough, without touching the process; otherwise from a new mapping.
  Either way the piece lies within the space, and the space behind it is what is left.
\<close>

lemma getFreeSpaceInTarget_serves:
  assumes "getFreeSpaceInTarget junk run pageSize howMuch fs t = Inr (a, fs', t')"
    and "0 < pageSize" "unat howMuch + pageSize < 2 ^ 64"
  obtains space where "addrFreeSpace fs' = a + ucast howMuch" "unat howMuch + unat (freeSpaceLeft fs') = space"
    and "ucast howMuch \<le> freeSpaceLeft fs \<Longrightarrow> a = addrFreeSpace fs \<and> space = unat (freeSpaceLeft fs) \<and> t' = t"
    and "\<not> ucast howMuch \<le> freeSpaceLeft fs \<Longrightarrow>
      space = pages_for pageSize howMuch * pageSize \<and> mmapTarget junk run t (of_nat space) 7 0 = Inr (t', a)"
proof -
  let ?n = "pages_for pageSize howMuch * pageSize"
  have "unat howMuch < 2 ^ 32" using unsigned_less [of howMuch] by simp
  then have u: "unat (ucast howMuch :: addr_t) = unat howMuch"
    by (simp add: unsigned_ucast_eq take_bit_eq_mod)
  have "?n \<le> unat howMuch + pageSize - 1" by (simp add: pages_for_def)
  then have "?n < 2 ^ LENGTH(64)" using assms(2,3) by simp
  then have n: "unat (of_nat ?n :: addr_t) = ?n" unfolding unat_of_nat by (rule mod_less)
  have sub: "unat howMuch + unat (s - ucast howMuch) = unat s" if "ucast howMuch \<le> s" for s :: addr_t
    using that u by (simp add: unat_sub word_le_nat_alt)
  show thesis
  proof (cases "ucast howMuch \<le> freeSpaceLeft fs")
    case True
    show thesis
      by (rule that [of "unat (freeSpaceLeft fs)"])
         (use assms(1) True sub in \<open>auto simp: getFreeSpaceInTarget_def reserveFreeSpaceInTarget_def\<close>)
  next
    case False
    have le: "ucast howMuch \<le> (of_nat ?n :: addr_t)"
      using pages_enough [OF assms(2), of howMuch] unfolding word_le_nat_alt u n .
    show thesis
      by (rule that [of ?n])
         (use assms(1) False sub [OF le] n in \<open>auto simp: getFreeSpaceInTarget_def reserveFreeSpaceInTarget_def Let_def fault_simps\<close>)
  qed
qed

end
