(* ===== verification/Elf_Writer.thy ===== *)
theory Elf_Writer
  imports Symbols
begin

text \<open>
  Building ELF files, \<^verbatim>\<open>src/src/elfwriter.c\<close>: appending to sections, string tables and symbol tables, the sections every
  patch object starts with, the sections libdwarf asks for, and the sizes written last.  A section has one block of
  data, which starts the section, so that its \<^verbatim>\<open>d_off\<close> is 0.  What \<^verbatim>\<open>realloc\<close> and \<^verbatim>\<open>malloc\<close> leave undefined is
  zero in the model (\<^verbatim>\<open>resize\<close>); no theorem depends on it.
\<close>

section \<open>Data of a section\<close>

definition addDataToScn :: "Elf_Scn \<Rightarrow> byte list \<Rightarrow> nat \<Rightarrow> (Elf_Scn \<times> nat) result" where
  "addDataToScn dataDest data sz =
     (let buf = resize (d_buf dataDest) (d_size dataDest + sz) in
      bindE (copy_out data sz) (\<lambda>bs.
      bindE (write_bytes buf (d_size dataDest) bs) (\<lambda>buf.
        Inr (dataDest\<lparr>d_buf := buf, d_size := d_size dataDest + sz\<rparr>, d_size dataDest + sz - sz))))"

definition replaceScnData :: "Elf_Scn \<Rightarrow> byte list \<Rightarrow> nat \<Rightarrow> Elf_Scn result" where
  "replaceScnData dataDest data sz =
     bindE (copy_out data sz) (\<lambda>bs. bindE (write_bytes (resize [] sz) 0 bs) (\<lambda>buf.
       Inr (dataDest\<lparr>d_buf := buf, d_size := sz\<rparr>)))"

text \<open>The end of the new data is computed in 64 bits.\<close>

definition extend_data :: "Elf_Scn \<Rightarrow> word_t \<Rightarrow> nat \<Rightarrow> Elf_Scn result" where
  "extend_data dataDest offset sz =
     (let end = unat (offset + of_nat sz) in
      if d_size dataDest < end then
        bindE (if d_size dataDest < unat offset
               then write_bytes (resize (d_buf dataDest) end) (d_size dataDest) (replicate (unat offset - d_size dataDest) 0)
               else Inr (resize (d_buf dataDest) end))
          (\<lambda>buf. Inr (dataDest\<lparr>d_buf := buf, d_size := end\<rparr>))
      else Inr dataDest)"

definition modifyScnData :: "Elf_Scn \<Rightarrow> word_t \<Rightarrow> byte list \<Rightarrow> nat \<Rightarrow> Elf_Scn result" where
  "modifyScnData dataDest offset data sz =
     bindE (extend_data dataDest offset sz) (\<lambda>scn.
     bindE (copy_out data sz) (\<lambda>bs.
     bindE (write_bytes (d_buf scn) (unat offset) bs) (\<lambda>buf. Inr (scn\<lparr>d_buf := buf\<rparr>))))"

section \<open>Entries of tables\<close>

text \<open>The offset of a string is an \<^verbatim>\<open>int\<close> in the code, and 32 bits wide in headers and symbols: the same for tables of less than 2 GB.\<close>

definition addStrtabEntry :: "ElfInfo \<Rightarrow> string \<Rightarrow> (ElfInfo \<times> nat) result" where
  "addStrtabEntry e str =
     bindE (getDataByERS e ERS_STRTAB) (\<lambda>strtab_data.
     let len = length str + 1 in
     bindE (addDataToScn strtab_data (cstring str) len) (\<lambda>(strtab_data, _).
       Inr (set_scn e (sectionIndices e ERS_STRTAB) strtab_data, d_size strtab_data - len)))"

definition addShdrStrtabEntry :: "ElfInfo \<Rightarrow> string \<Rightarrow> (ElfInfo \<times> nat) result" where
  "addShdrStrtabEntry e str =
     bindE (scn_or AssertFail e (sectionHdrStrTblIdx e)) (\<lambda>data.
     let len = length str + 1 in
     bindE (addDataToScn data (cstring str) len) (\<lambda>(data, _).
       Inr (set_scn e (sectionHdrStrTblIdx e) data, d_size data - len)))"

definition sym_bytes :: "GElf_Sym \<Rightarrow> byte list" where
  "sym_bytes sy = word_bytes 4 (st_name sy) @ [st_info sy, st_other sy] @ word_bytes 2 (st_shndx sy) @
     word_bytes 8 (st_value sy) @ word_bytes 8 (st_size sy)"

definition zero_sym :: GElf_Sym where
  "zero_sym = \<lparr>st_name = 0, st_info = 0, st_other = 0, st_shndx = 0, st_value = 0, st_size = 0\<rparr>"

definition data_off :: "Elf_Scn \<Rightarrow> nat" where "data_off scn = 0"

text \<open>The data argument is the section \<open>i\<close>.\<close>

definition addSymtabEntry :: "ElfInfo \<Rightarrow> nat \<Rightarrow> GElf_Sym \<Rightarrow> (ElfInfo \<times> nat) result" where
  "addSymtabEntry e i sy =
     bindE (getDataByERS e ERS_SYMTAB) (\<lambda>_.
     bindE (scn_or NullDeref e i) (\<lambda>data.
     let len = 24 in
     bindE (addDataToScn data (sym_bytes sy) len) (\<lambda>(data, _).
       let e = set_scn e i data;
           e = (if i = sectionIndices e ERS_SYMTAB then e\<lparr>symTabCount := data_off data div len\<rparr> else e) in
       Inr (e, (d_size data - len) div len))))"

section \<open>Sections of a patch object\<close>

definition null_shdr :: GElf_Shdr where
  "null_shdr = \<lparr>sh_name = 0, sh_type = 0, sh_flags = 0, sh_addr = 0, sh_offset = 0, sh_size = 0, sh_link = 0, sh_info = 0,
     sh_addralign = 0, sh_entsize = 0\<rparr>"

text \<open>\<^verbatim>\<open>elf_newscn\<close> and \<^verbatim>\<open>elf_newdata\<close>.\<close>

definition newscn :: "ElfInfo \<Rightarrow> ElfInfo \<times> nat" where
  "newscn e = (e\<lparr>e_scns := e_scns e @ [\<lparr>scn_shdr = null_shdr, d_size = 0, d_buf = []\<rparr>]\<rparr>, length (e_scns e))"

definition set_shdr :: "ElfInfo \<Rightarrow> nat \<Rightarrow> GElf_Shdr \<Rightarrow> ElfInfo" where
  "set_shdr e i shdr = set_scn e i ((e_scns e ! i)\<lparr>scn_shdr := shdr\<rparr>)"

text \<open>A new section with the given header, whose name goes into the string table.\<close>

definition named_section :: "ElfInfo \<Rightarrow> GElf_Shdr \<Rightarrow> string \<Rightarrow> (ElfInfo \<times> nat) result" where
  "named_section e shdr name =
     (let (e, scn) = newscn e in
      bindE (addStrtabEntry e name) (\<lambda>(e, off). Inr (set_shdr e scn (shdr\<lparr>sh_name := off\<rparr>), scn)))"

definition section_sym :: "nat \<Rightarrow> nat \<Rightarrow> GElf_Sym" where
  "section_sym name scn = zero_sym\<lparr>st_info := ST_INFO 0 STT_SECTION, st_name := of_nat name, st_shndx := of_nat scn\<rparr>"

abbreviation (input) SHT_SYMTAB :: nat where "SHT_SYMTAB \<equiv> 2"
abbreviation (input) SHT_STRTAB :: nat where "SHT_STRTAB \<equiv> 3"
abbreviation (input) SHT_KATANA_UNSAFE_FUNCTIONS :: nat where "SHT_KATANA_UNSAFE_FUNCTIONS \<equiv> 0x80000001"
abbreviation (input) SHF_WRITE :: "64 word" where "SHF_WRITE \<equiv> 1"
abbreviation (input) SHF_EXECINSTR :: "64 word" where "SHF_EXECINSTR \<equiv> 4"

definition create_strtab :: "ElfInfo \<Rightarrow> (ElfInfo \<times> nat) result" where
  "create_strtab e =
     (let (e, scn) = newscn e;
          e = note_section e ERS_STRTAB scn;
          e = set_shdr e scn (null_shdr\<lparr>sh_type := SHT_STRTAB, sh_addralign := 1, sh_name := 1\<rparr>) in
      bindE (addStrtabEntry e []) (\<lambda>(e, _).
      bindE (addStrtabEntry e ''.strtab'') (\<lambda>(e, _). Inr (e, scn))))"

definition create_symtab :: "ElfInfo \<Rightarrow> (ElfInfo \<times> nat) result" where
  "create_symtab e =
     bindE (named_section e (null_shdr\<lparr>sh_type := SHT_SYMTAB, sh_link := 1, sh_addralign := 64, sh_entsize := 24\<rparr>) ''.symtab'')
       (\<lambda>(e, scn). bindE (addSymtabEntry (note_section e ERS_SYMTAB scn) scn zero_sym) (\<lambda>(e, _). Inr (e, scn)))"

text \<open>The symbols of the sections, in the order of the recognized sections.\<close>

fun section_symbols :: "ElfInfo \<Rightarrow> nat \<Rightarrow> nat list \<Rightarrow> ElfInfo result" where
  "section_symbols e symtab [] = Inr e"
| "section_symbols e symtab (scn # scns) =
     bindE (scn_or NullDeref e scn) (\<lambda>s.
     bindE (addSymtabEntry e symtab (section_sym (sh_name (scn_shdr s)) scn)) (\<lambda>(e, _). section_symbols e symtab scns))"

definition createSections :: "ElfInfo \<Rightarrow> ElfInfo result" where
  "createSections e =
     bindE (create_strtab e) (\<lambda>(e, strtab).
     bindE (named_section e (null_shdr\<lparr>sh_type := SHT_PROGBITS, sh_addralign := 1, sh_flags := SHF_WRITE\<rparr>) ''.data.new'') (\<lambda>(e, data).
     bindE (create_symtab e) (\<lambda>(e, symtab).
     bindE (named_section e (null_shdr\<lparr>sh_type := SHT_KATANA_UNSAFE_FUNCTIONS, sh_link := symtab, sh_addralign := 1\<rparr>)
       ''.unsafe_functions'') (\<lambda>(e, unsafe).
     bindE (named_section e (null_shdr\<lparr>sh_type := SHT_PROGBITS, sh_addralign := 1, sh_flags := SHF_EXECINSTR\<rparr>) ''.text.new'') (\<lambda>(e, text).
     bindE (named_section e (null_shdr\<lparr>sh_type := SHT_PROGBITS, sh_addralign := 1\<rparr>) ''.rodata.new'') (\<lambda>(e, rodata).
     bindE (named_section e (null_shdr\<lparr>sh_type := SHT_RELA, sh_addralign := 64\<rparr>) ''.rela.text.new'') (\<lambda>(e, rela_text).
     bindE (section_symbols e symtab [text, rodata, data, symtab, strtab, rela_text, unsafe]) (\<lambda>e.
       Inr (note_section (note_section (note_section (note_section (note_section e ERS_TEXT text) ERS_RODATA rodata)
         ERS_RELA_TEXT rela_text) ERS_DATA data) ERS_UNSAFE_FUNCTIONS unsafe)))))))))"

text \<open>The new object, zeroed; its section table has the null section.\<close>

definition new_elf :: ElfInfo where
  "new_elf = \<lparr>e_scns = [\<lparr>scn_shdr = null_shdr, d_size = 0, d_buf = []\<rparr>], symTabCount = 0, sectionHdrStrTblIdx = 0,
     strTblIdx = 0, textRelocCount = 0, sectionIndices = \<lambda>_. 0, e_ints = replicate 5 0, isPO = True, arch_bitwidth = 0,
     textUsesSmallCodeModel = False\<rparr>"

definition startPatchElf :: "ElfInfo result" where
  "startPatchElf =
     bindE (createSections new_elf) (\<lambda>patch.
     bindE (getSectionByERS patch ERS_STRTAB) (\<lambda>_.
       let shstrndx = sectionIndices patch ERS_STRTAB in Inr (patch\<lparr>strTblIdx := shstrndx, sectionHdrStrTblIdx := shstrndx\<rparr>)))"

definition reindexSectionForPatch :: "ElfInfo \<Rightarrow> nat \<Rightarrow> ElfInfo \<Rightarrow> (ElfInfo \<times> nat) result" where
  "reindexSectionForPatch e scnIdx patch =
     bindE (getSectionNameFromIdx e scnIdx) (\<lambda>scnName. case scnName of
       None \<Rightarrow> Inl NullDeref
     | Some scnName \<Rightarrow>
         if scnName = ''.rodata'' then bindE (getSectionByERS patch ERS_RODATA) (\<lambda>_. Inr (patch, sectionIndices patch ERS_RODATA))
         else bindE (getSectionByName patch scnName) (\<lambda>patchScn. case patchScn of
           Some patchScn \<Rightarrow> Inr (patch, patchScn)
         | None \<Rightarrow>
             bindE (scn_or NullDeref e scnIdx) (\<lambda>scn.
             let shdr = scn_shdr scn in
             bindE (named_section patch (null_shdr\<lparr>sh_type := sh_type shdr, sh_link := sh_link shdr, sh_info := sh_info shdr,
               sh_addralign := sh_addralign shdr\<rparr>) scnName) (\<lambda>(patch, patchScn).
             bindE (getDataByERS patch ERS_SYMTAB) (\<lambda>_.
             bindE (addSymtabEntry patch (sectionIndices patch ERS_SYMTAB)
               (section_sym (sh_name (scn_shdr (e_scns patch ! patchScn))) patchScn)) (\<lambda>(patch, _). Inr (patch, patchScn)))))))"

section \<open>Sections for libdwarf\<close>

text \<open>\<^verbatim>\<open>strncmp\<close> with the number of characters of the name.\<close>

fun name_starts :: "byte list \<Rightarrow> string \<Rightarrow> bool result" where
  "name_starts bs [] = Inr True"
| "name_starts [] (c # cs) = Inl OutOfBounds"
| "name_starts (b # bs) (c # cs) = (if b = of_char c then name_starts bs cs else Inr False)"

definition is_section_sym :: "nat \<Rightarrow> GElf_Sym \<Rightarrow> bool" where
  "is_section_sym scn sy \<longleftrightarrow> STT_SECTION = ST_TYPE (st_info sy) \<and> scn = unat (st_shndx sy)"

definition native_sym :: "Elf_Scn \<Rightarrow> nat \<Rightarrow> GElf_Sym" where
  "native_sym symtab i = sym_of_bytes (take 24 (drop (i * 24) (d_buf symtab)))"

fun find_section_sym :: "Elf_Scn \<Rightarrow> nat \<Rightarrow> nat list \<Rightarrow> nat option" where
  "find_section_sym symtab scn [] = None"
| "find_section_sym symtab scn (i # is') =
     (if is_section_sym scn (native_sym symtab i) then Some i else find_section_sym symtab scn is')"

fun find_by_prefix :: "byte list \<Rightarrow> string \<Rightarrow> Elf_Scn list \<Rightarrow> nat \<Rightarrow> nat option result" where
  "find_by_prefix strtab name [] i = Inr None"
| "find_by_prefix strtab name (scn # scns) i =
     bindE (name_starts (drop (sh_name (scn_shdr scn)) strtab) name) (\<lambda>found.
       if found then Inr (Some i) else find_by_prefix strtab name scns (i + 1))"

text \<open>The result is the object, the index of the section's symbol and the index of the section.\<close>

definition dwarfWriteSectionCallback ::
  "ElfInfo \<Rightarrow> string \<Rightarrow> nat \<Rightarrow> nat \<Rightarrow> 64 word \<Rightarrow> nat \<Rightarrow> nat \<Rightarrow> (ElfInfo \<times> nat \<times> nat) result" where
  "dwarfWriteSectionCallback e name sz type flags link info =
     bindE (getDataByERS e ERS_SYMTAB) (\<lambda>symtab_data.
     bindE (getDataByERS e ERS_STRTAB) (\<lambda>strtab_data.
     bindE (find_by_prefix (d_buf strtab_data) name (drop 1 (e_scns e)) 1) (\<lambda>found. case found of
       Some scn \<Rightarrow>
         (case find_section_sym symtab_data scn [0..<d_size symtab_data div 24] of
            Some i \<Rightarrow> Inr (e, i, scn)
          | None \<Rightarrow> Inl Death)
     | None \<Rightarrow>
         bindE (if link = 0 \<and> type = SHT_REL then bindE (getSectionByERS e ERS_SYMTAB) (\<lambda>_. Inr (sectionIndices e ERS_SYMTAB))
                else Inr link) (\<lambda>link.
         bindE (named_section e (null_shdr\<lparr>sh_type := type, sh_flags := flags, sh_size := of_nat sz, sh_entsize := 1,
           sh_link := link, sh_info := info\<rparr>) name) (\<lambda>(e, scn).
         let e' = (if name = ''.debug_info'' then note_section e ERS_DEBUG_INFO scn else e) in
         bindE (addSymtabEntry e' (sectionIndices e' ERS_SYMTAB) (section_sym (sh_name (scn_shdr (e_scns e' ! scn))) scn))
           (\<lambda>(e', i). Inr (e', i, scn)))))))"

section \<open>The sizes\<close>

text \<open>The name is looked up for the log.\<close>

definition finalizeDataSize :: "ElfInfo \<Rightarrow> nat \<Rightarrow> ElfInfo result" where
  "finalizeDataSize e i =
     bindE (scn_or NullDeref e i) (\<lambda>scn.
     let shdr = scn_shdr scn; e = set_shdr e i (shdr\<lparr>sh_size := of_nat (d_size scn)\<rparr>) in
     bindE (getScnHdrString e (sh_name shdr)) (\<lambda>_. Inr e))"

fun finalize_each :: "ElfInfo \<Rightarrow> nat list \<Rightarrow> ElfInfo result" where
  "finalize_each e [] = Inr e"
| "finalize_each e (i # is') = bindE (finalizeDataSize e i) (\<lambda>e. finalize_each e is')"

definition allocated :: "GElf_Shdr \<Rightarrow> bool" where
  "allocated shdr \<longleftrightarrow> sh_flags shdr AND of_nat SHF_ALLOC \<noteq> 0"

text \<open>The overlap is an \<^verbatim>\<open>int\<close>.\<close>

definition overlap :: "GElf_Shdr \<Rightarrow> GElf_Shdr \<Rightarrow> int" where
  "overlap lastShdr shdr = sint (ucast (sh_addr lastShdr + sh_size lastShdr - sh_addr shdr) :: 32 word)"

fun check_layout :: "ElfInfo \<Rightarrow> GElf_Shdr option \<Rightarrow> GElf_Shdr list \<Rightarrow> unit result" where
  "check_layout e lastShdr [] = Inr ()"
| "check_layout e lastShdr (shdr # shdrs) =
     bindE (case lastShdr of
         None \<Rightarrow> Inr ()
       | Some l \<Rightarrow>
           if allocated shdr \<and> allocated l \<and> 1 < overlap l shdr then
             bindE (getScnHdrString e (sh_name l)) (\<lambda>_. bindE (getScnHdrString e (sh_name shdr)) (\<lambda>_. Inl Death))
           else Inr ())
       (\<lambda>_. check_layout e (if allocated shdr then Some shdr else lastShdr) shdrs)"

definition finalizeDataSizes :: "ElfInfo \<Rightarrow> ElfInfo result" where
  "finalizeDataSizes e =
     bindE (finalize_each e [1..<length (e_scns e)]) (\<lambda>e.
     bindE (check_layout e None (map scn_shdr (drop 1 (e_scns e)))) (\<lambda>_. Inr e))"

definition finalizeModifiedElf :: "ElfInfo \<Rightarrow> ElfInfo result" where
  "finalizeModifiedElf e = finalizeDataSizes e"

end
