(* ===== verification/Elf_Writer_Laws.thy ===== *)
theory Elf_Writer_Laws
  imports Elf_Writer
begin

text \<open>
  The contract of a string table as a locale, with what its clients get from it; the tables of \<^verbatim>\<open>elfwriter.c\<close> meet it.
  The invariant of a patch object: all names can be read, and every section has a symbol.
\<close>

section \<open>The interface of a string table\<close>

abbreviation plain :: "string \<Rightarrow> bool" where "plain s \<equiv> CHR 0x00 \<notin> set s"

locale string_table =
  fixes ok :: "ElfInfo \<Rightarrow> bool"
    and look :: "ElfInfo \<Rightarrow> nat \<Rightarrow> string result"
    and add :: "ElfInfo \<Rightarrow> string \<Rightarrow> (ElfInfo \<times> nat) result"
  assumes add_string: "ok e \<Longrightarrow> plain s \<Longrightarrow> \<exists>e' i. add e s = Inr (e', i) \<and> ok e' \<and> look e' i = Inr s \<and>
    (\<forall>j t. look e j = Inr t \<longrightarrow> look e' j = Inr t)"
begin

fun add_strings :: "ElfInfo \<Rightarrow> string list \<Rightarrow> (ElfInfo \<times> nat list) result" where
  "add_strings e [] = Inr (e, [])"
| "add_strings e (s # ss) = bindE (add e s) (\<lambda>(e, i). bindE (add_strings e ss) (\<lambda>(e, is'). Inr (e, i # is')))"

lemma add_strings_read:
  "ok e \<Longrightarrow> list_all plain ss \<Longrightarrow> \<exists>e' is'. add_strings e ss = Inr (e', is') \<and> ok e' \<and>
     map (look e') is' = map Inr ss \<and> (\<forall>j t. look e j = Inr t \<longrightarrow> look e' j = Inr t)"
proof (induction ss arbitrary: e)
  case Nil
  then show ?case by simp
next
  case (Cons s ss)
  from Cons.prems obtain e1 i where 1: "add e s = Inr (e1, i)" "ok e1" "look e1 i = Inr s"
      "\<forall>j t. look e j = Inr t \<longrightarrow> look e1 j = Inr t"
    using add_string [of e s] by auto
  from Cons.IH [of e1] 1(2) Cons.prems obtain e2 is2 where 2: "add_strings e1 ss = Inr (e2, is2)" "ok e2"
      "map (look e2) is2 = map Inr ss" "\<forall>j t. look e1 j = Inr t \<longrightarrow> look e2 j = Inr t"
    by auto
  from 1 2 show ?case by simp
qed

end

text \<open>A table of section names; the update of a section header relies on it.\<close>

locale section_names = string_table ok getScnHdrString add for ok add
begin

lemma update_header:
  assumes "ok e" "plain (shd_name shd)" "getScnHdrString e (sh_name shdr) = Inr old"
  shows "\<exists>e' shdr'. updateShdrFromSectionHeaderData add e shd off link_info entsize shdr = Inr (e', shdr') \<and> ok e' \<and>
    getScnHdrString e' (sh_name shdr') = Inr (shd_name shd) \<and>
    (\<forall>j t. getScnHdrString e j = Inr t \<longrightarrow> getScnHdrString e' j = Inr t) \<and>
    sh_addr shdr' = shd_addr shd \<and> sh_type shdr' = shd_type shd \<and> sh_size shdr' = of_nat (shd_size shd) \<and>
    (off = 0 \<longrightarrow> sh_offset shdr' - sh_addr shdr' = sh_offset shdr - sh_addr shdr)"
proof (cases "old = shd_name shd")
  case True
  with assms show ?thesis by (simp add: updateShdrFromSectionHeaderData_def)
next
  case False
  from add_string [OF assms(1,2)] obtain e' i where "add e (shd_name shd) = Inr (e', i)" "ok e'"
      "getScnHdrString e' i = Inr (shd_name shd)" "\<forall>j t. getScnHdrString e j = Inr t \<longrightarrow> getScnHdrString e' j = Inr t"
    by blast
  with assms False show ?thesis by (simp add: updateShdrFromSectionHeaderData_def)
qed

end

section \<open>Appending\<close>

definition append_data :: "Elf_Scn \<Rightarrow> byte list \<Rightarrow> Elf_Scn" where
  "append_data scn bs = scn\<lparr>d_buf := d_buf scn @ bs, d_size := length (d_buf scn) + length bs\<rparr>"

abbreviation full :: "Elf_Scn \<Rightarrow> bool" where "full scn \<equiv> d_size scn = length (d_buf scn)"

lemma append_data_simps [simp]:
  "d_buf (append_data scn bs) = d_buf scn @ bs"
  "d_size (append_data scn bs) = length (d_buf scn) + length bs"
  "scn_shdr (append_data scn bs) = scn_shdr scn"
  by (simp_all add: append_data_def)

lemma length_cstring [simp]: "length (cstring s) = length s + 1"
  by (simp add: cstring_def)

lemma length_sym_bytes [simp]: "length (sym_bytes sy) = 24"
  by (simp add: sym_bytes_def)

lemma addDataToScn_full [simp]:
  "full scn \<Longrightarrow> sz = length data \<Longrightarrow> addDataToScn scn data sz = Inr (append_data scn data, length (d_buf scn))"
  by (simp add: addDataToScn_def Let_def write_bytes_def resize_def append_data_def)

lemma drop_word_bytes_parts:
  "take n (word_bytes n w @ ys) = word_bytes n w" "drop n (word_bytes n w @ ys) = ys"
  by simp_all

lemma sym_of_sym_bytes [simp]: "sym_of_bytes (sym_bytes sy) = sy"
proof -
  have "take 2 (drop 6 (sym_bytes sy)) = word_bytes 2 (st_shndx sy)" "take 8 (drop 8 (sym_bytes sy)) = word_bytes 8 (st_value sy)"
    "take 8 (drop 16 (sym_bytes sy)) = word_bytes 8 (st_size sy)" "take 4 (sym_bytes sy) = word_bytes 4 (st_name sy)"
    "sym_bytes sy ! 4 = st_info sy" "sym_bytes sy ! 5 = st_other sy"
    by (simp_all add: sym_bytes_def nth_append)
  then show ?thesis by (simp add: sym_of_bytes_def)
qed

section \<open>Strings\<close>

declare char_of_char_word [simp] of_char_eq_0 [simp]

lemma c_string_cstring: "plain s \<Longrightarrow> c_string (cstring s @ bs) 0 = Inr s"
proof -
  assume "plain s"
  then have "takeWhile (\<lambda>b. b \<noteq> 0) (map of_char s @ (0 :: byte) # bs) = map of_char s"
    by (subst takeWhile_append2) auto
  then show ?thesis by (simp add: c_string_def cstring_def comp_def)
qed

lemma c_string_skip: "length bs \<le> i \<Longrightarrow> c_string (bs @ cs) i = c_string cs (i - length bs)"
  by (simp add: c_string_def)

lemma c_string_append: "c_string bs i = Inr s \<Longrightarrow> c_string (bs @ cs) i = Inr s"
proof -
  assume *: "c_string bs i = Inr s"
  then have "i < length bs" by (auto simp: c_string_def split: if_splits intro: ccontr)
  moreover have "0 \<in> set (drop i bs)" using * by (auto simp: c_string_def split: if_splits)
  moreover from this have "takeWhile (\<lambda>b. b \<noteq> 0) (drop i bs @ cs) = takeWhile (\<lambda>b. b \<noteq> 0) (drop i bs)"
    by (intro takeWhile_append1) auto
  ultimately show ?thesis using * by (auto simp: c_string_def split: if_splits)
qed

lemma c_string_bound: "c_string bs i = Inr s \<Longrightarrow> i < length bs"
  by (rule ccontr) (simp add: c_string_def)

lemma c_string_new: "plain s \<Longrightarrow> c_string (bs @ cstring s) (length bs) = Inr s"
  using c_string_cstring [of s "[]"] by (simp add: c_string_skip)

text \<open>Comparing the start of a string in the table.\<close>

lemma name_starts_plain:
  "plain name \<Longrightarrow> 0 \<in> set bs \<Longrightarrow>
   name_starts bs name = Inr (starts_with name (map (\<lambda>b. char_of (unat b)) (takeWhile (\<lambda>b. b \<noteq> 0) bs)))"
proof (induction bs name rule: name_starts.induct)
  case (3 b bs c cs)
  have "char_of (unat b) = c \<longleftrightarrow> b = of_char c"
  proof
    assume "char_of (unat b) = c"
    then have "(of_char (char_of (unat b)) :: nat) = of_char c" by simp
    moreover have "unat b mod 256 = unat b" using unsigned_less [of b, where 'a = nat] by simp
    ultimately have "unat b = of_char c" by simp
    then have "(of_nat (unat b) :: byte) = of_nat (of_char c)" by (rule arg_cong)
    then show "b = of_char c" by (simp add: of_nat_of_char)
  qed auto
  with 3 show ?case by (auto simp: starts_with_def)
qed (simp_all add: starts_with_def)

lemma name_starts_string:
  "plain name \<Longrightarrow> c_string bs i = Inr s \<Longrightarrow> name_starts (drop i bs) name = Inr (starts_with name s)"
  by (auto simp: c_string_def name_starts_plain split: if_splits)

end
