(* ===== verification/Elf_Writer_Patch.thy ===== *)
theory Elf_Writer_Patch
  imports Elf_Writer_Laws
begin

text \<open>The string tables of \<^verbatim>\<open>elfwriter.c\<close> meet the contract, and the invariant of a patch object is kept.\<close>

section \<open>The string tables\<close>

definition has_names :: "ElfInfo \<Rightarrow> bool" where
  "has_names e \<longleftrightarrow> sectionHdrStrTblIdx e \<noteq> 0 \<and> sectionHdrStrTblIdx e < length (e_scns e) \<and>
     full (e_scns e ! sectionHdrStrTblIdx e)"

definition has_strings :: "ElfInfo \<Rightarrow> bool" where
  "has_strings e \<longleftrightarrow> (let st = sectionIndices e ERS_STRTAB in
     st \<noteq> 0 \<and> st < length (e_scns e) \<and> full (e_scns e ! st) \<and> strTblIdx e = st)"

lemma getScnHdrString_full:
  "has_names e \<Longrightarrow> getScnHdrString e i = (let bs = d_buf (e_scns e ! sectionHdrStrTblIdx e) in
     if i < length bs then c_string bs i else Inl AssertFail)"
  by (simp add: getScnHdrString_def has_names_def scn_or_def getscn_def Let_def)

lemma getScnHdrString_eq_Inr:
  "has_names e \<Longrightarrow> getScnHdrString e i = Inr s \<longleftrightarrow> c_string (d_buf (e_scns e ! sectionHdrStrTblIdx e)) i = Inr s"
  by (auto simp: getScnHdrString_full Let_def dest: c_string_bound)

interpretation header_table: section_names has_names addShdrStrtabEntry
proof unfold_locales
  fix e s
  assume e: "has_names e" and s: "plain s"
  let ?st = "sectionHdrStrTblIdx e"
  let ?scn = "e_scns e ! ?st"
  let ?e = "set_scn e ?st (append_data ?scn (cstring s))"
  have "addShdrStrtabEntry e s = Inr (?e, length (d_buf ?scn))"
    using e by (simp add: addShdrStrtabEntry_def has_names_def scn_or_def getscn_def Let_def)
  moreover have ok: "has_names ?e" using e by (simp add: has_names_def set_scn_def)
  moreover have buf: "d_buf (e_scns ?e ! sectionHdrStrTblIdx ?e) = d_buf ?scn @ cstring s"
    using e by (simp add: set_scn_def has_names_def)
  moreover have "getScnHdrString ?e (length (d_buf ?scn)) = Inr s"
    using c_string_new [OF s] by (simp add: getScnHdrString_eq_Inr [OF ok] buf del: append_data_simps)
  moreover have "\<forall>j t. getScnHdrString e j = Inr t \<longrightarrow> getScnHdrString ?e j = Inr t"
    by (auto simp: getScnHdrString_eq_Inr [OF ok] getScnHdrString_eq_Inr [OF e] buf c_string_append)
  ultimately show "\<exists>e' i. addShdrStrtabEntry e s = Inr (e', i) \<and> has_names e' \<and> getScnHdrString e' i = Inr s \<and>
      (\<forall>j t. getScnHdrString e j = Inr t \<longrightarrow> getScnHdrString e' j = Inr t)"
    by blast
qed

interpretation patch_table: string_table has_strings getString addStrtabEntry
proof unfold_locales
  fix e s
  assume e: "has_strings e" and s: "plain s"
  let ?st = "sectionIndices e ERS_STRTAB"
  let ?scn = "e_scns e ! ?st"
  let ?e = "set_scn e ?st (append_data ?scn (cstring s))"
  have add: "addStrtabEntry e s = Inr (?e, length (d_buf ?scn))"
    using e by (simp add: addStrtabEntry_def has_strings_def getDataByERS_def scn_or_def getscn_def Let_def)
  have ok: "has_strings ?e" using e by (simp add: has_strings_def set_scn_def Let_def)
  have get: "getString e j = c_string (d_buf ?scn) j" "getString ?e j = c_string (d_buf ?scn @ cstring s) j" for j
    using e by (simp_all add: getString_def has_strings_def set_scn_def scn_or_def getscn_def Let_def)
  show "\<exists>e' i. addStrtabEntry e s = Inr (e', i) \<and> has_strings e' \<and> getString e' i = Inr s \<and>
      (\<forall>j t. getString e j = Inr t \<longrightarrow> getString e' j = Inr t)"
    by (rule exI [of _ ?e], rule exI [of _ "length (d_buf ?scn)"])
      (simp add: add ok get c_string_new [OF s] c_string_append)
qed

section \<open>The invariant of a patch object\<close>

definition strtab_of :: "ElfInfo \<Rightarrow> Elf_Scn" where "strtab_of e = e_scns e ! sectionIndices e ERS_STRTAB"
definition symtab_of :: "ElfInfo \<Rightarrow> Elf_Scn" where "symtab_of e = e_scns e ! sectionIndices e ERS_SYMTAB"

definition named :: "ElfInfo \<Rightarrow> nat \<Rightarrow> bool" where
  "named e i \<longleftrightarrow> (\<exists>s. c_string (d_buf (strtab_of e)) (sh_name (scn_shdr (e_scns e ! i))) = Inr s)"

definition has_symbol :: "ElfInfo \<Rightarrow> nat \<Rightarrow> bool" where
  "has_symbol e i \<longleftrightarrow> (\<exists>k < d_size (symtab_of e) div 24. is_section_sym i (native_sym (symtab_of e) k))"

definition patch_object :: "ElfInfo \<Rightarrow> bool" where
  "patch_object e \<longleftrightarrow> (let st = sectionIndices e ERS_STRTAB; sy = sectionIndices e ERS_SYMTAB in
     st \<noteq> 0 \<and> sy \<noteq> 0 \<and> st \<noteq> sy \<and> st < length (e_scns e) \<and> sy < length (e_scns e) \<and>
     strTblIdx e = st \<and> sectionHdrStrTblIdx e = st \<and> full (strtab_of e) \<and> full (symtab_of e) \<and>
     24 dvd d_size (symtab_of e) \<and> length (e_scns e) \<le> 65536 \<and>
     (\<forall>i \<in> {1..<length (e_scns e)}. named e i \<and> has_symbol e i))"

lemma patch_objectD:
  assumes "patch_object e"
  shows "sectionIndices e ERS_STRTAB \<noteq> 0" "sectionIndices e ERS_SYMTAB \<noteq> 0"
    "sectionIndices e ERS_STRTAB \<noteq> sectionIndices e ERS_SYMTAB"
    "sectionIndices e ERS_STRTAB < length (e_scns e)" "sectionIndices e ERS_SYMTAB < length (e_scns e)"
    "sectionHdrStrTblIdx e = sectionIndices e ERS_STRTAB" "full (strtab_of e)" "full (symtab_of e)"
    "24 dvd length (d_buf (symtab_of e))"
    "\<And>i. 1 \<le> i \<Longrightarrow> i < length (e_scns e) \<Longrightarrow> named e i" "\<And>i. 1 \<le> i \<Longrightarrow> i < length (e_scns e) \<Longrightarrow> has_symbol e i"
  using assms by (auto simp: patch_object_def Let_def)

lemma patch_object_names: "patch_object e \<Longrightarrow> has_names e"
  by (simp add: patch_object_def has_names_def Let_def strtab_of_def)

lemma patch_object_string:
  "patch_object e \<Longrightarrow> getScnHdrString e i = Inr s \<longleftrightarrow> c_string (d_buf (strtab_of e)) i = Inr s"
  using getScnHdrString_eq_Inr [OF patch_object_names, of e i s] by (simp add: patch_objectD strtab_of_def)

text \<open>The object with one more section: its name, its symbol, its header.\<close>

definition grown :: "ElfInfo \<Rightarrow> GElf_Shdr \<Rightarrow> string \<Rightarrow> ElfInfo" where
  "grown e shdr name =
     (let st = sectionIndices e ERS_STRTAB; sy = sectionIndices e ERS_SYMTAB; n = length (e_scns e);
          off = length (d_buf (strtab_of e)) in
      e\<lparr>e_scns := (e_scns e)[st := append_data (strtab_of e) (cstring name),
          sy := append_data (symtab_of e) (sym_bytes (section_sym off n))] @
          [\<lparr>scn_shdr = shdr\<lparr>sh_name := off\<rparr>, d_size = 0, d_buf = []\<rparr>],
        symTabCount := 0\<rparr>)"

lemma named_section_is:
  assumes e: "patch_object e"
  shows "named_section e shdr name = Inr (e\<lparr>e_scns := (e_scns e)[sectionIndices e ERS_STRTAB :=
      append_data (strtab_of e) (cstring name)] @ [\<lparr>scn_shdr = shdr\<lparr>sh_name := length (d_buf (strtab_of e))\<rparr>, d_size = 0, d_buf = []\<rparr>]\<rparr>,
      length (e_scns e))"
  using patch_objectD [OF e]
  by (simp add: named_section_def newscn_def Let_def addStrtabEntry_def getDataByERS_def scn_or_def getscn_def strtab_of_def
      nth_append set_scn_def set_shdr_def list_update_append)

lemma addSymtabEntry_is:
  assumes "i = sectionIndices e ERS_SYMTAB" "i \<noteq> 0" "i < length (e_scns e)" "full (e_scns e ! i)"
  shows "addSymtabEntry e i sy = Inr (e\<lparr>e_scns := (e_scns e)[i := append_data (e_scns e ! i) (sym_bytes sy)], symTabCount := 0\<rparr>,
    length (d_buf (e_scns e ! i)) div 24)"
  using assms by (simp add: addSymtabEntry_def getDataByERS_def scn_or_def getscn_def Let_def set_scn_def data_off_def)

lemma grown_simps [simp]:
  "length (e_scns (grown e shdr name)) = length (e_scns e) + 1"
  "sectionIndices (grown e shdr name) = sectionIndices e"
  "strTblIdx (grown e shdr name) = strTblIdx e" "sectionHdrStrTblIdx (grown e shdr name) = sectionHdrStrTblIdx e"
  by (simp_all add: grown_def Let_def)

lemma grown_sections:
  assumes e: "patch_object e"
  shows "strtab_of (grown e shdr name) = append_data (strtab_of e) (cstring name)"
    "symtab_of (grown e shdr name) =
       append_data (symtab_of e) (sym_bytes (section_sym (length (d_buf (strtab_of e))) (length (e_scns e))))"
    "i < length (e_scns e) \<Longrightarrow> scn_shdr (e_scns (grown e shdr name) ! i) = scn_shdr (e_scns e ! i)"
    "scn_shdr (e_scns (grown e shdr name) ! length (e_scns e)) = shdr\<lparr>sh_name := length (d_buf (strtab_of e))\<rparr>"
  using patch_objectD [OF e]
  by (simp_all add: grown_def Let_def strtab_of_def symtab_of_def nth_append nth_list_update)

lemma native_sym_append:
  "(k + 1) * 24 \<le> length (d_buf scn) \<Longrightarrow> native_sym (append_data scn bs) k = native_sym scn k"
  by (simp add: native_sym_def)

lemma native_sym_new:
  "24 dvd length (d_buf scn) \<Longrightarrow> native_sym (append_data scn (sym_bytes sy)) (length (d_buf scn) div 24) = sy"
  by (simp add: native_sym_def)

lemma is_section_sym_new: "scn < 65536 \<Longrightarrow> is_section_sym scn (section_sym off scn)"
proof -
  assume "scn < 65536"
  then have "unat (of_nat scn :: 16 word) = scn" by (simp add: unat_of_nat take_bit_eq_mod)
  moreover have "ST_TYPE (ST_INFO 0 STT_SECTION) = STT_SECTION" by (simp add: ST_TYPE_def ST_INFO_def)
  ultimately show ?thesis by (simp add: is_section_sym_def section_sym_def)
qed

lemma new_symbol:
  assumes e: "patch_object e" and n: "length (e_scns e) < 65536"
  shows "is_section_sym (length (e_scns e)) (native_sym (symtab_of (grown e shdr name)) (length (d_buf (symtab_of e)) div 24))"
  unfolding grown_sections [OF e] native_sym_new [OF patch_objectD(9) [OF e]] by (rule is_section_sym_new [OF n])

lemma grown_string:
  assumes e: "patch_object e" and s: "plain name"
  shows "c_string (d_buf (strtab_of e)) i = Inr s \<Longrightarrow> c_string (d_buf (strtab_of (grown e shdr name))) i = Inr s"
    "c_string (d_buf (strtab_of (grown e shdr name))) (length (d_buf (strtab_of e))) = Inr name"
  using s by (simp_all add: grown_sections [OF e] c_string_append c_string_new)

lemma patch_object_grown:
  assumes e: "patch_object e" and n: "length (e_scns e) < 65536" and s: "plain name"
  shows "patch_object (grown e shdr name)"
proof -
  let ?e = "grown e shdr name" and ?n = "length (e_scns e)"
  note D = patch_objectD [OF e] and G = grown_sections [OF e, where shdr = shdr and name = name]
  have "named ?e i \<and> has_symbol ?e i" if i: "i \<in> {1..<?n + 1}" for i
  proof (cases "i = ?n")
    case True
    have "named ?e i" using grown_string(2) [OF e s] G(4) by (auto simp: named_def True)
    moreover have "length (d_buf (symtab_of e)) div 24 < d_size (symtab_of ?e) div 24"
      using D(9) by (simp add: G)
    then have "has_symbol ?e i" unfolding has_symbol_def True using new_symbol [OF e n] by blast
    ultimately show ?thesis by simp
  next
    case False
    with i have i: "1 \<le> i" "i < ?n" by auto
    obtain t where "c_string (d_buf (strtab_of e)) (sh_name (scn_shdr (e_scns e ! i))) = Inr t"
      using D(10) [OF i] by (auto simp: named_def)
    from grown_string(1) [OF e s this] G(3) [OF i(2)] have "named ?e i" by (auto simp: named_def)
    moreover obtain k where k: "k < d_size (symtab_of e) div 24" "is_section_sym i (native_sym (symtab_of e) k)"
      using D(11) [OF i] by (auto simp: has_symbol_def)
    have "(k + 1) * 24 \<le> length (d_buf (symtab_of e))" using k(1) D(8) by simp
    from native_sym_append [OF this] k have "is_section_sym i (native_sym (symtab_of ?e) k)" by (simp add: G)
    moreover have "k < d_size (symtab_of ?e) div 24" using k(1) D(8) by (simp add: G)
    ultimately show ?thesis by (auto simp: has_symbol_def)
  qed
  moreover have "24 dvd d_size (symtab_of ?e)" using D(9) by (simp add: G)
  moreover have "full (strtab_of ?e)" "full (symtab_of ?e)" by (simp_all add: G)
  ultimately show ?thesis using e n unfolding patch_object_def Let_def grown_simps by auto
qed

lemma patch_object_note [simp]: "patch_object (note_section e ERS_DEBUG_INFO i) = patch_object e"
  by (simp add: patch_object_def note_section_def Let_def strtab_of_def symtab_of_def named_def has_symbol_def)

lemma note_section_simps [simp]:
  "e_scns (note_section e ers i) = e_scns e"
  "sectionIndices (note_section e ers i) ers' = (if ers' = ers then i else sectionIndices e ers')"
  by (simp_all add: note_section_def)

end
