(* ===== verification/Elf_Writer_Properties.thy ===== *)
theory Elf_Writer_Properties
  imports Elf_Writer_Patch
begin

text \<open>What is shown of \<^verbatim>\<open>elfwriter.c\<close>, with the places where it goes wrong.\<close>

section \<open>The sections a patch object starts with\<close>

definition first_names :: "string list" where
  "first_names = [''.strtab'', ''.data.new'', ''.symtab'', ''.unsafe_functions'', ''.text.new'', ''.rodata.new'', ''.rela.text.new'']"

definition first_strings :: "byte list" where
  "first_strings = cstring [] @ concat (map cstring first_names)"

definition first_symbols :: "GElf_Sym list" where
  "first_symbols = [zero_sym, section_sym 45 5, section_sym 55 6, section_sym 9 2, section_sym 19 3, section_sym 1 1,
     section_sym 67 7, section_sym 27 4]"

definition empty_scn :: "GElf_Shdr \<Rightarrow> Elf_Scn" where
  "empty_scn shdr = \<lparr>scn_shdr = shdr, d_size = 0, d_buf = []\<rparr>"

definition first_object :: ElfInfo where
  "first_object = \<lparr>e_scns =
     [empty_scn null_shdr,
      append_data (empty_scn (null_shdr\<lparr>sh_type := SHT_STRTAB, sh_addralign := 1, sh_name := 1\<rparr>)) first_strings,
      empty_scn (null_shdr\<lparr>sh_type := SHT_PROGBITS, sh_addralign := 1, sh_flags := SHF_WRITE, sh_name := 9\<rparr>),
      append_data (empty_scn (null_shdr\<lparr>sh_type := SHT_SYMTAB, sh_link := 1, sh_addralign := 64, sh_entsize := 24, sh_name := 19\<rparr>))
        (concat (map sym_bytes first_symbols)),
      empty_scn (null_shdr\<lparr>sh_type := SHT_KATANA_UNSAFE_FUNCTIONS, sh_link := 3, sh_addralign := 1, sh_name := 27\<rparr>),
      empty_scn (null_shdr\<lparr>sh_type := SHT_PROGBITS, sh_addralign := 1, sh_flags := SHF_EXECINSTR, sh_name := 45\<rparr>),
      empty_scn (null_shdr\<lparr>sh_type := SHT_PROGBITS, sh_addralign := 1, sh_name := 55\<rparr>),
      empty_scn (null_shdr\<lparr>sh_type := SHT_RELA, sh_addralign := 64, sh_name := 67\<rparr>)],
     symTabCount = 0, sectionHdrStrTblIdx = 1, strTblIdx = 1, textRelocCount = 0,
     sectionIndices = (\<lambda>_. 0)(ERS_STRTAB := 1, ERS_SYMTAB := 3, ERS_TEXT := 5, ERS_RODATA := 6, ERS_RELA_TEXT := 7, ERS_DATA := 2,
       ERS_UNSAFE_FUNCTIONS := 4),
     e_ints = replicate 5 0, isPO = True, arch_bitwidth = 0, textUsesSmallCodeModel = False\<rparr>"

lemma startPatchElf_first: "startPatchElf = Inr first_object"
  by (simp add: startPatchElf_def createSections_def create_strtab_def create_symtab_def named_section_def newscn_def new_elf_def
      note_section_def set_shdr_def set_scn_def addStrtabEntry_def addSymtabEntry_def getDataByERS_def getSectionByERS_def scn_or_def
      getscn_def Let_def data_off_def append_data_def null_shdr_def first_object_def empty_scn_def first_strings_def first_symbols_def
      first_names_def)
    (simp add: eval_nat_numeral)

lemma c_string_whole: "plain s \<Longrightarrow> c_string (cstring s) 0 = Inr s"
  using c_string_cstring [of s "[]"] by simp

lemma first_strings_read:
  "c_string first_strings 1 = Inr ''.strtab''" "c_string first_strings 9 = Inr ''.data.new''"
  "c_string first_strings 19 = Inr ''.symtab''" "c_string first_strings 27 = Inr ''.unsafe_functions''"
  "c_string first_strings 45 = Inr ''.text.new''" "c_string first_strings 55 = Inr ''.rodata.new''"
  "c_string first_strings 67 = Inr ''.rela.text.new''"
  by (simp_all add: first_strings_def first_names_def c_string_skip c_string_cstring c_string_whole)

lemma native_sym_table:
  "k < length ss \<Longrightarrow> native_sym (append_data (empty_scn shdr) (concat (map sym_bytes ss))) k = ss ! k"
proof (induction ss arbitrary: k)
  case (Cons sy ss)
  show ?case
  proof (cases k)
    case (Suc j)
    with Cons show ?thesis by (simp add: native_sym_def empty_scn_def)
  qed (simp add: native_sym_def empty_scn_def)
qed simp

lemma first_tables:
  "strtab_of first_object = append_data (empty_scn (null_shdr\<lparr>sh_type := SHT_STRTAB, sh_addralign := 1, sh_name := 1\<rparr>)) first_strings"
  "k < 8 \<Longrightarrow> native_sym (symtab_of first_object) k = first_symbols ! k"
  "d_size (symtab_of first_object) = 192" "full (symtab_of first_object)"
  using native_sym_table [of k first_symbols]
  by (simp_all add: strtab_of_def symtab_of_def first_object_def first_symbols_def empty_scn_def)

lemma seven: "i \<in> {1..<8} \<longleftrightarrow> i = 1 \<or> i = 2 \<or> i = 3 \<or> i = 4 \<or> i = 5 \<or> i = 6 \<or> i = (7::nat)"
  by auto

lemma first_names_read:
  "i \<in> {1..<8} \<Longrightarrow> c_string first_strings (sh_name (scn_shdr (e_scns first_object ! i))) = Inr (first_names ! (i - 1))"
  unfolding seven using first_strings_read
  by (elim disjE) (simp_all add: first_object_def empty_scn_def first_names_def)

definition symbol_of_section :: "nat list" where "symbol_of_section = [5, 3, 4, 7, 1, 2, 6]"

lemma first_symbols_sections:
  "i \<in> {1..<8} \<Longrightarrow> is_section_sym i (first_symbols ! (symbol_of_section ! (i - 1)))"
proof -
  assume i: "i \<in> {1..<8}"
  then have "\<exists>off. first_symbols ! (symbol_of_section ! (i - 1)) = section_sym off i"
    unfolding seven by (elim disjE) (simp_all add: first_symbols_def symbol_of_section_def, blast+)
  with i show ?thesis using is_section_sym_new [of i] by auto
qed

lemma first_object_ok: "patch_object first_object"
proof -
  have "has_symbol first_object i" if "i \<in> {1..<8}" for i
  proof -
    have "symbol_of_section ! (i - 1) < 8" using that unfolding seven by (auto simp: symbol_of_section_def)
    with first_symbols_sections [OF that] show ?thesis
      unfolding has_symbol_def first_tables(3) by (intro exI [of _ "symbol_of_section ! (i - 1)"]) (simp add: first_tables(2))
  qed
  moreover have "named first_object i" if "i \<in> {1..<8}" for i
    using first_names_read [OF that] by (simp add: named_def first_tables empty_scn_def)
  moreover have "length (e_scns first_object) = 8" by (simp add: first_object_def)
  ultimately show ?thesis
    using first_tables by (simp add: patch_object_def Let_def) (simp add: first_object_def empty_scn_def)
qed

definition first_sections :: "E_RECOGNIZED_SECTION list" where
  "first_sections = [ERS_STRTAB, ERS_DATA, ERS_SYMTAB, ERS_UNSAFE_FUNCTIONS, ERS_TEXT, ERS_RODATA, ERS_RELA_TEXT]"

text \<open>
  C33: A new patch object has the seven sections of its format, each under its name and found as the recognized section it
  is meant to be, and meets the invariant of patch objects: all names can be read and every section has a section symbol.
\<close>

theorem startPatchElf_sections:
  "\<exists>e. startPatchElf = Inr e \<and> patch_object e \<and> length (e_scns e) = 8 \<and>
     map (sectionIndices e) first_sections = [1..<8] \<and>
     map (getSectionNameFromIdx e) [1..<8] = map (\<lambda>s. Inr (Some s)) first_names"
proof -
  have "getSectionNameFromIdx first_object i = Inr (Some (first_names ! (i - 1)))" if "i \<in> {1..<8}" for i
  proof -
    have "getScnHdrString first_object (sh_name (scn_shdr (e_scns first_object ! i))) = Inr (first_names ! (i - 1))"
      using first_names_read [OF that] patch_object_string [OF first_object_ok] by (simp add: first_tables empty_scn_def)
    moreover have "i < length (e_scns first_object)" using that by (simp add: first_object_def)
    ultimately show ?thesis by (simp add: getSectionNameFromIdx_def getscn_def)
  qed
  then have "map (getSectionNameFromIdx first_object) [1..<8] = map (\<lambda>i. Inr (Some (first_names ! (i - 1)))) [1..<8]"
    by simp
  also have "\<dots> = map (\<lambda>s. Inr (Some s)) first_names" by (simp add: first_names_def upt_conv_Cons)
  finally show ?thesis
    using first_object_ok by (simp add: startPatchElf_first) (simp add: first_object_def first_sections_def upt_conv_Cons)
qed


section \<open>Sections asked for later\<close>

lemma find_by_prefix_cases:
  assumes "\<forall>scn \<in> set scns. \<exists>s. c_string strtab (sh_name (scn_shdr scn)) = Inr s" "plain name"
  shows "find_by_prefix strtab name scns i = Inr None \<or>
    (\<exists>j s. j < length scns \<and> find_by_prefix strtab name scns i = Inr (Some (i + j)) \<and>
      c_string strtab (sh_name (scn_shdr (scns ! j))) = Inr s \<and> starts_with name s)"
  using assms(1)
proof (induction scns arbitrary: i)
  case Nil
  then show ?case by simp
next
  case (Cons scn scns)
  then obtain s where s: "c_string strtab (sh_name (scn_shdr scn)) = Inr s" by fastforce
  note starts = name_starts_string [OF assms(2) s]
  show ?case
  proof (cases "starts_with name s")
    case True
    with s starts show ?thesis by (intro disjI2 exI [of _ 0] exI [of _ s]) simp
  next
    case False
    from Cons consider "find_by_prefix strtab name scns (i + 1) = Inr None"
      | j t where "j < length scns" "find_by_prefix strtab name scns (i + 1) = Inr (Some (i + 1 + j))"
        "c_string strtab (sh_name (scn_shdr (scns ! j))) = Inr t" "starts_with name t"
      by (metis list.set_intros(2))
    then show ?thesis
    proof cases
      case 1
      with starts False show ?thesis by simp
    next
      case 2
      with starts False show ?thesis by (intro disjI2 exI [of _ "Suc j"] exI [of _ t]) simp
    qed
  qed
qed

lemma find_section_sym_finds:
  "\<exists>k \<in> set ks. is_section_sym scn (native_sym symtab k) \<Longrightarrow>
   \<exists>k \<in> set ks. find_section_sym symtab scn ks = Some k \<and> is_section_sym scn (native_sym symtab k)"
  by (induction ks) auto

lemma patch_object_find:
  assumes "patch_object e" "plain name"
  shows "find_by_prefix (d_buf (strtab_of e)) name (drop 1 (e_scns e)) 1 = Inr None \<or>
    (\<exists>i s. 1 \<le> i \<and> i < length (e_scns e) \<and> find_by_prefix (d_buf (strtab_of e)) name (drop 1 (e_scns e)) 1 = Inr (Some i) \<and>
      getScnHdrString e (sh_name (scn_shdr (e_scns e ! i))) = Inr s \<and> starts_with name s)"
proof -
  have "\<forall>scn \<in> set (drop 1 (e_scns e)). \<exists>s. c_string (d_buf (strtab_of e)) (sh_name (scn_shdr scn)) = Inr s"
  proof
    fix scn
    assume "scn \<in> set (drop 1 (e_scns e))"
    then obtain j where "j < length (drop 1 (e_scns e))" "scn = drop 1 (e_scns e) ! j" unfolding in_set_conv_nth by blast
    with patch_objectD(10) [OF assms(1), of "Suc j"] show "\<exists>s. c_string (d_buf (strtab_of e)) (sh_name (scn_shdr scn)) = Inr s"
      by (auto simp: named_def)
  qed
  from find_by_prefix_cases [OF this assms(2), where i = 1] show ?thesis
  proof (elim disjE exE conjE)
    fix j s
    assume "j < length (drop 1 (e_scns e))" "find_by_prefix (d_buf (strtab_of e)) name (drop 1 (e_scns e)) 1 = Inr (Some (1 + j))"
      "c_string (d_buf (strtab_of e)) (sh_name (scn_shdr (drop 1 (e_scns e) ! j))) = Inr s" "starts_with name s"
    then show ?thesis
      by (intro disjI2 exI [of _ "Suc j"] exI [of _ s]) (simp add: patch_object_string [OF assms(1)])
  qed simp
qed

text \<open>Both ways to add a section keep the invariant, the headers there are and the names.\<close>

definition extends :: "ElfInfo \<Rightarrow> ElfInfo \<Rightarrow> bool" where
  "extends e e' \<longleftrightarrow> length (e_scns e) \<le> length (e_scns e') \<and>
     (\<forall>j < length (e_scns e). scn_shdr (e_scns e' ! j) = scn_shdr (e_scns e ! j)) \<and>
     (\<forall>j s. getScnHdrString e j = Inr s \<longrightarrow> getScnHdrString e' j = Inr s)"

lemma extends_refl [simp]: "extends e e"
  by (simp add: extends_def)

lemma grown_extends:
  assumes e: "patch_object e" and n: "length (e_scns e) < 65536" and s: "plain name"
  shows "extends e (grown e shdr name)"
    "getScnHdrString (grown e shdr name) (sh_name (scn_shdr (e_scns (grown e shdr name) ! length (e_scns e)))) = Inr name"
  using grown_string [OF e s] grown_sections(3,4) [OF e]
  by (simp_all add: extends_def patch_object_string [OF e] patch_object_string [OF patch_object_grown [OF e n s]])

lemma getScnHdrString_note [simp]: "getScnHdrString (note_section e ers i) j = getScnHdrString e j"
  by (simp add: getScnHdrString_def note_section_def scn_or_def getscn_def)

text \<open>
  C34: Whatever sections libdwarf asks for, a patch object stays one: the call succeeds, all sections and names stay
  as they were, and the two numbers returned are a section whose name starts with the name asked for and a section symbol that refers to it.
  In particular the case that the source calls impossible (an existing section without a symbol) does not occur.
\<close>

theorem dwarf_sections_have_symbols:
  assumes "patch_object e" "length (e_scns e) < 65536" "plain name"
  shows "\<exists>e' k i s. dwarfWriteSectionCallback e name sz type flags link info = Inr (e', k, i) \<and> patch_object e' \<and> extends e e' \<and>
    1 \<le> i \<and> i < length (e_scns e') \<and> is_section_sym i (native_sym (symtab_of e') k) \<and>
    getScnHdrString e' (sh_name (scn_shdr (e_scns e' ! i))) = Inr s \<and> starts_with name s"
proof -
  note D = patch_objectD [OF assms(1)]
  have tabs: "getDataByERS e ERS_SYMTAB = Inr (symtab_of e)" "getDataByERS e ERS_STRTAB = Inr (strtab_of e)"
      "getSectionByERS e ERS_SYMTAB = Inr (symtab_of e)"
    using D by (simp_all add: getDataByERS_def getSectionByERS_def scn_or_def getscn_def symtab_of_def strtab_of_def)
  from patch_object_find [OF assms(1,3)] show ?thesis
  proof (elim disjE exE conjE)
    fix i s
    assume i: "1 \<le> i" "i < length (e_scns e)" and found: "find_by_prefix (d_buf (strtab_of e)) name (drop 1 (e_scns e)) 1 = Inr (Some i)"
      and s: "getScnHdrString e (sh_name (scn_shdr (e_scns e ! i))) = Inr s" "starts_with name s"
    have "\<exists>k \<in> set [0..<d_size (symtab_of e) div 24]. is_section_sym i (native_sym (symtab_of e) k)"
      using D(11) [OF i] by (auto simp: has_symbol_def)
    from find_section_sym_finds [OF this] obtain k where k: "find_section_sym (symtab_of e) i [0..<d_size (symtab_of e) div 24] = Some k"
        "is_section_sym i (native_sym (symtab_of e) k)" by blast
    then have "dwarfWriteSectionCallback e name sz type flags link info = Inr (e, k, i)"
      by (simp add: dwarfWriteSectionCallback_def tabs found [simplified])
    with i s k(2) assms(1) show ?thesis
      by - (rule exI [of _ e], rule exI [of _ k], rule exI [of _ i], rule exI [of _ s], simp)
  next
    assume none: "find_by_prefix (d_buf (strtab_of e)) name (drop 1 (e_scns e)) 1 = Inr None"
    define link' where "link' = (if link = 0 \<and> type = SHT_REL then sectionIndices e ERS_SYMTAB else link)"
    let ?shdr = "null_shdr\<lparr>sh_type := type, sh_flags := flags, sh_size := of_nat sz, sh_entsize := 1, sh_link := link', sh_info := info\<rparr>"
    let ?g = "grown e ?shdr name" and ?n = "length (e_scns e)" and ?k = "length (d_buf (symtab_of e)) div 24"
    let ?note = "\<lambda>e. if name = ''.debug_info'' then note_section e ERS_DEBUG_INFO ?n else e"
    have "dwarfWriteSectionCallback e name sz type flags link info = Inr (?note ?g, ?k, ?n)"
      using none D
      by (simp add: dwarfWriteSectionCallback_def tabs link'_def named_section_is [OF assms(1)] nth_append addSymtabEntry_is
          grown_def Let_def note_section_def symtab_of_def list_update_append)
    moreover define e' where "e' = ?note ?g"
    moreover have same: "e_scns e' = e_scns ?g" "symtab_of e' = symtab_of ?g" "patch_object e' = patch_object ?g"
        "getScnHdrString e' j = getScnHdrString ?g j" "extends e e' = extends e ?g" for j
      by (simp_all add: e'_def symtab_of_def extends_def)
    ultimately show ?thesis
      using new_symbol [OF assms(1,2), where shdr = ?shdr and name = name] grown_extends [OF assms, where shdr = ?shdr]
        patch_object_grown [OF assms, where shdr = ?shdr] D(4)
      by - (rule exI [of _ e'], rule exI [of _ ?k], rule exI [of _ ?n], rule exI [of _ name], simp add: same starts_with_def)
  qed
qed


theorem dwarf_sections_have_symbols_witness:
  "\<exists>e' k i s. dwarfWriteSectionCallback first_object ''.debug_frame'' 100 SHT_PROGBITS 0 0 0 = Inr (e', k, i) \<and> patch_object e' \<and>
    extends first_object e' \<and> 1 \<le> i \<and> i < length (e_scns e') \<and> is_section_sym i (native_sym (symtab_of e') k) \<and>
    getScnHdrString e' (sh_name (scn_shdr (e_scns e' ! i))) = Inr s \<and> starts_with ''.debug_frame'' s"
  by (rule dwarf_sections_have_symbols [OF first_object_ok]) (simp_all add: first_object_def)

text \<open>A name that another section's name starts with does not get a section of its own.\<close>

lemma prefix_takes_section:
  "\<exists>k. dwarfWriteSectionCallback first_object ''.text'' 100 SHT_PROGBITS 4 0 0 = Inr (first_object, k, 5)"
proof -
  note D = patch_objectD [OF first_object_ok]
  have tabs: "getDataByERS first_object ERS_SYMTAB = Inr (symtab_of first_object)"
      "getDataByERS first_object ERS_STRTAB = Inr (strtab_of first_object)"
    using D by (simp_all add: getDataByERS_def scn_or_def getscn_def symtab_of_def strtab_of_def)
  have starts: "name_starts (drop off (d_buf (strtab_of first_object))) ''.text'' = Inr (starts_with ''.text'' t)"
    if "c_string first_strings off = Inr t" for off t
    using name_starts_string [OF _ that, of "''.text''"] by (simp add: first_tables empty_scn_def)
  have "find_by_prefix (d_buf (strtab_of first_object)) ''.text'' (drop (Suc 0) (e_scns first_object)) (Suc 0) = Inr (Some 5)"
    using first_strings_read [THEN starts] by (simp add: first_object_def empty_scn_def starts_with_def)
  moreover have "\<exists>k \<in> set [0..<d_size (symtab_of first_object) div 24]. is_section_sym 5 (native_sym (symtab_of first_object) k)"
    using D(11) [of 5] by (auto simp: has_symbol_def first_object_def)
  from find_section_sym_finds [OF this] obtain k where
    "find_section_sym (symtab_of first_object) 5 [0..<d_size (symtab_of first_object) div 24] = Some k" by blast
  ultimately have "dwarfWriteSectionCallback first_object ''.text'' 100 SHT_PROGBITS 4 0 0 = Inr (first_object, k, 5)"
    by (simp add: dwarfWriteSectionCallback_def tabs)
  then show ?thesis by blast
qed

section \<open>Sections of the original object\<close>

lemma find_section_named:
  assumes "find_section e name scns i = Inr (Some k)"
  shows "i \<le> k \<and> k < i + length scns \<and> getScnHdrString e (sh_name (scn_shdr (scns ! (k - i)))) = Inr name"
  using assms
proof (induction scns arbitrary: i)
  case (Cons scn scns)
  then obtain s where s: "getScnHdrString e (sh_name (scn_shdr scn)) = Inr s" by (auto simp: bindE_eq_Inr)
  show ?case
  proof (cases "name = s")
    case True
    with Cons.prems s show ?thesis by simp
  next
    case False
    with Cons.prems s have "find_section e name scns (i + 1) = Inr (Some k)" by simp
    note IH = Cons.IH [OF this]
    then have "k - i = Suc (k - (i + 1))" by arith
    with IH show ?thesis by simp
  qed
qed simp

lemma find_section_returns:
  "\<forall>scn \<in> set scns. \<exists>s. getScnHdrString e (sh_name (scn_shdr scn)) = Inr s \<Longrightarrow> \<exists>r. find_section e name scns i = Inr r"
  by (induction scns arbitrary: i) fastforce+

text \<open>The section of a patch that stands for a section of the original object has its name (or is the patch's \<^verbatim>\<open>.rodata.new\<close>).\<close>

lemma reindexed_section_named:
  assumes patch: "patch_object patch" "length (e_scns patch) < 65536" "sectionIndices patch ERS_RODATA \<in> {1..<length (e_scns patch)}"
    and name: "getSectionNameFromIdx e scnIdx = Inr (Some name)" "plain name"
  shows "\<exists>patch' i. reindexSectionForPatch e scnIdx patch = Inr (patch', i) \<and> patch_object patch' \<and> extends patch patch' \<and>
    1 \<le> i \<and> i < length (e_scns patch') \<and> has_symbol patch' i \<and>
    (if name = ''.rodata'' then i = sectionIndices patch ERS_RODATA
     else getScnHdrString patch' (sh_name (scn_shdr (e_scns patch' ! i))) = Inr name)"
proof (cases "name = ''.rodata''")
  case True
  with assms patch_objectD(11) [OF patch(1)] show ?thesis
    by (simp add: reindexSectionForPatch_def getSectionByERS_def scn_or_def getscn_def)
next
  case False
  note D = patch_objectD [OF patch(1)]
  have "\<forall>scn \<in> set (drop 1 (e_scns patch)). \<exists>s. getScnHdrString patch (sh_name (scn_shdr scn)) = Inr s"
    using D(10) by (fastforce simp: in_set_conv_nth named_def patch_object_string [OF patch(1)])
  then obtain r where r: "getSectionByName patch name = Inr r"
    using find_section_returns D(1,6) by (fastforce simp: getSectionByName_def)
  show ?thesis
  proof (cases r)
    case (Some k)
    then have "1 \<le> k \<and> k < length (e_scns patch) \<and> getScnHdrString patch (sh_name (scn_shdr (e_scns patch ! k))) = Inr name"
      using find_section_named [of patch name "drop 1 (e_scns patch)" 1 k] r D(1,4,6) by (auto simp: getSectionByName_def)
    with False r Some name patch(1) D(11) show ?thesis by (simp add: reindexSectionForPatch_def)
  next
    case None
    from name obtain scn where scn: "getscn e scnIdx = Some scn" by (auto simp: getSectionNameFromIdx_def split: option.splits)
    let ?shdr = "null_shdr\<lparr>sh_type := sh_type (scn_shdr scn), sh_link := sh_link (scn_shdr scn), sh_info := sh_info (scn_shdr scn),
      sh_addralign := sh_addralign (scn_shdr scn)\<rparr>"
    let ?n = "length (e_scns patch)"
    have "reindexSectionForPatch e scnIdx patch = Inr (grown patch ?shdr name, ?n)"
      using False r None name scn D
      by (simp add: reindexSectionForPatch_def scn_or_def named_section_is [OF patch(1)] getDataByERS_def getscn_def nth_append
          addSymtabEntry_is grown_def Let_def symtab_of_def list_update_append)
    moreover have ok: "patch_object (grown patch ?shdr name)" by (rule patch_object_grown [OF patch(1,2) name(2)])
    moreover have "has_symbol (grown patch ?shdr name) ?n" using patch_objectD(11) [OF ok, of ?n] D(4) by simp
    ultimately show ?thesis using grown_extends [OF patch(1,2) name(2), where shdr = ?shdr] D(4) False by simp
  qed
qed

section \<open>The names of section headers\<close>

text \<open>
  C35: When a section header is rewritten from the header data of a frame section, the new header carries the new name
  (which is added to the table of section names if it differs), all names read before still read the same, and without an explicit offset
  the distance of file offset and address stays.
\<close>

theorem section_header_renamed:
  assumes "has_names e" "plain (shd_name shd)" "getScnHdrString e (sh_name shdr) = Inr old"
  shows "\<exists>e' shdr'. updateShdrFromSectionHeaderData addShdrStrtabEntry e shd off link_info entsize shdr = Inr (e', shdr') \<and>
    has_names e' \<and> getScnHdrString e' (sh_name shdr') = Inr (shd_name shd) \<and>
    (\<forall>j t. getScnHdrString e j = Inr t \<longrightarrow> getScnHdrString e' j = Inr t) \<and>
    sh_addr shdr' = shd_addr shd \<and> sh_type shdr' = shd_type shd \<and> sh_size shdr' = of_nat (shd_size shd) \<and>
    (off = 0 \<longrightarrow> sh_offset shdr' - sh_addr shdr' = sh_offset shdr - sh_addr shdr)"
  by (rule header_table.update_header [OF assms])

definition eh_header :: SectionHeaderData where
  "eh_header = zero_header\<lparr>shd_name := ''.eh_frame'', shd_type := SHT_PROGBITS, shd_addr := 0x400000, shd_size := 64\<rparr>"

theorem section_header_renamed_witness:
  "\<exists>e' shdr'. updateShdrFromSectionHeaderData addShdrStrtabEntry first_object eh_header 0 (0, 0) 0
      (scn_shdr (e_scns first_object ! 5)) = Inr (e', shdr') \<and> has_names e' \<and> getScnHdrString e' (sh_name shdr') = Inr ''.eh_frame''"
proof -
  have "getScnHdrString first_object (sh_name (scn_shdr (e_scns first_object ! 5))) = Inr ''.text.new''"
    using first_names_read [of 5] patch_object_string [OF first_object_ok] by (simp add: first_tables empty_scn_def first_names_def)
  from section_header_renamed [OF patch_object_names [OF first_object_ok] _ this, of eh_header 0 "(0, 0)" 0]
  show ?thesis by (auto simp: eh_header_def)
qed


section \<open>The sizes written last\<close>

definition sized :: "Elf_Scn \<Rightarrow> Elf_Scn" where
  "sized scn = scn\<lparr>scn_shdr := (scn_shdr scn)\<lparr>sh_size := of_nat (d_size scn)\<rparr>\<rparr>"

lemma sized_simps [simp]:
  "d_size (sized scn) = d_size scn" "d_buf (sized scn) = d_buf scn" "sh_name (scn_shdr (sized scn)) = sh_name (scn_shdr scn)"
  by (simp_all add: sized_def)

text \<open>The consecutive allocated sections of which one ends behind the start of the next.\<close>

fun clashes :: "GElf_Shdr list \<Rightarrow> bool" where
  "clashes (a # b # shdrs) \<longleftrightarrow> 1 < overlap a b \<or> clashes (b # shdrs)"
| "clashes _ \<longleftrightarrow> False"

lemma check_layout_clashes:
  "\<forall>shdr \<in> set shdrs \<union> set_option l. \<exists>s. getScnHdrString e (sh_name shdr) = Inr s \<Longrightarrow> (\<forall>a. l = Some a \<longrightarrow> allocated a) \<Longrightarrow>
   check_layout e l shdrs = (if clashes ((case l of None \<Rightarrow> [] | Some a \<Rightarrow> [a]) @ filter allocated shdrs) then Inl Death else Inr ())"
proof (induction shdrs arbitrary: l)
  case Nil
  then show ?case by (cases l) simp_all
next
  case (Cons shdr shdrs)
  from Cons.prems obtain s where s: "getScnHdrString e (sh_name shdr) = Inr s" by auto
  define l' where "l' = (if allocated shdr then Some shdr else l)"
  have "\<forall>shdr \<in> set shdrs \<union> set_option l'. \<exists>s. getScnHdrString e (sh_name shdr) = Inr s" "\<forall>a. l' = Some a \<longrightarrow> allocated a"
    using Cons.prems by (auto simp: l'_def)
  note IH = Cons.IH [OF this]
  show ?case
  proof (cases l)
    case None
    then show ?thesis using IH by (cases "allocated shdr") (simp_all add: l'_def)
  next
    case (Some a)
    moreover from this Cons.prems obtain t where "getScnHdrString e (sh_name a) = Inr t" "allocated a" by auto
    ultimately show ?thesis using IH s by (cases "allocated shdr") (simp_all add: l'_def)
  qed
qed

lemma set_shdr_simps:
  assumes e: "has_names e"
  shows "has_names (set_shdr e i shdr)" "getScnHdrString (set_shdr e i shdr) j = getScnHdrString e j"
proof -
  have nth: "e_scns (set_shdr e i shdr) ! j = (if i = j \<and> j < length (e_scns e) then (e_scns e ! j)\<lparr>scn_shdr := shdr\<rparr> else e_scns e ! j)"
    for j by (cases "i = j", cases "j < length (e_scns e)") (simp_all add: set_shdr_def set_scn_def not_less list_update_beyond)
  have "d_size (e_scns (set_shdr e i shdr) ! j) = d_size (e_scns e ! j)" "d_buf (e_scns (set_shdr e i shdr) ! j) = d_buf (e_scns e ! j)"
    for j by (simp_all add: nth)
  moreover have "length (e_scns (set_shdr e i shdr)) = length (e_scns e)"
    "sectionHdrStrTblIdx (set_shdr e i shdr) = sectionHdrStrTblIdx e" by (simp_all add: set_shdr_def set_scn_def)
  ultimately show "has_names (set_shdr e i shdr)" "getScnHdrString (set_shdr e i shdr) j = getScnHdrString e j"
    using e by (simp_all add: has_names_def getScnHdrString_def scn_or_def getscn_def)
qed

lemma finalize_each_sizes:
  "has_names e \<Longrightarrow> k \<le> length (e_scns e) \<Longrightarrow>
   \<forall>i \<in> {k..<length (e_scns e)}. \<exists>s. getScnHdrString e (sh_name (scn_shdr (e_scns e ! i))) = Inr s \<Longrightarrow>
   finalize_each e [k..<length (e_scns e)] = Inr (e\<lparr>e_scns := take k (e_scns e) @ map sized (drop k (e_scns e))\<rparr>)"
proof (induction "length (e_scns e) - k" arbitrary: e k)
  case 0
  then show ?case by simp
next
  case (Suc n)
  then have k: "k < length (e_scns e)" by simp
  let ?e = "set_shdr e k (scn_shdr (sized (e_scns e ! k)))"
  have scns: "e_scns ?e = (e_scns e)[k := sized (e_scns e ! k)]" "e\<lparr>e_scns := e_scns ?e\<rparr> = ?e"
    by (simp_all add: set_shdr_def set_scn_def sized_def)
  from Suc.prems(3) k obtain s where "getScnHdrString e (sh_name (scn_shdr (e_scns e ! k))) = Inr s" by fastforce
  with Suc.prems(1) k have "finalizeDataSize e k = Inr ?e"
    by (simp add: finalizeDataSize_def scn_or_def getscn_def Let_def set_shdr_simps sized_def)
  moreover have "finalize_each ?e [k + 1..<length (e_scns ?e)] =
      Inr (?e\<lparr>e_scns := take (k + 1) (e_scns ?e) @ map sized (drop (k + 1) (e_scns ?e))\<rparr>)"
  proof (rule Suc.hyps(1))
    show "n = length (e_scns ?e) - (k + 1)" "k + 1 \<le> length (e_scns ?e)" "has_names ?e"
      using Suc.hyps(2) k Suc.prems(1) by (simp_all add: scns set_shdr_simps)
    show "\<forall>i \<in> {k + 1..<length (e_scns ?e)}. \<exists>s. getScnHdrString ?e (sh_name (scn_shdr (e_scns ?e ! i))) = Inr s"
      using Suc.prems by (simp add: scns set_shdr_simps)
  qed
  moreover have "take (k + 1) (e_scns ?e) @ map sized (drop (k + 1) (e_scns ?e)) = take k (e_scns e) @ map sized (drop k (e_scns e))"
    using k by (simp add: scns take_Suc_conv_app_nth Cons_nth_drop_Suc [symmetric])
  moreover have "?e\<lparr>e_scns := tt\<rparr> = e\<lparr>e_scns := tt\<rparr>" for tt by (simp add: set_shdr_def set_scn_def)
  moreover have "[k..<length (e_scns e)] = k # [k + 1..<length (e_scns ?e)]" using k by (simp add: upt_conv_Cons scns)
  ultimately show ?case by simp
qed

lemma finalizeModifiedElf_clashes:
  assumes "has_names e" "\<forall>i \<in> {1..<length (e_scns e)}. \<exists>s. getScnHdrString e (sh_name (scn_shdr (e_scns e ! i))) = Inr s"
  shows "finalizeModifiedElf e = (let scns = take 1 (e_scns e) @ map sized (drop 1 (e_scns e)) in
    if clashes (filter allocated (map scn_shdr (drop 1 scns))) then Inl Death else Inr (e\<lparr>e_scns := scns\<rparr>))"
proof -
  let ?scns = "take 1 (e_scns e) @ map sized (drop 1 (e_scns e))"
  let ?e = "e\<lparr>e_scns := ?scns\<rparr>"
  have len: "1 \<le> length (e_scns e)" using assms(1) by (auto simp: has_names_def)
  have names: "getScnHdrString ?e j = getScnHdrString e j" for j
    using assms(1) by (auto simp: getScnHdrString_def scn_or_def getscn_def has_names_def nth_append)
  have "\<forall>shdr \<in> set (map scn_shdr (drop 1 ?scns)). \<exists>s. getScnHdrString ?e (sh_name shdr) = Inr s"
  proof
    fix shdr
    assume "shdr \<in> set (map scn_shdr (drop 1 ?scns))"
    then obtain i where "i < length (e_scns e) - 1" "shdr = scn_shdr (sized (e_scns e ! Suc i))"
      using len by (auto simp: in_set_conv_nth)
    with assms(2) show "\<exists>s. getScnHdrString ?e (sh_name shdr) = Inr s" unfolding names by simp
  qed
  then have "check_layout ?e None (map scn_shdr (drop 1 ?scns)) =
      (if clashes (filter allocated (map scn_shdr (drop 1 ?scns))) then Inl Death else Inr ())"
    by (subst check_layout_clashes) simp_all
  moreover have "finalize_each e [1..<length (e_scns e)] = Inr ?e" by (rule finalize_each_sizes [OF assms(1) len assms(2)])
  ultimately show ?thesis by (simp add: finalizeModifiedElf_def finalizeDataSizes_def Let_def)
qed

text \<open>
  Sections that lie within a window of 2 gigabytes, and the overlap of one with the next of them in the table, in whole numbers.
\<close>

definition near_sections :: "GElf_Shdr list \<Rightarrow> bool" where
  "near_sections shdrs \<longleftrightarrow> (\<exists>base. \<forall>shdr \<in> set shdrs. base \<le> unat (sh_addr shdr) \<and>
     unat (sh_addr shdr) + unat (sh_size shdr) < base + 2 ^ 31 \<and> unat (sh_addr shdr) + unat (sh_size shdr) < 2 ^ 64)"

fun overlapping :: "GElf_Shdr list \<Rightarrow> bool" where
  "overlapping (a # b # shdrs) \<longleftrightarrow>
     unat (sh_addr b) + 1 < unat (sh_addr a) + unat (sh_size a) \<or> overlapping (b # shdrs)"
| "overlapping _ \<longleftrightarrow> False"

lemma sint_low_half: "sint (ucast (word_of_int d :: 64 word) :: 32 word) = signed_take_bit 31 d"
  by transfer (simp add: signed_take_bit_take_bit)

lemma nat_diff_bounds:
  "- (2 ^ 31) \<le> int m - int n \<longleftrightarrow> n \<le> m + 2 ^ 31" "int m - int n < 2 ^ 31 \<longleftrightarrow> m < n + 2 ^ 31"
  by auto

lemma overlap_near:
  assumes "base \<le> unat (sh_addr a)" "unat (sh_addr a) + unat (sh_size a) < base + 2 ^ 31" "unat (sh_addr a) + unat (sh_size a) < 2 ^ 64"
    "base \<le> unat (sh_addr b)" "unat (sh_addr b) < base + 2 ^ 31"
  shows "overlap a b = int (unat (sh_addr a) + unat (sh_size a)) - int (unat (sh_addr b))"
proof -
  let ?d = "int (unat (sh_addr a) + unat (sh_size a)) - int (unat (sh_addr b))"
  have "sh_addr a + sh_size a - sh_addr b = of_int ?d" by simp
  then have "overlap a b = sint (ucast (of_int ?d :: 64 word) :: 32 word)" by (simp only: overlap_def)
  also have "\<dots> = signed_take_bit 31 ?d"
    by (rule sint_low_half)
  also have "\<dots> = ?d"
  proof (rule signed_take_bit_int_eq_self)
    from assms have "base \<le> unat (sh_addr a) + unat (sh_size a)" by linarith
    with assms(2,4,5) show "- (2 ^ 31) \<le> ?d" "?d < 2 ^ 31" unfolding nat_diff_bounds by auto
  qed
  finally show ?thesis .
qed

lemma clashes_near:
  "near_sections shdrs \<Longrightarrow> clashes shdrs \<longleftrightarrow> overlapping shdrs"
proof (induction shdrs rule: overlapping.induct)
  case (1 a b shdrs)
  from "1.prems" obtain base where near: "base \<le> unat (sh_addr a)" "unat (sh_addr a) + unat (sh_size a) < base + 2 ^ 31"
      "unat (sh_addr a) + unat (sh_size a) < 2 ^ 64" "base \<le> unat (sh_addr b)" "unat (sh_addr b) < base + 2 ^ 31"
    and "near_sections (b # shdrs)" unfolding near_sections_def by fastforce
  moreover have "1 < overlap a b \<longleftrightarrow> unat (sh_addr b) + 1 < unat (sh_addr a) + unat (sh_size a)"
    unfolding overlap_near [OF near] by linarith
  ultimately show ?case using "1.IH" by simp
qed simp_all

text \<open>
  C36: Preparing an object for writing gives every section the size of its data and changes nothing else, unless some
  allocated section then ends more than one byte behind the start of the next allocated section in the section table, in which
  case the program stops.  This is for objects whose section names can be read and whose allocated sections lie within 2 gigabytes, since the code
  computes the overlap in 32 bits; an overlap of one byte passes.
\<close>

theorem modified_elf_sized:
  assumes "has_names e" "\<forall>i \<in> {1..<length (e_scns e)}. \<exists>s. getScnHdrString e (sh_name (scn_shdr (e_scns e ! i))) = Inr s"
    "near_sections (filter allocated (map (scn_shdr \<circ> sized) (drop 1 (e_scns e))))"
  shows "finalizeModifiedElf e = (let scns = take 1 (e_scns e) @ map sized (drop 1 (e_scns e)) in
    if overlapping (filter allocated (map scn_shdr (drop 1 scns))) then Inl Death else Inr (e\<lparr>e_scns := scns\<rparr>))"
proof -
  have "1 \<le> length (e_scns e)" using assms(1) by (auto simp: has_names_def)
  then have "map scn_shdr (drop 1 (take 1 (e_scns e) @ map sized (drop 1 (e_scns e)))) = map (scn_shdr \<circ> sized) (drop 1 (e_scns e))"
    by simp
  with finalizeModifiedElf_clashes [OF assms(1,2)] clashes_near [OF assms(3)] show ?thesis by (simp only: Let_def)
qed

lemma first_object_named:
  "\<forall>i \<in> {1..<length (e_scns first_object)}. \<exists>s. getScnHdrString first_object (sh_name (scn_shdr (e_scns first_object ! i))) = Inr s"
  using patch_objectD(10) [OF first_object_ok] by (simp add: named_def patch_object_string [OF first_object_ok])

lemma first_object_near: "near_sections (filter allocated (map (scn_shdr \<circ> sized) (drop 1 (e_scns first_object))))"
  unfolding near_sections_def
  by (intro exI [of _ 0]) (simp add: first_object_def allocated_def sized_def empty_scn_def append_data_def null_shdr_def)

theorem modified_elf_sized_witness:
  "\<exists>e. finalizeModifiedElf first_object = Inr e \<and> sh_size (scn_shdr (e_scns e ! 3)) = 192"
  unfolding modified_elf_sized [OF patch_object_names [OF first_object_ok] first_object_named first_object_near]
  by (simp add: Let_def first_object_def allocated_def sized_def empty_scn_def append_data_def) (simp add: null_shdr_def first_symbols_def)

text \<open>The overlap is computed in 32 bits: sections more than 2 gigabytes apart are taken to overlap.\<close>

lemma distant_sections_clash:
  "clashes [null_shdr\<lparr>sh_addr := 0x1000, sh_size := 0x1000\<rparr>, null_shdr\<lparr>sh_addr := 0xC0000000\<rparr>]"
  by (simp add: overlap_def null_shdr_def)

section \<open>Writing into data\<close>

lemma modifyScnData_in:
  assumes "full scn" "unat off + length bs < 2 ^ 64"
  shows "\<exists>scn'. modifyScnData scn off bs (length bs) = Inr scn' \<and> full scn' \<and>
    length (d_buf scn') = max (length (d_buf scn)) (unat off + length bs) \<and>
    take (length bs) (drop (unat off) (d_buf scn')) = bs \<and>
    take (unat off) (d_buf scn') = take (unat off) (d_buf scn @ replicate (unat off - length (d_buf scn)) 0) \<and>
    drop (unat off + length bs) (d_buf scn') = drop (unat off + length bs) (d_buf scn)"
proof -
  have len: "unat (of_nat (length bs) :: word_t) = length bs"
    using assms(2) by (simp add: unat_of_nat take_bit_eq_mod)
  then have "unat (off + of_nat (length bs)) = unat off + length bs"
    using assms(2) by (subst unat_add_lem [THEN iffD1]) (simp_all add: len)
  with assms(1) show ?thesis
    by (auto simp: modifyScnData_def extend_data_def Let_def write_bytes_def resize_def max_def)
qed

end
