(* ===== verification/Paths.thy ===== *)
theory Paths
  imports Util Elf_File
begin

text \<open>
  File paths, \<^verbatim>\<open>src/src/util/path.c\<close>.  \<^verbatim>\<open>realpath\<close> and \<^verbatim>\<open>stat\<close> are parameters: the first gives the canonical form of a path
  or fails, the second says whether a path that exists is a directory.
\<close>

section \<open>Joining and splitting\<close>

text \<open>A null pointer is \<open>None\<close>.\<close>

definition joinPaths :: "string option \<Rightarrow> string option \<Rightarrow> string option" where
  "joinPaths path1 path2 =
     (case path1 of
        None \<Rightarrow> path2
      | Some p1 \<Rightarrow>
          (case path2 of
             None \<Rightarrow> Some p1
           | Some p2 \<Rightarrow> Some (p1 @ (if p1 \<noteq> [] \<and> \<not> strEndsWith p1 ''/'' then ''/'' else []) @ p2)))"

text \<open>
  The components from a position on, the first of them being the one the position is in; \<open>prev\<close> is the character
  before, which is the end of a string where it was a separator.
\<close>

fun split_path :: "char \<Rightarrow> string \<Rightarrow> string list" where
  "split_path prev [] = [[]]"
| "split_path prev (c # cs) =
     (if c = CHR ''/'' \<and> prev \<noteq> CHR 0x5C then [] # split_path (CHR 0x00) cs
      else (case split_path c cs of [] \<Rightarrow> [] | w # ws \<Rightarrow> (c # w) # ws))"

definition getPathComponents :: "string \<Rightarrow> string list option" where
  "getPathComponents path =
     (case path of
        [] \<Rightarrow> None
      | c # cs \<Rightarrow> Some (if c = CHR ''/'' then split_path (CHR 0x00) cs else split_path (CHR 0x00) (c # cs)))"

definition isAbsPath :: "string \<Rightarrow> bool" where
  "isAbsPath path \<longleftrightarrow> path \<noteq> [] \<and> hd path = CHR ''/''"

definition absPath :: "(string \<Rightarrow> string option) \<Rightarrow> string \<Rightarrow> string option" where
  "absPath realpath path = (if path = [] then Some [] else realpath path)"

section \<open>Relative paths\<close>

text \<open>The loops run over null-terminated arrays; comparing the null pointer is a fault.\<close>

fun same_count :: "string list \<Rightarrow> string list \<Rightarrow> nat result" where
  "same_count (p # ps) (r # rs) = (if p = r then bindE (same_count ps rs) (\<lambda>n. Inr (n + 1)) else Inr 0)"
| "same_count _ _ = Inl NullDeref"

fun write_components :: "string list \<Rightarrow> string" where
  "write_components [] = []"
| "write_components [p] = p"
| "write_components (p # q # ps) = p @ ''/'' @ write_components (q # ps)"

definition components_or :: "string \<Rightarrow> string list result" where
  "components_or path = (case getPathComponents path of None \<Rightarrow> Inl NullDeref | Some ps \<Rightarrow> Inr ps)"

definition makePathRelativeTo :: "(string \<Rightarrow> string option) \<Rightarrow> string \<Rightarrow> string \<Rightarrow> string option result" where
  "makePathRelativeTo realpath path ref =
     (case (absPath realpath path, absPath realpath ref) of
        (Some path_, Some ref_) \<Rightarrow>
          if ref = [] then Inr (Some path)
          else if path = [] then Inr (Some path)
          else if starts_with ref_ path_ then Inr (Some (drop (length ref_) path_))
          else
            bindE (components_or path) (\<lambda>pathComponents.
            bindE (components_or ref) (\<lambda>refComponents.
            bindE (same_count pathComponents refComponents) (\<lambda>sameCnt.
            let upCnt = length (drop sameCnt refComponents) in
              Inr (Some (concat (replicate upCnt ''../'') @ write_components (drop sameCnt pathComponents))))))
      | _ \<Rightarrow> Inr None)"

section \<open>The directory of a file\<close>

text \<open>\<open>stat\<close> gives whether the path is a directory; where it fails, the code goes on with a mode it has not set (\<open>unset\<close>).\<close>

definition up_to_last_slash :: "string \<Rightarrow> string" where
  "up_to_last_slash path = rev (dropWhile (\<lambda>c. c \<noteq> CHR ''/'') (rev path))"

definition getDirectoryOfPath :: "(string \<Rightarrow> bool option) \<Rightarrow> bool \<Rightarrow> string \<Rightarrow> string" where
  "getDirectoryOfPath stat unset path =
     (if (case stat path of None \<Rightarrow> unset | Some is_dir \<Rightarrow> is_dir) then path else up_to_last_slash path)"

section \<open>Splitting what was written\<close>

text \<open>A component of a normal path.\<close>

definition component :: "string \<Rightarrow> bool" where
  "component p \<longleftrightarrow> CHR ''/'' \<notin> set p \<and> CHR 0x5C \<notin> set p"

lemma split_path_component:
  "component p \<Longrightarrow> split_path prev p = [p]"
  "component p \<Longrightarrow> split_path prev (p @ CHR ''/'' # cs) =
     (if p = [] \<and> prev = CHR 0x5C then split_path prev (CHR ''/'' # cs) else p # split_path (CHR 0x00) cs)"
  by (induction p arbitrary: prev) (auto simp: component_def)

lemma split_write_components:
  "ps \<noteq> [] \<Longrightarrow> list_all component ps \<Longrightarrow> prev \<noteq> CHR 0x5C \<Longrightarrow> split_path prev (write_components ps) = ps"
proof (induction ps arbitrary: prev rule: write_components.induct)
  case (3 p q ps)
  then show ?case using split_path_component(2) [of p prev "write_components (q # ps)"] by simp
qed (simp_all add: split_path_component)

text \<open>Where a relative path leads from a directory.\<close>

fun resolve :: "string list \<Rightarrow> string list \<Rightarrow> string list" where
  "resolve dir [] = dir"
| "resolve dir (p # ps) = (if p = ''..'' then resolve (butlast dir) ps else resolve (dir @ [p]) ps)"

lemma resolve_up: "resolve (dir @ rs) (replicate (length rs) ''..'' @ ps) = resolve dir ps"
proof (induction rs rule: rev_induct)
  case (snoc r rs)
  then show ?case by (simp add: butlast_append flip: append_assoc)
qed simp

lemma resolve_down: "''..'' \<notin> set ps \<Longrightarrow> resolve dir ps = dir @ ps"
  by (induction ps arbitrary: dir) auto

lemma write_up: "qs \<noteq> [] \<Longrightarrow> concat (replicate n ''../'') @ write_components qs = write_components (replicate n ''..'' @ qs)"
proof (induction n)
  case (Suc n)
  then show ?case by (cases "replicate n ''..'' @ qs") auto
qed simp

lemma same_count_common:
  "\<nexists>xs. ps = rs @ xs \<Longrightarrow> \<nexists>xs. rs = ps @ xs \<Longrightarrow>
   \<exists>n. same_count ps rs = Inr n \<and> n < length ps \<and> n < length rs \<and> take n ps = take n rs"
proof (induction ps rs rule: same_count.induct)
  case (1 p ps r rs)
  show ?case
  proof (cases "p = r")
    case True
    with 1 obtain n where "same_count ps rs = Inr n" "n < length ps" "n < length rs" "take n ps = take n rs" by auto
    with True show ?thesis by (intro exI [of _ "n + 1"]) simp
  qed simp
qed auto

definition absolute :: "string list \<Rightarrow> string" where
  "absolute ps = CHR ''/'' # write_components ps"

text \<open>
  C37: Between two absolute paths that \<^verbatim>\<open>realpath\<close> leaves as they are and whose components hold no separator or backslash,
  where neither leads through the other and the text of the reference is not the start of the text of the path, the
  relative path leads from the reference to the path: from the directory the reference names, its components
  (\<^verbatim>\<open>..\<close> going up) arrive at the path.  Where the reference is a start of the text, as in \<^verbatim>\<open>/home/a\<close> and
  \<^verbatim>\<open>/home/ab/x.c\<close>, the result is wrong (\<open>prefix_is_not_below\<close>).
\<close>

theorem relative_path_resolves:
  assumes comps: "list_all component (ps @ rs)" "''..'' \<notin> set ps"
    and apart: "\<nexists>xs. ps = rs @ xs" "\<nexists>xs. rs = ps @ xs" "\<not> starts_with (absolute rs) (absolute ps)"
    and real: "realpath (absolute ps) = Some (absolute ps)" "realpath (absolute rs) = Some (absolute rs)"
  shows "\<exists>q qs. makePathRelativeTo realpath (absolute ps) (absolute rs) = Inr (Some q) \<and>
    getPathComponents q = Some qs \<and> resolve rs qs = ps"
proof -
  have "ps \<noteq> []" "rs \<noteq> []" using apart(1,2) by auto
  then have split: "getPathComponents (absolute ps) = Some ps" "getPathComponents (absolute rs) = Some rs"
    using comps(1) by (simp_all add: getPathComponents_def absolute_def split_write_components)
  obtain n where n: "same_count ps rs = Inr n" "n < length ps" "n < length rs" "take n ps = take n rs"
    using same_count_common [OF apart(1,2)] by blast
  define qs where "qs = replicate (length (drop n rs)) ''..'' @ drop n ps"
  have q: "makePathRelativeTo realpath (absolute ps) (absolute rs) = Inr (Some (write_components qs))"
    using apart(3) real n write_up [of "drop n ps" "length rs - n"]
    by (simp add: makePathRelativeTo_def absPath_def components_or_def split qs_def) (simp add: absolute_def)
  have qs: "qs \<noteq> []" "list_all component qs"
    using comps(1) n(2) by (auto simp: qs_def component_def list_all_iff dest: in_set_dropD)
  have "hd qs = ''..''" "1 < length qs" using n by (auto simp: qs_def Suc_diff_Suc)
  then obtain y ys where "qs = ''..'' # y # ys" by (cases qs; cases "tl qs") auto
  then have "getPathComponents (write_components qs) = Some qs"
    using split_write_components [OF qs, of "CHR 0x00"] by (simp add: getPathComponents_def)
  moreover have "resolve rs qs = ps"
  proof -
    have "resolve (take n rs @ drop n rs) qs = resolve (take n rs) (drop n ps)" unfolding qs_def by (rule resolve_up)
    also have "\<dots> = take n rs @ drop n ps" using comps(2) by (intro resolve_down) (auto dest: in_set_dropD)
    also have "\<dots> = ps" using n(4) by (metis append_take_drop_id)
    finally show ?thesis by simp
  qed
  ultimately show ?thesis using q by blast
qed

theorem relative_path_resolves_witness:
  "\<exists>q qs. makePathRelativeTo Some (absolute [''home'', ''a'', ''x.c'']) (absolute [''home'', ''b'']) = Inr (Some q) \<and>
    getPathComponents q = Some qs \<and> resolve [''home'', ''b''] qs = [''home'', ''a'', ''x.c'']"
  by (rule relative_path_resolves) (simp_all add: component_def absolute_def starts_with_def)

text \<open>A path that extends the name of the reference is taken to lie below it, and what is returned starts with a separator.\<close>

lemma prefix_is_not_below:
  "makePathRelativeTo Some ''/home/ab/x.c'' ''/home/a'' = Inr (Some ''b/x.c'')"
  "makePathRelativeTo Some ''/home/a/x.c'' ''/home/a'' = Inr (Some ''/x.c'')"
  by (simp_all add: makePathRelativeTo_def absPath_def starts_with_def)

text \<open>A path above the reference makes the loop compare the null pointer at the end of an array.\<close>

lemma path_above_reference: "makePathRelativeTo Some ''/home'' ''/home/a'' = Inl NullDeref"
  by (simp add: makePathRelativeTo_def absPath_def starts_with_def components_or_def getPathComponents_def)

text \<open>Joining the directory of a file and its own name gives the path back.\<close>

lemma directory_and_name:
  "stat path = Some False \<Longrightarrow> CHR ''/'' \<in> set path \<Longrightarrow>
   joinPaths (Some (getDirectoryOfPath stat u path)) (Some (rev (takeWhile (\<lambda>c. c \<noteq> CHR ''/'') (rev path)))) = Some path"
proof -
  assume stat: "stat path = Some False" and slash: "CHR ''/'' \<in> set path"
  define dir where "dir = up_to_last_slash path"
  have "dropWhile (\<lambda>c. c \<noteq> CHR ''/'') (rev path) \<noteq> []" using slash by (auto simp: dropWhile_eq_Nil_conv)
  then obtain cs where "dropWhile (\<lambda>c. c \<noteq> CHR ''/'') (rev path) = CHR ''/'' # cs"
    using hd_dropWhile [of "\<lambda>c. c \<noteq> CHR ''/''" "rev path"] by (cases "dropWhile (\<lambda>c. c \<noteq> CHR ''/'') (rev path)") auto
  then have "dir = rev cs @ ''/''" by (simp add: dir_def up_to_last_slash_def)
  then have "strEndsWith dir ''/''" by (simp add: strEndsWith_def)
  moreover have "rev (dropWhile (\<lambda>c. c \<noteq> CHR ''/'') (rev path)) @ rev (takeWhile (\<lambda>c. c \<noteq> CHR ''/'') (rev path)) = path"
    by (metis rev_append rev_rev_ident takeWhile_dropWhile_id)
  ultimately show ?thesis using stat by (simp add: joinPaths_def getDirectoryOfPath_def dir_def up_to_last_slash_def)
qed

end
