(* ===== verification/Link_Map.thy ===== *)
theory Link_Map
  imports Target_Laws Symbols
begin

text \<open>
  \<^verbatim>\<open>src/src/patcher/linkmap.c\<close>: finding the run-time address of a symbol in the process, through the list of loaded
  objects that the dynamic linker keeps there and the hash tables of these objects.  The reader \<^verbatim>\<open>gelf_getdyn\<close> and
  the hash function \<^verbatim>\<open>elf_hash\<close> of libelf are parameters, \<open>junk\<close> is that of Target_Memory.  The lists in the process are
  walked with fuel: a cyclic one is walked without end (\<open>Diverges\<close>).
\<close>

section \<open>Data in the process\<close>

record link_map =
  l_addr :: addr_t
  l_name :: addr_t
  l_ld :: addr_t
  l_next :: addr_t

definition link_map_of :: "byte list \<Rightarrow> link_map" where
  "link_map_of bs = \<lparr>l_addr = le_word (take 8 bs), l_name = le_word (take 8 (drop 8 bs)), l_ld = le_word (take 8 (drop 16 bs)),
     l_next = le_word (take 8 (drop 24 bs))\<rparr>"

abbreviation (input) DT_NULL :: "64 word" where "DT_NULL \<equiv> 0"
abbreviation (input) DT_PLTGOT :: "64 word" where "DT_PLTGOT \<equiv> 3"
abbreviation (input) DT_HASH :: "64 word" where "DT_HASH \<equiv> 4"
abbreviation (input) DT_STRTAB :: "64 word" where "DT_STRTAB \<equiv> 5"
abbreviation (input) DT_SYMTAB :: "64 word" where "DT_SYMTAB \<equiv> 6"

definition dyn_of :: "byte list \<Rightarrow> 64 word \<times> 64 word" where
  "dyn_of bs = (le_word (take 8 bs), le_word (take 8 (drop 8 bs)))"

definition read_mem :: "(nat \<Rightarrow> byte list) \<Rightarrow> Target \<Rightarrow> addr_t \<Rightarrow> nat \<Rightarrow> byte list result" where
  "read_mem junk t addr n = memcpyFromTarget junk t (replicate n 0) addr n"

section \<open>The link map\<close>

fun last_pltgot :: "(Elf_Scn \<Rightarrow> nat \<Rightarrow> (64 word \<times> 64 word) option) \<Rightarrow> Elf_Scn \<Rightarrow> nat list \<Rightarrow> addr_t \<Rightarrow> addr_t result" where
  "last_pltgot getdyn data [] got = Inr got"
| "last_pltgot getdyn data (i # is') got =
     (case getdyn data i of
        None \<Rightarrow> Inl Death
      | Some (d_tag, d_ptr) \<Rightarrow> last_pltgot getdyn data is' (if d_tag = DT_PLTGOT then d_ptr else got))"

definition locateLinkMap ::
  "(Elf_Scn \<Rightarrow> nat \<Rightarrow> (64 word \<times> 64 word) option) \<Rightarrow> (nat \<Rightarrow> byte list) \<Rightarrow> Target \<Rightarrow> ElfInfo \<Rightarrow> addr_t result" where
  "locateLinkMap getdyn junk t e =
     bindE (getDataByERS e ERS_DYNAMIC) (\<lambda>data.
     bindE (last_pltgot getdyn data [0..<d_size data div 16] 0) (\<lambda>gotAddr.
     bindE (read_mem junk t (gotAddr + 8) 8) (\<lambda>bs. Inr (le_word bs))))"

section \<open>A symbol of one object\<close>

text \<open>The name is copied in growing pieces, each tested at the byte behind it.\<close>

function copy_name :: "(nat \<Rightarrow> byte list) \<Rightarrow> Target \<Rightarrow> addr_t \<Rightarrow> byte list \<Rightarrow> nat \<Rightarrow> byte list result" where
  "copy_name junk t name nameBuf maxName =
     bindE (memcpyFromTarget junk t nameBuf name maxName) (\<lambda>nameBuf.
     bindE (elem_at nameBuf maxName) (\<lambda>b.
       if b \<noteq> 0 \<and> maxName + 32 \<le> 256 then copy_name junk t name nameBuf (maxName + 32) else Inr nameBuf))"
  by pat_completeness auto
termination by (relation "measure (\<lambda>(junk, t, name, nameBuf, maxName). 256 - maxName)") auto

declare copy_name.simps [simp del]

record DynTables =
  dt_strtab :: addr_t
  dt_symtab :: addr_t
  dt_hashtable :: addr_t

definition note_dyn :: "64 word \<times> 64 word \<Rightarrow> DynTables \<Rightarrow> DynTables" where
  "note_dyn dyn d =
     (let (d_tag, d_ptr) = dyn in
      if d_tag = DT_HASH then d\<lparr>dt_hashtable := d_ptr\<rparr>
      else if d_tag = DT_STRTAB then d\<lparr>dt_strtab := d_ptr\<rparr>
      else if d_tag = DT_SYMTAB then d\<lparr>dt_symtab := d_ptr\<rparr>
      else d)"

fun scan_dynamic :: "nat \<Rightarrow> (nat \<Rightarrow> byte list) \<Rightarrow> Target \<Rightarrow> addr_t \<Rightarrow> nat \<Rightarrow> DynTables \<Rightarrow> DynTables result" where
  "scan_dynamic 0 junk t ld i d = Inl Diverges"
| "scan_dynamic (Suc fuel) junk t ld i d =
     bindE (read_mem junk t (ld + 16 * of_nat i) 16) (\<lambda>bs.
       if fst (dyn_of bs) = DT_NULL then Inr d else scan_dynamic fuel junk t ld (i + 1) (note_dyn (dyn_of bs) d))"

text \<open>The chain of a bucket; the result is the address of the symbol, or nothing.\<close>

fun search_chain :: "nat \<Rightarrow> (nat \<Rightarrow> byte list) \<Rightarrow> Target \<Rightarrow> addr_t \<Rightarrow> DynTables \<Rightarrow> addr_t \<Rightarrow> uint \<Rightarrow> string \<Rightarrow> uint \<Rightarrow>
  addr_t option result" where
  "search_chain 0 junk t base d chainTab numChains symName symIdx = Inl Diverges"
| "search_chain (Suc fuel) junk t base d chainTab numChains symName symIdx =
     (if symIdx = 0 then Inr None
      else
        bindE (read_mem junk t (dt_symtab d + 24 * ucast symIdx) 24) (\<lambda>bs.
        let sy = sym_of_bytes bs in
        bindE (strnmatchTarget junk t symName (dt_strtab d + ucast (st_name sy))) (\<lambda>same.
        if same then Inr (if st_value sy = 0 \<and> st_shndx sy = 0 then None else Some (base + st_value sy))
        else if numChains < symIdx then Inr None
        else
          bindE (read_mem junk t (chainTab + 4 * ucast symIdx) 4) (\<lambda>bs.
            search_chain fuel junk t base d chainTab numChains symName (le_word bs)))))"

definition locateSymbolInLinkMap ::
  "nat \<Rightarrow> (nat \<Rightarrow> byte list) \<Rightarrow> Target \<Rightarrow> link_map \<Rightarrow> string \<Rightarrow> uint \<Rightarrow> addr_t option result" where
  "locateSymbolInLinkMap fuel junk t lm symName symNameHash =
     bindE (copy_name junk t (l_name lm) (replicate 256 0) 32) (\<lambda>nameBuf.
     if hd (nameBuf[255 := 0]) = 0 then Inr None
     else
       bindE (scan_dynamic fuel junk t (l_ld lm) 0 \<lparr>dt_strtab = 0, dt_symtab = 0, dt_hashtable = 0\<rparr>) (\<lambda>d.
       if dt_symtab d = 0 \<or> dt_strtab d = 0 \<or> dt_hashtable d = 0 then Inr None
       else
         bindE (memcpyFromTargetNoDeath junk t (replicate 4 0) (dt_hashtable d) 4) (\<lambda>r. case r of
           None \<Rightarrow> Inr None
         | Some bs \<Rightarrow>
             let numBuckets = le_word bs :: uint in
             bindE (read_mem junk t (dt_hashtable d + 4) 4) (\<lambda>bs.
             let numChains = le_word bs :: uint;
                 buckets = dt_hashtable d + 8;
                 chainTab = dt_hashtable d + 8 + ucast numBuckets * 4 in
             bindE (guardE (numBuckets \<noteq> 0) DivideByZero) (\<lambda>_.
             bindE (read_mem junk t (buckets + 4 * ucast (symNameHash mod numBuckets)) 4) (\<lambda>bs.
               search_chain fuel junk t (l_addr lm) d chainTab numChains symName (le_word bs)))))))"

section \<open>All objects\<close>

fun search_objects :: "nat \<Rightarrow> nat \<Rightarrow> (nat \<Rightarrow> byte list) \<Rightarrow> Target \<Rightarrow> string \<Rightarrow> uint \<Rightarrow> addr_t \<Rightarrow> addr_t result" where
  "search_objects 0 fuel junk t name hash addr = Inl Diverges"
| "search_objects (Suc n) fuel junk t name hash addr =
     bindE (read_mem junk t addr 40) (\<lambda>bs.
     let lm = link_map_of bs in
     bindE (locateSymbolInLinkMap fuel junk t lm name hash) (\<lambda>r. case r of
       Some a \<Rightarrow> Inr a
     | None \<Rightarrow> if l_next lm = 0 then Inl Death else search_objects n fuel junk t name hash (l_next lm)))"

definition locateRuntimeSymbolInTarget ::
  "(Elf_Scn \<Rightarrow> nat \<Rightarrow> (64 word \<times> 64 word) option) \<Rightarrow> (string \<Rightarrow> uint) \<Rightarrow> nat \<Rightarrow> (nat \<Rightarrow> byte list) \<Rightarrow> Target \<Rightarrow> ElfInfo \<Rightarrow>
   string \<Rightarrow> addr_t result" where
  "locateRuntimeSymbolInTarget getdyn elf_hash fuel junk t e name =
     bindE (locateLinkMap getdyn junk t e) (\<lambda>linkmapAddr. search_objects fuel fuel junk t name (elf_hash name) linkmapAddr)"

end
