(* ===== verification/Link_Map_Properties.thy ===== *)
theory Link_Map_Properties
  imports Link_Map Elf_Writer_Laws
begin

text \<open>
  What the search for run-time symbols finds, stated on the memory of the process: the list of loaded objects, the
  dynamic section, hash table and symbols of each.
\<close>

section \<open>Memory that can be read\<close>

text \<open>A copy reads whole words, so that some memory behind the data has to be there.\<close>

definition mem_gives :: "memory \<Rightarrow> addr_t \<Rightarrow> byte list \<Rightarrow> bool" where
  "mem_gives m a bs \<longleftrightarrow> (\<exists>xs. mem_has m a (bs @ xs) \<and> copy_extent (length bs) \<le> length (bs @ xs))"

lemma mem_gives_copy:
  assumes "mem_gives (tg_mem t) a bs" "length bs = n" "n \<le> length dat" "\<And>j. 4 \<le> length (junk j)"
  shows "memcpyFromTarget junk t dat a n = Inr (bs @ drop n dat)"
  using assms memcpyFromTarget_ok [of t a _ n dat junk] by (auto simp: mem_gives_def)

lemma mem_gives_read:
  assumes "mem_gives (tg_mem t) a bs" "length bs = n" "\<And>j. 4 \<le> length (junk j)"
  shows "read_mem junk t a n = Inr bs"
  using mem_gives_copy [OF assms(1,2) _ assms(3), of "replicate n 0"] by (simp add: read_mem_def)

lemma mem_gives_part:
  "mem_has m a (pre @ bs @ post) \<Longrightarrow> 7 \<le> length post \<Longrightarrow> mem_gives m (a + of_nat (length pre)) bs"
  unfolding mem_gives_def by (intro exI [of _ post]) (auto simp: mem_has_append copy_extent_def)

section \<open>The data of an object\<close>

definition dyn_bytes :: "64 word \<times> 64 word \<Rightarrow> byte list" where
  "dyn_bytes dyn = word_bytes 8 (fst dyn) @ word_bytes 8 (snd dyn)"

lemma dyn_of_bytes [simp]: "dyn_of (dyn_bytes dyn) = dyn" "length (dyn_bytes dyn) = 16"
  by (simp_all add: dyn_of_def dyn_bytes_def)

definition dynamic_at :: "memory \<Rightarrow> addr_t \<Rightarrow> (64 word \<times> 64 word) list \<Rightarrow> bool" where
  "dynamic_at m ld dyns \<longleftrightarrow> (\<forall>i < length dyns. mem_gives m (ld + 16 * of_nat i) (dyn_bytes (dyns ! i))) \<and>
     (\<forall>i < length dyns. fst (dyns ! i) = 0 \<longleftrightarrow> i + 1 = length dyns) \<and> dyns \<noteq> []"

text \<open>The symbols on a chain, with the index that ends it.\<close>

fun chain_at :: "memory \<Rightarrow> addr_t \<Rightarrow> uint \<Rightarrow> uint list \<Rightarrow> bool" where
  "chain_at m tab i [] \<longleftrightarrow> i = 0"
| "chain_at m tab i (x # xs) \<longleftrightarrow> i = x \<and> x \<noteq> 0 \<and>
     (\<exists>next. mem_gives m (tab + 4 * ucast x) (word_bytes 4 (next :: uint)) \<and> chain_at m tab next xs)"

definition symbol_at :: "memory \<Rightarrow> DynTables \<Rightarrow> nat \<Rightarrow> uint \<Rightarrow> GElf_Sym \<times> byte list \<Rightarrow> bool" where
  "symbol_at m d n x sy \<longleftrightarrow> (\<exists>bs. mem_gives m (dt_symtab d + 24 * ucast x) bs \<and> length bs = 24 \<and> sym_of_bytes bs = fst sy) \<and>
     length (snd sy) = n + 1 \<and> mem_gives m (dt_strtab d + ucast (st_name (fst sy))) (snd sy)"

text \<open>A symbol matches whose name starts with the one looked for.\<close>

definition name_matches :: "string \<Rightarrow> GElf_Sym \<times> byte list \<Rightarrow> bool" where
  "name_matches name sy \<longleftrightarrow> take (length name) (snd sy) = map of_char name"

definition defined_value :: "addr_t \<Rightarrow> GElf_Sym \<Rightarrow> addr_t option" where
  "defined_value base sy = (if st_value sy = 0 \<and> st_shndx sy = 0 then None else Some (base + st_value sy))"

definition chain_answer :: "addr_t \<Rightarrow> string \<Rightarrow> (uint \<Rightarrow> GElf_Sym \<times> byte list) \<Rightarrow> uint list \<Rightarrow> addr_t option" where
  "chain_answer base name sy xs =
     (case List.find (\<lambda>x. name_matches name (sy x)) xs of None \<Rightarrow> None | Some x \<Rightarrow> defined_value base (fst (sy x)))"

lemma strnmatchTarget_gives:
  assumes "mem_gives (tg_mem t) a bs" "length bs = length str + 1" "\<And>j. 4 \<le> length (junk j)" "CHR 0x00 \<notin> set str"
  shows "strnmatchTarget junk t str a = Inr (take (length str) bs = map of_char str)"
proof -
  have "memcpyFromTarget junk t (replicate (length str + 1) 0) a (length str + 1) = Inr bs"
    using mem_gives_copy [OF assms(1,2) _ assms(3)] by simp
  moreover have "bs[length str := 0] = take (length str) bs @ [0]"
    using assms(2) by (simp add: upd_conv_take_nth_drop)
  moreover have "takeWhile (\<lambda>b. b \<noteq> 0) (take (length str) bs @ [0]) = map of_char str \<longleftrightarrow> take (length str) bs = map of_char str"
    (is "?w = ?s \<longleftrightarrow> ?b = ?s")
  proof
    assume eq: "?b = ?s"
    have "\<forall>b \<in> set ?s. b \<noteq> 0" unfolding set_map ball_simps of_char_eq_0 using assms(4) by blast
    then have w: "takeWhile (\<lambda>b. b \<noteq> 0) (?s @ [0]) = ?s" by - (subst takeWhile_append2, blast, simp)
    show "?w = ?s" unfolding eq by (rule w)
  next
    assume w: "?w = ?s"
    have "?w = takeWhile (\<lambda>b. b \<noteq> 0) ?b" by (simp add: takeWhile_tail)
    with w have "length (takeWhile (\<lambda>b. b \<noteq> 0) ?b) = length ?b" using assms(2) by simp
    then show "?b = ?s" using w \<open>?w = takeWhile _ ?b\<close> by (metis takeWhile_eq_take take_all order_refl)
  qed
  ultimately show ?thesis using assms(2) by (simp add: strnmatchTarget_def Let_def)
qed

section \<open>Searching one object\<close>

lemma search_chain_first:
  assumes "chain_at (tg_mem t) tab i xs" "\<forall>x \<in> set xs. x \<le> numChains \<and> symbol_at (tg_mem t) d (length name) x (sy x)"
    and "length xs < fuel" "\<And>j. 4 \<le> length (junk j)" "CHR 0x00 \<notin> set name"
  shows "search_chain fuel junk t base d tab numChains name i = Inr (chain_answer base name sy xs)"
  using assms(1-3)
proof (induction xs arbitrary: i fuel)
  case Nil
  then show ?case by (cases fuel) (simp_all add: chain_answer_def)
next
  case (Cons x xs)
  then obtain f where fuel: "fuel = Suc f" "length xs < f" by (cases fuel) auto
  from Cons.prems(1) obtain nxt where i: "i = x" "x \<noteq> 0" and nxt: "mem_gives (tg_mem t) (tab + 4 * ucast x) (word_bytes 4 (nxt :: uint))"
    "chain_at (tg_mem t) tab nxt xs" by auto
  from Cons.prems(2) obtain bs where x: "x \<le> numChains" and sym: "mem_gives (tg_mem t) (dt_symtab d + 24 * ucast x) bs" "length bs = 24"
      "sym_of_bytes bs = fst (sy x)" and nm: "length (snd (sy x)) = length name + 1"
      "mem_gives (tg_mem t) (dt_strtab d + ucast (st_name (fst (sy x)))) (snd (sy x))"
    by (auto simp: symbol_at_def)
  have "read_mem junk t (dt_symtab d + 24 * ucast x) 24 = Inr bs" by (rule mem_gives_read [OF sym(1,2) assms(4)])
  moreover have "strnmatchTarget junk t name (dt_strtab d + ucast (st_name (fst (sy x)))) = Inr (name_matches name (sy x))"
    unfolding name_matches_def by (rule strnmatchTarget_gives [OF nm(2,1) assms(4,5)])
  moreover have "read_mem junk t (tab + 4 * ucast x) 4 = Inr (word_bytes 4 nxt)"
    by (rule mem_gives_read [OF nxt(1) _ assms(4)]) simp
  moreover have "search_chain f junk t base d tab numChains name nxt = Inr (chain_answer base name sy xs)"
    by (rule Cons.IH [OF nxt(2)]) (use Cons.prems(2) fuel(2) in auto)
  moreover have "\<not> numChains < x" using x by simp
  ultimately show ?case
    using i by (simp add: fuel sym(3) chain_answer_def defined_value_def Let_def)
qed

lemma scan_dynamic_all:
  assumes dyn: "dynamic_at (tg_mem t) ld dyns" and i: "i < length dyns" "length dyns - i \<le> fuel" "\<And>j. 4 \<le> length (junk j)"
  shows "scan_dynamic fuel junk t ld i d = Inr (fold note_dyn (drop i (butlast dyns)) d)"
  using i(1,2)
proof (induction fuel arbitrary: i d)
  case (Suc fuel)
  have "mem_gives (tg_mem t) (ld + 16 * of_nat i) (dyn_bytes (dyns ! i))" using dyn Suc.prems(1) by (simp add: dynamic_at_def)
  from mem_gives_read [OF this _ i(3)] have rd: "read_mem junk t (ld + 16 * of_nat i) 16 = Inr (dyn_bytes (dyns ! i))" by simp
  have last: "fst (dyns ! i) = 0 \<longleftrightarrow> i + 1 = length dyns" using dyn Suc.prems(1) by (simp add: dynamic_at_def)
  show ?case
  proof (cases "i + 1 = length dyns")
    case True
    moreover from this have "drop i (butlast dyns) = []" by simp
    ultimately show ?thesis using rd last by (simp del: drop_butlast butlast_conv_take)
  next
    case False
    with Suc.prems have j: "i + 1 < length dyns" "length dyns - (i + 1) \<le> fuel" by auto
    have "drop i (butlast dyns) = dyns ! i # drop (i + 1) (butlast dyns)"
      using j(1) by (simp add: Cons_nth_drop_Suc [symmetric] nth_butlast)
    with rd last False Suc.IH [OF j] show ?thesis by simp
  qed
qed simp

text \<open>All that the search reads of an object, and what it is to find there.\<close>

definition no_tables :: DynTables where "no_tables = \<lparr>dt_strtab = 0, dt_symtab = 0, dt_hashtable = 0\<rparr>"

definition searched_object :: "memory \<Rightarrow> nat \<Rightarrow> string \<Rightarrow> uint \<Rightarrow> link_map \<Rightarrow> addr_t option \<Rightarrow> bool" where
  "searched_object m fuel name hash lm r \<longleftrightarrow> (\<exists>nm dyns nb nc first xs sy.
     let d = fold note_dyn (butlast dyns) no_tables; tab = dt_hashtable d in
     mem_gives m (l_name lm) nm \<and> length nm = 32 \<and> hd nm \<noteq> 0 \<and>
     dynamic_at m (l_ld lm) dyns \<and> length dyns \<le> fuel \<and> dt_symtab d \<noteq> 0 \<and> dt_strtab d \<noteq> 0 \<and> tab \<noteq> 0 \<and>
     mem_gives m tab (word_bytes 4 (nb :: uint)) \<and> mem_gives m (tab + 4) (word_bytes 4 (nc :: uint)) \<and> nb \<noteq> 0 \<and>
     mem_gives m (tab + 8 + 4 * ucast (hash mod nb)) (word_bytes 4 (first :: uint)) \<and>
     chain_at m (tab + 8 + ucast nb * 4) first xs \<and> length xs < fuel \<and>
     (\<forall>x \<in> set xs. x \<le> nc \<and> symbol_at m d (length name) x (sy x)) \<and> r = chain_answer (l_addr lm) name sy xs)"

lemma copy_name_short:
  assumes "mem_gives (tg_mem t) a nm" "length nm = 32" "\<And>j. 4 \<le> length (junk j)"
  shows "copy_name junk t a (replicate 256 0) 32 = Inr (nm @ replicate 224 0)"
    and "hd ((nm @ replicate 224 0)[255 := 0]) = hd nm"
proof -
  have "memcpyFromTarget junk t (replicate 256 0) a 32 = Inr (nm @ replicate 224 0)"
    using mem_gives_copy [OF assms(1,2) _ assms(3), of "replicate 256 0"] by simp
  then show "copy_name junk t a (replicate 256 0) 32 = Inr (nm @ replicate 224 0)"
    using assms(2) by (subst copy_name.simps) (simp add: nth_append)
  show "hd ((nm @ replicate 224 0)[255 := 0]) = hd nm" using assms(2) by (cases nm) (simp_all add: list_update_append)
qed

lemma scan_dynamic_tables:
  assumes "dynamic_at (tg_mem t) ld dyns" "length dyns \<le> fuel" "\<And>j. 4 \<le> length (junk j)"
  shows "scan_dynamic fuel junk t ld 0 no_tables = Inr (fold note_dyn (butlast dyns) no_tables)"
proof -
  have "dyns \<noteq> []" using assms(1) by (simp add: dynamic_at_def)
  then show ?thesis
    using scan_dynamic_all [OF assms(1) _ _ assms(3), where i = 0 and fuel = fuel and d = no_tables] assms(2) by simp
qed

lemma locateSymbolInLinkMap_searches:
  assumes ob: "searched_object (tg_mem t) fuel name hash lm r" and junk: "\<And>j. 4 \<le> length (junk j)" and name: "CHR 0x00 \<notin> set name"
  shows "locateSymbolInLinkMap fuel junk t lm name hash = Inr r"
proof -
  from ob obtain nm dyns nb nc first xs sy d where d: "d = fold note_dyn (butlast dyns) no_tables"
    and nm: "mem_gives (tg_mem t) (l_name lm) nm" "length nm = 32" "hd nm \<noteq> 0"
    and dyns: "dynamic_at (tg_mem t) (l_ld lm) dyns" "length dyns \<le> fuel" "dt_symtab d \<noteq> 0" "dt_strtab d \<noteq> 0" "dt_hashtable d \<noteq> 0"
    and hash: "mem_gives (tg_mem t) (dt_hashtable d) (word_bytes 4 (nb :: uint))"
      "mem_gives (tg_mem t) (dt_hashtable d + 4) (word_bytes 4 (nc :: uint))" "nb \<noteq> 0"
      "mem_gives (tg_mem t) (dt_hashtable d + 8 + 4 * ucast (hash mod nb)) (word_bytes 4 (first :: uint))"
    and chain: "chain_at (tg_mem t) (dt_hashtable d + 8 + ucast nb * 4) first xs" "length xs < fuel"
      "\<forall>x \<in> set xs. x \<le> nc \<and> symbol_at (tg_mem t) d (length name) x (sy x)" and r: "r = chain_answer (l_addr lm) name sy xs"
    unfolding searched_object_def Let_def by blast
  note copy = copy_name_short [OF nm(1,2) junk]
  have scan: "scan_dynamic fuel junk t (l_ld lm) 0 no_tables = Inr d"
    unfolding d by (rule scan_dynamic_tables [OF dyns(1,2) junk])
  have "memcpyFromTarget junk t (replicate 4 0) (dt_hashtable d) 4 = Inr (word_bytes 4 nb)"
    using mem_gives_copy [OF hash(1) _ _ junk, of 4 "replicate 4 0"] by simp
  then have first_read: "memcpyFromTargetNoDeath junk t (replicate 4 0) (dt_hashtable d) 4 = Inr (Some (word_bytes 4 nb))"
    by (auto simp: memcpyFromTarget_def bindE_eq_Inr split: option.splits)
  have reads: "read_mem junk t (dt_hashtable d + 4) 4 = Inr (word_bytes 4 nc)"
      "read_mem junk t (dt_hashtable d + 8 + 4 * ucast (hash mod nb)) 4 = Inr (word_bytes 4 first)"
    by (rule mem_gives_read [OF hash(2) _ junk], simp, rule mem_gives_read [OF hash(4) _ junk], simp)
  have "search_chain fuel junk t (l_addr lm) d (dt_hashtable d + 8 + ucast nb * 4) nc name first = Inr r"
    unfolding r by (rule search_chain_first [OF chain(1,3,2) junk name])
  then show ?thesis
    using nm(3) dyns(3-5) hash(3)
    by (simp add: locateSymbolInLinkMap_def copy scan [unfolded no_tables_def] first_read reads Let_def)
qed

text \<open>
  An object that is passed over: one without a name, as the main program is under glibc, or without one of the three
  tables, such as one with only \<^verbatim>\<open>DT_GNU_HASH\<close>, or whose hash table cannot be read.
\<close>

definition skipped_object :: "memory \<Rightarrow> nat \<Rightarrow> link_map \<Rightarrow> bool" where
  "skipped_object m fuel lm \<longleftrightarrow> (\<exists>nm. mem_gives m (l_name lm) nm \<and> length nm = 32 \<and>
     (hd nm = 0 \<or>
      (\<exists>dyns. let d = fold note_dyn (butlast dyns) no_tables in
         dynamic_at m (l_ld lm) dyns \<and> length dyns \<le> fuel \<and>
         (dt_symtab d = 0 \<or> dt_strtab d = 0 \<or> dt_hashtable d = 0 \<or> mem_read m (dt_hashtable d) 8 = None))))"

lemma locateSymbolInLinkMap_skips:
  assumes ob: "skipped_object (tg_mem t) fuel lm" and junk: "\<And>j. 4 \<le> length (junk j)"
  shows "locateSymbolInLinkMap fuel junk t lm name hash = Inr None"
proof -
  from ob obtain nm where nm: "mem_gives (tg_mem t) (l_name lm) nm" "length nm = 32"
    and why: "hd nm = 0 \<or>
      (\<exists>dyns. let d = fold note_dyn (butlast dyns) no_tables in
         dynamic_at (tg_mem t) (l_ld lm) dyns \<and> length dyns \<le> fuel \<and>
         (dt_symtab d = 0 \<or> dt_strtab d = 0 \<or> dt_hashtable d = 0 \<or> mem_read (tg_mem t) (dt_hashtable d) 8 = None))"
    unfolding skipped_object_def by blast
  note copy = copy_name_short [OF nm junk]
  show ?thesis
  proof (cases "hd nm = 0")
    case True
    then show ?thesis by (simp add: locateSymbolInLinkMap_def copy)
  next
    case False
    with why obtain dyns d where d: "d = fold note_dyn (butlast dyns) no_tables" "dynamic_at (tg_mem t) (l_ld lm) dyns"
        "length dyns \<le> fuel"
        "dt_symtab d = 0 \<or> dt_strtab d = 0 \<or> dt_hashtable d = 0 \<or> mem_read (tg_mem t) (dt_hashtable d) 8 = None"
      unfolding Let_def by blast
    have scan: "scan_dynamic fuel junk t (l_ld lm) 0 no_tables = Inr d"
      unfolding d(1) by (rule scan_dynamic_tables [OF d(2,3) junk])
    have "memcpyFromTargetNoDeath junk t (replicate 4 0) (dt_hashtable d) 4 = Inr None"
      if "mem_read (tg_mem t) (dt_hashtable d) 8 = None"
      using that by (simp add: memcpyFromTargetNoDeath_def from_target_loop.simps ptrace_peek_def)
    with d(4) False show ?thesis
      by (auto simp: locateSymbolInLinkMap_def copy scan [unfolded no_tables_def])
  qed
qed

text \<open>An object in memory with its answer.\<close>

definition object_at :: "memory \<Rightarrow> nat \<Rightarrow> string \<Rightarrow> uint \<Rightarrow> link_map \<Rightarrow> addr_t option \<Rightarrow> bool" where
  "object_at m fuel name hash lm r \<longleftrightarrow> searched_object m fuel name hash lm r \<or> skipped_object m fuel lm \<and> r = None"

lemma locateSymbolInLinkMap_finds:
  "object_at (tg_mem t) fuel name hash lm r \<Longrightarrow> (\<And>j. 4 \<le> length (junk j)) \<Longrightarrow> CHR 0x00 \<notin> set name \<Longrightarrow>
   locateSymbolInLinkMap fuel junk t lm name hash = Inr r"
  unfolding object_at_def using locateSymbolInLinkMap_searches locateSymbolInLinkMap_skips by blast

section \<open>Searching all objects\<close>

text \<open>The list of objects in memory, from its head up to some object.\<close>

fun objects_at :: "memory \<Rightarrow> addr_t \<Rightarrow> link_map list \<Rightarrow> bool" where
  "objects_at m a [] \<longleftrightarrow> False"
| "objects_at m a (lm # lms) \<longleftrightarrow> (\<exists>bs. mem_gives m a bs \<and> length bs = 40 \<and> link_map_of bs = lm) \<and>
     (lms \<noteq> [] \<longrightarrow> l_next lm \<noteq> 0 \<and> objects_at m (l_next lm) lms)"

definition first_answer :: "addr_t option list \<Rightarrow> addr_t result" where
  "first_answer rs = (case List.find (\<lambda>r. r \<noteq> None) rs of Some (Some a) \<Rightarrow> Inr a | _ \<Rightarrow> Inl Death)"

lemma search_objects_first:
  assumes "objects_at (tg_mem t) a lms" "\<forall>lm \<in> set lms. locateSymbolInLinkMap fuel junk t lm name hash = Inr (r lm)"
    and "length lms \<le> n" "l_next (last lms) = 0 \<or> r (last lms) \<noteq> None" and junk: "\<And>j. 4 \<le> length (junk j)"
  shows "search_objects n fuel junk t name hash a = first_answer (map r lms)"
  using assms(1-4)
proof (induction lms arbitrary: a n)
  case (Cons lm lms)
  then obtain k where n: "n = Suc k" "length lms \<le> k" by (cases n) auto
  from Cons.prems(1) obtain bs where "mem_gives (tg_mem t) a bs" "length bs = 40" and lm: "link_map_of bs = lm" by auto
  then have "read_mem junk t a 40 = Inr bs" by (intro mem_gives_read junk)
  moreover have "lms \<noteq> [] \<Longrightarrow> search_objects k fuel junk t name hash (l_next lm) = first_answer (map r lms)"
    using Cons n by auto
  moreover have "lms \<noteq> [] \<Longrightarrow> l_next lm \<noteq> 0" using Cons.prems(1) by auto
  moreover have "lms = [] \<Longrightarrow> l_next lm = 0 \<or> r lm \<noteq> None" using Cons.prems(4) by simp
  ultimately show ?case
    using Cons.prems(2) by (cases "r lm"; cases "lms = []") (simp_all add: n lm Let_def first_answer_def)
qed simp

text \<open>
  C38: The run-time address of a symbol is the one the first loaded object gives that has an answer.  An object answers with the
  first symbol on the chain of the name's bucket in its hash table whose name starts with the name looked for, moved by the
  load address of the object; it has no answer if there is none, if it only imports the symbol, or if it is passed over: an object without a name
  (the main program under glibc), without the tables the search needs, or with a hash table that cannot be read.  If no
  object answers, the program stops.  The search ends, with fuel for the lists there are.  The objects are described
  up to the end of the list or up to one that answers: their list is not cyclic up to there, the data the search reads is
  mapped (with a few bytes behind it, as the copy reads whole words), names of objects are read from 32 mapped bytes,
  a chain has no symbol index above the number of chains, and the number of buckets is not 0.
\<close>

theorem runtime_symbol_found:
  assumes dynamic: "getDataByERS e ERS_DYNAMIC = Inr data" "last_pltgot getdyn data [0..<d_size data div 16] 0 = Inr got"
    and list: "mem_gives (tg_mem t) (got + 8) (word_bytes 8 a)" "objects_at (tg_mem t) a lms" "length lms \<le> fuel"
      "l_next (last lms) = 0 \<or> r (last lms) \<noteq> None"
    and objects: "\<forall>lm \<in> set lms. object_at (tg_mem t) fuel name (elf_hash name) lm (r lm)"
    and "CHR 0x00 \<notin> set name" "\<forall>j. 4 \<le> length (junk j)"
  shows "locateRuntimeSymbolInTarget getdyn elf_hash fuel junk t e name = first_answer (map r lms)"
proof -
  have junk: "\<And>j. 4 \<le> length (junk j)" using assms(9) by blast
  have "read_mem junk t (got + 8) 8 = Inr (word_bytes 8 a)" by (rule mem_gives_read [OF list(1) _ junk]) simp
  then have "locateLinkMap getdyn junk t e = Inr a" by (simp add: locateLinkMap_def dynamic)
  moreover have "\<forall>lm \<in> set lms. locateSymbolInLinkMap fuel junk t lm name (elf_hash name) = Inr (r lm)"
    using locateSymbolInLinkMap_finds [where junk = junk, OF _ junk assms(8)] objects by blast
  from search_objects_first [OF list(2) this list(3,4) junk]
  have "search_objects fuel fuel junk t name (elf_hash name) a = first_answer (map r lms)" .
  ultimately show ?thesis by (simp add: locateRuntimeSymbolInTarget_def)
qed

section \<open>A process with a program and a library\<close>

text \<open>The main program heads the list; its name is empty.\<close>

definition lib_sym :: GElf_Sym where
  "lib_sym = \<lparr>st_name = 1, st_info = 0, st_other = 0, st_shndx = 5, st_value = 0x40, st_size = 8\<rparr>"

definition lib_dyns :: "(64 word \<times> 64 word) list" where
  "lib_dyns = [(4, 0x1098), (6, 0x10AC), (5, 0x10DC), (0, 0)]"

definition lib_image :: "byte list" where
  "lib_image = word_bytes 8 (0 :: addr_t) @ word_bytes 8 (0x10E1 :: addr_t) @
     (word_bytes 8 (0x400000 :: addr_t) @ word_bytes 8 (0x1038 :: addr_t) @ word_bytes 8 (0x1058 :: addr_t) @
     word_bytes 8 (0 :: addr_t) @ word_bytes 8 (0 :: addr_t)) @
     (108 # replicate 31 0) @
     dyn_bytes (4, 0x1098) @ dyn_bytes (6, 0x10AC) @ dyn_bytes (5, 0x10DC) @ dyn_bytes (0, 0) @
     word_bytes 4 (1 :: uint) @ word_bytes 4 (2 :: uint) @ word_bytes 4 (1 :: uint) @ word_bytes 4 (0 :: uint) @ word_bytes 4 (0 :: uint) @
     sym_bytes zero_sym @ sym_bytes lib_sym @
     [0, 102, 111, 111, 0] @
     (word_bytes 8 (0 :: addr_t) @ word_bytes 8 (0x1039 :: addr_t) @ word_bytes 8 (0 :: addr_t) @
     word_bytes 8 (0x1010 :: addr_t) @ word_bytes 8 (0 :: addr_t)) @ replicate 16 0"

definition lib_map :: link_map where
  "lib_map = \<lparr>l_addr = 0x400000, l_name = 0x1038, l_ld = 0x1058, l_next = 0\<rparr>"

definition program_map :: link_map where
  "program_map = \<lparr>l_addr = 0, l_name = 0x1039, l_ld = 0, l_next = 0x1010\<rparr>"

definition lib_process :: Target where
  "lib_process = \<lparr>tg_mem = mem_write (\<lambda>_. None) 0x1000 lib_image, tg_regs = \<lparr>reg_rip = 0, reg_rsp = 0, reg_rax = 0, reg_rbx = 0,
     reg_rcx = 0, reg_rdx = 0, reg_rbp = 0, reg_rsi = 0, reg_rdi = 0, reg_r8 = 0, reg_r9 = 0, reg_r10 = 0\<rparr>, check_writes = False,
     mallocAddress = 0, targetTextStart = 0, breakpointRestoreInfo = None\<rparr>"

lemma lib_gives:
  assumes "take n (drop off lib_image) = bs" "length bs = n" "off + n + 7 \<le> 281" "x = 0x1000 + of_nat off"
  shows "mem_gives (tg_mem lib_process) x bs"
proof -
  have len: "length lib_image = 281" by (simp add: lib_image_def)
  have "lib_image = take off lib_image @ bs @ drop (off + n) lib_image"
    using assms(1) by (metis append_take_drop_id drop_drop add.commute)
  moreover have "mem_has (tg_mem lib_process) 0x1000 lib_image"
    unfolding lib_process_def using mem_write_has [of lib_image] len by simp
  ultimately have "mem_has (tg_mem lib_process) 0x1000 (take off lib_image @ bs @ drop (off + n) lib_image)" by simp
  from mem_gives_part [OF this] show ?thesis using assms(3,4) len by simp
qed

lemma lib_parts:
  "mem_gives (tg_mem lib_process) 0x1008 (word_bytes 8 (0x10E1 :: addr_t))"
  "mem_gives (tg_mem lib_process) 0x1010 (word_bytes 8 (0x400000 :: addr_t) @ word_bytes 8 (0x1038 :: addr_t) @ word_bytes 8 (0x1058 :: addr_t) @
     word_bytes 8 (0 :: addr_t) @ word_bytes 8 (0 :: addr_t))"
  "mem_gives (tg_mem lib_process) 0x1038 (108 # replicate 31 0)"
  "mem_gives (tg_mem lib_process) 0x1058 (dyn_bytes (4, 0x1098))" "mem_gives (tg_mem lib_process) 0x1068 (dyn_bytes (6, 0x10AC))"
  "mem_gives (tg_mem lib_process) 0x1078 (dyn_bytes (5, 0x10DC))" "mem_gives (tg_mem lib_process) 0x1088 (dyn_bytes (0, 0))"
  "mem_gives (tg_mem lib_process) 0x1098 (word_bytes 4 (1 :: uint))" "mem_gives (tg_mem lib_process) 0x109C (word_bytes 4 (2 :: uint))"
  "mem_gives (tg_mem lib_process) 0x10A0 (word_bytes 4 (1 :: uint))" "mem_gives (tg_mem lib_process) 0x10A8 (word_bytes 4 (0 :: uint))"
  "mem_gives (tg_mem lib_process) 0x10C4 (sym_bytes lib_sym)" "mem_gives (tg_mem lib_process) 0x10DD [102, 111, 111, 0]"
  "mem_gives (tg_mem lib_process) 0x1039 (replicate 31 0 @ take 1 (dyn_bytes (4, 0x1098)))"
  "mem_gives (tg_mem lib_process) 0x10E1 (word_bytes 8 (0 :: addr_t) @ word_bytes 8 (0x1039 :: addr_t) @ word_bytes 8 (0 :: addr_t) @
     word_bytes 8 (0x1010 :: addr_t) @ word_bytes 8 (0 :: addr_t))"
  by (rule lib_gives [of 8 8] lib_gives [of 40 16] lib_gives [of 32 56] lib_gives [of 16 88] lib_gives [of 16 104] lib_gives [of 16 120]
      lib_gives [of 16 136] lib_gives [of 4 152] lib_gives [of 4 156] lib_gives [of 4 160] lib_gives [of 4 168] lib_gives [of 24 196]
      lib_gives [of 4 221] lib_gives [of 32 57] lib_gives [of 40 225]; simp add: lib_image_def; fail)+

lemma lib_tables: "fold note_dyn (butlast lib_dyns) no_tables = \<lparr>dt_strtab = 0x10DC, dt_symtab = 0x10AC, dt_hashtable = 0x1098\<rparr>"
  by (simp add: lib_dyns_def note_dyn_def no_tables_def)

lemma lib_dynamic: "dynamic_at (tg_mem lib_process) 0x1058 lib_dyns"
  unfolding dynamic_at_def lib_dyns_def using lib_parts(4-7) by (simp add: All_less_Suc)

lemma lib_object: "searched_object (tg_mem lib_process) 4 ''foo'' 7 lib_map (Some 0x400040)"
proof -
  let ?sy = "\<lambda>_ :: uint. (lib_sym, [102, 111, 111, 0] :: byte list)"
  have "symbol_at (tg_mem lib_process) (fold note_dyn (butlast lib_dyns) no_tables) (length ''foo'') 1 (lib_sym, [102, 111, 111, 0])"
    unfolding symbol_at_def lib_tables using lib_parts(12,13) length_sym_bytes [of lib_sym] sym_of_sym_bytes [of lib_sym]
    by (auto simp: lib_sym_def)
  moreover have "chain_answer 0x400000 ''foo'' ?sy [1] = Some 0x400040"
    by (simp add: chain_answer_def name_matches_def defined_value_def lib_sym_def)
  moreover have "chain_at (tg_mem lib_process) 0x10A4 1 [1]"
    using lib_parts(11) by auto
  ultimately show ?thesis
    unfolding searched_object_def Let_def
    by - (rule exI [of _ "108 # replicate 31 0"], rule exI [of _ lib_dyns], rule exI [of _ 1], rule exI [of _ 2], rule exI [of _ 1],
      rule exI [of _ "[1]"], rule exI [of _ ?sy], simp add: lib_tables lib_map_def lib_parts lib_dynamic, simp add: lib_dyns_def)
qed

lemma program_object: "skipped_object (tg_mem lib_process) 4 program_map"
  unfolding skipped_object_def using lib_parts(14) by (intro exI [of _ "replicate 31 0 @ take 1 (dyn_bytes (4, 0x1098))"]) (simp add: program_map_def)

definition lib_elf :: ElfInfo where
  "lib_elf = \<lparr>e_scns = [\<lparr>scn_shdr = null_shdr, d_size = 0, d_buf = []\<rparr>,
       \<lparr>scn_shdr = null_shdr, d_size = 32, d_buf = dyn_bytes (3, 0x1000) @ dyn_bytes (0, 0)\<rparr>],
     symTabCount = 0, sectionHdrStrTblIdx = 0, strTblIdx = 0, textRelocCount = 0, sectionIndices = (\<lambda>_. 0)(ERS_DYNAMIC := 1),
     e_ints = replicate 5 0, isPO = False, arch_bitwidth = 64, textUsesSmallCodeModel = False\<rparr>"

theorem runtime_symbol_found_witness:
  "locateRuntimeSymbolInTarget (entry dyn_of 16) (\<lambda>_. 7) 4 (\<lambda>_. replicate 4 0) lib_process lib_elf ''foo'' = Inr 0x400040"
proof -
  let ?r = "\<lambda>lm. if lm = lib_map then Some 0x400040 else None"
  have ne: "program_map \<noteq> lib_map" by (simp add: program_map_def lib_map_def)
  have "locateRuntimeSymbolInTarget (entry dyn_of 16) (\<lambda>_. 7) 4 (\<lambda>_. replicate 4 0) lib_process lib_elf ''foo'' =
      first_answer (map ?r [program_map, lib_map])"
  proof (rule runtime_symbol_found)
    show "getDataByERS lib_elf ERS_DYNAMIC = Inr (e_scns lib_elf ! 1)"
      by (simp add: getDataByERS_def scn_or_def getscn_def lib_elf_def)
    show "last_pltgot (entry dyn_of 16) (e_scns lib_elf ! 1) [0..<d_size (e_scns lib_elf ! 1) div 16] 0 = Inr 0x1000"
      by (simp add: lib_elf_def upt_conv_Cons entry_def)
    show "mem_gives (tg_mem lib_process) (0x1000 + 8) (word_bytes 8 (0x10E1 :: addr_t))" using lib_parts(1) by simp
    have "objects_at (tg_mem lib_process) 0x1010 [lib_map]"
      using lib_parts(2) by (auto intro!: exI simp: lib_map_def link_map_of_def)
    then show "objects_at (tg_mem lib_process) 0x10E1 [program_map, lib_map]"
      using lib_parts(15) by (auto intro!: exI simp: program_map_def link_map_of_def)
    show "\<forall>lm \<in> set [program_map, lib_map]. object_at (tg_mem lib_process) 4 ''foo'' 7 lm (?r lm)"
      using lib_object program_object ne by (simp add: object_at_def)
  qed simp_all
  then show ?thesis using ne by (simp add: first_answer_def)
qed

text \<open>Names are compared up to the end of the name looked for: a longer name that starts with it matches.\<close>

lemma longer_name_matches: "name_matches ''foo'' (sy, [102, 111, 111, 98])"
  by (simp add: name_matches_def)

end
