(* ===== verification/Dwarf_Dies.thy ===== *)
theory Dwarf_Dies
  imports Dwarf_Stack Dictionary
begin

text \<open>
  Reading single DWARF entries, the first part of \<^verbatim>\<open>src/src/dwarftypes.c\<close>.  What libdwarf knows of an object file is the
  parameter \<open>dbg\<close>: its debugging information entries by their global offset, each with its tag, name, size,
  attributes, first child and next sibling.  An attribute is the form it is stored in with the value that libdwarf reads from it.  An
  offset with no entry is an error of libdwarf, whose handler (\<^verbatim>\<open>dwarfErrorHandler\<close>) calls \<^verbatim>\<open>death\<close>.
\<close>

section \<open>Entries\<close>

type_synonym dwarf_off = "64 word"

datatype DW_TAG = DW_TAG_compile_unit | DW_TAG_base_type | DW_TAG_pointer_type | DW_TAG_array_type | DW_TAG_structure_type
  | DW_TAG_union_type | DW_TAG_enumeration_type | DW_TAG_typedef | DW_TAG_volatile_type | DW_TAG_const_type | DW_TAG_variable
  | DW_TAG_subprogram | DW_TAG_formal_parameter | DW_TAG_unspecified_parameters | DW_TAG_lexical_block | DW_TAG_label
  | DW_TAG_subroutine_type | DW_TAG_member | DW_TAG_subrange_type | DW_TAG_other nat

datatype DW_AT = DW_AT_type | DW_AT_lower_bound | DW_AT_upper_bound | DW_AT_comp_dir | DW_AT_MIPS_fde | DW_AT_declaration
  | DW_AT_data_member_location | DW_AT_low_pc | DW_AT_high_pc | DW_AT_prototyped

datatype DW_FORM = DW_FORM_data1 "64 word" | DW_FORM_data2 "64 word" | DW_FORM_data4 "64 word" | DW_FORM_data8 "64 word"
  | DW_FORM_flag bool | DW_FORM_flag_present | DW_FORM_addr addr_t | DW_FORM_block "byte list" | DW_FORM_block1 "byte list"
  | DW_FORM_sdata "64 word" | DW_FORM_string string | DW_FORM_strp string | DW_FORM_ref_addr dwarf_off | DW_FORM_ref dwarf_off
  | DW_FORM_other nat

record DIE =
  die_tag :: DW_TAG
  die_name :: "string option"
  die_bytesize :: "64 word option"
  die_attrs :: "(DW_AT \<times> DW_FORM) list"
  die_CU_offset :: dwarf_off
  die_child :: "dwarf_off option"
  die_sibling :: "dwarf_off option"

type_synonym dwarf_debug = "(dwarf_off \<times> DIE) list"

definition offdie :: "dwarf_debug \<Rightarrow> dwarf_off \<Rightarrow> DIE result" where
  "offdie dbg off = (case map_of dbg off of None \<Rightarrow> Inl Death | Some d \<Rightarrow> Inr d)"

definition dwarf_attr :: "DIE \<Rightarrow> DW_AT \<Rightarrow> DW_FORM option" where
  "dwarf_attr d at = map_of (die_attrs d) at"

text \<open>An entry and the siblings behind it; there are no more of them than entries.\<close>

fun siblings_from :: "nat \<Rightarrow> dwarf_debug \<Rightarrow> dwarf_off option \<Rightarrow> (dwarf_off \<times> DIE) list result" where
  "siblings_from fuel dbg None = Inr []"
| "siblings_from 0 dbg (Some off) = Inl Diverges"
| "siblings_from (Suc fuel) dbg (Some off) =
     bindE (offdie dbg off) (\<lambda>d. bindE (siblings_from fuel dbg (die_sibling d)) (\<lambda>ds. Inr ((off, d) # ds)))"

definition children_of :: "dwarf_debug \<Rightarrow> DIE \<Rightarrow> (dwarf_off \<times> DIE) list result" where
  "children_of dbg d = siblings_from (length dbg) dbg (die_child d)"

section \<open>Attributes\<close>

definition readAttributeAsInt :: "DW_FORM \<Rightarrow> 32 word result" where
  "readAttributeAsInt attr =
     (case attr of
        DW_FORM_data1 data \<Rightarrow> Inr (ucast data)
      | DW_FORM_data2 data \<Rightarrow> Inr (ucast data)
      | DW_FORM_data4 data \<Rightarrow> Inr (ucast data)
      | DW_FORM_flag b \<Rightarrow> Inr (if b then 1 else 0)
      | DW_FORM_flag_present \<Rightarrow> Inr 1
      | _ \<Rightarrow> Inl Death)"

text \<open>\<open>at\<close> is the attribute read.\<close>

definition readAttributeAsAddr :: "DW_AT \<Rightarrow> DW_FORM \<Rightarrow> addr_t \<Rightarrow> addr_t result" where
  "readAttributeAsAddr at attr startAddress =
     (let block = (\<lambda>bl_data. evaluateDwarfExpression bl_data (length bl_data)
            (if at = DW_AT_data_member_location then [startAddress] else []));
          data = (\<lambda>v. Inr (if at = DW_AT_data_member_location then startAddress + v else v)) in
      case attr of
        DW_FORM_addr addr \<Rightarrow> Inr addr
      | DW_FORM_block bs \<Rightarrow> block bs
      | DW_FORM_block1 bs \<Rightarrow> block bs
      | DW_FORM_sdata addr \<Rightarrow> Inr addr
      | DW_FORM_data1 v \<Rightarrow> data v
      | DW_FORM_data2 v \<Rightarrow> data v
      | DW_FORM_data4 v \<Rightarrow> data v
      | DW_FORM_data8 v \<Rightarrow> data v
      | _ \<Rightarrow> Inl Death)"

definition readAttributeAsString :: "DW_FORM \<Rightarrow> string result" where
  "readAttributeAsString attr =
     (case attr of DW_FORM_string s \<Rightarrow> Inr s | DW_FORM_strp s \<Rightarrow> Inr s | _ \<Rightarrow> Inl Death)"

definition attr_int_or :: "32 word \<Rightarrow> DIE \<Rightarrow> DW_AT \<Rightarrow> 32 word result" where
  "attr_int_or v d at = (case dwarf_attr d at of None \<Rightarrow> Inr v | Some attr \<Rightarrow> readAttributeAsInt attr)"

section \<open>Ranges\<close>

fun ranges_of :: "(dwarf_off \<times> DIE) list \<Rightarrow> (32 word \<times> 32 word) list result" where
  "ranges_of [] = Inr []"
| "ranges_of ((off, d) # ds) =
     (if die_tag d \<noteq> DW_TAG_subrange_type then ranges_of ds
      else
        bindE (attr_int_or 0 d DW_AT_lower_bound) (\<lambda>lower.
        bindE (attr_int_or 0 d DW_AT_upper_bound) (\<lambda>upper.
        bindE (ranges_of ds) (\<lambda>rs. Inr ((lower, upper) # rs)))))"

definition getRangeFromDie :: "dwarf_debug \<Rightarrow> DIE \<Rightarrow> (32 word \<times> 32 word) list result" where
  "getRangeFromDie dbg d = bindE (children_of dbg d) ranges_of"

section \<open>Names\<close>

text \<open>Decimal numbers, and \<^verbatim>\<open>snprintf\<close> into a buffer of \<open>n\<close> bytes.\<close>

fun decimal :: "nat \<Rightarrow> string" where
  "decimal n = (if n < 10 then [char_of (48 + n)] else decimal (n div 10) @ [char_of (48 + n mod 10)])"

declare decimal.simps [simp del]

definition decimal_int :: "32 word \<Rightarrow> string" where
  "decimal_int w = (if sint w < 0 then ''-'' @ decimal (nat (- sint w)) else decimal (nat (sint w)))"

definition decimal_uint :: "32 word \<Rightarrow> string" where
  "decimal_uint w = decimal (unat w)"

definition snprintf :: "nat \<Rightarrow> string \<Rightarrow> string" where
  "snprintf n s = take (n - 1) s"

text \<open>
  The dimensions of an array behind the name of its elements.  The room left is a signed number: past the end of the
  buffer it is negative, which \<^verbatim>\<open>snprintf\<close> takes for a very large size.
\<close>

definition range_string :: "32 word \<times> 32 word \<Rightarrow> string" where
  "range_string r = ''['' @ decimal_int (fst r) @ '','' @ decimal_int (snd r) @ '']''"

fun write_ranges :: "int \<Rightarrow> string \<Rightarrow> (32 word \<times> 32 word) list \<Rightarrow> string result" where
  "write_ranges remaining buf [] = Inr buf"
| "write_ranges remaining buf (r # rs) =
     (if remaining < 0 then Inl OutOfBounds
      else write_ranges (remaining - int (length (range_string r))) (buf @ snprintf (nat remaining) (range_string r)) rs)"

definition offset_name :: "string \<Rightarrow> string \<Rightarrow> string result" where
  "offset_name prefix number = Inr (snprintf 64 (prefix @ number))"

text \<open>The type an entry refers to; without the attribute there is none, which stands for \<^verbatim>\<open>void\<close>.\<close>

definition getDieFromATType :: "dwarf_debug \<Rightarrow> dwarf_off \<Rightarrow> dwarf_off option result" where
  "getDieFromATType dbg off =
     bindE (offdie dbg off) (\<lambda>d.
       case dwarf_attr d DW_AT_type of
         None \<Rightarrow> Inr None
       | Some (DW_FORM_ref_addr offsetOfType) \<Rightarrow> bindE (offdie dbg offsetOfType) (\<lambda>_. Inr (Some offsetOfType))
       | Some (DW_FORM_ref offsetOfType) \<Rightarrow>
           let offsetOfCu = off - die_CU_offset d in
           bindE (offdie dbg (offsetOfCu + offsetOfType)) (\<lambda>_. Inr (Some (offsetOfCu + offsetOfType)))
       | Some _ \<Rightarrow> Inl Death)"

text \<open>
  The name of an entry.  The cases of base types and members have no \<^verbatim>\<open>break\<close>: what they write is overwritten by the case of
  variables.  The names of the types referred to are always found, so the tests for a null name are left out.
\<close>

fun getNameForDie :: "nat \<Rightarrow> dwarf_debug \<Rightarrow> dwarf_off \<Rightarrow> string result" where
  "getNameForDie 0 dbg off = Inl Diverges"
| "getNameForDie (Suc fuel) dbg off =
     bindE (offdie dbg off) (\<lambda>d.
     case die_name d of
       Some name \<Rightarrow> Inr name
     | None \<Rightarrow>
         let offset = ucast off :: 32 word;
             type_name = bindE (getDieFromATType dbg off) (\<lambda>t.
               case t of None \<Rightarrow> Inr ''void'' | Some t \<Rightarrow> getNameForDie fuel dbg t) in
         case die_tag d of
           DW_TAG_base_type \<Rightarrow> offset_name ''anon_var_'' (decimal_int offset)
         | DW_TAG_member \<Rightarrow> offset_name ''anon_var_'' (decimal_int offset)
         | DW_TAG_variable \<Rightarrow> offset_name ''anon_var_'' (decimal_int offset)
         | DW_TAG_structure_type \<Rightarrow> offset_name ''anon_struct_'' (decimal_uint offset)
         | DW_TAG_union_type \<Rightarrow> offset_name ''anon_union_'' (decimal_uint offset)
         | DW_TAG_enumeration_type \<Rightarrow> offset_name ''anon_enum_'' (decimal_uint offset)
         | DW_TAG_const_type \<Rightarrow> bindE type_name (\<lambda>name. Inr (snprintf 2048 (''const '' @ name)))
         | DW_TAG_volatile_type \<Rightarrow> bindE type_name (\<lambda>name. Inr (snprintf 2048 (''volatile '' @ name)))
         | DW_TAG_pointer_type \<Rightarrow> bindE type_name (\<lambda>name. Inr (snprintf 2048 (name @ ''*'')))
         | DW_TAG_array_type \<Rightarrow>
             bindE type_name (\<lambda>name.
             bindE (getRangeFromDie dbg d) (\<lambda>ranges.
               write_ranges (2048 - int (length name)) (snprintf 2048 name) ranges))
         | DW_TAG_subprogram \<Rightarrow> offset_name ''lambda_'' (decimal_int offset)
         | DW_TAG_lexical_block \<Rightarrow> offset_name ''lex_blk_'' (decimal_int offset)
         | DW_TAG_formal_parameter \<Rightarrow> offset_name ''formal_param_'' (decimal_int offset)
         | DW_TAG_subroutine_type \<Rightarrow> offset_name ''anon_sub_type_'' (decimal_int offset)
         | _ \<Rightarrow> offset_name ''unknown_type_anon_'' (decimal_uint offset))"

definition getTypeNameFromATType :: "nat \<Rightarrow> dwarf_debug \<Rightarrow> dwarf_off \<Rightarrow> string result" where
  "getTypeNameFromATType fuel dbg off =
     bindE (getDieFromATType dbg off) (\<lambda>dieOfType. case dieOfType of
       None \<Rightarrow> Inr ''void''
     | Some t \<Rightarrow> getNameForDie fuel dbg t)"

end
