(* ===== verification/Dwarf_Types.thy ===== *)
theory Dwarf_Types
  imports Dwarf_Dies Type_Diff Code_Diff Paths
begin

text \<open>
  Reading the types, variables and functions of a program, the rest of \<^verbatim>\<open>src/src/dwarftypes.c\<close>, with the reference counts
  of \<^verbatim>\<open>src/src/util/refcounted.c\<close> and \<^verbatim>\<open>freeTypeInfo\<close> of \<^verbatim>\<open>src/src/types.c\<close>.  The state has the objects that are made (types and
  variables in heaps, so that freed ones show), the compilation units with their tables, and the functions the walk is inside
  of.  What \<^verbatim>\<open>logprintf\<close> prints is left out, but at the level \<^verbatim>\<open>ELL_ERR\<close> it calls \<^verbatim>\<open>death\<close>.  Signed arithmetic wraps around.
\<close>

section \<open>State\<close>

record DwType = TypeInfo +
  ti_refcount :: int
  ti_incomplete :: bool
  ti_declaration :: bool
  ti_cu :: "nat option"
  ti_fde :: uint
  ti_hasVariableParams :: bool

record VarInfo =
  vi_name :: string
  vi_type :: ptr
  vi_declaration :: bool

record Subprogram = SubprogramInfo +
  sb_types :: "nat list"
  sb_hasVariableParams :: bool
  sb_cu :: nat

text \<open>What the table of entries read so far has for an entry; the code keeps a \<^verbatim>\<open>void*\<close>.\<close>

datatype Datum = DNull | DType nat | DVar nat | DSub nat | DUnit nat

record CompilationUnit =
  cu_types :: "nat Dictionary"
  cu_globalVars :: "nat Dictionary"
  cu_parsedDies :: "(64 word, Datum) Map"
  cu_subprograms :: "nat Dictionary"
  cu_name :: string
  cu_id :: string

record DwarfState =
  dw_types :: "DwType heap"
  dw_vars :: "VarInfo heap"
  dw_subs :: "Subprogram list"
  dw_cus :: "CompilationUnit list"
  dw_cuIdentifiers :: "string Dictionary"
  dw_active :: "nat list"

text \<open>How an entry's type is found: the compilation unit, the entry and the state.\<close>

type_synonym type_reader = "nat \<Rightarrow> dwarf_off \<Rightarrow> DwarfState \<Rightarrow> (DwarfState \<times> ptr) result"

definition int32 :: "int \<Rightarrow> int" where
  "int32 x = sint (word_of_int x :: 32 word)"

definition blank_type :: "TYPE_TYPE \<Rightarrow> string \<Rightarrow> nat option \<Rightarrow> DwType" where
  "blank_type type name cu = \<lparr>ti_name = name, ti_type = type, ti_length = 0, ti_typediffStatus = ETS_NOT_DONE, ti_diffAgainst = None,
     ti_transformer = None, ti_numFields = 0, ti_fields = [], ti_fieldOffsets = [], ti_fieldTypes = [], ti_pointedType = None,
     ti_lowerBounds = [], ti_upperBounds = [], ti_depth = 0, ti_refcount = 0, ti_incomplete = False, ti_declaration = False,
     ti_cu = cu, ti_fde = 0, ti_hasVariableParams = False\<rparr>"

definition new_type :: "DwarfState \<Rightarrow> DwType \<Rightarrow> DwarfState \<times> nat" where
  "new_type st t = (case alloc (dw_types st) t of (h, p) \<Rightarrow> (st\<lparr>dw_types := h\<rparr>, p))"

definition modify_type :: "DwarfState \<Rightarrow> nat \<Rightarrow> (DwType \<Rightarrow> DwType result) \<Rightarrow> DwarfState result" where
  "modify_type st p f =
     bindE (load (dw_types st) (Some p)) (\<lambda>t. bindE (f t) (\<lambda>t. Inr (st\<lparr>dw_types := (dw_types st)[p := Some t]\<rparr>)))"

definition set_type :: "DwarfState \<Rightarrow> nat \<Rightarrow> (DwType \<Rightarrow> DwType) \<Rightarrow> DwarfState result" where
  "set_type st p f = modify_type st p (\<lambda>t. Inr (f t))"

definition grabRefCounted :: "DwarfState \<Rightarrow> nat \<Rightarrow> DwarfState result" where
  "grabRefCounted st p =
     modify_type st p (\<lambda>t. bindE (guardE (0 \<le> ti_refcount t) AssertFail) (\<lambda>_. Inr (t\<lparr>ti_refcount := ti_refcount t + 1\<rparr>)))"

text \<open>Letting go of a type frees it by \<open>free\<close> when the count falls to zero; the types of fields that are null are passed over.\<close>

definition releaseRefCounted :: "(DwType heap \<Rightarrow> ptr \<Rightarrow> DwType heap result) \<Rightarrow> DwType heap \<Rightarrow> ptr \<Rightarrow> DwType heap result" where
  "releaseRefCounted freeFunc h p =
     bindE (load h p) (\<lambda>t.
     bindE (guardE (0 < ti_refcount t) AssertFail) (\<lambda>_.
     bindE (update h p (\<lambda>t. t\<lparr>ti_refcount := ti_refcount t - 1\<rparr>)) (\<lambda>h.
       if ti_refcount t - 1 = 0 then freeFunc h p else Inr h)))"

fun release_fields :: "(DwType heap \<Rightarrow> ptr \<Rightarrow> DwType heap result) \<Rightarrow> DwType heap \<Rightarrow> ptr list \<Rightarrow> DwType heap result" where
  "release_fields freeFunc h [] = Inr h"
| "release_fields freeFunc h (p # ps) =
     bindE (if p = None then Inr h else releaseRefCounted freeFunc h p) (\<lambda>h. release_fields freeFunc h ps)"

text \<open>Freeing a type lets go of the types of its fields; a cycle of them goes round for as long as there is fuel.\<close>

fun free_type :: "nat \<Rightarrow> DwType heap \<Rightarrow> ptr \<Rightarrow> DwType heap result" where
  "free_type 0 h p = Inl Diverges"
| "free_type (Suc fuel) h p =
     bindE (load h p) (\<lambda>t.
     bindE (guardE (ti_numFields t \<le> length (ti_fieldTypes t)) OutOfBounds) (\<lambda>_.
     bindE (release_fields (free_type fuel) h (take (ti_numFields t) (ti_fieldTypes t))) (\<lambda>h. free_cell h p)))"

definition freeTypeInfo :: "nat \<Rightarrow> DwarfState \<Rightarrow> nat \<Rightarrow> DwarfState result" where
  "freeTypeInfo fuel st p = bindE (free_type fuel (dw_types st) (Some p)) (\<lambda>h. Inr (st\<lparr>dw_types := h\<rparr>))"

section \<open>Tables of a compilation unit\<close>

definition modify_cu :: "DwarfState \<Rightarrow> nat \<Rightarrow> (CompilationUnit \<Rightarrow> CompilationUnit result) \<Rightarrow> DwarfState result" where
  "modify_cu st c f =
     bindE (elem_at (dw_cus st) c) (\<lambda>cu. bindE (f cu) (\<lambda>cu. Inr (st\<lparr>dw_cus := (dw_cus st)[c := cu]\<rparr>)))"

definition find_type :: "DwarfState \<Rightarrow> nat \<Rightarrow> string \<Rightarrow> nat option result" where
  "find_type st c name = bindE (elem_at (dw_cus st) c) (\<lambda>cu. dictGet (cu_types cu) name)"

text \<open>A type enters the table of types, and its reference count goes up.\<close>

definition insert_type :: "DwarfState \<Rightarrow> nat \<Rightarrow> string \<Rightarrow> nat \<Rightarrow> DwarfState result" where
  "insert_type st c name p =
     bindE (modify_cu st c (\<lambda>cu. bindE (dictInsert (cu_types cu) name p) (\<lambda>d. Inr (cu\<lparr>cu_types := d\<rparr>)))) (\<lambda>st. grabRefCounted st p)"

definition put_type :: "DwarfState \<Rightarrow> nat \<Rightarrow> string \<Rightarrow> nat \<Rightarrow> DwarfState result" where
  "put_type st c name p =
     bindE (modify_cu st c (\<lambda>cu. bindE (dictSet (cu_types cu) name p) (\<lambda>d. Inr (cu\<lparr>cu_types := d\<rparr>)))) (\<lambda>st. grabRefCounted st p)"

definition setParsedDie :: "DwarfState \<Rightarrow> nat \<Rightarrow> dwarf_off \<Rightarrow> Datum \<Rightarrow> DwarfState result" where
  "setParsedDie st c off data =
     modify_cu st c (\<lambda>cu. bindE (mapSet (cu_parsedDies cu) off data) (\<lambda>m. Inr (cu\<lparr>cu_parsedDies := m\<rparr>)))"

definition parsed_datum :: "DwarfState \<Rightarrow> nat \<Rightarrow> dwarf_off \<Rightarrow> Datum result" where
  "parsed_datum st c off =
     bindE (elem_at (dw_cus st) c) (\<lambda>cu. bindE (mapGet (cu_parsedDies cu) off) (\<lambda>r. Inr (case r of None \<Rightarrow> DNull | Some d \<Rightarrow> d)))"

text \<open>Every datum is taken for a type: for one that is not, what is read there lies outside of any type.\<close>

definition as_type :: "Datum \<Rightarrow> ptr result" where
  "as_type data = (case data of DNull \<Rightarrow> Inr None | DType p \<Rightarrow> Inr (Some p) | _ \<Rightarrow> Inl OutOfBounds)"

text \<open>\<open>walk\<close> is the walk over an entry of the compilation unit, without its siblings.\<close>

definition getTypeInfoFromATType ::
  "nat \<Rightarrow> (nat \<Rightarrow> dwarf_off \<Rightarrow> DwarfState \<Rightarrow> DwarfState result) \<Rightarrow> dwarf_debug \<Rightarrow> type_reader" where
  "getTypeInfoFromATType fuel walk dbg c off st =
     bindE (getDieFromATType dbg off) (\<lambda>dieOfType. case dieOfType of
       None \<Rightarrow> bindE (find_type st c ''void'') (\<lambda>data. if data = None then Inl Death else Inr (st, data))
     | Some t \<Rightarrow>
         bindE (parsed_datum st c t) (\<lambda>data.
         bindE (if data = DNull then bindE (walk c t st) (\<lambda>st. bindE (parsed_datum st c t) (\<lambda>data. Inr (st, data))) else Inr (st, data))
           (\<lambda>(st, data).
         bindE (if data = DNull then getNameForDie fuel dbg t else Inr []) (\<lambda>_.
         bindE (as_type data) (\<lambda>p. Inr (st, p))))))"

definition getTypeFDE :: "DwarfState \<Rightarrow> nat \<Rightarrow> DIE \<Rightarrow> DwarfState result" where
  "getTypeFDE st p d =
     (case dwarf_attr d DW_AT_MIPS_fde of
        None \<Rightarrow> Inr st
      | Some attr \<Rightarrow> bindE (readAttributeAsInt attr) (\<lambda>v. set_type st p (ti_fde_update (\<lambda>_. v))))"

section \<open>Types\<close>

definition addBaseTypeFromDie :: "nat \<Rightarrow> dwarf_debug \<Rightarrow> dwarf_off \<Rightarrow> DIE \<Rightarrow> nat \<Rightarrow> DwarfState \<Rightarrow> (DwarfState \<times> ptr) result" where
  "addBaseTypeFromDie fuel dbg off d c st =
     bindE (getNameForDie fuel dbg off) (\<lambda>name.
     let (st, p) = new_type st (blank_type TT_BASE name (Some c)) in
     case die_bytesize d of
       None \<Rightarrow> bindE (freeTypeInfo fuel st p) (\<lambda>st. Inr (st, None))
     | Some byteSize \<Rightarrow>
         bindE (set_type st p (ti_length_update (\<lambda>_. sint (ucast byteSize :: 32 word)))) (\<lambda>st.
         bindE (insert_type st c name p) (\<lambda>st. Inr (st, Some p))))"

definition addEnumFromDie :: "nat \<Rightarrow> dwarf_debug \<Rightarrow> dwarf_off \<Rightarrow> DIE \<Rightarrow> nat \<Rightarrow> DwarfState \<Rightarrow> (DwarfState \<times> ptr) result" where
  "addEnumFromDie fuel dbg off d c st =
     bindE (getNameForDie fuel dbg off) (\<lambda>name.
     let (st, p) = new_type st (blank_type TT_ENUM name (Some c)) in
     case die_bytesize d of
       None \<Rightarrow> bindE (freeTypeInfo fuel st p) (\<lambda>st. Inr (st, None))
     | Some byteSize \<Rightarrow>
         bindE (set_type st p (ti_length_update (\<lambda>_. sint (ucast byteSize :: 32 word)))) (\<lambda>st.
         bindE (insert_type st c name p) (\<lambda>st.
         bindE (getTypeFDE st p d) (\<lambda>st. Inr (st, Some p)))))"

text \<open>An array of \<open>n\<close> entries after \<^verbatim>\<open>realloc\<close>; new entries are undefined, and are set before they are used.\<close>

definition resized :: "nat \<Rightarrow> 'a \<Rightarrow> 'a list \<Rightarrow> 'a list" where
  "resized n x xs = take n xs @ replicate (n - length xs) x"

definition grow_fields :: "bool \<Rightarrow> DwType \<Rightarrow> DwType" where
  "grow_fields offsets t =
     (let n = ti_numFields t + 1 in
      t\<lparr>ti_numFields := n, ti_fields := resized n [] (ti_fields t), ti_fieldTypes := resized n None (ti_fieldTypes t),
        ti_fieldOffsets := (if offsets then resized n 0 (ti_fieldOffsets t) else ti_fieldOffsets t)\<rparr>)"

definition set_field :: "nat \<Rightarrow> string \<Rightarrow> DwType \<Rightarrow> DwType result" where
  "set_field idx name t = bindE (store_at (ti_fields t) idx name) (\<lambda>xs. Inr (t\<lparr>ti_fields := xs\<rparr>))"

definition set_fieldOffset :: "nat \<Rightarrow> int \<Rightarrow> DwType \<Rightarrow> DwType result" where
  "set_fieldOffset idx v t = bindE (store_at (ti_fieldOffsets t) idx v) (\<lambda>xs. Inr (t\<lparr>ti_fieldOffsets := xs\<rparr>))"

definition set_fieldType :: "nat \<Rightarrow> nat \<Rightarrow> DwType \<Rightarrow> DwType result" where
  "set_fieldType idx p t = bindE (store_at (ti_fieldTypes t) idx (Some p)) (\<lambda>xs. Inr (t\<lparr>ti_fieldTypes := xs\<rparr>))"

definition member_location :: "DIE \<Rightarrow> int \<Rightarrow> int result" where
  "member_location d guess =
     (case dwarf_attr d DW_AT_data_member_location of
        None \<Rightarrow> Inr (int32 guess)
      | Some attr \<Rightarrow> bindE (readAttributeAsAddr DW_AT_data_member_location attr 0) (\<lambda>a. Inr (sint (ucast a :: 32 word))))"

text \<open>The members of a structure or union: \<open>idx\<close> is the number of the next one, \<open>guess\<close> the sum of the lengths so far.\<close>

fun add_members :: "nat \<Rightarrow> type_reader \<Rightarrow> dwarf_debug \<Rightarrow> nat \<Rightarrow> nat \<Rightarrow> (dwarf_off \<times> DIE) list \<Rightarrow> nat \<Rightarrow> int \<Rightarrow> DwarfState \<Rightarrow>
  DwarfState result" where
  "add_members fuel get dbg c p [] idx guess st = Inr st"
| "add_members fuel get dbg c p ((off, d) # ds) idx guess st =
     (if die_tag d \<noteq> DW_TAG_member then add_members fuel get dbg c p ds idx guess st
      else
        bindE (set_type st p (grow_fields True)) (\<lambda>st.
        bindE (getNameForDie fuel dbg off) (\<lambda>name.
        bindE (modify_type st p (set_field idx name)) (\<lambda>st.
        bindE (get c off st) (\<lambda>(st, typeOfField). case typeOfField of
          None \<Rightarrow> Inl Death
        | Some f \<Rightarrow>
            bindE (member_location d guess) (\<lambda>loc.
            bindE (modify_type st p (set_fieldOffset idx loc)) (\<lambda>st.
            bindE (load (dw_types st) (Some f)) (\<lambda>ft.
            bindE (modify_type st p (set_fieldType idx f)) (\<lambda>st.
            bindE (grabRefCounted st f) (\<lambda>st.
              add_members fuel get dbg c p ds (idx + 1) (guess + ti_length ft) st))))))))))"

text \<open>The members and the identifier of the frame entry; only then is the type complete.\<close>

definition finish_members :: "nat \<Rightarrow> type_reader \<Rightarrow> dwarf_debug \<Rightarrow> nat \<Rightarrow> nat \<Rightarrow> DIE \<Rightarrow> DwarfState \<Rightarrow> (DwarfState \<times> ptr) result" where
  "finish_members fuel get dbg c p d st =
     bindE (children_of dbg d) (\<lambda>members.
     bindE (add_members fuel get dbg c p members 0 0 st) (\<lambda>st.
     bindE (getTypeFDE st p d) (\<lambda>st.
     bindE (set_type st p (ti_incomplete_update (\<lambda>_. False))) (\<lambda>st. Inr (st, Some p)))))"

definition note_declaration :: "DwarfState \<Rightarrow> nat \<Rightarrow> DIE \<Rightarrow> DwarfState result" where
  "note_declaration st p d =
     (case dwarf_attr d DW_AT_declaration of
        None \<Rightarrow> Inr st
      | Some attr \<Rightarrow> bindE (readAttributeAsInt attr) (\<lambda>v. set_type st p (ti_declaration_update (\<lambda>_. v \<noteq> 0))))"

definition addStructureFromDie ::
  "nat \<Rightarrow> type_reader \<Rightarrow> dwarf_debug \<Rightarrow> dwarf_off \<Rightarrow> DIE \<Rightarrow> nat \<Rightarrow> DwarfState \<Rightarrow> (DwarfState \<times> ptr) result" where
  "addStructureFromDie fuel get dbg off d c st =
     bindE (getNameForDie fuel dbg off) (\<lambda>name.
     bindE (find_type st c name) (\<lambda>type.
     bindE (case type of
         Some p \<Rightarrow>
           bindE (load (dw_types st) (Some p)) (\<lambda>t. bindE (guardE (ti_declaration t) Death) (\<lambda>_. Inr (st, p)))
       | None \<Rightarrow> Inr (new_type st (blank_type TT_STRUCT name (Some c)))) (\<lambda>(st, p).
     bindE (set_type st p (\<lambda>t. t\<lparr>ti_type := TT_STRUCT, ti_cu := Some c, ti_name := name\<rparr>)) (\<lambda>st.
     bindE (note_declaration st p d) (\<lambda>st.
     bindE (put_type st c name p) (\<lambda>st.
     bindE (setParsedDie st c off (DType p)) (\<lambda>st.
     bindE (load (dw_types st) (Some p)) (\<lambda>t.
     if ti_declaration t then Inr (st, Some p)
     else
       bindE (set_type st p (ti_incomplete_update (\<lambda>_. True))) (\<lambda>st.
       case die_bytesize d of
         None \<Rightarrow> bindE (freeTypeInfo fuel st p) (\<lambda>st. Inr (st, None))
       | Some byteSize \<Rightarrow>
           bindE (set_type st p (ti_length_update (\<lambda>_. sint (ucast byteSize :: 32 word)))) (\<lambda>st.
             finish_members fuel get dbg c p d st))))))))))"

definition addUnionFromDie ::
  "nat \<Rightarrow> type_reader \<Rightarrow> dwarf_debug \<Rightarrow> dwarf_off \<Rightarrow> DIE \<Rightarrow> nat \<Rightarrow> DwarfState \<Rightarrow> (DwarfState \<times> ptr) result" where
  "addUnionFromDie fuel get dbg off d c st =
     bindE (getNameForDie fuel dbg off) (\<lambda>name.
     case die_bytesize d of
       None \<Rightarrow> Inl Death
     | Some byteSize \<Rightarrow>
         let (st, p) = new_type st ((blank_type TT_UNION name (Some c))
               \<lparr>ti_length := sint (ucast byteSize :: 32 word), ti_incomplete := True\<rparr>) in
         bindE (insert_type st c name p) (\<lambda>st.
         bindE (setParsedDie st c off (DType p)) (\<lambda>st. finish_members fuel get dbg c p d st)))"

text \<open>A pointer or \<^verbatim>\<open>const\<close> type of a name there is already is that type.\<close>

definition addPointerTypeFromDie ::
  "nat \<Rightarrow> type_reader \<Rightarrow> dwarf_debug \<Rightarrow> dwarf_off \<Rightarrow> DIE \<Rightarrow> nat \<Rightarrow> DwarfState \<Rightarrow> (DwarfState \<times> ptr) result" where
  "addPointerTypeFromDie fuel get dbg off d c st =
     bindE (getNameForDie fuel dbg off) (\<lambda>name.
     bindE (find_type st c name) (\<lambda>type.
     if type \<noteq> None then Inr (st, type)
     else
       let (st, p) = new_type st ((blank_type TT_POINTER name (Some c))\<lparr>ti_incomplete := True\<rparr>) in
       bindE (insert_type st c name p) (\<lambda>st.
       bindE (setParsedDie st c off (DType p)) (\<lambda>st.
       case die_bytesize d of
         None \<Rightarrow> bindE (freeTypeInfo fuel st p) (\<lambda>st. Inr (st, None))
       | Some byteSize \<Rightarrow>
           bindE (set_type st p (ti_length_update (\<lambda>_. sint (ucast byteSize :: 32 word)))) (\<lambda>st.
           bindE (get c off st) (\<lambda>(st, pointedType).
           bindE (set_type st p (ti_pointedType_update (\<lambda>_. pointedType))) (\<lambda>st.
           bindE (getTypeFDE st p d) (\<lambda>st.
           bindE (set_type st p (ti_incomplete_update (\<lambda>_. False))) (\<lambda>st. Inr (st, Some p))))))))))"

definition addConstTypeFromDie ::
  "nat \<Rightarrow> type_reader \<Rightarrow> dwarf_debug \<Rightarrow> dwarf_off \<Rightarrow> DIE \<Rightarrow> nat \<Rightarrow> DwarfState \<Rightarrow> (DwarfState \<times> ptr) result" where
  "addConstTypeFromDie fuel get dbg off d c st =
     bindE (getNameForDie fuel dbg off) (\<lambda>name.
     bindE (find_type st c name) (\<lambda>type.
     if type \<noteq> None then Inr (st, type)
     else
       let (st, p) = new_type st ((blank_type TT_CONST name (Some c))\<lparr>ti_incomplete := True\<rparr>) in
       bindE (insert_type st c name p) (\<lambda>st.
       bindE (setParsedDie st c off (DType p)) (\<lambda>st.
       bindE (get c off st) (\<lambda>(st, pointedType). case pointedType of
         None \<Rightarrow> Inl Death
       | Some q \<Rightarrow>
           bindE (set_type st p (ti_pointedType_update (\<lambda>_. Some q))) (\<lambda>st.
           bindE (load (dw_types st) (Some q)) (\<lambda>t.
           bindE (set_type st p (ti_length_update (\<lambda>_. ti_length t))) (\<lambda>st.
           bindE (getTypeFDE st p d) (\<lambda>st.
           bindE (set_type st p (ti_incomplete_update (\<lambda>_. False))) (\<lambda>st. Inr (st, Some p)))))))))))"

text \<open>The length of an array: one product for each dimension, and their sum.\<close>

fun array_length :: "int \<Rightarrow> (int \<times> int) list \<Rightarrow> int \<Rightarrow> int" where
  "array_length len [] acc = acc"
| "array_length len ((lower, upper) # bounds) acc = array_length len bounds (int32 (acc + len * (upper - lower)))"

definition addArrayTypeFromDie ::
  "nat \<Rightarrow> type_reader \<Rightarrow> dwarf_debug \<Rightarrow> dwarf_off \<Rightarrow> DIE \<Rightarrow> nat \<Rightarrow> DwarfState \<Rightarrow> (DwarfState \<times> ptr) result" where
  "addArrayTypeFromDie fuel get dbg off d c st =
     bindE (getNameForDie fuel dbg off) (\<lambda>name.
     let (st, p) = new_type st (blank_type TT_ARRAY name (Some c)) in
     bindE (setParsedDie st c off (DType p)) (\<lambda>st.
     bindE (get c off st) (\<lambda>(st, pointedType). case pointedType of
       None \<Rightarrow> Inl Death
     | Some q \<Rightarrow>
         bindE (getRangeFromDie dbg d) (\<lambda>ranges.
         bindE (load (dw_types st) (Some q)) (\<lambda>t.
         let bounds = map (\<lambda>(l, u). (sint l, sint u)) ranges in
         bindE (set_type st p (\<lambda>a. a\<lparr>ti_pointedType := Some q, ti_depth := length bounds, ti_lowerBounds := map fst bounds,
           ti_upperBounds := map snd bounds, ti_length := array_length (ti_length t) bounds 0\<rparr>)) (\<lambda>st.
         bindE (getTypeFDE st p d) (\<lambda>st.
         bindE (insert_type st c name p) (\<lambda>st. Inr (st, Some p)))))))))"

definition addTypedefFromDie ::
  "nat \<Rightarrow> type_reader \<Rightarrow> dwarf_debug \<Rightarrow> dwarf_off \<Rightarrow> nat \<Rightarrow> DwarfState \<Rightarrow> (DwarfState \<times> ptr) result" where
  "addTypedefFromDie fuel get dbg off c st =
     bindE (getNameForDie fuel dbg off) (\<lambda>name.
     bindE (get c off st) (\<lambda>(st, type). case type of
       None \<Rightarrow> Inr (st, None)
     | Some p \<Rightarrow>
         bindE (find_type st c name) (\<lambda>known.
         bindE (if known = None then insert_type st c name p else Inr st) (\<lambda>st. Inr (st, Some p)))))"

text \<open>The parameters of a function type; an ellipsis counts as one, of type \<^verbatim>\<open>void\<close>.\<close>

fun add_parameters :: "nat \<Rightarrow> type_reader \<Rightarrow> dwarf_debug \<Rightarrow> nat \<Rightarrow> nat \<Rightarrow> (dwarf_off \<times> DIE) list \<Rightarrow> nat \<Rightarrow> DwarfState \<Rightarrow> DwarfState result" where
  "add_parameters fuel get dbg c p [] idx st = Inr st"
| "add_parameters fuel get dbg c p ((off, d) # ds) idx st =
     bindE (if die_tag d = DW_TAG_unspecified_parameters then set_type st p (ti_hasVariableParams_update (\<lambda>_. True)) else Inr st) (\<lambda>st.
     if die_tag d \<noteq> DW_TAG_unspecified_parameters \<and> die_tag d \<noteq> DW_TAG_formal_parameter then
       add_parameters fuel get dbg c p ds idx st
     else
       bindE (set_type st p (grow_fields False)) (\<lambda>st.
       bindE (getNameForDie fuel dbg off) (\<lambda>name.
       bindE (modify_type st p (set_field idx name)) (\<lambda>st.
       bindE (get c off st) (\<lambda>(st, typeOfField). case typeOfField of
         None \<Rightarrow> Inl Death
       | Some f \<Rightarrow>
           bindE (modify_type st p (set_fieldType idx f)) (\<lambda>st.
           bindE (grabRefCounted st f) (\<lambda>st.
           bindE (grabRefCounted st f) (\<lambda>st.
             add_parameters fuel get dbg c p ds (idx + 1) st))))))))"

definition addSubroutineType ::
  "nat \<Rightarrow> type_reader \<Rightarrow> dwarf_debug \<Rightarrow> dwarf_off \<Rightarrow> DIE \<Rightarrow> nat \<Rightarrow> DwarfState \<Rightarrow> (DwarfState \<times> ptr) result" where
  "addSubroutineType fuel get dbg off d c st =
     bindE (attr_int_or 0 d DW_AT_prototyped) (\<lambda>isPrototype.
     bindE (guardE (isPrototype \<noteq> 0) Death) (\<lambda>_.
     bindE (getNameForDie fuel dbg off) (\<lambda>name.
     let (st, p) = new_type st ((blank_type TT_SUBROUTINE_TYPE name (Some c))\<lparr>ti_declaration := True, ti_incomplete := True\<rparr>) in
     bindE (insert_type st c name p) (\<lambda>st.
     bindE (setParsedDie st c off (DType p)) (\<lambda>st.
     bindE (children_of dbg d) (\<lambda>parameters.
     bindE (add_parameters fuel get dbg c p parameters 0 st) (\<lambda>st.
     bindE (set_type st p (ti_incomplete_update (\<lambda>_. False))) (\<lambda>st. Inr (st, Some p)))))))))"

section \<open>Variables and functions\<close>

text \<open>A type is used by all the functions the walk is inside of.\<close>

definition on_active :: "(Subprogram \<Rightarrow> Subprogram) \<Rightarrow> DwarfState \<Rightarrow> DwarfState result" where
  "on_active f st =
     bindE (guardE (list_all (\<lambda>s. s < length (dw_subs st)) (dw_active st)) OutOfBounds) (\<lambda>_.
       Inr (st\<lparr>dw_subs := fold (\<lambda>s subs. subs[s := f (subs ! s)]) (dw_active st) (dw_subs st)\<rparr>))"

definition uses_type :: "nat \<Rightarrow> DwarfState \<Rightarrow> DwarfState result" where
  "uses_type p = on_active (\<lambda>sub. sub\<lparr>sb_types := sb_types sub @ [p]\<rparr>)"

definition parseFormalParameter :: "type_reader \<Rightarrow> dwarf_off \<Rightarrow> nat \<Rightarrow> DwarfState \<Rightarrow> DwarfState result" where
  "parseFormalParameter get off c st =
     bindE (get c off st) (\<lambda>(st, type). case type of None \<Rightarrow> Inr st | Some p \<Rightarrow> uses_type p st)"

definition parseUnspecifiedParameters :: "DwarfState \<Rightarrow> DwarfState result" where
  "parseUnspecifiedParameters = on_active (\<lambda>sub. sub\<lparr>sb_hasVariableParams := True\<rparr>)"

text \<open>A global variable takes the place of its declaration; a second definition is an error.\<close>

definition add_global :: "DwarfState \<Rightarrow> nat \<Rightarrow> string \<Rightarrow> nat \<Rightarrow> DwarfState result" where
  "add_global st c name v =
     bindE (elem_at (dw_cus st) c) (\<lambda>cu.
     bindE (dictGet (cu_globalVars cu) name) (\<lambda>prev. case prev of
       None \<Rightarrow> modify_cu st c (\<lambda>cu. bindE (dictInsert (cu_globalVars cu) name v) (\<lambda>g. Inr (cu\<lparr>cu_globalVars := g\<rparr>)))
     | Some w \<Rightarrow>
         bindE (load (dw_vars st) (Some w)) (\<lambda>var.
         bindE (guardE (vi_declaration var) Death) (\<lambda>_.
         bindE (free_cell (dw_vars st) (Some w)) (\<lambda>vars.
           modify_cu (st\<lparr>dw_vars := vars\<rparr>) c (\<lambda>cu. bindE (dictSet (cu_globalVars cu) name v) (\<lambda>g. Inr (cu\<lparr>cu_globalVars := g\<rparr>))))))))"

definition addVarFromDie ::
  "nat \<Rightarrow> type_reader \<Rightarrow> dwarf_debug \<Rightarrow> dwarf_off \<Rightarrow> DIE \<Rightarrow> nat \<Rightarrow> DwarfState \<Rightarrow> (DwarfState \<times> ptr) result" where
  "addVarFromDie fuel get dbg off d c st =
     bindE (getNameForDie fuel dbg off) (\<lambda>name.
     bindE (attr_int_or 0 d DW_AT_declaration) (\<lambda>declaration.
     bindE (get c off st) (\<lambda>(st, type). case type of
       None \<Rightarrow> Inr (st, None)
     | Some p \<Rightarrow>
         (case alloc (dw_vars st) \<lparr>vi_name = name, vi_type = Some p, vi_declaration = (declaration \<noteq> 0)\<rparr> of (vars, v) \<Rightarrow>
          let st = st\<lparr>dw_vars := vars\<rparr> in
          bindE (if dw_active st = [] then add_global st c name v else Inr st) (\<lambda>st.
          bindE (uses_type p st) (\<lambda>st. Inr (st, Some v)))))))"

definition attr_addr :: "DIE \<Rightarrow> DW_AT \<Rightarrow> addr_t result" where
  "attr_addr d at = (case dwarf_attr d at of None \<Rightarrow> Inr 0 | Some attr \<Rightarrow> readAttributeAsAddr at attr 0)"

definition addSubprogramFromDie :: "nat \<Rightarrow> dwarf_debug \<Rightarrow> dwarf_off \<Rightarrow> DIE \<Rightarrow> nat \<Rightarrow> DwarfState \<Rightarrow> (DwarfState \<times> nat) result" where
  "addSubprogramFromDie fuel dbg off d c st =
     bindE (getNameForDie fuel dbg off) (\<lambda>name.
     bindE (attr_addr d DW_AT_low_pc) (\<lambda>lowpc.
     bindE (attr_addr d DW_AT_high_pc) (\<lambda>highpc.
     let s = length (dw_subs st);
         sub = \<lparr>sp_name = name, sp_lowpc = lowpc, sp_highpc = highpc, sb_types = [], sb_hasVariableParams = False, sb_cu = c\<rparr> in
     bindE (modify_cu (st\<lparr>dw_subs := dw_subs st @ [sub]\<rparr>) c
         (\<lambda>cu. bindE (dictInsert (cu_subprograms cu) name s) (\<lambda>ss. Inr (cu\<lparr>cu_subprograms := ss\<rparr>)))) (\<lambda>st. Inr (st, s)))))"

section \<open>Compilation units\<close>

text \<open>The object file: whether it is a patch object, its name, and the directory names are relative to.\<close>

record DwarfEnv =
  env_isPO :: bool
  env_fname :: string
  env_workingDir :: string
  env_realpath :: "string \<Rightarrow> string option"
  env_stat :: "string \<Rightarrow> bool option"
  env_unset :: bool

definition setIdentifierForCU :: "string Dictionary \<Rightarrow> string \<Rightarrow> DIE \<Rightarrow> (string Dictionary \<times> string) result" where
  "setIdentifierForCU ids name d =
     bindE (dictExists ids name) (\<lambda>known.
     bindE (if known then
              (case dwarf_attr d DW_AT_comp_dir of
                 None \<Rightarrow> Inl Death
               | Some attr \<Rightarrow> bindE (readAttributeAsString attr) (\<lambda>dir. Inr (name @ '':'' @ dir)))
            else Inr name) (\<lambda>ident.
     bindE (dictInsert ids ident ident) (\<lambda>ids. Inr (ids, ident))))"

definition cu_path :: "DwarfEnv \<Rightarrow> string \<Rightarrow> string result" where
  "cu_path env name =
     (if env_isPO env then Inr name
      else
        bindE (makePathRelativeTo (env_realpath env) (getDirectoryOfPath (env_stat env) (env_unset env) (env_fname env))
          (env_workingDir env)) (\<lambda>relDir.
        case joinPaths relDir (Some name) of None \<Rightarrow> Inl NullDeref | Some path \<Rightarrow> Inr path))"

definition parseCompileUnit :: "nat \<Rightarrow> DwarfEnv \<Rightarrow> dwarf_debug \<Rightarrow> dwarf_off \<Rightarrow> DIE \<Rightarrow> DwarfState \<Rightarrow> (DwarfState \<times> nat) result" where
  "parseCompileUnit fuel env dbg off d st =
     (let c = length (dw_cus st);
          unit = \<lparr>cu_types = dictCreate 100, cu_globalVars = dictCreate 100, cu_parsedDies = size_tMapCreate 100,
            cu_subprograms = dictCreate 100, cu_name = [], cu_id = []\<rparr>;
          (st, void) = new_type (st\<lparr>dw_cus := dw_cus st @ [unit]\<rparr>) (blank_type TT_VOID ''void'' None) in
      bindE (insert_type st c ''void'' void) (\<lambda>st.
      bindE (getNameForDie fuel dbg off) (\<lambda>name.
      bindE (cu_path env name) (\<lambda>path.
      bindE (setIdentifierForCU (dw_cuIdentifiers st) path d) (\<lambda>(ids, ident).
      bindE (modify_cu (st\<lparr>dw_cuIdentifiers := ids\<rparr>) c (\<lambda>cu. Inr (cu\<lparr>cu_name := path, cu_id := ident\<rparr>))) (\<lambda>st. Inr (st, c)))))))"

section \<open>The walk\<close>

definition type_datum :: "(DwarfState \<times> ptr) result \<Rightarrow> (DwarfState \<times> Datum) result" where
  "type_datum m = bindE m (\<lambda>(st, p). Inr (st, case p of None \<Rightarrow> DNull | Some p \<Rightarrow> DType p))"

text \<open>One entry inside a compilation unit; the truth value says whether its children are walked.\<close>

definition parse_tag ::
  "nat \<Rightarrow> type_reader \<Rightarrow> dwarf_debug \<Rightarrow> dwarf_off \<Rightarrow> DIE \<Rightarrow> nat \<Rightarrow> DwarfState \<Rightarrow> ((DwarfState \<times> Datum) \<times> bool) result" where
  "parse_tag fuel get dbg off d c st =
     (let and_children = (\<lambda>m. bindE m (\<lambda>r. Inr (r, True))); alone = (\<lambda>m. bindE m (\<lambda>r. Inr (r, False)));
          nothing = (\<lambda>m. bindE m (\<lambda>st. Inr ((st, DNull), True))) in
      case die_tag d of
        DW_TAG_base_type \<Rightarrow> and_children (type_datum (addBaseTypeFromDie fuel dbg off d c st))
      | DW_TAG_pointer_type \<Rightarrow> and_children (type_datum (addPointerTypeFromDie fuel get dbg off d c st))
      | DW_TAG_array_type \<Rightarrow> alone (type_datum (addArrayTypeFromDie fuel get dbg off d c st))
      | DW_TAG_structure_type \<Rightarrow> alone (type_datum (addStructureFromDie fuel get dbg off d c st))
      | DW_TAG_union_type \<Rightarrow> alone (type_datum (addUnionFromDie fuel get dbg off d c st))
      | DW_TAG_enumeration_type \<Rightarrow> alone (type_datum (addEnumFromDie fuel dbg off d c st))
      | DW_TAG_typedef \<Rightarrow> and_children (type_datum (addTypedefFromDie fuel get dbg off c st))
      | DW_TAG_volatile_type \<Rightarrow> and_children (type_datum (addTypedefFromDie fuel get dbg off c st))
      | DW_TAG_const_type \<Rightarrow> and_children (type_datum (addConstTypeFromDie fuel get dbg off d c st))
      | DW_TAG_variable \<Rightarrow>
          and_children (bindE (addVarFromDie fuel get dbg off d c st) (\<lambda>(st, v). Inr (st, case v of None \<Rightarrow> DNull | Some v \<Rightarrow> DVar v)))
      | DW_TAG_subprogram \<Rightarrow>
          and_children (bindE (addSubprogramFromDie fuel dbg off d c st) (\<lambda>(st, s).
            Inr (st\<lparr>dw_active := dw_active st @ [s]\<rparr>, DSub s)))
      | DW_TAG_formal_parameter \<Rightarrow> nothing (parseFormalParameter get off c st)
      | DW_TAG_unspecified_parameters \<Rightarrow> nothing (parseUnspecifiedParameters st)
      | DW_TAG_subroutine_type \<Rightarrow> and_children (type_datum (addSubroutineType fuel get dbg off d c st))
      | _ \<Rightarrow> nothing (Inr st))"

definition is_parsed :: "DwarfState \<Rightarrow> nat \<Rightarrow> dwarf_off \<Rightarrow> bool result" where
  "is_parsed st c off = bindE (elem_at (dw_cus st) c) (\<lambda>cu. mapExists (cu_parsedDies cu) off)"

text \<open>The current compilation unit may change; the result says which it is then.\<close>

definition parseDie ::
  "nat \<Rightarrow> DwarfEnv \<Rightarrow> type_reader \<Rightarrow> dwarf_debug \<Rightarrow> dwarf_off \<Rightarrow> DIE \<Rightarrow> nat option \<Rightarrow> DwarfState \<Rightarrow>
   (DwarfState \<times> nat option \<times> bool \<times> Datum) result" where
  "parseDie fuel env get dbg off d cu st =
     bindE (case cu of None \<Rightarrow> Inr False | Some c \<Rightarrow> is_parsed st c off) (\<lambda>known.
     if known then Inr (st, cu, False, DNull)
     else
       bindE (if die_tag d = DW_TAG_compile_unit then
                bindE (parseCompileUnit fuel env dbg off d st) (\<lambda>(st, c). Inr (((st, DUnit c), True), c))
              else
                (case cu of None \<Rightarrow> Inl Death | Some c \<Rightarrow> bindE (parse_tag fuel get dbg off d c st) (\<lambda>r. Inr (r, c))))
         (\<lambda>(((st, data), parseChildren), c).
       bindE (is_parsed st c off) (\<lambda>known.
       bindE (if data \<noteq> DNull \<or> \<not> known then setParsedDie st c off data else Inr st) (\<lambda>st.
         Inr (st, Some c, parseChildren, data)))))"

definition endDieChildren :: "DIE \<Rightarrow> Datum \<Rightarrow> DwarfState \<Rightarrow> DwarfState result" where
  "endDieChildren d data st =
     (if die_tag d = DW_TAG_subprogram then
        bindE (guardE (dw_active st \<noteq> []) NullDeref) (\<lambda>_.
        bindE (guardE (DSub (last (dw_active st)) = data) AssertFail) (\<lambda>_. Inr (st\<lparr>dw_active := butlast (dw_active st)\<rparr>)))
      else Inr st)"

fun walkDieTree :: "nat \<Rightarrow> DwarfEnv \<Rightarrow> dwarf_debug \<Rightarrow> dwarf_off \<Rightarrow> nat option \<Rightarrow> bool \<Rightarrow> DwarfState \<Rightarrow> DwarfState result" where
  "walkDieTree 0 env dbg off cu siblings st = Inl Diverges"
| "walkDieTree (Suc fuel) env dbg off cu siblings st =
     bindE (offdie dbg off) (\<lambda>d.
     let get = getTypeInfoFromATType fuel (\<lambda>c t st. walkDieTree fuel env dbg t (Some c) False st) dbg in
     bindE (parseDie fuel env get dbg off d cu st) (\<lambda>(st, cu, parseChildren, data).
     bindE (case (if parseChildren then die_child d else None) of
         None \<Rightarrow> Inr st
       | Some child \<Rightarrow> walkDieTree fuel env dbg child cu True st) (\<lambda>st.
     bindE (endDieChildren d data st) (\<lambda>st.
     case (if siblings then die_sibling d else None) of
       None \<Rightarrow> Inr st
     | Some sibling \<Rightarrow> walkDieTree fuel env dbg sibling cu True st))))"

definition empty_state :: DwarfState where
  "empty_state = \<lparr>dw_types = [], dw_vars = [], dw_subs = [], dw_cus = [], dw_cuIdentifiers = dictCreate 100, dw_active = []\<rparr>"

fun walk_units :: "nat \<Rightarrow> DwarfEnv \<Rightarrow> dwarf_debug \<Rightarrow> dwarf_off list \<Rightarrow> DwarfState \<Rightarrow> DwarfState result" where
  "walk_units fuel env dbg [] st = Inr st"
| "walk_units fuel env dbg (u # us) st = bindE (walkDieTree fuel env dbg u None True st) (\<lambda>st. walk_units fuel env dbg us st)"

text \<open>\<open>units\<close> are the entries of the compilation units that libdwarf goes through; without debugging information there is no result.\<close>

definition readDWARFTypes :: "nat \<Rightarrow> DwarfEnv \<Rightarrow> dwarf_debug \<Rightarrow> dwarf_off list \<Rightarrow> bool \<Rightarrow> DwarfState option result" where
  "readDWARFTypes fuel env dbg units has_debug_info =
     (if \<not> has_debug_info then Inr None else bindE (walk_units fuel env dbg units empty_state) (\<lambda>st. Inr (Some st)))"

end
