(* ===== verification/Dwarf_Types_Laws.thy ===== *)
theory Dwarf_Types_Laws
  imports Dwarf_Types Type_Diff_Laws
begin

text \<open>
  What reading types keeps, in the manner of a Hoare logic: \<open>returns m P\<close> says that if the run \<open>m\<close> returns, its value has \<open>P\<close>.
  The invariant \<open>sound L\<close> says that all types refer to live types only, as do the variables, the functions and the
  tables, and that the types in \<open>L\<close> are live.
\<close>

section \<open>Runs that return\<close>

definition returns :: "'a result \<Rightarrow> ('a \<Rightarrow> bool) \<Rightarrow> bool" where
  "returns m P \<longleftrightarrow> (\<forall>x. m = Inr x \<longrightarrow> P x)"

named_theorems returns_intros \<open>one rule for each form of a run\<close>

lemma returns_simple [returns_intros]:
  "P x \<Longrightarrow> returns (Inr x) P"
  "returns (Inl e) P"
  by (simp_all add: returns_def)

lemma returns_bind: "returns m Q \<Longrightarrow> (\<And>x. Q x \<Longrightarrow> returns (f x) P) \<Longrightarrow> returns (bindE m f) P"
  by (auto simp: returns_def bindE_eq_Inr)

lemma returns_any: "returns m (\<lambda>_. True)"
  by (simp add: returns_def)

lemma returns_mono: "returns m Q \<Longrightarrow> (\<And>x. Q x \<Longrightarrow> P x) \<Longrightarrow> returns m P"
  by (auto simp: returns_def)

lemma returns_if [returns_intros]:
  "(b \<Longrightarrow> returns m P) \<Longrightarrow> (\<not> b \<Longrightarrow> returns m' P) \<Longrightarrow> returns (if b then m else m') P"
  by simp

lemma returns_option [returns_intros]:
  "(r = None \<Longrightarrow> returns m P) \<Longrightarrow> (\<And>y. r = Some y \<Longrightarrow> returns (g y) P) \<Longrightarrow> returns (case r of None \<Rightarrow> m | Some y \<Rightarrow> g y) P"
  by (cases r) simp_all

lemma returns_pair [returns_intros]:
  "(\<And>x y. pr = (x, y) \<Longrightarrow> returns (k x y) P) \<Longrightarrow> returns (case pr of (x, y) \<Rightarrow> k x y) P"
  by (cases pr) simp

lemma returns_guard: "(b \<Longrightarrow> returns (f ()) P) \<Longrightarrow> returns (bindE (guardE b e) f) P"
  by (auto simp: returns_def bindE_eq_Inr)

section \<open>The data in a table\<close>

definition holds :: "('v \<Rightarrow> bool) \<Rightarrow> ('k, 'v, 'z) Table_scheme \<Rightarrow> bool" where
  "holds P t \<longleftrightarrow> (\<forall>a n. cell (t_heap t) a n \<longrightarrow> P (n_data n))"

lemma holds_get: "holds P t \<Longrightarrow> returns (table_get hashf eq t k) (\<lambda>r. \<forall>v. r = Some v \<longrightarrow> P v)"
  by (auto simp: returns_def table_get_def bindE_eq_Inr load_eq_Inr holds_def split: if_splits)

definition heap_holds :: "('v \<Rightarrow> bool) \<Rightarrow> ('k, 'v) NODE heap \<Rightarrow> bool" where
  "heap_holds P h \<longleftrightarrow> (\<forall>a n. cell h a n \<longrightarrow> P (n_data n))"

lemma holds_heap: "holds P t \<longleftrightarrow> heap_holds P (t_heap t)"
  by (simp add: holds_def heap_holds_def)

lemma heap_holds_update:
  "heap_holds P h \<Longrightarrow> (\<And>n. P (n_data n) \<Longrightarrow> P (n_data (f n))) \<Longrightarrow> returns (update h p f) (heap_holds P)"
  by (auto simp: returns_def update_def bindE_eq_Inr load_eq_Inr heap_holds_def nth_list_update split: if_splits)

lemma heap_holds_alloc: "heap_holds P h \<Longrightarrow> P (n_data n) \<Longrightarrow> heap_holds P (h @ [Some n])"
  by (auto simp: heap_holds_def nth_append split: if_splits)

lemma holds_insert_first: "heap_holds P (t_heap t) \<Longrightarrow> returns (insert_first b node t) (\<lambda>t. heap_holds P (t_heap t))"
  unfolding insert_first_def
  by (rule returns_bind [OF returns_any], rule returns_bind [OF heap_holds_update], assumption, simp, rule returns_if,
    rule returns_simple, simp, rule returns_bind [OF heap_holds_update], assumption, simp, rule returns_simple, simp)

lemma holds_insert_after: "heap_holds P (t_heap t) \<Longrightarrow> returns (insert_after m b first node t) (\<lambda>t. heap_holds P (t_heap t))"
  unfolding insert_after_def
  by (rule returns_bind [OF returns_any], rule returns_bind [OF returns_any], rule returns_bind [OF heap_holds_update], assumption, simp,
    rule returns_bind [where Q = "heap_holds P"], rule returns_if, rule heap_holds_update, assumption, simp, rule returns_simple, assumption,
    rule returns_bind [OF heap_holds_update], assumption, simp, rule returns_bind [OF heap_holds_update], assumption, simp, rule returns_simple, simp)

lemma holds_insert: "holds P t \<Longrightarrow> P v \<Longrightarrow> returns (table_insert hashf eq t k v) (holds P)"
proof -
  assume t: "holds P t" and v: "P v"
  let ?n = "\<lambda>b. \<lparr>n_next = None, n_prev = None, n_data = v, n_key = k, n_hash = b\<rparr>"
  have grown: "heap_holds P (t_heap (t\<lparr>t_heap := t_heap t @ [Some (?n b)]\<rparr>))" for b
    using t v by (simp add: holds_heap heap_holds_alloc)
  show ?thesis
    unfolding table_insert_def alloc_def prod.case
    by (rule returns_bind [OF returns_any], rule returns_guard, rule returns_bind [OF returns_any], rule returns_bind [OF returns_any],
      rule returns_bind [where Q = "\<lambda>t. heap_holds P (t_heap t)"], rule returns_if)
      (auto intro!: holds_insert_first holds_insert_after grown returns_simple simp: holds_heap)
qed

lemma holds_set: "holds P t \<Longrightarrow> P v \<Longrightarrow> returns (table_set hashf eq rekey t k v) (holds P)"
  unfolding table_set_def
  by (rule returns_bind [OF returns_any], rule returns_if, rule returns_bind [OF heap_holds_update [where P = P]])
    (auto intro!: holds_insert returns_simple simp: holds_heap)

end
