(* ===== verification/Dwarf_Types_Invariant.thy ===== *)
theory Dwarf_Types_Invariant
  imports Dwarf_Types_Laws
begin

text \<open>The invariant of the state while types are read, and what each step does to it.\<close>

section \<open>The invariant\<close>

definition alive :: "DwarfState \<Rightarrow> nat set" where
  "alive st = {p. \<exists>t. cell (dw_types st) p t}"

definition type_ok :: "nat set \<Rightarrow> DwType \<Rightarrow> bool" where
  "type_ok A t \<longleftrightarrow> ti_typediffStatus t = ETS_NOT_DONE \<and> ti_diffAgainst t = None \<and> ti_transformer t = None \<and>
     set_option (ti_pointedType t) \<subseteq> A \<and> (\<forall>q. Some q \<in> set (ti_fieldTypes t) \<longrightarrow> q \<in> A) \<and>
     length (ti_fields t) = ti_numFields t \<and> length (ti_fieldTypes t) = ti_numFields t \<and>
     length (ti_lowerBounds t) = ti_depth t \<and> length (ti_upperBounds t) = ti_depth t"

definition datum_types :: "Datum \<Rightarrow> nat set" where
  "datum_types d = (case d of DType p \<Rightarrow> {p} | _ \<Rightarrow> {})"

definition cu_ok :: "nat set \<Rightarrow> CompilationUnit \<Rightarrow> bool" where
  "cu_ok A cu \<longleftrightarrow> holds (\<lambda>p. p \<in> A) (cu_types cu) \<and> holds (\<lambda>d. datum_types d \<subseteq> A) (cu_parsedDies cu)"

definition state_ok :: "nat set \<Rightarrow> DwarfState \<Rightarrow> bool" where
  "state_ok A st \<longleftrightarrow> (\<forall>p t. cell (dw_types st) p t \<longrightarrow> type_ok A t) \<and>
     (\<forall>v x. cell (dw_vars st) v x \<longrightarrow> set_option (vi_type x) \<subseteq> A) \<and>
     (\<forall>s \<in> set (dw_subs st). set (sb_types s) \<subseteq> A) \<and> (\<forall>cu \<in> set (dw_cus st). cu_ok A cu)"

definition sound :: "nat set \<Rightarrow> DwarfState \<Rightarrow> bool" where
  "sound L st \<longleftrightarrow> L \<subseteq> alive st \<and> state_ok (alive st) st"

lemma type_ok_mono: "type_ok A t \<Longrightarrow> A \<subseteq> B \<Longrightarrow> type_ok B t"
  by (auto simp: type_ok_def)

lemma holds_mono: "holds P t \<Longrightarrow> (\<And>v. P v \<Longrightarrow> Q v) \<Longrightarrow> holds Q t"
  by (auto simp: holds_def)

lemma cu_ok_mono: "cu_ok A cu \<Longrightarrow> A \<subseteq> B \<Longrightarrow> cu_ok B cu"
  unfolding cu_ok_def by (blast intro: holds_mono)

lemma state_ok_mono: "state_ok A st \<Longrightarrow> A \<subseteq> B \<Longrightarrow> state_ok B st"
  unfolding state_ok_def by (blast intro: type_ok_mono cu_ok_mono)

lemma sound_subset: "sound L st \<Longrightarrow> M \<subseteq> L \<Longrightarrow> sound M st"
  by (auto simp: sound_def)

lemma soundD:
  assumes "sound L st"
  shows "L \<subseteq> alive st" "\<And>p t. cell (dw_types st) p t \<Longrightarrow> type_ok (alive st) t"
    "\<And>v x. cell (dw_vars st) v x \<Longrightarrow> set_option (vi_type x) \<subseteq> alive st"
    "\<And>s. s \<in> set (dw_subs st) \<Longrightarrow> set (sb_types s) \<subseteq> alive st" "\<And>cu. cu \<in> set (dw_cus st) \<Longrightarrow> cu_ok (alive st) cu"
  using assms unfolding sound_def state_ok_def by blast+

lemma soundI:
  assumes "L \<subseteq> alive st" "\<And>p t. cell (dw_types st) p t \<Longrightarrow> type_ok (alive st) t"
    "\<And>v x. cell (dw_vars st) v x \<Longrightarrow> set_option (vi_type x) \<subseteq> alive st"
    "\<And>s. s \<in> set (dw_subs st) \<Longrightarrow> set (sb_types s) \<subseteq> alive st" "\<And>cu. cu \<in> set (dw_cus st) \<Longrightarrow> cu_ok (alive st) cu"
  shows "sound L st"
  using assms unfolding sound_def state_ok_def by blast

section \<open>Steps on types\<close>

lemma blank_type_ok [simp]: "type_ok A (blank_type k name c)" "type_ok A (blank_type k name c\<lparr>ti_incomplete := b\<rparr>)"
  "type_ok A (blank_type k name c\<lparr>ti_length := n, ti_incomplete := b\<rparr>)"
  "type_ok A (blank_type k name c\<lparr>ti_declaration := b', ti_incomplete := b\<rparr>)"
  by (simp_all add: type_ok_def blank_type_def)

lemma alive_new: "new_type st t = (st', p) \<Longrightarrow> alive st' = insert p (alive st) \<and> p \<notin> alive st"
  by (auto simp: new_type_def alloc_def alive_def nth_append less_Suc_eq split: if_splits)

lemma sound_new:
  assumes "sound L st" "new_type st t = (st', p)" "\<And>A. type_ok A t"
  shows "sound (insert p L) st'"
proof -
  note al = alive_new [OF assms(2)]
  have ok: "state_ok (alive st') st"
    using assms(1) al state_ok_mono [of "alive st" st "alive st'"] by (auto simp: sound_def)
  have same: "dw_types st' = dw_types st @ [Some t]" "dw_vars st' = dw_vars st" "dw_subs st' = dw_subs st" "dw_cus st' = dw_cus st"
    using assms(2) by (auto simp: new_type_def alloc_def)
  have "type_ok (alive st') u" if "cell (dw_types st') q u" for q u
  proof (cases "q < length (dw_types st)")
    case True
    with that ok show ?thesis by (simp add: same nth_append state_ok_def)
  next
    case False
    with that have "q = length (dw_types st)" "u = t" by (auto simp: same nth_append less_Suc_eq)
    with assms(3) show ?thesis by simp
  qed
  then have "state_ok (alive st') st'" using ok by (simp add: state_ok_def same(2-4))
  then show ?thesis using assms(1) al by (auto simp: sound_def)
qed

lemma modify_sound:
  assumes "sound L st" "\<And>t t'. L \<subseteq> alive st \<Longrightarrow> type_ok (alive st) t \<Longrightarrow> f t = Inr t' \<Longrightarrow> type_ok (alive st) t'"
  shows "returns (modify_type st p f) (sound L)"
  unfolding returns_def
proof (intro allI impI)
  fix st'
  assume "modify_type st p f = Inr st'"
  then obtain t t' where t: "cell (dw_types st) p t" "f t = Inr t'" and st': "st' = st\<lparr>dw_types := (dw_types st)[p := Some t']\<rparr>"
    by (auto simp: modify_type_def bindE_eq_Inr load_eq_Inr)
  note D = soundD [OF assms(1)]
  have cells: "cell (dw_types st') q u \<Longrightarrow> u = t' \<or> cell (dw_types st) q u" for q u
    by (cases "p = q") (auto simp: st' nth_list_update)
  have al: "alive st' = alive st" using t(1) by (auto simp: alive_def st' nth_list_update)
  have "type_ok (alive st) t'" by (rule assms(2) [OF D(1) D(2) [OF t(1)] t(2)])
  then have ok: "type_ok (alive st') u" if "cell (dw_types st') q u" for q u
    using cells [OF that] D(2) by (auto simp: al)
  have "dw_vars st' = dw_vars st" "dw_subs st' = dw_subs st" "dw_cus st' = dw_cus st" by (simp_all add: st')
  with D ok show "sound L st'" by (intro soundI) (simp_all add: al)
qed

lemma set_type_then:
  assumes "sound L st" "\<And>A t. L \<subseteq> A \<Longrightarrow> type_ok A t \<Longrightarrow> type_ok A (f t)" "\<And>st. sound L st \<Longrightarrow> returns (k st) P"
  shows "returns (bindE (set_type st p f) k) P"
  unfolding set_type_def by (rule returns_bind [OF modify_sound [OF assms(1)]]) (use assms(2,3) in auto)

lemma grab_sound: "sound L st \<Longrightarrow> returns (grabRefCounted st p) (sound L)"
  unfolding grabRefCounted_def by (erule modify_sound) (auto simp: bindE_eq_Inr type_ok_def)

lemma grab_then: "sound L st \<Longrightarrow> (\<And>st. sound L st \<Longrightarrow> returns (k st) P) \<Longrightarrow> returns (bindE (grabRefCounted st p) k) P"
  by (rule returns_bind [OF grab_sound])

lemma set_field_then:
  assumes "sound L st" "\<And>st. sound L st \<Longrightarrow> returns (k st) P"
  shows "returns (bindE (modify_type st p (set_field idx name)) k) P"
    "returns (bindE (modify_type st p (set_fieldOffset idx v)) k) P"
  by (rule returns_bind [OF modify_sound [OF assms(1)] assms(2)],
      auto simp: set_field_def set_fieldOffset_def bindE_eq_Inr store_at_def type_ok_def split: if_splits)+

lemma set_fieldType_then:
  assumes "sound L st" "q \<in> L" "\<And>st. sound L st \<Longrightarrow> returns (k st) P"
  shows "returns (bindE (modify_type st p (set_fieldType idx q)) k) P"
  by (rule returns_bind [OF modify_sound [OF assms(1)] assms(3)])
    (use assms(2) in \<open>auto simp: set_fieldType_def bindE_eq_Inr store_at_def type_ok_def dest!: set_update_subset_insert [THEN subsetD]
      split: if_splits\<close>)

lemma grow_fields_ok: "type_ok A t \<Longrightarrow> type_ok A (grow_fields b t)"
  by (auto simp: type_ok_def grow_fields_def resized_def Let_def)

section \<open>Steps on the tables\<close>

lemma modify_cu_sound:
  assumes "sound L st" "\<And>cu. L \<subseteq> alive st \<Longrightarrow> cu_ok (alive st) cu \<Longrightarrow> returns (f cu) (cu_ok (alive st))"
  shows "returns (modify_cu st c f) (sound L)"
  unfolding returns_def
proof (intro allI impI)
  fix st'
  assume "modify_cu st c f = Inr st'"
  then obtain cu' where c: "c < length (dw_cus st)" "f (dw_cus st ! c) = Inr cu'" and st': "st' = st\<lparr>dw_cus := (dw_cus st)[c := cu']\<rparr>"
    by (auto simp: modify_cu_def bindE_eq_Inr elem_at_eq_Inr)
  have "cu_ok (alive st) (dw_cus st ! c)" "L \<subseteq> alive st" using assms(1) c(1) by (auto simp: sound_def state_ok_def)
  with assms(2) c(2) have "cu_ok (alive st) cu'" by (auto simp: returns_def)
  moreover have "alive st' = alive st" by (simp add: alive_def st')
  ultimately show "sound L st'"
    using assms(1) by (auto simp: sound_def state_ok_def st' dest!: set_update_subset_insert [THEN subsetD])
qed

lemma insert_type_sound:
  assumes "sound L st" "p \<in> L"
  shows "returns (insert_type st c name p) (sound L)"
  unfolding insert_type_def
proof (rule returns_bind [OF modify_cu_sound [OF assms(1)] grab_sound])
  fix cu
  assume L: "L \<subseteq> alive st" and cu: "cu_ok (alive st) cu"
  have "holds (\<lambda>p. p \<in> alive st) (cu_types cu)" "p \<in> alive st" using cu L assms(2) by (auto simp: cu_ok_def)
  then show "returns (bindE (dictInsert (cu_types cu) name p) (\<lambda>d. Inr (cu\<lparr>cu_types := d\<rparr>))) (cu_ok (alive st))"
    unfolding dictInsert_def
    by (intro returns_bind [OF holds_insert] returns_simple) (use cu in \<open>auto simp: cu_ok_def\<close>)
qed

lemma put_type_sound:
  assumes "sound L st" "p \<in> L"
  shows "returns (put_type st c name p) (sound L)"
  unfolding put_type_def
proof (rule returns_bind [OF modify_cu_sound [OF assms(1)] grab_sound])
  fix cu
  assume L: "L \<subseteq> alive st" and cu: "cu_ok (alive st) cu"
  have "holds (\<lambda>p. p \<in> alive st) (cu_types cu)" "p \<in> alive st" using cu L assms(2) by (auto simp: cu_ok_def)
  then show "returns (bindE (dictSet (cu_types cu) name p) (\<lambda>d. Inr (cu\<lparr>cu_types := d\<rparr>))) (cu_ok (alive st))"
    unfolding dictSet_def
    by (intro returns_bind [OF holds_set] returns_simple) (use cu in \<open>auto simp: cu_ok_def\<close>)
qed

lemma setParsedDie_sound:
  assumes "sound L st" "datum_types d \<subseteq> L"
  shows "returns (setParsedDie st c off d) (sound L)"
  unfolding setParsedDie_def
proof (rule modify_cu_sound [OF assms(1)])
  fix cu
  assume L: "L \<subseteq> alive st" and cu: "cu_ok (alive st) cu"
  have "holds (\<lambda>d. datum_types d \<subseteq> alive st) (cu_parsedDies cu)" "datum_types d \<subseteq> alive st" using cu L assms(2) by (auto simp: cu_ok_def)
  then show "returns (bindE (mapSet (cu_parsedDies cu) off d) (\<lambda>m. Inr (cu\<lparr>cu_parsedDies := m\<rparr>))) (cu_ok (alive st))"
    unfolding mapSet_def
    by (intro returns_bind [OF holds_set] returns_simple) (use cu in \<open>auto simp: cu_ok_def\<close>)
qed

lemma table_thens:
  assumes "sound L st" "\<And>st. sound L st \<Longrightarrow> returns (k st) P"
  shows "p \<in> L \<Longrightarrow> returns (bindE (insert_type st c name p) k) P" "p \<in> L \<Longrightarrow> returns (bindE (put_type st c name p) k) P"
    "datum_types d \<subseteq> L \<Longrightarrow> returns (bindE (setParsedDie st c off d) k) P"
  by (rule returns_bind [OF insert_type_sound [OF assms(1)] assms(2)] returns_bind [OF put_type_sound [OF assms(1)] assms(2)]
      returns_bind [OF setParsedDie_sound [OF assms(1)] assms(2)], assumption+)+

lemma find_type_then:
  assumes "sound L st" "\<And>r. sound (set_option r \<union> L) st \<Longrightarrow> returns (k r) P"
  shows "returns (bindE (find_type st c name) k) P"
proof (rule returns_bind [OF _ assms(2)])
  have "returns (find_type st c name) (\<lambda>r. \<forall>p. r = Some p \<longrightarrow> p \<in> alive st)"
    unfolding find_type_def dictGet_def
  proof (rule returns_bind [where Q = "cu_ok (alive st)"])
    show "returns (elem_at (dw_cus st) c) (cu_ok (alive st))"
      using assms(1) by (auto simp: returns_def elem_at_eq_Inr sound_def state_ok_def)
  qed (auto simp: cu_ok_def intro: holds_get)
  then show "returns (find_type st c name) (\<lambda>r. sound (set_option r \<union> L) st)"
    by (rule returns_mono) (use assms(1) in \<open>auto simp: sound_def\<close>)
qed

lemma parsed_datum_then:
  assumes "sound L st" "\<And>d. sound (datum_types d \<union> L) st \<Longrightarrow> returns (k d) P"
  shows "returns (bindE (parsed_datum st c off) k) P"
proof (rule returns_bind [OF _ assms(2)])
  have "returns (parsed_datum st c off) (\<lambda>d. datum_types d \<subseteq> alive st)"
    unfolding parsed_datum_def mapGet_def
  proof (rule returns_bind [where Q = "cu_ok (alive st)"])
    show "returns (elem_at (dw_cus st) c) (cu_ok (alive st))"
      using assms(1) by (auto simp: returns_def elem_at_eq_Inr sound_def state_ok_def)
  next
    fix cu
    assume "cu_ok (alive st) cu"
    then have "holds (\<lambda>d. datum_types d \<subseteq> alive st) (cu_parsedDies cu)" by (simp add: cu_ok_def)
    from holds_get [OF this] show "returns (bindE (table_get (m_hashfunc (cu_parsedDies cu)) (map_eq (cu_parsedDies cu)) (cu_parsedDies cu) off)
        (\<lambda>r. Inr (case r of None \<Rightarrow> DNull | Some d \<Rightarrow> d))) (\<lambda>d. datum_types d \<subseteq> alive st)"
      by (rule returns_bind) (auto simp: datum_types_def intro!: returns_simple split: option.splits)
  qed
  then show "returns (parsed_datum st c off) (\<lambda>d. sound (datum_types d \<union> L) st)"
    by (rule returns_mono) (use assms(1) in \<open>auto simp: sound_def\<close>)
qed

end
