(* ===== verification/Dwarf_Types_Walk.thy ===== *)
theory Dwarf_Types_Walk
  imports Dwarf_Types_Invariant
begin

text \<open>Every operation that reads an entry keeps the invariant; what the walk over all entries leaves can be compared.\<close>

section \<open>Sequencing\<close>

text \<open>Each rule is for a run that starts with a certain step, in a sound state.\<close>

lemma pure_then: "(\<And>x. returns (k x) P) \<Longrightarrow> returns (bindE m k) P"
  by (rule returns_bind [OF returns_any])

lemma load_then: "(\<And>x. m = Inr x \<Longrightarrow> returns (k x) P) \<Longrightarrow> returns (bindE m k) P"
  by (auto simp: returns_def bindE_eq_Inr)

lemma new_then:
  assumes "sound L st" "\<And>A. type_ok A t" "\<And>st' p. sound (insert p L) st' \<Longrightarrow> returns (k st' p) P"
  shows "returns (case new_type st t of (st', p) \<Rightarrow> k st' p) P"
  using assms sound_new by (metis (no_types, lifting) returns_pair)

definition reader_ok :: "type_reader \<Rightarrow> bool" where
  "reader_ok get \<longleftrightarrow> (\<forall>L c off st. sound L st \<longrightarrow> returns (get c off st) (\<lambda>(st', r). sound (set_option r \<union> L) st'))"

lemma get_then:
  assumes "sound L st" "reader_ok get" "\<And>st' r. sound (set_option r \<union> L) st' \<Longrightarrow> returns (k st' r) P"
  shows "returns (bindE (get c off st) (\<lambda>(st', r). k st' r)) P"
  by (rule returns_bind [where Q = "\<lambda>(st', r). sound (set_option r \<union> L) st'"]) (use assms in \<open>auto simp: reader_ok_def\<close>)

lemma fde_then:
  assumes "sound L st" "\<And>st. sound L st \<Longrightarrow> returns (k st) P"
  shows "returns (bindE (getTypeFDE st p d) k) P"
proof (rule returns_bind [OF _ assms(2)])
  have "returns (set_type st p (ti_fde_update (\<lambda>_. v))) (sound L)" for v
    unfolding set_type_def by (rule modify_sound [OF assms(1)]) (auto simp: type_ok_def)
  then show "returns (getTypeFDE st p d) (sound L)"
    using assms(1) by (auto simp: getTypeFDE_def intro!: returns_simple pure_then split: option.split)
qed

lemma free_new:
  assumes "sound L st" "new_type st (blank_type k name c) = (st', p)"
  shows "returns (freeTypeInfo fuel st' p) (sound L)"
proof -
  have p: "p = length (dw_types st)" "st' = st\<lparr>dw_types := dw_types st @ [Some (blank_type k name c)]\<rparr>"
    using assms(2) by (auto simp: new_type_def alloc_def)
  have "returns (freeTypeInfo fuel st' p) (\<lambda>st''. st'' = st\<lparr>dw_types := dw_types st @ [None]\<rparr>)"
    by (cases fuel) (auto simp: returns_def freeTypeInfo_def p bindE_eq_Inr load_def blank_type_def free_cell_def)
  then show ?thesis
  proof (rule returns_mono)
    fix st''
    assume st'': "st'' = st\<lparr>dw_types := dw_types st @ [None]\<rparr>"
    have cells: "cell (dw_types st'') q t \<longleftrightarrow> cell (dw_types st) q t" for q t
      by (cases "q < length (dw_types st)") (auto simp: st'' nth_append less_Suc_eq)
    then have al: "alive st'' = alive st" by (simp add: alive_def)
    have "dw_vars st'' = dw_vars st" "dw_subs st'' = dw_subs st" "dw_cus st'' = dw_cus st" by (simp_all add: st'')
    with soundD [OF assms(1)] cells show "sound L st''" by (intro soundI) (simp_all add: al)
  qed
qed

text \<open>What a reader of one type returns: a sound state and a live type.\<close>

abbreviation type_read :: "nat set \<Rightarrow> (DwarfState \<times> ptr) result \<Rightarrow> bool" where
  "type_read L m \<equiv> returns m (\<lambda>(st, r). sound (set_option r \<union> L) st)"

lemma type_readI: "sound M st \<Longrightarrow> set_option r \<union> L \<subseteq> M \<Longrightarrow> returns (Inr (st, r)) (\<lambda>(st, r). sound (set_option r \<union> L) st)"
  by (auto simp: returns_def intro: sound_subset)

lemmas thens = set_type_then grab_then set_field_then set_fieldType_then table_thens find_type_then parsed_datum_then get_then fde_then

section \<open>Types\<close>

text \<open>A new type that is freed if it has no size, or else given one and entered.\<close>

lemma sized_type_then:
  assumes "sound L st" "\<And>st' p. sound (insert p L) st' \<Longrightarrow> returns (k st' p) (\<lambda>(st, r). sound (set_option r \<union> L) st)"
  shows "type_read L (case new_type st (blank_type t name c) of (st, p) \<Rightarrow>
      case bs of None \<Rightarrow> bindE (freeTypeInfo fuel st p) (\<lambda>st. Inr (st, None))
      | Some n \<Rightarrow> bindE (set_type st p (ti_length_update (\<lambda>_. f n))) (\<lambda>st. k st p))"
proof (rule returns_pair, rule returns_option)
  fix st' p
  assume new: "new_type st (blank_type t name c) = (st', p)"
  show "type_read L (bindE (freeTypeInfo fuel st' p) (\<lambda>st. Inr (st, None)))"
    by (rule returns_bind [OF free_new [OF assms(1) new]], erule type_readI) simp
  fix n
  have "sound (insert p L) st'" using sound_new [OF assms(1) new] by simp
  then show "type_read L (bindE (set_type st' p (ti_length_update (\<lambda>_. f n))) (\<lambda>st. k st p))"
    by (rule set_type_then) (auto simp: type_ok_def intro: assms(2))
qed

lemma addBaseTypeFromDie_ok:
  assumes "sound L st"
  shows "type_read L (addBaseTypeFromDie fuel dbg off d c st)"
  unfolding addBaseTypeFromDie_def Let_def
  by (rule pure_then, rule sized_type_then [OF assms], erule table_thens, erule type_readI) auto

lemma addEnumFromDie_ok:
  assumes "sound L st"
  shows "type_read L (addEnumFromDie fuel dbg off d c st)"
  unfolding addEnumFromDie_def Let_def
  by (rule pure_then, rule sized_type_then [OF assms], erule table_thens, erule fde_then, erule type_readI) auto

lemma add_members_ok:
  assumes "reader_ok get"
  shows "sound L st \<Longrightarrow> returns (add_members fuel get dbg c p ds idx guess st) (sound L)"
proof (induction ds arbitrary: idx guess st L rule: list.induct)
  case Nil
  then show ?case by (simp add: returns_simple)
next
  case (Cons od ds)
  obtain off d where od: "od = (off, d)" by (cases od)
  show ?case
    unfolding od add_members.simps
    apply (rule returns_if)
     apply (rule Cons.IH [OF Cons.prems])
    apply (rule set_type_then [OF Cons.prems], rule grow_fields_ok, assumption)
    apply (rule pure_then)
    apply (erule set_field_then)
    apply (erule get_then [OF _ assms])
    apply (rule returns_option, rule returns_simple)
    apply (rule pure_then)
    apply (erule set_field_then)
    apply (rule pure_then)
    apply (erule set_fieldType_then, simp)
    apply (erule grab_then)
    apply (rule returns_mono, erule Cons.IH)
    apply (erule sound_subset, blast)
    done
qed


lemma finish_members_ok:
  assumes "sound L st" "p \<in> L" "reader_ok get"
  shows "type_read L (finish_members fuel get dbg c p d st)"
  unfolding finish_members_def
  apply (rule pure_then)
  apply (rule returns_bind [OF add_members_ok [OF assms(3,1)]])
  apply (erule fde_then)
  apply (erule set_type_then, simp add: type_ok_def)
  apply (erule type_readI)
  using assms(2) by simp

lemma new_typeI: "sound L st \<Longrightarrow> (\<And>A. type_ok A t) \<Longrightarrow> case new_type st t of (st, p) \<Rightarrow> sound (insert p L) st"
  using sound_new by (metis (lifting) case_prodI2)

lemma addUnionFromDie_ok:
  assumes "sound L st" "reader_ok get"
  shows "type_read L (addUnionFromDie fuel get dbg off d c st)"
  unfolding addUnionFromDie_def Let_def
  apply (rule pure_then, rule returns_option, rule returns_simple)
  apply (rule new_then [OF assms(1)], simp)
  apply (erule table_thens, erule table_thens)
    apply (rule returns_mono, erule finish_members_ok, simp, rule assms(2))
    apply (auto simp: datum_types_def intro: sound_subset)
  done

lemma addConstTypeFromDie_ok:
  assumes "sound L st" "reader_ok get"
  shows "type_read L (addConstTypeFromDie fuel get dbg off d c st)"
  unfolding addConstTypeFromDie_def Let_def
  apply (rule pure_then, rule find_type_then [OF assms(1)], rule returns_if)
   apply (erule type_readI, simp)
  apply (rule new_then, assumption, simp)
  apply (erule table_thens)
   apply (erule table_thens)
    apply (erule get_then [OF _ assms(2)])
    apply (rule returns_option, rule returns_simple)
    apply (erule set_type_then, force simp: type_ok_def)
    apply (rule pure_then)
    apply (erule set_type_then, simp add: type_ok_def)
    apply (erule fde_then)
    apply (erule set_type_then, simp add: type_ok_def)
    apply (erule type_readI)
    apply (auto simp: datum_types_def)
  done

lemma addPointerTypeFromDie_ok:
  assumes "sound L st" "reader_ok get" "die_bytesize d \<noteq> None"
  shows "type_read L (addPointerTypeFromDie fuel get dbg off d c st)"
  unfolding addPointerTypeFromDie_def Let_def
  apply (rule pure_then, rule find_type_then [OF assms(1)], rule returns_if)
   apply (erule type_readI, simp)
  apply (rule new_then, assumption, simp)
  apply (erule table_thens)
   apply (erule table_thens)
    apply (rule returns_option, use assms(3) in simp)
    apply (erule set_type_then, simp add: type_ok_def)
    apply (erule get_then [OF _ assms(2)])
    apply (erule set_type_then, force simp: type_ok_def)
    apply (erule fde_then)
    apply (erule set_type_then, simp add: type_ok_def)
    apply (erule type_readI)
    apply (auto simp: datum_types_def)
  done

lemma addArrayTypeFromDie_ok:
  assumes "sound L st" "reader_ok get"
  shows "type_read L (addArrayTypeFromDie fuel get dbg off d c st)"
  unfolding addArrayTypeFromDie_def Let_def
  apply (rule pure_then)
  apply (rule new_then [OF assms(1)], simp)
  apply (erule table_thens)
   apply (erule get_then [OF _ assms(2)])
   apply (rule returns_option, rule returns_simple)
   apply (rule pure_then, rule pure_then)
   apply (erule set_type_then, force simp: type_ok_def)
   apply (erule fde_then)
   apply (erule table_thens)
    apply (erule type_readI)
    apply (auto simp: datum_types_def)
  done

lemma addTypedefFromDie_ok:
  assumes "sound L st" "reader_ok get"
  shows "type_read L (addTypedefFromDie fuel get dbg off c st)"
proof -
  have known: "returns (if known = None then insert_type st c name p else Inr st) (sound L)" if "sound L st" "p \<in> L" for known name p st L
    using that by (auto intro: returns_simple insert_type_sound)
  show ?thesis
    unfolding addTypedefFromDie_def
    apply (rule pure_then)
    apply (rule get_then [OF assms])
    apply (rule returns_option, erule type_readI, simp)
    apply (erule find_type_then)
    apply (rule returns_bind, erule known, simp)
    apply (erule type_readI, auto)
    done
qed

lemma add_parameters_ok:
  assumes "reader_ok get"
  shows "sound L st \<Longrightarrow> returns (add_parameters fuel get dbg c p ds idx st) (sound L)"
proof (induction ds arbitrary: idx st L rule: list.induct)
  case Nil
  then show ?case by (simp add: returns_simple)
next
  case (Cons od ds)
  obtain off d where od: "od = (off, d)" by (cases od)
  have "returns (if b then set_type st p (ti_hasVariableParams_update (\<lambda>_. True)) else Inr st) (sound L)" for b
    unfolding set_type_def
    by (rule returns_if, rule modify_sound [OF Cons.prems], auto simp: type_ok_def intro: returns_simple Cons.prems)
  then show ?case
    unfolding od add_parameters.simps
    apply (rule returns_bind)
    apply (rule returns_if)
     apply (erule Cons.IH)
    apply (erule set_type_then, rule grow_fields_ok, assumption)
    apply (rule pure_then)
    apply (erule set_field_then)
    apply (erule get_then [OF _ assms])
    apply (rule returns_option, rule returns_simple)
    apply (erule set_fieldType_then, simp)
    apply (erule grab_then)
    apply (erule grab_then)
    apply (rule returns_mono, erule Cons.IH)
    apply (erule sound_subset, blast)
    done
qed

lemma addSubroutineType_ok:
  assumes "sound L st" "reader_ok get"
  shows "type_read L (addSubroutineType fuel get dbg off d c st)"
  unfolding addSubroutineType_def Let_def
  apply (rule pure_then, rule pure_then, rule pure_then)
  apply (rule new_then [OF assms(1)], simp)
  apply (erule table_thens)
   apply (erule table_thens)
    apply (rule pure_then)
    apply (rule returns_bind, erule add_parameters_ok [OF assms(2)])
    apply (erule set_type_then, simp add: type_ok_def)
    apply (erule type_readI)
    apply (auto simp: datum_types_def)
  done


section \<open>Structures\<close>

text \<open>
  A structure without a size is freed although the tables have it, unless it is declared only; so is a pointer.  \<open>sized\<close> rules
  this out.
\<close>

definition sized_die :: "DIE \<Rightarrow> bool" where
  "sized_die d \<longleftrightarrow> (die_tag d = DW_TAG_pointer_type \<longrightarrow> die_bytesize d \<noteq> None) \<and>
     (die_tag d = DW_TAG_structure_type \<longrightarrow> die_bytesize d \<noteq> None \<or>
       (case dwarf_attr d DW_AT_declaration of None \<Rightarrow> False
        | Some attr \<Rightarrow> (case readAttributeAsInt attr of Inr v \<Rightarrow> v \<noteq> 0 | Inl e \<Rightarrow> False)))"

definition sized :: "dwarf_debug \<Rightarrow> bool" where
  "sized dbg \<longleftrightarrow> (\<forall>d \<in> snd ` set dbg. sized_die d)"

definition declared :: "nat \<Rightarrow> DwarfState \<Rightarrow> bool" where
  "declared p st \<longleftrightarrow> (\<exists>t. cell (dw_types st) p t \<and> ti_declaration t)"

lemma returns_both: "returns m P \<Longrightarrow> returns m Q \<Longrightarrow> returns m (\<lambda>x. P x \<and> Q x)"
  by (auto simp: returns_def)

lemma returns_implies: "(b \<Longrightarrow> returns m P) \<Longrightarrow> returns m (\<lambda>x. b \<longrightarrow> P x)"
  by (auto simp: returns_def)

lemma grab_declared: "declared p st \<Longrightarrow> returns (grabRefCounted st q) (declared p)"
  by (auto simp: returns_def grabRefCounted_def modify_type_def bindE_eq_Inr load_eq_Inr declared_def nth_list_update)

lemma modify_cu_declared: "declared p st \<Longrightarrow> returns (modify_cu st c f) (declared p)"
  by (auto simp: returns_def modify_cu_def bindE_eq_Inr declared_def)

lemma put_type_declared: "declared p st \<Longrightarrow> returns (put_type st c name q) (declared p)"
  unfolding put_type_def by (rule returns_bind [OF modify_cu_declared grab_declared])

lemma note_declaration_ok:
  assumes "sound L st"
  shows "returns (note_declaration st p d)
    (\<lambda>st. sound L st \<and> (sized_die d \<and> die_tag d = DW_TAG_structure_type \<and> die_bytesize d = None \<longrightarrow> declared p st))"
proof (rule returns_both)
  have "returns (set_type st p (ti_declaration_update (\<lambda>_. v))) (sound L)" for v
    unfolding set_type_def by (rule modify_sound [OF assms]) (auto simp: type_ok_def)
  then show "returns (note_declaration st p d) (sound L)"
    using assms by (auto simp: note_declaration_def intro!: returns_simple pure_then split: option.split)
  show "returns (note_declaration st p d)
      (\<lambda>st. sized_die d \<and> die_tag d = DW_TAG_structure_type \<and> die_bytesize d = None \<longrightarrow> declared p st)"
    by (auto simp: returns_def note_declaration_def sized_die_def set_type_def modify_type_def bindE_eq_Inr load_eq_Inr declared_def
        split: option.splits sum.splits)
qed

text \<open>The end of a structure: it is in the tables, so it must not be freed.\<close>

lemma structure_rest:
  assumes "sound L st" "p \<in> L" "die_bytesize d = None \<longrightarrow> declared p st" "reader_ok get"
  shows "type_read L
    (bindE (load (dw_types st) (Some p)) (\<lambda>t.
     if ti_declaration t then Inr (st, Some p)
     else
       bindE (set_type st p (ti_incomplete_update (\<lambda>_. True))) (\<lambda>st.
       case die_bytesize d of
         None \<Rightarrow> bindE (freeTypeInfo fuel st p) (\<lambda>st. Inr (st, None))
       | Some byteSize \<Rightarrow>
           bindE (set_type st p (ti_length_update (\<lambda>_. sint (ucast byteSize :: 32 word)))) (\<lambda>st.
             finish_members fuel get dbg c p d st))))"
proof (rule load_then, rule returns_if)
  show "type_read L (Inr (st, Some p))" by (rule type_readI [OF assms(1)]) (use assms(2) in simp)
next
  fix t
  assume t: "load (dw_types st) (Some p) = Inr t" "\<not> ti_declaration t"
  then have "die_bytesize d \<noteq> None" using assms(3) by (auto simp: declared_def load_eq_Inr)
  then obtain n where n: "die_bytesize d = Some n" by auto
  show "type_read L (bindE (set_type st p (ti_incomplete_update (\<lambda>_. True))) (\<lambda>st.
       case die_bytesize d of
         None \<Rightarrow> bindE (freeTypeInfo fuel st p) (\<lambda>st. Inr (st, None))
       | Some byteSize \<Rightarrow>
           bindE (set_type st p (ti_length_update (\<lambda>_. sint (ucast byteSize :: 32 word)))) (\<lambda>st.
             finish_members fuel get dbg c p d st)))"
    unfolding n option.case
    apply (rule set_type_then [OF assms(1)], simp add: type_ok_def)
    apply (erule set_type_then, simp add: type_ok_def)
    apply (erule finish_members_ok [OF _ assms(2,4)])
    done
qed

lemma addStructureFromDie_ok:
  assumes "sound L st" "reader_ok get" "sized_die d" "die_tag d = DW_TAG_structure_type"
  shows "type_read L (addStructureFromDie fuel get dbg off d c st)"
  unfolding addStructureFromDie_def
  apply (rule pure_then, rule find_type_then [OF assms(1)])
  apply (rule returns_bind [where Q = "\<lambda>(st, p). sound (insert p L) st"])
   apply (rule returns_option)
    apply (rule returns_simple, rule new_typeI, simp, simp)
   apply (rule pure_then, rule pure_then, rule returns_simple, simp)
  apply (rule returns_pair, simp)
  apply (erule set_type_then, simp add: type_ok_def)
  apply (rule returns_bind, erule note_declaration_ok)
  apply (elim conjE)
  apply (rule returns_bind, rule returns_both, erule put_type_sound, simp, rule returns_implies, erule put_type_declared [OF mp], assumption)
  apply (elim conjE)
  apply (rule returns_bind, rule returns_both, erule setParsedDie_sound, simp add: datum_types_def,
      unfold setParsedDie_def, rule returns_implies, erule modify_cu_declared [OF mp], assumption)
  apply (elim conjE)
  apply (rule returns_mono, erule structure_rest)
     apply simp
    apply (simp add: assms(3,4))
   apply (rule assms(2))
  apply (auto intro: sound_subset)
  done

section \<open>Variables and functions\<close>

lemma on_active_sound:
  assumes "sound L st" "\<And>A s. L \<subseteq> A \<Longrightarrow> set (sb_types s) \<subseteq> A \<Longrightarrow> set (sb_types (f s)) \<subseteq> A"
  shows "returns (on_active f st) (sound L)"
proof -
  note D = soundD [OF assms(1)]
  let ?P = "\<lambda>subs. \<forall>s \<in> set subs. set (sb_types s) \<subseteq> alive st"
  have "?P (fold (\<lambda>s subs. subs[s := f (subs ! s)]) as subs)" if "?P subs" for as subs
    using that
  proof (induction as arbitrary: subs)
    case (Cons a as)
    have "?P (subs[a := f (subs ! a)])"
    proof (cases "a < length subs")
      case True
      with Cons.prems have "set (sb_types (f (subs ! a))) \<subseteq> alive st" by (intro assms(2) [OF D(1)]) auto
      with Cons.prems show ?thesis using set_update_subset_insert [of subs a] by blast
    qed (use Cons.prems in \<open>simp add: not_less list_update_beyond\<close>)
    then show ?case by (simp add: Cons.IH)
  qed simp
  with D(4) have subs: "?P (fold (\<lambda>s subs. subs[s := f (subs ! s)]) as (dw_subs st))" for as by blast
  have "sound L (st\<lparr>dw_subs := fold (\<lambda>s subs. subs[s := f (subs ! s)]) as (dw_subs st)\<rparr>)" for as
    by (rule soundI) (use D subs in \<open>simp_all add: alive_def\<close>)
  then show ?thesis by (auto simp: on_active_def intro!: pure_then returns_simple)
qed

lemma uses_type_sound: "sound L st \<Longrightarrow> p \<in> L \<Longrightarrow> returns (uses_type p st) (sound L)"
  unfolding uses_type_def by (erule on_active_sound) auto

lemma parseFormalParameter_ok: "sound L st \<Longrightarrow> reader_ok get \<Longrightarrow> returns (parseFormalParameter get off c st) (sound L)"
  unfolding parseFormalParameter_def
  by (erule get_then, assumption, rule returns_option) (auto intro!: returns_simple returns_mono [OF uses_type_sound] elim: sound_subset)

lemma parseUnspecifiedParameters_ok: "sound L st \<Longrightarrow> returns (parseUnspecifiedParameters st) (sound L)"
  unfolding parseUnspecifiedParameters_def by (erule on_active_sound) simp

lemma modify_cu_other:
  assumes "sound L st" "\<And>cu. returns (f cu) (\<lambda>cu'. cu_types cu' = cu_types cu \<and> cu_parsedDies cu' = cu_parsedDies cu)"
  shows "returns (modify_cu st c f) (sound L)"
  by (rule modify_cu_sound [OF assms(1)], rule returns_mono [OF assms(2)]) (simp add: cu_ok_def)

lemma alive_other [simp]:
  "alive (st\<lparr>dw_cuIdentifiers := ids\<rparr>) = alive st" "alive (st\<lparr>dw_active := as\<rparr>) = alive st" "alive (st\<lparr>dw_vars := vs\<rparr>) = alive st"
  "alive (st\<lparr>dw_subs := ss\<rparr>) = alive st" "alive (st\<lparr>dw_cus := cus\<rparr>) = alive st"
  by (simp_all add: alive_def)

lemma sound_other:
  assumes "sound L st"
  shows "sound L (st\<lparr>dw_cuIdentifiers := ids\<rparr>)" "sound L (st\<lparr>dw_active := as\<rparr>)"
    "set_option (vi_type x) \<subseteq> L \<Longrightarrow> sound L (st\<lparr>dw_vars := dw_vars st @ [Some x]\<rparr>)"
    "sound L (st\<lparr>dw_vars := (dw_vars st)[v := None]\<rparr>)"
    "sb_types s = [] \<Longrightarrow> sound L (st\<lparr>dw_subs := dw_subs st @ [s]\<rparr>)"
    "cu_ok {} cu \<Longrightarrow> sound L (st\<lparr>dw_cus := dw_cus st @ [cu]\<rparr>)"
proof -
  note D = soundD [OF assms]
  have cu: "cu_ok {} cu \<Longrightarrow> cu_ok (alive st) cu" by (erule cu_ok_mono) simp
  show "sound L (st\<lparr>dw_cuIdentifiers := ids\<rparr>)" "sound L (st\<lparr>dw_active := as\<rparr>)"
    by (rule soundI; use D in simp)+
  show "sound L (st\<lparr>dw_vars := dw_vars st @ [Some x]\<rparr>)" if "set_option (vi_type x) \<subseteq> L"
  proof (rule soundI)
    fix v y
    assume "cell (dw_vars (st\<lparr>dw_vars := dw_vars st @ [Some x]\<rparr>)) v y"
    then have "cell (dw_vars st) v y \<or> y = x" by (auto simp: nth_append split: if_splits)
    with D(1,3) that have "set_option (vi_type y) \<subseteq> alive st" by blast
    then show "set_option (vi_type y) \<subseteq> alive (st\<lparr>dw_vars := dw_vars st @ [Some x]\<rparr>)" by simp
  qed (use D in simp_all)
  show "sound L (st\<lparr>dw_vars := (dw_vars st)[v := None]\<rparr>)"
  proof (rule soundI)
    fix w y
    assume "cell (dw_vars (st\<lparr>dw_vars := (dw_vars st)[v := None]\<rparr>)) w y"
    then have "cell (dw_vars st) w y" by (cases "w = v") auto
    with D(3) show "set_option (vi_type y) \<subseteq> alive (st\<lparr>dw_vars := (dw_vars st)[v := None]\<rparr>)" by (metis alive_other(3))
  qed (use D in simp_all)
  show "sound L (st\<lparr>dw_subs := dw_subs st @ [s]\<rparr>)" if "sb_types s = []"
  proof (rule soundI)
    fix r
    assume "r \<in> set (dw_subs (st\<lparr>dw_subs := dw_subs st @ [s]\<rparr>))"
    then have "r \<in> set (dw_subs st) \<or> sb_types r = []" using that by auto
    with D(4) have "set (sb_types r) \<subseteq> alive st" by auto
    then show "set (sb_types r) \<subseteq> alive (st\<lparr>dw_subs := dw_subs st @ [s]\<rparr>)" by simp
  qed (use D in simp_all)
  show "sound L (st\<lparr>dw_cus := dw_cus st @ [cu]\<rparr>)" if "cu_ok {} cu"
  proof (rule soundI)
    fix u
    assume "u \<in> set (dw_cus (st\<lparr>dw_cus := dw_cus st @ [cu]\<rparr>))"
    then have "u \<in> set (dw_cus st) \<or> u = cu" by auto
    with D(5) cu [OF that] have "cu_ok (alive st) u" by blast
    then show "cu_ok (alive (st\<lparr>dw_cus := dw_cus st @ [cu]\<rparr>)) u" by simp
  qed (use D in simp_all)
qed

lemma add_global_ok:
  assumes "sound L st"
  shows "returns (add_global st c name v) (sound L)"
  unfolding add_global_def
  apply (rule pure_then, rule pure_then, rule returns_option)
   apply (rule modify_cu_other [OF assms], rule pure_then, rule returns_simple, simp)
  apply (rule load_then, rule pure_then)
  apply (simp add: free_cell_def)
  apply (rule modify_cu_other [OF sound_other(4) [OF assms]], rule pure_then, rule returns_simple, simp)
  done


lemma addVarFromDie_ok:
  assumes "sound L st" "reader_ok get"
  shows "returns (addVarFromDie fuel get dbg off d c st) (\<lambda>(st, v). sound L st)"
  unfolding addVarFromDie_def alloc_def Let_def prod.case
  apply (rule pure_then, rule pure_then, rule get_then [OF assms], rule returns_option)
   apply (rule returns_simple, simp)
  apply (rule returns_bind [where Q = "\<lambda>st. sound (set_option r \<union> L) st" for r])
   apply (rule returns_if)
    apply (rule add_global_ok, rule sound_other, assumption, simp)
   apply (rule returns_simple, rule sound_other, assumption, simp)
  apply (rule returns_bind, erule uses_type_sound, simp)
  apply (rule returns_simple, auto elim: sound_subset)
  done

lemma addSubprogramFromDie_ok:
  assumes "sound L st"
  shows "returns (addSubprogramFromDie fuel dbg off d c st) (\<lambda>(st, s). sound L st)"
  unfolding addSubprogramFromDie_def Let_def
  apply (rule pure_then, rule pure_then, rule pure_then)
  apply (rule returns_bind, rule modify_cu_other [OF sound_other(5) [OF assms]], simp)
   apply (rule pure_then, rule returns_simple, simp)
  apply (rule returns_simple, simp)
  done

section \<open>The walk\<close>

lemma holds_empty: "holds P (dictCreate n)" "holds P (size_tMapCreate n)"
  by (simp_all add: holds_def dictCreate_def size_tMapCreate_def mapCreate_def)

lemma parseCompileUnit_ok:
  assumes "sound L st"
  shows "returns (parseCompileUnit fuel env dbg off d st) (\<lambda>(st, c). sound L st)"
  unfolding parseCompileUnit_def Let_def
  apply (rule new_then, rule sound_other(6) [OF assms], simp add: cu_ok_def holds_empty, simp)
  apply (erule table_thens)
   apply (rule pure_then, rule pure_then, rule pure_then, rule returns_pair)
   apply (rule returns_bind, rule modify_cu_other [OF sound_other(1)], assumption, rule returns_simple, simp)
   apply (rule returns_simple)
   apply (auto elim: sound_subset)
  done


lemma type_datum_ok: "type_read L m \<Longrightarrow> returns (type_datum m) (\<lambda>(st, d). sound (datum_types d \<union> L) st)"
  unfolding type_datum_def
  by (erule returns_bind) (auto simp: datum_types_def intro!: returns_simple split: option.splits)

text \<open>A step of \<open>parse_tag\<close> with the data it leaves.\<close>

lemma flag_ok: "returns m (\<lambda>(st, d). sound (datum_types d \<union> L) st) \<Longrightarrow>
    returns (bindE m (\<lambda>r. Inr (r, b :: bool))) (\<lambda>((st, d), b). sound (datum_types d \<union> L) st)"
  by (erule returns_bind) (auto intro: returns_simple)

lemma nothing_ok: "returns m (sound L) \<Longrightarrow>
    returns (bindE m (\<lambda>st. Inr ((st, DNull), b :: bool))) (\<lambda>((st, d), b). sound (datum_types d \<union> L) st)"
  by (erule returns_bind) (auto simp: datum_types_def intro: returns_simple)

lemma variable_ok: "returns m (\<lambda>(st, v). sound L st) \<Longrightarrow>
    returns (bindE m (\<lambda>(st, v). Inr (st, case v of None \<Rightarrow> DNull | Some v \<Rightarrow> DVar v))) (\<lambda>(st, d). sound (datum_types d \<union> L) st)"
  by (erule returns_bind) (auto simp: datum_types_def intro!: returns_simple split: option.splits)

lemma subprogram_ok: "returns m (\<lambda>(st, s). sound L st) \<Longrightarrow>
    returns (bindE m (\<lambda>(st, s). Inr (st\<lparr>dw_active := dw_active st @ [s]\<rparr>, DSub s))) (\<lambda>(st, d). sound (datum_types d \<union> L) st)"
  by (erule returns_bind) (auto simp: datum_types_def intro!: returns_simple sound_other)

lemmas add_oks = addBaseTypeFromDie_ok addEnumFromDie_ok addPointerTypeFromDie_ok addConstTypeFromDie_ok addArrayTypeFromDie_ok
  addStructureFromDie_ok addUnionFromDie_ok addTypedefFromDie_ok addSubroutineType_ok addVarFromDie_ok addSubprogramFromDie_ok
  parseFormalParameter_ok parseUnspecifiedParameters_ok

lemma parse_tag_ok:
  assumes "sound L st" "reader_ok get" "sized_die d"
  shows "returns (parse_tag fuel get dbg off d c st) (\<lambda>((st, data), b). sound (datum_types data \<union> L) st)"
  unfolding parse_tag_def Let_def
proof (cases "die_tag d", simp_all only: DW_TAG.case)
  assume t: "die_tag d = DW_TAG_pointer_type"
  then have "die_bytesize d \<noteq> None" using assms(3) by (simp add: sized_die_def)
  then show "returns (bindE (type_datum (addPointerTypeFromDie fuel get dbg off d c st)) (\<lambda>r. Inr (r, True)))
      (\<lambda>((st, data), b). sound (datum_types data \<union> L) st)"
    by (intro flag_ok type_datum_ok addPointerTypeFromDie_ok assms)
qed (intro flag_ok nothing_ok type_datum_ok variable_ok subprogram_ok add_oks returns_simple assms; assumption)+

lemma parseCompileUnit_datum: "sound L st \<Longrightarrow>
    returns (bindE (parseCompileUnit fuel env dbg off d st) (\<lambda>(st, c). Inr (((st, DUnit c), True), c)))
      (\<lambda>(((st, data), b), c). sound (datum_types data \<union> L) st)"
  by (rule returns_bind, erule parseCompileUnit_ok) (auto simp: datum_types_def intro!: returns_simple)

lemma parseDie_ok:
  assumes "sound L st" "reader_ok get" "sized_die d"
  shows "returns (parseDie fuel env get dbg off d cu st) (\<lambda>(st, cu, b, data). sound L st)"
  unfolding parseDie_def
  apply (rule pure_then, rule returns_if)
   apply (rule returns_simple, simp add: assms(1))
  apply (rule returns_bind [where Q = "\<lambda>(((st, data), b), c). sound (datum_types data \<union> L) st"])
   apply (rule returns_if)
    apply (rule parseCompileUnit_datum [OF assms(1)])
   apply (rule returns_option, rule returns_simple)
   apply (rule returns_bind, rule parse_tag_ok [OF assms], rule returns_simple, simp split: prod.splits)
  apply (clarsimp simp only: prod.case split: prod.splits)
  apply (rule pure_then)
  apply (rule returns_bind [where Q = "sound L"])
   apply (rule returns_if)
    apply (rule returns_mono, erule setParsedDie_sound, blast, erule sound_subset, blast)
   apply (rule returns_simple, erule sound_subset, blast)
  apply (rule returns_simple, simp)
  done

lemma endDieChildren_ok: "sound L st \<Longrightarrow> returns (endDieChildren d data st) (sound L)"
  unfolding endDieChildren_def
  by (rule returns_if, rule pure_then, rule pure_then, rule returns_simple, erule sound_other, rule returns_simple)

lemma getTypeInfoFromATType_ok:
  assumes "\<And>c t L st. sound L st \<Longrightarrow> returns (walk c t st) (sound L)"
  shows "reader_ok (getTypeInfoFromATType fuel walk dbg)"
  unfolding reader_ok_def
proof (intro allI impI)
  fix L c off st
  assume s: "sound L st"
  show "type_read L (getTypeInfoFromATType fuel walk dbg c off st)"
    unfolding getTypeInfoFromATType_def
    apply (rule pure_then, rule returns_option)
     apply (rule find_type_then [OF s], rule returns_if, rule returns_simple, erule type_readI, simp)
    apply (rule parsed_datum_then [OF s])
    apply (rule returns_bind [where Q = "\<lambda>(st, data). sound (datum_types data \<union> L) st"])
     apply (rule returns_if)
      apply (rule returns_bind, rule assms, assumption)
      apply (erule parsed_datum_then, rule returns_simple, simp, erule sound_subset, blast)
     apply (rule returns_simple, simp)
    apply (clarsimp simp only: prod.case split: prod.splits)
    apply (rule pure_then, rule load_then, rule returns_simple, simp)
    apply (erule sound_subset, auto simp: as_type_def datum_types_def split: Datum.splits)
    done
qed

lemma walkDieTree_ok: "sized dbg \<Longrightarrow> sound L st \<Longrightarrow> returns (walkDieTree fuel env dbg off cu siblings st) (sound L)"
proof (induction fuel arbitrary: L off cu siblings st)
  case 0
  then show ?case by (simp add: returns_simple)
next
  case (Suc fuel)
  have sized: "offdie dbg off = Inr d \<Longrightarrow> sized_die d" for d
    using Suc.prems(1) by (force simp: offdie_def sized_def dest: map_of_SomeD split: option.splits)
  note reader = getTypeInfoFromATType_ok [where walk = "\<lambda>c t st. walkDieTree fuel env dbg t (Some c) False st", OF Suc.IH [OF Suc.prems(1)]]
  show ?case
    unfolding walkDieTree.simps Let_def
    apply (rule load_then)
    apply (rule returns_bind, rule parseDie_ok [OF Suc.prems(2) reader sized], assumption, assumption)
    apply (clarsimp simp only: prod.case split: prod.splits)
    apply (rule returns_bind [where Q = "sound L"])
     apply (rule returns_option, erule returns_simple, erule Suc.IH [OF Suc.prems(1)])
    apply (rule returns_bind, erule endDieChildren_ok)
    apply (rule returns_option, erule returns_simple, erule Suc.IH [OF Suc.prems(1)])
    done
qed

lemma walk_units_ok: "sized dbg \<Longrightarrow> sound L st \<Longrightarrow> returns (walk_units fuel env dbg us st) (sound L)"
  by (induction us arbitrary: st) (auto intro!: returns_simple intro: returns_bind [OF walkDieTree_ok])

lemma empty_state_sound: "sound {} empty_state"
  by (simp add: sound_def state_ok_def empty_state_def)

lemma readDWARFTypes_sound:
  "sized dbg \<Longrightarrow> readDWARFTypes fuel env dbg units b = Inr (Some st) \<Longrightarrow> sound {} st"
  using walk_units_ok [OF _ empty_state_sound, of dbg fuel env units]
  by (auto simp: readDWARFTypes_def returns_def bindE_eq_Inr split: if_splits)

end
