(* ===== verification/Dwarf_Types_Properties.thy ===== *)
theory Dwarf_Types_Properties
  imports Dwarf_Types_Walk
begin

text \<open>
  What reading the types of a program guarantees: every type, table and variable refers to live types only, and reading an
  entry's type again gives the same type.  Two units are read in full, a list with its cyclic type and a union; other lemmas show
  what the code does with arrays, declarations and missing sizes.
\<close>

section \<open>Running the walk\<close>

text \<open>The reader as a constant, so that rewriting does not go into the walks it may start.\<close>

definition reader :: "nat \<Rightarrow> DwarfEnv \<Rightarrow> dwarf_debug \<Rightarrow> type_reader" where
  "reader fuel env dbg = getTypeInfoFromATType fuel (\<lambda>c t st. walkDieTree fuel env dbg t (Some c) False st) dbg"

lemma bindE_weak_cong: "m = m' \<Longrightarrow> bindE m f = bindE m' f"
  by simp

lemma walk_step: "walkDieTree (numeral k) env dbg off cu siblings st =
    bindE (offdie dbg off) (\<lambda>d.
    bindE (parseDie (pred_numeral k) env (reader (pred_numeral k) env dbg) dbg off d cu st) (\<lambda>(st, cu, parseChildren, data).
    bindE (case (if parseChildren then die_child d else None) of
        None \<Rightarrow> Inr st
      | Some child \<Rightarrow> walkDieTree (pred_numeral k) env dbg child cu True st) (\<lambda>st.
    bindE (endDieChildren d data st) (\<lambda>st.
    case (if siblings then die_sibling d else None) of
      None \<Rightarrow> Inr st
    | Some sibling \<Rightarrow> walkDieTree (pred_numeral k) env dbg sibling cu True st))))"
  by (simp add: numeral_eq_Suc reader_def Let_def)

lemma name_num: "getNameForDie (numeral k) dbg off = getNameForDie (Suc (pred_numeral k)) dbg off"
  by (simp add: numeral_eq_Suc)

lemma siblings_step: "siblings_from (numeral k) dbg (Some off) =
    bindE (offdie dbg off) (\<lambda>d. bindE (siblings_from (pred_numeral k) dbg (die_sibling d)) (\<lambda>ds. Inr ((off, d) # ds)))"
  by (simp add: numeral_eq_Suc)

lemma reader_step: "reader fuel env dbg c off st =
     bindE (getDieFromATType dbg off) (\<lambda>dieOfType. case dieOfType of
       None \<Rightarrow> bindE (find_type st c ''void'') (\<lambda>data. if data = None then Inl Death else Inr (st, data))
     | Some t \<Rightarrow>
         bindE (parsed_datum st c t) (\<lambda>data.
         bindE (if data = DNull then bindE (walkDieTree fuel env dbg t (Some c) False st) (\<lambda>st. bindE (parsed_datum st c t) (\<lambda>data. Inr (st, data))) else Inr (st, data))
           (\<lambda>(st, data).
         bindE (if data = DNull then getNameForDie fuel dbg t else Inr []) (\<lambda>_.
         bindE (as_type data) (\<lambda>p. Inr (st, p))))))"
  by (simp add: reader_def getTypeInfoFromATType_def)

lemmas name_step = name_num [unfolded getNameForDie.simps Let_def]

lemmas table_steps = dictInsert_def dictGet_def dictSet_def dictExists_def dictCreate_def table_insert_def table_get_def table_set_def
  table_exists_def table_find_def bucket_of_def alloc_def insert_first_def insert_after_def mapSet_def mapGet_def mapExists_def
  size_tMapCreate_def mapCreate_def hash1_def size_tHash_def hash64Bit_def map_eq_def size_tCmp_def of_char_def

lemmas state_steps = new_type_def insert_type_def put_type_def modify_cu_def setParsedDie_def find_type_def parsed_datum_def as_type_def
  grabRefCounted_def set_type_def modify_type_def load_def elem_at_def blank_type_def empty_state_def getTypeFDE_def type_datum_def

lemmas entry_steps = offdie_def dwarf_attr_def getDieFromATType_def snprintf_def children_of_def siblings_from.simps siblings_step
  attr_int_or_def readAttributeAsInt_def readAttributeAsAddr_def member_location_def note_declaration_def

lemmas type_steps = parseDie_def parse_tag_def is_parsed_def endDieChildren_def addBaseTypeFromDie_def addPointerTypeFromDie_def
  addStructureFromDie_def addUnionFromDie_def finish_members_def grow_fields_def resized_def set_field_def set_fieldOffset_def
  set_fieldType_def int32_def

lemmas unit_steps = readDWARFTypes_def parseCompileUnit_def setIdentifierForCU_def cu_path_def walk_step reader_step name_step

lemmas reading = table_steps state_steps entry_steps type_steps unit_steps

section \<open>Two units\<close>

text \<open>An entry, and the object file of a patch object (whose units keep their names).\<close>

definition die_entry ::
  "DW_TAG \<Rightarrow> string option \<Rightarrow> 64 word option \<Rightarrow> (DW_AT \<times> DW_FORM) list \<Rightarrow> dwarf_off \<Rightarrow> dwarf_off option \<Rightarrow> dwarf_off option \<Rightarrow>
   dwarf_off \<times> DIE" where
  "die_entry tag name bytes attrs off child sibling = (off, \<lparr>die_tag = tag, die_name = name, die_bytesize = bytes, die_attrs = attrs,
     die_CU_offset = off, die_child = child, die_sibling = sibling\<rparr>)"

definition po_env :: DwarfEnv where
  "po_env = \<lparr>env_isPO = True, env_fname = ''a.po'', env_workingDir = ''/'', env_realpath = (\<lambda>_. None), env_stat = (\<lambda>_. None),
     env_unset = False\<rparr>"

text \<open>\<^verbatim>\<open>struct node { int value; struct node* link; }\<close>\<close>

definition list_unit :: dwarf_debug where
  "list_unit =
    [die_entry DW_TAG_compile_unit (Some ''a.c'') None [] 11 (Some 20) None,
     die_entry DW_TAG_base_type (Some ''int'') (Some 4) [] 20 None (Some 30),
     die_entry DW_TAG_structure_type (Some ''node'') (Some 16) [] 30 (Some 31) None,
     die_entry DW_TAG_member (Some ''value'') None
       [(DW_AT_type, DW_FORM_ref 20), (DW_AT_data_member_location, DW_FORM_data1 0)] 31 None (Some 32),
     die_entry DW_TAG_member (Some ''link'') None
       [(DW_AT_type, DW_FORM_ref 40), (DW_AT_data_member_location, DW_FORM_data1 8)] 32 None None,
     die_entry DW_TAG_pointer_type None (Some 8) [(DW_AT_type, DW_FORM_ref 30)] 40 None None]"

text \<open>\<^verbatim>\<open>union u { int a; int b; }\<close>: a compiler gives the members of a union no location.\<close>

definition union_unit :: dwarf_debug where
  "union_unit =
    [die_entry DW_TAG_compile_unit (Some ''a.c'') None [] 11 (Some 20) None,
     die_entry DW_TAG_base_type (Some ''int'') (Some 4) [] 20 None (Some 30),
     die_entry DW_TAG_union_type (Some ''u'') (Some 4) [] 30 (Some 31) None,
     die_entry DW_TAG_member (Some ''a'') None [(DW_AT_type, DW_FORM_ref 20)] 31 None (Some 32),
     die_entry DW_TAG_member (Some ''b'') None [(DW_AT_type, DW_FORM_ref 20)] 32 None None]"

text \<open>\<^verbatim>\<open>int*\<close> without a size.\<close>

definition unsized_unit :: dwarf_debug where
  "unsized_unit =
    [die_entry DW_TAG_compile_unit (Some ''a.c'') None [] 11 (Some 20) None,
     die_entry DW_TAG_pointer_type (Some ''p'') None [] 20 None None]"

text \<open>Name, kind, length, the type pointed to, the fields, their offsets and types, and the reference count.\<close>

definition types_read ::
  "DwarfState \<Rightarrow> (string \<times> TYPE_TYPE \<times> int \<times> ptr \<times> string list \<times> int list \<times> ptr list \<times> int) option list" where
  "types_read st = map (map_option (\<lambda>t. (ti_name t, ti_type t, ti_length t, ti_pointedType t, ti_fields t, ti_fieldOffsets t,
     ti_fieldTypes t, ti_refcount t))) (dw_types st)"

lemma list_unit_read:
  "\<exists>st. readDWARFTypes 8 po_env list_unit [11] True = Inr (Some st) \<and>
     types_read st =
      [Some (''void'', TT_VOID, 0, None, [], [], [], 1),
       Some (''int'', TT_BASE, 4, None, [], [], [], 2),
       Some (''node'', TT_STRUCT, 16, None, [''value'', ''link''], [0, 8], [Some 1, Some 3], 1),
       Some (''node*'', TT_POINTER, 8, Some 2, [], [], [], 2)]"
  by (simp add: types_read_def list_unit_def die_entry_def po_env_def reading cong: bindE_weak_cong let_weak_cong)

text \<open>The offsets of a union's members are added up as if it were a structure.\<close>

lemma union_members_added_up:
  "\<exists>st. readDWARFTypes 8 po_env union_unit [11] True = Inr (Some st) \<and>
     types_read st =
      [Some (''void'', TT_VOID, 0, None, [], [], [], 1),
       Some (''int'', TT_BASE, 4, None, [], [], [], 3),
       Some (''u'', TT_UNION, 4, None, [''a'', ''b''], [0, 4], [Some 1, Some 1], 1)]"
  by (simp add: types_read_def union_unit_def die_entry_def po_env_def reading cong: bindE_weak_cong let_weak_cong)

text \<open>A pointer without a size is freed after it was entered: the table refers to a type that is gone.\<close>

lemma free_type_step: "free_type (numeral k) h p =
    bindE (load h p) (\<lambda>t.
    bindE (guardE (ti_numFields t \<le> length (ti_fieldTypes t)) OutOfBounds) (\<lambda>_.
    bindE (release_fields (free_type (pred_numeral k)) h (take (ti_numFields t) (ti_fieldTypes t))) (\<lambda>h. free_cell h p)))"
  by (simp add: numeral_eq_Suc)

lemma unsized_pointer_dangles:
  "bindE (readDWARFTypes 8 po_env unsized_unit [11] True) (\<lambda>r. case r of None \<Rightarrow> Inr None
     | Some st \<Rightarrow> bindE (find_type st 0 ''p'') (\<lambda>p. bindE (load (dw_types st) p) (\<lambda>t. Inr (Some t)))) = Inl UseAfterFree"
  by (simp add: unsized_unit_def die_entry_def po_env_def reading freeTypeInfo_def free_type_step free_cell_def
      cong: bindE_weak_cong let_weak_cong)

section \<open>What the code does with some entries\<close>

text \<open>The length of an array of ten elements is that of nine; the dimensions of a matrix are added, not multiplied.\<close>

lemma int32_add: "int32 (int32 a + b) = int32 (a + b)"
  by (simp add: int32_def)

lemma array_length_sum: "int32 acc = acc \<Longrightarrow> array_length len bounds acc = int32 (acc + len * (\<Sum>(l, u) \<leftarrow> bounds. u - l))"
proof (induction bounds arbitrary: acc)
  case (Cons b bounds)
  obtain l u where b: "b = (l, u)" by (cases b)
  have "int32 (int32 x) = int32 x" for x using int32_add [of x 0] by simp
  then show ?case by (simp add: b Cons.IH int32_add algebra_simps)
qed simp

lemma array_of_ten_ints: "array_length 4 [(0, 9)] 0 = 36" "array_length 4 [(0, 9), (0, 9)] 0 = 72"
  by (simp_all add: int32_def)

text \<open>A second base type of the same name stops the program.\<close>

lemma same_name_base_asserts:
  assumes "getNameForDie fuel dbg off = Inr name" "find_type st c name = Inr (Some q)" "die_bytesize d = Some n"
  shows "addBaseTypeFromDie fuel dbg off d c st = Inl AssertFail"
proof -
  from assms(2) have c: "c < length (dw_cus st)" and "dictGet (cu_types (dw_cus st ! c)) name = Inr (Some q)"
    by (auto simp: find_type_def bindE_eq_Inr elem_at_eq_Inr)
  then have "dictInsert (cu_types (dw_cus st ! c)) name (length (dw_types st)) = Inl AssertFail"
    by (auto simp: dictGet_def dictInsert_def table_get_def table_insert_def table_exists_def bindE_eq_Inr split: if_splits)
  with c assms(1,3) show ?thesis
    by (simp add: addBaseTypeFromDie_def new_type_def alloc_def set_type_def modify_type_def insert_type_def modify_cu_def elem_at_def)
qed

text \<open>
  A structure that was declared before is found when its definition is read.  The flag stays set, since a definition has no
  \<^verbatim>\<open>DW_AT_declaration\<close>, so it is taken for a declaration again and its members are never read.
\<close>

definition member_less :: "nat \<Rightarrow> DwarfState \<Rightarrow> bool" where
  "member_less p st \<longleftrightarrow> (\<exists>t. cell (dw_types st) p t \<and> ti_declaration t \<and> ti_numFields t = 0)"

lemma member_less_modify:
  "member_less p st \<Longrightarrow> (\<And>t t'. f t = Inr t' \<Longrightarrow> ti_declaration t' = ti_declaration t \<and> ti_numFields t' = ti_numFields t) \<Longrightarrow>
   returns (modify_type st q f) (member_less p)"
  by (auto simp: returns_def modify_type_def bindE_eq_Inr load_eq_Inr member_less_def nth_list_update)

lemma member_less_cu: "member_less p st \<Longrightarrow> returns (modify_cu st c f) (member_less p)"
  by (auto simp: returns_def modify_cu_def bindE_eq_Inr member_less_def)

lemma declared_structure_stays:
  assumes "getNameForDie fuel dbg off = Inr name" "find_type st c name = Inr (Some p)" "member_less p st"
    and "dwarf_attr d DW_AT_declaration = None"
  shows "returns (addStructureFromDie fuel get dbg off d c st) (\<lambda>(st', r). r = Some p \<and> member_less p st')"
  unfolding addStructureFromDie_def assms(1,2) bindE_def sum.case option.case
  unfolding bindE_def [symmetric]
  apply (rule returns_bind [where Q = "\<lambda>(st', q). st' = st \<and> q = p"], rule pure_then, rule pure_then, rule returns_simple, simp)
  apply clarify
  apply (rule returns_bind, unfold set_type_def, rule member_less_modify [OF assms(3)], force)
  apply (rule returns_bind [where Q = "member_less p"], simp add: note_declaration_def assms(4) returns_simple)
  apply (rule returns_bind, unfold put_type_def, rule returns_bind, erule member_less_cu, unfold grabRefCounted_def, erule member_less_modify)
   apply (auto simp: bindE_eq_Inr)[]
  apply (rule returns_bind, unfold setParsedDie_def, erule member_less_cu)
  apply (auto simp: returns_def member_less_def)
  done

lemma type_okD:
  "type_ok A t \<Longrightarrow> (\<forall>q. ti_pointedType t = Some q \<or> Some q \<in> set (ti_fieldTypes t) \<longrightarrow> q \<in> A) \<and>
    length (ti_fields t) = ti_numFields t \<and> length (ti_fieldTypes t) = ti_numFields t \<and>
    length (ti_lowerBounds t) = ti_depth t \<and> length (ti_upperBounds t) = ti_depth t"
  by (auto simp: type_ok_def)

lemma as_type_some: "as_type x = Inr (Some p) \<longleftrightarrow> x = DType p"
  by (auto simp: as_type_def split: Datum.splits)

section \<open>Properties\<close>

text \<open>
  C39: after the types of a program are read, nothing refers to a type that is gone: not a type, not the tables of a unit, not a
  variable, not a function; fields and bounds have the lengths that are noted, and the types are ready to be compared.  This is
  provided that every pointer and every structure that is not a mere declaration has a byte size in the debugging information;
  without one it is freed after it was entered (\<open>unsized_pointer_dangles\<close>).
\<close>

theorem types_read_are_live:
  assumes "readDWARFTypes fuel env dbg units b = Inr (Some st)" "sized dbg"
  shows "(\<forall>p t. cell (dw_types st) p t \<longrightarrow>
      (\<forall>q. ti_pointedType t = Some q \<or> Some q \<in> set (ti_fieldTypes t) \<longrightarrow> (\<exists>u. cell (dw_types st) q u)) \<and>
      length (ti_fields t) = ti_numFields t \<and> length (ti_fieldTypes t) = ti_numFields t \<and>
      length (ti_lowerBounds t) = ti_depth t \<and> length (ti_upperBounds t) = ti_depth t) \<and>
    (\<forall>c name p. find_type st c name = Inr (Some p) \<longrightarrow> (\<exists>u. cell (dw_types st) p u)) \<and>
    (\<forall>c off p. parsed_datum st c off = Inr (DType p) \<longrightarrow> (\<exists>u. cell (dw_types st) p u)) \<and>
    (\<forall>v x p. cell (dw_vars st) v x \<longrightarrow> vi_type x = Some p \<longrightarrow> (\<exists>u. cell (dw_types st) p u)) \<and>
    (\<forall>sub \<in> set (dw_subs st). \<forall>p \<in> set (sb_types sub). \<exists>u. cell (dw_types st) p u) \<and>
    diff_ok \<lparr>ts_types = map (map_option TypeInfo.truncate) (dw_types st), ts_trans = []\<rparr>"
proof -
  have s: "sound {} st" using readDWARFTypes_sound assms by blast
  note D = soundD [OF s]
  have live: "p \<in> alive st \<longleftrightarrow> (\<exists>u. cell (dw_types st) p u)" for p by (simp add: alive_def)
  have types: "type_ok (alive st) t" if "cell (dw_types st) p t" for p t by (rule D(2) [OF that])
  have "returns (bindE (find_type st c name) Inr) (\<lambda>r. \<forall>p. r = Some p \<longrightarrow> p \<in> alive st)" for c name
    by (rule find_type_then [OF s]) (auto simp: returns_def sound_def)
  then have found: "find_type st c name = Inr (Some p) \<Longrightarrow> p \<in> alive st" for c name p by (force simp: returns_def bindE_eq_Inr)
  have "returns (bindE (parsed_datum st c off) Inr) (\<lambda>d. datum_types d \<subseteq> alive st)" for c off
    by (rule parsed_datum_then [OF s]) (auto simp: returns_def sound_def)
  then have parsed: "parsed_datum st c off = Inr (DType p) \<Longrightarrow> p \<in> alive st" for c off p
    by (force simp: returns_def bindE_eq_Inr datum_types_def)
  have "\<forall>p t. cell (dw_types st) p t \<longrightarrow> (\<forall>q. ti_pointedType t = Some q \<or> Some q \<in> set (ti_fieldTypes t) \<longrightarrow> q \<in> alive st) \<and>
      length (ti_fields t) = ti_numFields t \<and> length (ti_fieldTypes t) = ti_numFields t \<and>
      length (ti_lowerBounds t) = ti_depth t \<and> length (ti_upperBounds t) = ti_depth t"
    using types type_okD by blast
  moreover have "diff_ok \<lparr>ts_types = map (map_option TypeInfo.truncate) (dw_types st), ts_trans = []\<rparr>"
    using types by (auto simp: diff_ok_def type_ok_def TypeInfo.truncate_def)
  moreover have "\<forall>v x p. cell (dw_vars st) v x \<longrightarrow> vi_type x = Some p \<longrightarrow> p \<in> alive st"
    using D(3) by fastforce
  ultimately show ?thesis unfolding live [symmetric] using found parsed D(4) by blast
qed

theorem types_read_are_live_witness:
  "\<exists>st. readDWARFTypes 8 po_env list_unit [11] True = Inr (Some st) \<and> length (dw_types st) = 4 \<and>
     (\<forall>c name p. find_type st c name = Inr (Some p) \<longrightarrow> (\<exists>u. cell (dw_types st) p u))"
proof -
  obtain st where st: "readDWARFTypes 8 po_env list_unit [11] True = Inr (Some st)"
      "types_read st =
        [Some (''void'', TT_VOID, 0, None, [], [], [], 1),
         Some (''int'', TT_BASE, 4, None, [], [], [], 2),
         Some (''node'', TT_STRUCT, 16, None, [''value'', ''link''], [0, 8], [Some 1, Some 3], 1),
         Some (''node*'', TT_POINTER, 8, Some 2, [], [], [], 2)]"
    using list_unit_read by blast
  from arg_cong [OF st(2), of length] have "length (dw_types st) = 4" by (simp add: types_read_def)
  moreover have "sized list_unit" by (simp add: sized_def sized_die_def list_unit_def die_entry_def)
  ultimately show ?thesis using st(1) types_read_are_live [OF st(1)] by blast
qed

end
