(* ===== verification/Patch_Apply.thy ===== *)
theory Patch_Apply
  imports Process_Patch Free_Space Elf_Writer Relocation Dwarf_Types Link_Map Safety
begin

text \<open>
  Applying a patch, \<^verbatim>\<open>src/src/patcher/patchapply.c\<close>: the sections of the patch are mapped into the process and noted in the
  object \<^verbatim>\<open>patchedBin\<close>, a copy of the running program's; variables are moved and transformed, functions replaced by a jump to
  their new code, and the relocations of the patch applied.  The code for x86-64 is modelled.
\<close>

section \<open>State\<close>

text \<open>What does not change: the readers of libelf, the stack, the process running on, the page size, the running program and
  the frame entries of the patch, by their offset and in order.  \<open>pe_syms\<close> are the symbol lookups of \<^verbatim>\<open>src/src/dwarfvm.c\<close> in the
  patch and the patched object.\<close>

record PatchEnv =
  pe_lib :: LibElf
  pe_junk :: "nat \<Rightarrow> byte list"
  pe_run :: "Target \<Rightarrow> Target"
  pe_pageSize :: nat
  pe_fuel :: nat
  targetBin :: ElfInfo
  fdeMap :: "(32 word, FDE) Map"
  pe_fdes :: "FDE list"
  pe_syms :: "ElfInfo \<Rightarrow> ElfInfo \<Rightarrow> Target TargetEnv"

text \<open>The globals of the file, the space in the process, and the process with the state of the interpreter.\<close>

record PatchRun =
  patchedBin :: ElfInfo
  patchObj :: ElfInfo
  pr_space :: FreeSpace
  pr_data :: "Target PatchState"
  patchTextAddr :: addr_t
  patchRodataAddr :: addr_t
  patchDataAddr :: addr_t
  patchRelTextAddr :: addr_t

definition pr_target :: "PatchRun \<Rightarrow> Target" where
  "pr_target r = ps_target (pr_data r)"

definition with_target :: "PatchRun \<Rightarrow> Target \<Rightarrow> PatchRun" where
  "with_target r t = r\<lparr>pr_data := (pr_data r)\<lparr>ps_target := t\<rparr>\<rparr>"

definition write_target :: "PatchEnv \<Rightarrow> PatchRun \<Rightarrow> addr_t \<Rightarrow> byte list \<Rightarrow> nat \<Rightarrow> PatchRun result" where
  "write_target env r a bs n = bindE (memcpyToTarget (pe_junk env) (pr_target r) a bs n) (\<lambda>t. Inr (with_target r t))"

definition take_space :: "PatchEnv \<Rightarrow> PatchRun \<Rightarrow> uint \<Rightarrow> (PatchRun \<times> addr_t) result" where
  "take_space env r n =
     bindE (getFreeSpaceInTarget (pe_junk env) (pe_run env) (pe_pageSize env) n (pr_space r) (pr_target r)) (\<lambda>(a, fs, t).
       Inr (with_target (r\<lparr>pr_space := fs\<rparr>) t, a))"

section \<open>The tables of the patched object\<close>

definition addStrtabEntryToExisting :: "ElfInfo \<Rightarrow> string \<Rightarrow> bool \<Rightarrow> (ElfInfo \<times> nat) result" where
  "addStrtabEntryToExisting e str header =
     (let i = (if header then sectionHdrStrTblIdx e else strTblIdx e) in
      bindE (scn_or NullDeref e i) (\<lambda>scn.
      bindE (addDataToScn scn (cstring str) (length str + 1)) (\<lambda>(scn', _).
        Inr (set_scn e i (scn'\<lparr>scn_shdr := (scn_shdr scn)\<lparr>sh_size := of_nat (d_size scn')\<rparr>\<rparr>), d_size scn))))"

definition addSymtabEntryToExisting :: "ElfInfo \<Rightarrow> GElf_Sym \<Rightarrow> (ElfInfo \<times> nat) result" where
  "addSymtabEntryToExisting e sy =
     bindE (getDataByERS e ERS_SYMTAB) (\<lambda>data.
     bindE (addDataToScn data (sym_bytes sy) 24) (\<lambda>(data, _).
       let n = d_size data div 24 in
       Inr ((set_scn e (sectionIndices e ERS_SYMTAB) data)\<lparr>symTabCount := n\<rparr>, n - 1)))"

text \<open>\<^verbatim>\<open>gelf_update_sym\<close> on the symbol table; its result is not looked at.\<close>

definition update_sym :: "ElfInfo \<Rightarrow> nat \<Rightarrow> GElf_Sym \<Rightarrow> ElfInfo result" where
  "update_sym e i sy =
     bindE (getDataByERS e ERS_SYMTAB) (\<lambda>data.
       if (i + 1) * 24 \<le> d_size data then
         bindE (write_bytes (d_buf data) (i * 24) (sym_bytes sy)) (\<lambda>buf.
           Inr (set_scn e (sectionIndices e ERS_SYMTAB) (data\<lparr>d_buf := buf\<rparr>)))
       else Inr e)"

text \<open>\<^verbatim>\<open>elf_ndxscn\<close> of no section is \<^verbatim>\<open>SHN_UNDEF\<close>.\<close>

definition ndxscn :: "nat option \<Rightarrow> 16 word" where
  "ndxscn scn = (case scn of None \<Rightarrow> 0 | Some i \<Rightarrow> of_nat i)"

abbreviation (input) STT_OBJECT :: byte where "STT_OBJECT \<equiv> 1"
abbreviation (input) STB_GLOBAL :: byte where "STB_GLOBAL \<equiv> 1"

text \<open>A symbol for something new at \<open>a\<close>, in the section of that name.\<close>

definition new_global :: "byte \<Rightarrow> string \<Rightarrow> string \<Rightarrow> addr_t \<Rightarrow> ElfInfo \<Rightarrow> ElfInfo result" where
  "new_global type name scnName a e =
     bindE (addStrtabEntryToExisting e name False) (\<lambda>(e, st_name).
     bindE (getSectionByName e scnName) (\<lambda>scn.
     bindE (addSymtabEntryToExisting e (zero_sym\<lparr>st_info := ST_INFO STB_GLOBAL type, st_name := of_nat st_name,
       st_shndx := ndxscn scn, st_value := a\<rparr>)) (\<lambda>(e, _). Inr e)))"

section \<open>Sections\<close>

definition new_section :: "ElfInfo \<Rightarrow> Elf_Scn \<Rightarrow> string \<Rightarrow> addr_t \<Rightarrow> (ElfInfo \<times> nat) result" where
  "new_section e scn newName addr =
     (let (e, i) = newscn e; shdr = scn_shdr scn in
      bindE (addStrtabEntryToExisting e newName True) (\<lambda>(e, name).
      bindE (copy_out (d_buf scn) (d_size scn)) (\<lambda>bs.
        Inr (set_scn e i \<lparr>scn_shdr = shdr\<lparr>sh_addr := addr, sh_name := name, sh_flags := sh_flags shdr OR of_nat SHF_ALLOC,
          sh_link := 0, sh_info := 0\<rparr>, d_size = d_size scn, d_buf = bs\<rparr>, i))))"

definition copyInEntireSection :: "PatchEnv \<Rightarrow> ElfInfo \<Rightarrow> string \<Rightarrow> string option \<Rightarrow> PatchRun \<Rightarrow> (PatchRun \<times> addr_t) result" where
  "copyInEntireSection env patch name newName r =
     bindE (getSectionByName patch name) (\<lambda>i. case i of
       None \<Rightarrow> Inl Death
     | Some i \<Rightarrow>
         bindE (scn_or Death patch i) (\<lambda>scn.
         bindE (take_space env r (of_nat (d_size scn))) (\<lambda>(r, addr).
         bindE (if d_size scn \<noteq> 0 then write_target env r addr (d_buf scn) (d_size scn) else Inr r) (\<lambda>r.
         bindE (new_section (patchedBin r) scn (case newName of None \<Rightarrow> name | Some nm \<Rightarrow> nm) addr) (\<lambda>(e, newscn).
         bindE (addSymtabEntryToExisting e (zero_sym\<lparr>st_info := ST_INFO 0 STT_SECTION, st_shndx := of_nat newscn, st_value := addr\<rparr>))
           (\<lambda>(e, _). Inr (r\<lparr>patchedBin := e\<rparr>, addr)))))))"

section \<open>Variables\<close>

definition allocateMemoryForVarRelocation :: "PatchEnv \<Rightarrow> DwType \<Rightarrow> PatchRun \<Rightarrow> (PatchRun \<times> addr_t) result" where
  "allocateMemoryForVarRelocation env type r =
     (let n = nat (ti_length type) in
      bindE (guardE (0 \<le> ti_length type) Death) (\<lambda>_.
      bindE (take_space env r (of_nat n)) (\<lambda>(r, a).
      bindE (write_target env r a (replicate n 0) n) (\<lambda>r. Inr (r, a)))))"

definition transformVarData :: "PatchEnv \<Rightarrow> uint \<Rightarrow> addr_t \<Rightarrow> addr_t \<Rightarrow> PatchRun \<Rightarrow> PatchRun result" where
  "transformVarData env fde oldLocation newLocation r =
     bindE (mapGet (fdeMap env) fde) (\<lambda>transformerFDE. case transformerFDE of
       None \<Rightarrow> Inl Death
     | Some f \<Rightarrow>
         bindE (patchDataWithFDE (pe_fuel env) (process_env (pe_junk env) (pe_run env) (pe_syms env (patchObj r) (patchedBin r)))
             (pe_fdes env) oldLocation newLocation f (pr_data r)) (\<lambda>ps. Inr (r\<lparr>pr_data := ps\<rparr>)))"

definition relocateVar :: "PatchEnv \<Rightarrow> string \<Rightarrow> addr_t \<Rightarrow> PatchRun \<Rightarrow> PatchRun result" where
  "relocateVar env name newLocation r =
     (let L = pe_lib env in
      bindE (getSymtabIdx L (targetBin env) name 0) (\<lambda>symIdx.
      bindE (getRelocationItemsFor L (patchedBin r) symIdx) (\<lambda>relocItems.
      bindE (getSymbol L (targetBin env) symIdx) (\<lambda>sym.
      bindE (update_sym (patchedBin r) symIdx (sym\<lparr>st_value := newLocation\<rparr>)) (\<lambda>e.
      bindE (applyRelocations L (pe_junk env) 1 relocItems e (pr_target r)) (\<lambda>(e, t).
        Inr (with_target (r\<lparr>patchedBin := e\<rparr>) t)))))))"

text \<open>\<open>var\<close> is in the types and variables \<open>dw\<close> of the patch.  Its new location is 0 as long as there is none.\<close>

definition applyVariablePatch :: "PatchEnv \<Rightarrow> DwarfState \<Rightarrow> VarInfo \<Rightarrow> PatchRun \<Rightarrow> PatchRun result" where
  "applyVariablePatch env dw var r =
     (let L = pe_lib env in
      bindE (getSymtabIdx L (targetBin env) (vi_name var) 0) (\<lambda>idx.
      bindE (getSymtabIdx L (patchObj r) (vi_name var) 0) (\<lambda>symIdxInPatch.
      bindE (if symIdxInPatch \<noteq> STN_UNDEF
             then bindE (getSymbol L (patchObj r) symIdxInPatch) (\<lambda>sym. Inr (patchDataAddr r + st_value sym)) else Inr 0) (\<lambda>newLocation.
      if idx \<noteq> STN_UNDEF then
        bindE (getSymbol L (targetBin env) idx) (\<lambda>sym.
        let oldLocation = st_value sym; newLocation = (if newLocation = 0 then oldLocation else newLocation) in
        bindE (load (dw_types dw) (vi_type var)) (\<lambda>type.
        bindE (if ti_fde type \<noteq> 0 then transformVarData env (ti_fde type) oldLocation newLocation r else Inr r) (\<lambda>r.
          if newLocation \<noteq> oldLocation then relocateVar env (vi_name var) newLocation r else Inr r)))
      else
        bindE (guardE (symIdxInPatch \<noteq> STN_UNDEF) Death) (\<lambda>_.
        bindE (new_global STT_OBJECT (vi_name var) ''.data.new'' newLocation (patchedBin r)) (\<lambda>e. Inr (r\<lparr>patchedBin := e\<rparr>)))))))"

section \<open>Functions\<close>

text \<open>An indirect jump through the eight bytes behind it, \<^verbatim>\<open>jmp *0(%rip)\<close>.\<close>

definition trampoline :: "addr_t \<Rightarrow> byte list" where
  "trampoline jumpTo = [0xFF, 0x25, 0, 0, 0, 0] @ word_bytes 8 jumpTo"

definition insertTrampolineJump :: "PatchEnv \<Rightarrow> addr_t \<Rightarrow> addr_t \<Rightarrow> PatchRun \<Rightarrow> PatchRun result" where
  "insertTrampolineJump env insertAt jumpTo r =
     bindE (write_target env r insertAt (trampoline jumpTo) 14) (\<lambda>r.
     bindE (memcpyFromTarget (pe_junk env) (pr_target r) (replicate 14 0) insertAt 14) (\<lambda>verify.
     bindE (guardE (verify = trampoline jumpTo) Death) (\<lambda>_. Inr r)))"

definition applyFunctionPatch :: "PatchEnv \<Rightarrow> Subprogram \<Rightarrow> PatchRun \<Rightarrow> PatchRun result" where
  "applyFunctionPatch env func r =
     (let L = pe_lib env; offset = ucast (sp_lowpc func) :: uint; addr = patchTextAddr r + ucast offset in
      bindE (getSymtabIdx L (targetBin env) (sp_name func) 0) (\<lambda>idx.
      if idx \<noteq> STN_UNDEF then
        bindE (getSymAddress L (targetBin env) idx) (\<lambda>oldAddr.
        bindE (getSymbol L (targetBin env) idx) (\<lambda>sym.
        bindE (update_sym (patchedBin r) idx (sym\<lparr>st_value := addr\<rparr>)) (\<lambda>e.
          insertTrampolineJump env oldAddr addr (r\<lparr>patchedBin := e\<rparr>))))
      else
        bindE (new_global STT_FUNC (sp_name func) ''.text.new'' addr (patchedBin r)) (\<lambda>e. Inr (r\<lparr>patchedBin := e\<rparr>))))"

section \<open>Relocations of the patch\<close>

definition rela_bytes :: "GElf_Rela \<Rightarrow> byte list" where
  "rela_bytes rela = word_bytes 8 (rl_offset rela) @ word_bytes 8 (rl_info rela) @ word_bytes 8 (rl_addend rela)"

text \<open>\<^verbatim>\<open>elf_getdata\<close> of the section of that name.\<close>

definition named_data :: "ElfInfo \<Rightarrow> string \<Rightarrow> (nat \<times> Elf_Scn) result" where
  "named_data e name =
     bindE (getSectionByName e name) (\<lambda>i. case i of
       None \<Rightarrow> Inl NullDeref
     | Some i \<Rightarrow> bindE (scn_or NullDeref e i) (\<lambda>scn. Inr (i, scn)))"

text \<open>
  What a relocation relative to the program counter adds to is read from the patch, moved by the distance the code moves, and
  written into the process.  The type is all of the low word of \<^verbatim>\<open>r_info\<close>.
\<close>

definition fixup_pc32 :: "PatchEnv \<Rightarrow> addr_t \<Rightarrow> Elf_Scn \<Rightarrow> GElf_Rela \<Rightarrow> addr_t \<Rightarrow> PatchRun \<Rightarrow> PatchRun result" where
  "fixup_pc32 env oldTextNewStart textData rela newOffset r =
     bindE (guardE (unat (rl_offset rela + 4) \<le> d_size textData) AssertFail) (\<lambda>_.
     bindE (copy_out (drop (unat (rl_offset rela)) (d_buf textData)) 4) (\<lambda>bs.
     let addrAccessed = le_word bs :: addr_t; diff = patchTextAddr r - oldTextNewStart in
       write_target env r newOffset (word_bytes 8 (addrAccessed + diff)) 4))"

definition fixup_flags :: "GElf_Sym \<Rightarrow> int" where
  "fixup_flags sy = (ESFF_MANGLED_OK OR ESFF_BSS_MATCH_DATA_OK) OR
     (if ST_TYPE (st_info sy) \<noteq> STT_SECTION then ESFF_VERSIONED_SECTIONS_OK else 0)"

definition fixup_reloc :: "PatchEnv \<Rightarrow> addr_t \<Rightarrow> nat \<Rightarrow> Elf_Scn \<Rightarrow> nat \<Rightarrow> PatchRun \<Rightarrow> PatchRun result" where
  "fixup_reloc env oldTextNewStart relScn textData i r =
     (let L = pe_lib env in
      bindE (scn_or NullDeref (patchObj r) relScn) (\<lambda>scn.
      bindE (copy_out (drop (i * 24) (d_buf scn)) 24) (\<lambda>bs.
      let rela = rela_of_bytes bs; symIdx = R_SYM (rl_info rela); type = take_bit 32 (rl_info rela) in
      bindE (getSymbol L (patchObj r) symIdx) (\<lambda>sym.
      bindE (reindexSymbol L (patchObj r) (patchedBin r) symIdx (fixup_flags sym)) (\<lambda>reindex.
      bindE (getSymAddress L (patchedBin r) reindex) (\<lambda>_.
      bindE (guardE (reindex \<noteq> STN_UNDEF) Death) (\<lambda>_.
      let newOffset = rl_offset rela - oldTextNewStart + patchTextAddr r in
      bindE (if type = ucast R_386_PC32 then fixup_pc32 env oldTextNewStart textData rela newOffset r else Inr r) (\<lambda>r.
      bindE (guardE (type \<noteq> ucast R_X86_64_PC64) Death) (\<lambda>_.
      bindE (write_bytes (d_buf scn) (i * 24)
          (rela_bytes (rela\<lparr>rl_info := push_bit 32 (of_nat reindex) + type, rl_offset := newOffset\<rparr>))) (\<lambda>buf.
        Inr (r\<lparr>patchObj := set_scn (patchObj r) relScn (scn\<lparr>d_buf := buf\<rparr>)\<rparr>)))))))))))"

fun fixup_relocs :: "PatchEnv \<Rightarrow> addr_t \<Rightarrow> nat \<Rightarrow> Elf_Scn \<Rightarrow> nat list \<Rightarrow> PatchRun \<Rightarrow> PatchRun result" where
  "fixup_relocs env oldTextNewStart relScn textData [] r = Inr r"
| "fixup_relocs env oldTextNewStart relScn textData (i # is) r =
     bindE (fixup_reloc env oldTextNewStart relScn textData i r) (\<lambda>r. fixup_relocs env oldTextNewStart relScn textData is r)"

definition fixupPatchRelocations :: "PatchEnv \<Rightarrow> PatchRun \<Rightarrow> PatchRun result" where
  "fixupPatchRelocations env r =
     bindE (named_data (patchObj r) ''.rela.text.new'') (\<lambda>(relScn, data).
     bindE (named_data (patchObj r) ''.text.new'') (\<lambda>(_, textData).
       fixup_relocs env (sh_addr (scn_shdr textData)) relScn textData [0..<d_size data div 24] r))"

section \<open>The procedure linkage table\<close>

text \<open>A section of the running program copied under a new name, which becomes the recognized section.\<close>

definition copy_recognized :: "PatchEnv \<Rightarrow> string \<Rightarrow> string \<Rightarrow> E_RECOGNIZED_SECTION \<Rightarrow> PatchRun \<Rightarrow> (PatchRun \<times> addr_t \<times> nat) result" where
  "copy_recognized env name newName ers r =
     bindE (copyInEntireSection env (targetBin env) name (Some newName) r) (\<lambda>(r, addr).
     bindE (getSectionByName (patchedBin r) newName) (\<lambda>scn. case scn of
       None \<Rightarrow> Inl AssertFail
     | Some i \<Rightarrow> Inr (r\<lparr>patchedBin := note_section (patchedBin r) ers i\<rparr>, addr, i)))"

text \<open>The entries of \<^verbatim>\<open>.rela.plt.katana\<close>: read from the original, written to the copy with the new place of the slot.\<close>

fun move_slots :: "PatchEnv \<Rightarrow> Elf_Scn \<Rightarrow> nat \<Rightarrow> nat \<Rightarrow> addr_t \<Rightarrow> addr_t \<Rightarrow> addr_t list \<Rightarrow> PatchRun \<Rightarrow> PatchRun result" where
  "move_slots env original sc pltRelScn oldAddress newAddress [] r = Inr r"
| "move_slots env original sc pltRelScn oldAddress newAddress (off # offs) r =
     bindE (getRelocationEntryAtOffset (pe_lib env) (patchedBin r) original off) (\<lambda>reloc.
     bindE (scn_or NullDeref (patchedBin r) pltRelScn) (\<lambda>scn.
     bindE (setRelocationEntryAtOffset (reloc\<lparr>r_offset := r_offset reloc - oldAddress + newAddress, scnIdx := sc\<rparr>) scn off) (\<lambda>scn.
       move_slots env original sc pltRelScn oldAddress newAddress offs (r\<lparr>patchedBin := set_scn (patchedBin r) pltRelScn scn\<rparr>))))"

text \<open>A number in the copy of the table and in the process: \<open>at\<close> in the table, \<open>buf_at\<close> in the data of the section.\<close>

definition set_plt :: "PatchEnv \<Rightarrow> nat \<Rightarrow> addr_t \<Rightarrow> nat \<Rightarrow> addr_t \<Rightarrow> PatchRun \<Rightarrow> PatchRun result" where
  "set_plt env pltScn addr buf_at v r =
     bindE (write_target env r addr (word_bytes 8 v) 4) (\<lambda>r.
     bindE (scn_or NullDeref (patchedBin r) pltScn) (\<lambda>scn.
     bindE (write_bytes (d_buf scn) buf_at (word_bytes 4 v)) (\<lambda>buf.
       Inr (r\<lparr>patchedBin := set_scn (patchedBin r) pltScn (scn\<lparr>d_buf := buf\<rparr>)\<rparr>))))"

text \<open>The first entry; the second number overwrites the first one in the data.\<close>

definition fixup_plt0 :: "PatchEnv \<Rightarrow> nat \<Rightarrow> addr_t \<Rightarrow> addr_t \<Rightarrow> PatchRun \<Rightarrow> PatchRun result" where
  "fixup_plt0 env pltScn plt newGOTAddress r =
     bindE (set_plt env pltScn (plt + 2) 2 (newGOTAddress - (plt + 6) + 8) r) (\<lambda>r.
       set_plt env pltScn (plt + 8) 2 (newGOTAddress - (plt + 12) + 16) r)"

text \<open>The other entries: a jump relative to the program counter, which is six bytes behind the start of the entry.\<close>

definition plt_slot :: "addr_t \<Rightarrow> addr_t \<Rightarrow> addr_t \<Rightarrow> addr_t \<Rightarrow> addr_t \<Rightarrow> addr_t \<Rightarrow> addr_t" where
  "plt_slot oldPLT newPLT oldGOT newGOT entryOffset disp =
     disp + (oldPLT + entryOffset + 6) - oldGOT + newGOT - (newPLT + entryOffset + 6)"

fun fixup_plt :: "PatchEnv \<Rightarrow> nat \<Rightarrow> addr_t \<Rightarrow> addr_t \<Rightarrow> addr_t \<Rightarrow> addr_t \<Rightarrow> nat list \<Rightarrow> PatchRun \<Rightarrow> PatchRun result" where
  "fixup_plt env pltScn oldPLT newPLT oldGOT newGOT [] r = Inr r"
| "fixup_plt env pltScn oldPLT newPLT oldGOT newGOT (entryOffset # offs) r =
     bindE (scn_or NullDeref (patchedBin r) pltScn) (\<lambda>scn.
     bindE (copy_out (drop (entryOffset + 2) (d_buf scn)) 4) (\<lambda>bs.
     bindE (set_plt env pltScn (newPLT + of_nat entryOffset + 2) (entryOffset + 2)
       (plt_slot oldPLT newPLT oldGOT newGOT (of_nat entryOffset) (le_word bs)) r) (\<lambda>r.
         fixup_plt env pltScn oldPLT newPLT oldGOT newGOT offs r)))"

definition first_section :: "ElfInfo \<Rightarrow> string \<Rightarrow> string \<Rightarrow> (string \<times> nat) option result" where
  "first_section e a b =
     bindE (getSectionByName e a) (\<lambda>i. case i of
       Some i \<Rightarrow> Inr (Some (a, i))
     | None \<Rightarrow> bindE (getSectionByName e b) (\<lambda>i. Inr (map_option (\<lambda>i. (b, i)) i)))"

text \<open>The relocations of the table, if there are any.\<close>

definition copy_plt_relocs :: "PatchEnv \<Rightarrow> nat \<Rightarrow> addr_t \<Rightarrow> addr_t \<Rightarrow> PatchRun \<Rightarrow> PatchRun result" where
  "copy_plt_relocs env pltScn oldAddress newAddress r =
     bindE (first_section (targetBin env) ''.rela.plt'' ''.rel.plt'') (\<lambda>found. case found of
       None \<Rightarrow> Inr r
     | Some (name, sc) \<Rightarrow>
         bindE (copy_recognized env name (name @ ''.katana'') ERS_RELX_PLT r) (\<lambda>(r, _, pltRelScn).
         bindE (scn_or Death (patchedBin r) pltRelScn) (\<lambda>scn.
         let shdr = scn_shdr scn in
         bindE (guardE (sh_entsize shdr \<noteq> 0) DivideByZero) (\<lambda>_.
         let e = set_shdr (patchedBin r) pltRelScn (shdr\<lparr>sh_link := sectionIndices (patchedBin r) ERS_SYMTAB, sh_info := pltScn\<rparr>);
             n = unat (sh_size shdr) div unat (sh_entsize shdr) in
         bindE (scn_or AssertFail (targetBin env) sc) (\<lambda>original.
           move_slots env original sc pltRelScn oldAddress newAddress (map (\<lambda>i. of_nat i * sh_entsize shdr) [0..<n])
             (r\<lparr>patchedBin := e\<rparr>))))))"

definition katanaPLT :: "PatchEnv \<Rightarrow> PatchRun \<Rightarrow> PatchRun result" where
  "katanaPLT env r =
     bindE (getShdrByERS (targetBin env) ERS_GOT) (\<lambda>got.
     bindE (getShdrByERS (targetBin env) ERS_PLT) (\<lambda>plt.
     bindE (copy_recognized env ''.plt'' ''.plt.katana'' ERS_PLT r) (\<lambda>(r, _, pltScn).
     bindE (copy_recognized env ''.got'' ''.got.katana'' ERS_GOT r) (\<lambda>(r, newGOT, _).
     bindE (getSectionByName (targetBin env) ''.got.plt'') (\<lambda>gotPlt.
     bindE (if gotPlt = None then Inr (r, 0, 0)
            else
              bindE (getShdrByERS (targetBin env) ERS_GOTPLT) (\<lambda>shdr.
              bindE (copy_recognized env ''.got.plt'' ''.got.plt.katana'' ERS_GOTPLT r) (\<lambda>(r, a, _). Inr (r, sh_addr shdr, a))))
       (\<lambda>(r, oldGOTPLT, newGOTPLT).
     bindE (if oldGOTPLT = 0 then copy_plt_relocs env pltScn (sh_addr got) newGOT r
            else copy_plt_relocs env pltScn oldGOTPLT newGOTPLT r) (\<lambda>r.
     bindE (scn_or Death (patchedBin r) pltScn) (\<lambda>scn.
     let shdr = scn_shdr scn in
     bindE (fixup_plt0 env pltScn (sh_addr shdr) newGOT r) (\<lambda>r.
     let pltEntsize = unat (ucast (sh_entsize shdr) :: uint) in
     bindE (guardE (pltEntsize \<noteq> 0) DivideByZero) (\<lambda>_.
       fixup_plt env pltScn (sh_addr plt) (sh_addr shdr) (sh_addr got) newGOT
         (map (\<lambda>i. i * pltEntsize) [1..<unat (sh_size shdr) div pltEntsize]) r))))))))))"

section \<open>The whole patch\<close>

text \<open>The sections that are mapped in, and the tables that are copied, in one block; the sum is 32 bits wide.\<close>

fun sections_size :: "ElfInfo \<Rightarrow> string list \<Rightarrow> uint \<Rightarrow> uint result" where
  "sections_size patch [] amount = Inr amount"
| "sections_size patch (name # names) amount =
     bindE (getSectionByName patch name) (\<lambda>i. case i of
       None \<Rightarrow> Inl Death
     | Some i \<Rightarrow> bindE (scn_or Death patch i) (\<lambda>scn. sections_size patch names (amount + ucast (sh_size (scn_shdr scn)))))"

definition space_needed :: "PatchEnv \<Rightarrow> ElfInfo \<Rightarrow> uint result" where
  "space_needed env patch =
     bindE (sections_size patch [''.text.new'', ''.rodata.new'', ''.data.new'', ''.rela.text.new''] 0) (\<lambda>amount.
     bindE (getShdrByERS (targetBin env) ERS_GOT) (\<lambda>got.
     bindE (getShdrByERS (targetBin env) ERS_PLT) (\<lambda>plt.
     bindE (getShdrByERS (targetBin env) ERS_GOTPLT) (\<lambda>gotPlt.
       Inr (amount + ucast (sh_size got) + ucast (sh_size plt) + ucast (sh_size gotPlt))))))"

text \<open>Behind the second mapped region, rounded down to a word; \<open>regions\<close> is what \<^verbatim>\<open>getMemoryMap\<close> returns.\<close>

definition desired_address :: "(addr_t \<times> addr_t) list \<Rightarrow> addr_t" where
  "desired_address regions =
     (if 2 \<le> length regions then let a = snd (regions ! 1) + 1 + 8 in a - a mod 8 else 0)"

definition reserve_space :: "PatchEnv \<Rightarrow> (addr_t \<times> addr_t) list \<Rightarrow> PatchRun \<Rightarrow> PatchRun result" where
  "reserve_space env regions r =
     bindE (space_needed env (patchObj r)) (\<lambda>amount.
     bindE (reserveFreeSpaceInTarget (pe_junk env) (pe_run env) (pe_pageSize env) amount (desired_address regions)
         (pr_space r) (pr_target r)) (\<lambda>(received, fs, t).
     bindE (guardE (\<not> (0xFFFFFFFF < received \<and> textUsesSmallCodeModel (patchedBin r))) Death) (\<lambda>_.
       Inr (with_target (r\<lparr>pr_space := fs\<rparr>) t))))"

definition map_in_patch :: "PatchEnv \<Rightarrow> PatchRun \<Rightarrow> PatchRun result" where
  "map_in_patch env r =
     bindE (copyInEntireSection env (patchObj r) ''.text.new'' None r) (\<lambda>(r, a). let r = r\<lparr>patchTextAddr := a\<rparr> in
     bindE (copyInEntireSection env (patchObj r) ''.rodata.new'' None r) (\<lambda>(r, a). let r = r\<lparr>patchRodataAddr := a\<rparr> in
     bindE (copyInEntireSection env (patchObj r) ''.data.new'' None r) (\<lambda>(r, a).
       katanaPLT env (r\<lparr>patchDataAddr := a\<rparr>))))"

text \<open>The variables and functions of the units of the patch; \<open>vars\<close> are pointers into \<open>dw_vars\<close>, \<open>subs\<close> into \<open>dw_subs\<close>.\<close>

fun apply_variables :: "PatchEnv \<Rightarrow> DwarfState \<Rightarrow> nat list \<Rightarrow> PatchRun \<Rightarrow> PatchRun result" where
  "apply_variables env dw [] r = Inr r"
| "apply_variables env dw (v # vars) r =
     bindE (load (dw_vars dw) (Some v)) (\<lambda>var.
     bindE (applyVariablePatch env dw var r) (\<lambda>r. apply_variables env dw vars r))"

fun apply_functions :: "PatchEnv \<Rightarrow> DwarfState \<Rightarrow> nat list \<Rightarrow> PatchRun \<Rightarrow> PatchRun result" where
  "apply_functions env dw [] r = Inr r"
| "apply_functions env dw (s # subs) r =
     bindE (elem_at (dw_subs dw) s) (\<lambda>func.
     bindE (applyFunctionPatch env func r) (\<lambda>r. apply_functions env dw subs r))"

fun apply_units :: "PatchEnv \<Rightarrow> DwarfState \<Rightarrow> CompilationUnit list \<Rightarrow> PatchRun \<Rightarrow> PatchRun result" where
  "apply_units env dw [] r = Inr r"
| "apply_units env dw (cu # cus) r =
     bindE (dictValues (cu_globalVars cu)) (\<lambda>vars.
     bindE (apply_variables env dw vars r) (\<lambda>r.
     bindE (dictValues (cu_subprograms cu)) (\<lambda>subs.
     bindE (apply_functions env dw subs r) (\<lambda>r. apply_units env dw cus r))))"

text \<open>The entries of \<^verbatim>\<open>.rela.text.new\<close>, as relocations of \<^verbatim>\<open>.text.new\<close> in memory.\<close>

fun perform_relocs :: "PatchEnv \<Rightarrow> Elf_Scn \<Rightarrow> nat \<Rightarrow> nat list \<Rightarrow> PatchRun \<Rightarrow> PatchRun result" where
  "perform_relocs env data sc [] r = Inr r"
| "perform_relocs env data sc (i # is) r =
     (case gelf_getrela (pe_lib env) data i of
        None \<Rightarrow> Inl Death
      | Some rela \<Rightarrow>
          bindE (applyRelocation (pe_lib env) (pe_junk env) 1 (rela_info sc rela) (patchedBin r) (pr_target r)) (\<lambda>(e, t).
            perform_relocs env data sc is (with_target (r\<lparr>patchedBin := e\<rparr>) t)))"

definition perform_patch_relocs :: "PatchEnv \<Rightarrow> PatchRun \<Rightarrow> PatchRun result" where
  "perform_patch_relocs env r =
     bindE (named_data (patchedBin r) ''.rela.text.new'') (\<lambda>(_, data).
     bindE (getSectionByName (patchedBin r) ''.text.new'') (\<lambda>scn.
       perform_relocs env data (unat (ndxscn scn)) [0..<d_size data div 24] r))"

text \<open>
  What stands for the outside while the patch is applied: libelf's dynamic entries and hash function, the process as the search
  for a safe state sees it, the demangler, the option for how long to wait, and the memory map \<^verbatim>\<open>getMemoryMap\<close> reads.
\<close>

record OutsideEnv =
  oe_getdyn :: "Elf_Scn \<Rightarrow> nat \<Rightarrow> (64 word \<times> 64 word) option"
  oe_elf_hash :: "string \<Rightarrow> uint"
  oe_safety :: SafetyEnv
  oe_demangle :: "string \<Rightarrow> string"
  maxWaitForPatching :: nat
  oe_regions :: "(addr_t \<times> addr_t) list"

text \<open>
  With the process stopped and the patched object a copy of the running program's; \<open>dw\<close> are the types and variables read from
  the patch.  The layout and the program headers of the file are left out.
\<close>

definition readAndApplyPatch :: "PatchEnv \<Rightarrow> OutsideEnv \<Rightarrow> DwarfState \<Rightarrow> PatchRun \<Rightarrow> PatchRun result" where
  "readAndApplyPatch env out dw r =
     (let junk = pe_junk env; e = targetBin env in
      bindE (locateRuntimeSymbolInTarget (oe_getdyn out) (oe_elf_hash out) (pe_fuel env) junk (pr_target r) e ''malloc'') (\<lambda>malloc.
      bindE (guardE (malloc \<noteq> 0) Death) (\<lambda>_.
      bindE (elem_at (e_ints e) (textStart_at IN_MEM)) (\<lambda>textStart.
      bindE (bringTargetToSafeState junk (oe_safety out) (pe_lib env) (oe_demangle out) (maxWaitForPatching out) e (patchObj r)
          (setTargetTextStart (scast textStart) (setMallocAddress malloc (pr_target r)))) (\<lambda>t.
      bindE (reserve_space env (oe_regions out) (with_target r t)) (\<lambda>r.
      bindE (map_in_patch env r) (\<lambda>r.
      bindE (apply_units env dw (dw_cus dw) r) (\<lambda>r.
      bindE (fixupPatchRelocations env r) (\<lambda>r.
      bindE (copyInEntireSection env (patchObj r) ''.rela.text.new'' None r) (\<lambda>(r, a).
        perform_patch_relocs env (r\<lparr>patchRelTextAddr := a\<rparr>)))))))))))"

end
