(* ===== verification/Patch_Apply_Properties.thy ===== *)
theory Patch_Apply_Properties
  imports Patch_Apply Safety_Properties Elf_Writer_Laws
begin

text \<open>
  What applying the functions of a patch does to the process and to the symbols of the patched object.
\<close>

section \<open>The jump\<close>

text \<open>
  Where an indirect jump of the processor at \<open>a\<close>, \<^verbatim>\<open>jmp *disp(%rip)\<close>, leads: the number is found \<open>disp\<close> bytes, with its sign,
  behind the six of the instruction.
\<close>

definition jump_target :: "memory \<Rightarrow> addr_t \<Rightarrow> addr_t option" where
  "jump_target m a =
     (case mem_read m a 6 of
        Some (op # modrm # disp) \<Rightarrow>
          if op = 0xFF \<and> modrm = 0x25 then map_option le_word (mem_read m (a + 6 + scast (le_word disp :: 32 word)) 8) else None
      | _ \<Rightarrow> None)"

lemma length_trampoline [simp]: "length (trampoline b) = 14"
  by (simp add: trampoline_def)

lemma trampoline_jumps: "mem_has m a (trampoline b) \<Longrightarrow> jump_target m a = Some b"
proof -
  assume h: "mem_has m a (trampoline b)"
  have p: "trampoline b = [0xFF, 0x25, 0, 0, 0, 0] @ word_bytes 8 b" by (simp add: trampoline_def)
  have "mem_has m a [0xFF, 0x25, 0, 0, 0, 0]" "mem_has m (a + 6) (word_bytes 8 b)"
    using h unfolding p mem_has_append by simp_all
  then have "mem_read m a 6 = Some [0xFF, 0x25, 0, 0, 0, 0]" "mem_read m (a + 6) 8 = Some (word_bytes 8 b)" by simp_all
  moreover have "le_word [0, 0, 0, 0] = (0 :: 32 word)" by (simp add: le_word_def le_int_Cons)
  ultimately show ?thesis by (simp add: jump_target_def)
qed

text \<open>Two places so far apart that the jumps at them do not overlap.\<close>

definition apart :: "addr_t \<Rightarrow> addr_t \<Rightarrow> bool" where
  "apart a b \<longleftrightarrow> 14 \<le> unat (a - b) \<and> 14 \<le> unat (b - a)"

lemma apart_outside:
  assumes "apart a b" "i < 14"
  shows "14 \<le> unat (a + of_nat i - b)"
proof -
  have "(unat (a - b) + unat (b - a)) mod 2 ^ 64 = 0" using unat_word_ariths(1) [of "a - b" "b - a"] by simp
  moreover have "unat (a - b) < 2 ^ 64" "unat (b - a) < 2 ^ 64" using unsigned_less [of "a - b"] unsigned_less [of "b - a"] by simp_all
  ultimately have "unat (a - b) + unat (b - a) = 2 ^ 64" using assms(1) by (auto simp: apart_def elim!: dvdE dest!: mod_0_imp_dvd)
  then have "unat (a - b) + i < 2 ^ 64" using assms by (simp add: apart_def)
  then have "unat (a - b + of_nat i) = unat (a - b) + i"
    using assms(2) by (simp add: unat_word_ariths unat_of_nat)
  moreover have eq: "a + of_nat i - b = a - b + of_nat i" by simp
  ultimately show ?thesis using assms(1) unfolding eq apart_def by simp
qed

section \<open>One function\<close>

definition new_place :: "PatchRun \<Rightarrow> Subprogram \<Rightarrow> addr_t" where
  "new_place r f = patchTextAddr r + ucast (ucast (sp_lowpc f) :: uint)"

text \<open>The function is in the running program, with symbol \<open>i\<close>.\<close>

definition existing :: "PatchEnv \<Rightarrow> Subprogram \<Rightarrow> nat \<Rightarrow> GElf_Sym \<Rightarrow> bool" where
  "existing env f i sy \<longleftrightarrow> getSymtabIdx (pe_lib env) (targetBin env) (sp_name f) 0 = Inr i \<and> i \<noteq> STN_UNDEF \<and>
     getSymbol (pe_lib env) (targetBin env) i = Inr sy"

definition put_sym :: "Elf_Scn \<Rightarrow> nat \<Rightarrow> GElf_Sym \<Rightarrow> Elf_Scn" where
  "put_sym tab i sy = tab\<lparr>d_buf := take (i * 24) (d_buf tab) @ sym_bytes sy @ drop (i * 24 + 24) (d_buf tab)\<rparr>"

lemma put_sym_size [simp]:
  "d_size (put_sym tab i sy) = d_size tab"
  "(i + 1) * 24 \<le> length (d_buf tab) \<Longrightarrow> length (d_buf (put_sym tab i sy)) = length (d_buf tab)"
  by (simp_all add: put_sym_def)

lemma sym_at_put_sym:
  assumes "(i + 1) * 24 \<le> length (d_buf tab)"
  shows "sym_at (put_sym tab i sy) k = (if k = i then sy else sym_at tab k)"
proof -
  have len: "length (take (i * 24) (d_buf tab)) = i * 24" using assms by simp
  consider "k = i" | "k < i" | "i < k" by linarith
  then show ?thesis
  proof cases
    case 2
    then have "k * 24 + 24 \<le> i * 24" by simp
    then have k: "k * 24 \<le> i * 24" "24 \<le> i * 24 - k * 24" by simp_all
    have "drop (k * 24) (take (i * 24) (d_buf tab) @ ys) = drop (k * 24) (take (i * 24) (d_buf tab)) @ ys" for ys
      using len k(1) by (simp only: drop_append) simp
    moreover have "24 \<le> length (drop (k * 24) (take (i * 24) (d_buf tab)))" using len k(2) by (simp only: length_drop)
    ultimately have "take 24 (drop (k * 24) (take (i * 24) (d_buf tab) @ ys)) = take 24 (drop (k * 24) (take (i * 24) (d_buf tab)))" for ys
      by simp
    also have "take 24 (drop (k * 24) (take (i * 24) (d_buf tab))) = take 24 (drop (k * 24) (d_buf tab))"
      using k(2) by (simp only: drop_take take_take min_absorb1)
    finally have "take 24 (drop (k * 24) (take (i * 24) (d_buf tab) @ ys)) = take 24 (drop (k * 24) (d_buf tab))" for ys .
    then show ?thesis using 2 by (simp add: sym_at_def put_sym_def del: drop_append take_append)
  next
    case 3
    then have "i * 24 + 24 + (k * 24 - (i * 24 + 24)) = k * 24" by simp
    with 3 len show ?thesis by (simp add: sym_at_def put_sym_def)
  qed (use len in \<open>simp add: sym_at_def put_sym_def\<close>)
qed

lemma update_sym_ok:
  assumes "getDataByERS e ERS_SYMTAB = Inr tab" "(i + 1) * 24 \<le> d_size tab" "d_size tab = length (d_buf tab)"
  shows "\<exists>e'. update_sym e i sy = Inr e' \<and> getDataByERS e' ERS_SYMTAB = Inr (put_sym tab i sy)"
proof -
  let ?s = "sectionIndices e ERS_SYMTAB"
  have "update_sym e i sy = Inr (set_scn e ?s (put_sym tab i sy))"
    using assms by (simp add: update_sym_def write_bytes_def put_sym_def)
  moreover have "getDataByERS (set_scn e ?s (put_sym tab i sy)) ERS_SYMTAB = Inr (put_sym tab i sy)"
    using assms(1) by (auto simp: getDataByERS_def scn_or_def getscn_def set_scn_def guardE_def split: if_splits)
  ultimately show ?thesis by blast
qed

text \<open>What is written can be read back.\<close>

lemma written_back:
  assumes "mapped (tg_mem t) a (length bs)" "\<And>j. 4 \<le> length (junk j)" "length buf = length bs"
  shows "memcpyFromTarget junk (t\<lparr>tg_mem := mem_write (tg_mem t) a bs\<rparr>) buf a (length bs) = Inr bs"
proof -
  let ?k = "unat (a mod 8)" and ?n = "length bs" and ?t = "t\<lparr>tg_mem := mem_write (tg_mem t) a bs\<rparr>"
  obtain old where old: "mem_has (tg_mem t) (word_base a) old" "length old = ?k + ?n + 11" "length old \<le> 2 ^ 64"
    using mapped_has [OF assms(1)] .
  have "mem_has (tg_mem t) (word_base a + of_nat (?k + ?n)) (drop (?k + ?n) old)"
    by (rule mem_has_drop [OF old(1)]) (use old(2) in simp)
  then have "mem_has (mem_write (tg_mem t) a bs) (a + of_nat ?n) (drop (?k + ?n) old)"
    by (intro mem_has_write_behind) (use old(2,3) in \<open>simp_all add: word_base_def\<close>)
  then have "mem_has (tg_mem ?t) a (bs @ drop (?k + ?n) old)"
    unfolding mem_has_append using mem_write_has [of bs "tg_mem t" a] old(2,3) by simp
  moreover have "copy_extent ?n \<le> length (bs @ drop (?k + ?n) old)"
  proof -
    have "copy_extent ?n \<le> ?n + 7" unfolding copy_extent_def by presburger
    with old(2) show ?thesis by simp
  qed
  ultimately show ?thesis using memcpyFromTarget_ok [of ?t a _ ?n buf junk] assms(2,3) by simp
qed

lemma insertTrampolineJump_ok:
  assumes "mapped (tg_mem (pr_target r)) a 14" "\<And>j. 4 \<le> length (pe_junk env j)"
  shows "insertTrampolineJump env a b r =
    Inr (with_target r ((pr_target r)\<lparr>tg_mem := mem_write (tg_mem (pr_target r)) a (trampoline b)\<rparr>))"
proof -
  have m: "mapped (tg_mem (pr_target r)) a (length (trampoline b))" using assms(1) by simp
  show ?thesis
    using process_writes [OF m assms(2)] written_back [OF m assms(2), of "replicate 14 0"]
    by (simp add: insertTrampolineJump_def write_target_def with_target_def pr_target_def)
qed

lemma applyFunctionPatch_existing:
  assumes "existing env f i sy" "getDataByERS (patchedBin r) ERS_SYMTAB = Inr tab" "(i + 1) * 24 \<le> d_size tab"
    "d_size tab = length (d_buf tab)" "mapped (tg_mem (pr_target r)) (st_value sy) 14" "\<And>j. 4 \<le> length (pe_junk env j)"
  shows "\<exists>r'. applyFunctionPatch env f r = Inr r' \<and>
    pr_target r' = (pr_target r)\<lparr>tg_mem := mem_write (tg_mem (pr_target r)) (st_value sy) (trampoline (new_place r f))\<rparr> \<and>
    getDataByERS (patchedBin r') ERS_SYMTAB = Inr (put_sym tab i (sy\<lparr>st_value := new_place r f\<rparr>)) \<and>
    patchTextAddr r' = patchTextAddr r"
proof -
  have "getSymAddress (pe_lib env) (targetBin env) i = Inr (st_value sy)"
    using assms(1) by (auto simp: existing_def getSymAddress_def getSymbol_def bindE_def split: sum.splits option.splits)
  moreover obtain e' where e': "update_sym (patchedBin r) i (sy\<lparr>st_value := new_place r f\<rparr>) = Inr e'"
      "getDataByERS e' ERS_SYMTAB = Inr (put_sym tab i (sy\<lparr>st_value := new_place r f\<rparr>))"
    using update_sym_ok [OF assms(2-4)] by blast
  moreover have "pr_target (r\<lparr>patchedBin := e'\<rparr>) = pr_target r" by (simp add: pr_target_def)
  ultimately show ?thesis
    using assms(1) insertTrampolineJump_ok [of "r\<lparr>patchedBin := e'\<rparr>" "st_value sy" env "new_place r f"] assms(5,6)
    by (simp add: applyFunctionPatch_def existing_def new_place_def Let_def with_target_def pr_target_def)
qed

section \<open>All functions of a unit\<close>

lemma functions_redirected_induct:
  assumes "\<And>s. s \<in> set subs \<Longrightarrow> s < length (dw_subs dw) \<and> existing env (dw_subs dw ! s) (idx s) (old s)"
    and "distinct (map idx subs)"
    and "\<And>s u. s \<in> set subs \<Longrightarrow> u \<in> set subs \<Longrightarrow> s \<noteq> u \<Longrightarrow> apart (st_value (old s)) (st_value (old u))"
    and "getDataByERS (patchedBin r) ERS_SYMTAB = Inr tab" "d_size tab = length (d_buf tab)"
    and "\<And>s. s \<in> set subs \<Longrightarrow> (idx s + 1) * 24 \<le> d_size tab"
    and "\<And>s. s \<in> set subs \<Longrightarrow> mapped (tg_mem (pr_target r)) (st_value (old s)) 14"
    and "\<And>j. 4 \<le> length (pe_junk env j)"
  shows "\<exists>r' tab'. apply_functions env dw subs r = Inr r' \<and> getDataByERS (patchedBin r') ERS_SYMTAB = Inr tab' \<and>
    (\<forall>s \<in> set subs. mem_has (tg_mem (pr_target r')) (st_value (old s)) (trampoline (new_place r (dw_subs dw ! s))) \<and>
       sym_at tab' (idx s) = (old s)\<lparr>st_value := new_place r (dw_subs dw ! s)\<rparr>) \<and>
    (\<forall>x. (\<forall>s \<in> set subs. 14 \<le> unat (x - st_value (old s))) \<longrightarrow> tg_mem (pr_target r') x = tg_mem (pr_target r) x) \<and>
    (\<forall>k. k \<notin> idx ` set subs \<longrightarrow> sym_at tab' k = sym_at tab k) \<and> tg_regs (pr_target r') = tg_regs (pr_target r)"
  using assms(1-7)
proof (induction subs arbitrary: r tab)
  case (Cons s subs)
  let ?f = "dw_subs dw ! s" and ?a = "st_value (old s)"
  have s: "s < length (dw_subs dw)" "existing env ?f (idx s) (old s)" using Cons.prems(1) by auto
  have i: "(idx s + 1) * 24 \<le> length (d_buf tab)" using Cons.prems(5,6) by auto
  obtain r1 where r1: "applyFunctionPatch env ?f r = Inr r1"
      "pr_target r1 = (pr_target r)\<lparr>tg_mem := mem_write (tg_mem (pr_target r)) ?a (trampoline (new_place r ?f))\<rparr>"
      "getDataByERS (patchedBin r1) ERS_SYMTAB = Inr (put_sym tab (idx s) ((old s)\<lparr>st_value := new_place r ?f\<rparr>))"
      "patchTextAddr r1 = patchTextAddr r"
    using applyFunctionPatch_existing [OF s(2) Cons.prems(4) _ Cons.prems(5) _ assms(8)] Cons.prems(6,7) by auto
  let ?tab1 = "put_sym tab (idx s) ((old s)\<lparr>st_value := new_place r ?f\<rparr>)"
  have place: "new_place r1 g = new_place r g" for g by (simp add: new_place_def r1(4))
  have size: "d_size ?tab1 = length (d_buf ?tab1)" using Cons.prems(5) i by simp
  have mapped1: "mapped (tg_mem (pr_target r1)) (st_value (old u)) 14" if "u \<in> set subs" for u
    unfolding r1(2) using Cons.prems(7) [of u] that by (simp add: mapped_write)
  obtain r' tab' where r': "apply_functions env dw subs r1 = Inr r'" "getDataByERS (patchedBin r') ERS_SYMTAB = Inr tab'"
      "\<forall>u \<in> set subs. mem_has (tg_mem (pr_target r')) (st_value (old u)) (trampoline (new_place r (dw_subs dw ! u))) \<and>
         sym_at tab' (idx u) = (old u)\<lparr>st_value := new_place r (dw_subs dw ! u)\<rparr>"
      "\<forall>x. (\<forall>u \<in> set subs. 14 \<le> unat (x - st_value (old u))) \<longrightarrow> tg_mem (pr_target r') x = tg_mem (pr_target r1) x"
      "\<forall>k. k \<notin> idx ` set subs \<longrightarrow> sym_at tab' k = sym_at ?tab1 k" "tg_regs (pr_target r') = tg_regs (pr_target r1)"
    using Cons.IH [OF _ _ _ r1(3) size _ mapped1] Cons.prems(1-3,6) unfolding place by auto
  have new: "s \<notin> set subs" "idx s \<notin> idx ` set subs" using Cons.prems(2) by auto
  have "mem_has (tg_mem (pr_target r')) ?a (trampoline (new_place r ?f))"
  proof -
    have "tg_mem (pr_target r') (?a + of_nat n) = tg_mem (pr_target r1) (?a + of_nat n)" if "n < 14" for n
    proof -
      have "14 \<le> unat (?a + of_nat n - st_value (old u))" if "u \<in> set subs" for u
        by (rule apart_outside) (use Cons.prems(3) [of s u] that new(1) \<open>n < 14\<close> in auto)
      then show ?thesis using r'(4) by blast
    qed
    moreover have "mem_has (tg_mem (pr_target r1)) ?a (trampoline (new_place r ?f))" unfolding r1(2) by (simp add: mem_write_has)
    ultimately show ?thesis by (simp add: mem_has_def)
  qed
  moreover have "sym_at tab' (idx s) = (old s)\<lparr>st_value := new_place r ?f\<rparr>"
    using r'(5) new(2) sym_at_put_sym [OF i] by simp
  moreover have "tg_mem (pr_target r') x = tg_mem (pr_target r) x" if "\<forall>u \<in> set (s # subs). 14 \<le> unat (x - st_value (old u))" for x
    using r'(4) that unfolding r1(2) by (simp add: mem_write_def)
  moreover have "sym_at tab' k = sym_at tab k" if "k \<notin> idx ` set (s # subs)" for k
    using r'(5) that sym_at_put_sym [OF i] by simp
  moreover have "apply_functions env dw (s # subs) r = Inr r'" using s(1) r1(1) r'(1) by simp
  moreover have "tg_regs (pr_target r') = tg_regs (pr_target r)" using r'(6) r1(2) by simp
  ultimately show ?case using r'(2,3) by (intro exI [of _ r'] exI [of _ tab']) (simp only: list.set ball_simps simp_thms, blast)
qed simp

text \<open>
  C40: when every changed function of the patch is in the running program, under a symbol of its own, its code mapped and no
  two of them within fourteen bytes of each other, applying the functions of a unit succeeds: the first instruction at the
  address of every one of them is then a jump that leads to its new code, the text of the patch at \<open>lowpc\<close> (as a 32-bit
  number); its symbol in the patched object differs from that of the running program only in having the new address; and no
  byte outside these jumps, no other symbol and no register has changed.
\<close>

theorem functions_redirected:
  assumes "\<And>s. s \<in> set subs \<Longrightarrow> s < length (dw_subs dw) \<and> existing env (dw_subs dw ! s) (idx s) (old s)"
    and "distinct (map idx subs)"
    and "\<And>s u. s \<in> set subs \<Longrightarrow> u \<in> set subs \<Longrightarrow> s \<noteq> u \<Longrightarrow> apart (st_value (old s)) (st_value (old u))"
    and "getDataByERS (patchedBin r) ERS_SYMTAB = Inr tab" "d_size tab = length (d_buf tab)"
    and "\<And>s. s \<in> set subs \<Longrightarrow> (idx s + 1) * 24 \<le> d_size tab"
    and "\<And>s. s \<in> set subs \<Longrightarrow> mapped (tg_mem (pr_target r)) (st_value (old s)) 14"
    and "\<And>j. 4 \<le> length (pe_junk env j)"
  shows "\<exists>r' tab'. apply_functions env dw subs r = Inr r' \<and> getDataByERS (patchedBin r') ERS_SYMTAB = Inr tab' \<and>
    (\<forall>s \<in> set subs.
       jump_target (tg_mem (pr_target r')) (st_value (old s)) =
         Some (patchTextAddr r + ucast (ucast (sp_lowpc (dw_subs dw ! s)) :: uint)) \<and>
       sym_at tab' (idx s) = (old s)\<lparr>st_value := patchTextAddr r + ucast (ucast (sp_lowpc (dw_subs dw ! s)) :: uint)\<rparr>) \<and>
    (\<forall>x. (\<forall>s \<in> set subs. 14 \<le> unat (x - st_value (old s))) \<longrightarrow> tg_mem (pr_target r') x = tg_mem (pr_target r) x) \<and>
    (\<forall>k. k \<notin> idx ` set subs \<longrightarrow> sym_at tab' k = sym_at tab k) \<and> tg_regs (pr_target r') = tg_regs (pr_target r)"
  using functions_redirected_induct [of subs dw env idx old r tab, OF assms] trampoline_jumps unfolding new_place_def by blast

text \<open>The functions \<open>f\<close> at 4096 and \<open>g\<close> at 8192 of \<open>big_elf\<close>, whose new code is at 0 and 32 of a text mapped at 65536.\<close>

definition two_functions :: DwarfState where
  "two_functions = \<lparr>dw_types = [], dw_vars = [], dw_subs =
     [\<lparr>sp_name = ''f'', sp_lowpc = 0, sp_highpc = 32, sb_types = [], sb_hasVariableParams = False, sb_cu = 0\<rparr>,
      \<lparr>sp_name = ''g'', sp_lowpc = 32, sp_highpc = 64, sb_types = [], sb_hasVariableParams = False, sb_cu = 0\<rparr>],
     dw_cus = [], dw_cuIdentifiers = dictCreate 1, dw_active = []\<rparr>"

definition apply_env :: PatchEnv where
  "apply_env = \<lparr>pe_lib = elf64, pe_junk = \<lambda>_. [1, 2, 3, 4], pe_run = id, pe_pageSize = 4096, pe_fuel = 1, targetBin = big_elf,
     fdeMap = mapCreate 1 ucast (\<lambda>_ _. 0), pe_fdes = [], pe_syms = \<lambda>_ _. no_symbols\<rparr>"

definition apply_start :: PatchRun where
  "apply_start = \<lparr>patchedBin = big_elf, patchObj = big_elf, pr_space = \<lparr>addrFreeSpace = 0, freeSpaceLeft = 0\<rparr>,
     pr_data = \<lparr>ps_target = blank_target, ps_moved = None, ps_store = [], ps_states = None\<rparr>, patchTextAddr = 65536,
     patchRodataAddr = 0, patchDataAddr = 0, patchRelTextAddr = 0\<rparr>"

lemma big_existing:
  "existing apply_env (dw_subs two_functions ! 0) 1 \<lparr>st_name = 1, st_info = 0x12, st_other = 0, st_shndx = 0, st_value = 4096, st_size = 16\<rparr>"
  "existing apply_env (dw_subs two_functions ! 1) 2 \<lparr>st_name = 3, st_info = 0x12, st_other = 0, st_shndx = 0, st_value = 8192, st_size = 16\<rparr>"
proof -
  have f: "symtab_for big_elf 0 = Inr big_symtab" "string_for big_elf 0 = getString big_elf" "0 < strTblIdx big_elf"
    by (auto simp: symtab_for_def string_for_def flag_def big_data) (simp add: big_elf_def)
  have l: "[0..<3] = [0, 1, 2 :: nat]" by (simp add: upt_conv_Cons)
  note idx = getSymtabIdx_def f big_data l big_symbols big_symbols [simplified] big_strings [simplified] unmangled_def unmangleSymbolName_def flag_def
  have "getSymtabIdx elf64 big_elf ''f'' 0 = Inr 1" by (simp add: idx)
  moreover have "getSymtabIdx elf64 big_elf ''g'' 0 = Inr 2" by (simp add: idx)
  ultimately show
    "existing apply_env (dw_subs two_functions ! 0) 1 \<lparr>st_name = 1, st_info = 0x12, st_other = 0, st_shndx = 0, st_value = 4096, st_size = 16\<rparr>"
    "existing apply_env (dw_subs two_functions ! 1) 2 \<lparr>st_name = 3, st_info = 0x12, st_other = 0, st_shndx = 0, st_value = 8192, st_size = 16\<rparr>"
    by (simp_all add: existing_def apply_env_def two_functions_def getSymbol_def big_data big_symbols big_symbols [simplified])
qed

theorem functions_redirected_witness:
  "\<exists>r'. apply_functions apply_env two_functions [0, 1] apply_start = Inr r' \<and>
    jump_target (tg_mem (pr_target r')) 4096 = Some 65536 \<and> jump_target (tg_mem (pr_target r')) 8192 = Some 65568 \<and>
    tg_mem (pr_target r') 4110 = Some 0"
proof -
  let ?old = "\<lambda>s :: nat. \<lparr>st_name = if s = 0 then 1 else 3, st_info = 0x12, st_other = 0, st_shndx = 0,
      st_value = if s = 0 then 4096 else 8192, st_size = 16\<rparr> :: GElf_Sym"
  have t: "pr_target apply_start = blank_target" "patchTextAddr apply_start = 65536" "patchedBin apply_start = big_elf"
    by (simp_all add: pr_target_def apply_start_def)
  have ex: "s < length (dw_subs two_functions) \<and> existing apply_env (dw_subs two_functions ! s) (s + 1) (?old s)" if "s \<in> set [0, 1]" for s
    using that big_existing by (auto simp: two_functions_def simp flip: numeral_2_eq_2)
  have ap: "apart (st_value (?old s)) (st_value (?old u))" if "s \<in> set [0, 1]" "u \<in> set [0, 1]" "s \<noteq> u" for s u
    using that by (auto simp: apart_def)
  have mp: "mapped (tg_mem (pr_target apply_start)) (st_value (?old s)) 14" for s
    by (simp add: t mapped_def blank_target_def unat_mod)
  have sz: "(s + 1 + 1) * 24 \<le> d_size big_symtab" if "s \<in> set [0, 1 :: nat]" for s
    using that by (auto simp: big_symtab_def)
  have jk: "4 \<le> length (pe_junk apply_env j)" for j by (simp add: apply_env_def)
  have tab: "getDataByERS (patchedBin apply_start) ERS_SYMTAB = Inr big_symtab" "d_size big_symtab = length (d_buf big_symtab)"
    by (simp_all add: t big_data big_symbol_bytes)
  have dist: "distinct (map (\<lambda>s. s + 1) [0, 1 :: nat])" by simp
  obtain r' where r': "apply_functions apply_env two_functions [0, 1] apply_start = Inr r'"
      "\<forall>s \<in> set [0, 1]. jump_target (tg_mem (pr_target r')) (st_value (?old s)) =
         Some (patchTextAddr apply_start + ucast (ucast (sp_lowpc (dw_subs two_functions ! s)) :: uint))"
      "\<forall>x. (\<forall>s \<in> set [0, 1]. 14 \<le> unat (x - st_value (?old s))) \<longrightarrow> tg_mem (pr_target r') x = tg_mem (pr_target apply_start) x"
    using functions_redirected [of "[0, 1]" two_functions apply_env "\<lambda>s. s + 1" ?old apply_start big_symtab, OF ex dist ap tab sz mp jk]
    by blast
  have "tg_mem (pr_target r') 4110 = tg_mem blank_target 4110"
    using r'(3) [rule_format, of 4110] by (simp add: t unsigned_minus_1_eq_mask)
  then show ?thesis using r'(1,2) by (simp add: t two_functions_def blank_target_def)
qed

end
