(* ===== verification/Spec2Isabelle.thy ===== *)
theory Spec2Isabelle
  imports Except_Properties Store_Properties Dwarf_VM_Properties Patch_Properties Frame_Section_Properties List_Properties
    Code_Diff_Properties Relocation_Properties Type_Diff_Properties Safety_Properties Process_Patch Free_Space Elf_Writer_Properties Paths
    Link_Map_Properties Dwarf_Types_Properties Patch_Apply_Properties
begin

text \<open>
  A model of Katana (\<^verbatim>\<open>src/src\<close>): a tool that compares two builds of a C program, writes what changed as a patch object
  in ELF and DWARF form, and applies it to the running process.  The theories follow the C core of the tool; every
  definition has the name of the function, structure or step it stands for.

  \<^bold>\<open>How the program works, and where it is modelled.\<close>  The \<^emph>\<open>writer\<close> reads the types, variables and functions
  of the two builds (\<^verbatim>\<open>dwarftypes.c\<close>: Dwarf_Dies and the Dwarf_Types theories, with \<^verbatim>\<open>util/path.c\<close>: Paths), compares their types
  (\<^verbatim>\<open>patchwrite/typediff.c\<close>, Type_Diff) and their code (\<^verbatim>\<open>codediff.c\<close>, Code_Diff), and records how data is to be
  carried over as call frame instructions, with register numbers and DWARF expressions of its own.  These are written
  and read as LEB128 numbers (\<^verbatim>\<open>leb.c\<close>: Leb128, Leb128_Encode, Leb128_Decode), expressions and instructions
  (\<^verbatim>\<open>dwarf_instr.c\<close>, the parser in \<^verbatim>\<open>fderead.c\<close>: Growing_Buffer, Instr_Stream, Dwarf_Expr, Dwarf_Instr), registers
  (\<^verbatim>\<open>register.c\<close>: Registers), encoded pointers (\<^verbatim>\<open>eh_pe.c\<close>: Eh_Pe), entries of the frame section
  (\<^verbatim>\<open>callFrameInfo.c\<close>: Call_Frame, Frame_Section) and exception tables (\<^verbatim>\<open>exceptTable.c\<close>: the Except theories), into an object
  whose sections, strings and symbols are added one by one (\<^verbatim>\<open>elfwriter.c\<close>: the Elf_Writer theories).
  The \<^emph>\<open>patcher\<close> (\<^verbatim>\<open>patcher/patchapply.c\<close>: Patch_Apply, which calls the rest) finds functions of the running process
  (\<^verbatim>\<open>patcher/linkmap.c\<close>: Link_Map) and a place where the process may be stopped (\<^verbatim>\<open>patcher/safety.c\<close>: Safety), looks up symbols
  (\<^verbatim>\<open>symbol.c\<close>: Symbols, on the sections of Elf_File) and relocates code (\<^verbatim>\<open>relocation.c\<close>: Relocation), interprets the
  frame entries of the patch (\<^verbatim>\<open>dwarfvm.c\<close>: Dwarf_VM, Dwarf_Stack, Patch_Data) and writes the outcome into the process
  (\<^verbatim>\<open>patcher/target.c\<close>: Target_Memory; \<^verbatim>\<open>hotpatch.c\<close>: Free_Space).  All rest on \<^verbatim>\<open>util\<close>: Util, Hash_Table and
  Dictionary with Dictionary_Copy (\<^verbatim>\<open>dictionary.c\<close>, \<^verbatim>\<open>map.c\<close>, \<^verbatim>\<open>hash.c\<close>), Linked_List (\<^verbatim>\<open>list.c\<close>), Growing_Buffer.

  \<^bold>\<open>How code becomes definitions.\<close>  Katana_Prelude has the machine integers as words, memory as lists of bytes, and the
  result of a run: a value, or the fault that ends it (a failed \<^verbatim>\<open>assert\<close>, a call of \<^verbatim>\<open>death\<close>, undefined behaviour by its
  kind).  Structures are records, enumerations datatypes.  Where the code links objects by address, Heap_Model has a heap
  whose cells are freed and never reused, so that dangling pointers show: the nodes of tables and lists, the rules of the
  interpreter, types and their transformations.  The process is a partial map from addresses to bytes with its
  registers (Target_Memory).  State is passed along and returned.

  \<^bold>\<open>Parameters.\<close>  What is not the program's own is an argument: libelf's readers of symbols and relocations
  (the record \<^verbatim>\<open>LibElf\<close>; \<^verbatim>\<open>reads_tables\<close> says that they read the tables, and \<^verbatim>\<open>elf64\<close> does so), \<^verbatim>\<open>gelf_getdyn\<close> and
  \<^verbatim>\<open>elf_hash\<close>, libdwarf's tree of debugging entries, \<^verbatim>\<open>realpath\<close> and \<^verbatim>\<open>stat\<close>, the C++ demangler, the memory map, what the
  process does while it runs, what libunwind and \<^verbatim>\<open>waitpid\<close> report, the page size, and what lies on the stack behind a
  variable that is read beyond its end.  The logging has no effect and is left out, but what is computed for it is not.

  \<^bold>\<open>Interfaces.\<close>  A locale states each contract between components, and is interpreted on the model: \<^verbatim>\<open>byte_sink\<close>, what may be
  appended to a buffer; \<^verbatim>\<open>prefix_codec\<close>, encoders and parsers of instruction streams, for expressions and for call frame
  instructions; \<^verbatim>\<open>assoc_store\<close> and \<^verbatim>\<open>keyed_table\<close>, the chains of a hash table and the laws of a map, for the dictionary and the
  integer maps; \<^verbatim>\<open>comparison_sort\<close>, sorting by a comparison function, for lists and for search tables; \<^verbatim>\<open>string_table\<close> and
  \<^verbatim>\<open>section_names\<close>, what adding a string to an object keeps; \<^verbatim>\<open>patch_writer\<close>, between the patch data and the process.

  \<^bold>\<open>What is shown.\<close>  Round trips: LEB128 numbers, registers, expressions, instructions, pointers, exception tables and
  relocation entries read back as they were written, and the theorems say where they do not.  Well-formedness: the entries
  of a frame section, the search table that leads back to them, the invariants of tables, of types that are read and
  of types that are compared, the indices, names and symbols of the sections of an object.
  Refinement: dictionaries and maps against maps of HOL, the rule interpreter against one over rule maps, the merge
  sort of linked nodes against a stable sort, patching against a sequence of writes to memory.  Safety: where the process is stopped
  no changed function is active, writing changes the bytes asked for and no others, a changed function becomes a jump to
  its new code and nothing else changes, functions reported identical agree but behind relocations.  Faults: where the code fails an assertion, runs past an array, uses freed memory or does not
  end, a theorem or lemma gives the inputs.

  \<^bold>\<open>Bounds.\<close>  Loops over arrays are structural or have a measure.  Fuel bounds a walk that the code does not: along links
  (the number of cells is enough, and running out is the fault \<^verbatim>\<open>Diverges\<close>, which on well-formed structures is shown not to
  occur); the calls of a comparison of types (one more than the types not yet compared is enough);
  the fixups of a patch, which may lead back to themselves; the binary search for a frame entry (one more than the
  entries); the hash chains, dynamic sections and objects of a running process, which may be cyclic (the lengths of the lists are
  enough); the names and the tree of debugging entries, which the debugging information may make endless.

  \<^bold>\<open>Not modelled.\<close>  The driver of the writer (\<^verbatim>\<open>patchwrite.c\<close>, \<^verbatim>\<open>write_to_dwarf.c\<close>, \<^verbatim>\<open>fdewrite.c\<close>), which is calls of libdwarf's
  producer between the components above, and the loop of \<^verbatim>\<open>fderead.c\<close> over libdwarf's frame entries.  In \<^verbatim>\<open>patchapply.c\<close> the
  layout of the file and its program headers, which libelf keeps, and the copy of the program on disk.  Opening and copying
  files, listing source trees (\<^verbatim>\<open>sourcetree.c\<close>), versions (\<^verbatim>\<open>versioning.c\<close>), the memory map (\<^verbatim>\<open>pmap.c\<close>), command line and configuration, printing
  (\<^verbatim>\<open>info\<close>, logging) and attaching to a process are system calls and output.  The shell is C++ with a generated parser.  Of
  the two architectures the 64-bit one is modelled.
\<close>

end
